(* ===== verification/HB_Prelude.thy ===== *)
theory HB_Prelude
  imports Complex_Main
begin

text \<open>
  Shared vocabulary of the development: the numbers the TypeScript code computes with, the text of a
  number and its padding, the two collections of facts the component theories feed
  (\<open>store_simps\<close> for key-value stores, \<open>table_simps\<close> for SQL tables), and the list operations that
  an SQL statement over one table becomes.

  JavaScript numbers: every quantity the modelled code computes with (rials, seats, versions, sequence
  numbers, epoch milliseconds) is an integer by its schema or column type, and is an \<open>int\<close> or \<open>nat\<close>
  here; \<open>is_safe_integer\<close> is the range half of \<open>Number.isSafeInteger\<close>. Strings are lists of
  Latin-1 code units. User-facing message texts are not modelled; error classes and codes are.
\<close>

named_theorems store_simps "laws of key-value stores and their implementations"
named_theorems table_simps "laws of the list operations that model SQL statements"

subsection \<open>Numbers\<close>

type_synonym rial = int
type_synonym epoch_ms = int
type_synonym epoch_s = int

definition max_safe_integer :: int where
  "max_safe_integer = 9007199254740991"

definition is_safe_integer :: "int \<Rightarrow> bool" where
  "is_safe_integer n \<longleftrightarrow> - max_safe_integer \<le> n \<and> n \<le> max_safe_integer"

lemma is_safe_integer_small [simp]: "0 \<le> n \<Longrightarrow> n \<le> 9007199254740991 \<Longrightarrow> is_safe_integer n"
  by (simp add: is_safe_integer_def max_safe_integer_def)

text \<open>\<open>Math.round\<close> of the quotient of two integers with a positive divisor: half rounds up.\<close>

definition round_quot :: "int \<Rightarrow> int \<Rightarrow> int" where
  "round_quot n d = (2 * n + d) div (2 * d)"

lemma round_quot_floor:
  assumes "0 < d"
  shows "round_quot n d = \<lfloor>real_of_int n / real_of_int d + 1 / 2\<rfloor>"
proof -
  have "real_of_int n / real_of_int d + 1 / 2 = real_of_int (2 * n + d) / real_of_int (2 * d)"
    using assms by (simp add: field_simps)
  then show ?thesis
    by (simp only: round_quot_def floor_divide_of_int_eq)
qed

lemma round_quot_bounds:
  assumes "0 < d"
  shows "2 * d * round_quot n d \<le> 2 * n + d" and "2 * n + d < 2 * d * round_quot n d + 2 * d"
proof -
  have eq: "2 * d * round_quot n d + (2 * n + d) mod (2 * d) = 2 * n + d"
    unfolding round_quot_def by (rule mult_div_mod_eq)
  have "0 \<le> (2 * n + d) mod (2 * d)" and "(2 * n + d) mod (2 * d) < 2 * d"
    using assms by simp_all
  with eq show "2 * d * round_quot n d \<le> 2 * n + d" and "2 * n + d < 2 * d * round_quot n d + 2 * d"
    by linarith+
qed

lemma round_quot_nonneg: "0 < d \<Longrightarrow> 0 \<le> n \<Longrightarrow> 0 \<le> round_quot n d"
  by (simp add: round_quot_def pos_imp_zdiv_nonneg_iff)

lemma round_quot_mono: "0 < d \<Longrightarrow> m \<le> n \<Longrightarrow> round_quot m d \<le> round_quot n d"
  by (simp add: round_quot_def zdiv_mono1)

lemma round_quot_multiple [simp]: "0 < d \<Longrightarrow> round_quot (k * d) d = k"
proof -
  assume d: "0 < d"
  have "2 * (k * d) + d = d + k * (2 * d)" by simp
  then have "round_quot (k * d) d = k + d div (2 * d)"
    unfolding round_quot_def using d by (metis add.commute div_mult_self1 mult_pos_pos not_less_iff_gr_or_eq zero_less_numeral)
  then show ?thesis using d by simp
qed

subsection \<open>The text of a number\<close>

text \<open>\<open>String(n)\<close> for a natural number, and \<open>padStart\<close>, which never truncates.\<close>

fun digit_char :: "nat \<Rightarrow> char" where
  "digit_char d = char_of (48 + d)"

fun show_nat :: "nat \<Rightarrow> string" where
  "show_nat n = (if n < 10 then [digit_char n] else show_nat (n div 10) @ [digit_char (n mod 10)])"

declare show_nat.simps [simp del]

definition pad_start :: "nat \<Rightarrow> char \<Rightarrow> string \<Rightarrow> string" where
  "pad_start w c s = replicate (w - length s) c @ s"

definition digits_value :: "string \<Rightarrow> nat" where
  "digits_value s = foldl (\<lambda>acc c. 10 * acc + (of_char c - 48)) 0 s"

lemma digits_value_snoc: "digits_value (s @ [c]) = 10 * digits_value s + (of_char c - 48)"
  by (simp add: digits_value_def)

lemma of_digit_char: "d < 10 \<Longrightarrow> of_char (digit_char d) = 48 + d"
  by simp

lemma digits_value_show_nat [simp]: "digits_value (show_nat n) = n"
proof (induction n rule: show_nat.induct)
  case (1 n)
  show ?case
  proof (cases "n < 10")
    case True
    then show ?thesis
      by (subst show_nat.simps) (simp add: digits_value_def)
  next
    case False
    with 1 have "digits_value (show_nat (n div 10)) = n div 10" by simp
    with False show ?thesis
      by (subst show_nat.simps) (simp add: digits_value_snoc)
  qed
qed

lemma show_nat_inj: "show_nat m = show_nat n \<Longrightarrow> m = n"
  by (metis digits_value_show_nat)

lemma digits_value_zeros: "digits_value (replicate k (CHR ''0'') @ s) = digits_value s"
proof -
  have "foldl (\<lambda>acc c. 10 * acc + (of_char c - 48)) (0::nat) (replicate k (CHR ''0'')) = 0"
    by (induction k) simp_all
  then show ?thesis by (simp add: digits_value_def)
qed

lemma digits_value_padded [simp]: "digits_value (pad_start w (CHR ''0'') (show_nat n)) = n"
  by (simp add: pad_start_def digits_value_zeros)

lemma pad_start_show_inj:
  "pad_start w (CHR ''0'') (show_nat m) = pad_start w (CHR ''0'') (show_nat n) \<Longrightarrow> m = n"
  by (metis digits_value_padded)

lemma set_show_nat: "set (show_nat n) \<subseteq> digit_char ` {..<10}"
proof (induction n rule: show_nat.induct)
  case (1 n)
  show ?case
  proof (cases "n < 10")
    case True
    then show ?thesis by (subst show_nat.simps) auto
  next
    case False
    with 1 have "set (show_nat (n div 10)) \<subseteq> digit_char ` {..<10}" by simp
    moreover have "digit_char (n mod 10) \<in> digit_char ` {..<10}" by (rule imageI) simp
    ultimately show ?thesis using False by (subst show_nat.simps) (simp del: digit_char.simps)
  qed
qed

lemma digit_char_neq: "d < 10 \<Longrightarrow> c = digit_char d \<Longrightarrow> 48 \<le> (of_char c :: nat) \<and> of_char c < (58::nat)"
  by simp

lemma nondigit_not_in_show_nat:
  assumes "(of_char c :: nat) < 48 \<or> 58 \<le> (of_char c :: nat)"
  shows "c \<notin> set (show_nat n)"
proof
  assume "c \<in> set (show_nat n)"
  then have "c \<in> digit_char ` {..<10}" using set_show_nat by blast
  then obtain d where "d < 10" and "c = digit_char d" by auto
  then have "48 \<le> (of_char c :: nat) \<and> of_char c < (58::nat)" by (rule digit_char_neq)
  with assms show False by simp
qed

lemma separator_not_in_show_nat [simp]:
  "CHR ''-'' \<notin> set (show_nat n)" "CHR ''/'' \<notin> set (show_nat n)"
  by (rule nondigit_not_in_show_nat, simp)+

lemma separator_not_in_padded [simp]:
  "CHR ''-'' \<notin> set (pad_start w (CHR ''0'') (show_nat n))"
  "CHR ''/'' \<notin> set (pad_start w (CHR ''0'') (show_nat n))"
  by (simp_all add: pad_start_def)

text \<open>Two words around one separator that the first word does not contain.\<close>

lemma append_sep_inj:
  "xs @ c # ys = xs' @ c # ys' \<Longrightarrow> c \<notin> set xs \<Longrightarrow> c \<notin> set xs' \<Longrightarrow> xs = xs' \<and> ys = ys'"
proof (induction xs arbitrary: xs')
  case Nil
  then show ?case by (cases xs') auto
next
  case (Cons x xs)
  then show ?case by (cases xs') auto
qed

subsection \<open>SQL statements over one table\<close>

text \<open>
  A table is the list of its rows. An \<open>UPDATE t SET f WHERE p\<close> maps the matching rows, a
  \<open>DELETE\<close> filters, an \<open>INSERT\<close> appends, \<open>rowCount\<close> counts the matching rows, and
  \<open>COALESCE((SELECT MAX(c) ...), 0)\<close> is the maximum over the selected rows with default 0.
\<close>

definition sql_update :: "('r \<Rightarrow> bool) \<Rightarrow> ('r \<Rightarrow> 'r) \<Rightarrow> 'r list \<Rightarrow> 'r list" where
  "sql_update p f t = map (\<lambda>r. if p r then f r else r) t"

definition sql_delete :: "('r \<Rightarrow> bool) \<Rightarrow> 'r list \<Rightarrow> 'r list" where
  "sql_delete p t = filter (\<lambda>r. \<not> p r) t"

definition sql_count :: "('r \<Rightarrow> bool) \<Rightarrow> 'r list \<Rightarrow> nat" where
  "sql_count p t = length (filter p t)"

definition sql_max :: "('r \<Rightarrow> nat) \<Rightarrow> ('r \<Rightarrow> bool) \<Rightarrow> 'r list \<Rightarrow> nat" where
  "sql_max c p t = foldr (\<lambda>r m. if p r then max (c r) m else m) t 0"

lemma sql_update_Nil [simp, table_simps]: "sql_update p f [] = []"
  by (simp add: sql_update_def)

lemma sql_update_Cons [simp, table_simps]:
  "sql_update p f (r # t) = (if p r then f r else r) # sql_update p f t"
  by (simp add: sql_update_def)

lemma sql_update_append [table_simps]: "sql_update p f (t @ u) = sql_update p f t @ sql_update p f u"
  by (simp add: sql_update_def)

lemma length_sql_update [simp, table_simps]: "length (sql_update p f t) = length t"
  by (simp add: sql_update_def)

lemma in_set_sql_update [table_simps]:
  "r \<in> set (sql_update p f t) \<longleftrightarrow> (\<exists>q \<in> set t. r = (if p q then f q else q))"
  by (auto simp: sql_update_def)

lemma bex_sql_update [table_simps]:
  "(\<exists>r \<in> set (sql_update p f t). Q r) \<longleftrightarrow> (\<exists>r \<in> set t. if p r then Q (f r) else Q r)"
  by (auto simp: sql_update_def)

lemma ball_sql_update [table_simps]:
  "(\<forall>r \<in> set (sql_update p f t). Q r) \<longleftrightarrow> (\<forall>r \<in> set t. if p r then Q (f r) else Q r)"
  by (auto simp: sql_update_def)

lemma sql_update_none [table_simps]: "(\<And>r. r \<in> set t \<Longrightarrow> \<not> p r) \<Longrightarrow> sql_update p f t = t"
  by (simp add: sql_update_def map_idI)

lemma sql_delete_Nil [simp, table_simps]: "sql_delete p [] = []"
  by (simp add: sql_delete_def)

lemma in_set_sql_delete [simp, table_simps]: "r \<in> set (sql_delete p t) \<longleftrightarrow> r \<in> set t \<and> \<not> p r"
  by (auto simp: sql_delete_def)

lemma sql_count_delete [table_simps]: "sql_count p t + length (sql_delete p t) = length t"
  by (simp add: sql_count_def sql_delete_def sum_length_filter_compl)

lemma sql_max_ge: "r \<in> set t \<Longrightarrow> p r \<Longrightarrow> c r \<le> sql_max c p t"
  by (induction t) (auto simp: sql_max_def)

lemma sql_max_le: "(\<And>r. r \<in> set t \<Longrightarrow> p r \<Longrightarrow> c r \<le> n) \<Longrightarrow> sql_max c p t \<le> n"
  by (induction t) (auto simp: sql_max_def)

lemma sql_max_Nil [simp, table_simps]: "sql_max c p [] = 0"
  by (simp add: sql_max_def)

lemma sql_max_append [table_simps]: "sql_max c p (t @ u) = max (sql_max c p t) (sql_max c p u)"
  by (induction t) (auto simp: sql_max_def)

lemma sql_max_single [table_simps]: "sql_max c p [r] = (if p r then c r else 0)"
  by (simp add: sql_max_def)

lemma sql_max_delete:
  assumes "\<forall>r \<in> set t. p r \<and> q r \<longrightarrow> c r \<le> m"
  shows "max (sql_max c p (sql_delete q t)) m = max (sql_max c p t) m"
proof (rule antisym)
  have "sql_max c p (sql_delete q t) \<le> sql_max c p t"
    by (rule sql_max_le) (auto intro: sql_max_ge)
  then show "max (sql_max c p (sql_delete q t)) m \<le> max (sql_max c p t) m" by auto
  have "c r \<le> max (sql_max c p (sql_delete q t)) m" if "r \<in> set t" "p r" for r
  proof (cases "q r")
    case True
    with assms that show ?thesis by auto
  next
    case False
    with that have "c r \<le> sql_max c p (sql_delete q t)" by (intro sql_max_ge) simp_all
    then show ?thesis by simp
  qed
  then have "sql_max c p t \<le> max (sql_max c p (sql_delete q t)) m" by (rule sql_max_le)
  then show "max (sql_max c p t) m \<le> max (sql_max c p (sql_delete q t)) m" by simp
qed

lemma sql_max_attained: "sql_max c p t = 0 \<or> (\<exists>r \<in> set t. p r \<and> c r = sql_max c p t)"
proof (induction t)
  case Nil
  then show ?case by simp
next
  case (Cons r t)
  then show ?case by (auto simp: sql_max_def max_def)
qed

text \<open>Looking up the first row that satisfies a predicate, as \<open>rows[0]\<close> and \<open>Array.find\<close> do.\<close>

lemma find_Some_in_set: "find p t = Some r \<Longrightarrow> r \<in> set t \<and> p r"
  by (auto simp: find_Some_iff)

lemma find_None_not: "find p t = None \<Longrightarrow> r \<in> set t \<Longrightarrow> \<not> p r"
  by (auto simp: find_None_iff)

lemma find_unique:
  assumes "r \<in> set t" "p r" "\<forall>q \<in> set t. p q \<longrightarrow> q = r"
  shows "find p t = Some r"
proof (cases "find p t")
  case None
  with assms(1,2) show ?thesis by (auto simp: find_None_iff)
next
  case (Some q)
  with assms(3) have "q = r" by (blast dest: find_Some_in_set)
  with Some show ?thesis by simp
qed

subsection \<open>Maps\<close>

text \<open>\<open>m.get(k) ?? d\<close>.\<close>

definition get_or :: "'v \<Rightarrow> ('k \<rightharpoonup> 'v) \<Rightarrow> 'k \<Rightarrow> 'v" where
  "get_or d m k = (case m k of None \<Rightarrow> d | Some v \<Rightarrow> v)"

lemma get_or_empty [simp, store_simps]: "get_or d Map.empty k = d"
  by (simp add: get_or_def)

lemma get_or_upd [simp, store_simps]: "get_or d (m(k \<mapsto> v)) k' = (if k' = k then v else get_or d m k')"
  by (simp add: get_or_def)


subsection \<open>Results\<close>

text \<open>Running one fallible step after another, and a database transaction around such steps.\<close>

fun and_then :: "'e + 'a \<Rightarrow> ('a \<Rightarrow> 'e + 'b) \<Rightarrow> 'e + 'b" where
  "and_then (Inl e) f = Inl e"
| "and_then (Inr a) f = f a"

lemma and_then_Inr_iff: "and_then m f = Inr b \<longleftrightarrow> (\<exists>a. m = Inr a \<and> f a = Inr b)"
  by (cases m) simp_all

lemma and_then_InrE:
  assumes "and_then m f = Inr b" obtains a where "m = Inr a" "f a = Inr b"
  using assms by (auto simp: and_then_Inr_iff)

lemma map_sum_Inr_iff: "map_sum f id m = Inr x \<longleftrightarrow> m = Inr x"
  by (cases m) simp_all

definition withTransaction :: "('db \<Rightarrow> 'e + 'r \<times> 'db) \<Rightarrow> 'db \<Rightarrow> ('e + 'r) \<times> 'db" where
  "withTransaction f db = (case f db of Inl e \<Rightarrow> (Inl e, db) | Inr (r, db') \<Rightarrow> (Inr r, db'))"

lemma withTransaction_cases:
  "(\<exists>r db'. f db = Inr (r, db') \<and> withTransaction f db = (Inr r, db')) \<or>
   (\<exists>e. f db = Inl e \<and> withTransaction f db = (Inl e, db))"
  by (cases "f db") (auto simp: withTransaction_def)

end
