(* ===== verification/Money.thy ===== *)
theory Money
  imports HB_Prelude
begin

text \<open>
  \<open>packages/billing-core/src/money.ts\<close>: integer rial arithmetic with one rounding rule. The single
  function \<open>computeCharge\<close> yields both the amount sent to the payment gateway and the figures of the
  invoice; \<open>assertGatewayAmount\<close> guards the amount that leaves the system.
\<close>

subsection \<open>Rounding\<close>

definition percentOfRial :: "rial \<Rightarrow> int \<Rightarrow> rial" where
  "percentOfRial baseRial percent = round_quot (baseRial * percent) 100"

subsection \<open>Data\<close>

datatype CouponEffect = CouponPercent int | CouponAmount rial

datatype BillingPeriod = Monthly | Yearly

record Plan =
  plan_code :: string
  plan_name :: string
  priceMonthlyRial :: rial
  priceYearlyRial :: rial

record ChargeInput =
  ci_plan :: Plan
  ci_period :: BillingPeriod
  ci_seats :: int
  ci_coupon :: "CouponEffect option"
  ci_vatPercent :: int

record InvoiceLineItem =
  li_name :: string
  li_period :: BillingPeriod
  li_qty :: int
  li_unitPriceRial :: rial
  li_totalRial :: rial

record Charge =
  subtotalRial :: rial
  discountRial :: rial
  vatRial :: rial
  totalRial :: rial
  ch_vatPercent :: int
  lineItems :: "InvoiceLineItem list"

datatype InvalidChargeError =
    InvalidSeats int
  | InvalidVatPercent int
  | InvalidUnitPrice string int
  | AmountNotSafe int
  | AmountBelowMinimum int
  | AmountAboveMaximum int

subsection \<open>Operations\<close>

definition unitPriceRial :: "Plan \<Rightarrow> BillingPeriod \<Rightarrow> rial" where
  "unitPriceRial plan period =
     (if period = Yearly then priceYearlyRial plan else priceMonthlyRial plan)"

definition rawDiscount :: "rial \<Rightarrow> CouponEffect option \<Rightarrow> rial" where
  "rawDiscount subtotal coupon =
     (case coupon of
        None \<Rightarrow> 0
      | Some (CouponPercent percentOff) \<Rightarrow> percentOfRial subtotal percentOff
      | Some (CouponAmount amountOffRial) \<Rightarrow> amountOffRial)"

definition computeCharge :: "ChargeInput \<Rightarrow> InvalidChargeError + Charge" where
  "computeCharge inp =
     (let plan = ci_plan inp; period = ci_period inp; seats = ci_seats inp;
          vatPercent = ci_vatPercent inp
      in if \<not> is_safe_integer seats \<or> seats < 1 then Inl (InvalidSeats seats)
         else if \<not> is_safe_integer vatPercent \<or> vatPercent < 0 then Inl (InvalidVatPercent vatPercent)
         else
           (let unit = unitPriceRial plan period
            in if \<not> is_safe_integer unit \<or> unit < 0 then Inl (InvalidUnitPrice (plan_code plan) unit)
               else
                 (let subtotal = unit * seats;
                      raw = rawDiscount subtotal (ci_coupon inp);
                      discount = min (max raw 0) subtotal;
                      taxable = subtotal - discount;
                      vat = percentOfRial taxable vatPercent;
                      total = taxable + vat
                  in Inr \<lparr> subtotalRial = subtotal, discountRial = discount, vatRial = vat,
                           totalRial = total, ch_vatPercent = vatPercent,
                           lineItems = [\<lparr> li_name = plan_name plan, li_period = period,
                                          li_qty = seats, li_unitPriceRial = unit,
                                          li_totalRial = subtotal \<rparr>] \<rparr>)))"

definition GATEWAY_MIN_RIAL :: rial where "GATEWAY_MIN_RIAL = 1000"

definition GATEWAY_MAX_RIAL :: rial where "GATEWAY_MAX_RIAL = 1000000000"

definition assertGatewayAmount :: "rial \<Rightarrow> InvalidChargeError + unit" where
  "assertGatewayAmount amountRial =
     (if \<not> is_safe_integer amountRial then Inl (AmountNotSafe amountRial)
      else if amountRial < GATEWAY_MIN_RIAL then Inl (AmountBelowMinimum amountRial)
      else if amountRial > GATEWAY_MAX_RIAL then Inl (AmountAboveMaximum amountRial)
      else Inr ())"

subsection \<open>The rounding rule\<close>

lemma percentOfRial_error: "\<bar>100 * percentOfRial b p - b * p\<bar> \<le> 50"
  using round_quot_bounds [of 100 "b * p"] by (simp add: percentOfRial_def abs_le_iff)

lemma percentOfRial_zero [simp]: "percentOfRial b 0 = 0" "percentOfRial 0 p = 0"
  by (simp_all add: percentOfRial_def round_quot_def)

lemma percentOfRial_nonneg: "0 \<le> b \<Longrightarrow> 0 \<le> p \<Longrightarrow> 0 \<le> percentOfRial b p"
  by (simp add: percentOfRial_def round_quot_nonneg)

lemma percentOfRial_mono: "0 \<le> p \<Longrightarrow> a \<le> b \<Longrightarrow> percentOfRial a p \<le> percentOfRial b p"
  by (simp add: percentOfRial_def round_quot_mono mult_right_mono)

lemma percentOfRial_hundred [simp]: "percentOfRial b 100 = b"
  by (simp add: percentOfRial_def)

text \<open>
  The integer rule is what the double arithmetic of the source computes: for a product below
  \<open>2^53\<close> (which a double holds exactly), any division that rounds with relative error at most
  \<open>2^-53\<close> and is exact on half-integers makes \<open>Math.round((baseRial * percent) / 100)\<close> equal to
  \<open>percentOfRial\<close>.
\<close>

theorem percentOfRial_double_exact:
  fixes fl :: "real \<Rightarrow> real"
  assumes err: "\<And>x. \<bar>fl x - x\<bar> \<le> \<bar>x\<bar> / 2 ^ 53"
    and half: "\<And>k::int. \<bar>k\<bar> < 2 ^ 53 \<Longrightarrow> fl (real_of_int k / 2) = real_of_int k / 2"
    and small: "0 \<le> b * p" "b * p < 2 ^ 53"
  shows "\<lfloor>fl (real_of_int (b * p) / 100) + 1 / 2\<rfloor> = percentOfRial b p"
proof -
  define n where "n = b * p"
  define q where "q = round_quot n 100"
  have n: "0 \<le> n" "n < 2 ^ 53" using small by (simp_all add: n_def)
  have q: "200 * q \<le> 2 * n + 100" "2 * n + 100 < 200 * q + 200"
    using round_quot_bounds [of 100 n] by (simp_all add: q_def)
  have "\<lfloor>fl (real_of_int n / 100) + 1 / 2\<rfloor> = q"
  proof (cases "2 * n + 100 = 200 * q")
    case True
    then have "real_of_int n / 100 = real_of_int (2 * q - 1) / 2" by (simp add: field_simps)
    moreover have "\<bar>2 * q - 1\<bar> < 2 ^ 53" using True n by linarith
    ultimately have "fl (real_of_int n / 100) = real_of_int (2 * q - 1) / 2"
      using half [of "2 * q - 1"] by (simp only:)
    then have "fl (real_of_int n / 100) + 1 / 2 = real_of_int q" by (simp add: field_simps)
    then show ?thesis by (simp only: floor_of_int)
  next
    case False
    then have "100 * q < n + 50" and "n + 50 < 100 * q + 100" using q by linarith+
    then have lo: "200 * q + 2 \<le> 2 * n + 100" and hi: "2 * n + 100 \<le> 200 * q + 198" by linarith+
    define x where "x = real_of_int n / 100"
    have x: "real_of_int q - 1 / 2 + 1 / 100 \<le> x" "x \<le> real_of_int q + 1 / 2 - 1 / 100"
      using lo hi unfolding x_def by (simp_all add: field_simps)
    have xn: "0 \<le> x" "x * 100 < 2 ^ 53" using n by (simp_all add: x_def)
    have "\<bar>x\<bar> / 2 ^ 53 < 1 / 100" using xn by simp
    with err [of x] have "\<bar>fl x - x\<bar> < 1 / 100" by linarith
    with x have "real_of_int q \<le> fl x + 1 / 2" "fl x + 1 / 2 < real_of_int q + 1"
      by linarith+
    then have "\<lfloor>fl x + 1 / 2\<rfloor> = q" by (rule floor_unique)
    then show ?thesis by (simp only: x_def)
  qed
  then show ?thesis by (simp add: n_def q_def percentOfRial_def)
qed

theorem percentOfRial_double_exact_witness:
  "\<lfloor>(\<lambda>x::real. x) (real_of_int (4990005 * 9) / 100) + 1 / 2\<rfloor> = percentOfRial 4990005 9"
  by (rule percentOfRial_double_exact [where fl = "\<lambda>x. x"]) simp_all

subsection \<open>The charge\<close>

lemma computeCharge_Inr_iff:
  "(\<exists>c. computeCharge inp = Inr c) \<longleftrightarrow>
     (is_safe_integer (ci_seats inp) \<and> 1 \<le> ci_seats inp \<and>
      is_safe_integer (ci_vatPercent inp) \<and> 0 \<le> ci_vatPercent inp \<and>
      is_safe_integer (unitPriceRial (ci_plan inp) (ci_period inp)) \<and>
      0 \<le> unitPriceRial (ci_plan inp) (ci_period inp))"
  by (auto simp: computeCharge_def Let_def)

lemma computeCharge_cases:
  assumes "computeCharge inp = Inr c"
  obtains u s where "u = unitPriceRial (ci_plan inp) (ci_period inp)" "s = ci_seats inp"
    "1 \<le> s" "0 \<le> u" "0 \<le> ci_vatPercent inp"
    "subtotalRial c = u * s"
    "discountRial c = min (max (rawDiscount (u * s) (ci_coupon inp)) 0) (u * s)"
    "vatRial c = percentOfRial (u * s - discountRial c) (ci_vatPercent inp)"
    "totalRial c = u * s - discountRial c + vatRial c"
    "ch_vatPercent c = ci_vatPercent inp"
    "map li_totalRial (lineItems c) = [u * s]" "map li_unitPriceRial (lineItems c) = [u]"
  using assms by (auto simp: computeCharge_def Let_def split: if_splits)

text \<open>
  C38. The one source of the gateway amount and of the invoice figures: whenever a charge is computed,
  \<open>subtotal - discount + vat\<close> is the total, the discount lies between zero and the subtotal whatever
  the coupon says, no figure is negative, and the line items add up to the subtotal.
\<close>

theorem computeCharge_consistent:
  assumes "computeCharge inp = Inr c"
  shows "subtotalRial c - discountRial c + vatRial c = totalRial c \<and>
    0 \<le> discountRial c \<and> discountRial c \<le> subtotalRial c \<and>
    0 \<le> vatRial c \<and> 0 \<le> totalRial c \<and> subtotalRial c - discountRial c \<le> totalRial c \<and>
    sum_list (map li_totalRial (lineItems c)) = subtotalRial c"
proof -
  obtain u s where c: "1 \<le> s" "0 \<le> u" "0 \<le> ci_vatPercent inp" "subtotalRial c = u * s"
    "discountRial c = min (max (rawDiscount (u * s) (ci_coupon inp)) 0) (u * s)"
    "vatRial c = percentOfRial (u * s - discountRial c) (ci_vatPercent inp)"
    "totalRial c = u * s - discountRial c + vatRial c"
    "map li_totalRial (lineItems c) = [u * s]"
    using assms by (rule computeCharge_cases)
  have us: "0 \<le> u * s" using c(1,2) by simp
  with c(4,5) have d: "0 \<le> discountRial c \<and> discountRial c \<le> subtotalRial c" by auto
  have "0 \<le> vatRial c" using c(3,4,6) d by (simp add: percentOfRial_nonneg)
  with c(4,7,8) d show ?thesis by simp
qed

definition sample_charge_input :: ChargeInput where
  "sample_charge_input =
     \<lparr> ci_plan = \<lparr> plan_code = ''pro'', plan_name = ''Pro'', priceMonthlyRial = 1990000,
                   priceYearlyRial = 19900000 \<rparr>,
       ci_period = Monthly, ci_seats = 3, ci_coupon = Some (CouponAmount 9000000),
       ci_vatPercent = 10 \<rparr>"

theorem computeCharge_consistent_witness:
  "\<exists>c. computeCharge sample_charge_input = Inr c \<and>
     subtotalRial c - discountRial c + vatRial c = totalRial c \<and> subtotalRial c = 5970000 \<and>
     discountRial c = 5970000"
proof -
  obtain c where c: "computeCharge sample_charge_input = Inr c"
    by (simp add: computeCharge_def sample_charge_input_def unitPriceRial_def Let_def)
  moreover from c have "subtotalRial c = 5970000 \<and> discountRial c = 5970000"
    by (auto simp: computeCharge_def sample_charge_input_def unitPriceRial_def rawDiscount_def Let_def)
  ultimately show ?thesis using computeCharge_consistent [OF c] by blast
qed

lemma assertGatewayAmount_ok_iff:
  "assertGatewayAmount a = Inr () \<longleftrightarrow> 1000 \<le> a \<and> a \<le> 1000000000"
  by (auto simp: assertGatewayAmount_def GATEWAY_MIN_RIAL_def GATEWAY_MAX_RIAL_def
      is_safe_integer_def max_safe_integer_def)

lemma computeCharge_full_discount:
  assumes "computeCharge inp = Inr c" and "ci_coupon inp = Some (CouponPercent 100)"
  shows "totalRial c = 0"
  using assms(1)
proof (rule computeCharge_cases)
  fix u s
  assume h: "1 \<le> s" "0 \<le> u"
    "discountRial c = min (max (rawDiscount (u * s) (ci_coupon inp)) 0) (u * s)"
    "vatRial c = percentOfRial (u * s - discountRial c) (ci_vatPercent inp)"
    "totalRial c = u * s - discountRial c + vatRial c"
  have "0 \<le> u * s" using h(1,2) by simp
  with h(3) assms(2) have "discountRial c = u * s" by (simp add: rawDiscount_def)
  with h(4,5) show ?thesis by simp
qed

text \<open>A larger raw discount never raises the total.\<close>

lemma total_antimono_discount:
  assumes "0 \<le> v" "d \<le> e" "e \<le> s"
  shows "(s - e) + percentOfRial (s - e) v \<le> (s - d) + percentOfRial (s - d) v"
  using assms percentOfRial_mono [of v "s - e" "s - d"] by linarith

end
