(* ===== verification/Period.thy ===== *)
theory Period
  imports Money "HOL-Library.Product_Lexorder"
begin

text \<open>
  \<open>packages/billing-core/src/period.ts\<close>: the subscription period and the invoice number. A JavaScript
  \<open>Date\<close> is the record of its UTC fields; \<open>Date.UTC\<close> maps the years 0 to 99 to 1900 to 1999 and
  normalises day 0 to the last day of the month before. The Jalali year comes from \<open>Intl\<close>, a
  parameter of the model.
\<close>

subsection \<open>UTC instants\<close>

record Instant =
  getUTCFullYear :: int
  getUTCMonth :: int
  getUTCDate :: int
  getUTCHours :: int
  getUTCMinutes :: int
  getUTCSeconds :: int
  getUTCMilliseconds :: int

definition is_leap :: "int \<Rightarrow> bool" where
  "is_leap y \<longleftrightarrow> y mod 4 = 0 \<and> (y mod 100 \<noteq> 0 \<or> y mod 400 = 0)"

definition days_in_month :: "int \<Rightarrow> int \<Rightarrow> int" where
  "days_in_month y m =
     (if m = 1 then (if is_leap y then 29 else 28)
      else if m = 3 \<or> m = 5 \<or> m = 8 \<or> m = 10 then 30 else 31)"

text \<open>The year rule of \<open>Date.UTC\<close>, and the remainder operator, which truncates towards zero.\<close>

definition utc_full_year :: "int \<Rightarrow> int" where
  "utc_full_year y = (if 0 \<le> y \<and> y \<le> 99 then 1900 + y else y)"

definition js_rem :: "int \<Rightarrow> int \<Rightarrow> int" where
  "js_rem a b = (if 0 \<le> a then a mod \<bar>b\<bar> else - ((- a) mod \<bar>b\<bar>))"

lemma js_rem_wrap: "0 < n \<Longrightarrow> js_rem (js_rem a n + n) n = a mod n"
proof -
  assume n: "0 < n"
  show ?thesis
  proof (cases "0 \<le> a")
    case True
    then have "0 \<le> a mod n + n" using n by (simp add: add_nonneg_nonneg)
    then show ?thesis using True n by (simp add: js_rem_def)
  next
    case False
    have b: "0 \<le> (- a) mod n" "(- a) mod n < n" using n by simp_all
    then have "0 \<le> - ((- a) mod n) + n" by linarith
    then have "js_rem (js_rem a n + n) n = (- ((- a) mod n) + n) mod n"
      using False n by (simp add: js_rem_def)
    also have "\<dots> = (- ((- a) mod n)) mod n" by (rule mod_add_self2)
    also have "\<dots> = a mod n" by (metis minus_minus mod_minus_eq)
    finally show ?thesis .
  qed
qed

subsection \<open>Operations\<close>

definition addUtcMonths :: "Instant \<Rightarrow> int \<Rightarrow> Instant" where
  "addUtcMonths from months =
     (let year = getUTCFullYear from; month = getUTCMonth from; day = getUTCDate from;
          targetMonthIndex = month + months;
          targetYear = year + targetMonthIndex div 12;
          targetMonth = js_rem (js_rem targetMonthIndex 12 + 12) 12;
          lastDayOfTarget = days_in_month (utc_full_year targetYear) targetMonth;
          clampedDay = min day lastDayOfTarget
      in \<lparr> getUTCFullYear = utc_full_year targetYear, getUTCMonth = targetMonth,
           getUTCDate = clampedDay, getUTCHours = getUTCHours from,
           getUTCMinutes = getUTCMinutes from, getUTCSeconds = getUTCSeconds from,
           getUTCMilliseconds = getUTCMilliseconds from \<rparr>)"

record Period =
  period_start :: Instant
  period_end :: Instant

definition computePeriod :: "Instant \<Rightarrow> BillingPeriod \<Rightarrow> Period" where
  "computePeriod anchor period =
     \<lparr> period_start = anchor,
       period_end = (if period = Yearly then addUtcMonths anchor 12 else addUtcMonths anchor 1) \<rparr>"

definition isStalePending :: "epoch_ms \<Rightarrow> epoch_ms \<Rightarrow> int \<Rightarrow> bool" where
  "isStalePending requestedAt now staleAfterMs \<longleftrightarrow> now - requestedAt \<ge> staleAfterMs"

datatype PeriodError = BadSequence int | NoJalaliYear

text \<open>\<open>intl\<close> is what \<open>Intl.DateTimeFormat\<close> with the Persian calendar yields for the year, parsed.\<close>

definition jalaliYearOf :: "('t \<Rightarrow> nat option) \<Rightarrow> 't \<Rightarrow> PeriodError + nat" where
  "jalaliYearOf intl instant = (case intl instant of None \<Rightarrow> Inl NoJalaliYear | Some y \<Rightarrow> Inr y)"

definition formatInvoiceNumber :: "('t \<Rightarrow> nat option) \<Rightarrow> 't \<Rightarrow> int \<Rightarrow> PeriodError + string" where
  "formatInvoiceNumber intl issuedAt sequence =
     (if \<not> is_safe_integer sequence \<or> sequence < 1 then Inl (BadSequence sequence)
      else (case jalaliYearOf intl issuedAt of
              Inl e \<Rightarrow> Inl e
            | Inr y \<Rightarrow> Inr (''HB-'' @ show_nat y @ ''-'' @
                          pad_start 6 (CHR ''0'') (show_nat (nat sequence)))))"

subsection \<open>The calendar\<close>

definition wf_instant :: "Instant \<Rightarrow> bool" where
  "wf_instant t \<longleftrightarrow>
     100 \<le> getUTCFullYear t \<and> 0 \<le> getUTCMonth t \<and> getUTCMonth t < 12 \<and>
     1 \<le> getUTCDate t \<and> getUTCDate t \<le> days_in_month (getUTCFullYear t) (getUTCMonth t) \<and>
     0 \<le> getUTCHours t \<and> getUTCHours t < 24 \<and> 0 \<le> getUTCMinutes t \<and> getUTCMinutes t < 60 \<and>
     0 \<le> getUTCSeconds t \<and> getUTCSeconds t < 60 \<and>
     0 \<le> getUTCMilliseconds t \<and> getUTCMilliseconds t < 1000"

definition month_index :: "Instant \<Rightarrow> int" where
  "month_index t = 12 * getUTCFullYear t + getUTCMonth t"

definition ms_of_day :: "Instant \<Rightarrow> int" where
  "ms_of_day t = ((getUTCHours t * 60 + getUTCMinutes t) * 60 + getUTCSeconds t) * 1000 +
     getUTCMilliseconds t"

definition ms_of_month :: "Instant \<Rightarrow> int" where
  "ms_of_month t = (getUTCDate t - 1) * 86400000 + ms_of_day t"

text \<open>Chronological order: by month, then by position in the month.\<close>

definition before :: "Instant \<Rightarrow> Instant \<Rightarrow> bool" where
  "before s t \<longleftrightarrow> month_index s < month_index t \<or>
     month_index s = month_index t \<and> ms_of_month s \<le> ms_of_month t"

lemma days_in_month_bounds: "28 \<le> days_in_month y m" "days_in_month y m \<le> 31"
  by (simp_all add: days_in_month_def)

lemma ms_of_day_bounds: "wf_instant t \<Longrightarrow> 0 \<le> ms_of_day t \<and> ms_of_day t < 86400000"
  by (simp add: wf_instant_def ms_of_day_def)

lemma addUtcMonths_fields:
  assumes "wf_instant t" "0 \<le> n"
  shows "month_index (addUtcMonths t n) = month_index t + n"
    and "getUTCMonth (addUtcMonths t n) = (getUTCMonth t + n) mod 12"
    and "getUTCFullYear (addUtcMonths t n) = getUTCFullYear t + (getUTCMonth t + n) div 12"
    and "getUTCDate (addUtcMonths t n) = min (getUTCDate t)
           (days_in_month (getUTCFullYear (addUtcMonths t n)) (getUTCMonth (addUtcMonths t n)))"
    and "ms_of_day (addUtcMonths t n) = ms_of_day t"
proof -
  have "0 \<le> (getUTCMonth t + n) div 12"
    using assms by (simp add: wf_instant_def pos_imp_zdiv_nonneg_iff)
  then have y: "utc_full_year (getUTCFullYear t + (getUTCMonth t + n) div 12) =
      getUTCFullYear t + (getUTCMonth t + n) div 12"
    using assms(1) by (simp add: utc_full_year_def wf_instant_def)
  show month: "getUTCMonth (addUtcMonths t n) = (getUTCMonth t + n) mod 12"
    by (simp add: addUtcMonths_def Let_def js_rem_wrap)
  show year: "getUTCFullYear (addUtcMonths t n) = getUTCFullYear t + (getUTCMonth t + n) div 12"
    by (simp add: addUtcMonths_def Let_def y)
  show "month_index (addUtcMonths t n) = month_index t + n"
    using mult_div_mod_eq [of 12 "getUTCMonth t + n"]
    unfolding month_index_def month year by (simp add: algebra_simps)
  show "getUTCDate (addUtcMonths t n) = min (getUTCDate t)
      (days_in_month (getUTCFullYear (addUtcMonths t n)) (getUTCMonth (addUtcMonths t n)))"
    by (simp add: addUtcMonths_def Let_def)
  show "ms_of_day (addUtcMonths t n) = ms_of_day t"
    by (simp add: addUtcMonths_def Let_def ms_of_day_def)
qed

lemma addUtcMonths_wf:
  assumes "wf_instant t" "0 \<le> n"
  shows "wf_instant (addUtcMonths t n)"
proof -
  have "0 \<le> (getUTCMonth t + n) div 12"
    using assms by (simp add: wf_instant_def pos_imp_zdiv_nonneg_iff)
  moreover have "getUTCHours (addUtcMonths t n) = getUTCHours t \<and>
      getUTCMinutes (addUtcMonths t n) = getUTCMinutes t \<and>
      getUTCSeconds (addUtcMonths t n) = getUTCSeconds t \<and>
      getUTCMilliseconds (addUtcMonths t n) = getUTCMilliseconds t"
    by (simp add: addUtcMonths_def Let_def)
  moreover have "1 \<le> min (getUTCDate t) (days_in_month y m)" for y m
    using assms(1) days_in_month_bounds(1) [of y m] by (simp add: wf_instant_def)
  ultimately show ?thesis
    using assms addUtcMonths_fields [OF assms] by (simp add: wf_instant_def)
qed

text \<open>
  Adding months to an instant lands exactly that many calendar months later, keeps the time of
  day, keeps the day of the month where the target month has it and otherwise takes that month's last
  day, and the result is a valid date.
\<close>

theorem addUtcMonths_calendar:
  assumes "wf_instant t" "0 \<le> n"
  shows "wf_instant (addUtcMonths t n) \<and>
    12 * getUTCFullYear (addUtcMonths t n) + getUTCMonth (addUtcMonths t n) =
      12 * getUTCFullYear t + getUTCMonth t + n \<and>
    ms_of_day (addUtcMonths t n) = ms_of_day t \<and>
    getUTCDate (addUtcMonths t n) = min (getUTCDate t)
      (days_in_month (getUTCFullYear (addUtcMonths t n)) (getUTCMonth (addUtcMonths t n)))"
  using addUtcMonths_wf [OF assms] addUtcMonths_fields [OF assms] by (simp add: month_index_def)

definition jan31 :: Instant where
  "jan31 = \<lparr> getUTCFullYear = 2024, getUTCMonth = 0, getUTCDate = 31, getUTCHours = 20,
             getUTCMinutes = 30, getUTCSeconds = 0, getUTCMilliseconds = 7 \<rparr>"

lemma wf_jan31 [simp]: "wf_instant jan31"
  by (simp add: wf_instant_def jan31_def days_in_month_def)

theorem addUtcMonths_calendar_witness:
  "wf_instant (addUtcMonths jan31 1) \<and> getUTCDate (addUtcMonths jan31 1) = 29 \<and>
   getUTCMonth (addUtcMonths jan31 1) = 1"
proof -
  have "getUTCDate (addUtcMonths jan31 1) = 29 \<and> getUTCMonth (addUtcMonths jan31 1) = 1"
    by code_simp
  then show ?thesis using addUtcMonths_calendar [of jan31 1] wf_jan31 by (metis zero_le_one)
qed

subsection \<open>The subscription period\<close>

lemma ms_of_month_mono:
  assumes "wf_instant s" "wf_instant t" "ms_of_month s \<le> ms_of_month t"
  shows "getUTCDate s \<le> getUTCDate t"
proof -
  obtain a b where ab: "a = ms_of_day s" "b = ms_of_day t" "0 \<le> a" "b < 86400000"
    using ms_of_day_bounds [OF assms(1)] ms_of_day_bounds [OF assms(2)] by blast
  have "(getUTCDate s - 1) * 86400000 + a \<le> (getUTCDate t - 1) * 86400000 + b"
    using assms(3) ab(1,2) by (simp add: ms_of_month_def)
  then show ?thesis using ab(3,4) by (simp add: algebra_simps)
qed

lemma addUtcMonths_mono:
  assumes "wf_instant s" "wf_instant t" "before s t" "0 \<le> n"
  shows "month_index (addUtcMonths s n) < month_index (addUtcMonths t n) \<or>
    month_index (addUtcMonths s n) = month_index (addUtcMonths t n) \<and>
      getUTCDate (addUtcMonths s n) \<le> getUTCDate (addUtcMonths t n)"
proof (cases "month_index s = month_index t")
  case False
  with assms show ?thesis by (simp add: before_def addUtcMonths_fields(1))
next
  case True
  moreover have "0 \<le> getUTCMonth s" "getUTCMonth s < 12" "0 \<le> getUTCMonth t" "getUTCMonth t < 12"
    using assms(1,2) by (simp_all add: wf_instant_def)
  ultimately have "getUTCMonth s = getUTCMonth t \<and> getUTCFullYear s = getUTCFullYear t"
    unfolding month_index_def by (metis add.commute int_div_pos_eq int_mod_pos_eq)
  moreover have "getUTCDate s \<le> getUTCDate t"
    using assms(1,2,3) True by (simp add: before_def ms_of_month_mono)
  ultimately show ?thesis
    using True by (simp add: addUtcMonths_fields [OF assms(1,4)] addUtcMonths_fields [OF assms(2,4)]
        min.coboundedI1)
qed

text \<open>
  A subscription period starts at its anchor and ends strictly later, one or twelve calendar
  months on, and the end day never decreases with the anchor: of two anchors the later one never gets
  the earlier end day.
\<close>

theorem computePeriod_forward:
  assumes "wf_instant a" "wf_instant b" "before a b"
  shows "period_start (computePeriod a p) = a \<and>
    month_index (period_end (computePeriod a p)) = month_index a + (if p = Yearly then 12 else 1) \<and>
    \<not> before (period_end (computePeriod a p)) a \<and>
    (month_index (period_end (computePeriod a p)), getUTCDate (period_end (computePeriod a p))) \<le>
      (month_index (period_end (computePeriod b p)), getUTCDate (period_end (computePeriod b p)))"
  using addUtcMonths_mono [OF assms, of 1] addUtcMonths_mono [OF assms, of 12]
    addUtcMonths_fields(1) [OF assms(1), of 1] addUtcMonths_fields(1) [OF assms(1), of 12]
  by (auto simp: computePeriod_def before_def)

theorem computePeriod_forward_witness:
  "\<not> before (period_end (computePeriod jan31 Yearly)) jan31"
  using computePeriod_forward [of jan31 jan31 Yearly] by (simp add: before_def)

subsection \<open>Invoice numbers\<close>

lemma formatInvoiceNumber_Inr_iff:
  "formatInvoiceNumber intl t s = Inr w \<longleftrightarrow>
     is_safe_integer s \<and> 1 \<le> s \<and>
     (\<exists>y. intl t = Some y \<and>
        w = ''HB-'' @ show_nat y @ ''-'' @ pad_start 6 (CHR ''0'') (show_nat (nat s)))"
  by (auto simp: formatInvoiceNumber_def jalaliYearOf_def split: option.splits)

text \<open>
  Invoice numbers are unique where the sequence is: two numbers are the same text only when both
  the Jalali year and the sequence number agree, whatever the sequence's length.
\<close>

theorem formatInvoiceNumber_injective:
  assumes "formatInvoiceNumber intl t s = Inr w" "formatInvoiceNumber intl t' s' = Inr w"
  shows "intl t = intl t' \<and> s = s'"
proof -
  obtain y y' where y: "intl t = Some y" "intl t' = Some y'" and s: "1 \<le> s" "1 \<le> s'"
    and w: "show_nat y @ CHR ''-'' # pad_start 6 (CHR ''0'') (show_nat (nat s)) =
            show_nat y' @ CHR ''-'' # pad_start 6 (CHR ''0'') (show_nat (nat s'))"
    using assms by (auto simp: formatInvoiceNumber_Inr_iff)
  from append_sep_inj [OF w] have "show_nat y = show_nat y'"
    and "pad_start 6 (CHR ''0'') (show_nat (nat s)) = pad_start 6 (CHR ''0'') (show_nat (nat s'))"
    by simp_all
  then have "y = y'" and "nat s = nat s'"
    by (auto dest: show_nat_inj pad_start_show_inj)
  with y s show ?thesis by simp
qed

theorem formatInvoiceNumber_injective_witness:
  "\<exists>w. formatInvoiceNumber (\<lambda>t::nat. Some (1405 + t)) 0 123 = Inr w \<and>
     Some (1405 + 0::nat) = Some (1405 + 0) \<and> (123::int) = 123"
proof -
  obtain w where h: "formatInvoiceNumber (\<lambda>t::nat. Some (1405 + t)) 0 123 = Inr w"
    by (simp add: formatInvoiceNumber_def jalaliYearOf_def)
  from formatInvoiceNumber_injective [OF h h] h show ?thesis by blast
qed

end
