(* ===== verification/Sweep.thy ===== *)
theory Sweep
  imports HB_Prelude
begin

text \<open>
  \<open>packages/billing-core/src/reconcile.ts\<close>: the pure decisions of payment reconciliation. \<open>planSweep\<close>
  decides what to do with every pending payment; \<open>matchOrphans\<close> decides which payment listed by the
  gateway belongs to a pending payment whose authority was lost in a crash. The two \<open>Map\<close>s the source
  builds are folds over \<open>'k \<rightharpoonup> 'v\<close> maps, and are shown to be the counting and filtering they stand for.
\<close>

subsection \<open>Data\<close>

record PendingPaymentSnapshot =
  pp_id :: string
  pp_authority :: "string option"
  pp_amountRial :: rial
  pp_requestedAt :: epoch_ms
  pp_failureCode :: "string option"

record SweepPolicy =
  sp_now :: epoch_ms
  staleAfterMs :: int
  expireAfterMs :: int

datatype SweepAction = Skip | Verify | Orphan | Expire

datatype SweepReason = TooYoung | AskGateway | NoAuthority | AskedAndAged

record SweepDecision =
  sd_paymentId :: string
  sd_action :: SweepAction
  sd_reason :: SweepReason
  sd_ageMs :: int

record UnverifiedPayment =
  uv_authority :: string
  uv_amountRial :: rial

datatype RefuseReason = NoCandidate | ManyCandidates | ManyOrphans

datatype AdoptionDecision =
    Adopt (ad_paymentId: string) (ad_authority: string)
  | Refuse (ad_paymentId: string) RefuseReason

datatype SweepError = NegativeThreshold | ExpiryBeforeStale | NotAnOrphan string

subsection \<open>The sweep\<close>

definition sweepRow :: "SweepPolicy \<Rightarrow> PendingPaymentSnapshot \<Rightarrow> SweepDecision" where
  "sweepRow policy row =
     (let ageMs = sp_now policy - pp_requestedAt row
      in if ageMs < staleAfterMs policy
         then \<lparr> sd_paymentId = pp_id row, sd_action = Skip, sd_reason = TooYoung, sd_ageMs = ageMs \<rparr>
         else if pp_authority row = None
         then \<lparr> sd_paymentId = pp_id row, sd_action = Orphan, sd_reason = NoAuthority, sd_ageMs = ageMs \<rparr>
         else if ageMs \<ge> expireAfterMs policy \<and> pp_failureCode row \<noteq> None
         then \<lparr> sd_paymentId = pp_id row, sd_action = Expire, sd_reason = AskedAndAged, sd_ageMs = ageMs \<rparr>
         else \<lparr> sd_paymentId = pp_id row, sd_action = Verify, sd_reason = AskGateway, sd_ageMs = ageMs \<rparr>)"

definition planSweep ::
  "PendingPaymentSnapshot list \<Rightarrow> SweepPolicy \<Rightarrow> SweepError + SweepDecision list" where
  "planSweep rows policy =
     (if staleAfterMs policy < 0 \<or> expireAfterMs policy < 0 then Inl NegativeThreshold
      else if expireAfterMs policy \<le> staleAfterMs policy then Inl ExpiryBeforeStale
      else Inr (map (sweepRow policy) rows))"

lemma sweepRow_cases:
  "sd_action (sweepRow policy row) =
     (if sp_now policy - pp_requestedAt row < staleAfterMs policy then Skip
      else if pp_authority row = None then Orphan
      else if sp_now policy - pp_requestedAt row \<ge> expireAfterMs policy \<and> pp_failureCode row \<noteq> None
      then Expire else Verify)"
  by (auto simp: sweepRow_def Let_def)

lemma sweepRow_id [simp]: "sd_paymentId (sweepRow policy row) = pp_id row"
  by (simp add: sweepRow_def Let_def)

text \<open>
  The sweep gives every pending row exactly one decision, in order, and never gives up a payment
  that may have been paid: a row is expired only when it has an authority, is past both thresholds and
  has already been asked about once; the first sweep that looks at a row with an authority always
  asks the gateway; a row without authority is never expired, whatever its age.
\<close>

theorem planSweep_asks_before_expiry:
  assumes "planSweep rows policy = Inr ds"
  shows "map sd_paymentId ds = map pp_id rows \<and>
    (\<forall>i < length rows.
      (sd_action (ds ! i) = Expire \<longrightarrow>
         pp_authority (rows ! i) \<noteq> None \<and> pp_failureCode (rows ! i) \<noteq> None \<and>
         expireAfterMs policy \<le> sp_now policy - pp_requestedAt (rows ! i) \<and>
         staleAfterMs policy < sp_now policy - pp_requestedAt (rows ! i)) \<and>
      (pp_authority (rows ! i) \<noteq> None \<and> pp_failureCode (rows ! i) = None \<and>
         staleAfterMs policy \<le> sp_now policy - pp_requestedAt (rows ! i) \<longrightarrow>
         sd_action (ds ! i) = Verify) \<and>
      (pp_authority (rows ! i) = None \<longrightarrow> sd_action (ds ! i) \<in> {Skip, Orphan}))"
proof -
  from assms have ds: "ds = map (sweepRow policy) rows"
    and lt: "staleAfterMs policy < expireAfterMs policy"
    by (auto simp: planSweep_def split: if_splits)
  then show ?thesis by (auto simp: sweepRow_cases split: if_splits)
qed

definition sample_pending :: PendingPaymentSnapshot where
  "sample_pending = \<lparr> pp_id = ''p1'', pp_authority = Some ''A1'', pp_amountRial = 1990000,
     pp_requestedAt = 0, pp_failureCode = None \<rparr>"

definition sample_policy :: SweepPolicy where
  "sample_policy = \<lparr> sp_now = 9000000, staleAfterMs = 900000, expireAfterMs = 7200000 \<rparr>"

theorem planSweep_asks_before_expiry_witness:
  "\<exists>ds. planSweep [sample_pending, sample_pending\<lparr>pp_failureCode := Some ''-51''\<rparr>] sample_policy = Inr ds \<and>
     map sd_action ds = [Verify, Expire] \<and> map sd_paymentId ds = [''p1'', ''p1'']"
proof -
  let ?rows = "[sample_pending, sample_pending\<lparr>pp_failureCode := Some ''-51''\<rparr>]"
  have "\<exists>ds. planSweep ?rows sample_policy = Inr ds"
    by (simp add: planSweep_def sample_policy_def)
  then obtain ds where ds: "planSweep ?rows sample_policy = Inr ds" ..
  moreover have "map sd_action ds = [Verify, Expire]"
    using ds by (auto simp: planSweep_def sweepRow_cases sample_policy_def sample_pending_def)
  moreover have "map sd_paymentId ds = [''p1'', ''p1'']"
    using conjunct1 [OF planSweep_asks_before_expiry [OF ds]] by (simp add: sample_pending_def)
  ultimately show ?thesis by (intro exI [of _ ds] conjI)
qed

subsection \<open>Adopting orphans\<close>

fun countPerAmount ::
  "(rial \<rightharpoonup> nat) \<Rightarrow> PendingPaymentSnapshot list \<Rightarrow> (rial \<rightharpoonup> nat)" where
  "countPerAmount m [] = m"
| "countPerAmount m (orphan # rest) =
     countPerAmount
       (m(pp_amountRial orphan \<mapsto> get_or 0 m (pp_amountRial orphan) + 1)) rest"

fun groupCandidates ::
  "string set \<Rightarrow> (rial \<rightharpoonup> string list) \<Rightarrow> UnverifiedPayment list \<Rightarrow> (rial \<rightharpoonup> string list)" where
  "groupCandidates known m [] = m"
| "groupCandidates known m (entry # rest) =
     (if uv_authority entry \<in> known then groupCandidates known m rest
      else groupCandidates known
             (m(uv_amountRial entry \<mapsto>
                  get_or [] m (uv_amountRial entry) @ [uv_authority entry])) rest)"

definition adoptRow ::
  "(rial \<rightharpoonup> nat) \<Rightarrow> (rial \<rightharpoonup> string list) \<Rightarrow> PendingPaymentSnapshot \<Rightarrow> AdoptionDecision" where
  "adoptRow orphansPerAmount candidatesPerAmount orphan =
     (if get_or 0 orphansPerAmount (pp_amountRial orphan) > 1
      then Refuse (pp_id orphan) ManyOrphans
      else (case get_or [] candidatesPerAmount (pp_amountRial orphan) of
              [] \<Rightarrow> Refuse (pp_id orphan) NoCandidate
            | [a] \<Rightarrow> Adopt (pp_id orphan) a
            | _ \<Rightarrow> Refuse (pp_id orphan) ManyCandidates))"

definition matchOrphans ::
  "PendingPaymentSnapshot list \<Rightarrow> UnverifiedPayment list \<Rightarrow> string set \<Rightarrow>
     SweepError + AdoptionDecision list" where
  "matchOrphans orphans unverified known =
     (case find (\<lambda>o'. pp_authority o' \<noteq> None) orphans of
        Some o' \<Rightarrow> Inl (NotAnOrphan (pp_id o'))
      | None \<Rightarrow> Inr (map (adoptRow (countPerAmount Map.empty orphans)
                                  (groupCandidates known Map.empty unverified)) orphans))"

text \<open>What the two folds compute.\<close>

definition orphans_of :: "rial \<Rightarrow> PendingPaymentSnapshot list \<Rightarrow> nat" where
  "orphans_of a orphans = length (filter (\<lambda>o'. pp_amountRial o' = a) orphans)"

definition candidates_of :: "string set \<Rightarrow> rial \<Rightarrow> UnverifiedPayment list \<Rightarrow> string list" where
  "candidates_of known a us =
     map uv_authority (filter (\<lambda>u. uv_amountRial u = a \<and> uv_authority u \<notin> known) us)"

lemma countPerAmount_get: "get_or 0 (countPerAmount m os) a = get_or 0 m a + orphans_of a os"
proof (induction m os rule: countPerAmount.induct)
  case (2 m orphan rest)
  then show ?case by (simp add: orphans_of_def del: fun_upd_apply)
qed (simp add: orphans_of_def)

lemma groupCandidates_get:
  "get_or [] (groupCandidates known m us) a = get_or [] m a @ candidates_of known a us"
proof (induction known m us rule: groupCandidates.induct)
  case (2 known m entry rest)
  then show ?case by (auto simp: candidates_of_def simp del: fun_upd_apply)
qed (simp add: candidates_of_def)

lemma adoptRow_eq:
  "adoptRow (countPerAmount Map.empty os) (groupCandidates known Map.empty us) r =
     (if orphans_of (pp_amountRial r) os > 1 then Refuse (pp_id r) ManyOrphans
      else (case candidates_of known (pp_amountRial r) us of
              [] \<Rightarrow> Refuse (pp_id r) NoCandidate
            | [a] \<Rightarrow> Adopt (pp_id r) a
            | _ \<Rightarrow> Refuse (pp_id r) ManyCandidates))"
  unfolding adoptRow_def countPerAmount_get groupCandidates_get by simp

lemma adoptRow_Adopt_iff:
  "adoptRow (countPerAmount Map.empty os) (groupCandidates known Map.empty us) r = Adopt p a \<longleftrightarrow>
     p = pp_id r \<and> orphans_of (pp_amountRial r) os \<le> 1 \<and> candidates_of known (pp_amountRial r) us = [a]"
  by (auto simp: adoptRow_eq split: list.splits)

lemma matchOrphans_Inr:
  "matchOrphans os us known = Inr ds \<longleftrightarrow>
     (\<forall>r \<in> set os. pp_authority r = None) \<and>
     ds = map (adoptRow (countPerAmount Map.empty os) (groupCandidates known Map.empty us)) os"
  by (auto simp: matchOrphans_def find_None_iff split: option.splits dest: find_Some_in_set)

lemma orphans_of_one:
  assumes "r \<in> set os" "r' \<in> set os" "pp_amountRial r = pp_amountRial r'"
    and "orphans_of (pp_amountRial r) os \<le> 1"
  shows "r = r'"
proof -
  let ?xs = "filter (\<lambda>o'. pp_amountRial o' = pp_amountRial r) os"
  have "r \<in> set ?xs" "r' \<in> set ?xs" using assms(1-3) by simp_all
  moreover have "length ?xs \<le> 1" using assms(4) by (simp add: orphans_of_def)
  ultimately show ?thesis by (cases ?xs) auto
qed

text \<open>
  An authority from the gateway's list is adopted only without any ambiguity: the adopting row is
  the only orphan of its amount, the authority is the only listed one with that amount that belongs to
  no other payment, and (when the gateway lists no authority twice) no authority is given to two rows.
  Conversely, an unambiguous pair is always adopted.
\<close>

theorem matchOrphans_unambiguous:
  assumes "matchOrphans os us known = Inr ds" and "distinct (map uv_authority us)"
  shows "(\<forall>i < length os. \<forall>a. ds ! i = Adopt (pp_id (os ! i)) a \<longleftrightarrow>
        orphans_of (pp_amountRial (os ! i)) os = 1 \<and>
        candidates_of known (pp_amountRial (os ! i)) us = [a]) \<and>
    (\<forall>i < length os. \<forall>j < length os. \<forall>a p q. ds ! i = Adopt p a \<and> ds ! j = Adopt q a \<longrightarrow>
        os ! i = os ! j) \<and>
    (\<forall>i < length os. \<forall>p a. ds ! i = Adopt p a \<longrightarrow> a \<notin> known)"
proof -
  from assms(1) have ds: "ds = map (adoptRow (countPerAmount Map.empty os)
      (groupCandidates known Map.empty us)) os"
    by (simp add: matchOrphans_Inr)
  have iff: "ds ! i = Adopt p a \<longleftrightarrow> p = pp_id (os ! i) \<and> orphans_of (pp_amountRial (os ! i)) os \<le> 1 \<and>
      candidates_of known (pp_amountRial (os ! i)) us = [a]" if "i < length os" for i p a
    using that by (simp add: ds adoptRow_Adopt_iff)
  have ge1: "1 \<le> orphans_of (pp_amountRial (os ! i)) os" if "i < length os" for i
    using that by (auto simp: orphans_of_def Suc_le_eq filter_empty_conv)
  have mem: "\<exists>u \<in> set us. uv_authority u = a \<and> uv_amountRial u = amt \<and> a \<notin> known"
    if "candidates_of known amt us = [a]" for amt a
  proof -
    have "a \<in> set (candidates_of known amt us)" using that by simp
    then show ?thesis unfolding candidates_of_def by auto
  qed
  have same: "pp_amountRial (os ! i) = pp_amountRial (os ! j)"
    if "candidates_of known (pp_amountRial (os ! i)) us = [a]"
      "candidates_of known (pp_amountRial (os ! j)) us = [a]" for i j a
    using mem [OF that(1)] mem [OF that(2)] assms(2)
    by (metis distinct_map inj_on_eq_iff)
  have one: "os ! i = os ! j"
    if "i < length os" "j < length os" "ds ! i = Adopt p a" "ds ! j = Adopt q a" for i j p q a
  proof (rule orphans_of_one)
    show "os ! i \<in> set os" "os ! j \<in> set os" using that(1,2) by simp_all
    show "orphans_of (pp_amountRial (os ! i)) os \<le> 1" using that(3) iff [OF that(1)] by blast
    have "candidates_of known (pp_amountRial (os ! i)) us = [a]"
      "candidates_of known (pp_amountRial (os ! j)) us = [a]"
      using that(3,4) iff [OF that(1)] iff [OF that(2)] by simp_all
    then show "pp_amountRial (os ! i) = pp_amountRial (os ! j)" by (rule same)
  qed
  have "ds ! i = Adopt (pp_id (os ! i)) a \<longleftrightarrow> orphans_of (pp_amountRial (os ! i)) os = 1 \<and>
      candidates_of known (pp_amountRial (os ! i)) us = [a]" if "i < length os" for i a
    using iff [OF that] ge1 [OF that] by (auto intro: le_antisym)
  moreover have "a \<notin> known" if "i < length os" "ds ! i = Adopt p a" for i p a
    using that mem iff by blast
  ultimately show ?thesis using one by blast
qed

theorem matchOrphans_unambiguous_witness:
  "\<exists>ds. matchOrphans [sample_pending\<lparr>pp_authority := None\<rparr>]
      [\<lparr> uv_authority = ''A7'', uv_amountRial = 1990000 \<rparr>, \<lparr> uv_authority = ''A8'', uv_amountRial = 1990000 \<rparr>]
      {''A8''} = Inr ds \<and> ds ! 0 = Adopt ''p1'' ''A7''"
proof -
  let ?os = "[sample_pending\<lparr>pp_authority := None\<rparr>]"
  let ?us = "[\<lparr> uv_authority = ''A7'', uv_amountRial = 1990000 \<rparr>,
              \<lparr> uv_authority = ''A8'', uv_amountRial = 1990000 \<rparr>]"
  have "\<exists>ds. matchOrphans ?os ?us {''A8''} = Inr ds"
    by (simp add: matchOrphans_def)
  then obtain ds where ds: "matchOrphans ?os ?us {''A8''} = Inr ds" ..
  have "orphans_of (pp_amountRial (?os ! 0)) ?os = 1"
    "candidates_of {''A8''} (pp_amountRial (?os ! 0)) ?us = [''A7'']"
    by (simp_all add: orphans_of_def candidates_of_def sample_pending_def)
  moreover have "distinct (map uv_authority ?us)" by simp
  ultimately have "ds ! 0 = Adopt (pp_id (?os ! 0)) ''A7''"
    using conjunct1 [OF matchOrphans_unambiguous [OF ds]] by (metis One_nat_def length_Cons zero_less_Suc)
  then show ?thesis using ds by (simp add: sample_pending_def)
qed

end
