(* ===== verification/Json.thy ===== *)
theory Json
  imports HB_Prelude
begin

text \<open>
  The untyped values that reach the program from outside: the result of \<open>JSON.parse\<close>. A property that
  is absent (JavaScript's \<open>undefined\<close>) is \<open>None\<close>. The numbers the code reads this way (codes,
  identifiers, fees, versions) are integers.
\<close>

datatype json =
  JNull | JBool bool | JNum int | JStr string | JArr "json list" | JObj "(string \<times> json) list"

text \<open>Property access on anything but \<open>null\<close> and \<open>undefined\<close>; only objects have the fields in question.\<close>

fun get_field :: "json \<Rightarrow> string \<Rightarrow> json option" where
  "get_field (JObj fields) k = map_of fields k"
| "get_field _ k = None"

text \<open>\<open>v?.k\<close>\<close>

fun opt_field :: "json option \<Rightarrow> string \<Rightarrow> json option" where
  "opt_field (Some v) k = get_field v k"
| "opt_field None k = None"

fun as_string :: "json option \<Rightarrow> string option" where
  "as_string (Some (JStr s)) = Some s"
| "as_string _ = None"

fun as_number :: "json option \<Rightarrow> int option" where
  "as_number (Some (JNum n)) = Some n"
| "as_number _ = None"

text \<open>\<open>String(v)\<close>\<close>

definition show_int :: "int \<Rightarrow> string" where
  "show_int n = (if n < 0 then CHR ''-'' # show_nat (nat (- n)) else show_nat (nat n))"

fun join_with :: "string \<Rightarrow> string list \<Rightarrow> string" where
  "join_with sep [] = []"
| "join_with sep [s] = s"
| "join_with sep (s # t # rest) = s @ sep @ join_with sep (t # rest)"

fun js_string :: "json \<Rightarrow> string" where
  "js_string JNull = ''null''"
| "js_string (JBool b) = (if b then ''true'' else ''false'')"
| "js_string (JNum n) = show_int n"
| "js_string (JStr s) = s"
| "js_string (JArr vs) = join_with '','' (map (\<lambda>v. if v = JNull then [] else js_string v) vs)"
| "js_string (JObj _) = ''[object Object]''"

end
