(* ===== verification/Gateways.thy ===== *)
theory Gateways
  imports Money Json "HOL-Library.AList"
begin

text \<open>
  The payment gateway port of \<open>packages/billing-core/src/gateway.ts\<close> and its three implementations:
  the development mock (\<open>mock-gateway.ts\<close>, a state machine over its map of records), the manual
  card-to-card transfer (\<open>card-transfer-gateway.ts\<close>, a pure decision over the payment row) and
  Zarinpal (\<open>zarinpal-gateway.ts\<close>, the reading of an untyped JSON reply). The locale
  \<open>payment_gateway\<close> is what the checkout relies on. HTTP itself, \<open>Math.random\<close>, the Web Crypto bytes
  and the row reader are arguments; message texts are dropped.
\<close>

subsection \<open>The port\<close>

record CreatePaymentResult =
  cr_authority :: string
  redirectUrl :: string

datatype VerifyOutcome =
    Paid (alreadyVerified: bool) (refId: string) (cardPanMasked: "string option")
         (cardHash: "string option") (feeRial: "rial option")
  | NotPaid "int option"
  | GatewayError "int option"

datatype RefundOutcome =
    Refunded string | RefundUnavailable | RefundRejected "int option" | RefundGatewayError "int option"

datatype ReverseOutcome =
    Reversed | ReverseUnavailable | ReverseRejected "int option" | ReverseGatewayError "int option"

datatype CreateError = AmountRefused InvalidChargeError | CreateFailed "int option" | CallFailed | BodyNotObject

definition assertGatewayAllowed :: "bool \<Rightarrow> string \<Rightarrow> bool" where
  "assertGatewayAllowed developmentOnly appEnv \<longleftrightarrow> \<not> (developmentOnly \<and> appEnv = ''production'')"

text \<open>\<open>url.replace(/\/+$/, "")\<close> and \<open>s.slice(-n)\<close>.\<close>

definition strip_slashes :: "string \<Rightarrow> string" where
  "strip_slashes s = rev (dropWhile (\<lambda>c. c = CHR ''/'') (rev s))"

definition slice_last :: "nat \<Rightarrow> string \<Rightarrow> string" where
  "slice_last n s = drop (length s - n) s"

definition gateway_result :: "string \<Rightarrow> string \<Rightarrow> CreatePaymentResult" where
  "gateway_result base authority = \<lparr> cr_authority = authority, redirectUrl = base @ ''/'' @ authority \<rparr>"

subsection \<open>The mock gateway\<close>

record MockRecord =
  mr_amountRial :: rial
  verifiedAt :: "nat option"
  refundRef :: "string option"
  mr_reversed :: bool

record MockGateway =
  checkoutBaseUrl :: string
  failEveryPayment :: bool
  mock_records :: "(string \<times> MockRecord) list"
  mock_counter :: nat

definition new_MockGateway :: "string \<Rightarrow> bool option \<Rightarrow> MockGateway" where
  "new_MockGateway url fail =
     \<lparr> checkoutBaseUrl = strip_slashes url,
       failEveryPayment = (case fail of None \<Rightarrow> False | Some b \<Rightarrow> b),
       mock_records = [], mock_counter = 0 \<rparr>"

text \<open>
  The default authority factory; \<open>r1\<close>, \<open>r2\<close>, \<open>r3\<close> are the texts of \<open>Math.random().toString(36).slice(2)\<close>.
\<close>

definition mock_chunk :: "string \<Rightarrow> string" where
  "mock_chunk r = take 11 (r @ replicate (11 - length r) (CHR ''0''))"

definition nextAuthority :: "MockGateway \<Rightarrow> string \<Rightarrow> string \<Rightarrow> string \<Rightarrow> string \<times> MockGateway" where
  "nextAuthority g r1 r2 r3 =
     (let n = mock_counter g + 1;
          counter = slice_last 3 (pad_start 3 (CHR ''0'') (show_nat n))
      in (take 36 (''MOCK'' @ counter @ mock_chunk r1 @ mock_chunk r2 @ mock_chunk r3),
          g\<lparr>mock_counter := n\<rparr>))"

definition mock_createPayment ::
  "MockGateway \<Rightarrow> rial \<Rightarrow> string \<Rightarrow> CreateError + (CreatePaymentResult \<times> MockGateway)" where
  "mock_createPayment g amountRial authority =
     (case assertGatewayAmount amountRial of
        Inl e \<Rightarrow> Inl (AmountRefused e)
      | Inr _ \<Rightarrow>
          Inr (gateway_result (checkoutBaseUrl g) authority,
               g\<lparr>mock_records := AList.update authority
                   \<lparr> mr_amountRial = amountRial, verifiedAt = None, refundRef = None,
                     mr_reversed = False \<rparr> (mock_records g)\<rparr>))"

definition mock_listUnverified :: "MockGateway \<Rightarrow> (string \<times> rial) list" where
  "mock_listUnverified g =
     map (\<lambda>(authority, r). (authority, mr_amountRial r))
       (filter (\<lambda>(authority, r). verifiedAt r = None) (mock_records g))"

definition put_record :: "string \<Rightarrow> MockRecord \<Rightarrow> MockGateway \<Rightarrow> MockGateway" where
  "put_record a r g = g\<lparr>mock_records := AList.update a r (mock_records g)\<rparr>"

definition mock_refund :: "MockGateway \<Rightarrow> string \<Rightarrow> rial \<Rightarrow> RefundOutcome \<times> MockGateway" where
  "mock_refund g authority amountRial =
     (case map_of (mock_records g) authority of
        None \<Rightarrow> (RefundRejected (Some (- 51)), g)
      | Some r \<Rightarrow>
          if verifiedAt r = None then (RefundRejected (Some (- 52)), g)
          else if refundRef r \<noteq> None then (RefundRejected (Some (- 53)), g)
          else if mr_amountRial r \<noteq> amountRial then (RefundRejected (Some (- 50)), g)
          else (let ref = ''MOCKRF'' @ slice_last 8 authority
                in (Refunded ref, put_record authority (r\<lparr>refundRef := Some ref\<rparr>) g)))"

definition mock_reverse :: "MockGateway \<Rightarrow> string \<Rightarrow> ReverseOutcome \<times> MockGateway" where
  "mock_reverse g authority =
     (case map_of (mock_records g) authority of
        None \<Rightarrow> (ReverseRejected (Some (- 51)), g)
      | Some r \<Rightarrow>
          if verifiedAt r \<noteq> None then (ReverseRejected (Some (- 54)), g)
          else if mr_reversed r then (ReverseRejected (Some (- 55)), g)
          else (Reversed, put_record authority (r\<lparr>mr_reversed := True\<rparr>) g))"

definition mock_verifyPayment :: "MockGateway \<Rightarrow> string \<Rightarrow> rial \<Rightarrow> VerifyOutcome \<times> MockGateway" where
  "mock_verifyPayment g authority amountRial =
     (case map_of (mock_records g) authority of
        None \<Rightarrow> (NotPaid (Some (- 51)), g)
      | Some r \<Rightarrow>
          if mr_reversed r then (NotPaid (Some (- 55)), g)
          else if failEveryPayment g then (NotPaid (Some (- 51)), g)
          else if mr_amountRial r \<noteq> amountRial then (NotPaid (Some (- 50)), g)
          else (let already = (verifiedAt r \<noteq> None);
                    g' = (if already then g
                          else put_record authority
                                 (r\<lparr>verifiedAt := Some (length (mock_records g))\<rparr>) g)
                in (Paid already (''MOCKREF'' @ slice_last 8 authority)
                      (Some ''502229******0000'') None (Some 0), g')))"

subsection \<open>Runs of the mock gateway\<close>

datatype MockOp =
  OpCreate string rial | OpVerify string rial | OpRefund string rial | OpReverse string

datatype MockReply =
  ReplyCreate "CreateError + CreatePaymentResult" | ReplyVerify VerifyOutcome
| ReplyRefund RefundOutcome | ReplyReverse ReverseOutcome

fun mock_step :: "MockGateway \<Rightarrow> MockOp \<Rightarrow> MockReply \<times> MockGateway" where
  "mock_step g (OpCreate a n) =
     (case mock_createPayment g n a of
        Inl e \<Rightarrow> (ReplyCreate (Inl e), g) | Inr (r, g') \<Rightarrow> (ReplyCreate (Inr r), g'))"
| "mock_step g (OpVerify a n) = (let (out, g') = mock_verifyPayment g a n in (ReplyVerify out, g'))"
| "mock_step g (OpRefund a n) = (let (out, g') = mock_refund g a n in (ReplyRefund out, g'))"
| "mock_step g (OpReverse a) = (let (out, g') = mock_reverse g a in (ReplyReverse out, g'))"

fun mock_run :: "MockGateway \<Rightarrow> MockOp list \<Rightarrow> (MockOp \<times> MockReply) list \<times> MockGateway" where
  "mock_run g [] = ([], g)"
| "mock_run g (op # ops) =
     (let (reply, g') = mock_step g op; (trace, g'') = mock_run g' ops in ((op, reply) # trace, g''))"

text \<open>The events of one payment that move money.\<close>

fun is_first_paid :: "string \<Rightarrow> MockOp \<times> MockReply \<Rightarrow> bool" where
  "is_first_paid a (OpVerify b _, ReplyVerify (Paid already _ _ _ _)) = (a = b \<and> \<not> already)"
| "is_first_paid a _ = False"

fun is_repaid :: "string \<Rightarrow> MockOp \<times> MockReply \<Rightarrow> bool" where
  "is_repaid a (OpVerify b _, ReplyVerify (Paid already _ _ _ _)) = (a = b \<and> already)"
| "is_repaid a _ = False"

fun is_refunded :: "string \<Rightarrow> MockOp \<times> MockReply \<Rightarrow> bool" where
  "is_refunded a (OpRefund b _, ReplyRefund (Refunded _)) = (a = b)"
| "is_refunded a _ = False"

fun is_reversed :: "string \<Rightarrow> MockOp \<times> MockReply \<Rightarrow> bool" where
  "is_reversed a (OpReverse b, ReplyReverse Reversed) = (a = b)"
| "is_reversed a _ = False"

fun creates :: "string \<Rightarrow> MockOp \<Rightarrow> bool" where
  "creates a (OpCreate b _) = (a = b)"
| "creates a _ = False"


definition paid_in :: "MockGateway \<Rightarrow> string \<Rightarrow> nat" where
  "paid_in g a = (case map_of (mock_records g) a of
     None \<Rightarrow> 0 | Some r \<Rightarrow> if verifiedAt r = None then 0 else 1)"

definition refunded_in :: "MockGateway \<Rightarrow> string \<Rightarrow> nat" where
  "refunded_in g a = (case map_of (mock_records g) a of
     None \<Rightarrow> 0 | Some r \<Rightarrow> if refundRef r = None then 0 else 1)"

definition reversed_in :: "MockGateway \<Rightarrow> string \<Rightarrow> nat" where
  "reversed_in g a = (case map_of (mock_records g) a of
     None \<Rightarrow> 0 | Some r \<Rightarrow> if mr_reversed r then 1 else 0)"

definition wf_mock :: "MockGateway \<Rightarrow> bool" where
  "wf_mock g \<longleftrightarrow> (\<forall>a. refunded_in g a \<le> paid_in g a \<and> paid_in g a + reversed_in g a \<le> 1)"

lemmas mock_ops = mock_createPayment_def mock_verifyPayment_def mock_refund_def mock_reverse_def

lemmas mock_views = paid_in_def refunded_in_def reversed_in_def

lemma map_of_update [simp]: "map_of (AList.update k v al) = (map_of al)(k \<mapsto> v)"
  by (rule update_conv')

lemma views_put_record [store_simps]:
  "paid_in (put_record b r g) a =
     (if a = b then (if verifiedAt r = None then 0 else 1) else paid_in g a)"
  "refunded_in (put_record b r g) a =
     (if a = b then (if refundRef r = None then 0 else 1) else refunded_in g a)"
  "reversed_in (put_record b r g) a =
     (if a = b then (if mr_reversed r then 1 else 0) else reversed_in g a)"
  by (simp_all add: mock_views put_record_def)

lemma views_of_record [store_simps]:
  assumes "map_of (mock_records g) a = Some r"
  shows "paid_in g a = (if verifiedAt r = None then 0 else 1)"
    and "refunded_in g a = (if refundRef r = None then 0 else 1)"
    and "reversed_in g a = (if mr_reversed r then 1 else 0)"
  using assms by (simp_all add: mock_views)

lemma views_of_missing [store_simps]:
  assumes "map_of (mock_records g) a = None"
  shows "paid_in g a = 0" and "refunded_in g a = 0" and "reversed_in g a = 0"
  using assms by (simp_all add: mock_views)

text \<open>What one call does: it leaves the gateway alone, or replaces one record by one of four.\<close>

inductive mock_change :: "MockGateway \<Rightarrow> MockOp \<Rightarrow> MockReply \<Rightarrow> MockGateway \<Rightarrow> bool" where
  unchanged: "\<lbrakk>\<And>a. \<not> is_first_paid a (op, reply) \<and> \<not> is_refunded a (op, reply) \<and>
      \<not> is_reversed a (op, reply) \<and> (is_repaid a (op, reply) \<longrightarrow> paid_in g a = 1)\<rbrakk> \<Longrightarrow>
    mock_change g op reply g"
| created: "mock_change g (OpCreate b n) (ReplyCreate res)
    (put_record b \<lparr> mr_amountRial = n, verifiedAt = None, refundRef = None, mr_reversed = False \<rparr> g)"
| paid: "\<lbrakk>map_of (mock_records g) b = Some r; verifiedAt r = None; \<not> mr_reversed r\<rbrakk> \<Longrightarrow>
    mock_change g (OpVerify b n) (ReplyVerify (Paid False ref pan hash fee))
      (put_record b (r\<lparr>verifiedAt := Some k\<rparr>) g)"
| refunded: "\<lbrakk>map_of (mock_records g) b = Some r; verifiedAt r \<noteq> None; refundRef r = None\<rbrakk> \<Longrightarrow>
    mock_change g (OpRefund b n) (ReplyRefund (Refunded ref)) (put_record b (r\<lparr>refundRef := Some ref\<rparr>) g)"
| reversed: "\<lbrakk>map_of (mock_records g) b = Some r; verifiedAt r = None; \<not> mr_reversed r\<rbrakk> \<Longrightarrow>
    mock_change g (OpReverse b) (ReplyReverse Reversed) (put_record b (r\<lparr>mr_reversed := True\<rparr>) g)"

lemma mock_step_change:
  assumes "mock_step g op = (reply, g')"
  shows "mock_change g op reply g'"
proof (cases op)
  case (OpCreate b n)
  show ?thesis
  proof (cases "assertGatewayAmount n")
    case (Inl e)
    with OpCreate assms have "reply = ReplyCreate (Inl (AmountRefused e))" "g' = g"
      by (simp_all add: mock_createPayment_def)
    then show ?thesis using OpCreate by (auto intro: unchanged)
  next
    case (Inr u)
    with OpCreate assms have "reply = ReplyCreate (Inr (gateway_result (checkoutBaseUrl g) b))"
      "g' = put_record b \<lparr> mr_amountRial = n, verifiedAt = None, refundRef = None, mr_reversed = False \<rparr> g"
      by (simp_all add: mock_createPayment_def put_record_def)
    then show ?thesis using OpCreate created by simp
  qed
next
  case (OpVerify b n)
  then show ?thesis using assms
    by (auto simp: mock_verifyPayment_def Let_def views_of_record intro: unchanged paid
        split: option.splits if_splits)
next
  case (OpRefund b n)
  then show ?thesis using assms
    by (auto simp: mock_refund_def Let_def intro: unchanged refunded split: option.splits if_splits)
next
  case (OpReverse b)
  then show ?thesis using assms
    by (auto simp: mock_reverse_def Let_def intro: unchanged reversed split: option.splits if_splits)
qed

lemma mock_change_counts:
  assumes "mock_change g op reply g'" "creates a op \<longrightarrow> map_of (mock_records g) a = None"
  shows "paid_in g' a = paid_in g a + (if is_first_paid a (op, reply) then 1 else 0) \<and>
    refunded_in g' a = refunded_in g a + (if is_refunded a (op, reply) then 1 else 0) \<and>
    reversed_in g' a = reversed_in g a + (if is_reversed a (op, reply) then 1 else 0) \<and>
    (is_repaid a (op, reply) \<longrightarrow> paid_in g' a = 1)"
  using assms by cases (simp_all add: store_simps)

lemma mock_change_wf:
  assumes "mock_change g op reply g'" "wf_mock g"
  shows "wf_mock g'"
proof -
  have w: "refunded_in g b \<le> paid_in g b \<and> paid_in g b + reversed_in g b \<le> 1" for b
    using assms(2) by (simp add: wf_mock_def)
  have "refunded_in g' a \<le> paid_in g' a \<and> paid_in g' a + reversed_in g' a \<le> 1" for a
    using assms(1) w [of a] by cases (auto simp: store_simps split: if_splits)
  then show ?thesis by (simp add: wf_mock_def)
qed

lemmas mock_step_counts = mock_change_counts [OF mock_step_change]
  and mock_step_wf = mock_change_wf [OF mock_step_change]

lemma mock_step_dom:
  "mock_step g op = (reply, g') \<Longrightarrow> \<not> creates a op \<Longrightarrow>
     map_of (mock_records g') a = None \<longleftrightarrow> map_of (mock_records g) a = None"
  by (drule mock_step_change, erule mock_change.cases) (auto simp: put_record_def)

definition occurrences :: "('e \<Rightarrow> bool) \<Rightarrow> 'e list \<Rightarrow> nat" where
  "occurrences p xs = length (filter p xs)"

lemma occurrences_Cons [simp]: "occurrences p (x # xs) = (if p x then 1 else 0) + occurrences p xs"
  by (simp add: occurrences_def)

lemma occurrences_Nil [simp]: "occurrences p [] = 0"
  by (simp add: occurrences_def)

text \<open>The records are exactly the history: each flag counts the events of its kind.\<close>

lemma mock_run_counts:
  assumes "mock_run g ops = (trace, g')" "wf_mock g"
    and "occurrences (creates a) ops + (if map_of (mock_records g) a = None then 0 else 1) \<le> 1"
  shows "paid_in g' a = paid_in g a + occurrences (is_first_paid a) trace \<and>
    refunded_in g' a = refunded_in g a + occurrences (is_refunded a) trace \<and>
    reversed_in g' a = reversed_in g a + occurrences (is_reversed a) trace \<and>
    wf_mock g' \<and> (0 < occurrences (is_repaid a) trace \<longrightarrow> paid_in g' a = 1)"
  using assms
proof (induction ops arbitrary: g trace)
  case Nil
  then show ?case by simp
next
  case (Cons op ops)
  obtain reply g1 where step: "mock_step g op = (reply, g1)" by (cases "mock_step g op")
  obtain tr g2 where run: "mock_run g1 ops = (tr, g2)" by (cases "mock_run g1 ops")
  from Cons.prems(1) step run have tr: "trace = (op, reply) # tr" and g2: "g2 = g'" by auto
  have cr: "creates a op \<longrightarrow> map_of (mock_records g) a = None"
    using Cons.prems(3) by (auto split: if_splits)
  have "occurrences (creates a) ops + (if map_of (mock_records g1) a = None then 0 else 1) \<le> 1"
    using Cons.prems(3) cr mock_step_dom [OF step, of a] by (auto split: if_splits)
  note IH = Cons.IH [OF run [unfolded g2] mock_step_wf [OF step Cons.prems(2)] this]
  have "wf_mock g'" using IH by blast
  then have le: "paid_in g' a \<le> 1" unfolding wf_mock_def by (meson add_leD1)
  have rep: "is_repaid a (op, reply) \<Longrightarrow> paid_in g' a = 1"
    using mock_step_counts [OF step cr] IH le by simp
  show ?case
    using IH mock_step_counts [OF step cr] rep unfolding tr by auto
qed

lemma wf_new_MockGateway [simp]: "wf_mock (new_MockGateway u f)"
  by (simp add: wf_mock_def new_MockGateway_def mock_views)

text \<open>
  Money moves at most once through the mock gateway: for any sequence of calls in which a
  payment's authority is created once, at most one verification answers "paid, first time", at most
  one refund succeeds and only for a payment that was paid, a payment is never both paid and reversed,
  and "already verified" is only answered for a payment some verification reported as paid.
\<close>

theorem mock_money_moves_once:
  assumes "mock_run (new_MockGateway u f) ops = (trace, g)" "occurrences (creates a) ops \<le> 1"
  shows "occurrences (is_first_paid a) trace \<le> 1 \<and>
    occurrences (is_refunded a) trace \<le> occurrences (is_first_paid a) trace \<and>
    occurrences (is_first_paid a) trace + occurrences (is_reversed a) trace \<le> 1 \<and>
    (0 < occurrences (is_repaid a) trace \<longrightarrow> occurrences (is_first_paid a) trace = 1)"
proof -
  have fresh: "paid_in (new_MockGateway u f) a = 0" "refunded_in (new_MockGateway u f) a = 0"
    "reversed_in (new_MockGateway u f) a = 0" "map_of (mock_records (new_MockGateway u f)) a = None"
    by (simp_all add: new_MockGateway_def mock_views)
  have creates_ok: "occurrences (creates a) ops +
      (if map_of (mock_records (new_MockGateway u f)) a = None then 0 else 1) \<le> 1"
    using assms(2) fresh(4) by simp
  note run = mock_run_counts [OF assms(1) wf_new_MockGateway creates_ok, unfolded fresh add_0]
  have "wf_mock g" using run by (elim conjE)
  then have "refunded_in g a \<le> paid_in g a" "paid_in g a + reversed_in g a \<le> 1"
    by (simp_all add: wf_mock_def)
  then show ?thesis using run by (elim conjE) simp
qed

definition sample_ops :: "MockOp list" where
  "sample_ops = [OpCreate ''A'' 5000, OpRefund ''A'' 5000, OpVerify ''A'' 5000, OpVerify ''A'' 5000,
     OpReverse ''A'', OpRefund ''A'' 4999, OpRefund ''A'' 5000, OpRefund ''A'' 5000]"

theorem mock_money_moves_once_witness:
  "occurrences (is_first_paid ''A'') (fst (mock_run (new_MockGateway ''/pay'' None) sample_ops)) = 1"
proof -
  obtain trace g where run: "mock_run (new_MockGateway ''/pay'' None) sample_ops = (trace, g)"
    by (cases "mock_run (new_MockGateway ''/pay'' None) sample_ops")
  have "occurrences (creates ''A'') sample_ops \<le> 1" by (simp add: sample_ops_def)
  from mock_money_moves_once [OF run this]
  have "occurrences (is_first_paid ''A'') trace \<le> 1" by (rule conjunct1)
  moreover have "0 < occurrences (is_first_paid ''A'') (fst (mock_run (new_MockGateway ''/pay'' None) sample_ops))"
    by code_simp
  ultimately show ?thesis using run by simp
qed


subsection \<open>Card to card\<close>

record TransferRecord =
  approvedAtMs :: "epoch_ms option"
  transferRef :: "string option"
  senderLast4 :: "string option"
  claimedAtMs :: "epoch_ms option"
  requestedAtMs :: epoch_ms
  nowMs :: epoch_ms

definition CARD_TRANSFER_ABANDONED :: int where "CARD_TRANSFER_ABANDONED = 1001"

definition maskLast4 :: "string option \<Rightarrow> string option" where
  "maskLast4 last4 = (case last4 of None \<Rightarrow> None | Some s \<Rightarrow> Some (''****'' @ s))"

definition decideTransfer :: "TransferRecord option \<Rightarrow> int \<Rightarrow> VerifyOutcome" where
  "decideTransfer record claimWindowMs =
     (case record of
        None \<Rightarrow> GatewayError None
      | Some r \<Rightarrow>
          if approvedAtMs r \<noteq> None
          then (case transferRef r of
                  None \<Rightarrow> GatewayError None
                | Some ref \<Rightarrow> Paid False ref (maskLast4 (senderLast4 r)) None None)
          else if claimedAtMs r \<noteq> None then GatewayError None
          else if nowMs r - requestedAtMs r < claimWindowMs then GatewayError None
          else NotPaid (Some CARD_TRANSFER_ABANDONED))"

text \<open>\<open>CardTransferGateway\<close>: the row reader is the function \<open>reader\<close>; it keeps no state of its own.\<close>

definition card_createPayment :: "string \<Rightarrow> rial \<Rightarrow> string \<Rightarrow> CreateError + CreatePaymentResult" where
  "card_createPayment baseUrl amountRial authority =
     (case assertGatewayAmount amountRial of
        Inl e \<Rightarrow> Inl (AmountRefused e)
      | Inr _ \<Rightarrow> Inr (gateway_result (strip_slashes baseUrl) authority))"

definition card_verifyPayment ::
  "(string \<Rightarrow> TransferRecord option) \<Rightarrow> int \<Rightarrow> string \<Rightarrow> VerifyOutcome" where
  "card_verifyPayment reader claimWindowMs authority = decideTransfer (reader authority) claimWindowMs"

definition hex_digit :: "nat \<Rightarrow> char" where
  "hex_digit d = (if d < 10 then digit_char d else char_of (87 + d))"

definition hex_byte :: "nat \<Rightarrow> string" where
  "hex_byte b = pad_start 2 (CHR ''0'')
     (if b < 16 then [hex_digit b] else [hex_digit (b div 16), hex_digit (b mod 16)])"

text \<open>\<open>bytes\<close> are the sixteen random bytes of Web Crypto.\<close>

definition randomAuthority :: "nat list \<Rightarrow> string" where
  "randomAuthority bytes = ''CT'' @ concat (map hex_byte bytes)"

lemma hex_digit_inj: "a < 16 \<Longrightarrow> b < 16 \<Longrightarrow> hex_digit a = hex_digit b \<Longrightarrow> a = b"
  by (auto simp: hex_digit_def split: if_splits)

lemma zero_char: "char_of (48 :: nat) = CHR ''0''"
  by code_simp

lemma hex_byte_two: "b < 256 \<Longrightarrow> hex_byte b = [hex_digit (b div 16), hex_digit (b mod 16)]"
  by (auto simp: hex_byte_def pad_start_def hex_digit_def zero_char)

lemma hex_byte_inj: "a < 256 \<Longrightarrow> b < 256 \<Longrightarrow> hex_byte a = hex_byte b \<Longrightarrow> a = b"
proof -
  assume h: "a < 256" "b < 256" "hex_byte a = hex_byte b"
  then have "hex_digit (a div 16) = hex_digit (b div 16)" "hex_digit (a mod 16) = hex_digit (b mod 16)"
    by (simp_all add: hex_byte_two)
  moreover have "a div 16 < 16" "b div 16 < 16" using h by simp_all
  ultimately have "a div 16 = b div 16" "a mod 16 = b mod 16"
    by (simp_all add: hex_digit_inj)
  then show ?thesis by (metis div_mult_mod_eq)
qed

text \<open>Distinct random bytes give distinct authorities: the hexadecimal text loses nothing.\<close>

lemma randomAuthority_inj:
  assumes "\<forall>b \<in> set bs. b < 256" "\<forall>b \<in> set cs. b < 256" "randomAuthority bs = randomAuthority cs"
  shows "bs = cs"
proof -
  have "concat (map hex_byte bs) = concat (map hex_byte cs)"
    using assms(3) by (simp add: randomAuthority_def)
  with assms(1,2) show ?thesis
  proof (induction bs arbitrary: cs)
    case Nil
    then show ?case by (cases cs) (simp_all add: hex_byte_two)
  next
    case (Cons b bs)
    note IH = Cons.IH and bs = Cons.prems
    show ?case
    proof (cases cs)
      case Nil
      with bs show ?thesis by (simp add: hex_byte_two)
    next
      case (Cons c cs')
      have lt: "b < 256" "c < 256" using bs(1,2) Cons by simp_all
      have "hex_byte b @ concat (map hex_byte bs) = hex_byte c @ concat (map hex_byte cs')"
        using bs(3) Cons by simp
      moreover have len: "length (hex_byte b) = length (hex_byte c)" using lt by (simp add: hex_byte_two)
      ultimately have "hex_byte b = hex_byte c \<and>
          concat (map hex_byte bs) = concat (map hex_byte cs')"
        by (rule append_eq_append_conv [THEN iffD1, OF disjI1, rotated])
      then have eq: "hex_byte b = hex_byte c" "concat (map hex_byte bs) = concat (map hex_byte cs')"
        by (rule conjunct1, rule conjunct2)
      have "bs = cs'" using IH [of cs'] bs(1,2) Cons eq(2) by simp
      moreover have "b = c" by (rule hex_byte_inj [OF lt eq(1)])
      ultimately show ?thesis using Cons by simp
    qed
  qed
qed

text \<open>
  The three-valued verdict on a manual transfer. Only an approval with a reference number is
  "paid", and never "already verified"; "not paid" is answered for exactly the rows that are known,
  unapproved, unclaimed and past their window; everything else, in particular every claimed row
  however old, is "unknown". As time passes, a verdict only ever changes from "unknown" to "not paid".
\<close>

theorem decideTransfer_verdict:
  fixes later :: int
  assumes "0 \<le> later"
  shows "((\<exists>al ref pan hash fee. decideTransfer rec w = Paid al ref pan hash fee) \<longleftrightarrow>
      (\<exists>r. rec = Some r \<and> approvedAtMs r \<noteq> None \<and> transferRef r \<noteq> None)) \<and>
    (\<forall>al ref pan hash fee. decideTransfer rec w = Paid al ref pan hash fee \<longrightarrow>
      \<not> al \<and> rec \<noteq> None \<and> transferRef (the rec) = Some ref) \<and>
    ((\<exists>c. decideTransfer rec w = NotPaid c) \<longleftrightarrow>
      (\<exists>r. rec = Some r \<and> approvedAtMs r = None \<and> claimedAtMs r = None \<and>
           w \<le> nowMs r - requestedAtMs r)) \<and>
    (decideTransfer (map_option (nowMs_update (\<lambda>t. t + later)) rec) w \<noteq> decideTransfer rec w \<longrightarrow>
      decideTransfer rec w = GatewayError None \<and>
      decideTransfer (map_option (nowMs_update (\<lambda>t. t + later)) rec) w =
        NotPaid (Some CARD_TRANSFER_ABANDONED))"
proof (cases rec)
  case None
  then show ?thesis by (simp add: decideTransfer_def)
next
  case (Some r)
  then show ?thesis
    using assms by (cases "transferRef r") (auto simp: decideTransfer_def split: if_splits)
qed

definition sample_transfer :: TransferRecord where
  "sample_transfer = \<lparr> approvedAtMs = None, transferRef = None, senderLast4 = None,
     claimedAtMs = Some 10, requestedAtMs = 0, nowMs = 100 \<rparr>"

theorem decideTransfer_verdict_witness:
  "\<not> (\<exists>c. decideTransfer (Some sample_transfer) 50 = NotPaid c)"
  using decideTransfer_verdict [of 0 "Some sample_transfer" 50] by (simp add: sample_transfer_def)

subsection \<open>Zarinpal\<close>

text \<open>
  A call yields nothing (the network failed or timed out) or a status and a parsed body; a body that
  is not JSON is read as the empty object.
\<close>

record RawReply =
  rr_status :: int
  rr_body :: json

definition zp_call :: "(int \<times> json option) option \<Rightarrow> RawReply option" where
  "zp_call response =
     (case response of
        None \<Rightarrow> None
      | Some (status, body) \<Rightarrow>
          Some \<lparr> rr_status = status, rr_body = (case body of None \<Rightarrow> JObj [] | Some b \<Rightarrow> b) \<rparr>)"

definition PAID_CODES :: "int set" where "PAID_CODES = {100, 101}"

definition codeOf :: "RawReply \<Rightarrow> int option" where
  "codeOf reply =
     (case as_number (opt_field (get_field (rr_body reply) ''data'') ''code'') of
        Some code \<Rightarrow> Some code
      | None \<Rightarrow> as_number (opt_field (get_field (rr_body reply) ''errors'') ''code''))"

definition zp_createPayment ::
  "string \<Rightarrow> rial \<Rightarrow> (int \<times> json option) option \<Rightarrow> CreateError + CreatePaymentResult" where
  "zp_createPayment baseUrl amountRial response =
     (case assertGatewayAmount amountRial of
        Inl e \<Rightarrow> Inl (AmountRefused e)
      | Inr _ \<Rightarrow>
         (case zp_call response of
            None \<Rightarrow> Inl CallFailed
          | Some reply \<Rightarrow>
              if rr_body reply = JNull then Inl BodyNotObject
              else (case (codeOf reply, as_string (opt_field (get_field (rr_body reply) ''data'') ''authority'')) of
                      (Some code, Some authority) \<Rightarrow>
                        if code \<noteq> 100 then Inl (CreateFailed (Some code))
                        else Inr (gateway_result (baseUrl @ ''/pg/StartPay'') authority)
                    | (code, _) \<Rightarrow> Inl (CreateFailed code))))"

definition zp_verifyPayment :: "(int \<times> json option) option \<Rightarrow> CreateError + VerifyOutcome" where
  "zp_verifyPayment response =
     (case zp_call response of
        None \<Rightarrow> Inr (GatewayError None)
      | Some reply \<Rightarrow>
          if rr_body reply = JNull then Inl BodyNotObject
          else (case codeOf reply of
                  None \<Rightarrow> Inr (GatewayError None)
                | Some code \<Rightarrow>
                    if code \<in> PAID_CODES
                    then (let data = get_field (rr_body reply) ''data''
                          in Inr (Paid (code = 101)
                               (case opt_field data ''ref_id'' of
                                  None \<Rightarrow> [] | Some JNull \<Rightarrow> [] | Some v \<Rightarrow> js_string v)
                               (as_string (opt_field data ''card_pan''))
                               (as_string (opt_field data ''card_hash''))
                               (as_number (opt_field data ''fee''))))
                    else Inr (NotPaid (Some code))))"

definition zp_refund :: "RefundOutcome" where
  "zp_refund = RefundUnavailable"

text \<open>
  Reading a Zarinpal verification: the verdict is decided by the business code alone and never by
  the HTTP status; both 100 and 101 are "paid" and only 101 is "already verified"; every other code is
  "not paid" with that code; no code, or no answer, is "unknown". The only exception thrown is for a
  body that parses to \<open>null\<close>.
\<close>

theorem zp_verifyPayment_verdict:
  assumes "zp_call response = Some reply" "rr_body reply \<noteq> JNull"
  shows "(\<exists>out. zp_verifyPayment response = Inr out \<and>
      ((\<exists>al ref pan hash fee. out = Paid al ref pan hash fee) \<longleftrightarrow> codeOf reply \<in> {Some 100, Some 101}) \<and>
      (\<forall>al ref pan hash fee. out = Paid al ref pan hash fee \<longrightarrow> (al \<longleftrightarrow> codeOf reply = Some 101)) \<and>
      (\<forall>c. out = NotPaid c \<longleftrightarrow> c = codeOf reply \<and> codeOf reply \<notin> {None, Some 100, Some 101}) \<and>
      (\<forall>c. out = GatewayError c \<longleftrightarrow> c = None \<and> codeOf reply = None)) \<and>
    zp_verifyPayment None = Inr (GatewayError None) \<and>
    (\<forall>status body. response = Some (status, body) \<longrightarrow>
       (\<forall>status'. zp_verifyPayment (Some (status', body)) = zp_verifyPayment response))"
proof (intro conjI)
  show "zp_verifyPayment None = Inr (GatewayError None)"
    by (simp add: zp_verifyPayment_def zp_call_def)
  show "\<forall>status body. response = Some (status, body) \<longrightarrow>
      (\<forall>status'. zp_verifyPayment (Some (status', body)) = zp_verifyPayment response)"
    by (auto simp: zp_verifyPayment_def zp_call_def codeOf_def split: option.splits)
  show "\<exists>out. zp_verifyPayment response = Inr out \<and>
      ((\<exists>al ref pan hash fee. out = Paid al ref pan hash fee) \<longleftrightarrow> codeOf reply \<in> {Some 100, Some 101}) \<and>
      (\<forall>al ref pan hash fee. out = Paid al ref pan hash fee \<longrightarrow> (al \<longleftrightarrow> codeOf reply = Some 101)) \<and>
      (\<forall>c. out = NotPaid c \<longleftrightarrow> c = codeOf reply \<and> codeOf reply \<notin> {None, Some 100, Some 101}) \<and>
      (\<forall>c. out = GatewayError c \<longleftrightarrow> c = None \<and> codeOf reply = None)"
    using assms by (cases "codeOf reply") (auto simp: zp_verifyPayment_def PAID_CODES_def Let_def)
qed

definition zp_not_paid_response :: "(int \<times> json option) option" where
  "zp_not_paid_response =
     Some (401, Some (JObj [(''data'', JArr []), (''errors'', JObj [(''code'', JNum (- 51))])]))"

theorem zp_verifyPayment_verdict_witness:
  "zp_verifyPayment zp_not_paid_response = Inr (NotPaid (Some (- 51)))"
proof -
  define reply where "reply = the (zp_call zp_not_paid_response)"
  have reply: "zp_call zp_not_paid_response = Some reply" "rr_body reply \<noteq> JNull"
    "codeOf reply = Some (- 51)"
    by (simp_all add: reply_def zp_call_def zp_not_paid_response_def codeOf_def)
  from zp_verifyPayment_verdict [OF reply(1,2), THEN conjunct1] reply(3) show ?thesis by auto
qed

subsection \<open>What a checkout relies on\<close>

locale payment_gateway =
  fixes create :: "'s \<Rightarrow> rial \<Rightarrow> CreateError + (CreatePaymentResult \<times> 's)"
  assumes create_guarded: "create s n = Inr (r, s') \<Longrightarrow> assertGatewayAmount n = Inr ()"
    and create_refused: "assertGatewayAmount n = Inl e \<Longrightarrow> create s n = Inl (AmountRefused e)"
    and create_redirect: "create s n = Inr (r, s') \<Longrightarrow> \<exists>base. redirectUrl r = base @ ''/'' @ cr_authority r"
begin

lemma accepted_amount: "create s n = Inr (r, s') \<Longrightarrow> GATEWAY_MIN_RIAL \<le> n \<and> n \<le> GATEWAY_MAX_RIAL"
  using create_guarded assertGatewayAmount_ok_iff
  by (simp add: GATEWAY_MIN_RIAL_def GATEWAY_MAX_RIAL_def)

lemma refused_amount: "n < GATEWAY_MIN_RIAL \<or> GATEWAY_MAX_RIAL < n \<Longrightarrow> \<exists>e. create s n = Inl e"
  using accepted_amount by (cases "create s n") fastforce+

lemma redirect_ends_with_authority:
  "create s n = Inr (r, s') \<Longrightarrow> drop (length (redirectUrl r) - length (cr_authority r)) (redirectUrl r) =
     cr_authority r"
  using create_redirect by fastforce

end

lemma map_sum_Inl: "map_sum id f x = Inl e \<longleftrightarrow> x = Inl e"
  by (cases x) simp_all

interpretation mock_port: payment_gateway "\<lambda>g n. mock_createPayment g n a" for a
  by unfold_locales
    (auto simp: mock_createPayment_def gateway_result_def split: sum.splits)

interpretation card_port: payment_gateway
  "\<lambda>(_ :: unit) n. map_sum id (\<lambda>r. (r, ())) (card_createPayment base n a)" for base a
  by unfold_locales
    (auto simp: card_createPayment_def gateway_result_def split: sum.splits)

interpretation zarinpal_port: payment_gateway
  "\<lambda>(_ :: unit) n. map_sum id (\<lambda>r. (r, ())) (zp_createPayment base n response)" for base response
proof
  fix s n r s'
  assume "map_sum id (\<lambda>r. (r, ())) (zp_createPayment base n response) = Inr (r, s')"
  then have h: "zp_createPayment base n response = Inr r"
    by (cases "zp_createPayment base n response") simp_all
  then show "assertGatewayAmount n = Inr ()"
    by (simp add: zp_createPayment_def split: sum.splits)
  from h show "\<exists>base. redirectUrl r = base @ ''/'' @ cr_authority r"
    by (auto simp: zp_createPayment_def gateway_result_def split: sum.splits option.splits if_splits)
qed (simp add: zp_createPayment_def)

text \<open>
  No gateway is ever asked for an amount outside the agreed range, whichever of the three is
  wired in and whatever the network answers.
\<close>

theorem gateways_refuse_out_of_range:
  assumes "n < GATEWAY_MIN_RIAL \<or> GATEWAY_MAX_RIAL < n"
  shows "(\<exists>e. mock_createPayment g n a = Inl e) \<and> (\<exists>e. card_createPayment base n a = Inl e) \<and>
    (\<exists>e. zp_createPayment base n response = Inl e)"
  using mock_port.refused_amount [OF assms, of g a] card_port.refused_amount [OF assms, of base a]
    zarinpal_port.refused_amount [OF assms, of base response]
  by (simp add: map_sum_Inl)

theorem gateways_refuse_out_of_range_witness:
  "\<exists>e. card_createPayment ''/pay/'' 999 ''CT00'' = Inl e"
  using gateways_refuse_out_of_range [of 999] by (simp add: GATEWAY_MIN_RIAL_def)

end
