(* ===== verification/TransferDestination.thy ===== *)
theory TransferDestination
  imports HB_Prelude
begin

text \<open>
  \<open>packages/billing-core/src/transfer-destination.ts\<close>: the boot-time check of the card number and the
  IBAN (sheba) customers are told to pay to. What the two checksums catch is stated exactly: every
  wrong digit, and every transposition of two neighbours except, for Luhn, 0 and 9.
\<close>

subsection \<open>Text\<close>

text \<open>
  The Latin-1 part of \<open>\s\<close> and of what \<open>trim\<close> removes. \<open>toUpperCase\<close> is modelled on ASCII: a text with
  any other letter is refused by the pattern that follows, before and after the conversion.
\<close>

definition js_space :: "char \<Rightarrow> bool" where
  "js_space c \<longleftrightarrow> (9 \<le> (of_char c :: nat) \<and> (of_char c :: nat) \<le> 13) \<or> (of_char c :: nat) = 32 \<or> (of_char c :: nat) = 160"

definition js_trim :: "string \<Rightarrow> string" where
  "js_trim s = rev (dropWhile js_space (rev (dropWhile js_space s)))"

definition upper_char :: "char \<Rightarrow> char" where
  "upper_char c = (if 97 \<le> (of_char c :: nat) \<and> (of_char c :: nat) \<le> 122 then char_of ((of_char c :: nat) - 32) else c)"

definition is_digit :: "char \<Rightarrow> bool" where
  "is_digit c \<longleftrightarrow> 48 \<le> (of_char c :: nat) \<and> (of_char c :: nat) \<le> 57"

definition digit :: "char \<Rightarrow> int" where
  "digit c = int (of_char c) - 48"

definition digitsOnly :: "string \<Rightarrow> string" where
  "digitsOnly raw = filter (\<lambda>c. \<not> (js_space c \<or> c = CHR ''-'')) raw"

subsection \<open>The checksums\<close>

text \<open>One position of Luhn's sum; the loop runs from the last character to the first.\<close>

definition luhn_digit :: "bool \<Rightarrow> int \<Rightarrow> int" where
  "luhn_digit dbl d = (if dbl then (if d * 2 > 9 then d * 2 - 9 else d * 2) else d)"

fun luhn_loop :: "string \<Rightarrow> bool \<Rightarrow> int \<Rightarrow> int" where
  "luhn_loop [] dbl acc = acc"
| "luhn_loop (c # cs) dbl acc = luhn_loop cs (\<not> dbl) (acc + luhn_digit dbl (digit c))"

definition luhnOk :: "string \<Rightarrow> bool" where
  "luhnOk digits \<longleftrightarrow> luhn_loop (rev digits) False 0 mod 10 = 0"

text \<open>\<open>/^IR\d{24}$/\<close>\<close>

definition sheba_shape :: "string \<Rightarrow> bool" where
  "sheba_shape value \<longleftrightarrow> take 2 value = ''IR'' \<and> length value = 26 \<and> list_all is_digit (drop 2 value)"

fun mod97_loop :: "string \<Rightarrow> int \<Rightarrow> int" where
  "mod97_loop [] remainder = remainder"
| "mod97_loop (ch # rest) remainder = mod97_loop rest ((remainder * 10 + digit ch) mod 97)"

definition shebaOk :: "string \<Rightarrow> bool" where
  "shebaOk value \<longleftrightarrow>
     (if \<not> sheba_shape value then False
      else (let rearranged = drop 4 value @ ''1827'' @ take 2 (drop 2 value)
            in mod97_loop rearranged 0 = 1))"

subsection \<open>The destination\<close>

record TransferDestination =
  td_card :: "string option"
  td_sheba :: "string option"
  td_holderName :: string
  td_bankName :: "string option"

datatype DestinationProblem =
  CardNotSixteenDigits | CardFailsLuhn | ShebaShape | ShebaFailsMod97 | NoDestination | NoHolderName

definition resolveCard :: "string \<Rightarrow> DestinationProblem list \<times> string option" where
  "resolveCard rawCard =
     (if rawCard = [] then ([], None)
      else (let normalized = digitsOnly rawCard
            in if \<not> (length normalized = 16 \<and> list_all is_digit normalized) then ([CardNotSixteenDigits], None)
               else if \<not> luhnOk normalized then ([CardFailsLuhn], None)
               else ([], Some normalized)))"

definition resolveSheba :: "string \<Rightarrow> DestinationProblem list \<times> string option" where
  "resolveSheba rawSheba =
     (if rawSheba = [] then ([], None)
      else (let normalized = (if take 2 rawSheba = ''IR'' then rawSheba else ''IR'' @ rawSheba)
            in if \<not> sheba_shape normalized then ([ShebaShape], None)
               else if \<not> shebaOk normalized then ([ShebaFailsMod97], None)
               else ([], Some normalized)))"

definition or_empty :: "string option \<Rightarrow> string" where
  "or_empty s = (case s of None \<Rightarrow> [] | Some t \<Rightarrow> t)"

definition resolveTransferDestination ::
  "string option \<Rightarrow> string option \<Rightarrow> string option \<Rightarrow> string option \<Rightarrow>
     DestinationProblem list + TransferDestination" where
  "resolveTransferDestination cardNo sheba holder bank =
     (let rawCard = js_trim (or_empty cardNo);
          rawSheba = filter (\<lambda>c. \<not> js_space c) (map upper_char (js_trim (or_empty sheba)));
          holderName = js_trim (or_empty holder);
          bankName = js_trim (or_empty bank);
          (p1, c) = resolveCard rawCard;
          (p2, s) = resolveSheba rawSheba;
          p3 = (if c = None \<and> s = None \<and> p1 @ p2 = [] then [NoDestination] else []);
          p4 = (if holderName = [] then [NoHolderName] else []);
          problems = p1 @ p2 @ p3 @ p4
      in if problems \<noteq> [] then Inl problems
         else Inr \<lparr> td_card = c, td_sheba = s, td_holderName = holderName,
                    td_bankName = (if bankName = [] then None else Some bankName) \<rparr>)"

subsection \<open>Luhn\<close>

lemma luhn_loop_acc: "luhn_loop cs dbl s = s + luhn_loop cs dbl 0"
proof (induction cs arbitrary: dbl s)
  case (Cons c cs)
  show ?case
    using Cons.IH [of "\<not> dbl" "s + luhn_digit dbl (digit c)"]
      Cons.IH [of "\<not> dbl" "luhn_digit dbl (digit c)"] by simp
qed simp

lemma luhn_loop_append:
  "luhn_loop (us @ vs) dbl 0 = luhn_loop us dbl 0 + luhn_loop vs (dbl \<noteq> odd (length us)) 0"
proof (induction us arbitrary: dbl)
  case (Cons u us)
  have "luhn_loop (us @ vs) (\<not> dbl) (luhn_digit dbl (digit u)) =
      luhn_digit dbl (digit u) + luhn_loop (us @ vs) (\<not> dbl) 0"
    by (rule luhn_loop_acc)
  moreover have "luhn_loop us (\<not> dbl) (luhn_digit dbl (digit u)) =
      luhn_digit dbl (digit u) + luhn_loop us (\<not> dbl) 0"
    by (rule luhn_loop_acc)
  moreover have "(\<not> dbl \<noteq> odd (length us)) = (dbl \<noteq> odd (length (u # us)))" by auto
  ultimately show ?case using Cons.IH [of "\<not> dbl"] by simp
qed simp

text \<open>The contribution of one position, and of two neighbouring ones, apart from the rest.\<close>

lemma luhn_split1:
  "luhn_loop (rev (xs @ a # ys)) False 0 =
     luhn_digit (odd (length ys)) (digit a) +
     (luhn_loop (rev ys) False 0 + luhn_loop (rev xs) (even (length ys)) 0)"
  using luhn_loop_acc [of "rev xs" "even (length ys)" "luhn_digit (odd (length ys)) (digit a)"]
  by (simp add: luhn_loop_append)

lemma luhn_split2:
  "luhn_loop (rev (xs @ a # b # ys)) False 0 =
     luhn_digit (even (length ys)) (digit a) + luhn_digit (odd (length ys)) (digit b) +
     (luhn_loop (rev ys) False 0 + luhn_loop (rev xs) (odd (length ys)) 0)"
  using luhn_split1 [of xs a "b # ys"]
    luhn_loop_acc [of "[]" False] luhn_loop_append [of "rev ys" "[b]" False] by simp

lemma digit_range: "is_digit c \<Longrightarrow> digit c \<in> {0..9}"
  by (auto simp: is_digit_def digit_def)

lemma digit_inj: "digit a = digit b \<longleftrightarrow> a = b"
  by (simp add: digit_def)

lemma digits_ten: "{0..9::int} = set [0, 1, 2, 3, 4, 5, 6, 7, 8, 9]"
  by (rule set_eqI) (simp, presburger)

lemma luhn_digit_inj_mod:
  "\<forall>a \<in> {0..9}. \<forall>b \<in> {0..9}. luhn_digit dbl a mod 10 = luhn_digit dbl b mod 10 \<longrightarrow> a = b"
  unfolding digits_ten by (cases dbl) (simp_all add: luhn_digit_def)

lemma luhn_pair_mod:
  "\<forall>a \<in> {0..9}. \<forall>b \<in> {0..9}.
     (luhn_digit dbl a + luhn_digit (\<not> dbl) b) mod 10 = (luhn_digit dbl b + luhn_digit (\<not> dbl) a) mod 10
     \<longleftrightarrow> a = b \<or> {a, b} = {0, 9}"
  unfolding digits_ten by (cases dbl) (simp_all add: luhn_digit_def doubleton_eq_iff)

lemma add_mod_cancel: "(x + r) mod 10 = (y + r) mod 10 \<longleftrightarrow> x mod 10 = (y :: int) mod 10"
  by (metis add_diff_cancel_right mod_eq_dvd_iff)

text \<open>
  The card number check: changing one digit of a valid number always makes it invalid; swapping
  two different neighbouring digits makes it invalid except when the two digits are 0 and 9, which the
  check never notices.
\<close>

theorem luhnOk_detects:
  assumes "is_digit a" "is_digit b"
  shows "(luhnOk (xs @ a # ys) \<and> luhnOk (xs @ b # ys) \<longrightarrow> a = b) \<and>
    (luhnOk (xs @ a # b # ys) \<longrightarrow>
       (luhnOk (xs @ b # a # ys) \<longleftrightarrow> a = b \<or> {a, b} = {CHR ''0'', CHR ''9''}))"
proof (intro conjI impI)
  have r: "digit a \<in> {0..9}" "digit b \<in> {0..9}" using assms digit_range by blast+
  assume "luhnOk (xs @ a # ys) \<and> luhnOk (xs @ b # ys)"
  then have "luhn_digit (odd (length ys)) (digit a) mod 10 = luhn_digit (odd (length ys)) (digit b) mod 10"
    unfolding luhnOk_def luhn_split1 by (metis add_mod_cancel)
  then show "a = b" using luhn_digit_inj_mod r digit_inj by blast
next
  have r: "digit a \<in> {0..9}" "digit b \<in> {0..9}" using assms digit_range by blast+
  assume ok: "luhnOk (xs @ a # b # ys)"
  let ?d = "even (length ys)"
  have "luhnOk (xs @ b # a # ys) \<longleftrightarrow>
      (luhn_digit ?d (digit a) + luhn_digit (\<not> ?d) (digit b)) mod 10 =
      (luhn_digit ?d (digit b) + luhn_digit (\<not> ?d) (digit a)) mod 10"
    using ok unfolding luhnOk_def luhn_split2 by (metis add_mod_cancel)
  also have "\<dots> \<longleftrightarrow> digit a = digit b \<or> {digit a, digit b} = {0, 9}"
    using luhn_pair_mod r by blast
  also have "\<dots> \<longleftrightarrow> a = b \<or> {digit a, digit b} = {digit (CHR ''0''), digit (CHR ''9'')}"
    by (simp add: digit_inj digit_def)
  also have "\<dots> \<longleftrightarrow> a = b \<or> {a, b} = {CHR ''0'', CHR ''9''}"
    by (simp add: doubleton_eq_iff digit_inj)
  finally show "luhnOk (xs @ b # a # ys) \<longleftrightarrow> a = b \<or> {a, b} = {CHR ''0'', CHR ''9''}" .
qed

theorem luhnOk_detects_witness:
  "luhnOk ''6037990000000006'' \<and> luhnOk ''6037909000000006'' \<and> \<not> luhnOk ''6037990000000007''"
proof -
  have ok: "luhnOk (''60379'' @ CHR ''9'' # CHR ''0'' # ''000000006'')" by code_simp
  have d: "is_digit (CHR ''9'')" "is_digit (CHR ''0'')" by code_simp+
  from luhnOk_detects [OF d, of "''60379''" "''000000006''", THEN conjunct2] ok
  have "luhnOk (''60379'' @ CHR ''0'' # CHR ''9'' # ''000000006'')" by blast
  moreover have "\<not> luhnOk ''6037990000000007''" by code_simp
  ultimately show ?thesis using ok by simp
qed

subsection \<open>The IBAN check\<close>

text \<open>The number a digit string spells, which is too large for a double; the loop is its remainder.\<close>

fun digits_number :: "string \<Rightarrow> int \<Rightarrow> int" where
  "digits_number [] acc = acc"
| "digits_number (c # cs) acc = digits_number cs (acc * 10 + digit c)"

lemma mod97_loop_eq: "mod97_loop s (n mod 97) = digits_number s n mod 97"
proof (induction s arbitrary: n)
  case (Cons c s)
  have "(n mod 97 * 10 + digit c) mod 97 = (n * 10 + digit c) mod 97"
    by (metis mod_add_left_eq mod_mult_left_eq)
  with Cons.IH [of "n * 10 + digit c"] show ?case by (simp only: mod97_loop.simps digits_number.simps)
qed simp

lemma digits_number_acc: "digits_number s n = n * 10 ^ length s + digits_number s 0"
proof (induction s arbitrary: n)
  case (Cons c s)
  have "digits_number (c # s) n = (n * 10 + digit c) * 10 ^ length s + digits_number s 0"
    by (simp only: digits_number.simps Cons.IH [of "n * 10 + digit c"])
  moreover have "digits_number (c # s) 0 = digit c * 10 ^ length s + digits_number s 0"
    using Cons.IH [of "digit c"] by simp
  ultimately show ?case by (simp add: algebra_simps)
qed simp

lemma digits_number_append: "digits_number (s @ t) n = digits_number t (digits_number s n)"
  by (induction s arbitrary: n) simp_all

lemma digits_number_split:
  "digits_number (s @ a # t) n = (digits_number s n * 10 + digit a) * 10 ^ length t + digits_number t 0"
  using digits_number_acc [of t "digits_number s n * 10 + digit a"]
  by (simp only: digits_number_append digits_number.simps)

definition iban_number :: "string \<Rightarrow> int" where
  "iban_number value = digits_number (drop 4 value @ ''1827'' @ take 2 (drop 2 value)) 0"

lemma shebaOk_iff: "shebaOk value \<longleftrightarrow> sheba_shape value \<and> iban_number value mod 97 = 1"
proof -
  have "mod97_loop (drop 4 value @ ''1827'' @ take 2 (drop 2 value)) 0 = iban_number value mod 97"
    unfolding iban_number_def using mod97_loop_eq [of _ 0] by (simp only: mod_0)
  then show ?thesis by (simp only: shebaOk_def Let_def if_bool_eq_conj) blast
qed

text \<open>A multiple by a power of ten does not hide a difference from the modulus.\<close>

lemma coprime_ten_power: "coprime ((10 :: int) ^ k) 97"
proof -
  have "coprime (10 :: int) 97" by (simp add: coprime_iff_gcd_eq_1) code_simp
  then show ?thesis by simp
qed

lemma dvd_ten_power: "(97 :: int) dvd x * 10 ^ k \<longleftrightarrow> 97 dvd x"
  using coprime_ten_power [of k] by (simp add: coprime_commute coprime_dvd_mult_left_iff)

lemma small_dvd: "(97 :: int) dvd x \<Longrightarrow> \<bar>x\<bar> < 97 \<Longrightarrow> x = 0"
  using dvd_imp_le_int [of x 97] by fastforce

text \<open>The number of \<open>IR\<close>, two check digits and the account digits.\<close>

lemma iban_number_eq:
  "length check = 2 \<Longrightarrow> iban_number (''IR'' @ check @ account) =
     digits_number account 0 * 1000000 + 182700 + digits_number check 0"
proof -
  assume len: "length check = 2"
  have "iban_number (''IR'' @ check @ account) = digits_number (account @ ''1827'' @ check) 0"
    using len by (simp add: iban_number_def)
  also have "\<dots> = digits_number check (digits_number ''1827'' (digits_number account 0))"
    by (simp only: digits_number_append)
  also have "\<dots> = digits_number ''1827'' (digits_number account 0) * 10 ^ 2 + digits_number check 0"
    using digits_number_acc [of check] len by metis
  also have "digits_number ''1827'' (digits_number account 0) = digits_number account 0 * 10000 + 1827"
    by (simp add: digit_def)
  finally show ?thesis by simp
qed

lemma shebaOk_parts:
  assumes "shebaOk (''IR'' @ check @ account)" "shebaOk (''IR'' @ check' @ account')"
    and "length check = 2" "length check' = 2"
  shows "97 dvd (digits_number account 0 - digits_number account' 0) * 1000000 +
    (digits_number check 0 - digits_number check' 0)"
proof -
  have "iban_number (''IR'' @ check @ account) mod 97 = iban_number (''IR'' @ check' @ account') mod 97"
    using assms(1,2) by (simp add: shebaOk_iff)
  then have "97 dvd iban_number (''IR'' @ check @ account) - iban_number (''IR'' @ check' @ account')"
    by (simp add: mod_eq_dvd_iff)
  then show ?thesis
    using assms(3,4) by (simp only: iban_number_eq) (simp add: algebra_simps)
qed

lemma digits_number_diff1:
  "digits_number (xs @ a # ys) 0 - digits_number (xs @ b # ys) 0 = (digit a - digit b) * 10 ^ length ys"
  by (simp add: digits_number_split algebra_simps)

lemma digits_number_diff2:
  "digits_number (xs @ a # b # ys) 0 - digits_number (xs @ b # a # ys) 0 =
     9 * (digit a - digit b) * 10 ^ length ys"
  using digits_number_split [of "xs @ [a]" b ys 0] digits_number_split [of "xs @ [b]" a ys 0]
  by (simp add: digits_number_append algebra_simps)

lemma digit_diff: "is_digit a \<Longrightarrow> is_digit b \<Longrightarrow> \<bar>digit a - digit b\<bar> \<le> 9"
  using digit_range [of a] digit_range [of b] by auto

lemma ten_dvd_eq:
  assumes "is_digit a" "is_digit b" "(97 :: int) dvd c * (digit a - digit b) * 10 ^ k" "c = 1 \<or> c = 9"
  shows "a = b"
proof -
  have "97 dvd c * (digit a - digit b)" using assms(3) by (simp only: dvd_ten_power)
  moreover have "\<bar>c * (digit a - digit b)\<bar> < 97" using digit_diff [OF assms(1,2)] assms(4) by auto
  ultimately have "c * (digit a - digit b) = 0" by (rule small_dvd)
  then show ?thesis using assms(4) by (auto simp: digit_inj)
qed


lemma sheba_shape_digits: "shebaOk (''IR'' @ ds) \<Longrightarrow> length ds = 24 \<and> (\<forall>c \<in> set ds. is_digit c)"
  by (simp add: shebaOk_iff sheba_shape_def list_all_iff)

lemma sheba_change:
  assumes "shebaOk (''IR'' @ xs @ a # ys)" "shebaOk (''IR'' @ xs @ b # ys)"
  shows "a = b"
proof -
  have dig: "is_digit a" "is_digit b" and len: "length xs + length ys = 23"
    using sheba_shape_digits [OF assms(1)] sheba_shape_digits [OF assms(2)] by simp_all
  consider "xs = []" | x where "xs = [x]" | x x' zs where "xs = x # x' # zs"
    by (metis list.exhaust)
  then show ?thesis
  proof cases
    case 1
    then obtain y zs where ys: "ys = y # zs" using len by (cases ys) auto
    have "97 dvd 1 * (digit a - digit b) * 10 ^ 1"
      using shebaOk_parts [of "[a, y]" zs "[b, y]" zs] assms 1 ys by (simp add: algebra_simps)
    then show ?thesis using ten_dvd_eq [OF dig] by blast
  next
    case (2 x)
    have "97 dvd 1 * (digit a - digit b) * 10 ^ 0"
      using shebaOk_parts [of "[x, a]" ys "[x, b]" ys] assms 2 by simp
    then show ?thesis using ten_dvd_eq [OF dig] by blast
  next
    case (3 x x' zs)
    have "97 dvd (digit a - digit b) * 10 ^ length ys * 10 ^ 6"
      using shebaOk_parts [of "[x, x']" "zs @ a # ys" "[x, x']" "zs @ b # ys"] assms 3
      by (simp add: digits_number_diff1)
    then have "97 dvd 1 * (digit a - digit b) * 10 ^ length ys" by (simp only: dvd_ten_power mult_1)
    then show ?thesis using ten_dvd_eq [OF dig] by blast
  qed
qed

lemma sheba_swap:
  assumes "shebaOk (''IR'' @ xs @ a # b # ys)" "shebaOk (''IR'' @ xs @ b # a # ys)"
  shows "a = b"
proof -
  have dig: "is_digit a" "is_digit b" and len: "length xs + length ys = 22"
    using sheba_shape_digits [OF assms(1)] sheba_shape_digits [OF assms(2)] by simp_all
  consider "xs = []" | x where "xs = [x]" | x x' zs where "xs = x # x' # zs"
    by (metis list.exhaust)
  then show ?thesis
  proof cases
    case 1
    have "97 dvd 9 * (digit a - digit b) * 10 ^ 0"
      using shebaOk_parts [of "[a, b]" ys "[b, a]" ys] assms 1 by (simp add: algebra_simps)
    then show ?thesis using ten_dvd_eq [OF dig] by blast
  next
    case (2 x)
    have ys: "length ys = 21" using len 2 by simp
    have "97 dvd (digits_number (b # ys) 0 - digits_number (a # ys) 0) * 1000000 + (digit a - digit b)"
      using shebaOk_parts [of "[x, a]" "b # ys" "[x, b]" "a # ys"] assms 2 by simp
    also have "(digits_number (b # ys) 0 - digits_number (a # ys) 0) * 1000000 + (digit a - digit b) =
        (digit a - digit b) * (1 - 10 ^ 27)"
      using digits_number_diff1 [of "[]" b ys a] ys by (simp add: algebra_simps)
    finally have "97 dvd (digit a - digit b) * (1 - 10 ^ 27)" .
    moreover have "coprime (1 - 10 ^ 27 :: int) 97"
      by (simp add: coprime_iff_gcd_eq_1) code_simp
    ultimately have "97 dvd digit a - digit b"
      by (metis coprime_commute coprime_dvd_mult_left_iff)
    then have "97 dvd 1 * (digit a - digit b) * 10 ^ 0" by simp
    then show ?thesis using ten_dvd_eq [OF dig] by blast
  next
    case (3 x x' zs)
    have "97 dvd 9 * (digit a - digit b) * 10 ^ length ys * 10 ^ 6"
      using shebaOk_parts [of "[x, x']" "zs @ a # b # ys" "[x, x']" "zs @ b # a # ys"] assms 3
      by (simp add: digits_number_diff2)
    then have "97 dvd 9 * (digit a - digit b) * 10 ^ length ys" by (simp only: dvd_ten_power)
    then show ?thesis using ten_dvd_eq [OF dig] by blast
  qed
qed

text \<open>
  The IBAN check: the digit-by-digit loop computes the remainder of the whole 28-digit number,
  exactly; and of two IBANs that both pass, neither differs from the other in a single digit nor by a
  swap of two neighbours, including the swap across the border that the rearrangement moves apart.
\<close>

theorem shebaOk_detects:
  "(shebaOk value \<longleftrightarrow> sheba_shape value \<and>
      digits_number (drop 4 value @ ''1827'' @ take 2 (drop 2 value)) 0 mod 97 = 1) \<and>
   (shebaOk (''IR'' @ xs @ a # ys) \<and> shebaOk (''IR'' @ xs @ b # ys) \<longrightarrow> a = b) \<and>
   (shebaOk (''IR'' @ xs @ a # b # ys) \<and> shebaOk (''IR'' @ xs @ b # a # ys) \<longrightarrow> a = b)"
proof (intro conjI impI)
  show "shebaOk value \<longleftrightarrow> sheba_shape value \<and>
      digits_number (drop 4 value @ ''1827'' @ take 2 (drop 2 value)) 0 mod 97 = 1"
    using shebaOk_iff unfolding iban_number_def .
next
  assume "shebaOk (''IR'' @ xs @ a # ys) \<and> shebaOk (''IR'' @ xs @ b # ys)"
  then show "a = b" using sheba_change by blast
next
  assume "shebaOk (''IR'' @ xs @ a # b # ys) \<and> shebaOk (''IR'' @ xs @ b # a # ys)"
  then show "a = b" using sheba_swap by blast
qed

theorem shebaOk_detects_witness:
  "shebaOk ''IR820540102680020817909002'' \<and> \<not> shebaOk ''IR820540102680020817990002''"
proof -
  have ok: "shebaOk (''IR'' @ ''8205401026800208179'' @ CHR ''0'' # CHR ''9'' # ''002'')" by code_simp
  have "\<not> shebaOk (''IR'' @ ''8205401026800208179'' @ CHR ''9'' # CHR ''0'' # ''002'')"
    using shebaOk_detects [THEN conjunct2, THEN conjunct2, rule_format, OF conjI, OF ok] by fastforce
  with ok show ?thesis by simp
qed

subsection \<open>The destination is valid, and every problem is reported\<close>

lemma resolveCard_facts:
  assumes "resolveCard raw = (ps, c)"
  shows "(c = None \<and> raw \<noteq> [] \<longleftrightarrow> ps \<noteq> []) \<and> (raw = [] \<longrightarrow> c = None)"
    and "ps \<noteq> [] \<longleftrightarrow> CardNotSixteenDigits \<in> set ps \<or> CardFailsLuhn \<in> set ps"
    and "{NoHolderName, NoDestination, ShebaShape, ShebaFailsMod97} \<inter> set ps = {}"
    and "\<forall>x. c = Some x \<longrightarrow> length x = 16 \<and> list_all is_digit x \<and> luhnOk x"
  using assms by (auto simp: resolveCard_def Let_def split: if_splits)

lemma resolveSheba_facts:
  assumes "resolveSheba raw = (ps, c)"
  shows "(c = None \<and> raw \<noteq> [] \<longleftrightarrow> ps \<noteq> []) \<and> (raw = [] \<longrightarrow> c = None)"
    and "ps \<noteq> [] \<longleftrightarrow> ShebaShape \<in> set ps \<or> ShebaFailsMod97 \<in> set ps"
    and "{NoHolderName, NoDestination, CardNotSixteenDigits, CardFailsLuhn} \<inter> set ps = {}"
    and "\<forall>x. c = Some x \<longrightarrow> shebaOk x"
  using assms unfolding resolveSheba_def Let_def by (auto split: if_splits simp del: append_Cons)

definition card_text :: "string option \<Rightarrow> string" where
  "card_text s = js_trim (or_empty s)"

definition sheba_text :: "string option \<Rightarrow> string" where
  "sheba_text s = filter (\<lambda>c. \<not> js_space c) (map upper_char (js_trim (or_empty s)))"

lemma resolve_eq:
  "resolveTransferDestination cn s h b =
     (let (p1, c) = resolveCard (card_text cn);
          (p2, sh) = resolveSheba (sheba_text s);
          problems = p1 @ p2 @ (if c = None \<and> sh = None \<and> p1 @ p2 = [] then [NoDestination] else []) @
            (if card_text h = [] then [NoHolderName] else [])
      in if problems \<noteq> [] then Inl problems
         else Inr \<lparr> td_card = c, td_sheba = sh, td_holderName = card_text h,
                    td_bankName = (if card_text b = [] then None else Some (card_text b)) \<rparr>)"
  by (simp only: resolveTransferDestination_def card_text_def sheba_text_def Let_def)

text \<open>
  A destination that passes the boot check can be paid to: it has a card or an IBAN, each one
  present passes its checksum in normalised form, and it has an account holder. A refusal reports
  every problem at once: the card's, the IBAN's and the missing holder's independently of each other.
\<close>

theorem resolveTransferDestination_complete:
  "case resolveTransferDestination cn s h b of
     Inr d \<Rightarrow>
       (td_card d \<noteq> None \<or> td_sheba d \<noteq> None) \<and> td_holderName d \<noteq> [] \<and>
       (\<forall>c. td_card d = Some c \<longrightarrow> length c = 16 \<and> list_all is_digit c \<and> luhnOk c) \<and>
       (\<forall>c. td_sheba d = Some c \<longrightarrow> shebaOk c)
   | Inl problems \<Rightarrow> problems \<noteq> [] \<and>
       (NoHolderName \<in> set problems \<longleftrightarrow> card_text h = []) \<and>
       (card_text cn \<noteq> [] \<and> snd (resolveCard (card_text cn)) = None \<longleftrightarrow>
          CardNotSixteenDigits \<in> set problems \<or> CardFailsLuhn \<in> set problems) \<and>
       (sheba_text s \<noteq> [] \<and> snd (resolveSheba (sheba_text s)) = None \<longleftrightarrow>
          ShebaShape \<in> set problems \<or> ShebaFailsMod97 \<in> set problems) \<and>
       (NoDestination \<in> set problems \<longleftrightarrow> card_text cn = [] \<and> sheba_text s = [])"
proof -
  obtain p1 c where 1: "resolveCard (card_text cn) = (p1, c)" by (cases "resolveCard (card_text cn)")
  obtain p2 sh where 2: "resolveSheba (sheba_text s) = (p2, sh)" by (cases "resolveSheba (sheba_text s)")
  show ?thesis
    using resolveCard_facts [OF 1] resolveSheba_facts [OF 2]
    unfolding resolve_eq 1 2 Let_def prod.case snd_conv
    by (cases "p1 = []"; cases "p2 = []"; cases "card_text h = []") (simp_all, blast+)
qed

theorem resolveTransferDestination_complete_witness:
  "case resolveTransferDestination None (Some ''IR00'') (Some '' '') None of
     Inl problems \<Rightarrow> NoHolderName \<in> set problems \<and> ShebaShape \<in> set problems | Inr _ \<Rightarrow> False"
proof -
  have h: "resolveTransferDestination None (Some ''IR00'') (Some '' '') None = Inl [ShebaShape, NoHolderName]"
    by code_simp
  show ?thesis
    using resolveTransferDestination_complete [of None "Some ''IR00''" "Some '' ''" None]
    by (simp add: h)
qed

end
