(* ===== verification/Otp.thy ===== *)
theory Otp
  imports HB_Prelude
begin

text \<open>
  One-time codes: \<open>packages/auth-core/src/otp.ts\<close> over the port \<open>OtpStore\<close>, and the two stores behind
  it, the in-memory map of \<open>otp.ts\<close> and the table \<open>otp_challenges\<close> of
  \<open>apps/api/src/adapters/otp-store.ts\<close>. The port is the record \<open>OtpStore\<close> of operations on a state, its
  contract the locale \<open>otp_store\<close>; both stores are shown to satisfy it, the table by refining the map.
  SHA-256, the random code and the SMS service are arguments; times are in seconds. The routes run both
  protocols on the pool, without a transaction: the last sections take them apart into the statements
  they send and let those of several callers interleave.
\<close>

subsection \<open>The port\<close>

record OtpRecord =
  codeHash :: string
  attempts :: nat
  expiresAt :: epoch_s
  createdAt :: epoch_s

record 's OtpStore =
  otp_get :: "'s \<Rightarrow> string \<Rightarrow> OtpRecord option"
  otp_set :: "string \<Rightarrow> OtpRecord \<Rightarrow> ('s \<Rightarrow> 's) list"
  otp_delete :: "'s \<Rightarrow> string \<Rightarrow> 's"
  otp_increment :: "'s \<Rightarrow> string \<Rightarrow> 's"

text \<open>\<open>set\<close> is the list of statements it sends, one after the other; undisturbed, it runs them all.\<close>

definition store_set :: "'s OtpStore \<Rightarrow> 's \<Rightarrow> string \<Rightarrow> OtpRecord \<Rightarrow> 's" where
  "store_set S st phone r = fold (\<lambda>statement. statement) (otp_set S phone r) st"

record OtpConfig =
  ttlSeconds :: int
  maxAttempts :: nat
  cooldownSeconds :: int
  fixedCode :: "string option"

definition assertSmsProviderAllowed :: "bool \<Rightarrow> string \<Rightarrow> bool" where
  "assertSmsProviderAllowed developmentOnly appEnv \<longleftrightarrow> \<not> (developmentOnly \<and> appEnv = ''production'')"

definition genCode :: "nat \<Rightarrow> string" where
  "genCode random = pad_start 6 (CHR ''0'') (show_nat random)"

definition maskPhone :: "string \<Rightarrow> string" where
  "maskPhone phone =
     (if length phone \<le> 6 then ''***''
      else take 4 phone @ ''***'' @ drop (length phone - 2) phone)"

subsection \<open>Requesting a code\<close>

text \<open>
  \<open>sms\<close> tells whether a send succeeds; \<open>sha\<close> is the digest in hexadecimal. The reply lists what was
  handed to the SMS service: the only place a raw code goes.
\<close>

datatype RequestReply = Done | SendFailed

definition requestOtp ::
  "'s OtpStore \<Rightarrow> (string \<Rightarrow> string) \<Rightarrow> (string \<Rightarrow> string \<Rightarrow> bool) \<Rightarrow> nat \<Rightarrow> 's \<Rightarrow> epoch_s \<Rightarrow> string \<Rightarrow>
     OtpConfig \<Rightarrow> RequestReply \<times> (string \<times> string) list \<times> 's" where
  "requestOtp store sha sms random st now phone config =
     (case otp_get store st phone of
        Some existing \<Rightarrow>
          if now - createdAt existing < cooldownSeconds config then (Done, [], st)
          else (let code = (case fixedCode config of None \<Rightarrow> genCode random | Some c \<Rightarrow> c);
                    st' = store_set store st phone \<lparr> codeHash = sha code, attempts = 0,
                            expiresAt = now + ttlSeconds config, createdAt = now \<rparr>
                in if sms phone code then (Done, [(phone, code)], st')
                   else (SendFailed, [(phone, code)], otp_delete store st' phone))
      | None \<Rightarrow>
         (let code = (case fixedCode config of None \<Rightarrow> genCode random | Some c \<Rightarrow> c);
              st' = store_set store st phone \<lparr> codeHash = sha code, attempts = 0,
                      expiresAt = now + ttlSeconds config, createdAt = now \<rparr>
          in if sms phone code then (Done, [(phone, code)], st')
             else (SendFailed, [(phone, code)], otp_delete store st' phone)))"

subsection \<open>Verifying a code\<close>

datatype OtpResult = Ok | NoChallenge | Expired | Locked | Mismatch

text \<open>\<open>Buffer.from(s, "hex")\<close>: pairs of hexadecimal digits up to the first that is not one.\<close>

definition hex_value :: "char \<Rightarrow> nat option" where
  "hex_value c =
     (let n = (of_char c :: nat)
      in if 48 \<le> n \<and> n \<le> 57 then Some (n - 48)
         else if 97 \<le> n \<and> n \<le> 102 then Some (n - 87)
         else if 65 \<le> n \<and> n \<le> 70 then Some (n - 55) else None)"

fun hex_bytes :: "string \<Rightarrow> nat list" where
  "hex_bytes (a # b # rest) =
     (case (hex_value a, hex_value b) of
        (Some x, Some y) \<Rightarrow> (16 * x + y) # hex_bytes rest
      | _ \<Rightarrow> [])"
| "hex_bytes _ = []"

definition timingSafeEqualHex :: "string \<Rightarrow> string \<Rightarrow> bool" where
  "timingSafeEqualHex a b \<longleftrightarrow>
     (let ba = hex_bytes a; bb = hex_bytes b
      in if length ba \<noteq> length bb then False else ba = bb)"

text \<open>
  A verification reads the challenge and decides; the decision then takes at most one statement. A code
  is compared with the challenge exactly when the decision is \<open>Ok\<close> or \<open>Mismatch\<close>.
\<close>

definition verify_read ::
  "'s OtpStore \<Rightarrow> (string \<Rightarrow> string) \<Rightarrow> 's \<Rightarrow> string \<Rightarrow> string \<Rightarrow> epoch_s \<Rightarrow> OtpConfig \<Rightarrow> OtpResult" where
  "verify_read store sha st phone code now config =
     (case otp_get store st phone of
        None \<Rightarrow> NoChallenge
      | Some r \<Rightarrow>
          if expiresAt r \<le> now then Expired
          else if attempts r \<ge> maxAttempts config then Locked
          else if \<not> timingSafeEqualHex (codeHash r) (sha code) then Mismatch
          else Ok)"

definition verify_write :: "'s OtpStore \<Rightarrow> string \<Rightarrow> OtpResult \<Rightarrow> 's \<Rightarrow> 's" where
  "verify_write store phone result st =
     (case result of
        NoChallenge \<Rightarrow> st
      | Expired \<Rightarrow> otp_delete store st phone
      | Locked \<Rightarrow> st
      | Mismatch \<Rightarrow> otp_increment store st phone
      | Ok \<Rightarrow> otp_delete store st phone)"

definition verifyOtp ::
  "'s OtpStore \<Rightarrow> (string \<Rightarrow> string) \<Rightarrow> 's \<Rightarrow> string \<Rightarrow> string \<Rightarrow> epoch_s \<Rightarrow> OtpConfig \<Rightarrow>
     OtpResult \<times> 's" where
  "verifyOtp store sha st phone code now config =
     (let result = verify_read store sha st phone code now config
      in (result, verify_write store phone result st))"

abbreviation compared :: "OtpResult \<Rightarrow> bool" where
  "compared result \<equiv> result = Ok \<or> result = Mismatch"

text \<open>
  The statements of any number of callers, in any order. A verification in progress holds a slot between
  its read and its write; a request is any of its statements.
\<close>

datatype OtpEvent =
    Reads nat string string epoch_s
  | Writes nat
  | Sets string OtpRecord nat
  | TakesBack string

record 's OtpSystem =
  os_store :: 's
  os_slots :: "nat \<Rightarrow> (string \<times> OtpResult) option"

definition otp_event ::
  "'s OtpStore \<Rightarrow> (string \<Rightarrow> string) \<Rightarrow> OtpConfig \<Rightarrow> OtpEvent \<Rightarrow> 's OtpSystem \<Rightarrow>
     (string \<times> OtpResult) list \<times> 's OtpSystem" where
  "otp_event store sha config e s =
     (case e of
        Reads j phone code now \<Rightarrow>
          (case os_slots s j of
             Some _ \<Rightarrow> ([], s)
           | None \<Rightarrow>
               (let result = verify_read store sha (os_store s) phone code now config
                in ([(phone, result)], s\<lparr>os_slots := (os_slots s)(j \<mapsto> (phone, result))\<rparr>)))
      | Writes j \<Rightarrow>
          (case os_slots s j of
             None \<Rightarrow> ([], s)
           | Some (phone, result) \<Rightarrow>
               ([], s\<lparr>os_store := verify_write store phone result (os_store s),
                     os_slots := (os_slots s)(j := None)\<rparr>))
      | Sets phone r i \<Rightarrow>
          ([], if i < length (otp_set store phone r)
               then s\<lparr>os_store := (otp_set store phone r ! i) (os_store s)\<rparr> else s)
      | TakesBack phone \<Rightarrow> ([], s\<lparr>os_store := otp_delete store (os_store s) phone\<rparr>))"

fun otp_run ::
  "'s OtpStore \<Rightarrow> (string \<Rightarrow> string) \<Rightarrow> OtpConfig \<Rightarrow> OtpEvent list \<Rightarrow> 's OtpSystem \<Rightarrow>
     (string \<times> OtpResult) list \<times> 's OtpSystem" where
  "otp_run store sha config [] s = ([], s)"
| "otp_run store sha config (e # es) s =
     (let (r, s') = otp_event store sha config e s; (rs, s'') = otp_run store sha config es s'
      in (r @ rs, s''))"

text \<open>The decisions taken about one number.\<close>

definition decisions :: "string \<Rightarrow> (string \<times> OtpResult) list \<Rightarrow> OtpResult list" where
  "decisions phone rs = map snd (filter (\<lambda>r. fst r = phone) rs)"

lemma decisions_simps [simp]:
  "decisions phone [] = []"
  "decisions phone (r # rs) = (if fst r = phone then snd r # decisions phone rs else decisions phone rs)"
  "decisions phone (rs @ qs) = decisions phone rs @ decisions phone qs"
  by (simp_all add: decisions_def)

text \<open>
  No request of the number, and at most \<open>n\<close> verifications (of any number) in progress at a time.
\<close>

definition no_request :: "nat \<Rightarrow> string \<Rightarrow> OtpEvent \<Rightarrow> bool" where
  "no_request n phone e \<longleftrightarrow>
     (case e of Reads j p c now \<Rightarrow> j < n | Writes j \<Rightarrow> True | Sets p r i \<Rightarrow> p \<noteq> phone | TakesBack p \<Rightarrow> p \<noteq> phone)"

lemma verify_alone:
  "os_slots s j = None \<Longrightarrow> otp_run store sha config [Reads j phone code now, Writes j] s =
     (case verifyOtp store sha (os_store s) phone code now config of
        (result, st) \<Rightarrow> ([(phone, result)], s\<lparr>os_store := st\<rparr>))"
  by (simp add: otp_event_def verifyOtp_def Let_def fun_upd_idem)

lemma otp_run_append:
  "otp_run store sha config (es @ fs) s =
     (let (r, s') = otp_run store sha config es s; (q, s'') = otp_run store sha config fs s' in (r @ q, s''))"
  by (induction es arbitrary: s) (simp_all add: split_beta)

subsection \<open>The in-memory store\<close>

definition memory_otp :: "(string \<rightharpoonup> OtpRecord) OtpStore" where
  "memory_otp =
     \<lparr> otp_get = (\<lambda>m p. m p),
       otp_set = (\<lambda>p r. [\<lambda>m. m(p \<mapsto> r)]),
       otp_delete = (\<lambda>m p. m(p := None)),
       otp_increment = (\<lambda>m p. m(p := map_option (attempts_update Suc) (m p))) \<rparr>"

subsection \<open>The table\<close>

text \<open>
  \<open>consumed_at\<close> is kept as whether it is set; a row's \<open>id\<close> is drawn fresh (\<open>gen_random_uuid\<close>), here the
  number of rows so far, as no row is ever deleted.
\<close>

datatype OtpPurpose = Login | AdminStepUp

record OtpRow =
  oc_id :: nat
  oc_purpose :: OtpPurpose
  oc_destination :: string
  oc_code_hash :: string
  oc_attempts :: nat
  oc_expires_at :: epoch_s
  oc_created_at :: epoch_s
  oc_consumed :: bool

definition active :: "OtpPurpose \<Rightarrow> string \<Rightarrow> OtpRow \<Rightarrow> bool" where
  "active purpose phone r \<longleftrightarrow> oc_destination r = phone \<and> oc_purpose r = purpose \<and> \<not> oc_consumed r"

text \<open>\<open>ORDER BY created_at DESC LIMIT 1\<close>\<close>

fun latest :: "OtpRow list \<Rightarrow> OtpRow option" where
  "latest [] = None"
| "latest (r # rs) =
     (case latest rs of
        None \<Rightarrow> Some r
      | Some q \<Rightarrow> if oc_created_at q > oc_created_at r then Some q else Some r)"

definition record_of :: "OtpRow \<Rightarrow> OtpRecord" where
  "record_of r = \<lparr> codeHash = oc_code_hash r, attempts = oc_attempts r,
                  expiresAt = oc_expires_at r, createdAt = oc_created_at r \<rparr>"

definition pg_get :: "OtpPurpose \<Rightarrow> OtpRow list \<Rightarrow> string \<Rightarrow> OtpRecord option" where
  "pg_get purpose t phone = map_option record_of (latest (filter (active purpose phone) t))"

definition pg_delete :: "OtpPurpose \<Rightarrow> OtpRow list \<Rightarrow> string \<Rightarrow> OtpRow list" where
  "pg_delete purpose t phone = sql_update (active purpose phone) (\<lambda>r. r\<lparr>oc_consumed := True\<rparr>) t"

definition pg_insert :: "OtpPurpose \<Rightarrow> OtpRow list \<Rightarrow> string \<Rightarrow> OtpRecord \<Rightarrow> OtpRow list" where
  "pg_insert purpose t phone record =
     t @ [\<lparr> oc_id = length t, oc_purpose = purpose, oc_destination = phone,
            oc_code_hash = codeHash record, oc_attempts = attempts record,
            oc_expires_at = expiresAt record, oc_created_at = createdAt record, oc_consumed = False \<rparr>]"

text \<open>\<open>set\<close> sends the statement \<open>delete\<close> sends, then the insert: two statements, each committed on its own.\<close>

definition pg_set :: "OtpPurpose \<Rightarrow> string \<Rightarrow> OtpRecord \<Rightarrow> (OtpRow list \<Rightarrow> OtpRow list) list" where
  "pg_set purpose phone record =
     [\<lambda>t. sql_update (active purpose phone) (\<lambda>r. r\<lparr>oc_consumed := True\<rparr>) t,
      \<lambda>t. pg_insert purpose t phone record]"

definition pg_increment :: "OtpPurpose \<Rightarrow> OtpRow list \<Rightarrow> string \<Rightarrow> OtpRow list" where
  "pg_increment purpose t phone =
     sql_update (\<lambda>r. Some (oc_id r) = map_option oc_id (latest (filter (active purpose phone) t)))
       (\<lambda>r. r\<lparr>oc_attempts := Suc (oc_attempts r)\<rparr>) t"

definition pg_otp :: "OtpPurpose \<Rightarrow> (OtpRow list) OtpStore" where
  "pg_otp purpose =
     \<lparr> otp_get = pg_get purpose, otp_set = pg_set purpose,
       otp_delete = pg_delete purpose, otp_increment = pg_increment purpose \<rparr>"

subsection \<open>The contract of the port\<close>

text \<open>The last but two laws are about a statement of \<open>set\<close> on its own: it leaves the other numbers alone.\<close>

locale otp_store =
  fixes S :: "'s OtpStore" and inv :: "'s \<Rightarrow> bool"
  assumes get_set: "inv s \<Longrightarrow> otp_get S (store_set S s p r) q = (if q = p then Some r else otp_get S s q)"
    and get_delete: "inv s \<Longrightarrow> otp_get S (otp_delete S s p) q = (if q = p then None else otp_get S s q)"
    and get_increment: "inv s \<Longrightarrow> otp_get S (otp_increment S s p) q =
      (if q = p then map_option (attempts_update Suc) (otp_get S s p) else otp_get S s q)"
    and statement_other: "inv s \<Longrightarrow> f \<in> set (otp_set S p r) \<Longrightarrow> q \<noteq> p \<Longrightarrow> otp_get S (f s) q = otp_get S s q"
    and inv_statement: "inv s \<Longrightarrow> f \<in> set (otp_set S p r) \<Longrightarrow> inv (f s)"
    and inv_delete: "inv s \<Longrightarrow> inv (otp_delete S s p)"
    and inv_increment: "inv s \<Longrightarrow> inv (otp_increment S s p)"
begin

lemma inv_set: "inv s \<Longrightarrow> inv (store_set S s p r)"
proof -
  have "inv s \<Longrightarrow> set fs \<subseteq> set (otp_set S p r) \<Longrightarrow> inv (fold (\<lambda>f. f) fs s)" for fs
    by (induction fs arbitrary: s) (auto intro: inv_statement)
  then show "inv s \<Longrightarrow> inv (store_set S s p r)" by (simp add: store_set_def)
qed

lemmas laws = get_set get_delete get_increment inv_set inv_delete inv_increment

lemma requestOtp_cases:
  assumes "inv st" "requestOtp S sha sms random st now phone config = (reply, sent, st')"
  shows "inv st' \<and> (\<forall>q. q \<noteq> phone \<longrightarrow> otp_get S st' q = otp_get S st q) \<and>
    (case sent of
       [] \<Rightarrow> reply = Done \<and> st' = st \<and>
         (\<exists>old. otp_get S st phone = Some old \<and> now - createdAt old < cooldownSeconds config)
     | [(p, code)] \<Rightarrow> p = phone \<and>
         (reply = Done \<longrightarrow> otp_get S st' phone = Some \<lparr> codeHash = sha code, attempts = 0,
            expiresAt = now + ttlSeconds config, createdAt = now \<rparr>) \<and>
         (reply = SendFailed \<longrightarrow> otp_get S st' phone = None)
     | _ \<Rightarrow> False)"
  using assms
  by (auto simp: requestOtp_def Let_def laws split: option.splits if_splits)

text \<open>The verifications of a number that are between their read and their write.\<close>

definition open_with :: "(OtpResult \<Rightarrow> bool) \<Rightarrow> nat \<Rightarrow> 's OtpSystem \<Rightarrow> string \<Rightarrow> nat" where
  "open_with P n s phone = card {j \<in> {..<n}. \<exists>r. os_slots s j = Some (phone, r) \<and> P r}"

text \<open>
  While the challenge is there, every comparison is either counted in its attempts or still to be
  written, and every acceptance is still to be written; once it is gone, it stays gone. \<open>c\<close> and \<open>a\<close> are
  the comparisons and the acceptances so far.
\<close>

definition guessed :: "OtpConfig \<Rightarrow> nat \<Rightarrow> string \<Rightarrow> nat \<Rightarrow> nat \<Rightarrow> 's OtpSystem \<Rightarrow> bool" where
  "guessed config n phone c a s \<longleftrightarrow> inv (os_store s) \<and> (\<forall>j. n \<le> j \<longrightarrow> os_slots s j = None) \<and>
     c \<le> maxAttempts config + n - 1 \<and> a \<le> n \<and>
     (case otp_get S (os_store s) phone of
        None \<Rightarrow> True
      | Some r \<Rightarrow> c \<le> attempts r + open_with compared n s phone \<and> a \<le> open_with (\<lambda>r. r = Ok) n s phone)"

lemma open_le: "open_with P n s phone \<le> n"
proof -
  have "open_with P n s phone \<le> card {..<n}" unfolding open_with_def by (rule card_mono) auto
  then show ?thesis by simp
qed

lemma open_free:
  assumes "j < n" "os_slots s j = None"
  shows "open_with P n s phone < n"
proof -
  have "{j \<in> {..<n}. \<exists>r. os_slots s j = Some (phone, r) \<and> P r} \<subseteq> {..<n} - {j}" using assms by auto
  then have "open_with P n s phone \<le> card ({..<n} - {j})" unfolding open_with_def by (rule card_mono [rotated]) simp
  also have "\<dots> < n" using assms(1) by simp
  finally show ?thesis .
qed

lemma open_read:
  assumes "j < n" "os_slots s j = None" "os_slots s' = (os_slots s)(j \<mapsto> (phone', r))"
  shows "open_with P n s' phone = open_with P n s phone + (if phone' = phone \<and> P r then 1 else 0)"
proof -
  let ?A = "{j \<in> {..<n}. \<exists>r. os_slots s j = Some (phone, r) \<and> P r}"
  have "{j \<in> {..<n}. \<exists>r. os_slots s' j = Some (phone, r) \<and> P r} =
      (if phone' = phone \<and> P r then insert j ?A else ?A)"
    using assms by (auto split: if_splits)
  then show ?thesis using assms(2) by (simp add: open_with_def)
qed

lemma open_write:
  assumes "j < n" "os_slots s j = Some (phone', r)" "os_slots s' = (os_slots s)(j := None)"
  shows "open_with P n s phone = open_with P n s' phone + (if phone' = phone \<and> P r then 1 else 0)"
  by (rule open_read [of j n s']) (use assms in \<open>auto simp: fun_upd_idem\<close>)

lemma open_same:
  "os_slots s' = os_slots s \<Longrightarrow> open_with P n s' phone = open_with P n s phone"
  by (simp add: open_with_def)

lemma guessed_same:
  assumes "guessed config n phone c a s" "inv (os_store s')" "os_slots s' = os_slots s"
    and "otp_get S (os_store s') phone = otp_get S (os_store s) phone"
  shows "guessed config n phone c a s'"
  using assms(1,2) open_same [OF assms(3)] unfolding guessed_def assms(3,4)
  by (simp split: option.splits)

lemma store_other:
  assumes "inv st" "p \<noteq> phone"
  shows "otp_get S (verify_write S p r st) phone = otp_get S st phone"
  using assms by (simp add: verify_write_def laws split: OtpResult.split)

lemma inv_write: "inv st \<Longrightarrow> inv (verify_write S p r st)"
  by (simp add: verify_write_def laws split: OtpResult.split)

lemma guessed_read:
  assumes "guessed config n phone c a s" "j < n" "os_slots s j = None"
    and r: "r = verify_read S sha (os_store s) p code now config"
  shows "guessed config n phone (c + (if p = phone \<and> compared r then 1 else 0))
    (a + (if p = phone \<and> r = Ok then 1 else 0)) (s\<lparr>os_slots := (os_slots s)(j \<mapsto> (p, r))\<rparr>)"
proof -
  let ?s = "s\<lparr>os_slots := (os_slots s)(j \<mapsto> (p, r))\<rparr>"
  have now_open: "open_with P n ?s phone = open_with P n s phone + (if p = phone \<and> P r then 1 else 0)" for P
    by (rule open_read [OF assms(2,3)]) simp
  have free: "open_with compared n s phone < n" by (rule open_free [OF assms(2,3)])
  have full: "open_with (\<lambda>r. r = Ok) n ?s phone \<le> n" by (rule open_le)
  have slots: "\<forall>i. n \<le> i \<longrightarrow> os_slots ?s i = None"
    using assms(1,2) by (auto simp: guessed_def)
  show ?thesis
  proof (cases "otp_get S (os_store s) phone")
    case None
    then have "p = phone \<Longrightarrow> r = NoChallenge" by (simp add: r verify_read_def)
    with None assms(1) slots show ?thesis by (auto simp: guessed_def)
  next
    case (Some q)
    have "p = phone \<Longrightarrow> compared r \<Longrightarrow> attempts q < maxAttempts config"
      using Some by (auto simp: r verify_read_def split: if_splits)
    with Some assms(1) slots now_open [of compared] now_open [of "\<lambda>r. r = Ok"] free full show ?thesis
      by (auto simp: guessed_def)
  qed
qed

lemma guessed_write:
  assumes "guessed config n phone c a s" "os_slots s j = Some (p, r)"
  shows "guessed config n phone c a
    (s\<lparr>os_store := verify_write S p r (os_store s), os_slots := (os_slots s)(j := None)\<rparr>)"
proof -
  let ?s = "s\<lparr>os_store := verify_write S p r (os_store s), os_slots := (os_slots s)(j := None)\<rparr>"
  have inv: "inv (os_store s)" and "\<forall>i. n \<le> i \<longrightarrow> os_slots s i = None"
    using assms(1) by (simp_all add: guessed_def)
  with assms(2) have j: "j < n" by (cases "j < n") auto
  have was_open: "open_with P n s phone = open_with P n ?s phone + (if p = phone \<and> P r then 1 else 0)" for P
    by (rule open_write [OF j assms(2)]) simp
  have "otp_get S (os_store ?s) phone =
      (if p = phone then (case r of Mismatch \<Rightarrow> map_option (attempts_update Suc) (otp_get S (os_store s) phone)
         | Ok \<Rightarrow> None | Expired \<Rightarrow> None | _ \<Rightarrow> otp_get S (os_store s) phone)
       else otp_get S (os_store s) phone)"
    using inv by (auto simp: verify_write_def laws split: OtpResult.split)
  with assms(1) was_open [of compared] was_open [of "\<lambda>r. r = Ok"] inv_write [OF inv] show ?thesis
    by (auto simp: guessed_def split: option.splits OtpResult.splits if_splits)
qed

lemma guessed_event:
  assumes "guessed config n phone c a s" "no_request n phone e" "otp_event S sha config e s = (rs, s')"
  shows "guessed config n phone (c + length (filter compared (decisions phone rs)))
    (a + length (filter (\<lambda>r. r = Ok) (decisions phone rs))) s'"
proof (cases e)
  case (Reads j p code now)
  show ?thesis
  proof (cases "os_slots s j")
    case None
    define r where "r = verify_read S sha (os_store s) p code now config"
    have rs: "rs = [(p, r)]" "s' = s\<lparr>os_slots := (os_slots s)(j \<mapsto> (p, r))\<rparr>"
      using Reads None assms(3) by (simp_all add: otp_event_def r_def Let_def)
    have "j < n" using Reads assms(2) by (simp add: no_request_def)
    moreover have "length (filter compared (decisions phone rs)) = (if p = phone \<and> compared r then 1 else 0)"
      "length (filter (\<lambda>r. r = Ok) (decisions phone rs)) = (if p = phone \<and> r = Ok then 1 else 0)"
      by (simp_all add: rs decisions_def)
    ultimately show ?thesis using guessed_read [OF assms(1) _ None r_def] by (simp only: rs(2))
  next
    case (Some x)
    with Reads assms show ?thesis by (auto simp: otp_event_def decisions_def)
  qed
next
  case (Writes j)
  with assms guessed_write [OF assms(1)] show ?thesis
    by (auto simp: otp_event_def decisions_def split: option.splits)
next
  case (Sets p r i)
  have inv: "inv (os_store s)" using assms(1) by (simp add: guessed_def)
  show ?thesis
  proof (cases "i < length (otp_set S p r)")
    case True
    then have f: "otp_set S p r ! i \<in> set (otp_set S p r)" by simp
    have "p \<noteq> phone" using assms(2) Sets by (simp add: no_request_def)
    with statement_other [OF inv f] inv_statement [OF inv f] True Sets assms(3) guessed_same [OF assms(1)]
    show ?thesis by (auto simp: otp_event_def)
  next
    case False
    with Sets assms show ?thesis by (auto simp: otp_event_def decisions_def)
  qed
next
  case (TakesBack p)
  have inv: "inv (os_store s)" using assms(1) by (simp add: guessed_def)
  have "p \<noteq> phone" using assms(2) TakesBack by (simp add: no_request_def)
  with TakesBack assms(3) laws [OF inv] guessed_same [OF assms(1)]
  show ?thesis by (auto simp: otp_event_def)
qed

lemma guessed_run:
  assumes "guessed config n phone c a s" "\<forall>e \<in> set es. no_request n phone e"
    and "otp_run S sha config es s = (rs, s')"
  shows "guessed config n phone (c + length (filter compared (decisions phone rs)))
    (a + length (filter (\<lambda>r. r = Ok) (decisions phone rs))) s'"
  using assms
proof (induction es arbitrary: c a s rs)
  case (Cons e es)
  obtain r s1 where e: "otp_event S sha config e s = (r, s1)" by fastforce
  obtain q where es: "otp_run S sha config es s1 = (q, s')" "rs = r @ q"
    using Cons.prems(3) e by (auto split: prod.splits)
  have "guessed config n phone (c + length (filter compared (decisions phone r)))
      (a + length (filter (\<lambda>r. r = Ok) (decisions phone r))) s1"
    using guessed_event [OF Cons.prems(1) _ e] Cons.prems(2) by simp
  from Cons.IH [OF this _ es(1)] Cons.prems(2) es(2) show ?case by (simp add: add.assoc)
qed (simp add: decisions_def)

lemma gone_event:
  assumes "inv (os_store s)" "otp_get S (os_store s) phone = None" "no_request n phone e"
    and "otp_event S sha config e s = (rs, s')"
  shows "inv (os_store s') \<and> otp_get S (os_store s') phone = None \<and> set (decisions phone rs) \<subseteq> {NoChallenge}"
proof (cases e)
  case (Reads j p code now)
  with assms show ?thesis
    by (auto simp: otp_event_def Let_def decisions_def verify_read_def split: option.splits)
next
  case (Writes j)
  show ?thesis
  proof (cases "os_slots s j")
    case (Some x)
    obtain p r where x: "x = (p, r)" by (cases x)
    have "otp_get S (verify_write S p r (os_store s)) phone = None"
      using assms(1,2) by (auto simp: verify_write_def laws split: OtpResult.split)
    with Some x Writes assms(4) inv_write [OF assms(1)] show ?thesis
      by (auto simp: otp_event_def decisions_def)
  qed (use Writes assms in \<open>auto simp: otp_event_def decisions_def\<close>)
next
  case (Sets p r i)
  have "p \<noteq> phone" using assms(3) Sets by (simp add: no_request_def)
  with Sets assms(1,2,4) statement_other [OF assms(1), of "otp_set S p r ! i" p r phone]
    inv_statement [OF assms(1), of "otp_set S p r ! i" p r] show ?thesis
    by (auto simp: otp_event_def decisions_def split: if_splits)
next
  case (TakesBack p)
  with assms laws [OF assms(1)] show ?thesis by (auto simp: otp_event_def decisions_def)
qed

lemma gone_run:
  assumes "inv (os_store s)" "otp_get S (os_store s) phone = None" "\<forall>e \<in> set es. no_request n phone e"
    and "otp_run S sha config es s = (rs, s')"
  shows "set (decisions phone rs) \<subseteq> {NoChallenge}"
  using assms
proof (induction es arbitrary: s rs)
  case (Cons e es)
  obtain r s1 where e: "otp_event S sha config e s = (r, s1)" by fastforce
  obtain q s2 where es: "otp_run S sha config es s1 = (q, s2)" by fastforce
  have "no_request n phone e" using Cons.prems(3) by simp
  note one = gone_event [OF Cons.prems(1,2) this e]
  with Cons.IH [of s1 q] Cons.prems(3,4) e es show ?case by auto
qed (simp add: decisions_def)

text \<open>All the codes that are read before anything is written are compared.\<close>

lemma reads_compare:
  assumes "otp_get S (os_store s) phone = Some r" "now < expiresAt r" "attempts r < maxAttempts config"
    and "\<forall>j. i \<le> j \<longrightarrow> os_slots s j = None"
  shows "decisions phone (fst (otp_run S sha config (map (\<lambda>(j, code). Reads j phone code now) (enumerate i codes)) s)) =
    map (\<lambda>code. if timingSafeEqualHex (codeHash r) (sha code) then Ok else Mismatch) codes"
  using assms
proof (induction codes arbitrary: i s)
  case (Cons code codes)
  define result where "result = verify_read S sha (os_store s) phone code now config"
  let ?s = "s\<lparr>os_slots := (os_slots s)(i \<mapsto> (phone, result))\<rparr>"
  have one: "otp_event S sha config (Reads i phone code now) s = ([(phone, result)], ?s)"
    using Cons.prems(4) by (simp add: otp_event_def result_def Let_def)
  let ?f = "\<lambda>(j, code). Reads j phone code now"
  have "decisions phone (fst (otp_run S sha config (map ?f (enumerate (Suc i) codes)) ?s)) =
      map (\<lambda>code. if timingSafeEqualHex (codeHash r) (sha code) then Ok else Mismatch) codes"
    by (rule Cons.IH) (use Cons.prems in auto)
  moreover have "result = (if timingSafeEqualHex (codeHash r) (sha code) then Ok else Mismatch)"
    using Cons.prems(1-3) by (simp add: result_def verify_read_def)
  moreover have "fst (otp_run S sha config (map ?f (enumerate i (code # codes))) s) =
      (phone, result) # fst (otp_run S sha config (map ?f (enumerate (Suc i) codes)) ?s)"
    by (simp add: one split_beta)
  ultimately show ?case by (simp only: decisions_simps fst_conv snd_conv simp_thms if_True list.map)
qed (simp add: decisions_def)

end

interpretation memory_otp: otp_store memory_otp "\<lambda>_. True"
  by unfold_locales (auto simp: memory_otp_def store_set_def)

subsection \<open>The table refines the map\<close>

text \<open>The identifiers are distinct; and, unless requests overlap, each number has one active challenge.\<close>

definition otp_ids :: "OtpRow list \<Rightarrow> bool" where
  "otp_ids t \<longleftrightarrow> map oc_id t = [0..<length t]"

definition otp_table_inv :: "OtpRow list \<Rightarrow> bool" where
  "otp_table_inv t \<longleftrightarrow> otp_ids t \<and> (\<forall>P p. length (filter (active P p) t) \<le> 1)"

lemma active_update [table_simps]:
  "\<not> active P p (r\<lparr>oc_consumed := True\<rparr>)"
  "active P p (r\<lparr>oc_attempts := n\<rparr>) = active P p r"
  by (simp_all add: active_def)

lemma active_same: "active P p r \<Longrightarrow> active P' p' r \<longleftrightarrow> P' = P \<and> p' = p"
  by (auto simp: active_def)

lemma filter_consume [table_simps]:
  "filter (active P p) (sql_update (active P' p') (\<lambda>r. r\<lparr>oc_consumed := True\<rparr>) t) =
     (if P = P' \<and> p = p' then [] else filter (active P p) t)"
proof (induction t)
  case (Cons r t)
  then show ?case
    by (cases "active P p r"; cases "active P' p' r") (auto simp: table_simps active_same)
qed simp

lemma filter_increment [table_simps]:
  "filter (active P p) (sql_update q (\<lambda>r. r\<lparr>oc_attempts := Suc (oc_attempts r)\<rparr>) t) =
     sql_update q (\<lambda>r. r\<lparr>oc_attempts := Suc (oc_attempts r)\<rparr>) (filter (active P p) t)"
  by (induction t) (simp_all add: table_simps)

lemma map_id_sql_update [table_simps]:
  "map oc_id (sql_update q (\<lambda>r. r\<lparr>oc_consumed := True\<rparr>) t) = map oc_id t"
  "map oc_id (sql_update q (\<lambda>r. r\<lparr>oc_attempts := Suc (oc_attempts r)\<rparr>) t) = map oc_id t"
  by (induction t) auto

lemma same_id_same_row:
  assumes "otp_ids t" "r \<in> set t" "q \<in> set t" "oc_id r = oc_id q"
  shows "r = q"
proof -
  have "distinct (map oc_id t)" using assms(1) by (simp add: otp_ids_def)
  then show ?thesis using assms(2-4) by (auto simp: distinct_map dest: inj_onD)
qed

lemma pg_set_eq: "store_set (pg_otp P) t p r = pg_insert P (pg_delete P t p) p r"
  by (simp add: store_set_def pg_otp_def pg_set_def pg_delete_def)

lemma pg_otp_ids:
  assumes "otp_ids t"
  shows "otp_ids (pg_insert P t p r)" "otp_ids (pg_delete P t p)" "otp_ids (pg_increment P t p)"
  using assms by (simp_all add: otp_ids_def pg_insert_def pg_delete_def pg_increment_def table_simps)

lemma pg_otp_inv:
  assumes "otp_table_inv t"
  shows "otp_table_inv (store_set (pg_otp P) t p r)" "otp_table_inv (pg_delete P t p)" "otp_table_inv (pg_increment P t p)"
proof -
  have ids: "otp_ids t" and one: "length (filter (active Q q) t) \<le> 1" for Q q
    using assms by (simp_all add: otp_table_inv_def)
  have "length (filter (active Q q) (store_set (pg_otp P) t p r)) \<le> 1" for Q q
    using one [of Q q] by (auto simp: pg_set_eq pg_insert_def pg_delete_def table_simps active_def)
  then show "otp_table_inv (store_set (pg_otp P) t p r)"
    using ids by (simp add: otp_table_inv_def pg_set_eq pg_otp_ids)
  show "otp_table_inv (pg_delete P t p)"
    using one pg_otp_ids [OF ids] by (simp add: otp_table_inv_def pg_delete_def table_simps)
  show "otp_table_inv (pg_increment P t p)"
    using one pg_otp_ids [OF ids] by (simp add: otp_table_inv_def pg_increment_def table_simps)
qed

lemma latest_in: "latest rs = Some r \<Longrightarrow> r \<in> set rs"
  by (induction rs) (auto split: option.splits if_splits)

lemma latest_map: "(\<And>r. oc_created_at (f r) = oc_created_at r) \<Longrightarrow> latest (map f rs) = map_option f (latest rs)"
  by (induction rs) (auto split: option.splits)

lemma pg_get_set:
  "pg_get Q (store_set (pg_otp P) t p r) q = (if Q = P \<and> q = p then Some r else pg_get Q t q)"
  by (auto simp: pg_get_def pg_set_eq pg_insert_def pg_delete_def table_simps active_def record_of_def)

lemma pg_get_delete:
  "pg_get Q (pg_delete P t p) q = (if Q = P \<and> q = p then None else pg_get Q t q)"
  by (simp add: pg_get_def pg_delete_def table_simps)

lemma pg_get_insert:
  "(Q, q) \<noteq> (P, p) \<Longrightarrow> pg_get Q (pg_insert P t p r) q = pg_get Q t q"
  by (auto simp: pg_get_def pg_insert_def active_def)

lemma pg_get_increment:
  assumes "otp_ids t"
  shows "pg_get Q (pg_increment P t p) q =
    (if Q = P \<and> q = p then map_option (attempts_update Suc) (pg_get P t p) else pg_get Q t q)"
proof (cases "latest (filter (active P p) t)")
  case None
  then show ?thesis by (auto simp: pg_get_def pg_increment_def sql_update_none)
next
  case (Some l)
  let ?hit = "\<lambda>r. Some (oc_id r) = map_option oc_id (latest (filter (active P p) t))"
  let ?f = "\<lambda>r. if ?hit r then r\<lparr>oc_attempts := Suc (oc_attempts r)\<rparr> else r"
  have l: "l \<in> set t" "active P p l" using latest_in [OF Some] by simp_all
  have get: "pg_get Q (pg_increment P t p) q = map_option (\<lambda>r. record_of (?f r)) (latest (filter (active Q q) t))"
  proof -
    have "latest (map ?f (filter (active Q q) t)) = map_option ?f (latest (filter (active Q q) t))"
      by (rule latest_map) simp
    moreover have "filter (active Q q) (pg_increment P t p) = map ?f (filter (active Q q) t)"
      unfolding pg_increment_def filter_increment by (simp only: sql_update_def)
    ultimately show ?thesis by (simp add: pg_get_def option.map_comp comp_def)
  qed
  show ?thesis
  proof (cases "Q = P \<and> q = p")
    case True
    with get Some have "pg_get Q (pg_increment P t p) q = Some (record_of (?f l))" by simp
    with True Some show ?thesis by (simp add: pg_get_def record_of_def)
  next
    case False
    have "\<not> ?hit r" if "latest (filter (active Q q) t) = Some r" for r
    proof
      assume "?hit r"
      with Some have "oc_id r = oc_id l" by simp
      moreover have r: "r \<in> set t" "active Q q r" using latest_in [OF that] by simp_all
      ultimately have "r = l" using same_id_same_row [OF assms r(1) l(1)] by blast
      with r l False show False by (auto simp: active_def)
    qed
    then have "map_option (\<lambda>r. record_of (?f r)) (latest (filter (active Q q) t)) =
        map_option record_of (latest (filter (active Q q) t))"
      by (cases "latest (filter (active Q q) t)") auto
    also have "\<dots> = pg_get Q t q" by (simp add: pg_get_def)
    finally have "pg_get Q (pg_increment P t p) q = pg_get Q t q" by (simp only: get)
    with False show ?thesis by auto
  qed
qed

lemma pg_ops [simp]:
  "otp_get (pg_otp P) = pg_get P" "otp_set (pg_otp P) = pg_set P"
  "otp_delete (pg_otp P) = pg_delete P" "otp_increment (pg_otp P) = pg_increment P"
  by (simp_all add: pg_otp_def)

lemma pg_statements:
  "f \<in> set (pg_set P p r) \<Longrightarrow> f = (\<lambda>t. pg_delete P t p) \<or> f = (\<lambda>t. pg_insert P t p r)"
  by (auto simp: pg_set_def pg_delete_def)

lemmas pg_otp_laws = pg_get_set pg_get_delete pg_get_increment pg_otp_ids

interpretation pg_otp: otp_store "pg_otp P" otp_ids for P
  by unfold_locales (auto simp: pg_otp_laws pg_get_insert dest!: pg_statements)

text \<open>The table, seen as the map of its active challenges of one purpose.\<close>

definition challenges :: "OtpPurpose \<Rightarrow> OtpRow list \<Rightarrow> (string \<rightharpoonup> OtpRecord)" where
  "challenges P t = (\<lambda>phone. pg_get P t phone)"

lemma challenges_ops:
  assumes "otp_ids t"
  shows "challenges P (store_set (pg_otp P) t p r) = (challenges P t)(p \<mapsto> r)"
    and "challenges P (pg_delete P t p) = (challenges P t)(p := None)"
    and "challenges P (pg_increment P t p) =
      (challenges P t)(p := map_option (attempts_update Suc) (challenges P t p))"
  using assms by (auto simp: challenges_def pg_otp_laws fun_eq_iff)

lemma memory_ops [simp]:
  "otp_get memory_otp m p = m p" "store_set memory_otp m p r = m(p \<mapsto> r)"
  "otp_delete memory_otp m p = m(p := None)"
  "otp_increment memory_otp m p = m(p := map_option (attempts_update Suc) (m p))"
  by (simp_all add: memory_otp_def store_set_def)

text \<open>
  C40. The challenge table implements the in-memory store: a request or a verification over the
  table answers, sends and changes the active challenges of its purpose exactly as the one over the map
  does, keeps the table well formed, and never touches the challenges of the other purpose (a panel
  step-up cannot consume a login in progress, nor the other way round).
\<close>

theorem pg_otp_refines_memory:
  assumes "otp_table_inv t"
  shows "(case requestOtp (pg_otp P) sha sms random t now phone config of
       (reply, sent, t') \<Rightarrow>
         requestOtp memory_otp sha sms random (challenges P t) now phone config =
           (reply, sent, challenges P t') \<and>
         otp_table_inv t' \<and> (\<forall>Q. Q \<noteq> P \<longrightarrow> challenges Q t' = challenges Q t)) \<and>
    (case verifyOtp (pg_otp P) sha t phone code now config of
       (reply, t') \<Rightarrow>
         verifyOtp memory_otp sha (challenges P t) phone code now config = (reply, challenges P t') \<and>
         otp_table_inv t' \<and> (\<forall>Q. Q \<noteq> P \<longrightarrow> challenges Q t' = challenges Q t))"
proof
  have ids: "otp_ids t" using assms by (simp add: otp_table_inv_def)
  have get: "pg_get P t phone = challenges P t phone" by (simp add: challenges_def)
  have other: "challenges Q (store_set (pg_otp P) t phone r) = challenges Q t"
    "challenges Q (pg_delete P t phone) = challenges Q t"
    "challenges Q (pg_increment P t phone) = challenges Q t"
    "challenges Q (pg_delete P (store_set (pg_otp P) t phone r) phone) = challenges Q t" if "Q \<noteq> P" for Q r
    using that ids by (auto simp: challenges_def pg_otp_laws fun_eq_iff)
  have del: "challenges P (pg_delete P (store_set (pg_otp P) t phone r) phone) = (challenges P t)(phone := None)" for r
    by (auto simp: challenges_def pg_otp_laws fun_eq_iff)
  show "case requestOtp (pg_otp P) sha sms random t now phone config of
       (reply, sent, t') \<Rightarrow>
         requestOtp memory_otp sha sms random (challenges P t) now phone config =
           (reply, sent, challenges P t') \<and>
         otp_table_inv t' \<and> (\<forall>Q. Q \<noteq> P \<longrightarrow> challenges Q t' = challenges Q t)"
    using assms by (simp add: requestOtp_def Let_def get challenges_ops [OF ids] pg_otp_inv other del
        split: option.splits)
  show "case verifyOtp (pg_otp P) sha t phone code now config of
       (reply, t') \<Rightarrow>
         verifyOtp memory_otp sha (challenges P t) phone code now config = (reply, challenges P t') \<and>
         otp_table_inv t' \<and> (\<forall>Q. Q \<noteq> P \<longrightarrow> challenges Q t' = challenges Q t)"
    using assms by (simp add: verifyOtp_def verify_read_def verify_write_def get challenges_ops [OF ids]
        pg_otp_inv other split: option.splits)
qed

lemma otp_table_inv_Nil [simp]: "otp_table_inv []"
  by (simp add: otp_table_inv_def otp_ids_def)

definition sample_otp_config :: OtpConfig where
  "sample_otp_config = \<lparr> ttlSeconds = 120, maxAttempts = 3, cooldownSeconds = 60, fixedCode = None \<rparr>"

theorem pg_otp_refines_memory_witness:
  "case requestOtp (pg_otp Login) id (\<lambda>_ _. True) 42 [] 1000 ''0912'' sample_otp_config of
     (reply, sent, t) \<Rightarrow> reply = Done \<and> sent = [(''0912'', genCode 42)] \<and> otp_table_inv t"
  using pg_otp_refines_memory [
      where P = Login and sha = id and sms = "\<lambda>_ _. True" and random = 42 and now = 1000
        and phone = "''0912''" and config = sample_otp_config, OF otp_table_inv_Nil, THEN conjunct1]
  by (simp add: requestOtp_def pg_get_def sample_otp_config_def Let_def)

subsection \<open>Guessing\<close>

text \<open>
  C39. Against one issued code, however the reads and writes of verifications (of this number and of
  others) and the statements of requests of other numbers interleave, with at most \<open>n\<close> verifications in
  progress at a time: at most \<open>maxAttempts + n - 1\<close> codes are ever compared with it and at most \<open>n\<close> are
  accepted; once an acceptance is written, every later attempt finds no challenge; and the code that was
  sent is accepted while it is fresh. One at a time (\<open>n = 1\<close>), \<open>maxAttempts\<close> codes are compared and one is
  accepted.
\<close>

theorem otp_guesses_bounded:
  assumes ids: "otp_ids t"
    and req: "requestOtp (pg_otp P) sha sms random t now phone config = (Done, [(phone, code)], os_store s)"
    and free: "\<forall>j. n \<le> j \<longrightarrow> os_slots s j = None" and n: "0 < n"
    and events: "\<forall>e \<in> set es. no_request n phone e"
    and run: "otp_run (pg_otp P) sha config es s = (rs, s')"
  shows "length (filter compared (decisions phone rs)) \<le> maxAttempts config + n - 1 \<and>
    length (filter (\<lambda>r. r = Ok) (decisions phone rs)) \<le> n \<and>
    (\<forall>es1 j es2. es = es1 @ Writes j # es2 \<and>
       os_slots (snd (otp_run (pg_otp P) sha config es1 s)) j = Some (phone, Ok) \<longrightarrow>
       set (decisions phone (fst (otp_run (pg_otp P) sha config es2
         (snd (otp_run (pg_otp P) sha config (es1 @ [Writes j]) s))))) \<subseteq> {NoChallenge}) \<and>
    (0 < maxAttempts config \<and> now' < now + ttlSeconds config \<longrightarrow>
       verify_read (pg_otp P) sha (os_store s) phone code now' config = Ok)"
proof -
  have after: "otp_ids (os_store s)" "pg_get P (os_store s) phone = Some \<lparr> codeHash = sha code, attempts = 0,
      expiresAt = now + ttlSeconds config, createdAt = now \<rparr>"
    using pg_otp.requestOtp_cases [OF ids req] by simp_all
  have start: "pg_otp.guessed P config n phone 0 0 s"
    using after free n by (simp add: pg_otp.guessed_def)
  have bounds: "length (filter compared (decisions phone rs)) \<le> maxAttempts config + n - 1 \<and>
      length (filter (\<lambda>r. r = Ok) (decisions phone rs)) \<le> n"
    using pg_otp.guessed_run [OF start events run] by (simp add: pg_otp.guessed_def)
  have gone: "set (decisions phone (fst (otp_run (pg_otp P) sha config es2
      (snd (otp_run (pg_otp P) sha config (es1 @ [Writes j]) s))))) \<subseteq> {NoChallenge}"
    if es: "es = es1 @ Writes j # es2"
      and slot: "os_slots (snd (otp_run (pg_otp P) sha config es1 s)) j = Some (phone, Ok)" for es1 j es2
  proof -
    obtain rs1 s1 where one: "otp_run (pg_otp P) sha config es1 s = (rs1, s1)" by fastforce
    define s2 where "s2 = snd (otp_run (pg_otp P) sha config (es1 @ [Writes j]) s)"
    have "otp_ids (os_store s1)"
      using pg_otp.guessed_run [OF start _ one] events es by (auto simp: pg_otp.guessed_def)
    with one slot have "otp_ids (os_store s2)" "otp_get (pg_otp P) (os_store s2) phone = None"
      by (simp_all add: s2_def otp_run_append otp_event_def verify_write_def pg_otp_laws)
    from pg_otp.gone_run [OF this, of es2 n sha config] events es show ?thesis
      unfolding s2_def by (auto simp: prod_eq_iff)
  qed
  have "verify_read (pg_otp P) sha (os_store s) phone code now' config = Ok"
    if "0 < maxAttempts config" "now' < now + ttlSeconds config"
    using that by (simp add: verify_read_def after(2) timingSafeEqualHex_def Let_def)
  with bounds gone show ?thesis by blast
qed

definition sample_issued :: "(OtpRow list) OtpSystem" where
  "sample_issued = \<lparr> os_store = snd (snd (requestOtp (pg_otp Login) id (\<lambda>_ _. True) 42 [] 1000 ''0912''
     sample_otp_config)), os_slots = (\<lambda>_. None) \<rparr>"

lemma sample_issued:
  "requestOtp (pg_otp Login) id (\<lambda>_ _. True) 42 [] 1000 ''0912'' sample_otp_config =
     (Done, [(''0912'', genCode 42)], os_store sample_issued)"
  by (simp add: sample_issued_def requestOtp_def pg_get_def sample_otp_config_def Let_def)

lemma otp_ids_Nil: "otp_ids []" by (simp add: otp_ids_def)

definition sample_guesses :: "OtpEvent list" where
  "sample_guesses =
     [Reads 0 ''0912'' ''ff'' 1001, Reads 1 ''0912'' ''fe'' 1001, Writes 1, Writes 0,
      Reads 1 ''0912'' ''fd'' 1002, Reads 0 ''0912'' ''fc'' 1002, Writes 0, Writes 1,
      Reads 0 ''0912'' ''000042'' 1003]"

theorem otp_guesses_bounded_witness:
  "length (filter compared (decisions ''0912'' (fst (otp_run (pg_otp Login) id sample_otp_config
     sample_guesses sample_issued)))) \<le> 4"
proof -
  obtain rs s' where run: "otp_run (pg_otp Login) id sample_otp_config sample_guesses sample_issued = (rs, s')"
    by fastforce
  have "\<forall>j. 2 \<le> j \<longrightarrow> os_slots sample_issued j = None" by (simp add: sample_issued_def)
  moreover have "\<forall>e \<in> set sample_guesses. no_request 2 ''0912'' e"
    by (simp add: sample_guesses_def no_request_def)
  ultimately show ?thesis
    using otp_guesses_bounded [OF otp_ids_Nil sample_issued _ _ _ run, of 2, THEN conjunct1]
    by (simp add: run) (simp add: sample_otp_config_def)
qed

text \<open>
  The limit holds one at a time only: the attempts of a challenge are read and counted in separate
  statements, so any number of codes sent together are all compared with it, whatever \<open>maxAttempts\<close> is.
\<close>

theorem parallel_guesses_all_compared:
  assumes ids: "otp_ids t"
    and req: "requestOtp (pg_otp P) sha sms random t now phone config = (Done, [(phone, code)], os_store s)"
    and free: "\<forall>j. os_slots s j = None" and "0 < maxAttempts config" "now' < now + ttlSeconds config"
  shows "decisions phone (fst (otp_run (pg_otp P) sha config
      (map (\<lambda>(j, guess). Reads j phone guess now') (enumerate 0 guesses)) s)) =
    map (\<lambda>guess. if timingSafeEqualHex (sha code) (sha guess) then Ok else Mismatch) guesses"
proof -
  have after: "otp_get (pg_otp P) (os_store s) phone = Some \<lparr> codeHash = sha code, attempts = 0,
      expiresAt = now + ttlSeconds config, createdAt = now \<rparr>"
    using pg_otp.requestOtp_cases [OF ids req] by simp
  show ?thesis
    using pg_otp.reads_compare [OF after] assms(3-5) by simp
qed

lemma sample_codes:
  "timingSafeEqualHex (genCode 42) ''ff'' = False" "timingSafeEqualHex (genCode 42) ''fe'' = False"
  "timingSafeEqualHex (genCode 42) ''fd'' = False" "timingSafeEqualHex (genCode 42) ''fc'' = False"
  "timingSafeEqualHex (genCode 42) (genCode 42)"
  by code_simp+

theorem parallel_guesses_all_compared_witness:
  "decisions ''0912'' (fst (otp_run (pg_otp Login) id sample_otp_config
      (map (\<lambda>(j, guess). Reads j ''0912'' guess 1001) (enumerate 0 [''ff'', ''fe'', ''fd'', ''fc'', genCode 42]))
      sample_issued)) = [Mismatch, Mismatch, Mismatch, Mismatch, Ok]"
  using parallel_guesses_all_compared [OF otp_ids_Nil sample_issued, where now' = 1001
      and guesses = "[''ff'', ''fe'', ''fd'', ''fc'', genCode 42]"]
  by (simp add: sample_issued_def sample_otp_config_def sample_codes)

text \<open>
  Two requests of one number whose statements overlap leave two active challenges, of which only the later
  row answers.
\<close>

lemma overlapping_requests:
  "filter (active P p) (fold (\<lambda>f. f) [pg_set P p r ! 0, pg_set P p q ! 0, pg_set P p r ! 1, pg_set P p q ! 1] t) =
     map (\<lambda>(i, x). \<lparr> oc_id = i, oc_purpose = P, oc_destination = p, oc_code_hash = codeHash x,
       oc_attempts = attempts x, oc_expires_at = expiresAt x, oc_created_at = createdAt x,
       oc_consumed = False \<rparr>) [(length t, r), (Suc (length t), q)]"
  by (simp add: pg_set_def pg_insert_def table_simps active_def)

end
