(* ===== verification/Refresh.thy ===== *)
theory Refresh
  imports HB_Prelude
begin

text \<open>
  Rotating refresh tokens with reuse detection: \<open>packages/auth-core/src/refresh.ts\<close> over the port
  \<open>SessionStore\<close>, its in-memory store, the table \<open>auth_sessions\<close> of
  \<open>apps/api/src/adapters/session-store.ts\<close>, and the transaction the refresh route of
  \<open>apps/api/src/routes/auth.ts\<close> wraps around a rotation. The digest \<open>sha\<close>, the random tokens and the
  family identifiers are arguments.
\<close>

subsection \<open>The port\<close>

record SessionRecord =
  tokenHash :: string
  familyId :: string
  sr_sub :: string
  sr_used :: bool
  sr_expiresAt :: epoch_s

record 's SessionStore =
  findByHash :: "'s \<Rightarrow> string \<Rightarrow> SessionRecord option"
  insert_session :: "'s \<Rightarrow> SessionRecord \<Rightarrow> 's"
  markUsed :: "'s \<Rightarrow> string \<Rightarrow> 's"
  burnFamily :: "'s \<Rightarrow> string \<Rightarrow> 's"
  revokeAllForUser :: "'s \<Rightarrow> string \<Rightarrow> epoch_s \<Rightarrow> nat \<times> 's"

datatype RefreshError = Invalid | TokenExpired | Reuse

definition startSession ::
  "'s SessionStore \<Rightarrow> (string \<Rightarrow> string) \<Rightarrow> int \<Rightarrow> 's \<Rightarrow> string \<Rightarrow> string \<Rightarrow> string \<Rightarrow> epoch_s \<Rightarrow>
     string \<times> 's" where
  "startSession store sha ttl s sub token family now =
     (token, insert_session store s \<lparr> tokenHash = sha token, familyId = family, sr_sub = sub,
               sr_used = False, sr_expiresAt = now + ttl \<rparr>)"

definition rotateSession ::
  "'s SessionStore \<Rightarrow> (string \<Rightarrow> string) \<Rightarrow> int \<Rightarrow> 's \<Rightarrow> string \<Rightarrow> string \<Rightarrow> epoch_s \<Rightarrow>
     (RefreshError + (string \<times> string)) \<times> 's" where
  "rotateSession store sha ttl s rawToken nextToken now =
     (let h = sha rawToken
      in case findByHash store s h of
           None \<Rightarrow> (Inl Invalid, s)
         | Some r \<Rightarrow>
             if sr_used r then (Inl Reuse, burnFamily store s (familyId r))
             else if sr_expiresAt r \<le> now then (Inl TokenExpired, s)
             else (Inr (sr_sub r, nextToken),
                   insert_session store (markUsed store s h)
                     \<lparr> tokenHash = sha nextToken, familyId = familyId r, sr_sub = sr_sub r,
                       sr_used = False, sr_expiresAt = now + ttl \<rparr>))"

subsection \<open>The in-memory store\<close>

definition drop_where :: "(SessionRecord \<Rightarrow> bool) \<Rightarrow> (string \<rightharpoonup> SessionRecord) \<Rightarrow> (string \<rightharpoonup> SessionRecord)" where
  "drop_where p m = (\<lambda>h. case m h of None \<Rightarrow> None | Some r \<Rightarrow> if p r then None else Some r)"

definition memory_sessions :: "(string \<rightharpoonup> SessionRecord) SessionStore" where
  "memory_sessions =
     \<lparr> findByHash = (\<lambda>m h. m h),
       insert_session = (\<lambda>m r. m(tokenHash r \<mapsto> r)),
       markUsed = (\<lambda>m h. m(h := map_option (sr_used_update (\<lambda>_. True)) (m h))),
       burnFamily = (\<lambda>m f. drop_where (\<lambda>r. familyId r = f) m),
       revokeAllForUser = (\<lambda>m u now.
         (card {h. \<exists>r. m h = Some r \<and> sr_sub r = u \<and> \<not> sr_used r \<and> sr_expiresAt r > now},
          drop_where (\<lambda>r. sr_sub r = u) m)) \<rparr>"

subsection \<open>The table\<close>

text \<open>
  \<open>rotated_at\<close> and \<open>revoked_at\<close> are kept as whether they are set. The unique index on the token hash is
  the invariant \<open>distinct (map as_hash t)\<close>; an insert is only made with a fresh random token.
\<close>

record SessionRow =
  as_hash :: string
  as_family :: string
  as_user :: string
  as_rotated :: bool
  as_revoked :: bool
  as_expires_at :: epoch_s

definition session_of :: "SessionRow \<Rightarrow> SessionRecord" where
  "session_of r = \<lparr> tokenHash = as_hash r, familyId = as_family r, sr_sub = as_user r,
                    sr_used = as_rotated r, sr_expiresAt = as_expires_at r \<rparr>"

definition pg_findByHash :: "SessionRow list \<Rightarrow> string \<Rightarrow> SessionRecord option" where
  "pg_findByHash t h = map_option session_of (find (\<lambda>r. as_hash r = h \<and> \<not> as_revoked r) t)"

definition pg_insert_session :: "SessionRow list \<Rightarrow> SessionRecord \<Rightarrow> SessionRow list" where
  "pg_insert_session t r =
     t @ [\<lparr> as_hash = tokenHash r, as_family = familyId r, as_user = sr_sub r, as_rotated = False,
            as_revoked = False, as_expires_at = sr_expiresAt r \<rparr>]"

definition pg_markUsed :: "SessionRow list \<Rightarrow> string \<Rightarrow> SessionRow list" where
  "pg_markUsed t h = sql_update (\<lambda>r. as_hash r = h) (\<lambda>r. r\<lparr>as_rotated := True\<rparr>) t"

definition pg_burnFamily :: "SessionRow list \<Rightarrow> string \<Rightarrow> SessionRow list" where
  "pg_burnFamily t f =
     sql_update (\<lambda>r. as_family r = f \<and> \<not> as_revoked r) (\<lambda>r. r\<lparr>as_revoked := True\<rparr>) t"

definition pg_revokeAllForUser :: "SessionRow list \<Rightarrow> string \<Rightarrow> epoch_s \<Rightarrow> nat \<times> SessionRow list" where
  "pg_revokeAllForUser t u now =
     (sql_count (\<lambda>r. as_user r = u \<and> \<not> as_revoked r \<and> \<not> as_rotated r \<and> as_expires_at r > now) t,
      sql_update (\<lambda>r. as_user r = u \<and> \<not> as_revoked r) (\<lambda>r. r\<lparr>as_revoked := True\<rparr>) t)"

definition pg_sessions :: "(SessionRow list) SessionStore" where
  "pg_sessions =
     \<lparr> findByHash = pg_findByHash, insert_session = pg_insert_session, markUsed = pg_markUsed,
       burnFamily = pg_burnFamily, revokeAllForUser = pg_revokeAllForUser \<rparr>"

subsection \<open>The refresh route\<close>

text \<open>
  The route's transaction: the state before \<open>BEGIN\<close> is kept for \<open>ROLLBACK\<close>. A suspended owner ends it
  before the rotation; a detected reuse commits the burnt family; every other refusal rolls back.
\<close>

datatype RefreshReply = Rotated string string | UserSuspended | TokenReused | Unauthorized

definition refreshOwnerSuspended ::
  "(string \<Rightarrow> string) \<Rightarrow> (string \<Rightarrow> bool) \<Rightarrow> SessionRow list \<Rightarrow> string \<Rightarrow> bool" where
  "refreshOwnerSuspended sha suspended t raw =
     (case find (\<lambda>r. as_hash r = sha raw) t of None \<Rightarrow> False | Some r \<Rightarrow> suspended (as_user r))"

definition refresh_route ::
  "(string \<Rightarrow> string) \<Rightarrow> int \<Rightarrow> (string \<Rightarrow> bool) \<Rightarrow> SessionRow list \<Rightarrow> string \<Rightarrow> string \<Rightarrow> epoch_s \<Rightarrow>
     RefreshReply \<times> SessionRow list" where
  "refresh_route sha ttl suspended t raw nextToken now =
     (if refreshOwnerSuspended sha suspended t raw then (UserSuspended, t)
      else (case rotateSession pg_sessions sha ttl t raw nextToken now of
              (Inl Reuse, t') \<Rightarrow> (TokenReused, t')
            | (Inl _, t') \<Rightarrow> (Unauthorized, t)
            | (Inr (sub, token), t') \<Rightarrow> (Rotated sub token, t')))"

subsection \<open>Histories\<close>

text \<open>
  Everything that happens to a store: logins, rotations (by whoever presents a token), burnt families
  and revoked users, in any order. New tokens and families are fresh.
\<close>

inductive session_steps ::
  "'s SessionStore \<Rightarrow> ('s \<Rightarrow> string \<Rightarrow> bool) \<Rightarrow> (string \<Rightarrow> string) \<Rightarrow> int \<Rightarrow> 's \<Rightarrow> 's \<Rightarrow> bool"
  for store fresh sha ttl s where
  steps_refl: "session_steps store fresh sha ttl s s"
| steps_start: "\<lbrakk>session_steps store fresh sha ttl s s1; fresh s1 (sha token);
     \<forall>h r. findByHash store s1 h = Some r \<longrightarrow> familyId r \<noteq> family;
     startSession store sha ttl s1 sub token family now = (tok, s2)\<rbrakk> \<Longrightarrow>
   session_steps store fresh sha ttl s s2"
| steps_rotate: "\<lbrakk>session_steps store fresh sha ttl s s1; fresh s1 (sha nextToken);
     rotateSession store sha ttl s1 raw nextToken now = (res, s2)\<rbrakk> \<Longrightarrow>
   session_steps store fresh sha ttl s s2"
| steps_burn: "\<lbrakk>session_steps store fresh sha ttl s s1; s2 = burnFamily store s1 family\<rbrakk> \<Longrightarrow>
   session_steps store fresh sha ttl s s2"
| steps_revoke: "\<lbrakk>session_steps store fresh sha ttl s s1; revokeAllForUser store s1 u now = (n, s2)\<rbrakk> \<Longrightarrow>
   session_steps store fresh sha ttl s s2"

subsection \<open>One live token per family\<close>

definition one_live :: "(string \<rightharpoonup> SessionRecord) \<Rightarrow> bool" where
  "one_live v \<longleftrightarrow>
     (\<forall>h h' r r'. v h = Some r \<and> v h' = Some r' \<and> familyId r = familyId r' \<longrightarrow>
        sr_sub r = sr_sub r' \<and> (\<not> sr_used r \<and> \<not> sr_used r' \<longrightarrow> h = h'))"

lemma one_liveD:
  assumes "one_live v" "v h = Some r" "v h' = Some r'" "familyId r = familyId r'"
  shows "sr_sub r = sr_sub r'" and "\<not> sr_used r \<Longrightarrow> \<not> sr_used r' \<Longrightarrow> h = h'"
  using assms unfolding one_live_def by blast+

lemma one_live_submap: "one_live v \<Longrightarrow> (\<And>h r. v' h = Some r \<Longrightarrow> v h = Some r) \<Longrightarrow> one_live v'"
  unfolding one_live_def by blast

lemma one_live_new_family:
  assumes "one_live v" "\<forall>h q. v h = Some q \<longrightarrow> familyId q \<noteq> familyId r"
  shows "one_live (v(k \<mapsto> r))"
  unfolding one_live_def
proof (intro allI impI)
  fix h h' q q'
  assume a: "(v(k \<mapsto> r)) h = Some q \<and> (v(k \<mapsto> r)) h' = Some q' \<and> familyId q = familyId q'"
  show "sr_sub q = sr_sub q' \<and> (\<not> sr_used q \<and> \<not> sr_used q' \<longrightarrow> h = h')"
  proof (cases "h = k \<or> h' = k")
    case True
    then show ?thesis using a assms(2) by (cases "h = k"; cases "h' = k") fastforce+
  next
    case False
    then have "v h = Some q" "v h' = Some q'" "familyId q = familyId q'"
      using a by (simp_all only: fun_upd_other de_Morgan_disj simp_thms)
    then show ?thesis using one_liveD [OF assms(1)] by blast
  qed
qed

lemma one_live_mark:
  assumes "one_live v" "v k = Some r"
  shows "one_live (v(k \<mapsto> r\<lparr>sr_used := True\<rparr>))"
  unfolding one_live_def
proof (intro allI impI)
  fix h h' q q'
  let ?v = "v(k \<mapsto> r\<lparr>sr_used := True\<rparr>)"
  assume a: "?v h = Some q \<and> ?v h' = Some q' \<and> familyId q = familyId q'"
  show "sr_sub q = sr_sub q' \<and> (\<not> sr_used q \<and> \<not> sr_used q' \<longrightarrow> h = h')"
  proof -
    have old: "\<exists>p. v x = Some p \<and> familyId p = familyId y \<and> sr_sub p = sr_sub y \<and> (\<not> sr_used y \<longrightarrow> \<not> sr_used p)"
      if "?v x = Some y" for x y
      using that assms(2) by (cases "x = k") auto
    obtain p p' where "v h = Some p" "familyId p = familyId q" "sr_sub p = sr_sub q"
        "\<not> sr_used q \<longrightarrow> \<not> sr_used p" "v h' = Some p'" "familyId p' = familyId q'"
        "sr_sub p' = sr_sub q'" "\<not> sr_used q' \<longrightarrow> \<not> sr_used p'"
      using a old [of h q] old [of h' q'] by blast
    then show ?thesis using one_liveD [OF assms(1), of h p h' p'] a by metis
  qed
qed

lemma one_live_rotated:
  assumes "one_live v" "v k = Some r" "\<not> sr_used r" "familyId n = familyId r" "sr_sub n = sr_sub r"
  shows "one_live (v(k \<mapsto> r\<lparr>sr_used := True\<rparr>, k' \<mapsto> n))"
  unfolding one_live_def
proof (intro allI impI)
  let ?m = "v(k \<mapsto> r\<lparr>sr_used := True\<rparr>)"
  have m: "one_live ?m" by (rule one_live_mark [OF assms(1,2)])
  have used: "sr_used q \<and> sr_sub q = sr_sub n" if "?m h = Some q" "familyId q = familyId n" for h q
  proof (cases "h = k")
    case True
    then show ?thesis using that assms(5) by auto
  next
    case False
    with that have q: "v h = Some q" "familyId q = familyId r" using assms(4) by simp_all
    show ?thesis using one_liveD [OF assms(1) q(1) assms(2) q(2)] assms(3,5) False by auto
  qed
  fix h h' q q'
  assume a: "(?m(k' \<mapsto> n)) h = Some q \<and> (?m(k' \<mapsto> n)) h' = Some q' \<and> familyId q = familyId q'"
  show "sr_sub q = sr_sub q' \<and> (\<not> sr_used q \<and> \<not> sr_used q' \<longrightarrow> h = h')"
  proof (cases "h = k'")
    case True
    with a have q: "q = n" by simp
    show ?thesis
    proof (cases "h' = k'")
      case True
      with a q show ?thesis using \<open>h = k'\<close> by auto
    next
      case False
      with a have "?m h' = Some q'" by (simp only: fun_upd_other simp_thms)
      then show ?thesis using used [of h' q'] a q by simp
    qed
  next
    case False
    with a have h: "?m h = Some q" by (simp only: fun_upd_other simp_thms)
    show ?thesis
    proof (cases "h' = k'")
      case True
      with a have "q' = n" by simp
      then show ?thesis using used [OF h] a by simp
    next
      case False
      with a have "?m h' = Some q'" by (simp only: fun_upd_other simp_thms)
      then show ?thesis using one_liveD [OF m h, of h' q'] a by blast
    qed
  qed
qed

lemma rotateSession_cases:
  assumes "rotateSession S sha ttl s raw nextToken now = (res, s')"
  shows "(res = Inl Invalid \<and> s' = s \<and> findByHash S s (sha raw) = None) \<or>
    (\<exists>r. findByHash S s (sha raw) = Some r \<and>
      (res = Inl Reuse \<and> sr_used r \<and> s' = burnFamily S s (familyId r) \<or>
       res = Inl TokenExpired \<and> \<not> sr_used r \<and> sr_expiresAt r \<le> now \<and> s' = s \<or>
       res = Inr (sr_sub r, nextToken) \<and> \<not> sr_used r \<and> now < sr_expiresAt r \<and>
         s' = insert_session S (markUsed S s (sha raw)) \<lparr> tokenHash = sha nextToken,
           familyId = familyId r, sr_sub = sr_sub r, sr_used = False, sr_expiresAt = now + ttl \<rparr>))"
  using assms by (auto simp: rotateSession_def Let_def split: option.splits if_splits)

subsection \<open>The contract of the port\<close>

locale session_store =
  fixes S :: "'s SessionStore" and inv :: "'s \<Rightarrow> bool" and fresh :: "'s \<Rightarrow> string \<Rightarrow> bool"
  assumes find_insert: "\<lbrakk>inv s; fresh s (tokenHash r); \<not> sr_used r\<rbrakk> \<Longrightarrow>
      findByHash S (insert_session S s r) h = (if h = tokenHash r then Some r else findByHash S s h)"
    and find_markUsed: "inv s \<Longrightarrow> findByHash S (markUsed S s k) h =
      (if h = k then map_option (sr_used_update (\<lambda>_. True)) (findByHash S s k) else findByHash S s h)"
    and find_burn: "inv s \<Longrightarrow> findByHash S (burnFamily S s f) h = Some r \<longleftrightarrow>
      findByHash S s h = Some r \<and> familyId r \<noteq> f"
    and find_revoke: "inv s \<Longrightarrow> findByHash S (snd (revokeAllForUser S s u now)) h = Some r \<longleftrightarrow>
      findByHash S s h = Some r \<and> sr_sub r \<noteq> u"
    and find_hash: "inv s \<Longrightarrow> findByHash S s h = Some r \<Longrightarrow> tokenHash r = h"
    and fresh_none: "inv s \<Longrightarrow> fresh s h \<Longrightarrow> findByHash S s h = None"
    and fresh_markUsed: "inv s \<Longrightarrow> fresh (markUsed S s k) h = fresh s h"
    and inv_insert: "inv s \<Longrightarrow> fresh s (tokenHash r) \<Longrightarrow> inv (insert_session S s r)"
    and inv_markUsed: "inv s \<Longrightarrow> inv (markUsed S s k)"
    and inv_burn: "inv s \<Longrightarrow> inv (burnFamily S s f)"
    and inv_revoke: "inv s \<Longrightarrow> inv (snd (revokeAllForUser S s u now))"
begin

lemmas keeps_inv = inv_insert inv_markUsed inv_burn inv_revoke

lemma rotated_view:
  assumes "inv s" "fresh s (tokenHash n)" "findByHash S s k = Some r" "\<not> sr_used n"
  shows "findByHash S (insert_session S (markUsed S s k) n) =
    (findByHash S s)(k \<mapsto> r\<lparr>sr_used := True\<rparr>, tokenHash n \<mapsto> n)"
  using assms by (auto simp: fun_eq_iff find_insert inv_markUsed fresh_markUsed find_markUsed)

lemma inserted_view:
  assumes "inv s" "fresh s (tokenHash n)" "\<not> sr_used n"
  shows "findByHash S (insert_session S s n) = (findByHash S s)(tokenHash n \<mapsto> n)"
  using assms by (auto simp: fun_eq_iff find_insert)

text \<open>The invariant of every history: well formed, and at most one usable token in each family.\<close>

lemma steps_one_live:
  assumes "session_steps S fresh sha ttl s s'" "inv s" "one_live (findByHash S s)"
  shows "inv s' \<and> one_live (findByHash S s')"
  using assms
proof induction
  case (steps_start s1 token family sub now tok s2)
  then have s1: "inv s1" "one_live (findByHash S s1)" by simp_all
  have s2: "s2 = insert_session S s1 \<lparr> tokenHash = sha token, familyId = family, sr_sub = sub,
      sr_used = False, sr_expiresAt = now + ttl \<rparr>" (is "s2 = insert_session S s1 ?n")
    using steps_start by (auto simp: startSession_def)
  have "findByHash S s2 = (findByHash S s1)(sha token \<mapsto> ?n)"
    using inserted_view [of s1 ?n] s1(1) steps_start s2 by simp
  moreover have "one_live ((findByHash S s1)(sha token \<mapsto> ?n))"
    using steps_start by (intro one_live_new_family [OF s1(2)]) simp
  moreover have "inv s2" using s2 s1(1) steps_start(2) by (simp add: inv_insert)
  ultimately show ?case by (simp only: simp_thms)
next
  case (steps_rotate s1 nextToken raw now res s2)
  then have s1: "inv s1" "one_live (findByHash S s1)" by simp_all
  from rotateSession_cases [OF steps_rotate(3)] show ?case
  proof (elim disjE exE conjE)
    fix r
    assume r: "findByHash S s1 (sha raw) = Some r" "\<not> sr_used r"
      and s2: "s2 = insert_session S (markUsed S s1 (sha raw)) \<lparr> tokenHash = sha nextToken,
        familyId = familyId r, sr_sub = sr_sub r, sr_used = False, sr_expiresAt = now + ttl \<rparr>"
        (is "_ = insert_session S _ ?n")
    have "findByHash S s2 = (findByHash S s1)(sha raw \<mapsto> r\<lparr>sr_used := True\<rparr>, sha nextToken \<mapsto> ?n)"
      using rotated_view [OF s1(1) _ r(1), of ?n] steps_rotate(2) s2 by simp
    moreover have "one_live ((findByHash S s1)(sha raw \<mapsto> r\<lparr>sr_used := True\<rparr>, sha nextToken \<mapsto> ?n))"
      by (rule one_live_rotated [OF s1(2) r]) simp_all
    moreover have "inv s2"
      using s2 s1(1) steps_rotate(2) by (simp add: inv_insert inv_markUsed fresh_markUsed)
    ultimately show ?thesis by (simp only: simp_thms)
  next
    fix r
    assume "s2 = burnFamily S s1 (familyId r)"
    then show ?thesis
      using s1 by (auto simp: inv_burn find_burn intro!: one_live_submap [OF s1(2)])
  qed (simp_all add: s1)
next
  case (steps_burn s1 s2 family)
  then have s1: "inv s1" "one_live (findByHash S s1)" by simp_all
  then show ?case
    by (auto simp: steps_burn(2) inv_burn find_burn intro!: one_live_submap [OF s1(2)])
next
  case (steps_revoke s1 u now n s2)
  then have s1: "inv s1" "one_live (findByHash S s1)" by simp_all
  have s2: "s2 = snd (revokeAllForUser S s1 u now)" using steps_revoke(2) by simp
  show ?case
    using s1 by (auto simp: s2 inv_revoke find_revoke intro!: one_live_submap [OF s1(2)])
qed simp

end

text \<open>A store that also never forgets a token it has seen.\<close>

locale durable_session_store = session_store +
  assumes seen_insert: "inv s \<Longrightarrow> \<not> fresh s h \<Longrightarrow> \<not> fresh (insert_session S s r) h"
    and seen_inserted: "inv s \<Longrightarrow> \<not> fresh (insert_session S s r) (tokenHash r)"
    and seen_burn: "inv s \<Longrightarrow> fresh (burnFamily S s f) h = fresh s h"
    and seen_revoke: "inv s \<Longrightarrow> fresh (snd (revokeAllForUser S s u now)) h = fresh s h"
begin

definition spent :: "'a \<Rightarrow> string \<Rightarrow> bool" where
  "spent s h \<longleftrightarrow> \<not> fresh s h \<and> (\<forall>r. findByHash S s h = Some r \<longrightarrow> sr_used r)"

lemma spent_insert:
  assumes "inv s" "fresh s (tokenHash n)" "\<not> sr_used n" "spent s h"
  shows "spent (insert_session S s n) h"
  using assms by (auto simp: spent_def find_insert seen_insert)

lemma spent_markUsed: "inv s \<Longrightarrow> spent s h \<Longrightarrow> spent (markUsed S s k) h"
  by (auto simp: spent_def find_markUsed fresh_markUsed)

lemma steps_spent:
  assumes "session_steps S fresh sha ttl s s'" "inv s" "spent s h"
  shows "inv s' \<and> spent s' h"
  using assms
proof induction
  case (steps_start s1 token family sub now tok s2)
  then show ?case by (auto simp: startSession_def inv_insert spent_insert)
next
  case (steps_rotate s1 nextToken raw now res s2)
  then have s1: "inv s1" "spent s1 h" by simp_all
  from rotateSession_cases [OF steps_rotate(3)] show ?case
  proof (elim disjE exE conjE)
    fix r
    assume s2: "s2 = insert_session S (markUsed S s1 (sha raw)) \<lparr> tokenHash = sha nextToken,
        familyId = familyId r, sr_sub = sr_sub r, sr_used = False, sr_expiresAt = now + ttl \<rparr>"
    show ?thesis
      using s1 steps_rotate(2) unfolding s2
      by (auto intro!: spent_insert inv_insert simp: inv_markUsed fresh_markUsed spent_markUsed)
  next
    fix r
    assume "s2 = burnFamily S s1 (familyId r)"
    then show ?thesis using s1 by (simp add: inv_burn spent_def find_burn seen_burn)
  qed (simp_all add: s1)
next
  case (steps_burn s1 s2 family)
  then have s1: "inv s1" "spent s1 h" by simp_all
  show ?case using s1 by (simp add: steps_burn(2) inv_burn spent_def find_burn seen_burn)
next
  case (steps_revoke s1 u now n s2)
  then have s1: "inv s1" "spent s1 h" by simp_all
  have s2: "s2 = snd (revokeAllForUser S s1 u now)" using steps_revoke(2) by simp
  show ?case using s1 by (simp add: s2 inv_revoke spent_def find_revoke seen_revoke)
qed simp

text \<open>A rotated token never rotates again; presenting it while its family lives burns the family.\<close>

lemma rotated_token_is_spent:
  assumes "inv s" "fresh s (sha nextToken)"
    "rotateSession S sha ttl s raw nextToken now = (Inr ok, s1)"
    "session_steps S fresh sha ttl s1 s2"
    "rotateSession S sha ttl s2 raw next' now' = (res, s3)"
  shows "res = Inl Invalid \<and> s3 = s2 \<or>
    res = Inl Reuse \<and> (\<exists>r. findByHash S s2 (sha raw) = Some r \<and>
      (\<forall>h q. findByHash S s3 h = Some q \<longrightarrow> familyId q \<noteq> familyId r))"
proof -
  from rotateSession_cases [OF assms(3)] obtain r where r: "findByHash S s (sha raw) = Some r"
    and s1: "s1 = insert_session S (markUsed S s (sha raw)) \<lparr> tokenHash = sha nextToken,
        familyId = familyId r, sr_sub = sr_sub r, sr_used = False, sr_expiresAt = now + ttl \<rparr>"
    by auto
  have "\<not> fresh s (sha raw)" using fresh_none [OF assms(1)] r by fastforce
  then have m: "inv (markUsed S s (sha raw))" "spent (markUsed S s (sha raw)) (sha raw)"
    using assms(1) r by (simp_all add: inv_markUsed spent_def fresh_markUsed find_markUsed)
  have "inv s1 \<and> spent s1 (sha raw)"
    unfolding s1 using m assms(1,2) by (auto intro!: spent_insert inv_insert simp: fresh_markUsed)
  then have s2: "inv s2" "spent s2 (sha raw)" using steps_spent [OF assms(4)] by blast+
  from rotateSession_cases [OF assms(5)] show ?thesis
  proof (elim disjE exE conjE)
    fix q
    assume q: "findByHash S s2 (sha raw) = Some q" "res = Inl Reuse" "s3 = burnFamily S s2 (familyId q)"
    then show ?thesis using s2(1) by (auto simp: find_burn)
  qed (use s2(2) in \<open>auto simp: spent_def\<close>)
qed

end

subsection \<open>Both stores keep the contract\<close>

definition memory_inv :: "(string \<rightharpoonup> SessionRecord) \<Rightarrow> bool" where
  "memory_inv m \<longleftrightarrow> (\<forall>h r. m h = Some r \<longrightarrow> tokenHash r = h)"

lemma drop_where_Some: "drop_where p m h = Some r \<longleftrightarrow> m h = Some r \<and> \<not> p r"
  by (simp add: drop_where_def split: option.splits) auto

interpretation memory_sessions: session_store memory_sessions memory_inv "\<lambda>m h. m h = None"
  by unfold_locales (auto simp: memory_sessions_def memory_inv_def drop_where_Some)

definition session_table_inv :: "SessionRow list \<Rightarrow> bool" where
  "session_table_inv t \<longleftrightarrow> distinct (map as_hash t)"

definition unseen :: "SessionRow list \<Rightarrow> string \<Rightarrow> bool" where
  "unseen t h \<longleftrightarrow> h \<notin> as_hash ` set t"

lemma pg_find_iff:
  assumes "session_table_inv t"
  shows "pg_findByHash t h = Some r \<longleftrightarrow>
    (\<exists>q \<in> set t. as_hash q = h \<and> \<not> as_revoked q \<and> session_of q = r)"
proof
  assume "pg_findByHash t h = Some r"
  then show "\<exists>q \<in> set t. as_hash q = h \<and> \<not> as_revoked q \<and> session_of q = r"
    by (auto simp: pg_findByHash_def dest: find_Some_in_set)
next
  assume "\<exists>q \<in> set t. as_hash q = h \<and> \<not> as_revoked q \<and> session_of q = r"
  then obtain q where q: "q \<in> set t" "as_hash q = h \<and> \<not> as_revoked q" "session_of q = r" by blast
  have "\<forall>p \<in> set t. as_hash p = h \<and> \<not> as_revoked p \<longrightarrow> p = q"
    using assms q(1,2) by (auto simp: session_table_inv_def distinct_map dest: inj_onD)
  then have "find (\<lambda>r. as_hash r = h \<and> \<not> as_revoked r) t = Some q"
    by (intro find_unique q(1,2))
  with q(3) show "pg_findByHash t h = Some r" by (simp add: pg_findByHash_def)
qed

lemma option_eqI: "(\<And>r. x = Some r \<longleftrightarrow> y = Some r) \<Longrightarrow> x = y"
  by (cases x; cases y) auto

lemma map_hash_update [table_simps]:
  "map as_hash (sql_update p (\<lambda>r. r\<lparr>as_rotated := True\<rparr>) t) = map as_hash t"
  "map as_hash (sql_update p (\<lambda>r. r\<lparr>as_revoked := True\<rparr>) t) = map as_hash t"
  by (induction t) auto

lemma image_hash_update [table_simps]:
  "as_hash ` set (sql_update p (\<lambda>r. r\<lparr>as_rotated := True\<rparr>) t) = as_hash ` set t"
  "as_hash ` set (sql_update p (\<lambda>r. r\<lparr>as_revoked := True\<rparr>) t) = as_hash ` set t"
  using map_hash_update by (metis set_map)+

lemmas pg_session_defs = pg_insert_session_def pg_markUsed_def pg_burnFamily_def pg_revokeAllForUser_def

lemma pg_sessions_inv:
  "session_table_inv t \<Longrightarrow> unseen t (tokenHash r) \<Longrightarrow> session_table_inv (pg_insert_session t r)"
  "session_table_inv t \<Longrightarrow> session_table_inv (pg_markUsed t h)"
  "session_table_inv t \<Longrightarrow> session_table_inv (pg_burnFamily t f)"
  "session_table_inv t \<Longrightarrow> session_table_inv (snd (pg_revokeAllForUser t u now))"
  by (simp_all add: session_table_inv_def unseen_def pg_session_defs table_simps)

lemma pg_find_insert:
  assumes "session_table_inv t" "unseen t (tokenHash r)" "\<not> sr_used r"
  shows "pg_findByHash (pg_insert_session t r) h =
    (if h = tokenHash r then Some r else pg_findByHash t h)"
proof (rule option_eqI)
  fix q
  show "pg_findByHash (pg_insert_session t r) h = Some q \<longleftrightarrow>
      (if h = tokenHash r then Some r else pg_findByHash t h) = Some q"
    using assms unfolding pg_find_iff [OF pg_sessions_inv(1) [OF assms(1,2)]]
    by (auto simp: pg_find_iff pg_insert_session_def unseen_def session_of_def image_iff)
qed

lemma pg_find_markUsed:
  assumes "session_table_inv t"
  shows "pg_findByHash (pg_markUsed t k) h =
    (if h = k then map_option (sr_used_update (\<lambda>_. True)) (pg_findByHash t k) else pg_findByHash t h)"
proof (rule option_eqI)
  fix q
  show "pg_findByHash (pg_markUsed t k) h = Some q \<longleftrightarrow>
      (if h = k then map_option (sr_used_update (\<lambda>_. True)) (pg_findByHash t k) else pg_findByHash t h) = Some q"
    unfolding pg_find_iff [OF pg_sessions_inv(2) [OF assms]]
    by (auto simp: pg_find_iff [OF assms] pg_markUsed_def bex_sql_update session_of_def split: if_splits)
qed

lemma pg_find_burn:
  assumes "session_table_inv t"
  shows "pg_findByHash (pg_burnFamily t f) h = Some r \<longleftrightarrow> pg_findByHash t h = Some r \<and> familyId r \<noteq> f"
  unfolding pg_find_iff [OF pg_sessions_inv(3) [OF assms]] pg_find_iff [OF assms]
  by (auto simp: pg_burnFamily_def bex_sql_update session_of_def split: if_splits)

lemma pg_find_revoke:
  assumes "session_table_inv t"
  shows "pg_findByHash (snd (pg_revokeAllForUser t u now)) h = Some r \<longleftrightarrow>
    pg_findByHash t h = Some r \<and> sr_sub r \<noteq> u"
  unfolding pg_find_iff [OF pg_sessions_inv(4) [OF assms]] pg_find_iff [OF assms]
  by (auto simp: pg_revokeAllForUser_def bex_sql_update session_of_def split: if_splits)

interpretation pg_sessions: durable_session_store pg_sessions session_table_inv unseen
proof
  fix s h r
  show "session_table_inv s \<Longrightarrow> findByHash pg_sessions s h = Some r \<Longrightarrow> tokenHash r = h"
    by (auto simp: pg_sessions_def pg_find_iff session_of_def)
  show "session_table_inv s \<Longrightarrow> unseen s h \<Longrightarrow> findByHash pg_sessions s h = None"
    by (auto simp: pg_sessions_def pg_findByHash_def find_None_iff unseen_def)
qed (simp_all add: pg_sessions_def pg_find_insert pg_find_markUsed pg_find_burn pg_find_revoke
    pg_sessions_inv, auto simp: unseen_def pg_session_defs table_simps)

lemma pg_session_ops [simp]:
  "findByHash pg_sessions = pg_findByHash" "insert_session pg_sessions = pg_insert_session"
  "markUsed pg_sessions = pg_markUsed" "burnFamily pg_sessions = pg_burnFamily"
  "revokeAllForUser pg_sessions = pg_revokeAllForUser"
  by (simp_all add: pg_sessions_def)

lemma empty_sessions: "session_table_inv []" "one_live (pg_findByHash [])"
  by (simp_all add: session_table_inv_def one_live_def pg_findByHash_def)

text \<open>A small history: a login, then one rotation.\<close>

definition sample_login :: "SessionRow list" where
  "sample_login = snd (startSession pg_sessions id 100 [] ''u1'' ''t1'' ''f1'' 0)"

definition sample_rotated :: "SessionRow list" where
  "sample_rotated = snd (rotateSession pg_sessions id 100 sample_login ''t1'' ''t2'' 1)"

lemma sample_rotation:
  "rotateSession pg_sessions id 100 sample_login ''t1'' ''t2'' 1 = (Inr (''u1'', ''t2''), sample_rotated)"
  by code_simp

lemma sample_login_steps: "session_steps pg_sessions unseen id 100 [] sample_login"
  by (rule steps_start [OF steps_refl, where token = "''t1''" and family = "''f1''" and sub = "''u1''"
        and now = 0 and tok = "''t1''"])
    (simp_all add: sample_login_def startSession_def unseen_def pg_findByHash_def)

lemma sample_rotated_steps: "session_steps pg_sessions unseen id 100 [] sample_rotated"
proof (rule steps_rotate [OF sample_login_steps _ sample_rotation])
  show "unseen sample_login (id ''t2'')"
    by (simp add: unseen_def sample_login_def startSession_def pg_insert_session_def)
qed

text \<open>
  C26. Whatever sequence of logins, rotations (by anyone), burnt families and revoked users the
  session table has seen, all findable tokens of a family belong to one user and at most one of them
  is still usable.
\<close>

theorem at_most_one_usable_token:
  assumes "session_steps pg_sessions unseen sha ttl [] t"
    and "pg_findByHash t h = Some r" "pg_findByHash t h' = Some r'" "familyId r = familyId r'"
  shows "sr_sub r = sr_sub r' \<and> (\<not> sr_used r \<and> \<not> sr_used r' \<longrightarrow> h = h')"
proof -
  have "one_live (findByHash pg_sessions t)"
    using pg_sessions.steps_one_live [OF assms(1)] empty_sessions by simp
  from one_liveD [OF this, of h r h' r'] show ?thesis using assms(2-4) by simp
qed

theorem at_most_one_usable_token_witness:
  "\<exists>r r'. pg_findByHash sample_rotated ''t1'' = Some r \<and> pg_findByHash sample_rotated ''t2'' = Some r' \<and>
     familyId r = familyId r' \<and> sr_sub r = sr_sub r'"
proof -
  let ?r = "\<lparr> tokenHash = ''t1'', familyId = ''f1'', sr_sub = ''u1'', sr_used = True, sr_expiresAt = 100 \<rparr>"
  let ?r' = "\<lparr> tokenHash = ''t2'', familyId = ''f1'', sr_sub = ''u1'', sr_used = False, sr_expiresAt = 101 \<rparr>"
  have r: "pg_findByHash sample_rotated ''t1'' = Some ?r" "pg_findByHash sample_rotated ''t2'' = Some ?r'"
    by code_simp+
  have f: "familyId ?r = familyId ?r'" by simp
  have "sr_sub ?r = sr_sub ?r'"
    using at_most_one_usable_token [OF sample_rotated_steps r f] by (rule conjunct1)
  with r f show ?thesis by (intro exI conjI)
qed

text \<open>
  Reuse detection: once a token has been rotated, it never rotates again, whatever happens in
  between. Presenting it either finds nothing (its family is already burnt) or is reported as reuse and
  burns its whole family: afterwards no token of that family can be found by anyone.
\<close>

theorem rotated_token_never_rotates_again:
  assumes "session_steps pg_sessions unseen sha ttl [] t" "unseen t (sha nextToken)"
    and "rotateSession pg_sessions sha ttl t raw nextToken now = (Inr ok, t1)"
    and "session_steps pg_sessions unseen sha ttl t1 t2"
    and "rotateSession pg_sessions sha ttl t2 raw next' now' = (res, t3)"
  shows "(res = Inl Invalid \<and> t3 = t2) \<or>
    (res = Inl Reuse \<and> (\<exists>r. pg_findByHash t2 (sha raw) = Some r \<and>
       (\<forall>h q. pg_findByHash t3 h = Some q \<longrightarrow> familyId q \<noteq> familyId r)))"
proof -
  have "session_table_inv t"
    using pg_sessions.steps_one_live [OF assms(1)] empty_sessions by simp
  then show ?thesis
    using pg_sessions.rotated_token_is_spent [OF _ assms(2-5)] by simp
qed

theorem rotated_token_never_rotates_again_witness:
  "fst (rotateSession pg_sessions id 100 sample_rotated ''t1'' ''t3'' 2) = Inl Reuse"
proof -
  obtain res t3 where rot: "rotateSession pg_sessions id 100 sample_rotated ''t1'' ''t3'' 2 = (res, t3)"
    by (cases "rotateSession pg_sessions id 100 sample_rotated ''t1'' ''t3'' 2")
  have "unseen sample_login (id ''t2'')"
    by (simp add: unseen_def sample_login_def startSession_def pg_insert_session_def)
  note spent = rotated_token_never_rotates_again [OF sample_login_steps this sample_rotation steps_refl rot]
  have "fst (rotateSession pg_sessions id 100 sample_rotated ''t1'' ''t3'' 2) \<noteq> Inl Invalid"
    by code_simp
  with spent rot show ?thesis by auto
qed

text \<open>
  The refresh route's transaction keeps what must stay and undoes the rest: a rotation and the
  burning of a reused family are committed, a suspended owner, an unknown and an expired token leave
  the table as it was, and a suspended owner never gets a new token.
\<close>

theorem refresh_route_transaction:
  assumes "session_table_inv t" "refresh_route sha ttl suspended t raw nextToken now = (reply, t')"
  shows "(case reply of
       TokenReused \<Rightarrow> (\<exists>r. pg_findByHash t (sha raw) = Some r \<and> sr_used r \<and>
         (\<forall>h q. pg_findByHash t' h = Some q \<longleftrightarrow> pg_findByHash t h = Some q \<and> familyId q \<noteq> familyId r))
     | Rotated u token \<Rightarrow> token = nextToken \<and> \<not> suspended u \<and>
         (\<exists>r. pg_findByHash t (sha raw) = Some r \<and> sr_sub r = u \<and> \<not> sr_used r \<and> now < sr_expiresAt r)
     | UserSuspended \<Rightarrow> t' = t \<and> (\<exists>q \<in> set t. as_hash q = sha raw \<and> suspended (as_user q))
     | Unauthorized \<Rightarrow> t' = t \<and> (\<forall>r. pg_findByHash t (sha raw) = Some r \<longrightarrow> sr_expiresAt r \<le> now \<and> \<not> sr_used r))"
proof (cases "refreshOwnerSuspended sha suspended t raw")
  case True
  then have "\<exists>q \<in> set t. as_hash q = sha raw \<and> suspended (as_user q)"
    by (auto simp: refreshOwnerSuspended_def split: option.splits dest: find_Some_in_set)
  then show ?thesis using assms(2) True by (simp add: refresh_route_def split: RefreshReply.splits)
next
  case False
  have owner: "\<not> suspended (sr_sub r)" if "pg_findByHash t (sha raw) = Some r" for r
  proof -
    from that pg_find_iff [OF assms(1)] obtain q where q: "q \<in> set t" "as_hash q = sha raw" "session_of q = r"
      by blast
    have "\<forall>p \<in> set t. as_hash p = sha raw \<longrightarrow> p = q"
      using assms(1) q(1,2) unfolding session_table_inv_def distinct_map by (metis inj_on_eq_iff)
    then have "find (\<lambda>r. as_hash r = sha raw) t = Some q" by (intro find_unique q(1,2))
    with False q(3) show ?thesis by (auto simp: refreshOwnerSuspended_def session_of_def)
  qed
  obtain res t1 where rot: "rotateSession pg_sessions sha ttl t raw nextToken now = (res, t1)"
    by (cases "rotateSession pg_sessions sha ttl t raw nextToken now")
  from rotateSession_cases [OF rot] show ?thesis
    using assms(2) False rot owner pg_find_burn [OF assms(1)]
    by (elim disjE exE conjE) (auto simp: refresh_route_def)
qed

theorem refresh_route_transaction_witness:
  "fst (refresh_route id 100 (\<lambda>_. False) sample_rotated ''t1'' ''t3'' 2) = TokenReused \<and>
   (\<nexists>h q. pg_findByHash (snd (refresh_route id 100 (\<lambda>_. False) sample_rotated ''t1'' ''t3'' 2)) h = Some q \<and>
      familyId q = ''f1'')"
proof -
  obtain t' where run: "refresh_route id 100 (\<lambda>_. False) sample_rotated ''t1'' ''t3'' 2 = (TokenReused, t')"
  proof -
    have "fst (refresh_route id 100 (\<lambda>_. False) sample_rotated ''t1'' ''t3'' 2) = TokenReused" by code_simp
    then show ?thesis
      using that by (cases "refresh_route id 100 (\<lambda>_. False) sample_rotated ''t1'' ''t3'' 2") simp
  qed
  have inv: "session_table_inv sample_rotated"
    using pg_sessions.steps_one_live [OF sample_rotated_steps] empty_sessions by simp
  have "map_option familyId (pg_findByHash sample_rotated (id ''t1'')) = Some ''f1''" by code_simp
  with refresh_route_transaction [OF inv run] show ?thesis by (auto simp: run)
qed

end
