(* ===== verification/Access.thy ===== *)
theory Access
  imports HB_Prelude
begin

text \<open>
  Who may do what on a board. The role computation of \<open>packages/auth-core/src/roles.ts\<close>, the reader
  over the database tables of \<open>packages/board-access-db/src/index.ts\<close>, the authority of
  \<open>packages/auth-core/src/board-authority.ts\<close> with its in-memory reader, the guards of
  \<open>apps/api/src/services/boards.ts\<close> with the support-view audit row, the document policy of
  \<open>apps/realtime/src/permission.ts\<close> and the client's table of
  \<open>packages/canvas-sync/src/permissions.ts\<close>. Roles are ordered by \<open>RANK\<close>, as an instance of the class
  \<open>linorder\<close>.
\<close>

subsection \<open>Roles\<close>

datatype BoardRole = owner | editor | commenter | viewer

datatype TeamRole = team_owner | team_admin | team_member | team_guest

datatype BoardAccessMode = mode_private | mode_team | mode_link_view | mode_link_edit

fun RANK :: "BoardRole \<Rightarrow> nat" where
  "RANK owner = 3"
| "RANK editor = 2"
| "RANK commenter = 1"
| "RANK viewer = 0"

lemma RANK_inj: "RANK r = RANK s \<Longrightarrow> r = s"
  by (cases r; cases s) simp_all

instantiation BoardRole :: linorder
begin

definition less_eq_BoardRole :: "BoardRole \<Rightarrow> BoardRole \<Rightarrow> bool" where
  "less_eq_BoardRole r s \<longleftrightarrow> RANK r \<le> RANK s"

definition less_BoardRole :: "BoardRole \<Rightarrow> BoardRole \<Rightarrow> bool" where
  "less_BoardRole r s \<longleftrightarrow> RANK r < RANK s"

instance
  by standard (auto simp: less_eq_BoardRole_def less_BoardRole_def dest: RANK_inj)

end

lemmas role_order = less_eq_BoardRole_def less_BoardRole_def

record BoardAccessInput =
  isStaff :: bool
  isSuspended :: bool
  isBoardOwner :: bool
  accessMode :: BoardAccessMode
  directRole :: "BoardRole option"
  teamRole :: "TeamRole option"
  hasValidLink :: bool

fun mapTeamRole :: "TeamRole \<Rightarrow> BoardRole" where
  "mapTeamRole team_owner = editor"
| "mapTeamRole team_admin = editor"
| "mapTeamRole team_member = editor"
| "mapTeamRole team_guest = viewer"

definition maxRole :: "BoardRole list \<Rightarrow> BoardRole option" where
  "maxRole roles =
     (case roles of
        [] \<Rightarrow> None
      | r # rest \<Rightarrow> Some (foldl (\<lambda>best r. if RANK r > RANK best then r else best) r rest))"

definition effectiveBoardRole :: "BoardAccessInput \<Rightarrow> BoardRole option" where
  "effectiveBoardRole inp =
     (if isSuspended inp then None
      else
        (let c1 = (if isStaff inp then [viewer] else []);
             c2 = (if isBoardOwner inp then [owner] else []);
             c3 = (case directRole inp of None \<Rightarrow> [] | Some r \<Rightarrow> [r]);
             c4 = (case teamRole inp of
                     None \<Rightarrow> []
                   | Some r \<Rightarrow> if accessMode inp = mode_team then [mapTeamRole r] else []);
             c5 = (if hasValidLink inp
                   then (if accessMode inp = mode_link_view then [viewer]
                         else if accessMode inp = mode_link_edit then [editor] else [])
                   else [])
         in maxRole (c1 @ c2 @ c3 @ c4 @ c5)))"

subsection \<open>Reading the tables\<close>

text \<open>
  The rows the query joins; \<open>(board_id, user_id)\<close> and \<open>(team_id, user_id)\<close> are primary keys, so each
  \<open>LEFT JOIN\<close> finds at most one row. Columns the query does not select are left out.
\<close>

record BoardRow =
  b_id :: string
  b_created_by :: string
  b_team_id :: "string option"
  b_access_mode :: BoardAccessMode
  b_link_token_hash :: "string option"
  b_deleted :: bool

record AccessTables =
  t_boards :: "BoardRow list"
  t_users :: "(string \<times> bool \<times> string) list"
  t_board_members :: "(string \<times> string \<times> BoardRole) list"
  t_team_members :: "(string \<times> string \<times> TeamRole) list"
  t_link_grants :: "(string \<times> string \<times> string) list"

definition lookup2 :: "(string \<times> string \<times> 'a) list \<Rightarrow> string \<Rightarrow> string \<Rightarrow> 'a option" where
  "lookup2 rows a b = map_option (\<lambda>(_, _, v). v) (find (\<lambda>(x, y, _). x = a \<and> y = b) rows)"

definition pg_access_read :: "AccessTables \<Rightarrow> string \<Rightarrow> string \<Rightarrow> BoardAccessInput option" where
  "pg_access_read db sub boardId =
     (case find (\<lambda>b. b_id b = boardId \<and> \<not> b_deleted b) (t_boards db) of
        None \<Rightarrow> None
      | Some b \<Rightarrow>
          (let u = map_of (t_users db) sub;
               lg = lookup2 (t_link_grants db) (b_id b) sub
           in Some \<lparr> isStaff = (case u of None \<Rightarrow> False | Some (staff, _) \<Rightarrow> staff),
                     isSuspended = (case u of None \<Rightarrow> False | Some (_, status) \<Rightarrow> status = ''suspended''),
                     isBoardOwner = (b_created_by b = sub),
                     accessMode = b_access_mode b,
                     directRole = lookup2 (t_board_members db) (b_id b) sub,
                     teamRole = (case b_team_id b of
                        None \<Rightarrow> None | Some team \<Rightarrow> lookup2 (t_team_members db) team sub),
                     hasValidLink = (lg \<noteq> None \<and> b_link_token_hash b \<noteq> None \<and> lg = b_link_token_hash b) \<rparr>))"

text \<open>The authority of the realtime server, over any reader; and the reader of tests and demos.\<close>

definition currentRole ::
  "(string \<Rightarrow> string \<Rightarrow> BoardAccessInput option) \<Rightarrow> string \<Rightarrow> string \<Rightarrow> BoardRole option" where
  "currentRole reader sub boardId =
     (case reader sub boardId of None \<Rightarrow> None | Some inp \<Rightarrow> effectiveBoardRole inp)"

definition roleToInput :: "BoardRole option \<Rightarrow> BoardAccessInput option" where
  "roleToInput role =
     (case role of
        None \<Rightarrow> None
      | Some r \<Rightarrow> Some \<lparr> isStaff = False, isSuspended = False, isBoardOwner = (r = owner),
          accessMode = mode_private, directRole = (if r = owner then None else Some r),
          teamRole = None, hasValidLink = False \<rparr>)"

type_synonym memory_reader = "string \<rightharpoonup> BoardAccessInput option"

definition reader_key :: "string \<Rightarrow> string \<Rightarrow> string" where
  "reader_key sub boardId = boardId @ '' '' @ sub"

definition memory_read :: "memory_reader \<Rightarrow> string \<Rightarrow> string \<Rightarrow> BoardAccessInput option" where
  "memory_read m sub boardId = get_or None m (reader_key sub boardId)"

definition memory_set :: "memory_reader \<Rightarrow> string \<Rightarrow> string \<Rightarrow> BoardRole option \<Rightarrow> memory_reader" where
  "memory_set m sub boardId role = m(reader_key sub boardId \<mapsto> roleToInput role)"

definition memory_clear :: "memory_reader \<Rightarrow> string \<Rightarrow> string \<Rightarrow> memory_reader" where
  "memory_clear m sub boardId = m(reader_key sub boardId := None)"

subsection \<open>The guards of the HTTP service\<close>

record AuditRow =
  al_actor :: string
  al_action :: string
  al_target_type :: string
  al_target_id :: string
  al_created_at :: epoch_ms

datatype BoardError = BOARD_NOT_FOUND | FORBIDDEN

definition isStaffOnlyAccess :: "BoardAccessInput \<Rightarrow> bool" where
  "isStaffOnlyAccess inp \<longleftrightarrow> isStaff inp \<and> effectiveBoardRole (inp\<lparr>isStaff := False\<rparr>) = None"

definition SUPPORT_VIEW_WINDOW_MINUTES :: int where "SUPPORT_VIEW_WINDOW_MINUTES = 10"

definition is_recent_view :: "string \<Rightarrow> string \<Rightarrow> epoch_ms \<Rightarrow> AuditRow \<Rightarrow> bool" where
  "is_recent_view user boardId now r \<longleftrightarrow>
     al_actor r = user \<and> al_action r = ''support.board.view'' \<and> al_target_type r = ''board'' \<and>
     al_target_id r = boardId \<and> al_created_at r > now - SUPPORT_VIEW_WINDOW_MINUTES * 60000"

definition recordSupportView ::
  "AuditRow list \<Rightarrow> string \<Rightarrow> string \<Rightarrow> epoch_ms \<Rightarrow> AuditRow list" where
  "recordSupportView audit user boardId now =
     (if find (is_recent_view user boardId now) audit \<noteq> None then audit
      else audit @ [\<lparr> al_actor = user, al_action = ''support.board.view'', al_target_type = ''board'',
                      al_target_id = boardId, al_created_at = now \<rparr>])"

definition requireBoardRole ::
  "(string \<Rightarrow> string \<Rightarrow> BoardAccessInput option) \<Rightarrow> AuditRow list \<Rightarrow> string \<Rightarrow> string \<Rightarrow> BoardRole \<Rightarrow>
     epoch_ms \<Rightarrow> (BoardError + BoardRole) \<times> AuditRow list" where
  "requireBoardRole reader audit sub boardId minRole now =
     (case reader sub boardId of
        None \<Rightarrow> (Inl BOARD_NOT_FOUND, audit)
      | Some inp \<Rightarrow>
          (case effectiveBoardRole inp of
             None \<Rightarrow> (Inl FORBIDDEN, audit)
           | Some role \<Rightarrow>
               if RANK role < RANK minRole then (Inl FORBIDDEN, audit)
               else (Inr role, if isStaffOnlyAccess inp then recordSupportView audit sub boardId now
                               else audit)))"

definition assertDeletedBoardOwner :: "AccessTables \<Rightarrow> string \<Rightarrow> string \<Rightarrow> BoardError + unit" where
  "assertDeletedBoardOwner db sub boardId =
     (case find (\<lambda>b. b_id b = boardId \<and> b_deleted b) (t_boards db) of
        None \<Rightarrow> Inl BOARD_NOT_FOUND
      | Some b \<Rightarrow>
          if b_created_by b \<noteq> sub \<and> lookup2 (t_board_members db) (b_id b) sub \<noteq> Some owner
          then Inl FORBIDDEN else Inr ())"

subsection \<open>The document policy and the client's table\<close>

text \<open>A role arrives as any value; only the four known words are roles.\<close>

definition BOARD_ROLES :: "(string \<times> BoardRole) list" where
  "BOARD_ROLES = [(''owner'', owner), (''editor'', editor), (''commenter'', commenter), (''viewer'', viewer)]"

definition role_of :: "string \<Rightarrow> BoardRole option" where
  "role_of s = map_of BOARD_ROLES s"

definition WRITERS :: "BoardRole list" where "WRITERS = [owner, editor]"

definition mayWriteDocument :: "string \<Rightarrow> bool" where
  "mayWriteDocument role = (case role_of role of None \<Rightarrow> False | Some r \<Rightarrow> r \<in> set WRITERS)"

definition mayBroadcastPresence :: "string \<Rightarrow> bool" where
  "mayBroadcastPresence role \<longleftrightarrow> role_of role \<noteq> None"

record CanvasPermissions =
  canEdit :: bool
  canComment :: bool
  canExport :: bool
  canManageAccess :: bool

definition CLIENT_WRITERS :: "BoardRole list" where "CLIENT_WRITERS = [owner, editor]"
definition COMMENTERS :: "BoardRole list" where "COMMENTERS = [owner, editor, commenter]"
definition MANAGERS :: "BoardRole list" where "MANAGERS = [owner]"

definition READ_ONLY_PERMISSIONS :: CanvasPermissions where
  "READ_ONLY_PERMISSIONS = \<lparr> canEdit = False, canComment = False, canExport = True, canManageAccess = False \<rparr>"

definition permissionsForRole :: "string \<Rightarrow> CanvasPermissions" where
  "permissionsForRole role =
     (case role_of role of
        None \<Rightarrow> READ_ONLY_PERMISSIONS
      | Some known \<Rightarrow> \<lparr> canEdit = (known \<in> set CLIENT_WRITERS), canComment = (known \<in> set COMMENTERS),
                       canExport = True, canManageAccess = (known \<in> set MANAGERS) \<rparr>)"

subsection \<open>The effective role\<close>

text \<open>The roles the sources of access grant, as a set.\<close>

definition granted :: "BoardAccessInput \<Rightarrow> BoardRole set" where
  "granted inp =
     {r. (isStaff inp \<and> r = viewer) \<or> (isBoardOwner inp \<and> r = owner) \<or> directRole inp = Some r \<or>
         (accessMode inp = mode_team \<and> map_option mapTeamRole (teamRole inp) = Some r) \<or>
         (hasValidLink inp \<and> accessMode inp = mode_link_view \<and> r = viewer) \<or>
         (hasValidLink inp \<and> accessMode inp = mode_link_edit \<and> r = editor)}"

lemma foldl_max_role:
  "foldl (\<lambda>best r. if RANK r > RANK best then r else best) b rs = Max (set (b # rs))"
proof (induction rs arbitrary: b)
  case (Cons r rs)
  have "(if RANK r > RANK b then r else b) = max b r"
    by (auto simp: max_def role_order dest: RANK_inj)
  then have "foldl (\<lambda>best r. if RANK r > RANK best then r else best) b (r # rs) = Max (set (max b r # rs))"
    using Cons.IH [of "max b r"] by simp
  also have "\<dots> = Max (set (b # r # rs))"
    by (cases "rs = []") (simp_all add: max.assoc)
  finally show ?case .
qed simp

lemma maxRole_eq: "maxRole rs = (if rs = [] then None else Some (Max (set rs)))"
  by (simp add: maxRole_def foldl_max_role split: list.splits)

lemma effectiveBoardRole_eq:
  "effectiveBoardRole inp =
     (if isSuspended inp \<or> granted inp = {} then None else Some (Max (granted inp)))"
proof (cases "isSuspended inp")
  case True
  then show ?thesis by (simp add: effectiveBoardRole_def)
next
  case False
  define cs where "cs = (if isStaff inp then [viewer] else []) @ (if isBoardOwner inp then [owner] else []) @
    (case directRole inp of None \<Rightarrow> [] | Some r \<Rightarrow> [r]) @
    (case teamRole inp of None \<Rightarrow> [] | Some r \<Rightarrow> if accessMode inp = mode_team then [mapTeamRole r] else []) @
    (if hasValidLink inp then (if accessMode inp = mode_link_view then [viewer]
       else if accessMode inp = mode_link_edit then [editor] else []) else [])"
  have eff: "effectiveBoardRole inp = maxRole cs"
    using False by (simp only: effectiveBoardRole_def cs_def Let_def if_False)
  have "set cs = granted inp"
    by (cases "directRole inp"; cases "teamRole inp"; cases "accessMode inp")
      (auto simp: cs_def granted_def)
  then have "granted inp = {} \<longleftrightarrow> cs = []" by (metis set_empty)
  with eff False \<open>set cs = granted inp\<close> show ?thesis by (simp add: maxRole_eq)
qed

lemma finite_granted [simp]: "finite (granted inp)"
proof -
  have "r \<in> {owner, editor, commenter, viewer}" for r by (cases r) simp_all
  then have "granted inp \<subseteq> {owner, editor, commenter, viewer}" by blast
  then show ?thesis by (rule finite_subset) simp
qed

lemma effectiveBoardRole_Some_iff:
  "effectiveBoardRole inp = Some r \<longleftrightarrow>
     \<not> isSuspended inp \<and> r \<in> granted inp \<and> (\<forall>q \<in> granted inp. q \<le> r)"
proof (cases "granted inp = {}")
  case False
  then have "Max (granted inp) \<in> granted inp" by (intro Max_in) simp_all
  then obtain m where m: "m = Max (granted inp)" "m \<in> granted inp" "\<forall>q \<in> granted inp. q \<le> m"
    using Max_ge [OF finite_granted] by blast
  then show ?thesis
    using False unfolding effectiveBoardRole_eq m(1) [symmetric] by (auto intro: antisym)
qed (simp add: effectiveBoardRole_eq)

lemma effectiveBoardRole_None_iff:
  "effectiveBoardRole inp = None \<longleftrightarrow> isSuspended inp \<or> granted inp = {}"
  by (simp add: effectiveBoardRole_eq)

lemma le_editor_cases: "r \<le> (s :: BoardRole) \<longleftrightarrow> RANK r \<le> RANK s"
  by (simp add: role_order)

lemma writer_iff: "r \<in> set WRITERS \<longleftrightarrow> editor \<le> r"
  by (cases r) (simp_all add: role_order WRITERS_def)

lemma effective_writer_iff:
  "(\<exists>r. effectiveBoardRole inp = Some r \<and> editor \<le> r) \<longleftrightarrow>
     \<not> isSuspended inp \<and> (\<exists>r \<in> granted inp. editor \<le> r)"
proof
  assume "\<exists>r. effectiveBoardRole inp = Some r \<and> editor \<le> r"
  then show "\<not> isSuspended inp \<and> (\<exists>r \<in> granted inp. editor \<le> r)"
    by (auto simp: effectiveBoardRole_Some_iff)
next
  assume h: "\<not> isSuspended inp \<and> (\<exists>r \<in> granted inp. editor \<le> r)"
  then have ne: "granted inp \<noteq> {}" by blast
  with h have "effectiveBoardRole inp = Some (Max (granted inp))"
    by (simp add: effectiveBoardRole_eq)
  moreover have "editor \<le> Max (granted inp)"
    using h Max_ge [OF finite_granted] order_trans by blast
  ultimately show "\<exists>r. effectiveBoardRole inp = Some r \<and> editor \<le> r" by blast
qed

text \<open>
  The effective role is the greatest of the roles the sources grant, and nothing when the user is
  suspended, whatever else they are, or when no source grants anything. On a private board, team
  membership and links count for nothing. Staff alone is a viewer everywhere, and the staff flag never
  decides whether somebody may write.
\<close>

theorem effectiveBoardRole_spec:
  "(effectiveBoardRole inp =
      (if isSuspended inp \<or> granted inp = {} then None else Some (Max (granted inp)))) \<and>
   (accessMode inp = mode_private \<longrightarrow>
      effectiveBoardRole inp = effectiveBoardRole (inp\<lparr>teamRole := t, hasValidLink := l\<rparr>)) \<and>
   (granted (inp\<lparr>isStaff := False\<rparr>) = {} \<and> isStaff inp \<and> \<not> isSuspended inp \<longrightarrow>
      effectiveBoardRole inp = Some viewer) \<and>
   ((\<exists>r. effectiveBoardRole inp = Some r \<and> r \<in> set WRITERS) \<longleftrightarrow>
      (\<exists>r. effectiveBoardRole (inp\<lparr>isStaff := s\<rparr>) = Some r \<and> r \<in> set WRITERS))"
proof (intro conjI impI)
  show "effectiveBoardRole inp =
      (if isSuspended inp \<or> granted inp = {} then None else Some (Max (granted inp)))"
    by (rule effectiveBoardRole_eq)
  assume "accessMode inp = mode_private"
  then have "granted inp = granted (inp\<lparr>teamRole := t, hasValidLink := l\<rparr>)" by (auto simp: granted_def)
  then show "effectiveBoardRole inp = effectiveBoardRole (inp\<lparr>teamRole := t, hasValidLink := l\<rparr>)"
    by (simp add: effectiveBoardRole_eq)
next
  assume h: "granted (inp\<lparr>isStaff := False\<rparr>) = {} \<and> isStaff inp \<and> \<not> isSuspended inp"
  have "granted inp = insert viewer (granted (inp\<lparr>isStaff := False\<rparr>))"
    using h by (auto simp: granted_def)
  with h show "effectiveBoardRole inp = Some viewer" by (simp add: effectiveBoardRole_eq)
next
  have "\<not> editor \<le> viewer" by (simp add: role_order)
  then have "(\<exists>r \<in> granted inp. editor \<le> r) \<longleftrightarrow> (\<exists>r \<in> granted (inp\<lparr>isStaff := s\<rparr>). editor \<le> r)"
    by (auto simp: granted_def)
  then show "(\<exists>r. effectiveBoardRole inp = Some r \<and> r \<in> set WRITERS) \<longleftrightarrow>
      (\<exists>r. effectiveBoardRole (inp\<lparr>isStaff := s\<rparr>) = Some r \<and> r \<in> set WRITERS)"
    using effective_writer_iff [of inp] effective_writer_iff [of "inp\<lparr>isStaff := s\<rparr>"]
    by (simp add: writer_iff)
qed

definition sample_access :: BoardAccessInput where
  "sample_access = \<lparr> isStaff = True, isSuspended = False, isBoardOwner = False,
     accessMode = mode_private, directRole = None, teamRole = Some team_admin, hasValidLink = True \<rparr>"

theorem effectiveBoardRole_spec_witness: "effectiveBoardRole sample_access = Some viewer"
proof -
  have "granted (sample_access\<lparr>isStaff := False\<rparr>) = {} \<and> isStaff sample_access \<and> \<not> isSuspended sample_access"
    by (simp add: granted_def sample_access_def)
  with effectiveBoardRole_spec [where inp = sample_access] show ?thesis by blast
qed

subsection \<open>One decision for every entrance\<close>

lemma role_name_of: "(\<exists>s. role_of s = Some r)"
proof -
  have "role_of ''owner'' = Some owner" "role_of ''editor'' = Some editor"
    "role_of ''commenter'' = Some commenter" "role_of ''viewer'' = Some viewer"
    by (simp_all add: role_of_def BOARD_ROLES_def)
  then show ?thesis by (cases r) blast+
qed

text \<open>
  C36. HTTP and WebSocket decide alike over the same tables: an HTTP handler that requires \<open>editor\<close>
  lets a user through exactly when the realtime server's policy lets the same user write the document,
  and one that requires \<open>viewer\<close> exactly when the realtime server sees any role. The client's table
  offers editing for exactly the roles the server lets write, unknown ones included.
\<close>

theorem http_and_realtime_agree:
  assumes "role_of word = Some r"
  shows "((\<exists>q. fst (requireBoardRole (pg_access_read db) audit sub board editor now) = Inr q) \<longleftrightarrow>
      (\<exists>q. currentRole (pg_access_read db) sub board = Some q \<and> q \<in> set WRITERS)) \<and>
    ((\<exists>q. fst (requireBoardRole (pg_access_read db) audit sub board viewer now) = Inr q) \<longleftrightarrow>
      currentRole (pg_access_read db) sub board \<noteq> None) \<and>
    (mayWriteDocument word \<longleftrightarrow> r \<in> set WRITERS) \<and>
    (\<forall>w. canEdit (permissionsForRole w) = mayWriteDocument w)"
proof (intro conjI allI)
  have "RANK q < RANK editor \<longleftrightarrow> q \<notin> set WRITERS" for q
    by (cases q) (simp_all add: WRITERS_def)
  then show "(\<exists>q. fst (requireBoardRole (pg_access_read db) audit sub board editor now) = Inr q) \<longleftrightarrow>
      (\<exists>q. currentRole (pg_access_read db) sub board = Some q \<and> q \<in> set WRITERS)"
    by (simp add: requireBoardRole_def currentRole_def split: option.splits)
  show "(\<exists>q. fst (requireBoardRole (pg_access_read db) audit sub board viewer now) = Inr q) \<longleftrightarrow>
      currentRole (pg_access_read db) sub board \<noteq> None"
    by (simp add: requireBoardRole_def currentRole_def split: option.splits)
  show "mayWriteDocument word \<longleftrightarrow> r \<in> set WRITERS"
    using assms by (simp add: mayWriteDocument_def)
  show "canEdit (permissionsForRole w) = mayWriteDocument w" for w
    by (simp add: permissionsForRole_def mayWriteDocument_def READ_ONLY_PERMISSIONS_def
        CLIENT_WRITERS_def WRITERS_def split: option.splits)
qed

definition sample_tables :: AccessTables where
  "sample_tables = \<lparr> t_boards = [\<lparr> b_id = ''b1'', b_created_by = ''u1'', b_team_id = Some ''t1'',
       b_access_mode = mode_team, b_link_token_hash = None, b_deleted = False \<rparr>],
     t_users = [(''u1'', False, ''active''), (''u2'', False, ''active''), (''s'', True, ''active'')],
     t_board_members = [], t_team_members = [(''t1'', ''u2'', team_member)], t_link_grants = [] \<rparr>"

theorem http_and_realtime_agree_witness:
  "\<exists>q. fst (requireBoardRole (pg_access_read sample_tables) [] ''u2'' ''b1'' editor 0) = Inr q"
proof -
  have w: "role_of ''owner'' = Some owner" by (simp add: role_of_def BOARD_ROLES_def)
  have "currentRole (pg_access_read sample_tables) ''u2'' ''b1'' = Some editor" by code_simp
  moreover have "editor \<in> set WRITERS" by (simp add: WRITERS_def)
  ultimately show ?thesis
    using http_and_realtime_agree [OF w, of sample_tables "[]" "''u2''" "''b1''" 0] by blast
qed

text \<open>
  Whenever a staff member gets to see a board only because they are staff, the support view is on
  record: after the call there is an audit row of this viewer and board inside the window. Nobody else
  ever causes such a row, no row is ever changed or removed, and within one window a second view adds
  nothing.
\<close>

theorem support_view_recorded:
  assumes "pg_access_read db sub board = Some inp"
    and "requireBoardRole (pg_access_read db) audit sub board minRole now = (res, audit')"
  shows "(isStaffOnlyAccess inp \<and> (\<exists>r. res = Inr r) \<longrightarrow> (\<exists>row \<in> set audit'. is_recent_view sub board now row)) \<and>
    (\<exists>new. audit' = audit @ new \<and> length new \<le> 1 \<and> (\<not> isStaffOnlyAccess inp \<longrightarrow> new = [])) \<and>
    (isStaffOnlyAccess inp \<and> now \<le> later \<and> later < now + SUPPORT_VIEW_WINDOW_MINUTES * 60000 \<and>
       (\<exists>r. res = Inr r) \<and> \<not> (\<exists>row \<in> set audit. is_recent_view sub board now row) \<longrightarrow>
     snd (requireBoardRole (pg_access_read db) audit' sub board minRole later) = audit')"
proof -
  have rec: "\<exists>row \<in> set (recordSupportView audit sub board now). is_recent_view sub board now row"
  proof (cases "find (is_recent_view sub board now) audit")
    case None
    then show ?thesis
      by (simp add: recordSupportView_def is_recent_view_def SUPPORT_VIEW_WINDOW_MINUTES_def)
  next
    case (Some row)
    then show ?thesis by (auto simp: recordSupportView_def dest: find_Some_in_set)
  qed
  have again: "recordSupportView (recordSupportView audit sub board now) sub board later =
      recordSupportView audit sub board now"
    if "now \<le> later" "later < now + SUPPORT_VIEW_WINDOW_MINUTES * 60000"
      "\<not> (\<exists>row \<in> set audit. is_recent_view sub board now row)"
  proof -
    have none: "find (is_recent_view sub board now) audit = None"
      using that(3) by (auto simp: find_None_iff)
    let ?row = "\<lparr> al_actor = sub, al_action = ''support.board.view'', al_target_type = ''board'',
      al_target_id = board, al_created_at = now \<rparr>"
    have eq: "recordSupportView audit sub board now = audit @ [?row]"
      by (simp add: recordSupportView_def none)
    have "is_recent_view sub board later ?row" using that(2) by (simp add: is_recent_view_def)
    then have "find (is_recent_view sub board later) (audit @ [?row]) \<noteq> None"
      by (auto simp: find_None_iff)
    then show ?thesis unfolding eq by (simp add: recordSupportView_def)
  qed
  show ?thesis
    using assms rec again
    by (auto simp: requireBoardRole_def recordSupportView_def split: option.splits if_splits)
qed

theorem support_view_recorded_witness:
  "\<exists>row \<in> set (snd (requireBoardRole (pg_access_read sample_tables) [] ''s'' ''b1'' viewer 5)).
     is_recent_view ''s'' ''b1'' 5 row"
proof -
  obtain res audit' where run: "requireBoardRole (pg_access_read sample_tables) [] ''s'' ''b1'' viewer 5 = (res, audit')"
    by (cases "requireBoardRole (pg_access_read sample_tables) [] ''s'' ''b1'' viewer 5")
  have inp: "pg_access_read sample_tables ''s'' ''b1'' = Some \<lparr> isStaff = True, isSuspended = False,
      isBoardOwner = False, accessMode = mode_team, directRole = None, teamRole = None, hasValidLink = False \<rparr>"
    (is "_ = Some ?inp") by code_simp
  have "isStaffOnlyAccess ?inp" by code_simp
  moreover have "fst (requireBoardRole (pg_access_read sample_tables) [] ''s'' ''b1'' viewer 5) = Inr viewer"
    by code_simp
  then have "res = Inr viewer" using run by simp
  ultimately show ?thesis
    using support_view_recorded [OF inp run, THEN conjunct1] run by simp
qed

text \<open>The in-memory reader gives back the role that was set, and forgets a cleared one.\<close>

lemma memory_reader_laws:
  "memory_read (memory_set m sub b (Some r)) sub b \<noteq> None"
  "currentRole (memory_read (memory_set m sub b role)) sub b = role"
  "currentRole (memory_read (memory_clear m sub b)) sub b = None"
proof -
  have "effectiveBoardRole \<lparr> isStaff = False, isSuspended = False, isBoardOwner = (r = owner),
      accessMode = mode_private, directRole = (if r = owner then None else Some r),
      teamRole = None, hasValidLink = False \<rparr> = Some r" for r
    by (cases r) (simp_all add: effectiveBoardRole_def maxRole_def)
  then show "currentRole (memory_read (memory_set m sub b role)) sub b = role"
    by (simp add: currentRole_def memory_read_def memory_set_def roleToInput_def split: option.splits)
  show "memory_read (memory_set m sub b (Some r)) sub b \<noteq> None"
    by (simp add: memory_read_def memory_set_def roleToInput_def)
  show "currentRole (memory_read (memory_clear m sub b)) sub b = None"
    by (simp add: currentRole_def memory_read_def memory_clear_def get_or_def)
qed

end
