(* ===== verification/Workspace.thy ===== *)
theory Workspace
  imports Access
begin

text \<open>
  Teams, invitations, boards and their sharing: the routes of \<open>apps/api/src/routes/teams.ts\<close>, \<open>boards.ts\<close>,
  \<open>board-access.ts\<close> and \<open>folders.ts\<close> over the tables of \<open>migrations/0001_init.sql\<close>, with the plan limits of
  \<open>services/quota.ts\<close>. A route first checks the request, which leaves a write; other requests come in between, and then the
  write takes effect in one statement or transaction. The reads of one check are several statements in the code and
  one step here: a write of another request comes before or after a check, not between two of its reads. The open writes are part of the state, so a check can be out of date when its
  write happens. Where the write is a transaction that locks the row of the team, it holds everything from the
  lock on.

  Ids, tokens and clocks are inputs of a request; SHA-256 is a parameter. Bodies have the shape the
  schemas of \<open>shared-types\<close> give them; a title is its UTF-8 bytes. Reading routes have no effect and are left out.
\<close>

subsection \<open>Tables\<close>

record Limits =
  max_boards :: int
  max_members :: int
  max_storage_bytes :: int

record TeamRow =
  tm_id :: string
  tm_slug :: string
  tm_name :: string
  tm_owner_user_id :: string
  tm_is_personal :: bool
  tm_deleted :: bool

record InviteRow =
  iv_id :: string
  iv_team_id :: string
  iv_destination :: string
  iv_role :: TeamRole
  iv_token_hash :: string
  iv_invited_by :: string
  iv_expires_at :: epoch_ms
  iv_accepted_by :: "string option"

record FolderRow =
  fo_id :: string
  fo_team_id :: string
  fo_parent_id :: "string option"
  fo_name :: string
  fo_deleted :: bool

record FileRow =
  fl_id :: string
  fl_team_id :: string
  fl_storage_key :: string
  fl_size_bytes :: int
  fl_ready :: bool

text \<open>
  \<open>ws_access\<close> holds the tables the access reader joins; titles and folders of boards are in \<open>ws_meta\<close>.
  \<open>ws_subscriptions\<close> has the plan of each team with a running subscription. A file is \<open>fl_ready\<close> when it is ready and not deleted.
\<close>

record WsDb =
  ws_access :: AccessTables
  ws_meta :: "(string \<times> string \<times> string option) list"
  ws_teams :: "TeamRow list"
  ws_invites :: "InviteRow list"
  ws_folders :: "FolderRow list"
  ws_files :: "FileRow list"
  ws_deleted_users :: "string list"
  ws_subscriptions :: "(string \<times> string) list"
  ws_plans :: "(string \<times> Limits) list"

type_synonym ApiError = "nat \<times> string"

definition on_access :: "(AccessTables \<Rightarrow> AccessTables) \<Rightarrow> WsDb \<Rightarrow> WsDb" where
  "on_access f db = db\<lparr>ws_access := f (ws_access db)\<rparr>"

definition on_team_members :: "((string \<times> string \<times> TeamRole) list \<Rightarrow> (string \<times> string \<times> TeamRole) list) \<Rightarrow> WsDb \<Rightarrow> WsDb" where
  "on_team_members f = on_access (\<lambda>a. a\<lparr>t_team_members := f (t_team_members a)\<rparr>)"

definition on_board_members :: "((string \<times> string \<times> BoardRole) list \<Rightarrow> (string \<times> string \<times> BoardRole) list) \<Rightarrow> WsDb \<Rightarrow> WsDb" where
  "on_board_members f = on_access (\<lambda>a. a\<lparr>t_board_members := f (t_board_members a)\<rparr>)"

definition on_boards :: "(BoardRow list \<Rightarrow> BoardRow list) \<Rightarrow> WsDb \<Rightarrow> WsDb" where
  "on_boards f = on_access (\<lambda>a. a\<lparr>t_boards := f (t_boards a)\<rparr>)"

text \<open>Statements on a table whose primary key is a pair.\<close>

definition pair_is :: "string \<Rightarrow> string \<Rightarrow> string \<times> string \<times> 'a \<Rightarrow> bool" where
  "pair_is a b r \<longleftrightarrow> fst r = a \<and> fst (snd r) = b"

definition upsert2 :: "string \<Rightarrow> string \<Rightarrow> 'a \<Rightarrow> (string \<times> string \<times> 'a) list \<Rightarrow> (string \<times> string \<times> 'a) list" where
  "upsert2 a b v rows =
     (if find (pair_is a b) rows = None then rows @ [(a, b, v)] else sql_update (pair_is a b) (\<lambda>r. (a, b, v)) rows)"

definition update2 :: "string \<Rightarrow> string \<Rightarrow> 'a \<Rightarrow> (string \<times> string \<times> 'a) list \<Rightarrow> (string \<times> string \<times> 'a) list" where
  "update2 a b v = sql_update (pair_is a b) (\<lambda>r. (a, b, v))"

definition delete2 :: "string \<Rightarrow> string \<Rightarrow> (string \<times> string \<times> 'a) list \<Rightarrow> (string \<times> string \<times> 'a) list" where
  "delete2 a b = sql_delete (pair_is a b)"

lemma lookup2_pair: "lookup2 rows a b = map_option (\<lambda>r. snd (snd r)) (find (pair_is a b) rows)"
proof -
  have "find (\<lambda>(x, y, _). x = a \<and> y = b) rows = find (pair_is a b) rows" by (induction rows) (auto simp: pair_is_def)
  then show ?thesis by (cases "find (pair_is a b) rows") (auto simp: lookup2_def)
qed

lemma lookup2_update2: "lookup2 (update2 a b v rows) c d =
    (if a = c \<and> b = d then (if lookup2 rows a b = None then None else Some v) else lookup2 rows c d)"
  by (induction rows) (auto simp: lookup2_pair update2_def pair_is_def)

lemma lookup2_append: "lookup2 (rows @ [(a, b, v)]) c d =
    (case lookup2 rows c d of None \<Rightarrow> if a = c \<and> b = d then Some v else None | Some w \<Rightarrow> Some w)"
  by (induction rows) (auto simp: lookup2_pair pair_is_def)

lemma lookup2_upsert2: "lookup2 (upsert2 a b v rows) c d = (if a = c \<and> b = d then Some v else lookup2 rows c d)"
proof (cases "find (pair_is a b) rows")
  case None
  then have "lookup2 rows a b = None" by (simp add: lookup2_pair)
  then show ?thesis using None by (auto simp: upsert2_def lookup2_append split: option.split)
next
  case (Some r)
  then have "lookup2 rows a b \<noteq> None" "upsert2 a b v rows = update2 a b v rows"
    by (simp_all add: lookup2_pair upsert2_def update2_def)
  then show ?thesis by (auto simp: lookup2_update2)
qed

lemma lookup2_delete2: "lookup2 (delete2 a b rows) c d = (if a = c \<and> b = d then None else lookup2 rows c d)"
  by (induction rows) (auto simp: lookup2_pair delete2_def sql_delete_def pair_is_def)

subsection \<open>Roles in a team\<close>

fun team_rank :: "TeamRole \<Rightarrow> nat" where
  "team_rank team_owner = 3"
| "team_rank team_admin = 2"
| "team_rank team_member = 1"
| "team_rank team_guest = 0"

definition getTeamRole :: "WsDb \<Rightarrow> string \<Rightarrow> string \<Rightarrow> TeamRole option" where
  "getTeamRole db teamId userId =
     (if list_ex (\<lambda>t. tm_id t = teamId \<and> \<not> tm_deleted t) (ws_teams db)
      then lookup2 (t_team_members (ws_access db)) teamId userId else None)"

definition requireTeamRole :: "WsDb \<Rightarrow> string \<Rightarrow> string \<Rightarrow> TeamRole \<Rightarrow> ApiError + TeamRole" where
  "requireTeamRole db teamId userId minRole =
     (case getTeamRole db teamId userId of
        None \<Rightarrow> Inl (404, ''TEAM_NOT_FOUND'')
      | Some role \<Rightarrow> if team_rank role < team_rank minRole then Inl (403, ''FORBIDDEN'') else Inr role)"

text \<open>The guard of a board; with a minimum of editor or owner it never records a support view.\<close>

definition board_error :: "BoardError \<Rightarrow> ApiError" where
  "board_error e = (case e of BOARD_NOT_FOUND \<Rightarrow> (404, ''BOARD_NOT_FOUND'') | FORBIDDEN \<Rightarrow> (403, ''FORBIDDEN''))"

definition guardBoard :: "WsDb \<Rightarrow> string \<Rightarrow> string \<Rightarrow> BoardRole \<Rightarrow> ApiError + BoardRole" where
  "guardBoard db sub boardId minRole =
     map_sum board_error id (fst (requireBoardRole (pg_access_read (ws_access db)) [] sub boardId minRole 0))"

subsection \<open>Identifiers and bodies\<close>

definition hex_char :: "char \<Rightarrow> bool" where
  "hex_char c \<longleftrightarrow> c \<in> set ''0123456789abcdefABCDEF''"

definition is_uuid :: "string \<Rightarrow> bool" where
  "is_uuid s \<longleftrightarrow> length s = 36 \<and>
     list_all (\<lambda>(i, c). if i \<in> {8, 13, 18, 23} then c = CHR ''-'' else hex_char c) (zip [0..<36] s)"

definition assertUuid :: "string \<Rightarrow> ApiError + unit" where
  "assertUuid s = (if is_uuid s then Inr () else Inl (400, ''VALIDATION_ERROR''))"

definition assertBoardId :: "string \<Rightarrow> ApiError + unit" where
  "assertBoardId s = (if is_uuid s then Inr () else Inl (400, ''BOARD_ID_MALFORMED''))"

definition parseBody :: "bool \<Rightarrow> ApiError + unit" where
  "parseBody ok = (if ok then Inr () else Inl (400, ''VALIDATION_ERROR''))"

definition assignableTeamRole :: "TeamRole \<Rightarrow> bool" where
  "assignableTeamRole r \<longleftrightarrow> r \<in> {team_admin, team_member, team_guest}"

definition assignableBoardRole :: "BoardRole \<Rightarrow> bool" where
  "assignableBoardRole r \<longleftrightarrow> r \<in> {owner, editor, viewer}"

subsection \<open>Plan limits\<close>

datatype QuotaDimension = Boards | Members | Storage

definition UNLIMITED :: int where "UNLIMITED = - 1"

definition planCode :: "WsDb \<Rightarrow> TeamRow \<Rightarrow> string" where
  "planCode db t =
     (case map_of (ws_subscriptions db) (tm_id t) of
        Some code \<Rightarrow> code
      | None \<Rightarrow> if tm_is_personal t then ''personal'' else ''free'')"

definition lockTeamAndReadLimits :: "WsDb \<Rightarrow> string \<Rightarrow> ApiError + Limits" where
  "lockTeamAndReadLimits db teamId =
     (case find (\<lambda>t. tm_id t = teamId) (ws_teams db) of
        None \<Rightarrow> Inl (404, ''TEAM_NOT_FOUND'')
      | Some t \<Rightarrow> (case map_of (ws_plans db) (planCode db t) of
            None \<Rightarrow> Inl (500, ''INTERNAL'')
          | Some l \<Rightarrow> Inr l))"

text \<open>Files that share a storage key are counted once.\<close>

fun distinct_on :: "FileRow list \<Rightarrow> string list \<Rightarrow> FileRow list" where
  "distinct_on [] seen = []"
| "distinct_on (f # fs) seen =
     (if fl_storage_key f \<in> set seen then distinct_on fs seen else f # distinct_on fs (fl_storage_key f # seen))"

definition currentUsage :: "WsDb \<Rightarrow> string \<Rightarrow> QuotaDimension \<Rightarrow> int" where
  "currentUsage db teamId d =
     (case d of
        Boards \<Rightarrow> int (sql_count (\<lambda>b. b_team_id b = Some teamId \<and> \<not> b_deleted b) (t_boards (ws_access db)))
      | Members \<Rightarrow> int (sql_count (\<lambda>m. fst m = teamId) (t_team_members (ws_access db)))
      | Storage \<Rightarrow> sum_list (map fl_size_bytes (distinct_on (filter (\<lambda>f. fl_team_id f = teamId \<and> fl_ready f) (ws_files db)) [])))"

definition limitFor :: "Limits \<Rightarrow> QuotaDimension \<Rightarrow> int" where
  "limitFor l d = (case d of Boards \<Rightarrow> max_boards l | Members \<Rightarrow> max_members l | Storage \<Rightarrow> max_storage_bytes l)"

definition assertQuota :: "WsDb \<Rightarrow> string \<Rightarrow> QuotaDimension \<Rightarrow> int \<Rightarrow> ApiError + unit" where
  "assertQuota db teamId d delta =
     and_then (lockTeamAndReadLimits db teamId) (\<lambda>l.
       if limitFor l d = UNLIMITED then Inr ()
       else if limitFor l d < currentUsage db teamId d + delta then Inl (409, ''QUOTA_EXCEEDED'')
       else Inr ())"

subsection \<open>Writes\<close>

datatype Write =
    InsertTeam TeamRow
  | SetTeamName string string
  | SetMemberRole string string TeamRole
  | RemoveMember string string
  | InsertInvite InviteRow
  | Join string InviteRow bool
  | InsertBoard BoardRow string "string option"
  | SetBoard string "string option" "string option option"
  | TrashBoard string
  | UntrashBoard string
  | SetAccess string BoardAccessMode "string option"
  | SetGrant string string string
  | SetBoardMember string string BoardRole
  | ChangeBoardMember string string BoardRole
  | RemoveBoardMember string string
  | InsertFolder FolderRow
  | SetFolderName string string
  | TrashFolder string
  | NoWrite

definition insert_team :: "TeamRow \<Rightarrow> WsDb \<Rightarrow> ApiError + WsDb" where
  "insert_team t db =
     (if list_ex (\<lambda>x. tm_id x = tm_id t \<or> tm_slug x = tm_slug t \<and> \<not> tm_deleted x) (ws_teams db)
      then Inl (409, ''CONFLICT'')
      else Inr (on_team_members (\<lambda>m. m @ [(tm_id t, tm_owner_user_id t, team_owner)]) (db\<lparr>ws_teams := ws_teams db @ [t]\<rparr>)))"

definition join_team :: "string \<Rightarrow> InviteRow \<Rightarrow> bool \<Rightarrow> WsDb \<Rightarrow> ApiError + WsDb" where
  "join_team sub invite already db =
     and_then (if already then Inr () else assertQuota db (iv_team_id invite) Members 1) (\<lambda>_.
       Inr (on_team_members (upsert2 (iv_team_id invite) sub (iv_role invite))
         (db\<lparr>ws_invites := sql_update (\<lambda>i. iv_id i = iv_id invite) (\<lambda>i. i\<lparr>iv_accepted_by := Some sub\<rparr>) (ws_invites db)\<rparr>)))"

definition insert_board :: "BoardRow \<Rightarrow> string \<Rightarrow> string option \<Rightarrow> WsDb \<Rightarrow> ApiError + WsDb" where
  "insert_board b title folder db =
     and_then (assertQuota db (case b_team_id b of Some t \<Rightarrow> t | None \<Rightarrow> []) Boards 1) (\<lambda>_.
       if list_ex (\<lambda>x. b_id x = b_id b) (t_boards (ws_access db)) then Inl (500, ''INTERNAL'')
       else Inr (on_boards (\<lambda>bs. bs @ [b]) (db\<lparr>ws_meta := ws_meta db @ [(b_id b, title, folder)]\<rparr>)))"

definition untrash_board :: "string \<Rightarrow> WsDb \<Rightarrow> ApiError + WsDb" where
  "untrash_board xid db =
     (case find (\<lambda>b. b_id b = xid) (t_boards (ws_access db)) of
        None \<Rightarrow> Inl (404, ''BOARD_NOT_FOUND'')
      | Some b \<Rightarrow>
          and_then (assertQuota db (case b_team_id b of Some t \<Rightarrow> t | None \<Rightarrow> []) Boards 1) (\<lambda>_.
            Inr (on_boards (sql_update (\<lambda>b. b_id b = xid) (\<lambda>b. b\<lparr>b_deleted := False\<rparr>)) db)))"

definition commit_write :: "Write \<Rightarrow> WsDb \<Rightarrow> ApiError + WsDb" where
  "commit_write w db =
     (case w of
        InsertTeam t \<Rightarrow> insert_team t db
      | SetTeamName xid name \<Rightarrow>
          Inr (db\<lparr>ws_teams := sql_update (\<lambda>t. tm_id t = xid) (\<lambda>t. t\<lparr>tm_name := name\<rparr>) (ws_teams db)\<rparr>)
      | SetMemberRole team user role \<Rightarrow> Inr (on_team_members (update2 team user role) db)
      | RemoveMember team user \<Rightarrow> Inr (on_team_members (delete2 team user) db)
      | InsertInvite i \<Rightarrow> Inr (db\<lparr>ws_invites := ws_invites db @ [i]\<rparr>)
      | Join sub i already \<Rightarrow> join_team sub i already db
      | InsertBoard b title folder \<Rightarrow> insert_board b title folder db
      | SetBoard xid title folder \<Rightarrow>
          Inr (db\<lparr>ws_meta := sql_update (\<lambda>m. fst m = xid)
            (\<lambda>(i, t, f). (i, case title of Some x \<Rightarrow> x | None \<Rightarrow> t, case folder of Some x \<Rightarrow> x | None \<Rightarrow> f)) (ws_meta db)\<rparr>)
      | TrashBoard xid \<Rightarrow> Inr (on_boards (sql_update (\<lambda>b. b_id b = xid) (\<lambda>b. b\<lparr>b_deleted := True\<rparr>)) db)
      | UntrashBoard xid \<Rightarrow> untrash_board xid db
      | SetAccess xid mode hash \<Rightarrow>
          Inr (on_boards (sql_update (\<lambda>b. b_id b = xid) (\<lambda>b. b\<lparr>b_access_mode := mode, b_link_token_hash := hash\<rparr>)) db)
      | SetGrant board user hash \<Rightarrow> Inr (on_access (\<lambda>a. a\<lparr>t_link_grants := upsert2 board user hash (t_link_grants a)\<rparr>) db)
      | SetBoardMember board user role \<Rightarrow> Inr (on_board_members (upsert2 board user role) db)
      | ChangeBoardMember board user role \<Rightarrow>
          if lookup2 (t_board_members (ws_access db)) board user = None then Inl (404, ''USER_NOT_FOUND'')
          else Inr (on_board_members (update2 board user role) db)
      | RemoveBoardMember board user \<Rightarrow> Inr (on_board_members (delete2 board user) db)
      | InsertFolder f \<Rightarrow> Inr (db\<lparr>ws_folders := ws_folders db @ [f]\<rparr>)
      | SetFolderName xid name \<Rightarrow>
          Inr (db\<lparr>ws_folders := sql_update (\<lambda>f. fo_id f = xid) (\<lambda>f. f\<lparr>fo_name := name\<rparr>) (ws_folders db)\<rparr>)
      | TrashFolder xid \<Rightarrow>
          Inr (db\<lparr>ws_folders := sql_update (\<lambda>f. fo_id f = xid) (\<lambda>f. f\<lparr>fo_deleted := True\<rparr>) (ws_folders db)\<rparr>)
      | NoWrite \<Rightarrow> Inr db)"

subsection \<open>Routes of teams and invitations\<close>

definition post_team :: "string \<Rightarrow> string \<Rightarrow> string option \<Rightarrow> string \<Rightarrow> string \<Rightarrow> Write" where
  "post_team sub name slug teamId generated =
     InsertTeam \<lparr>tm_id = teamId, tm_slug = (case slug of Some x \<Rightarrow> x | None \<Rightarrow> ''team-'' @ generated), tm_name = name,
       tm_owner_user_id = sub, tm_is_personal = False, tm_deleted = False\<rparr>"

definition patch_team :: "WsDb \<Rightarrow> string \<Rightarrow> string \<Rightarrow> string option \<Rightarrow> ApiError + Write" where
  "patch_team db sub xid name =
     and_then (assertUuid xid) (\<lambda>_. and_then (requireTeamRole db xid sub team_admin) (\<lambda>_.
       Inr (case name of Some n \<Rightarrow> SetTeamName xid n | None \<Rightarrow> NoWrite)))"

definition patch_member :: "WsDb \<Rightarrow> string \<Rightarrow> string \<Rightarrow> string \<Rightarrow> TeamRole \<Rightarrow> ApiError + Write" where
  "patch_member db sub xid userId role =
     and_then (assertUuid xid) (\<lambda>_. and_then (assertUuid userId) (\<lambda>_.
     and_then (requireTeamRole db xid sub team_admin) (\<lambda>_. and_then (parseBody (assignableTeamRole role)) (\<lambda>_.
       (case getTeamRole db xid userId of
          None \<Rightarrow> Inl (404, ''USER_NOT_FOUND'')
        | Some target \<Rightarrow> if target = team_owner then Inl (403, ''FORBIDDEN'') else Inr (SetMemberRole xid userId role))))))"

definition delete_member :: "WsDb \<Rightarrow> string \<Rightarrow> string \<Rightarrow> string \<Rightarrow> ApiError + Write" where
  "delete_member db sub xid userId =
     and_then (assertUuid xid) (\<lambda>_. and_then (assertUuid userId) (\<lambda>_. and_then (requireTeamRole db xid sub team_admin) (\<lambda>_.
       if getTeamRole db xid userId = Some team_owner then Inl (403, ''FORBIDDEN'') else Inr (RemoveMember xid userId))))"

definition post_invite :: "(string \<Rightarrow> string) \<Rightarrow> int \<Rightarrow> epoch_ms \<Rightarrow> WsDb \<Rightarrow> string \<Rightarrow> string \<Rightarrow> string \<Rightarrow> TeamRole \<Rightarrow> string \<Rightarrow> string \<Rightarrow>
    ApiError + Write" where
  "post_invite sha ttl now db sub xid destination role inviteId token =
     and_then (assertUuid xid) (\<lambda>_. and_then (requireTeamRole db xid sub team_admin) (\<lambda>_.
     and_then (parseBody (assignableTeamRole role)) (\<lambda>_.
       Inr (InsertInvite \<lparr>iv_id = inviteId, iv_team_id = xid, iv_destination = destination, iv_role = role,
         iv_token_hash = sha token, iv_invited_by = sub, iv_expires_at = now + ttl * 1000, iv_accepted_by = None\<rparr>))))"

text \<open>The invitation is locked from here to the end of the transaction; whether the user is a member is read before the lock of the team.\<close>

definition accept_invite :: "(string \<Rightarrow> string) \<Rightarrow> epoch_ms \<Rightarrow> WsDb \<Rightarrow> string \<Rightarrow> string \<Rightarrow> ApiError + Write" where
  "accept_invite sha now db sub token =
     (case find (\<lambda>i. iv_token_hash i = sha token \<and> iv_accepted_by i = None \<and> now < iv_expires_at i) (ws_invites db) of
        None \<Rightarrow> Inl (404, ''NOT_FOUND'')
      | Some i \<Rightarrow> Inr (Join sub i (lookup2 (t_team_members (ws_access db)) (iv_team_id i) sub \<noteq> None)))"

subsection \<open>Routes of boards\<close>

definition DEFAULT_TITLE :: string where
  "DEFAULT_TITLE = [CHR 0xD8, CHR 0xA8, CHR 0xD9, CHR 0x88, CHR 0xD8, CHR 0xB1, CHR 0xD8, CHR 0xAF, CHR 0x20, CHR 0xD8, CHR 0xA8,
     CHR 0xD8, CHR 0xAF, CHR 0xD9, CHR 0x88, CHR 0xD9, CHR 0x86, CHR 0x20, CHR 0xD8, CHR 0xB9, CHR 0xD9, CHR 0x86, CHR 0xD9,
     CHR 0x88, CHR 0xD8, CHR 0xA7, CHR 0xD9, CHR 0x86]"

definition COPY_SUFFIX :: string where
  "COPY_SUFFIX = [CHR 0x20, CHR 0x28, CHR 0xDA, CHR 0xA9, CHR 0xD9, CHR 0xBE, CHR 0xDB, CHR 0x8C, CHR 0x29]"

definition new_board :: "string \<Rightarrow> string \<Rightarrow> string \<Rightarrow> BoardRow" where
  "new_board xid teamId sub =
     \<lparr>b_id = xid, b_created_by = sub, b_team_id = Some teamId, b_access_mode = mode_team, b_link_token_hash = None, b_deleted = False\<rparr>"

definition post_board :: "WsDb \<Rightarrow> string \<Rightarrow> string option \<Rightarrow> string option \<Rightarrow> string \<Rightarrow> ApiError + Write" where
  "post_board db sub title requestedTeamId boardId =
     and_then
       (case requestedTeamId of
          Some t \<Rightarrow> if lookup2 (t_team_members (ws_access db)) t sub = None then Inl (403, ''FORBIDDEN'') else Inr t
        | None \<Rightarrow> (case find (\<lambda>t. tm_owner_user_id t = sub \<and> tm_is_personal t \<and> \<not> tm_deleted t) (ws_teams db) of
              None \<Rightarrow> Inl (404, ''TEAM_NOT_FOUND'')
            | Some t \<Rightarrow> Inr (tm_id t)))
       (\<lambda>teamId. Inr (InsertBoard (new_board boardId teamId sub) (case title of Some t \<Rightarrow> t | None \<Rightarrow> DEFAULT_TITLE) None))"

definition patch_board :: "WsDb \<Rightarrow> string \<Rightarrow> string \<Rightarrow> string option \<Rightarrow> string option option \<Rightarrow> ApiError + Write" where
  "patch_board db sub xid title folder =
     and_then (assertBoardId xid) (\<lambda>_. and_then (guardBoard db sub xid editor) (\<lambda>_.
     and_then
       (case folder of
          Some (Some f) \<Rightarrow>
            if list_ex (\<lambda>x. fo_id x = f \<and> \<not> fo_deleted x \<and>
                 list_ex (\<lambda>b. b_id b = xid \<and> b_team_id b = Some (fo_team_id x)) (t_boards (ws_access db))) (ws_folders db)
            then Inr () else Inl (400, ''VALIDATION_ERROR'')
        | _ \<Rightarrow> Inr ())
       (\<lambda>_. Inr (if title = None \<and> folder = None then NoWrite else SetBoard xid title folder))))"

definition delete_board :: "WsDb \<Rightarrow> string \<Rightarrow> string \<Rightarrow> ApiError + Write" where
  "delete_board db sub xid =
     and_then (assertBoardId xid) (\<lambda>_. and_then (guardBoard db sub xid owner) (\<lambda>_. Inr (TrashBoard xid)))"

definition restore_board :: "WsDb \<Rightarrow> string \<Rightarrow> string \<Rightarrow> ApiError + Write" where
  "restore_board db sub xid =
     and_then (assertBoardId xid) (\<lambda>_.
     and_then (map_sum board_error id (assertDeletedBoardOwner (ws_access db) sub xid)) (\<lambda>_. Inr (UntrashBoard xid)))"

definition duplicate_board :: "WsDb \<Rightarrow> string \<Rightarrow> string \<Rightarrow> string \<Rightarrow> ApiError + Write" where
  "duplicate_board db sub xid newId =
     and_then (assertBoardId xid) (\<lambda>_. and_then (guardBoard db sub xid editor) (\<lambda>_.
       (case find (\<lambda>b. b_id b = xid \<and> \<not> b_deleted b) (t_boards (ws_access db)) of
          None \<Rightarrow> Inl (404, ''BOARD_NOT_FOUND'')
        | Some b \<Rightarrow>
            (let (title, folder) = (case map_of (ws_meta db) xid of Some m \<Rightarrow> m | None \<Rightarrow> (DEFAULT_TITLE, None))
             in Inr (InsertBoard (new_board newId (case b_team_id b of Some t \<Rightarrow> t | None \<Rightarrow> []) sub) (title @ COPY_SUFFIX) folder)))))"

subsection \<open>Routes of sharing\<close>

definition link_mode :: "BoardAccessMode \<Rightarrow> bool" where
  "link_mode m \<longleftrightarrow> m = mode_link_view \<or> m = mode_link_edit"

definition put_access :: "(string \<Rightarrow> string) \<Rightarrow> WsDb \<Rightarrow> string \<Rightarrow> string \<Rightarrow> BoardAccessMode \<Rightarrow> bool \<Rightarrow> string \<Rightarrow> ApiError + Write" where
  "put_access sha db sub xid mode regenerate token =
     and_then (assertUuid xid) (\<lambda>_. and_then (guardBoard db sub xid owner) (\<lambda>_.
       (let cur = (case find (\<lambda>b. b_id b = xid) (t_boards (ws_access db)) of Some b \<Rightarrow> b_link_token_hash b | None \<Rightarrow> None)
        in Inr (SetAccess xid mode
             (if link_mode mode then (if cur = None \<or> regenerate then Some (sha token) else cur) else None)))))"

definition resolve_link :: "(string \<Rightarrow> string) \<Rightarrow> WsDb \<Rightarrow> string \<Rightarrow> string \<Rightarrow> ApiError + Write" where
  "resolve_link sha db sub token =
     and_then (parseBody (10 \<le> length token)) (\<lambda>_.
       (case find (\<lambda>b. b_link_token_hash b = Some (sha token) \<and> \<not> b_deleted b \<and> link_mode (b_access_mode b)) (t_boards (ws_access db)) of
          None \<Rightarrow> Inl (404, ''NOT_FOUND'')
        | Some b \<Rightarrow> Inr (SetGrant (b_id b) sub (sha token))))"

definition add_board_member :: "WsDb \<Rightarrow> string \<Rightarrow> string \<Rightarrow> string \<Rightarrow> BoardRole \<Rightarrow> ApiError + Write" where
  "add_board_member db sub xid userId role =
     and_then (assertUuid xid) (\<lambda>_. and_then (guardBoard db sub xid owner) (\<lambda>_.
     and_then (parseBody (is_uuid userId \<and> assignableBoardRole role)) (\<lambda>_.
       if map_of (t_users (ws_access db)) userId = None \<or> userId \<in> set (ws_deleted_users db)
       then Inl (404, ''USER_NOT_FOUND'') else Inr (SetBoardMember xid userId role))))"

definition patch_board_member :: "WsDb \<Rightarrow> string \<Rightarrow> string \<Rightarrow> string \<Rightarrow> BoardRole \<Rightarrow> ApiError + Write" where
  "patch_board_member db sub xid userId role =
     and_then (assertUuid xid) (\<lambda>_. and_then (assertUuid userId) (\<lambda>_. and_then (guardBoard db sub xid owner) (\<lambda>_.
     and_then (parseBody (assignableBoardRole role)) (\<lambda>_. Inr (ChangeBoardMember xid userId role)))))"

definition delete_board_member :: "WsDb \<Rightarrow> string \<Rightarrow> string \<Rightarrow> string \<Rightarrow> ApiError + Write" where
  "delete_board_member db sub xid userId =
     and_then (assertUuid xid) (\<lambda>_. and_then (assertUuid userId) (\<lambda>_. and_then (guardBoard db sub xid owner) (\<lambda>_.
       Inr (RemoveBoardMember xid userId))))"

subsection \<open>Routes of folders\<close>

definition folderTeam :: "WsDb \<Rightarrow> string \<Rightarrow> ApiError + string" where
  "folderTeam db folderId =
     (case find (\<lambda>f. fo_id f = folderId \<and> \<not> fo_deleted f) (ws_folders db) of
        None \<Rightarrow> Inl (404, ''NOT_FOUND'')
      | Some f \<Rightarrow> Inr (fo_team_id f))"

definition post_folder :: "WsDb \<Rightarrow> string \<Rightarrow> string \<Rightarrow> string \<Rightarrow> string option \<Rightarrow> string \<Rightarrow> ApiError + Write" where
  "post_folder db sub teamId name parent xid =
     and_then (assertUuid teamId) (\<lambda>_. and_then (requireTeamRole db teamId sub team_member) (\<lambda>_.
       if case parent of
            None \<Rightarrow> False
          | Some p \<Rightarrow> \<not> list_ex (\<lambda>f. fo_id f = p \<and> fo_team_id f = teamId \<and> \<not> fo_deleted f) (ws_folders db)
       then Inl (400, ''VALIDATION_ERROR'')
       else Inr (InsertFolder \<lparr>fo_id = xid, fo_team_id = teamId, fo_parent_id = parent, fo_name = name, fo_deleted = False\<rparr>)))"

definition patch_folder :: "WsDb \<Rightarrow> string \<Rightarrow> string \<Rightarrow> string option \<Rightarrow> ApiError + Write" where
  "patch_folder db sub xid name =
     and_then (assertUuid xid) (\<lambda>_. and_then (folderTeam db xid) (\<lambda>teamId. and_then (requireTeamRole db teamId sub team_member) (\<lambda>_.
       Inr (case name of Some n \<Rightarrow> SetFolderName xid n | None \<Rightarrow> NoWrite))))"

definition delete_folder :: "WsDb \<Rightarrow> string \<Rightarrow> string \<Rightarrow> ApiError + Write" where
  "delete_folder db sub xid =
     and_then (assertUuid xid) (\<lambda>_. and_then (folderTeam db xid) (\<lambda>teamId. and_then (requireTeamRole db teamId sub team_member) (\<lambda>_.
       Inr (TrashFolder xid))))"

subsection \<open>Requests and runs\<close>

datatype Request =
    PostTeam string "string option" string string
  | PatchTeam string "string option"
  | PatchMember string string TeamRole
  | DeleteMember string string
  | PostInvite string string TeamRole string string
  | AcceptInvite string
  | PostBoard "string option" "string option" string
  | PatchBoard string "string option" "string option option"
  | DeleteBoard string
  | RestoreBoard string
  | DuplicateBoard string string
  | PutAccess string BoardAccessMode bool string
  | ResolveLink string
  | AddBoardMember string string BoardRole
  | PatchBoardMember string string BoardRole
  | DeleteBoardMember string string
  | PostFolder string string "string option" string
  | PatchFolder string "string option"
  | DeleteFolder string

record WsEnv =
  we_sha :: "string \<Rightarrow> string"
  we_invite_ttl :: int

definition check_request :: "WsEnv \<Rightarrow> epoch_ms \<Rightarrow> string \<Rightarrow> Request \<Rightarrow> WsDb \<Rightarrow> ApiError + Write" where
  "check_request E now sub req db =
     (case req of
        PostTeam name slug xid generated \<Rightarrow> Inr (post_team sub name slug xid generated)
      | PatchTeam xid name \<Rightarrow> patch_team db sub xid name
      | PatchMember xid user role \<Rightarrow> patch_member db sub xid user role
      | DeleteMember xid user \<Rightarrow> delete_member db sub xid user
      | PostInvite xid destination role inviteId token \<Rightarrow>
          post_invite (we_sha E) (we_invite_ttl E) now db sub xid destination role inviteId token
      | AcceptInvite token \<Rightarrow> accept_invite (we_sha E) now db sub token
      | PostBoard title team xid \<Rightarrow> post_board db sub title team xid
      | PatchBoard xid title folder \<Rightarrow> patch_board db sub xid title folder
      | DeleteBoard xid \<Rightarrow> delete_board db sub xid
      | RestoreBoard xid \<Rightarrow> restore_board db sub xid
      | DuplicateBoard xid newId \<Rightarrow> duplicate_board db sub xid newId
      | PutAccess xid mode regenerate token \<Rightarrow> put_access (we_sha E) db sub xid mode regenerate token
      | ResolveLink token \<Rightarrow> resolve_link (we_sha E) db sub token
      | AddBoardMember xid user role \<Rightarrow> add_board_member db sub xid user role
      | PatchBoardMember xid user role \<Rightarrow> patch_board_member db sub xid user role
      | DeleteBoardMember xid user \<Rightarrow> delete_board_member db sub xid user
      | PostFolder team name parent xid \<Rightarrow> post_folder db sub team name parent xid
      | PatchFolder xid name \<Rightarrow> patch_folder db sub xid name
      | DeleteFolder xid \<Rightarrow> delete_folder db sub xid)"

text \<open>
  The state of the service: the tables and the writes that were checked and have not happened. A second acceptance of
  an invitation waits for the lock of the first. Subscriptions and users change as other services please.
\<close>

record Ws =
  ws_db :: WsDb
  ws_open :: "Write list"

datatype WsEvent =
    Ask string epoch_ms Request
  | Perform Write
  | Subscribe "(string \<times> string) list"
  | Users "(string \<times> bool \<times> string) list"

definition invite_locked :: "Write list \<Rightarrow> Write \<Rightarrow> bool" where
  "invite_locked ws w \<longleftrightarrow>
     (case w of Join _ i _ \<Rightarrow> list_ex (\<lambda>v. case v of Join _ j _ \<Rightarrow> iv_id j = iv_id i | _ \<Rightarrow> False) ws | _ \<Rightarrow> False)"

definition ws_step :: "WsEnv \<Rightarrow> WsEvent \<Rightarrow> Ws \<Rightarrow> Ws" where
  "ws_step E ev s =
     (case ev of
        Ask sub now req \<Rightarrow> (case check_request E now sub req (ws_db s) of
            Inl e \<Rightarrow> s
          | Inr w \<Rightarrow> if invite_locked (ws_open s) w then s else s\<lparr>ws_open := w # ws_open s\<rparr>)
      | Perform w \<Rightarrow>
          if w \<in> set (ws_open s)
          then s\<lparr>ws_open := remove1 w (ws_open s),
                 ws_db := (case commit_write w (ws_db s) of Inl e \<Rightarrow> ws_db s | Inr db \<Rightarrow> db)\<rparr>
          else s
      | Subscribe subs \<Rightarrow> s\<lparr>ws_db := (ws_db s)\<lparr>ws_subscriptions := subs\<rparr>\<rparr>
      | Users us \<Rightarrow> s\<lparr>ws_db := on_access (\<lambda>a. a\<lparr>t_users := us\<rparr>) (ws_db s)\<rparr>)"

definition ws_run :: "WsEnv \<Rightarrow> WsEvent list \<Rightarrow> Ws \<Rightarrow> Ws" where
  "ws_run E evs s = foldl (\<lambda>s ev. ws_step E ev s) s evs"

end
