(* ===== verification/WorkspaceProperties.thy ===== *)
theory WorkspaceProperties
  imports Workspace
begin

text \<open>
  The properties of teams and boards: plan limits under interleaved requests, who may change the sharing of a board,
  the end of a link, and the owner of a team.
\<close>

lemma run_invariant:
  assumes "\<And>ev s. I s \<Longrightarrow> P ev \<Longrightarrow> I (ws_step E ev s)" "I s" "list_all P evs"
  shows "I (ws_run E evs s)"
  using assms(2,3) by (induction evs arbitrary: s) (simp_all add: ws_run_def assms(1))

subsection \<open>Tables after a write\<close>

lemma on_access_simps [simp]:
  "ws_access (on_access f db) = f (ws_access db)" "ws_teams (on_access f db) = ws_teams db"
  "ws_invites (on_access f db) = ws_invites db" "ws_plans (on_access f db) = ws_plans db"
  "ws_subscriptions (on_access f db) = ws_subscriptions db"
  by (simp_all add: on_access_def)

lemmas on_table_defs = on_team_members_def on_board_members_def on_boards_def

lemma pair_is_keys [simp]: "pair_is a b (c, d, v) \<longleftrightarrow> c = a \<and> d = b"
  by (simp add: pair_is_def)

lemma find_append: "find P (xs @ ys) = (case find P xs of None \<Rightarrow> find P ys | Some x \<Rightarrow> Some x)"
  by (induction xs) auto

lemma find_sql_update_key:
  assumes "\<And>r. key (f r) = key r"
  shows "find (\<lambda>r. key r = k) (sql_update P f t) = map_option (\<lambda>r. if P r then f r else r) (find (\<lambda>r. key r = k) t)"
  using assms by (induction t) auto

lemma find_key_None: "find (\<lambda>r. key r = k) t = None \<longleftrightarrow> k \<notin> key ` set t"
  by (auto simp: find_None_iff)

lemma map_key_sql_update: "(\<And>r. key (f r) = key r) \<Longrightarrow> map key (sql_update P f t) = map key t"
  by (induction t) auto

subsection \<open>Teams persist\<close>

lemma commit_team:
  assumes "commit_write w db = Inr db'" "find (\<lambda>t. tm_id t = team) (ws_teams db) = Some t"
  shows "\<exists>t'. find (\<lambda>t. tm_id t = team) (ws_teams db') = Some t' \<and> tm_is_personal t' = tm_is_personal t"
proof -
  have "\<exists>t'. find (\<lambda>t. tm_id t = team) (sql_update (\<lambda>t. tm_id t = xid) (\<lambda>t. t\<lparr>tm_name := name\<rparr>) (ws_teams db)) = Some t' \<and>
      tm_is_personal t' = tm_is_personal t" for xid name
    by (subst find_sql_update_key) (use assms(2) in auto)
  then show ?thesis using assms
    by (cases w) (auto simp: commit_write_def insert_team_def join_team_def insert_board_def untrash_board_def and_then_Inr_iff
      on_table_defs find_append split: if_splits option.splits)
qed

lemma commit_plans:
  assumes "commit_write w db = Inr db'"
  shows "ws_plans db' = ws_plans db" "ws_subscriptions db' = ws_subscriptions db"
  using assms
  by (cases w; auto simp: commit_write_def insert_team_def join_team_def insert_board_def untrash_board_def and_then_Inr_iff
    on_table_defs split: if_splits option.splits)+

lemma commit_limits:
  assumes "commit_write w db = Inr db'" "lockTeamAndReadLimits db team = Inr l"
  shows "lockTeamAndReadLimits db' team = Inr l"
proof -
  obtain t where t: "find (\<lambda>t. tm_id t = team) (ws_teams db) = Some t" "map_of (ws_plans db) (planCode db t) = Some l"
    using assms(2) by (auto simp: lockTeamAndReadLimits_def split: option.splits)
  obtain t' where t': "find (\<lambda>t. tm_id t = team) (ws_teams db') = Some t'" "tm_is_personal t' = tm_is_personal t"
    using commit_team [OF assms(1) t(1)] by blast
  have "tm_id t' = tm_id t" using find_Some_in_set [OF t(1)] find_Some_in_set [OF t'(1)] by simp
  then have "planCode db' t' = planCode db t" using t'(2) commit_plans [OF assms(1)] by (simp add: planCode_def)
  then show ?thesis using t(2) t'(1) commit_plans [OF assms(1)] by (simp add: lockTeamAndReadLimits_def)
qed

subsection \<open>The limit of a plan\<close>

lemma sql_count_append [simp]: "sql_count p (t @ u) = sql_count p t + sql_count p u"
  by (simp add: sql_count_def)

lemma sql_count_single [simp]: "sql_count p [r] = (if p r then 1 else 0)" "sql_count p [] = 0"
  by (simp_all add: sql_count_def)

lemma sql_count_Cons: "sql_count p (r # t) = (if p r then 1 else 0) + sql_count p t"
  by (simp add: sql_count_def)

lemma sql_count_update_le: "(\<And>r. P (f r) \<Longrightarrow> P r) \<Longrightarrow> sql_count P (sql_update Q f t) \<le> sql_count P t"
  by (induction t) (auto simp: sql_count_Cons)

lemma sql_count_update_one:
  assumes "distinct (map key t)" "\<And>r. key (f r) = key r"
  shows "sql_count P (sql_update (\<lambda>r. key r = k) f t) \<le> sql_count P t + (case find (\<lambda>r. key r = k) t of None \<Rightarrow> 0 | Some r \<Rightarrow> if P (f r) then 1 else 0)"
  using assms(1)
proof (induction t)
  case (Cons r t)
  show ?case
  proof (cases "key r = k")
    case True
    then have "k \<notin> key ` set t" using Cons(2) by auto
    then have "sql_update (\<lambda>r. key r = k) f t = t" by (intro sql_update_none) auto
    then show ?thesis using True by (auto simp: sql_count_Cons)
  qed (use Cons in \<open>auto simp: sql_count_Cons\<close>)
qed (simp add: sql_count_def)

lemma assertQuota_room:
  assumes "assertQuota db team d delta = Inr ()" "lockTeamAndReadLimits db team = Inr l" "limitFor l d \<noteq> UNLIMITED"
  shows "currentUsage db team d + delta \<le> limitFor l d"
  using assms by (auto simp: assertQuota_def split: if_splits)

definition boards_distinct :: "WsDb \<Rightarrow> bool" where
  "boards_distinct db \<longleftrightarrow> distinct (map b_id (t_boards (ws_access db)))"

lemma commit_boards_distinct: "boards_distinct db \<Longrightarrow> commit_write w db = Inr db' \<Longrightarrow> boards_distinct db'"
  unfolding boards_distinct_def
proof (cases w)
  case (InsertBoard b title folder)
  assume d: "distinct (map b_id (t_boards (ws_access db)))" and c: "commit_write w db = Inr db'"
  then have "\<forall>x \<in> set (t_boards (ws_access db)). b_id x \<noteq> b_id b" "t_boards (ws_access db') = t_boards (ws_access db) @ [b]"
    by (auto simp: InsertBoard commit_write_def insert_board_def and_then_Inr_iff on_table_defs list_ex_iff split: if_splits)
  then show "distinct (map b_id (t_boards (ws_access db')))" using d by force
qed (auto simp: commit_write_def insert_team_def join_team_def untrash_board_def and_then_Inr_iff
    on_table_defs map_key_sql_update split: if_splits option.splits)

lemma commit_board_usage:
  assumes "commit_write w db = Inr db'" "lockTeamAndReadLimits db team = Inr l" "max_boards l \<noteq> UNLIMITED" "boards_distinct db"
  shows "currentUsage db' team Boards \<le> max (currentUsage db team Boards) (max_boards l)"
proof -
  note room = assertQuota_room [of db team Boards 1, OF _ assms(2)]
  let ?live = "\<lambda>b. b_team_id b = Some team \<and> \<not> b_deleted b"
  have trash: "sql_count ?live (sql_update P (\<lambda>b. b\<lparr>b_deleted := True\<rparr>) t) \<le> sql_count ?live t" for P t
    by (rule sql_count_update_le) simp
  have access: "sql_count ?live (sql_update P (\<lambda>b. b\<lparr>b_access_mode := m, b_link_token_hash := h\<rparr>) t) \<le> sql_count ?live t" for P t m h
    by (rule sql_count_update_le) simp
  show ?thesis
  proof (cases w)
    case (InsertBoard b title folder)
    then show ?thesis using assms(1,3) room
      by (auto simp: commit_write_def insert_board_def and_then_Inr_iff on_table_defs currentUsage_def limitFor_def split: if_splits)
  next
    case (UntrashBoard xid)
    then obtain b where b: "find (\<lambda>b. b_id b = xid) (t_boards (ws_access db)) = Some b"
      "assertQuota db (case b_team_id b of Some t \<Rightarrow> t | None \<Rightarrow> []) Boards 1 = Inr ()"
      "db' = on_boards (sql_update (\<lambda>b. b_id b = xid) (\<lambda>b. b\<lparr>b_deleted := False\<rparr>)) db"
      using assms(1) by (auto simp: commit_write_def untrash_board_def and_then_Inr_iff split: option.splits)
    have "sql_count ?live (t_boards (ws_access db')) \<le> sql_count ?live (t_boards (ws_access db)) + (if b_team_id b = Some team then 1 else 0)"
      using sql_count_update_one [of b_id "t_boards (ws_access db)" "\<lambda>b. b\<lparr>b_deleted := False\<rparr>" ?live xid] assms(4) b(1)
      by (simp add: b(3) on_table_defs boards_distinct_def)
    then show ?thesis using b(2) assms(3) room by (auto simp: currentUsage_def limitFor_def split: if_splits)
  qed (use assms(1) trash access in \<open>auto simp: commit_write_def insert_team_def join_team_def and_then_Inr_iff on_table_defs
      currentUsage_def le_max_iff_disj split: if_splits\<close>)
qed

text \<open>Members: a join that was checked as one of a member must still find the row.\<close>

lemma sql_count_upsert2:
  "sql_count (\<lambda>m. fst m = team) (upsert2 a b v rows) =
     sql_count (\<lambda>m. fst m = team) rows + (if a = team \<and> lookup2 rows a b = None then 1 else 0)"
proof -
  have "sql_count (\<lambda>m. fst m = team) (sql_update (pair_is a b) (\<lambda>r. (a, b, v)) rows) = sql_count (\<lambda>m. fst m = team) rows"
    by (induction rows) (auto simp: sql_count_Cons pair_is_def)
  then show ?thesis by (cases "find (pair_is a b) rows") (auto simp: upsert2_def lookup2_pair)
qed

lemma sql_count_delete_le: "sql_count P (sql_delete Q t) \<le> sql_count P t"
  by (induction t) (auto simp: sql_delete_def sql_count_Cons)

definition honest_join :: "WsDb \<Rightarrow> Write \<Rightarrow> bool" where
  "honest_join db w \<longleftrightarrow>
     (case w of Join sub i already \<Rightarrow> already \<longrightarrow> lookup2 (t_team_members (ws_access db)) (iv_team_id i) sub \<noteq> None | _ \<Rightarrow> True)"

lemma commit_member_usage:
  assumes "commit_write w db = Inr db'" "lockTeamAndReadLimits db team = Inr l" "max_members l \<noteq> UNLIMITED" "honest_join db w"
  shows "currentUsage db' team Members \<le> max (currentUsage db team Members) (max_members l)"
proof (cases w)
  case (Join sub i already)
  then have q: "(if already then Inr () else assertQuota db (iv_team_id i) Members 1) = Inr ()"
    "currentUsage db' team Members = int (sql_count (\<lambda>m. fst m = team) (upsert2 (iv_team_id i) sub (iv_role i) (t_team_members (ws_access db))))"
    using assms(1) by (auto simp: commit_write_def join_team_def and_then_Inr_iff on_table_defs currentUsage_def)
  show ?thesis
  proof (cases "iv_team_id i = team \<and> \<not> already")
    case True
    then have "assertQuota db team Members 1 = Inr ()" using q(1) by simp
    from assertQuota_room [OF this assms(2)] assms(3) show ?thesis
      unfolding q(2) by (simp add: sql_count_upsert2 limitFor_def currentUsage_def)
  next
    case False
    then show ?thesis using assms(4) Join unfolding q(2) by (auto simp: sql_count_upsert2 honest_join_def currentUsage_def)
  qed
next
  case (InsertTeam t)
  have "team \<in> tm_id ` set (ws_teams db)"
    using assms(2) find_key_None [of tm_id team "ws_teams db"] by (cases "find (\<lambda>t. tm_id t = team) (ws_teams db)")
      (simp_all add: lockTeamAndReadLimits_def)
  then have "tm_id t \<noteq> team"
    using assms(1) InsertTeam by (auto simp: commit_write_def insert_team_def list_ex_iff split: if_splits)
  then show ?thesis using assms(1) InsertTeam
    by (auto simp: commit_write_def insert_team_def on_table_defs currentUsage_def split: if_splits)
next
  case (SetMemberRole a b v)
  have "sql_count (\<lambda>m. fst m = team) (update2 a b v rows) = sql_count (\<lambda>m. fst m = team) rows" for rows
    unfolding update2_def by (induction rows) (auto simp: sql_count_Cons pair_is_def)
  then show ?thesis using assms(1) SetMemberRole by (auto simp: commit_write_def on_table_defs currentUsage_def)
next
  case (RemoveMember a b)
  then show ?thesis using assms(1) sql_count_delete_le [of "\<lambda>m. fst m = team" "pair_is a b" "t_team_members (ws_access db)"]
    by (auto simp: commit_write_def on_table_defs currentUsage_def delete2_def)
qed (use assms(1) in \<open>auto simp: commit_write_def insert_board_def untrash_board_def and_then_Inr_iff on_table_defs
      currentUsage_def split: if_splits option.splits\<close>)

lemma commit_keeps_member:
  assumes "commit_write w db = Inr db'" "\<And>a b. w \<noteq> RemoveMember a b" "lookup2 (t_team_members (ws_access db)) team u \<noteq> None"
  shows "lookup2 (t_team_members (ws_access db')) team u \<noteq> None"
  using assms
  by (cases w) (auto simp: commit_write_def insert_team_def join_team_def insert_board_def untrash_board_def and_then_Inr_iff
    on_table_defs lookup2_upsert2 lookup2_update2 lookup2_append split: if_splits option.splits)

text \<open>What every step preserves: the limits, one row per board, and the use of boards within the limit.\<close>

definition plan_change :: "WsEvent \<Rightarrow> bool" where
  "plan_change ev \<longleftrightarrow> (case ev of Subscribe _ \<Rightarrow> True | _ \<Rightarrow> False)"

definition member_removal :: "WsEvent \<Rightarrow> bool" where
  "member_removal ev \<longleftrightarrow> (case ev of Ask _ _ (DeleteMember _ _) \<Rightarrow> True | _ \<Rightarrow> False)"

lemma users_change [simp]:
  "lockTeamAndReadLimits (on_access (\<lambda>a. a\<lparr>t_users := us\<rparr>) db) team = lockTeamAndReadLimits db team"
  "currentUsage (on_access (\<lambda>a. a\<lparr>t_users := us\<rparr>) db) team Boards = currentUsage db team Boards"
  "currentUsage (on_access (\<lambda>a. a\<lparr>t_users := us\<rparr>) db) team Members = currentUsage db team Members"
  by (simp_all add: lockTeamAndReadLimits_def planCode_def [abs_def] currentUsage_def cong: option.case_cong)

definition limits_inv :: "string \<Rightarrow> Limits \<Rightarrow> int \<Rightarrow> Ws \<Rightarrow> bool" where
  "limits_inv team l n s \<longleftrightarrow> lockTeamAndReadLimits (ws_db s) team = Inr l \<and> boards_distinct (ws_db s) \<and>
     (max_boards l \<noteq> UNLIMITED \<longrightarrow> currentUsage (ws_db s) team Boards \<le> max n (max_boards l))"

lemma step_limits:
  assumes "limits_inv team l n s" "\<not> plan_change ev"
  shows "limits_inv team l n (ws_step E ev s)"
proof (cases ev)
  case (Perform w)
  show ?thesis
  proof (cases "w \<in> set (ws_open s) \<and> (\<exists>db. commit_write w (ws_db s) = Inr db)")
    case False
    then show ?thesis using assms(1) Perform by (auto simp: ws_step_def limits_inv_def split: sum.split)
  next
    case True
    then obtain db where db: "commit_write w (ws_db s) = Inr db" by blast
    have i: "lockTeamAndReadLimits (ws_db s) team = Inr l" "boards_distinct (ws_db s)" using assms(1) by (simp_all add: limits_inv_def)
    have "max_boards l \<noteq> UNLIMITED \<Longrightarrow> currentUsage db team Boards \<le> max n (max_boards l)"
      using commit_board_usage [OF db i(1) _ i(2)] assms(1) by (fastforce simp: limits_inv_def)
    then show ?thesis using True db Perform commit_limits [OF db i(1)] commit_boards_distinct [OF i(2) db]
      by (simp add: ws_step_def limits_inv_def)
  qed
qed (use assms in \<open>auto simp: ws_step_def limits_inv_def plan_change_def boards_distinct_def split: sum.split\<close>)

text \<open>Without removals every open join stays honest.\<close>

definition members_inv :: "string \<Rightarrow> Limits \<Rightarrow> int \<Rightarrow> Ws \<Rightarrow> bool" where
  "members_inv team l n s \<longleftrightarrow> lockTeamAndReadLimits (ws_db s) team = Inr l \<and>
     list_all (honest_join (ws_db s)) (ws_open s) \<and> (\<forall>a b. RemoveMember a b \<notin> set (ws_open s)) \<and>
     (max_members l \<noteq> UNLIMITED \<longrightarrow> currentUsage (ws_db s) team Members \<le> max n (max_members l))"

lemma check_request_join:
  assumes "check_request E now sub req db = Inr w"
  shows "honest_join db w" "w = RemoveMember a b \<Longrightarrow> \<exists>id user. req = DeleteMember id user"
  using assms
  by (cases req; auto simp: check_request_def post_team_def patch_team_def patch_member_def delete_member_def post_invite_def
      accept_invite_def post_board_def patch_board_def delete_board_def restore_board_def duplicate_board_def put_access_def
      resolve_link_def add_board_member_def patch_board_member_def delete_board_member_def post_folder_def patch_folder_def
      delete_folder_def honest_join_def and_then_Inr_iff Let_def split: option.splits if_splits prod.splits)+

lemma step_members:
  assumes "members_inv team l n s" "\<not> plan_change ev" "\<not> member_removal ev"
  shows "members_inv team l n (ws_step E ev s)"
proof (cases ev)
  case (Ask sub now req)
  then show ?thesis using assms(1,3) check_request_join [of E now sub req "ws_db s"]
    by (auto simp: ws_step_def members_inv_def member_removal_def split: sum.split)
next
  case (Perform w)
  show ?thesis
  proof (cases "w \<in> set (ws_open s) \<and> (\<exists>db. commit_write w (ws_db s) = Inr db)")
    case False
    then show ?thesis using assms(1) Perform notin_set_remove1
      by (auto simp: ws_step_def members_inv_def list_all_iff dest: notin_set_remove1 split: sum.split)
  next
    case True
    then obtain db where db: "commit_write w (ws_db s) = Inr db" by blast
    have i: "lockTeamAndReadLimits (ws_db s) team = Inr l" "honest_join (ws_db s) w" "\<And>a b. w \<noteq> RemoveMember a b"
      using assms(1) True by (auto simp: members_inv_def list_all_iff)
    have h: "honest_join db v" if "honest_join (ws_db s) v" for v
      using that commit_keeps_member [OF db i(3)] by (auto simp: honest_join_def split: Write.splits)
    have "max_members l \<noteq> UNLIMITED \<Longrightarrow> currentUsage db team Members \<le> max n (max_members l)"
      using commit_member_usage [OF db i(1) _ i(2)] assms(1) by (fastforce simp: members_inv_def)
    moreover have "v \<in> set (ws_open s)" if "v \<in> set (remove1 w (ws_open s))" for v using that by (meson notin_set_remove1)
    ultimately show ?thesis using True db Perform commit_limits [OF db i(1)] assms(1) h
      by (auto simp: ws_step_def members_inv_def list_all_iff)
  qed
qed (use assms in \<open>auto simp: ws_step_def members_inv_def plan_change_def honest_join_def list_all_iff split: sum.split Write.split\<close>)

text \<open>
  C10. As long as the plan of a team stays, no interleaving of requests of any users brings the number of its live boards
  above the limit of the plan, or above what it was if it was more: not by creating, copying or restoring,
  and not by checks that are out of date. For members the same holds when nobody is removed meanwhile.
\<close>

theorem plan_limits_hold:
  assumes "ws_open s = []" "boards_distinct (ws_db s)" "lockTeamAndReadLimits (ws_db s) team = Inr l"
    "list_all (\<lambda>ev. \<not> plan_change ev) evs" "ws_db (ws_run E evs s) = db"
  shows "(max_boards l \<noteq> UNLIMITED \<longrightarrow> currentUsage db team Boards \<le> max (currentUsage (ws_db s) team Boards) (max_boards l)) \<and>
    (max_members l \<noteq> UNLIMITED \<and> list_all (\<lambda>ev. \<not> member_removal ev) evs \<longrightarrow>
      currentUsage db team Members \<le> max (currentUsage (ws_db s) team Members) (max_members l))"
proof -
  have "limits_inv team l n (ws_run E evs s)" if "limits_inv team l n s" for n
    by (rule run_invariant [OF step_limits that assms(4)])
  moreover have "members_inv team l n (ws_run E evs s)" if "members_inv team l n s" "list_all (\<lambda>ev. \<not> member_removal ev) evs" for n
    by (rule run_invariant [of "members_inv team l n" "\<lambda>ev. \<not> plan_change ev \<and> \<not> member_removal ev"])
      (use assms(4) that step_members in \<open>auto simp: list_all_iff\<close>)
  moreover have "limits_inv team l (currentUsage (ws_db s) team Boards) s" "members_inv team l (currentUsage (ws_db s) team Members) s"
    using assms(1-3) by (simp_all add: limits_inv_def members_inv_def)
  ultimately show ?thesis using assms(4,5) by (metis limits_inv_def members_inv_def)
qed

text \<open>A team with an owner and a member, one board and two invitations, under a plan for two boards and two members.\<close>

definition uid :: "char \<Rightarrow> string" where
  "uid c = ''00000000-0000-7000-8000-00000000000'' @ [c]"

definition sample_invite :: "char \<Rightarrow> string \<Rightarrow> InviteRow" where
  "sample_invite c token = \<lparr>iv_id = uid c, iv_team_id = uid (CHR ''a''), iv_destination = ''09120000000'', iv_role = team_member,
     iv_token_hash = token, iv_invited_by = uid (CHR ''1''), iv_expires_at = 1000, iv_accepted_by = None\<rparr>"

definition sample_db :: WsDb where
  "sample_db =
     \<lparr>ws_access =
        \<lparr>t_boards = [new_board (uid (CHR ''b'')) (uid (CHR ''a'')) (uid (CHR ''1''))],
         t_users = [(uid (CHR ''1''), False, ''active''), (uid (CHR ''2''), False, ''active''), (uid (CHR ''3''), False, ''active'')],
         t_board_members = [],
         t_team_members = [(uid (CHR ''a''), uid (CHR ''1''), team_owner), (uid (CHR ''a''), uid (CHR ''2''), team_member)],
         t_link_grants = []\<rparr>,
      ws_meta = [(uid (CHR ''b''), ''plan'', None)],
      ws_teams = [\<lparr>tm_id = uid (CHR ''a''), tm_slug = ''team'', tm_name = ''Team'', tm_owner_user_id = uid (CHR ''1''),
        tm_is_personal = False, tm_deleted = False\<rparr>],
      ws_invites = [sample_invite (CHR ''c'') ''one'', sample_invite (CHR ''d'') ''two''],
      ws_folders = [], ws_files = [], ws_deleted_users = [], ws_subscriptions = [],
      ws_plans = [(''free'', \<lparr>max_boards = 2, max_members = 2, max_storage_bytes = 100\<rparr>)]\<rparr>"

definition sample_env :: WsEnv where
  "sample_env = \<lparr>we_sha = (\<lambda>token. token), we_invite_ttl = 60\<rparr>"

definition sample_ws :: Ws where
  "sample_ws = \<lparr>ws_db = sample_db, ws_open = []\<rparr>"

text \<open>Two boards created at the same time for the one place that is left.\<close>

definition two_boards :: "WsEvent list" where
  "two_boards =
     [Ask (uid (CHR ''1'')) 0 (PostBoard (Some ''x'') (Some (uid (CHR ''a''))) (uid (CHR ''e''))),
      Ask (uid (CHR ''2'')) 0 (PostBoard (Some ''y'') (Some (uid (CHR ''a''))) (uid (CHR ''f''))),
      Perform (InsertBoard (new_board (uid (CHR ''e'')) (uid (CHR ''a'')) (uid (CHR ''1''))) ''x'' None),
      Perform (InsertBoard (new_board (uid (CHR ''f'')) (uid (CHR ''a'')) (uid (CHR ''2''))) ''y'' None)]"

theorem plan_limits_hold_witness:
  "currentUsage (ws_db (ws_run sample_env (take 3 two_boards) sample_ws)) (uid (CHR ''a'')) Boards = 2 \<and>
   currentUsage (ws_db (ws_run sample_env two_boards sample_ws)) (uid (CHR ''a'')) Boards \<le> 2"
proof -
  have u: "currentUsage (ws_db (ws_run sample_env (take 3 two_boards) sample_ws)) (uid (CHR ''a'')) Boards = 2" by code_simp
  have o: "ws_open sample_ws = []" "boards_distinct (ws_db sample_ws)" by code_simp+
  have l: "lockTeamAndReadLimits (ws_db sample_ws) (uid (CHR ''a'')) =
      Inr \<lparr>max_boards = 2, max_members = 2, max_storage_bytes = 100\<rparr>" by code_simp
  have e: "list_all (\<lambda>ev. \<not> plan_change ev) two_boards" by (simp add: two_boards_def plan_change_def)
  have "currentUsage (ws_db sample_ws) (uid (CHR ''a'')) Boards = 1" by code_simp
  with plan_limits_hold [OF o l e refl, of sample_env] u show ?thesis by (simp add: UNLIMITED_def)
qed

definition seat_race :: "WsEvent list" where
  "seat_race =
     [Ask (uid (CHR ''2'')) 0 (AcceptInvite ''one''),
      Ask (uid (CHR ''1'')) 0 (DeleteMember (uid (CHR ''a'')) (uid (CHR ''2''))),
      Perform (RemoveMember (uid (CHR ''a'')) (uid (CHR ''2''))),
      Ask (uid (CHR ''3'')) 0 (AcceptInvite ''two''),
      Perform (Join (uid (CHR ''3'')) (sample_invite (CHR ''d'') ''two'') False),
      Perform (Join (uid (CHR ''2'')) (sample_invite (CHR ''c'') ''one'') True)]"

definition members_keyed :: "WsDb \<Rightarrow> bool" where
  "members_keyed db \<longleftrightarrow> distinct (map (\<lambda>r. (fst r, fst (snd r))) (t_team_members (ws_access db)))"

lemma count_delete2:
  assumes "distinct (map (\<lambda>r. (fst r, fst (snd r))) rows)" "lookup2 rows a b \<noteq> None"
  shows "int (sql_count (\<lambda>m. fst m = a) (delete2 a b rows)) = int (sql_count (\<lambda>m. fst m = a) rows) - 1"
  using assms
proof (induction rows)
  case (Cons r rows)
  show ?case
  proof (cases "pair_is a b r")
    case True
    then have "\<forall>q \<in> set rows. \<not> pair_is a b q"
      using Cons.prems(1) by (fastforce simp: pair_is_def intro: rev_image_eqI)
    then have "delete2 a b rows = rows" by (simp add: delete2_def sql_delete_def)
    then show ?thesis using True by (simp add: delete2_def sql_delete_def sql_count_def pair_is_def)
  next
    case False
    then have "lookup2 rows a b \<noteq> None" using Cons.prems(2) by (simp add: lookup2_pair)
    then have "int (sql_count (\<lambda>m. fst m = a) (delete2 a b rows)) = int (sql_count (\<lambda>m. fst m = a) rows) - 1"
      using Cons by simp
    then show ?thesis using False by (simp add: delete2_def sql_delete_def sql_count_def)
  qed
qed (simp add: lookup2_pair)

lemma count_join:
  "lookup2 rows a b = None \<Longrightarrow>
     sql_count (\<lambda>m. fst m = a) (upsert2 a b r rows) = Suc (sql_count (\<lambda>m. fst m = a) rows)"
  by (simp add: upsert2_def lookup2_pair sql_count_def)

text \<open>
  C16. The removal a join does not notice. Take any team that is full. Someone who is a member accepts an
  invitation of the team, which needs no place; before that transaction writes, the member is removed by
  someone who may, and a newcomer accepts another invitation and takes the place; then the write puts the
  member back. In every such case the team has one member more than its plan allows.
\<close>

theorem seat_race_exceeds_the_plan:
  assumes idle: "ws_open s = []" "members_keyed (ws_db s)"
    and full: "lockTeamAndReadLimits (ws_db s) team = Inr l" "max_members l \<noteq> UNLIMITED"
      "currentUsage (ws_db s) team Members = max_members l"
    and member: "accept_invite (we_sha E) t1 (ws_db s) v token1 = Inr (Join v i1 True)" "iv_team_id i1 = team"
    and removal: "delete_member (ws_db s) admin team v = Inr (RemoveMember team v)"
    and newcomer: "accept_invite (we_sha E) t2 (ws_db s) n token2 = Inr (Join n i2 False)" "iv_team_id i2 = team"
    and other: "iv_id i1 \<noteq> iv_id i2"
  shows "currentUsage (ws_db (ws_run E
      [Ask v t1 (AcceptInvite token1), Ask admin t3 (DeleteMember team v), Perform (RemoveMember team v),
       Ask n t2 (AcceptInvite token2), Perform (Join n i2 False), Perform (Join v i1 True)] s)) team Members =
    max_members l + 1"
proof -
  define db where "db = ws_db s"
  define m where "m = t_team_members (ws_access db)"
  define db1 where "db1 = on_team_members (delete2 team v) db"
  define w1 w2 where "w1 = Join v i1 True" and "w2 = Join n i2 False"
  have v: "lookup2 m team v \<noteq> None" and n: "lookup2 m team n = None"
    using member newcomer by (auto simp: accept_invite_def db_def m_def split: option.splits)
  then have vn: "v \<noteq> n" by auto
  have count1: "currentUsage db1 team Members = max_members l - 1"
    using full(3) count_delete2 [of m team v] idle(2) v
    by (simp add: currentUsage_def db1_def on_team_members_def on_access_def db_def [symmetric] m_def members_keyed_def)
  have limits1: "lockTeamAndReadLimits db1 team = Inr l"
    using full(1)
    by (auto simp: lockTeamAndReadLimits_def planCode_def db1_def on_team_members_def on_access_def db_def
        split: option.splits if_splits)
  have ask2: "accept_invite (we_sha E) t2 db1 n token2 = Inr w2"
    using newcomer(1) vn
    by (auto simp: accept_invite_def db1_def w2_def on_team_members_def on_access_def db_def lookup2_delete2
        split: option.splits)
  have quota: "assertQuota db1 team Members 1 = Inr ()"
    using limits1 count1 by (simp add: assertQuota_def limitFor_def)
  obtain db2 where w2: "commit_write w2 db1 = Inr db2"
    and m2: "t_team_members (ws_access db2) = upsert2 team n (iv_role i2) (delete2 team v m)"
    using quota newcomer(2)
    by (auto simp: w2_def commit_write_def join_team_def on_team_members_def on_access_def db1_def m_def)
  obtain db3 where w1: "commit_write w1 db2 = Inr db3"
    and m3: "t_team_members (ws_access db3) = upsert2 team v (iv_role i1) (upsert2 team n (iv_role i2) (delete2 team v m))"
    using member(2) m2 by (auto simp: w1_def commit_write_def join_team_def on_team_members_def on_access_def)
  have run: "ws_run E [Ask v t1 (AcceptInvite token1), Ask admin t3 (DeleteMember team v), Perform (RemoveMember team v),
       Ask n t2 (AcceptInvite token2), Perform w2, Perform w1] s = s\<lparr>ws_open := [], ws_db := db3\<rparr>"
  proof -
    have 1: "ws_step E (Ask v t1 (AcceptInvite token1)) s = s\<lparr>ws_open := [w1]\<rparr>"
      using idle(1) member(1) by (simp add: ws_step_def check_request_def invite_locked_def w1_def)
    have 2: "ws_step E (Ask admin t3 (DeleteMember team v)) (s\<lparr>ws_open := [w1]\<rparr>) =
        s\<lparr>ws_open := [RemoveMember team v, w1]\<rparr>"
      using removal by (simp add: ws_step_def check_request_def invite_locked_def)
    have 3: "ws_step E (Perform (RemoveMember team v)) (s\<lparr>ws_open := [RemoveMember team v, w1]\<rparr>) =
        s\<lparr>ws_open := [w1], ws_db := db1\<rparr>"
      by (simp add: ws_step_def commit_write_def db1_def db_def)
    have 4: "ws_step E (Ask n t2 (AcceptInvite token2)) (s\<lparr>ws_open := [w1], ws_db := db1\<rparr>) =
        s\<lparr>ws_open := [w2, w1], ws_db := db1\<rparr>"
      using ask2 other by (simp add: ws_step_def check_request_def) (simp add: invite_locked_def w1_def w2_def)
    have 5: "ws_step E (Perform w2) (s\<lparr>ws_open := [w2, w1], ws_db := db1\<rparr>) = s\<lparr>ws_open := [w1], ws_db := db2\<rparr>"
      using w2 by (simp add: ws_step_def)
    have 6: "ws_step E (Perform w1) (s\<lparr>ws_open := [w1], ws_db := db2\<rparr>) = s\<lparr>ws_open := [], ws_db := db3\<rparr>"
      using w1 by (simp add: ws_step_def)
    show ?thesis by (simp only: ws_run_def foldl.simps 1 2 3 4 5 6)
  qed
  have "lookup2 (delete2 team v m) team n = None" using n by (simp add: lookup2_delete2)
  then have "sql_count (\<lambda>r. fst r = team) (t_team_members (ws_access db3)) =
      Suc (Suc (sql_count (\<lambda>r. fst r = team) (delete2 team v m)))"
    unfolding m3 using vn by (simp add: count_join lookup2_upsert2 lookup2_delete2)
  then have "currentUsage db3 team Members = max_members l + 1"
    using count1 by (simp add: currentUsage_def db1_def on_team_members_def on_access_def m_def)
  with run show ?thesis by (simp add: w1_def w2_def)
qed

theorem seat_race_exceeds_the_plan_witness:
  "currentUsage (ws_db (ws_run sample_env seat_race sample_ws)) (uid (CHR ''a'')) Members = 3"
proof -
  let ?db = "ws_db sample_ws"
  have idle: "ws_open sample_ws = []" "members_keyed ?db" by code_simp+
  have full: "lockTeamAndReadLimits ?db (uid (CHR ''a'')) =
      Inr \<lparr>max_boards = 2, max_members = 2, max_storage_bytes = 100\<rparr>"
    "currentUsage ?db (uid (CHR ''a'')) Members = 2" by code_simp+
  have member: "accept_invite (we_sha sample_env) 0 ?db (uid (CHR ''2'')) ''one'' =
      Inr (Join (uid (CHR ''2'')) (sample_invite (CHR ''c'') ''one'') True)" by code_simp
  have removal: "delete_member ?db (uid (CHR ''1'')) (uid (CHR ''a'')) (uid (CHR ''2'')) =
      Inr (RemoveMember (uid (CHR ''a'')) (uid (CHR ''2'')))" by code_simp
  have newcomer: "accept_invite (we_sha sample_env) 0 ?db (uid (CHR ''3'')) ''two'' =
      Inr (Join (uid (CHR ''3'')) (sample_invite (CHR ''d'') ''two'') False)" by code_simp
  have teams: "iv_team_id (sample_invite (CHR ''c'') ''one'') = uid (CHR ''a'')"
    "iv_team_id (sample_invite (CHR ''d'') ''two'') = uid (CHR ''a'')"
    "iv_id (sample_invite (CHR ''c'') ''one'') \<noteq> iv_id (sample_invite (CHR ''d'') ''two'')"
    by (simp_all add: sample_invite_def uid_def)
  show ?thesis
    using seat_race_exceeds_the_plan [OF idle full(1) _ _ member teams(1) removal newcomer teams(2,3), of 0] full(2)
    by (simp add: seat_race_def UNLIMITED_def)
qed

subsection \<open>The owner of a team\<close>

definition grants_ownership :: "Write \<Rightarrow> bool" where
  "grants_ownership w \<longleftrightarrow>
     (case w of SetMemberRole _ _ r \<Rightarrow> r = team_owner | Join _ i _ \<Rightarrow> iv_role i = team_owner | InsertInvite i \<Rightarrow> iv_role i = team_owner
      | _ \<Rightarrow> False)"

definition invites_ordinary :: "WsDb \<Rightarrow> bool" where
  "invites_ordinary db \<longleftrightarrow> list_all (\<lambda>i. iv_role i \<noteq> team_owner) (ws_invites db)"

lemmas route_defs = check_request_def post_team_def patch_team_def patch_member_def delete_member_def post_invite_def
  accept_invite_def post_board_def patch_board_def delete_board_def restore_board_def duplicate_board_def put_access_def
  resolve_link_def add_board_member_def patch_board_member_def delete_board_member_def post_folder_def patch_folder_def
  delete_folder_def

lemma check_grants_nothing: "check_request E now sub req db = Inr w \<Longrightarrow> invites_ordinary db \<Longrightarrow> \<not> grants_ownership w"
  by (cases req) (auto simp: route_defs grants_ownership_def assignableTeamRole_def parseBody_def invites_ordinary_def list_all_iff
    and_then_Inr_iff Let_def dest: find_Some_in_set split: option.splits if_splits prod.splits)

lemma commit_invites: "commit_write w db = Inr db' \<Longrightarrow> invites_ordinary db \<Longrightarrow> \<not> grants_ownership w \<Longrightarrow> invites_ordinary db'"
  by (cases w) (auto simp: commit_write_def insert_team_def join_team_def insert_board_def untrash_board_def and_then_Inr_iff
    on_table_defs grants_ownership_def invites_ordinary_def list_all_iff in_set_sql_update split: if_splits option.splits)

lemma commit_owner:
  assumes "commit_write w db = Inr db'" "\<not> grants_ownership w" "team \<in> tm_id ` set (ws_teams db)"
    "lookup2 (t_team_members (ws_access db')) team u = Some team_owner"
  shows "lookup2 (t_team_members (ws_access db)) team u = Some team_owner"
  using assms
  by (cases w) (auto simp: commit_write_def insert_team_def join_team_def insert_board_def untrash_board_def and_then_Inr_iff
    on_table_defs grants_ownership_def lookup2_upsert2 lookup2_update2 lookup2_delete2 lookup2_append list_ex_iff
    split: if_splits option.splits)

lemma commit_team_ids:
  assumes "commit_write w db = Inr db'" "team \<in> tm_id ` set (ws_teams db)"
  shows "team \<in> tm_id ` set (ws_teams db')"
proof -
  obtain t where "find (\<lambda>t. tm_id t = team) (ws_teams db) = Some t" using assms(2) find_key_None [of tm_id team "ws_teams db"] by blast
  from commit_team [OF assms(1) this] show ?thesis using find_key_None [of tm_id team "ws_teams db'"] by auto
qed

text \<open>Ownership of an existing team is never given to anybody.\<close>

definition owners_inv :: "string \<Rightarrow> string set \<Rightarrow> Ws \<Rightarrow> bool" where
  "owners_inv team S s \<longleftrightarrow> team \<in> tm_id ` set (ws_teams (ws_db s)) \<and> invites_ordinary (ws_db s) \<and>
     list_all (\<lambda>w. \<not> grants_ownership w) (ws_open s) \<and>
     (\<forall>u. lookup2 (t_team_members (ws_access (ws_db s))) team u = Some team_owner \<longrightarrow> u \<in> S)"

lemma step_owners:
  assumes "owners_inv team S s"
  shows "owners_inv team S (ws_step E ev s)"
proof (cases ev)
  case (Ask sub now req)
  then show ?thesis using assms check_grants_nothing [of E now sub req "ws_db s"]
    by (auto simp: ws_step_def owners_inv_def split: sum.split)
next
  case (Perform w)
  have rest: "list_all (\<lambda>w. \<not> grants_ownership w) (remove1 w (ws_open s))"
    using assms by (auto simp: owners_inv_def list_all_iff dest: notin_set_remove1)
  show ?thesis
  proof (cases "w \<in> set (ws_open s) \<and> (\<exists>db. commit_write w (ws_db s) = Inr db)")
    case False
    then show ?thesis using assms rest Perform by (auto simp: ws_step_def owners_inv_def split: sum.split)
  next
    case True
    then obtain db where db: "commit_write w (ws_db s) = Inr db" by blast
    have i: "team \<in> tm_id ` set (ws_teams (ws_db s))" "invites_ordinary (ws_db s)" "\<not> grants_ownership w"
      using assms True by (auto simp: owners_inv_def list_all_iff)
    then show ?thesis using True db Perform rest commit_team_ids [OF db i(1)] commit_invites [OF db i(2,3)]
        commit_owner [OF db i(3,1)] assms by (auto simp: ws_step_def owners_inv_def)
  qed
qed (use assms in \<open>auto simp: ws_step_def owners_inv_def invites_ordinary_def\<close>)

lemma run_owners: "owners_inv team S s \<Longrightarrow> owners_inv team S (ws_run E evs s)"
  by (rule run_invariant [of _ "\<lambda>ev. True"]) (auto intro: step_owners simp: list_all_iff)

lemma ws_run_Cons: "ws_run E (ev # evs) s = ws_run E evs (ws_step E ev s)"
  by (simp add: ws_run_def)

text \<open>
  C15. The role of an owner is meant never to change. If the only owner of a team opens an invitation of his own team, as
  anybody may who has the link, the invitation replaces his role; from then on the team has no owner, whatever is
  done: no request makes anybody an owner, and the former one can be removed like any member.
\<close>

theorem owner_accepts_own_invite:
  assumes "ws_open s = []" "invites_ordinary (ws_db s)" "team \<in> tm_id ` set (ws_teams (ws_db s))"
    "\<And>u. lookup2 (t_team_members (ws_access (ws_db s))) team u = Some team_owner \<longleftrightarrow> u = boss"
    "accept_invite (we_sha E) now (ws_db s) boss token = Inr (Join boss i True)" "iv_team_id i = team"
  shows "lookup2 (t_team_members (ws_access (ws_db (ws_run E [Ask boss now (AcceptInvite token), Perform (Join boss i True)] s)))) team boss =
      Some (iv_role i) \<and>
    lookup2 (t_team_members (ws_access (ws_db (ws_run E (Ask boss now (AcceptInvite token) # Perform (Join boss i True) # evs) s)))) team u
      \<noteq> Some team_owner"
proof -
  let ?s = "ws_run E [Ask boss now (AcceptInvite token), Perform (Join boss i True)] s"
  have s: "ws_open ?s = []" "ws_db ?s = on_team_members (upsert2 team boss (iv_role i))
      ((ws_db s)\<lparr>ws_invites := sql_update (\<lambda>j. iv_id j = iv_id i) (\<lambda>j. j\<lparr>iv_accepted_by := Some boss\<rparr>) (ws_invites (ws_db s))\<rparr>)"
    using assms(1,5,6) by (simp_all add: ws_run_def ws_step_def check_request_def invite_locked_def commit_write_def join_team_def)
  have role: "iv_role i \<noteq> team_owner"
    using assms(2,5) check_grants_nothing [of E now boss "AcceptInvite token" "ws_db s"]
    by (simp add: check_request_def grants_ownership_def)
  have "owners_inv team {} ?s"
    using assms(2,3,4) role unfolding owners_inv_def s
    by (auto simp: on_table_defs lookup2_upsert2 invites_ordinary_def list_all_iff in_set_sql_update split: if_splits)
  from run_owners [OF this, of E evs] have "owners_inv team {} (ws_run E (Ask boss now (AcceptInvite token) # Perform (Join boss i True) # evs) s)"
    by (simp add: ws_run_Cons ws_run_def)
  then show ?thesis unfolding owners_inv_def by (auto simp: s(2) on_table_defs lookup2_upsert2)
qed

theorem owner_accepts_own_invite_witness:
  "lookup2 (t_team_members (ws_access (ws_db (ws_run sample_env
       [Ask (uid (CHR ''1'')) 0 (AcceptInvite ''one''), Perform (Join (uid (CHR ''1'')) (sample_invite (CHR ''c'') ''one'') True)] sample_ws))))
     (uid (CHR ''a'')) (uid (CHR ''1'')) = Some team_member"
proof -
  have m: "lookup2 (t_team_members (ws_access (ws_db sample_ws))) (uid (CHR ''a'')) v = Some team_owner \<longleftrightarrow> v = uid (CHR ''1'')" for v
    by (auto simp: sample_ws_def sample_db_def lookup2_pair uid_def)
  have t: "uid (CHR ''a'') \<in> tm_id ` set (ws_teams (ws_db sample_ws))" by (simp add: sample_ws_def sample_db_def)
  have i: "invites_ordinary (ws_db sample_ws)" "ws_open sample_ws = []" by code_simp+
  have a: "accept_invite (we_sha sample_env) 0 (ws_db sample_ws) (uid (CHR ''1'')) ''one'' =
      Inr (Join (uid (CHR ''1'')) (sample_invite (CHR ''c'') ''one'') True)" by code_simp
  have f: "iv_team_id (sample_invite (CHR ''c'') ''one'') = uid (CHR ''a'')" by (simp add: sample_invite_def)
  show ?thesis using owner_accepts_own_invite [OF i(2,1) t m a f, of "[]" "[]"] by (simp add: sample_invite_def)
qed

text \<open>Every other way of losing the role is barred.\<close>

definition threatens :: "string \<Rightarrow> string \<Rightarrow> Write \<Rightarrow> bool" where
  "threatens team u w \<longleftrightarrow>
     (case w of SetMemberRole t v _ \<Rightarrow> t = team \<and> v = u | RemoveMember t v \<Rightarrow> t = team \<and> v = u
      | Join v i _ \<Rightarrow> iv_team_id i = team \<and> v = u | _ \<Rightarrow> False)"

definition accepts :: "string \<Rightarrow> WsEvent \<Rightarrow> bool" where
  "accepts u ev \<longleftrightarrow> (case ev of Ask v _ (AcceptInvite _) \<Rightarrow> v = u | _ \<Rightarrow> False)"

definition live_team :: "string \<Rightarrow> WsDb \<Rightarrow> bool" where
  "live_team team db \<longleftrightarrow> list_ex (\<lambda>t. tm_id t = team \<and> \<not> tm_deleted t) (ws_teams db)"

lemma check_no_threat:
  assumes "check_request E now sub req db = Inr w" "getTeamRole db team u = Some team_owner" "\<not> accepts u (Ask sub now req)"
  shows "\<not> threatens team u w"
  using assms
  by (cases req) (auto simp: route_defs threatens_def accepts_def and_then_Inr_iff Let_def split: option.splits if_splits prod.splits)

lemma commit_no_threat:
  assumes "commit_write w db = Inr db'" "\<not> threatens team u w" "lookup2 (t_team_members (ws_access db)) team u = Some r" "live_team team db"
  shows "lookup2 (t_team_members (ws_access db')) team u = Some r \<and> live_team team db'"
proof (cases w)
  case (SetTeamName a n)
  obtain t where t: "t \<in> set (ws_teams db)" "tm_id t = team" "\<not> tm_deleted t" using assms(4) by (auto simp: live_team_def list_ex_iff)
  have "\<exists>r \<in> set (ws_teams db). if tm_id r = a then tm_id (r\<lparr>tm_name := n\<rparr>) = team \<and> \<not> tm_deleted (r\<lparr>tm_name := n\<rparr>)
      else tm_id r = team \<and> \<not> tm_deleted r" using t by (intro bexI [of _ t]) auto
  then have new: "list_ex (\<lambda>t. tm_id t = team \<and> \<not> tm_deleted t) (sql_update (\<lambda>t. tm_id t = a) (\<lambda>t. t\<lparr>tm_name := n\<rparr>) (ws_teams db))"
    unfolding list_ex_iff bex_sql_update .
  have d: "ws_teams db' = sql_update (\<lambda>t. tm_id t = a) (\<lambda>t. t\<lparr>tm_name := n\<rparr>) (ws_teams db)"
    using assms(1) SetTeamName by (auto simp: commit_write_def)
  have "live_team team db'" unfolding live_team_def d by (rule new)
  then show ?thesis using assms(1,3) SetTeamName by (auto simp: commit_write_def)
qed (use assms in \<open>auto simp: commit_write_def insert_team_def join_team_def insert_board_def untrash_board_def and_then_Inr_iff
    on_table_defs threatens_def lookup2_upsert2 lookup2_update2 lookup2_delete2 lookup2_append live_team_def
    split: if_splits option.splits\<close>)

text \<open>
  C14. Whatever the members and admins of a team do, and in whatever order the statements of their requests happen, an owner
  of the team stays its owner as long as he accepts no invitation himself.
\<close>

theorem team_owner_stays:
  assumes "ws_open s = []" "getTeamRole (ws_db s) team u = Some team_owner" "list_all (\<lambda>ev. \<not> accepts u ev) evs"
  shows "getTeamRole (ws_db (ws_run E evs s)) team u = Some team_owner"
proof -
  let ?inv = "\<lambda>s. list_all (\<lambda>w. \<not> threatens team u w) (ws_open s) \<and>
    lookup2 (t_team_members (ws_access (ws_db s))) team u = Some team_owner \<and> live_team team (ws_db s)"
  have role: "getTeamRole db team u = Some team_owner \<longleftrightarrow> lookup2 (t_team_members (ws_access db)) team u = Some team_owner \<and> live_team team db" for db
    by (simp add: getTeamRole_def live_team_def)
  have step: "?inv (ws_step E ev s)" if i: "?inv s" and a: "\<not> accepts u ev" for ev s
  proof (cases ev)
    case (Ask sub now req)
    then show ?thesis using i a check_no_threat [of E now sub req "ws_db s"] role by (auto simp: ws_step_def split: sum.split)
  next
    case (Perform w)
    have rest: "list_all (\<lambda>w. \<not> threatens team u w) (remove1 w (ws_open s))"
      using i by (auto simp: list_all_iff dest: notin_set_remove1)
    show ?thesis using i Perform rest commit_no_threat [of w "ws_db s"]
      by (auto simp: ws_step_def list_all_iff split: sum.split)
  qed (use i in \<open>auto simp: ws_step_def live_team_def\<close>)
  have "?inv s" using assms(1,2) role by simp
  from run_invariant [where I = ?inv, OF step this assms(3)] show ?thesis using role by simp
qed

theorem team_owner_stays_witness:
  "getTeamRole (ws_db (ws_run sample_env seat_race sample_ws)) (uid (CHR ''a'')) (uid (CHR ''1'')) = Some team_owner"
proof -
  have "ws_open sample_ws = []" by (simp add: sample_ws_def)
  moreover have "getTeamRole (ws_db sample_ws) (uid (CHR ''a'')) (uid (CHR ''1'')) = Some team_owner" by code_simp
  moreover have "list_all (\<lambda>ev. \<not> accepts (uid (CHR ''1'')) ev) seat_race" by (simp add: seat_race_def accepts_def uid_def)
  ultimately show ?thesis by (rule team_owner_stays)
qed

subsection \<open>Who shares a board\<close>

text \<open>Everything that decides about the access to a board and does not depend on the person or the team.\<close>

definition sharing :: "WsDb \<Rightarrow> string \<Rightarrow> BoardRow option \<times> (string \<Rightarrow> BoardRole option)" where
  "sharing db board =
     (find (\<lambda>b. b_id b = board) (t_boards (ws_access db)), lookup2 (t_board_members (ws_access db)) board)"

definition owner_of :: "WsDb \<Rightarrow> string \<Rightarrow> string \<Rightarrow> bool" where
  "owner_of db sub board \<longleftrightarrow>
     currentRole (pg_access_read (ws_access db)) sub board = Some owner \<or> assertDeletedBoardOwner (ws_access db) sub board = Inr ()"

lemma RANK_owner: "\<not> RANK r < RANK owner \<longleftrightarrow> r = owner"
  by (cases r) simp_all

lemma guardBoard_owner: "guardBoard db sub board owner = Inr r \<Longrightarrow> owner_of db sub board"
  using RANK_owner
  by (auto simp: guardBoard_def requireBoardRole_def owner_of_def currentRole_def map_sum_Inr_iff split: option.splits if_splits)

lemma trash_owner: "assertDeletedBoardOwner (ws_access db) sub board = Inr () \<Longrightarrow> owner_of db sub board"
  by (simp add: owner_of_def)

lemma live_owner:
  assumes "currentRole (pg_access_read a) sub board = Some owner"
  shows "\<exists>b \<in> set (t_boards a). b_id b = board \<and> (b_created_by b = sub \<or> lookup2 (t_board_members a) board sub = Some owner)"
proof -
  obtain inp where i: "pg_access_read a sub board = Some inp" "effectiveBoardRole inp = Some owner"
    using assms by (auto simp: currentRole_def split: option.splits)
  obtain b where b: "find (\<lambda>b. b_id b = board \<and> \<not> b_deleted b) (t_boards a) = Some b"
    using i(1) by (cases "find (\<lambda>b. b_id b = board \<and> \<not> b_deleted b) (t_boards a)") (simp_all add: pg_access_read_def)
  have row: "b \<in> set (t_boards a)" "b_id b = board" using find_Some_in_set [OF b] by simp_all
  have f: "isBoardOwner inp = (b_created_by b = sub)" "directRole inp = lookup2 (t_board_members a) board sub"
    using i(1) b row(2) by (auto simp: pg_access_read_def Let_def)
  have "mapTeamRole r \<noteq> owner" for r by (cases r) simp_all
  then have "isBoardOwner inp \<or> directRole inp = Some owner"
    using i(2) unfolding effectiveBoardRole_Some_iff granted_def by auto
  then show ?thesis using f row by auto
qed

lemma trashed_owner:
  assumes "assertDeletedBoardOwner a sub board = Inr ()"
  shows "\<exists>b \<in> set (t_boards a). b_id b = board \<and> (b_created_by b = sub \<or> lookup2 (t_board_members a) board sub = Some owner)"
proof (cases "find (\<lambda>b. b_id b = board \<and> b_deleted b) (t_boards a)")
  case (Some b)
  then show ?thesis using assms find_Some_in_set [OF Some]
    by (auto simp: assertDeletedBoardOwner_def split: if_splits)
qed (use assms in \<open>simp add: assertDeletedBoardOwner_def\<close>)

fun shares :: "Write \<Rightarrow> string option" where
  "shares (TrashBoard b) = Some b"
| "shares (UntrashBoard b) = Some b"
| "shares (SetAccess b m h) = Some b"
| "shares (SetBoardMember b u r) = Some b"
| "shares (ChangeBoardMember b u r) = Some b"
| "shares (RemoveBoardMember b u) = Some b"
| "shares w = None"

lemma check_shares:
  assumes "check_request E now sub req db = Inr w" "shares w = Some board"
  shows "owner_of db sub board"
  using assms
  by (cases req) (auto simp: route_defs and_then_Inr_iff Let_def map_sum_Inr_iff intro: guardBoard_owner trash_owner
    split: option.splits if_splits prod.splits)

lemma find_other: "find (\<lambda>b. b_id b = board) (sql_update (\<lambda>b. b_id b = other) f t) = find (\<lambda>b. b_id b = board) t"
  if "board \<noteq> other" "\<And>b. b_id (f b) = b_id b"
  using that by (induction t) auto

lemma commit_shares:
  assumes "commit_write w db = Inr db'" "shares w \<noteq> Some board" "fst (sharing db board) \<noteq> None"
  shows "sharing db' board = sharing db board"
  using assms
  by (cases w) (auto simp: commit_write_def insert_team_def join_team_def insert_board_def untrash_board_def and_then_Inr_iff
    on_table_defs sharing_def find_append find_other lookup2_upsert2 lookup2_update2 lookup2_delete2 fun_eq_iff
    split: if_splits option.splits)

text \<open>
  C11. The sharing of an existing board - its mode, its link, its direct members, whether it is in the trash - changes only
  by a request of someone who was an owner of the board when the request was checked, its creator or a direct member
  with the role owner who is not suspended; no role in the team, no link and no staff account is enough.
\<close>

theorem only_owners_share:
  assumes "check_request E now sub req db = Inr w" "commit_write w db' = Inr db''"
    "fst (sharing db' board) \<noteq> None" "sharing db'' board \<noteq> sharing db' board"
  shows "owner_of db sub board \<and>
    (\<exists>b \<in> set (t_boards (ws_access db)). b_id b = board \<and>
      (b_created_by b = sub \<or> lookup2 (t_board_members (ws_access db)) board sub = Some owner))"
proof -
  have "shares w = Some board" using commit_shares [OF assms(2) _ assms(3)] assms(4) by blast
  then have o: "owner_of db sub board" by (rule check_shares [OF assms(1)])
  then show ?thesis using live_owner trashed_owner unfolding owner_of_def by blast
qed

theorem only_owners_share_witness:
  "owner_of (ws_db sample_ws) (uid (CHR ''1'')) (uid (CHR ''b''))"
proof -
  let ?db = "ws_db sample_ws" and ?o = "uid (CHR ''1'')" and ?b = "uid (CHR ''b'')"
  let ?w = "SetAccess ?b mode_private None"
  have c: "check_request sample_env 0 ?o (PutAccess ?b mode_private False ''secret'') ?db = Inr ?w" by code_simp
  obtain db'' where d: "commit_write ?w ?db = Inr db''" by (simp add: commit_write_def)
  have b: "fst (sharing ?db ?b) = Some (new_board ?b (uid (CHR ''a'')) ?o)"
    by (simp add: sharing_def sample_ws_def sample_db_def new_board_def)
  moreover have "fst (sharing db'' ?b) = Some ((new_board ?b (uid (CHR ''a'')) ?o)\<lparr>b_access_mode := mode_private, b_link_token_hash := None\<rparr>)"
    using d by (auto simp: commit_write_def on_table_defs sharing_def sample_ws_def sample_db_def new_board_def)
  ultimately have "sharing db'' ?b \<noteq> sharing ?db ?b" by (auto simp: new_board_def dest: arg_cong [of _ _ fst])
  moreover have "fst (sharing ?db ?b) \<noteq> None" using b by simp
  ultimately show ?thesis using only_owners_share [OF c d, of ?b] by blast
qed

subsection \<open>The end of a link\<close>

definition link_of :: "WsDb \<Rightarrow> string \<Rightarrow> string option" where
  "link_of db board = (case find (\<lambda>b. b_id b = board) (t_boards (ws_access db)) of Some b \<Rightarrow> b_link_token_hash b | None \<Rightarrow> None)"

definition brings_back :: "string \<Rightarrow> string \<Rightarrow> Write \<Rightarrow> bool" where
  "brings_back board h w \<longleftrightarrow> (case w of SetAccess b _ x \<Rightarrow> b = board \<and> x = Some h | InsertBoard b _ _ \<Rightarrow> b_link_token_hash b = Some h | _ \<Rightarrow> False)"

definition generates :: "WsEnv \<Rightarrow> string \<Rightarrow> WsEvent \<Rightarrow> bool" where
  "generates E h ev \<longleftrightarrow> (case ev of Ask _ _ (PutAccess _ _ _ token) \<Rightarrow> we_sha E token = h | _ \<Rightarrow> False)"

definition dead_link :: "string \<Rightarrow> string \<Rightarrow> Ws \<Rightarrow> bool" where
  "dead_link board h s \<longleftrightarrow> link_of (ws_db s) board \<noteq> Some h \<and> list_all (\<lambda>w. \<not> brings_back board h w) (ws_open s)"

lemma check_dead_link:
  assumes "check_request E now sub req db = Inr w" "link_of db board \<noteq> Some h" "\<not> generates E h (Ask sub now req)"
  shows "\<not> brings_back board h w"
  using assms
  by (cases req) (auto simp: route_defs brings_back_def generates_def link_of_def new_board_def and_then_Inr_iff Let_def
    split: option.splits if_splits prod.splits)

lemma commit_dead_link:
  assumes "commit_write w db = Inr db'" "link_of db board \<noteq> Some h" "\<not> brings_back board h w"
  shows "link_of db' board \<noteq> Some h"
  using assms
  by (cases w) (auto simp: commit_write_def insert_team_def join_team_def insert_board_def untrash_board_def and_then_Inr_iff
    on_table_defs link_of_def brings_back_def find_append find_sql_update_key [where key = b_id]
    dest: find_Some_in_set split: if_splits option.splits)

lemma step_dead_link:
  assumes "dead_link board h s" "\<not> generates E h ev"
  shows "dead_link board h (ws_step E ev s)"
proof (cases ev)
  case (Ask sub now req)
  then show ?thesis using assms check_dead_link [of E now sub req "ws_db s"]
    by (auto simp: ws_step_def dead_link_def split: sum.split)
next
  case (Perform w)
  have "list_all (\<lambda>w. \<not> brings_back board h w) (remove1 w (ws_open s))"
    using assms(1) by (auto simp: dead_link_def list_all_iff dest: notin_set_remove1)
  then show ?thesis using assms(1) Perform commit_dead_link [of w "ws_db s"]
    by (auto simp: ws_step_def dead_link_def list_all_iff split: sum.split)
qed (use assms(1) in \<open>auto simp: ws_step_def dead_link_def link_of_def\<close>)

lemma step_distinct: "boards_distinct (ws_db s) \<Longrightarrow> boards_distinct (ws_db (ws_step E ev s))"
proof (cases ev)
  case (Perform w)
  assume "boards_distinct (ws_db s)"
  then show ?thesis using Perform commit_boards_distinct [of "ws_db s" w] by (auto simp: ws_step_def split: sum.split)
qed (auto simp: ws_step_def boards_distinct_def split: sum.split)

text \<open>
  C12. Once the link of a board was replaced or switched off and no older change of the sharing is still under way, the old
  link is dead in every continuation in which no new token has the same hash: opening it never leads to
  the board, and whoever holds a grant from it has no access by a link.
\<close>

theorem revoked_link_is_dead:
  assumes "dead_link board h s" "list_all (\<lambda>ev. \<not> generates E h ev) evs" "boards_distinct (ws_db s)" "ws_db (ws_run E evs s) = db"
  shows "(\<forall>sub token now w. we_sha E token = h \<and> check_request E now sub (ResolveLink token) db = Inr w \<longrightarrow> w \<noteq> SetGrant board sub h) \<and>
    (\<forall>sub inp. lookup2 (t_link_grants (ws_access db)) board sub = Some h \<and> pg_access_read (ws_access db) sub board = Some inp \<longrightarrow>
      \<not> hasValidLink inp)"
proof -
  have "dead_link board h (ws_run E evs s)" by (rule run_invariant [of "dead_link board h", OF step_dead_link assms(1,2)])
  then have link: "link_of db board \<noteq> Some h" using assms(4) by (simp add: dead_link_def)
  have "boards_distinct (ws_db (ws_run E evs s))"
    by (rule run_invariant [of "\<lambda>s. boards_distinct (ws_db s)" "\<lambda>ev. True"]) (simp_all add: step_distinct assms(3) list_all_iff)
  then have distinct: "boards_distinct db" using assms(4) by simp
  have row: "b_link_token_hash b \<noteq> Some h" if "b \<in> set (t_boards (ws_access db))" "b_id b = board" for b
  proof -
    have "find (\<lambda>x. b_id x = board) (t_boards (ws_access db)) = Some b"
      using that distinct by (intro find_unique) (auto simp: boards_distinct_def distinct_map inj_on_def)
    then show ?thesis using link by (simp add: link_of_def)
  qed
  show ?thesis
  proof (intro conjI allI impI)
    fix sub token now w assume "we_sha E token = h \<and> check_request E now sub (ResolveLink token) db = Inr w"
    then show "w \<noteq> SetGrant board sub h"
      using row by (auto simp: check_request_def resolve_link_def and_then_Inr_iff dest!: find_Some_in_set split: option.splits)
  next
    fix sub inp
    assume a: "lookup2 (t_link_grants (ws_access db)) board sub = Some h \<and> pg_access_read (ws_access db) sub board = Some inp"
    then obtain b where b: "find (\<lambda>b. b_id b = board \<and> \<not> b_deleted b) (t_boards (ws_access db)) = Some b"
      by (auto simp: pg_access_read_def split: option.splits)
    have i: "b \<in> set (t_boards (ws_access db))" "b_id b = board" using find_Some_in_set [OF b] by simp_all
    then show "\<not> hasValidLink inp" using a b row [OF i] by (auto simp: pg_access_read_def Let_def)
  qed
qed

text \<open>A board with a link, replaced by its owner.\<close>

definition linked_db :: WsDb where
  "linked_db = on_boards (map (\<lambda>b. b\<lparr>b_access_mode := mode_link_view, b_link_token_hash := Some ''first-token''\<rparr>)) sample_db"

definition replaced_link :: Ws where
  "replaced_link = ws_run sample_env
     [Ask (uid (CHR ''3'')) 0 (ResolveLink ''first-token''), Perform (SetGrant (uid (CHR ''b'')) (uid (CHR ''3'')) ''first-token''),
      Ask (uid (CHR ''1'')) 0 (PutAccess (uid (CHR ''b'')) mode_link_view True ''second-token''),
      Perform (SetAccess (uid (CHR ''b'')) mode_link_view (Some ''second-token''))] \<lparr>ws_db = linked_db, ws_open = []\<rparr>"

theorem revoked_link_is_dead_witness:
  "lookup2 (t_link_grants (ws_access (ws_db replaced_link))) (uid (CHR ''b'')) (uid (CHR ''3'')) = Some ''first-token'' \<and>
   (\<exists>inp. pg_access_read (ws_access (ws_db replaced_link)) (uid (CHR ''3'')) (uid (CHR ''b'')) = Some inp \<and> \<not> hasValidLink inp)"
proof -
  have "pg_access_read (ws_access (ws_db replaced_link)) (uid (CHR ''3'')) (uid (CHR ''b'')) \<noteq> None" by code_simp
  then obtain inp where i: "pg_access_read (ws_access (ws_db replaced_link)) (uid (CHR ''3'')) (uid (CHR ''b'')) = Some inp" by blast
  have g: "lookup2 (t_link_grants (ws_access (ws_db replaced_link))) (uid (CHR ''b'')) (uid (CHR ''3'')) = Some ''first-token''" by code_simp
  have d: "dead_link (uid (CHR ''b'')) ''first-token'' replaced_link" by code_simp
  have b: "boards_distinct (ws_db replaced_link)" by code_simp
  have "ws_db (ws_run sample_env [] replaced_link) = ws_db replaced_link" by (simp add: ws_run_def)
  from revoked_link_is_dead [OF d _ b this] g i show ?thesis by auto
qed

lemma link_of_SetAccess:
  assumes "find (\<lambda>b. b_id b = board) (t_boards (ws_access db)) = Some b" "commit_write (SetAccess board m h) db = Inr db'"
  shows "link_of db' board = h"
  using assms find_Some_in_set [OF assms(1)]
  by (auto simp: commit_write_def on_table_defs link_of_def find_sql_update_key [where key = b_id])

text \<open>
  C13. The reading of the link and its writing are two statements. If the owner changes the mode while he also asks for
  a new link, and the requests overlap, the change that keeps the link writes the old one back: after the new link was
  made and reported the old one opens the board again and the new one does not.
\<close>

theorem stale_sharing_revives_link:
  assumes "ws_open s = []" "is_uuid board" "guardBoard (ws_db s) sub board owner = Inr r"
    "find (\<lambda>b. b_id b = board) (t_boards (ws_access (ws_db s))) = Some b" "b_link_token_hash b = Some h"
    "link_mode m1" "link_mode m2" "we_sha E token \<noteq> h"
    "ws_run E [Ask sub now (PutAccess board m1 False spare), Ask sub now (PutAccess board m2 True token),
       Perform (SetAccess board m2 (Some (we_sha E token)))] s = s1"
    "ws_run E [Perform (SetAccess board m1 (Some h))] s1 = s2"
  shows "link_of (ws_db s1) board = Some (we_sha E token) \<and> link_of (ws_db s2) board = Some h"
proof -
  let ?w1 = "SetAccess board m1 (Some h)" and ?w2 = "SetAccess board m2 (Some (we_sha E token))"
  have c: "check_request E now sub (PutAccess board m1 False spare) (ws_db s) = Inr ?w1"
    "check_request E now sub (PutAccess board m2 True token) (ws_db s) = Inr ?w2"
    using assms(2-7) by (simp_all add: check_request_def put_access_def assertUuid_def)
  obtain db1 where db1: "commit_write ?w2 (ws_db s) = Inr db1" by (simp add: commit_write_def)
  have s1: "s1 = s\<lparr>ws_open := [?w1], ws_db := db1\<rparr>"
    using assms(1,8,9) c db1 by (auto simp: ws_run_def ws_step_def invite_locked_def)
  obtain b1 where b1: "find (\<lambda>b. b_id b = board) (t_boards (ws_access db1)) = Some b1"
    using db1 assms(4) by (auto simp: commit_write_def on_table_defs find_sql_update_key [where key = b_id])
  obtain db2 where db2: "commit_write ?w1 db1 = Inr db2" by (simp add: commit_write_def)
  have "ws_db s2 = db2" using assms(10) db2 by (auto simp: s1 ws_run_def ws_step_def)
  then show ?thesis using link_of_SetAccess [OF assms(4) db1] link_of_SetAccess [OF b1 db2] by (simp add: s1)
qed

theorem stale_sharing_revives_link_witness:
  "\<exists>s2. ws_run sample_env
      [Ask (uid (CHR ''1'')) 0 (PutAccess (uid (CHR ''b'')) mode_link_edit False ''spare''),
       Ask (uid (CHR ''1'')) 0 (PutAccess (uid (CHR ''b'')) mode_link_view True ''second-token''),
       Perform (SetAccess (uid (CHR ''b'')) mode_link_view (Some ''second-token'')),
       Perform (SetAccess (uid (CHR ''b'')) mode_link_edit (Some ''first-token''))] \<lparr>ws_db = linked_db, ws_open = []\<rparr> = s2 \<and>
    link_of (ws_db s2) (uid (CHR ''b'')) = Some ''first-token''"
proof -
  let ?s = "\<lparr>ws_db = linked_db, ws_open = []\<rparr>" and ?b = "uid (CHR ''b'')" and ?o = "uid (CHR ''1'')"
  let ?evs = "[Ask ?o 0 (PutAccess ?b mode_link_edit False ''spare''), Ask ?o 0 (PutAccess ?b mode_link_view True ''second-token''),
    Perform (SetAccess ?b mode_link_view (Some (we_sha sample_env ''second-token'')))]"
  let ?row = "(new_board ?b (uid (CHR ''a'')) ?o)\<lparr>b_access_mode := mode_link_view, b_link_token_hash := Some ''first-token''\<rparr>"
  have u: "is_uuid ?b" by code_simp
  have g: "guardBoard (ws_db ?s) ?o ?b owner = Inr owner" by code_simp
  have f: "find (\<lambda>b. b_id b = ?b) (t_boards (ws_access (ws_db ?s))) = Some ?row"
    by (simp add: linked_db_def on_table_defs sample_db_def new_board_def)
  have o: "ws_open ?s = []" by simp
  have h: "b_link_token_hash ?row = Some ''first-token''" by simp
  have m: "link_mode mode_link_edit" "link_mode mode_link_view" "we_sha sample_env ''second-token'' \<noteq> ''first-token''"
    by (simp_all add: link_mode_def sample_env_def)
  note w = stale_sharing_revives_link [OF o u g f h m refl refl, of 0 "''spare''"]
  have "ws_run sample_env (?evs @ [Perform (SetAccess ?b mode_link_edit (Some ''first-token''))]) ?s =
      ws_run sample_env [Perform (SetAccess ?b mode_link_edit (Some ''first-token''))] (ws_run sample_env ?evs ?s)"
    by (simp add: ws_run_def)
  with w show ?thesis by (simp add: sample_env_def)
qed

end
