(* ===== verification/Protocol.thy ===== *)
theory Protocol
  imports Access "HOL-Library.Word"
begin

text \<open>
  The WebSocket messages of \<open>packages/ydoc-schema/src/protocol.ts\<close> and the error codes of
  \<open>error-codes.ts\<close>. The byte codec of \<open>lib0\<close> is the record \<open>lib0\<close> of its readers and writers, with the
  documented law that a reader gives back what the writer wrote and leaves the rest; \<open>lib0_ok\<close> states
  it, and \<open>leb\<close> is the variable-length code that realises it, over bytes.
\<close>

type_synonym bytes = "8 word list"

subsection \<open>The byte codec\<close>

record lib0 =
  writeVarUint :: "nat \<Rightarrow> bytes"
  readVarUint :: "bytes \<Rightarrow> (nat \<times> bytes) option"
  writeVarUint8Array :: "bytes \<Rightarrow> bytes"
  readVarUint8Array :: "bytes \<Rightarrow> (bytes \<times> bytes) option"
  writeVarString :: "string \<Rightarrow> bytes"
  readVarString :: "bytes \<Rightarrow> (string \<times> bytes) option"

definition lib0_ok :: "lib0 \<Rightarrow> bool" where
  "lib0_ok L \<longleftrightarrow>
     (\<forall>n rest. readVarUint L (writeVarUint L n @ rest) = Some (n, rest)) \<and>
     (\<forall>b rest. readVarUint8Array L (writeVarUint8Array L b @ rest) = Some (b, rest)) \<and>
     (\<forall>s rest. readVarString L (writeVarString L s @ rest) = Some (s, rest)) \<and>
     readVarUint L [] = None"

subsection \<open>Messages\<close>

definition MSG_SYNC :: nat where "MSG_SYNC = 0"
definition MSG_AWARENESS :: nat where "MSG_AWARENESS = 1"
definition MSG_HB_AUTH_REFRESH :: nat where "MSG_HB_AUTH_REFRESH = 16"
definition MSG_HB_PERMISSION :: nat where "MSG_HB_PERMISSION = 17"
definition MSG_HB_ROOM_INFO :: nat where "MSG_HB_ROOM_INFO = 18"
definition MSG_HB_EPHEMERAL :: nat where "MSG_HB_EPHEMERAL = 19"
definition MSG_HB_ERROR :: nat where "MSG_HB_ERROR = 20"

lemmas msg_types = MSG_SYNC_def MSG_AWARENESS_def MSG_HB_AUTH_REFRESH_def MSG_HB_PERMISSION_def
  MSG_HB_ROOM_INFO_def MSG_HB_EPHEMERAL_def MSG_HB_ERROR_def

datatype SaveStatus = saved | saving | unsaved

definition WIRE_ROLES :: "BoardRole list" where "WIRE_ROLES = [owner, editor, commenter, viewer]"

definition SAVE_STATUSES :: "SaveStatus list" where "SAVE_STATUSES = [saved, saving, unsaved]"

datatype HbMessage =
    SYNC bytes
  | AWARENESS bytes
  | HB_AUTH_REFRESH string
  | HB_PERMISSION BoardRole
  | HB_ROOM_INFO nat nat SaveStatus
  | HB_EPHEMERAL nat string
  | HB_ERROR string string

datatype HbErrorCode =
  CLIENT_TOO_OLD | HB_FORBIDDEN | TOKEN_EXPIRED | TOKEN_INVALID | TOKEN_MISSING | SERVER_BUSY |
  DOC_TOO_LARGE | ROOM_CLOSED

definition HB_ERROR_CODES :: "(string \<times> HbErrorCode) list" where
  "HB_ERROR_CODES =
     [(''CLIENT_TOO_OLD'', CLIENT_TOO_OLD), (''FORBIDDEN'', HB_FORBIDDEN),
      (''TOKEN_EXPIRED'', TOKEN_EXPIRED), (''TOKEN_INVALID'', TOKEN_INVALID),
      (''TOKEN_MISSING'', TOKEN_MISSING), (''SERVER_BUSY'', SERVER_BUSY),
      (''DOC_TOO_LARGE'', DOC_TOO_LARGE), (''ROOM_CLOSED'', ROOM_CLOSED)]"

definition isKnownErrorCode :: "string \<Rightarrow> bool" where
  "isKnownErrorCode code \<longleftrightarrow> code \<in> set (map fst HB_ERROR_CODES)"

text \<open>\<open>xs.indexOf(x)\<close> of an element that is present, and \<open>xs[i] ?? d\<close>.\<close>

fun index_of :: "'a list \<Rightarrow> 'a \<Rightarrow> nat" where
  "index_of [] x = 0"
| "index_of (y # ys) x = (if y = x then 0 else Suc (index_of ys x))"

definition readRole :: "nat \<Rightarrow> BoardRole" where
  "readRole i = (if i < length WIRE_ROLES then WIRE_ROLES ! i else viewer)"

definition readSaveStatus :: "nat \<Rightarrow> SaveStatus" where
  "readSaveStatus i = (if i < length SAVE_STATUSES then SAVE_STATUSES ! i else unsaved)"

fun encodeMessage :: "lib0 \<Rightarrow> HbMessage \<Rightarrow> bytes" where
  "encodeMessage L (SYNC p) = writeVarUint L MSG_SYNC @ writeVarUint8Array L p"
| "encodeMessage L (AWARENESS p) = writeVarUint L MSG_AWARENESS @ writeVarUint8Array L p"
| "encodeMessage L (HB_AUTH_REFRESH t) = writeVarUint L MSG_HB_AUTH_REFRESH @ writeVarString L t"
| "encodeMessage L (HB_PERMISSION r) =
     writeVarUint L MSG_HB_PERMISSION @ writeVarUint L (index_of WIRE_ROLES r)"
| "encodeMessage L (HB_ROOM_INFO users sq save) =
     writeVarUint L MSG_HB_ROOM_INFO @ writeVarUint L users @ writeVarUint L sq @
       writeVarUint L (index_of SAVE_STATUSES save)"
| "encodeMessage L (HB_EPHEMERAL c p) =
     writeVarUint L MSG_HB_EPHEMERAL @ writeVarUint L c @ writeVarString L p"
| "encodeMessage L (HB_ERROR c m) =
     writeVarUint L MSG_HB_ERROR @ writeVarString L c @ writeVarString L m"

text \<open>
  \<open>Inl\<close> is the \<open>ProtocolError\<close> with its message type, \<open>Inr None\<close> an unknown type or an unreadable type
  byte. A field that cannot be read is the exception the \<open>catch\<close> turns into the protocol error.
\<close>

definition payload :: "nat \<Rightarrow> ('a \<times> bytes) option \<Rightarrow> ('a \<Rightarrow> HbMessage) \<Rightarrow> nat + HbMessage option" where
  "payload ty r k = (case r of None \<Rightarrow> Inl ty | Some (v, _) \<Rightarrow> Inr (Some (k v)))"

definition and_then :: "('a \<times> bytes) option \<Rightarrow> ('a \<Rightarrow> bytes \<Rightarrow> ('b \<times> bytes) option) \<Rightarrow> ('b \<times> bytes) option" where
  "and_then r f = (case r of None \<Rightarrow> None | Some (v, rest) \<Rightarrow> f v rest)"

definition decode_room_info :: "lib0 \<Rightarrow> bytes \<Rightarrow> ((nat \<times> nat \<times> nat) \<times> bytes) option" where
  "decode_room_info L d =
     and_then (readVarUint L d) (\<lambda>users d. and_then (readVarUint L d) (\<lambda>sq d.
       and_then (readVarUint L d) (\<lambda>save d. Some ((users, sq, save), d))))"

definition decodeMessage :: "lib0 \<Rightarrow> bytes \<Rightarrow> nat + HbMessage option" where
  "decodeMessage L data =
     (case readVarUint L data of
        None \<Rightarrow> Inr None
      | Some (ty, d) \<Rightarrow>
          if ty = MSG_SYNC then payload ty (readVarUint8Array L d) SYNC
          else if ty = MSG_AWARENESS then payload ty (readVarUint8Array L d) AWARENESS
          else if ty = MSG_HB_AUTH_REFRESH then payload ty (readVarString L d) HB_AUTH_REFRESH
          else if ty = MSG_HB_PERMISSION
          then payload ty (readVarUint L d) (\<lambda>i. HB_PERMISSION (readRole i))
          else if ty = MSG_HB_ROOM_INFO
          then payload ty (decode_room_info L d)
                 (\<lambda>(users, sq, save). HB_ROOM_INFO users sq (readSaveStatus save))
          else if ty = MSG_HB_EPHEMERAL
          then payload ty (and_then (readVarUint L d) (\<lambda>c d. and_then (readVarString L d)
                 (\<lambda>p d. Some ((c, p), d)))) (\<lambda>(c, p). HB_EPHEMERAL c p)
          else if ty = MSG_HB_ERROR
          then payload ty (and_then (readVarString L d) (\<lambda>c d. and_then (readVarString L d)
                 (\<lambda>m d. Some ((c, m), d)))) (\<lambda>(c, m). HB_ERROR c m)
          else Inr None)"

subsection \<open>Round trip and forward compatibility\<close>

lemma readRole_index [simp]: "readRole (index_of WIRE_ROLES r) = r"
  by (cases r) (simp_all add: readRole_def WIRE_ROLES_def)

lemma readSaveStatus_index [simp]: "readSaveStatus (index_of SAVE_STATUSES s) = s"
  by (cases s) (simp_all add: readSaveStatus_def SAVE_STATUSES_def)

lemma lib0_laws:
  assumes "lib0_ok L"
  shows "readVarUint L (writeVarUint L n @ rest) = Some (n, rest)"
    and "readVarUint8Array L (writeVarUint8Array L b @ rest) = Some (b, rest)"
    and "readVarString L (writeVarString L s @ rest) = Some (s, rest)"
  using assms by (simp_all add: lib0_ok_def)

lemmas decode_simps = decodeMessage_def decode_room_info_def payload_def and_then_def msg_types

text \<open>
  C37. Every message survives the wire, and so does its reading by an older client: whatever bytes
  a newer version appends after it, decoding gives exactly the message that was encoded.
\<close>

theorem protocol_roundtrip:
  assumes "lib0_ok L"
  shows "decodeMessage L (encodeMessage L m @ extra) = Inr (Some m)"
  by (cases m) (simp_all add: decode_simps lib0_laws [OF assms])

text \<open>
  Reading fails closed: a message of an unknown type is ignored and one of a known type whose
  fields cannot be read is a protocol error, never the other way round; a role index this version does
  not know is read as the least privileged role, and an unknown save status as "not saved".
\<close>

theorem decode_fails_closed:
  assumes "lib0_ok L"
  shows "(ty \<notin> {MSG_SYNC, MSG_AWARENESS, MSG_HB_AUTH_REFRESH, MSG_HB_PERMISSION, MSG_HB_ROOM_INFO,
        MSG_HB_EPHEMERAL, MSG_HB_ERROR} \<longrightarrow> decodeMessage L (writeVarUint L ty @ d) = Inr None) \<and>
    (decodeMessage L data = Inl ty' \<longrightarrow> (\<exists>d. readVarUint L data = Some (ty', d)) \<and>
       ty' \<in> {MSG_SYNC, MSG_AWARENESS, MSG_HB_AUTH_REFRESH, MSG_HB_PERMISSION, MSG_HB_ROOM_INFO,
         MSG_HB_EPHEMERAL, MSG_HB_ERROR}) \<and>
    (readVarUint L d = None \<longrightarrow>
       decodeMessage L (writeVarUint L MSG_HB_PERMISSION @ d) = Inl MSG_HB_PERMISSION) \<and>
    (4 \<le> i \<longrightarrow> decodeMessage L (writeVarUint L MSG_HB_PERMISSION @ writeVarUint L i @ d) =
       Inr (Some (HB_PERMISSION viewer)) \<and> (\<forall>r. viewer \<le> r)) \<and>
    (3 \<le> i \<longrightarrow> decodeMessage L (writeVarUint L MSG_HB_ROOM_INFO @ writeVarUint L users @
         writeVarUint L sq @ writeVarUint L i @ d) = Inr (Some (HB_ROOM_INFO users sq unsaved)))"
proof (intro conjI impI)
  assume "decodeMessage L data = Inl ty'"
  then show "\<exists>d. readVarUint L data = Some (ty', d)"
    and "ty' \<in> {MSG_SYNC, MSG_AWARENESS, MSG_HB_AUTH_REFRESH, MSG_HB_PERMISSION, MSG_HB_ROOM_INFO,
         MSG_HB_EPHEMERAL, MSG_HB_ERROR}"
    by (auto simp: decodeMessage_def payload_def split: option.splits if_splits prod.splits)
next
  show "\<forall>r. viewer \<le> r" by (simp add: role_order)
qed (simp_all add: decode_simps lib0_laws [OF assms] readRole_def readSaveStatus_def WIRE_ROLES_def
    SAVE_STATUSES_def)

subsection \<open>A codec\<close>

text \<open>
  The seven-bit variable-length code: the low seven bits of each byte carry the number, the top bit
  says that more follow. Arrays and strings are prefixed with their length.
\<close>

fun leb_write :: "nat \<Rightarrow> bytes" where
  "leb_write n = (if n < 128 then [word_of_nat n] else word_of_nat (128 + n mod 128) # leb_write (n div 128))"

declare leb_write.simps [simp del]

fun leb_read :: "bytes \<Rightarrow> (nat \<times> bytes) option" where
  "leb_read [] = None"
| "leb_read (b # rest) =
     (if unat b < 128 then Some (unat b, rest)
      else (case leb_read rest of None \<Rightarrow> None | Some (n, r) \<Rightarrow> Some (unat b - 128 + 128 * n, r)))"

lemma unat_byte: "n < 256 \<Longrightarrow> unat (word_of_nat n :: 8 word) = n"
  by (simp add: unsigned_of_nat take_bit_eq_mod)

lemma leb_roundtrip: "leb_read (leb_write n @ rest) = Some (n, rest)"
proof (induction n rule: leb_write.induct)
  case (1 n)
  show ?case
  proof (cases "n < 128")
    case True
    then show ?thesis by (subst leb_write.simps) (simp add: unat_byte)
  next
    case False
    define w :: "8 word" where "w = word_of_nat (128 + n mod 128)"
    have w: "unat w = 128 + n mod 128" unfolding w_def by (rule unat_byte) simp
    have "leb_write n = w # leb_write (n div 128)"
      using False by (subst leb_write.simps) (simp add: w_def)
    moreover have "leb_read (leb_write (n div 128) @ rest) = Some (n div 128, rest)" using 1 False by simp
    ultimately show ?thesis by (simp add: w)
  qed
qed

definition leb_write_array :: "bytes \<Rightarrow> bytes" where
  "leb_write_array b = leb_write (length b) @ b"

definition leb_read_array :: "bytes \<Rightarrow> (bytes \<times> bytes) option" where
  "leb_read_array d = (case leb_read d of None \<Rightarrow> None
     | Some (n, r) \<Rightarrow> if length r < n then None else Some (take n r, drop n r))"

definition byte_of_char :: "char \<Rightarrow> 8 word" where "byte_of_char c = word_of_nat (of_char c)"
definition char_of_byte :: "8 word \<Rightarrow> char" where "char_of_byte b = char_of (unat b)"

lemma char_byte [simp]: "char_of_byte (byte_of_char c) = c"
proof -
  have "(of_char c :: nat) < 256" by simp
  then show ?thesis by (simp add: char_of_byte_def byte_of_char_def unat_byte)
qed

definition leb :: lib0 where
  "leb = \<lparr> writeVarUint = leb_write, readVarUint = leb_read,
     writeVarUint8Array = leb_write_array, readVarUint8Array = leb_read_array,
     writeVarString = (\<lambda>s. leb_write_array (map byte_of_char s)),
     readVarString = (\<lambda>d. map_option (\<lambda>(b, r). (map char_of_byte b, r)) (leb_read_array d)) \<rparr>"

lemma leb_ok [simp]: "lib0_ok leb"
  by (simp add: lib0_ok_def leb_def leb_roundtrip leb_write_array_def leb_read_array_def comp_def)

theorem protocol_roundtrip_witness:
  "decodeMessage leb (encodeMessage leb (HB_ROOM_INFO 3 300 saved) @ [7, 255]) =
     Inr (Some (HB_ROOM_INFO 3 300 saved))"
  by (rule protocol_roundtrip [OF leb_ok])

theorem decode_fails_closed_witness:
  "decodeMessage leb (writeVarUint leb MSG_HB_PERMISSION @ writeVarUint leb 9 @ []) =
     Inr (Some (HB_PERMISSION viewer))"
  using decode_fails_closed [OF leb_ok, of 0 "[]" "[]" 0 9 0 0] by simp

end
