(* ===== verification/ValueCodec.thy ===== *)
theory ValueCodec
  imports HB_Prelude "HOL-Library.AList"
begin

text \<open>
  The differential writer of \<open>packages/ydoc-schema/src/value-codec.ts\<close> and the element codec of
  \<open>element-codec.ts\<close>: a plain JavaScript object is written into a \<open>Y.Map\<close> key by key, nested objects
  become nested maps, the text keys become \<open>Y.Text\<close>, and only what differs is written. A document value is
  a tree as the local client sees it; the merge of concurrent updates is Yjs and not modelled, and neither
  is the editing of a \<open>Y.Text\<close> itself, which is the parameter \<open>YText\<close>.

  Strings are lists of UTF-16 code units here, because the text diff works on code units. Plain objects
  have no key of \<open>Object.prototype\<close>. Numbers are integers.
\<close>

subsection \<open>Values\<close>

type_synonym js_string = "nat list"

definition u :: "string \<Rightarrow> js_string" where
  "u s = map of_char s"

text \<open>\<open>JSBin\<close> is a \<open>Uint8Array\<close>.\<close>

datatype jsval =
    JSUndef | JSNull | JSBool bool | JSNum int | JSStr js_string | JSBin "nat list"
  | JSArr "jsval list" | JSObj "(js_string \<times> jsval) list"

type_synonym fields = "(js_string \<times> jsval) list"

text \<open>A value in the shared document; a \<open>Y.Map\<close> is an association list with distinct keys.\<close>

datatype yval = YPlain jsval | YTxt js_string | YMap "(js_string \<times> yval) list" | YArr "yval list"

type_synonym ymap = "(js_string \<times> yval) list"

text \<open>The entries of a \<open>Uint8Array\<close> as an object: its bytes under their indices.\<close>

definition bin_entries :: "nat list \<Rightarrow> fields" where
  "bin_entries b = map (\<lambda>i. (u (show_nat i), JSNum (int (b ! i)))) [0..<length b]"

text \<open>\<open>isPlainObject\<close> with \<open>Object.entries\<close>: anything that is an object, not null and not an array.\<close>

fun plain_entries :: "jsval \<Rightarrow> fields option" where
  "plain_entries (JSObj fs) = Some fs"
| "plain_entries (JSBin b) = Some (bin_entries b)"
| "plain_entries v = None"

definition isPlainObject :: "jsval \<Rightarrow> bool" where
  "isPlainObject v \<longleftrightarrow> plain_entries v \<noteq> None"

lemma size_field [termination_simp]: "p \<in> set fs \<Longrightarrow> size (snd p) < Suc (size_list (size_prod (\<lambda>x. 0) size) fs)"
  by (induction fs) (auto simp: less_SucI)

function deepEqual :: "jsval \<Rightarrow> jsval \<Rightarrow> bool" where
  "deepEqual (JSArr xs) b = (case b of JSArr ys \<Rightarrow> list_all2 deepEqual xs ys | _ \<Rightarrow> False)"
| "deepEqual (JSObj fs) b = (case plain_entries b of
     None \<Rightarrow> False
   | Some gs \<Rightarrow> length fs = length gs \<and>
       list_all (\<lambda>p. case map_of gs (fst p) of None \<Rightarrow> False | Some y \<Rightarrow> deepEqual (snd p) y) fs)"
| "deepEqual (JSBin a) b = (case plain_entries b of
     None \<Rightarrow> False
   | Some gs \<Rightarrow> length a = length gs \<and> list_all (\<lambda>p. map_of gs (fst p) = Some (snd p)) (bin_entries a))"
| "deepEqual JSUndef b \<longleftrightarrow> b = JSUndef"
| "deepEqual JSNull b \<longleftrightarrow> b = JSNull"
| "deepEqual (JSBool x) b \<longleftrightarrow> b = JSBool x"
| "deepEqual (JSNum n) b \<longleftrightarrow> b = JSNum n"
| "deepEqual (JSStr s) b \<longleftrightarrow> b = JSStr s"
  by pat_completeness auto
termination by (relation "measure (\<lambda>(a, b). size a)") (auto simp: termination_simp)

fun toJSON :: "yval \<Rightarrow> jsval" where
  "toJSON (YPlain v) = v"
| "toJSON (YTxt s) = JSStr s"
| "toJSON (YMap m) = JSObj (map (\<lambda>p. (fst p, toJSON (snd p))) m)"
| "toJSON (YArr vs) = JSArr (map toJSON vs)"

text \<open>\<open>plainOf\<close> of \<open>target.get(key)\<close>, which is undefined for an absent key.\<close>

definition plainOf :: "yval option \<Rightarrow> jsval" where
  "plainOf v = (case v of None \<Rightarrow> JSUndef | Some y \<Rightarrow> toJSON y)"

subsection \<open>The text diff\<close>

text \<open>
  Editing a \<open>Y.Text\<close>. Indices are code units; the documentation of Yjs promises list editing where an
  index does not fall inside a surrogate pair (an item may not be split there).
\<close>

record YText =
  yt_delete :: "js_string \<Rightarrow> nat \<Rightarrow> nat \<Rightarrow> js_string"
  yt_insert :: "js_string \<Rightarrow> nat \<Rightarrow> js_string \<Rightarrow> js_string"

definition high_surrogate :: "nat \<Rightarrow> bool" where
  "high_surrogate c \<longleftrightarrow> 55296 \<le> c \<and> c \<le> 56319"

definition low_surrogate :: "nat \<Rightarrow> bool" where
  "low_surrogate c \<longleftrightarrow> 56320 \<le> c \<and> c \<le> 57343"

definition splits_pair :: "js_string \<Rightarrow> nat \<Rightarrow> bool" where
  "splits_pair s i \<longleftrightarrow> 0 < i \<and> i < length s \<and> high_surrogate (s ! (i - 1)) \<and> low_surrogate (s ! i)"

definition ytext_ok :: "YText \<Rightarrow> bool" where
  "ytext_ok T \<longleftrightarrow>
     (\<forall>s i n. i + n \<le> length s \<and> \<not> splits_pair s i \<and> \<not> splits_pair s (i + n) \<longrightarrow>
        yt_delete T s i n = take i s @ drop (i + n) s) \<and>
     (\<forall>s i t. i \<le> length s \<and> \<not> splits_pair s i \<longrightarrow> yt_insert T s i t = take i s @ t @ drop i s)"

definition list_text :: YText where
  "list_text = \<lparr>yt_delete = (\<lambda>s i n. take i s @ drop (i + n) s), yt_insert = (\<lambda>s i t. take i s @ t @ drop i s)\<rparr>"

lemma list_text_ok: "ytext_ok list_text"
  by (simp add: ytext_ok_def list_text_def)

function prefix_end :: "js_string \<Rightarrow> js_string \<Rightarrow> nat \<Rightarrow> nat" where
  "prefix_end base nxt start =
     (if start < min (length base) (length nxt) \<and> base ! start = nxt ! start
      then prefix_end base nxt (start + 1) else start)"
  by pat_completeness auto
termination by (relation "measure (\<lambda>(base, nxt, start). min (length base) (length nxt) - start)") auto

function suffix_ends :: "js_string \<Rightarrow> js_string \<Rightarrow> nat \<Rightarrow> nat \<Rightarrow> nat \<Rightarrow> nat \<times> nat" where
  "suffix_ends base nxt start endBase endNext =
     (if start < endBase \<and> start < endNext \<and> base ! (endBase - 1) = nxt ! (endNext - 1)
      then suffix_ends base nxt start (endBase - 1) (endNext - 1) else (endBase, endNext))"
  by pat_completeness auto
termination by (relation "measure (\<lambda>(base, nxt, start, endBase, endNext). endBase)") auto

declare prefix_end.simps [simp del] suffix_ends.simps [simp del]

text \<open>The operations sent to Yjs, as the update that the other clients receive.\<close>

datatype YOp = DeleteKey js_string | SetKey js_string | TextDelete nat nat | TextInsert nat js_string

definition text_edit :: "js_string \<Rightarrow> js_string \<Rightarrow> nat \<times> nat \<times> nat" where
  "text_edit base nxt =
     (let start = prefix_end base nxt 0;
          (endBase, endNext) = suffix_ends base nxt start (length base) (length nxt)
      in (start, endBase, endNext))"

definition applyTextDiff :: "YText \<Rightarrow> js_string \<Rightarrow> js_string \<Rightarrow> js_string \<times> YOp list" where
  "applyTextDiff T ytext nxt =
     (if ytext = nxt then (ytext, [])
      else
        let (start, endBase, endNext) = text_edit ytext nxt;
            del = (if start < endBase then [TextDelete start (endBase - start)] else []);
            ins = (if start < endNext then [TextInsert start (take (endNext - start) (drop start nxt))] else []);
            t = (if start < endBase then yt_delete T ytext start (endBase - start) else ytext);
            t = (if start < endNext then yt_insert T t start (take (endNext - start) (drop start nxt)) else t)
        in (t, del @ ins))"

lemma prefix_end_spec:
  assumes "start \<le> min (length base) (length nxt)" "take start base = take start nxt"
  shows "prefix_end base nxt start \<le> min (length base) (length nxt) \<and> start \<le> prefix_end base nxt start \<and>
    take (prefix_end base nxt start) base = take (prefix_end base nxt start) nxt"
  using assms
proof (induction base nxt start rule: prefix_end.induct)
  case (1 base nxt start)
  show ?case
  proof (cases "start < min (length base) (length nxt) \<and> base ! start = nxt ! start")
    case True
    then have "take (Suc start) base = take (Suc start) nxt"
      using 1(3) by (simp add: take_Suc_conv_app_nth)
    with 1(1) [OF True] True show ?thesis by (subst (1 2 3 4) prefix_end.simps) simp
  next
    case False
    then show ?thesis using 1(2,3) by (subst (1 2 3 4) prefix_end.simps) auto
  qed
qed

lemma suffix_ends_spec:
  assumes "start \<le> endBase" "endBase \<le> length base" "start \<le> endNext" "endNext \<le> length nxt"
    "drop endBase base = drop endNext nxt" "suffix_ends base nxt start endBase endNext = (eb, en)"
  shows "start \<le> eb \<and> eb \<le> length base \<and> start \<le> en \<and> en \<le> length nxt \<and> drop eb base = drop en nxt"
  using assms
proof (induction base nxt start endBase endNext rule: suffix_ends.induct)
  case (1 base nxt start endBase endNext)
  show ?case
  proof (cases "start < endBase \<and> start < endNext \<and> base ! (endBase - 1) = nxt ! (endNext - 1)")
    case True
    have "endBase - 1 < length base" "endNext - 1 < length nxt" using True 1(3,5) by arith+
    with True have "drop (endBase - 1) base = drop (endNext - 1) nxt"
      using 1(3,5,6) Cons_nth_drop_Suc [of "endBase - 1" base] Cons_nth_drop_Suc [of "endNext - 1" nxt] by simp
    moreover have "suffix_ends base nxt start (endBase - 1) (endNext - 1) = (eb, en)"
      using 1(7) True by (subst (asm) suffix_ends.simps) simp
    moreover have "start \<le> endBase - 1" "endBase - 1 \<le> length base" "start \<le> endNext - 1" "endNext - 1 \<le> length nxt"
      using True 1(3,5) by arith+
    ultimately show ?thesis using 1(1) [OF True] by blast
  next
    case False
    then have "eb = endBase \<and> en = endNext" using 1(7) by (subst (asm) suffix_ends.simps) auto
    then show ?thesis using 1(2-6) by simp
  qed
qed

text \<open>The edit replaces the middle between the longest common ends.\<close>

lemma text_edit_spec:
  assumes "text_edit base nxt = (st, eb, en)"
  shows "st \<le> eb" "eb \<le> length base" "st \<le> en" "en \<le> length nxt"
    "take st base = take st nxt" "drop eb base = drop en nxt"
    "nxt = take st base @ take (en - st) (drop st nxt) @ drop eb base"
proof -
  have st: "st = prefix_end base nxt 0"
    and ends: "suffix_ends base nxt st (length base) (length nxt) = (eb, en)"
    using assms by (auto simp: text_edit_def Let_def split: prod.splits)
  have p: "st \<le> min (length base) (length nxt)" "take st base = take st nxt"
    using prefix_end_spec [of 0 base nxt] by (simp_all add: st)
  with suffix_ends_spec [OF _ _ _ _ _ ends] have s: "st \<le> eb" "eb \<le> length base" "st \<le> en" "en \<le> length nxt"
    "drop eb base = drop en nxt" by simp_all
  show "st \<le> eb" "eb \<le> length base" "st \<le> en" "en \<le> length nxt" "take st base = take st nxt" "drop eb base = drop en nxt"
    using p s by simp_all
  have "drop st nxt = take (en - st) (drop st nxt) @ drop en nxt"
    using s(3) by (metis append_take_drop_id drop_drop le_add_diff_inverse2)
  then show "nxt = take st base @ take (en - st) (drop st nxt) @ drop eb base"
    using p(2) s(5) by (metis append_take_drop_id)
qed

text \<open>Where no edit falls inside a surrogate pair, the diff makes the text the new string.\<close>

definition whole_edit :: "js_string \<Rightarrow> js_string \<Rightarrow> bool" where
  "whole_edit base nxt \<longleftrightarrow> (case text_edit base nxt of (st, eb, en) \<Rightarrow>
     \<not> splits_pair base st \<and> \<not> splits_pair base eb \<and> \<not> splits_pair (take st base @ drop eb base) st)"

lemma applyTextDiff_result:
  assumes T: "ytext_ok T" and w: "base \<noteq> nxt \<Longrightarrow> whole_edit base nxt"
  shows "fst (applyTextDiff T base nxt) = nxt"
proof (cases "base = nxt")
  case False
  obtain st eb en where e: "text_edit base nxt = (st, eb, en)" by (cases "text_edit base nxt") auto
  note spec = text_edit_spec [OF e]
  have w': "\<not> splits_pair base st" "\<not> splits_pair base eb" "\<not> splits_pair (take st base @ drop eb base) st"
    using w [OF False] e by (simp_all add: whole_edit_def)
  have del: "(if st < eb then yt_delete T base st (eb - st) else base) = take st base @ drop eb base"
  proof (cases "st < eb")
    case True
    then show ?thesis using T w' spec by (simp add: ytext_ok_def)
  next
    case False
    then have "eb = st" using spec by simp
    then show ?thesis by simp
  qed
  have ins: "(if st < en then yt_insert T (take st base @ drop eb base) st t else take st base @ drop eb base) =
      take st base @ (if st < en then t else []) @ drop eb base" for t
  proof (cases "st < en")
    case True
    have "length (take st base) = st" using spec by simp
    then show ?thesis using T w'(3) True spec by (simp add: ytext_ok_def)
  qed simp
  have "fst (applyTextDiff T base nxt) = take st base @ (if st < en then take (en - st) (drop st nxt) else []) @ drop eb base"
    using False by (simp add: applyTextDiff_def e del ins)
  also have "\<dots> = nxt" using spec(3,7) by (cases "st < en") auto
  finally show ?thesis .
qed (simp add: applyTextDiff_def)

lemma applyTextDiff_same [simp]: "applyTextDiff T s s = (s, [])"
  by (simp add: applyTextDiff_def)

definition plane0 :: "js_string \<Rightarrow> bool" where
  "plane0 s \<longleftrightarrow> list_all (\<lambda>c. \<not> high_surrogate c) s"

lemma plane0_whole: "plane0 base \<Longrightarrow> whole_edit base nxt"
proof -
  assume p: "plane0 base"
  have no: "\<not> splits_pair s i" if "plane0 s" for s i
  proof
    assume "splits_pair s i"
    then have "i - 1 < length s" "high_surrogate (s ! (i - 1))" by (auto simp: splits_pair_def)
    with that show False by (auto simp: plane0_def list_all_length)
  qed
  have "plane0 (take st base @ drop eb base)" for st eb
    using p by (auto simp: plane0_def list_all_iff dest: in_set_takeD in_set_dropD)
  then show ?thesis using p no by (simp add: whole_edit_def split: prod.split)
qed

subsection \<open>The differential writer\<close>

text \<open>\<open>source[key] === undefined\<close>\<close>

definition undefined_in :: "fields \<Rightarrow> js_string \<Rightarrow> bool" where
  "undefined_in source k \<longleftrightarrow> map_of source k \<in> {None, Some JSUndef}"

definition prune :: "fields \<Rightarrow> ymap \<Rightarrow> ymap \<times> YOp list" where
  "prune source target =
     (filter (\<lambda>p. \<not> undefined_in source (fst p)) target,
      map (DeleteKey \<circ> fst) (filter (\<lambda>p. undefined_in source (fst p)) target))"

text \<open>The last branch, and the nested map a plain object is written into.\<close>

definition write_leaf :: "js_string \<Rightarrow> jsval \<Rightarrow> ymap \<Rightarrow> ymap \<times> YOp list" where
  "write_leaf k v m = (if deepEqual (plainOf (map_of m k)) v then (m, []) else (AList.update k (YPlain v) m, [SetKey k]))"

definition nested_of :: "js_string \<Rightarrow> ymap \<Rightarrow> ymap \<times> YOp list" where
  "nested_of k m = (case map_of m k of Some (YMap n) \<Rightarrow> (n, []) | _ \<Rightarrow> ([], [SetKey k]))"

fun write_leaves :: "fields \<Rightarrow> ymap \<Rightarrow> ymap \<times> YOp list" where
  "write_leaves [] m = (m, [])"
| "write_leaves ((k, v) # es) m =
     (let (m1, o1) = write_leaf k v m; (m2, o2) = write_leaves es m1 in (m2, o1 @ o2))"

text \<open>The loop over \<open>Object.entries(source)\<close>; \<open>keys\<close> are the text keys.\<close>

fun write_entries :: "YText \<Rightarrow> js_string list \<Rightarrow> fields \<Rightarrow> ymap \<Rightarrow> ymap \<times> YOp list" where
  "write_entries T keys [] m = (m, [])"
| "write_entries T keys ((k, JSUndef) # es) m = write_entries T keys es m"
| "write_entries T keys ((k, JSStr s) # es) m =
     (if k \<in> set keys
      then
        let (t, o1) = (case map_of m k of Some (YTxt t) \<Rightarrow> (t, []) | _ \<Rightarrow> ([], [SetKey k]));
            (t', o2) = applyTextDiff T t s;
            (m', o3) = write_entries T keys es (AList.update k (YTxt t') m)
        in (m', o1 @ o2 @ o3)
      else
        let (m1, o1) = write_leaf k (JSStr s) m; (m', o2) = write_entries T keys es m1 in (m', o1 @ o2))"
| "write_entries T keys ((k, JSObj fs) # es) m =
     (let (n, o1) = nested_of k m;
          (n1, o2) = prune fs n;
          (n2, o3) = write_entries T keys fs n1;
          (m', o4) = write_entries T keys es (AList.update k (YMap n2) m)
      in (m', o1 @ o2 @ o3 @ o4))"
| "write_entries T keys ((k, JSBin b) # es) m =
     (let (n, o1) = nested_of k m;
          (n1, o2) = prune (bin_entries b) n;
          (n2, o3) = write_leaves (bin_entries b) n1;
          (m', o4) = write_entries T keys es (AList.update k (YMap n2) m)
      in (m', o1 @ o2 @ o3 @ o4))"
| "write_entries T keys ((k, JSNull) # es) m =
     (let (m1, o1) = write_leaf k JSNull m; (m', o2) = write_entries T keys es m1 in (m', o1 @ o2))"
| "write_entries T keys ((k, JSBool b) # es) m =
     (let (m1, o1) = write_leaf k (JSBool b) m; (m', o2) = write_entries T keys es m1 in (m', o1 @ o2))"
| "write_entries T keys ((k, JSNum n) # es) m =
     (let (m1, o1) = write_leaf k (JSNum n) m; (m', o2) = write_entries T keys es m1 in (m', o1 @ o2))"
| "write_entries T keys ((k, JSArr vs) # es) m =
     (let (m1, o1) = write_leaf k (JSArr vs) m; (m', o2) = write_entries T keys es m1 in (m', o1 @ o2))"

definition writeInto :: "YText \<Rightarrow> js_string list \<Rightarrow> bool \<Rightarrow> fields \<Rightarrow> ymap \<Rightarrow> ymap \<times> YOp list" where
  "writeInto T keys pruned source target =
     (let (m1, o1) = (if pruned then prune source target else (target, []));
          (m2, o2) = write_entries T keys source m1
      in (m2, o1 @ o2))"

subsection \<open>The element codec\<close>

definition Y_TEXT_KEYS :: "js_string list" where
  "Y_TEXT_KEYS = [u ''originalText'']"

definition element_id :: "fields \<Rightarrow> js_string" where
  "element_id e = (case map_of e (u ''id'') of Some (JSStr i) \<Rightarrow> i | _ \<Rightarrow> [])"

definition writeElement :: "YText \<Rightarrow> fields \<Rightarrow> ymap \<Rightarrow> ymap \<times> YOp list" where
  "writeElement T e elements =
     (let (m, o1) = nested_of (element_id e) elements;
          (m', o2) = writeInto T Y_TEXT_KEYS True e m
      in (AList.update (element_id e) (YMap m') elements, o1 @ o2))"

definition readElement :: "ymap \<Rightarrow> jsval" where
  "readElement m = toJSON (YMap m)"

subsection \<open>What a written map holds\<close>

text \<open>
  The map holds a source when its keys are the defined ones and each value agrees: text for a text key,
  a nested map that holds the nested object, and anything deeply equal otherwise.
\<close>

fun holds_value :: "js_string list \<Rightarrow> js_string \<Rightarrow> jsval \<Rightarrow> yval option \<Rightarrow> bool" where
  "holds_value keys k JSUndef y \<longleftrightarrow> True"
| "holds_value keys k (JSStr s) y \<longleftrightarrow>
     (if k \<in> set keys then y = Some (YTxt s) else deepEqual (plainOf y) (JSStr s))"
| "holds_value keys k (JSObj fs) y \<longleftrightarrow> (case y of
     Some (YMap n) \<Rightarrow> list_all (\<lambda>p. \<not> undefined_in fs (fst p)) n \<and>
       list_all (\<lambda>p. holds_value keys (fst p) (snd p) (map_of n (fst p))) fs
   | _ \<Rightarrow> False)"
| "holds_value keys k (JSBin b) y \<longleftrightarrow> (case y of
     Some (YMap n) \<Rightarrow> list_all (\<lambda>p. \<not> undefined_in (bin_entries b) (fst p)) n \<and>
       list_all (\<lambda>p. deepEqual (plainOf (map_of n (fst p))) (snd p)) (bin_entries b)
   | _ \<Rightarrow> False)"
| "holds_value keys k v y \<longleftrightarrow> deepEqual (plainOf y) v"

definition holds_entries :: "js_string list \<Rightarrow> fields \<Rightarrow> ymap \<Rightarrow> bool" where
  "holds_entries keys es m \<longleftrightarrow> list_all (\<lambda>p. holds_value keys (fst p) (snd p) (map_of m (fst p))) es"

definition only_keys :: "fields \<Rightarrow> ymap \<Rightarrow> bool" where
  "only_keys source m \<longleftrightarrow> list_all (\<lambda>p. \<not> undefined_in source (fst p)) m"

text \<open>
  No text the writer edits is cut inside a surrogate pair: where a text key has a text already, that text
  is the new one or the edit between them is whole. Nothing is asked of a text that is written afresh.
\<close>

fun cuts_no_pair :: "js_string list \<Rightarrow> js_string \<Rightarrow> jsval \<Rightarrow> yval option \<Rightarrow> bool" where
  "cuts_no_pair keys k (JSStr s) y \<longleftrightarrow>
     (k \<in> set keys \<longrightarrow> (case y of Some (YTxt t) \<Rightarrow> t = s \<or> whole_edit t s | _ \<Rightarrow> True))"
| "cuts_no_pair keys k (JSObj fs) y \<longleftrightarrow> (case y of
     Some (YMap n) \<Rightarrow> list_all (\<lambda>p. cuts_no_pair keys (fst p) (snd p) (map_of n (fst p))) fs
   | _ \<Rightarrow> True)"
| "cuts_no_pair keys k v y \<longleftrightarrow> True"

definition entries_whole :: "js_string list \<Rightarrow> fields \<Rightarrow> ymap \<Rightarrow> bool" where
  "entries_whole keys es m \<longleftrightarrow> list_all (\<lambda>p. cuts_no_pair keys (fst p) (snd p) (map_of m (fst p))) es"

lemma cuts_no_pair_new [simp]: "cuts_no_pair keys k v None"
  by (cases v) simp_all

lemma entries_whole_nested:
  assumes "cuts_no_pair keys k (JSObj fs) (map_of m k)"
  shows "entries_whole keys fs (fst (nested_of k m))"
  using assms by (auto simp: entries_whole_def nested_of_def list_all_iff split: option.splits yval.splits)

lemma entries_whole_free: "entries_whole [] es m"
proof -
  have "cuts_no_pair keys k v y" if "keys = []" for keys k v y
    using that by (induction keys k v y rule: cuts_no_pair.induct) (auto simp: list_all_iff split: option.split yval.split)
  then show ?thesis by (simp add: entries_whole_def list_all_iff)
qed

text \<open>Objects as JavaScript has them: no key twice.\<close>

fun wf_val :: "jsval \<Rightarrow> bool" where
  "wf_val (JSObj fs) \<longleftrightarrow> distinct (map fst fs) \<and> list_all (\<lambda>p. wf_val (snd p)) fs"
| "wf_val (JSArr vs) \<longleftrightarrow> list_all wf_val vs"
| "wf_val v \<longleftrightarrow> True"

text \<open>Every text the diff will meet satisfies \<open>P\<close>: the texts of the map, and the strings under text keys.\<close>

fun texts :: "(js_string \<Rightarrow> bool) \<Rightarrow> yval \<Rightarrow> bool" where
  "texts P (YTxt s) \<longleftrightarrow> P s"
| "texts P (YMap m) \<longleftrightarrow> list_all (\<lambda>p. texts P (snd p)) m"
| "texts P v \<longleftrightarrow> True"

fun wf_yval :: "yval \<Rightarrow> bool" where
  "wf_yval (YMap m) \<longleftrightarrow> distinct (map fst m) \<and> list_all (\<lambda>p. wf_yval (snd p)) m"
| "wf_yval v \<longleftrightarrow> True"

lemma map_of_defined: "distinct (map fst m) \<Longrightarrow> p \<in> set m \<Longrightarrow> map_of m (fst p) = Some (snd p)"
  by (cases p) simp

lemma list_all_snd_update:
  "list_all (\<lambda>p. P (snd p)) m \<Longrightarrow> P v \<Longrightarrow> list_all (\<lambda>p. P (snd p)) (AList.update k v m)"
  by (induction m) auto

lemma map_of_all: "list_all (\<lambda>p. P (snd p)) m \<Longrightarrow> map_of m k = Some v \<Longrightarrow> P v"
  by (induction m) (auto split: if_splits)

lemma keys_update: "fst ` set (AList.update k v m) = insert k (fst ` set m)"
  by (induction m) auto

lemma map_of_filter_key: "map_of (filter (\<lambda>p. Q (fst p)) m) k = (if Q k then map_of m k else None)"
  by (induction m) auto

lemma prune_facts:
  "only_keys src (fst (prune src m))"
  "fst ` set (fst (prune src m)) \<subseteq> fst ` set m"
  "texts P (YMap m) \<Longrightarrow> texts P (YMap (fst (prune src m)))"
  "wf_yval (YMap m) \<Longrightarrow> wf_yval (YMap (fst (prune src m)))"
proof -
  show "only_keys src (fst (prune src m))" by (auto simp: prune_def only_keys_def list_all_iff)
  show "fst ` set (fst (prune src m)) \<subseteq> fst ` set m" by (auto simp: prune_def)
  show "texts P (YMap m) \<Longrightarrow> texts P (YMap (fst (prune src m)))" by (auto simp: prune_def list_all_iff)
  show "wf_yval (YMap m) \<Longrightarrow> wf_yval (YMap (fst (prune src m)))"
    by (auto simp: prune_def list_all_iff distinct_map intro: inj_on_subset)
qed

lemma entries_whole_prune: "entries_whole keys es m \<Longrightarrow> entries_whole keys es (fst (prune src m))"
  by (auto simp: entries_whole_def prune_def list_all_iff map_of_filter_key [where Q = "\<lambda>k. \<not> undefined_in src k"])

lemma nested_of_cases:
  obtains n where "map_of m k = Some (YMap n)" "nested_of k m = (n, [])"
  | "nested_of k m = ([], [SetKey k])" "\<nexists>n. map_of m k = Some (YMap n)"
  by (cases "map_of m k"; cases "the (map_of m k)") (auto simp: nested_of_def)

lemma nested_facts:
  assumes "\<And>n. P (YMap n) \<longleftrightarrow> Q n" "Q []" "list_all (\<lambda>p. P (snd p)) m"
  shows "Q (fst (nested_of k m))"
proof (cases rule: nested_of_cases [of m k])
  case (1 n)
  then show ?thesis using map_of_all [OF assms(3) 1(1)] assms(1) by simp
qed (use assms(2) in simp)

lemma nested_texts: "texts P (YMap m) \<Longrightarrow> texts P (YMap (fst (nested_of k m)))"
  by (rule nested_facts [where P = "texts P" and m = m]) simp_all

lemma nested_wf: "wf_yval (YMap m) \<Longrightarrow> wf_yval (YMap (fst (nested_of k m)))"
  by (rule nested_facts [where P = wf_yval and m = m]) simp_all

lemma u_inj: "u s = u t \<Longrightarrow> s = t"
  unfolding u_def by (erule map_injective) (simp add: inj_def)

lemma bin_keys_distinct: "distinct (map fst (bin_entries b))"
proof -
  have "inj_on (\<lambda>i. u (show_nat i)) A" for A
    by (rule inj_onI) (blast dest: u_inj show_nat_inj)
  then show ?thesis by (simp add: bin_entries_def distinct_map comp_def)
qed

lemma deepEqual_refl: "wf_val v \<Longrightarrow> deepEqual v v"
proof (induction v)
  case (JSObj fs)
  have "deepEqual (snd p) (snd p)" if "p \<in> set fs" for p
    using JSObj that by (cases p) (auto simp: list_all_iff)
  moreover have "map_of fs (fst p) = Some (snd p)" if "p \<in> set fs" for p
    using JSObj(2) that by (simp add: map_of_defined)
  ultimately show ?case by (simp add: list_all_iff)
next
  case (JSArr vs)
  then show ?case by (simp add: list_all_iff list.rel_refl_strong)
next
  case (JSBin b)
  then show ?case using map_of_defined [OF bin_keys_distinct, of _ b] by (simp add: list_all_iff) (simp add: bin_entries_def)
qed simp_all

subsection \<open>Writing makes the map hold the source\<close>

definition written :: "js_string list \<Rightarrow> fields \<Rightarrow> ymap \<Rightarrow> ymap \<Rightarrow> bool" where
  "written keys es m m' \<longleftrightarrow>
     (\<forall>k. k \<notin> fst ` set es \<longrightarrow> map_of m' k = map_of m k) \<and> holds_entries keys es m' \<and>
     fst ` set m' \<subseteq> fst ` set m \<union> {k. \<not> undefined_in es k} \<and> wf_yval (YMap m')"

definition head_written :: "js_string list \<Rightarrow> js_string \<Rightarrow> jsval \<Rightarrow> ymap \<Rightarrow> ymap \<Rightarrow> bool" where
  "head_written keys k v m m1 \<longleftrightarrow>
     (\<forall>k'. k' \<noteq> k \<longrightarrow> map_of m1 k' = map_of m k') \<and> holds_value keys k v (map_of m1 k) \<and>
     fst ` set m1 \<subseteq> insert k (fst ` set m) \<and> wf_yval (YMap m1)"

lemma writtenD:
  assumes "written keys es m m'"
  shows "k \<notin> fst ` set es \<Longrightarrow> map_of m' k = map_of m k" "holds_entries keys es m'"
    "k \<in> fst ` set m' \<Longrightarrow> k \<in> fst ` set m \<or> \<not> undefined_in es k" "wf_yval (YMap m')"
proof -
  show "k \<notin> fst ` set es \<Longrightarrow> map_of m' k = map_of m k" "holds_entries keys es m'" "wf_yval (YMap m')"
    using assms unfolding written_def by blast+
  show "k \<in> fst ` set m' \<Longrightarrow> k \<in> fst ` set m \<or> \<not> undefined_in es k"
    using assms unfolding written_def by blast
qed

lemma writtenI:
  assumes "\<And>k. k \<notin> fst ` set es \<Longrightarrow> map_of m' k = map_of m k" "holds_entries keys es m'"
    "\<And>k. k \<in> fst ` set m' \<Longrightarrow> k \<in> fst ` set m \<or> \<not> undefined_in es k" "wf_yval (YMap m')"
  shows "written keys es m m'"
  using assms unfolding written_def by blast

lemma head_writtenD:
  assumes "head_written keys k v m m1"
  shows "k' \<noteq> k \<Longrightarrow> map_of m1 k' = map_of m k'" "holds_value keys k v (map_of m1 k)"
    "k' \<in> fst ` set m1 \<Longrightarrow> k' = k \<or> k' \<in> fst ` set m" "wf_yval (YMap m1)"
  using assms unfolding head_written_def by blast+

lemma undefined_Cons:
  assumes "k \<notin> fst ` set es"
  shows "undefined_in ((k, v) # es) k' \<longleftrightarrow> (if k' = k then v = JSUndef else undefined_in es k')"
  by (simp add: undefined_in_def)

lemma written_Cons:
  assumes k: "k \<notin> fst ` set es" and v: "v \<noteq> JSUndef" and h: "head_written keys k v m m1" and w: "written keys es m1 m'"
  shows "written keys ((k, v) # es) m m'"
proof (rule writtenI)
  note hd = head_writtenD [OF h] and wd = writtenD [OF w]
  show "map_of m' k' = map_of m k'" if "k' \<notin> fst ` set ((k, v) # es)" for k'
    using that hd(1) wd(1) by simp
  show "holds_entries keys ((k, v) # es) m'"
    using hd(2) wd(1) [OF k] wd(2) by (simp add: holds_entries_def)
  show "k' \<in> fst ` set m \<or> \<not> undefined_in ((k, v) # es) k'" if "k' \<in> fst ` set m'" for k'
    using wd(3) [OF that] hd(3) [of k'] v undefined_Cons [OF k] by metis
  show "wf_yval (YMap m')" by (rule wd(4))
qed

lemma written_Nil: "wf_yval (YMap m) \<Longrightarrow> written keys [] m m"
  by (rule writtenI) (simp_all add: holds_entries_def)

lemma written_undef:
  assumes k: "k \<notin> fst ` set es" and w: "written keys es m m'"
  shows "written keys ((k, JSUndef) # es) m m'"
proof (rule writtenI)
  note wd = writtenD [OF w]
  show "map_of m' k' = map_of m k'" if "k' \<notin> fst ` set ((k, JSUndef) # es)" for k'
    using that wd(1) by simp
  show "holds_entries keys ((k, JSUndef) # es) m'" using wd(2) by (simp add: holds_entries_def)
  show "k' \<in> fst ` set m \<or> \<not> undefined_in ((k, JSUndef) # es) k'" if "k' \<in> fst ` set m'" for k'
  proof (cases "k' = k")
    case True
    then have "k' \<in> fst ` set m" using wd(1) [OF k] that by (metis map_of_eq_None_iff)
    then show ?thesis ..
  next
    case False
    then show ?thesis using wd(3) [OF that] undefined_Cons [OF k] by simp
  qed
  show "wf_yval (YMap m')" by (rule wd(4))
qed

lemma head_written_update:
  assumes "wf_yval (YMap m)" "wf_yval y" "holds_value keys k v (Some y)"
  shows "head_written keys k v m (AList.update k y m)"
proof -
  have "distinct (map fst (AList.update k y m))" using assms(1) by (simp add: distinct_update)
  moreover have "list_all (\<lambda>p. wf_yval (snd p)) (AList.update k y m)"
    using assms(1,2) by (intro list_all_snd_update [where P = wf_yval]) simp_all
  ultimately show ?thesis using assms(3) by (simp add: head_written_def update_conv' keys_update)
qed

text \<open>The values the last branch writes.\<close>

fun is_leaf :: "js_string list \<Rightarrow> js_string \<Rightarrow> jsval \<Rightarrow> bool" where
  "is_leaf keys k JSUndef = False"
| "is_leaf keys k (JSStr s) = (k \<notin> set keys)"
| "is_leaf keys k (JSObj fs) = False"
| "is_leaf keys k (JSBin b) = False"
| "is_leaf keys k v = True"

lemma holds_leaf: "is_leaf keys k v \<Longrightarrow> holds_value keys k v y \<longleftrightarrow> deepEqual (plainOf y) v"
  by (cases v) simp_all

lemma head_written_leaf:
  assumes "wf_yval (YMap m)" "wf_val v" "is_leaf keys k v"
  shows "head_written keys k v m (fst (write_leaf k v m))"
proof (cases "deepEqual (plainOf (map_of m k)) v")
  case True
  then show ?thesis using assms holds_leaf [OF assms(3)] by (auto simp: write_leaf_def head_written_def)
next
  case False
  have "deepEqual v v" by (rule deepEqual_refl [OF assms(2)])
  then have "holds_value keys k v (Some (YPlain v))" using holds_leaf [OF assms(3)] by (simp add: plainOf_def)
  then show ?thesis using False head_written_update [OF assms(1)] by (simp add: write_leaf_def)
qed

lemma write_leaves_written:
  assumes "distinct (map fst es)" "list_all (\<lambda>p. \<exists>n. snd p = JSNum n) es" "wf_yval (YMap m)"
  shows "written keys es m (fst (write_leaves es m))"
  using assms
proof (induction es arbitrary: m)
  case Nil
  then show ?case by (simp add: written_Nil)
next
  case (Cons p es)
  then obtain k n where p: "p = (k, JSNum n)" by (cases p) auto
  have h: "head_written keys k (JSNum n) m (fst (write_leaf k (JSNum n) m))"
    by (rule head_written_leaf) (use Cons(4) in simp_all)
  have "written keys es (fst (write_leaf k (JSNum n) m)) (fst (write_leaves es (fst (write_leaf k (JSNum n) m))))"
    using Cons h by (intro Cons(1)) (simp_all add: head_written_def)
  then show ?case using h p Cons(2) by (auto simp: split_beta intro!: written_Cons)
qed

lemma bin_entries_nums: "list_all (\<lambda>p. \<exists>n. snd p = JSNum n) (bin_entries b)"
  by (simp add: bin_entries_def list_all_iff)

text \<open>A nested map that was pruned to a source and written with it holds the object.\<close>

lemma only_keys_iff: "only_keys src m \<longleftrightarrow> (\<forall>k \<in> fst ` set m. \<not> undefined_in src k)"
  by (auto simp: only_keys_def list_all_iff)

lemma only_keys_written:
  assumes "only_keys src n" "written keys src n n'"
  shows "only_keys src n'"
  using assms writtenD(3) unfolding only_keys_iff by metis

lemma entries_whole_after:
  assumes "entries_whole keys ((k, v) # es) m" "k \<notin> fst ` set es" "head_written keys k v m m1"
  shows "entries_whole keys es m1"
  unfolding entries_whole_def list_all_iff
proof (intro ballI)
  fix p assume p: "p \<in> set es"
  with assms(2) have "fst p \<noteq> k" by auto
  with head_writtenD(1) [OF assms(3)] have "map_of m1 (fst p) = map_of m (fst p)" by simp
  then show "cuts_no_pair keys (fst p) (snd p) (map_of m1 (fst p))"
    using assms(1) p by (simp add: entries_whole_def list_all_iff)
qed

lemma written_after:
  assumes "distinct (map fst ((k, v) # es))" "v \<noteq> JSUndef" "head_written keys k v m m1" "entries_whole keys ((k, v) # es) m"
    "entries_whole keys es m1 \<Longrightarrow> wf_yval (YMap m1) \<Longrightarrow> written keys es m1 m'"
  shows "written keys ((k, v) # es) m m'"
proof -
  have "k \<notin> fst ` set es" using assms(1) by auto
  moreover from this have "entries_whole keys es m1" by (rule entries_whole_after [OF assms(4) _ assms(3)])
  ultimately show ?thesis by (rule written_Cons [OF _ assms(2,3) assms(5) [OF _ head_writtenD(4) [OF assms(3)]]])
qed

text \<open>The text branch and the nested branches.\<close>

definition text_of :: "js_string \<Rightarrow> ymap \<Rightarrow> js_string \<times> YOp list" where
  "text_of k m = (case map_of m k of Some (YTxt t) \<Rightarrow> (t, []) | _ \<Rightarrow> ([], [SetKey k]))"

lemma empty_whole: "whole_edit [] s"
  by (rule plane0_whole) (simp add: plane0_def)

lemma head_written_text:
  assumes "ytext_ok T" "k \<in> set keys" "entries_whole keys ((k, JSStr s) # es) m" "wf_yval (YMap m)"
  shows "head_written keys k (JSStr s) m (AList.update k (YTxt (fst (applyTextDiff T (fst (text_of k m)) s))) m)"
proof -
  have "fst (text_of k m) \<noteq> s \<Longrightarrow> whole_edit (fst (text_of k m)) s"
    using assms(2,3) empty_whole by (auto simp: text_of_def entries_whole_def split: option.splits yval.splits)
  then have "fst (applyTextDiff T (fst (text_of k m)) s) = s" by (rule applyTextDiff_result [OF assms(1)])
  then show ?thesis using assms(2,4) by (intro head_written_update) simp_all
qed

lemma nested_start: "wf_yval (YMap m) \<Longrightarrow> wf_yval (YMap (fst (prune fs (fst (nested_of k m)))))"
  by (intro prune_facts nested_wf)

lemma nested_whole:
  assumes "entries_whole keys ((k, JSObj fs) # es) m"
  shows "entries_whole keys fs (fst (prune fs (fst (nested_of k m))))"
  using assms by (intro entries_whole_prune entries_whole_nested) (simp add: entries_whole_def)

lemma head_written_nested:
  assumes "wf_yval (YMap m)" "written keys src n1 n2" "only_keys src n1"
    "v = JSObj src \<or> (\<exists>b. v = JSBin b \<and> src = bin_entries b)"
  shows "head_written keys k v m (AList.update k (YMap n2) m)"
proof (rule head_written_update [OF assms(1)])
  show "wf_yval (YMap n2)" using assms(2) by (simp add: written_def)
  have "only_keys src n2" by (rule only_keys_written [OF assms(3,2)])
  moreover have "holds_entries keys src n2" using assms(2) by (simp add: written_def)
  moreover have "holds_value keys x w y \<longleftrightarrow> deepEqual (plainOf y) w" if "(x, w) \<in> set (bin_entries b)" for x w y b
    using that bin_entries_nums [of b] by (auto simp: list_all_iff)
  ultimately show "holds_value keys k v (Some (YMap n2))"
    using assms(4) by (auto simp: holds_entries_def only_keys_def list_all_iff)
qed

lemma write_entries_written:
  "ytext_ok T \<Longrightarrow> distinct (map fst es) \<Longrightarrow> list_all (\<lambda>p. wf_val (snd p)) es \<Longrightarrow> entries_whole keys es m \<Longrightarrow>
    wf_yval (YMap m) \<Longrightarrow> written keys es m (fst (write_entries T keys es m))"
proof (induction T keys es m rule: write_entries.induct)
  case (1 T keys m)
  then show ?case by (simp add: written_Nil)
next
  case (2 T keys k es m)
  then show ?case by (auto simp: entries_whole_def intro!: written_undef)
next
  case (3 T keys k s es m)
  show ?case
  proof (cases "k \<in> set keys")
    case True
    have "written keys ((k, JSStr s) # es) m (fst (write_entries T keys es
        (AList.update k (YTxt (fst (applyTextDiff T (fst (text_of k m)) s))) m)))"
      using 3(3) 3(1) [OF True refl prod.collapse refl prod.collapse] 3(4-) True
      by (intro written_after [OF _ _ head_written_text]) (auto simp: text_of_def split_beta)
    then show ?thesis using True by (simp add: split_beta flip: text_of_def)
  next
    case False
    have "written keys ((k, JSStr s) # es) m (fst (write_entries T keys es (fst (write_leaf k (JSStr s) m))))"
      using 3(3) 3(2) [OF False refl prod.collapse] 3(4-) False
      by (intro written_after [OF _ _ head_written_leaf]) auto
    then show ?thesis using False by (simp add: split_beta)
  qed
next
  case (4 T keys k fs es m)
  note start = nested_start [OF 4(7), of fs k] nested_whole [OF 4(6)]
  have n2: "written keys fs (fst (prune fs (fst (nested_of k m)))) (fst (write_entries T keys fs (fst (prune fs (fst (nested_of k m))))))"
    using 4(1) [OF refl prod.collapse refl prod.collapse] 4(3-) start by simp
  have "written keys ((k, JSObj fs) # es) m (fst (write_entries T keys es
      (AList.update k (YMap (fst (write_entries T keys fs (fst (prune fs (fst (nested_of k m))))))) m)))"
    using 4(2) [OF refl prod.collapse refl prod.collapse refl prod.collapse] 4(3-)
    by (intro written_after [OF _ _ head_written_nested [OF _ n2 prune_facts(1)]]) auto
  then show ?case by (simp add: split_beta)
next
  case (5 T keys k b es m)
  note start = nested_start [OF 5(6), of "bin_entries b" k]
  have n2: "written keys (bin_entries b) (fst (prune (bin_entries b) (fst (nested_of k m))))
      (fst (write_leaves (bin_entries b) (fst (prune (bin_entries b) (fst (nested_of k m))))))"
    by (rule write_leaves_written [OF bin_keys_distinct bin_entries_nums start])
  have "written keys ((k, JSBin b) # es) m (fst (write_entries T keys es
      (AList.update k (YMap (fst (write_leaves (bin_entries b) (fst (prune (bin_entries b) (fst (nested_of k m))))))) m)))"
    using 5(1) [OF refl prod.collapse refl prod.collapse refl prod.collapse] 5(2-)
    by (intro written_after [OF _ _ head_written_nested [OF _ n2 prune_facts(1)]]) auto
  then show ?case by (simp add: split_beta)
next
  case (6 T keys k es m)
  have "written keys ((k, JSNull) # es) m (fst (write_entries T keys es (fst (write_leaf k JSNull m))))"
    using 6(1) [OF refl prod.collapse] 6(2-) by (intro written_after [OF _ _ head_written_leaf]) auto
  then show ?case by (simp add: split_beta)
next
  case (7 T keys k b es m)
  have "written keys ((k, JSBool b) # es) m (fst (write_entries T keys es (fst (write_leaf k (JSBool b) m))))"
    using 7(1) [OF refl prod.collapse] 7(2-) by (intro written_after [OF _ _ head_written_leaf]) auto
  then show ?case by (simp add: split_beta)
next
  case (8 T keys k n es m)
  have "written keys ((k, JSNum n) # es) m (fst (write_entries T keys es (fst (write_leaf k (JSNum n) m))))"
    using 8(1) [OF refl prod.collapse] 8(2-) by (intro written_after [OF _ _ head_written_leaf]) auto
  then show ?case by (simp add: split_beta)
next
  case (9 T keys k vs es m)
  have "written keys ((k, JSArr vs) # es) m (fst (write_entries T keys es (fst (write_leaf k (JSArr vs) m))))"
    using 9(1) [OF refl prod.collapse] 9(2-) by (intro written_after [OF _ _ head_written_leaf]) auto
  then show ?case by (simp add: split_beta)
qed

subsection \<open>Writing again writes nothing\<close>

lemma update_same: "map_of m k = Some y \<Longrightarrow> AList.update k y m = m"
  by (induction m) (auto split: if_splits)

lemma prune_only: "only_keys src m \<Longrightarrow> prune src m = (m, [])"
  by (auto simp: prune_def only_keys_def list_all_iff filter_empty_conv filter_id_conv)

lemma write_leaf_held: "is_leaf keys k v \<Longrightarrow> holds_value keys k v (map_of m k) \<Longrightarrow> write_leaf k v m = (m, [])"
  by (simp add: write_leaf_def holds_leaf)

lemma write_leaves_held:
  "list_all (\<lambda>p. deepEqual (plainOf (map_of m (fst p))) (snd p)) es \<Longrightarrow> write_leaves es m = (m, [])"
  by (induction es) (auto simp: write_leaf_def)

lemma write_entries_held: "holds_entries keys es m \<Longrightarrow> write_entries T keys es m = (m, [])"
proof (induction T keys es m rule: write_entries.induct)
  case (3 T keys k s es m)
  show ?case
  proof (cases "k \<in> set keys")
    case True
    then have "map_of m k = Some (YTxt s)" using 3(3) by (simp add: holds_entries_def)
    then show ?thesis using 3 True by (simp add: update_same holds_entries_def)
  next
    case False
    then have "deepEqual (plainOf (map_of m k)) (JSStr s)" using 3(3) by (simp add: holds_entries_def)
    then have "write_leaf k (JSStr s) m = (m, [])" by (simp add: write_leaf_def)
    then show ?thesis using 3 False by (simp add: holds_entries_def)
  qed
next
  case (4 T keys k fs es m)
  then obtain n where n: "map_of m k = Some (YMap n)" "only_keys fs n" "holds_entries keys fs n"
    by (auto simp: holds_entries_def only_keys_def split: option.splits yval.splits)
  have "nested_of k m = (n, [])" using n(1) by (simp add: nested_of_def)
  moreover have "prune fs n = (n, [])" by (rule prune_only [OF n(2)])
  moreover from calculation 4(1) n(3) have "write_entries T keys fs n = (n, [])" by simp
  moreover have "AList.update k (YMap n) m = m" by (rule update_same [OF n(1)])
  ultimately show ?case using 4(2,3) by (simp add: holds_entries_def)
next
  case (5 T keys k b es m)
  then obtain n where n: "map_of m k = Some (YMap n)" "only_keys (bin_entries b) n"
    "list_all (\<lambda>p. deepEqual (plainOf (map_of n (fst p))) (snd p)) (bin_entries b)"
    by (auto simp: holds_entries_def only_keys_def split: option.splits yval.splits)
  have "nested_of k m = (n, [])" using n(1) by (simp add: nested_of_def)
  moreover have "prune (bin_entries b) n = (n, [])" by (rule prune_only [OF n(2)])
  moreover have "write_leaves (bin_entries b) n = (n, [])" by (rule write_leaves_held [OF n(3)])
  moreover have "AList.update k (YMap n) m = m" by (rule update_same [OF n(1)])
  ultimately show ?case using 5 by (simp add: holds_entries_def)
qed (auto simp: holds_entries_def write_leaf_def)

subsection \<open>What writing preserves\<close>

text \<open>A predicate of document values that holds for what is written and for a map just when for its entries.\<close>

lemma update_map_pred:
  assumes "\<And>m. P (YMap m) \<longleftrightarrow> list_all (\<lambda>p. P (snd p)) m"
  shows "P (YMap m) \<Longrightarrow> P y \<Longrightarrow> P (YMap (AList.update k y m))"
  unfolding assms by (rule list_all_snd_update)

lemma nested_map_pred:
  assumes "\<And>m. P (YMap m) \<longleftrightarrow> list_all (\<lambda>p. P (snd p)) m"
  shows "P (YMap m) \<Longrightarrow> P (YMap (fst (nested_of k m)))"
  unfolding assms by (rule nested_facts [where P = P and Q = "\<lambda>n. list_all (\<lambda>p. P (snd p)) n"]) (simp_all add: assms)

lemma prune_map_pred:
  assumes "\<And>m. P (YMap m) \<longleftrightarrow> list_all (\<lambda>p. P (snd p)) m"
  shows "P (YMap m) \<Longrightarrow> P (YMap (fst (prune src m)))"
  unfolding assms by (auto simp: prune_def list_all_iff)

lemma write_leaf_pred:
  assumes "\<And>m. P (YMap m) \<longleftrightarrow> list_all (\<lambda>p. P (snd p)) m" "P (YPlain v)"
  shows "P (YMap m) \<Longrightarrow> P (YMap (fst (write_leaf k v m)))"
  using assms(2) update_map_pred [where P = P, OF assms(1)] by (simp add: write_leaf_def)

lemma write_leaves_pred:
  assumes "\<And>m. P (YMap m) \<longleftrightarrow> list_all (\<lambda>p. P (snd p)) m" "list_all (\<lambda>p. P (YPlain (snd p))) es"
  shows "P (YMap m) \<Longrightarrow> P (YMap (fst (write_leaves es m)))"
  using assms(2)
proof (induction es arbitrary: m)
  case (Cons p es)
  then show ?case using write_leaf_pred [where P = P, OF assms(1)] by (cases p) (simp add: split_beta)
qed simp

lemma write_entries_pred:
  assumes map: "\<And>m. P (YMap m) \<longleftrightarrow> list_all (\<lambda>p. P (snd p)) m"
    and str: "\<And>k s t. Q k (JSStr s) \<Longrightarrow> k \<in> set keys \<Longrightarrow> t = [] \<or> P (YTxt t) \<Longrightarrow> P (YTxt (fst (applyTextDiff T t s)))"
    and leaf: "\<And>k v. Q k v \<Longrightarrow> is_leaf keys k v \<Longrightarrow> P (YPlain v)"
    and num: "\<And>n. P (YPlain (JSNum n))"
    and obj: "\<And>k fs. Q k (JSObj fs) \<Longrightarrow> list_all (\<lambda>p. Q (fst p) (snd p)) fs"
  shows "list_all (\<lambda>p. Q (fst p) (snd p)) es \<Longrightarrow> P (YMap m) \<Longrightarrow> P (YMap (fst (write_entries T keys es m)))"
  using str leaf
proof (induction T keys es m rule: write_entries.induct)
  case (3 T keys k s es m)
  show ?case
  proof (cases "k \<in> set keys")
    case True
    have "fst (text_of k m) = [] \<or> P (YTxt (fst (text_of k m)))"
      using 3(4) map_of_all [where P = P and m = m and k = k]
      by (auto simp: text_of_def map split: option.split yval.split)
    moreover have "Q k (JSStr s)" using 3(3) by simp
    ultimately have "P (YTxt (fst (applyTextDiff T (fst (text_of k m)) s)))" using 3(5) True by blast
    then have "P (YMap (AList.update k (YTxt (fst (applyTextDiff T (fst (text_of k m)) s))) m))"
      by (rule update_map_pred [where P = P, OF map 3(4)])
    with 3(1) [OF True refl prod.collapse refl prod.collapse] 3(3,5,6)
    have "P (YMap (fst (write_entries T keys es (AList.update k (YTxt (fst (applyTextDiff T (fst (text_of k m)) s))) m))))"
      by (simp add: text_of_def split_beta)
    then show ?thesis using True by (simp add: split_beta flip: text_of_def)
  next
    case False
    have "P (YMap (fst (write_leaf k (JSStr s) m)))"
      using 3(3,4) 3(6) [of k "JSStr s"] False by (intro write_leaf_pred [where P = P, OF map]) simp_all
    then show ?thesis using 3(2) [OF False refl prod.collapse] 3(3,5,6) False by (simp add: split_beta)
  qed
next
  case (4 T keys k fs es m)
  have "P (YMap (fst (write_entries T keys fs (fst (prune fs (fst (nested_of k m)))))))"
    using 4(1) [OF refl prod.collapse refl prod.collapse] obj [of k fs] 4(3-6)
      prune_map_pred [where P = P, OF map] nested_map_pred [where P = P, OF map] by simp
  from update_map_pred [where P = P, OF map 4(4) this]
  show ?case using 4(2) [OF refl prod.collapse refl prod.collapse refl prod.collapse] 4(3,5,6) by (simp add: split_beta)
next
  case (5 T keys k b es m)
  have "P (YMap (fst (write_leaves (bin_entries b) (fst (prune (bin_entries b) (fst (nested_of k m)))))))"
    using num 5(3) by (intro write_leaves_pred [where P = P, OF map] prune_map_pred [where P = P, OF map]
        nested_map_pred [where P = P, OF map]) (simp_all add: bin_entries_def list_all_iff)
  from update_map_pred [where P = P, OF map 5(3) this]
  show ?case using 5(1) [OF refl prod.collapse refl prod.collapse refl prod.collapse] 5(2,4,5) by (simp add: split_beta)
next
  case (6 T keys k es m)
  have "P (YMap (fst (write_leaf k JSNull m)))"
    using 6(2,3) 6(5) [of k "JSNull"] by (intro write_leaf_pred [where P = P, OF map]) simp_all
  then show ?case using 6(1) [OF refl prod.collapse] 6(2,4,5) by (simp add: split_beta)
next
  case (7 T keys k b es m)
  have "P (YMap (fst (write_leaf k (JSBool b) m)))"
    using 7(2,3) 7(5) [of k "JSBool b"] by (intro write_leaf_pred [where P = P, OF map]) simp_all
  then show ?case using 7(1) [OF refl prod.collapse] 7(2,4,5) by (simp add: split_beta)
next
  case (8 T keys k n es m)
  have "P (YMap (fst (write_leaf k (JSNum n) m)))"
    using 8(2,3) 8(5) [of k "JSNum n"] by (intro write_leaf_pred [where P = P, OF map]) simp_all
  then show ?case using 8(1) [OF refl prod.collapse] 8(2,4,5) by (simp add: split_beta)
next
  case (9 T keys k vs es m)
  have "P (YMap (fst (write_leaf k (JSArr vs) m)))"
    using 9(2,3) 9(5) [of k "JSArr vs"] by (intro write_leaf_pred [where P = P, OF map]) simp_all
  then show ?case using 9(1) [OF refl prod.collapse] 9(2,4,5) by (simp add: split_beta)
qed simp_all

text \<open>
  A session of many writes: a family \<open>F\<close> of texts no two of which are edited inside a pair, for instance
  those of the basic multilingual plane, and an object whose texts belong to it.
\<close>

definition whole_family :: "(js_string \<Rightarrow> bool) \<Rightarrow> bool" where
  "whole_family F \<longleftrightarrow> (\<forall>t s. F t \<and> F s \<longrightarrow> t = s \<or> whole_edit t s)"

lemma whole_familyD: "whole_family F \<Longrightarrow> F t \<Longrightarrow> F s \<Longrightarrow> t \<noteq> s \<Longrightarrow> whole_edit t s"
  unfolding whole_family_def by blast

lemma whole_family_plane0: "whole_family plane0"
  by (simp add: whole_family_def plane0_whole)

fun key_texts :: "(js_string \<Rightarrow> bool) \<Rightarrow> js_string list \<Rightarrow> js_string \<Rightarrow> jsval \<Rightarrow> bool" where
  "key_texts F keys k (JSStr s) \<longleftrightarrow> (k \<in> set keys \<longrightarrow> F s)"
| "key_texts F keys k (JSObj fs) \<longleftrightarrow> list_all (\<lambda>p. key_texts F keys (fst p) (snd p)) fs"
| "key_texts F keys k v \<longleftrightarrow> True"

lemma family_cuts_no_pair:
  assumes "whole_family F"
  shows "key_texts F keys k v \<Longrightarrow> \<forall>y'. y = Some y' \<longrightarrow> texts F y' \<Longrightarrow> cuts_no_pair keys k v y"
proof (induction keys k v y rule: cuts_no_pair.induct)
  case (1 keys k s y)
  have "t = s \<or> whole_edit t s" if t: "y = Some (YTxt t)" "k \<in> set keys" for t
  proof -
    have "F t" "F s" using 1 t by simp_all
    then show ?thesis using whole_familyD [OF assms] by blast
  qed
  then show ?case by (simp split: option.split yval.split)
next
  case (2 keys k fs y)
  have "list_all (\<lambda>p. cuts_no_pair keys (fst p) (snd p) (map_of n (fst p))) fs" if y: "y = Some (YMap n)" for n
    unfolding list_all_iff
  proof (intro ballI)
    fix p assume p: "p \<in> set fs"
    have "\<forall>y'. map_of n (fst p) = Some y' \<longrightarrow> texts F y'"
      using 2(3) y map_of_all [where P = "texts F" and m = n] by simp
    then show "cuts_no_pair keys (fst p) (snd p) (map_of n (fst p))"
      using 2(1) [OF y refl p] 2(2) p by (simp add: list_all_iff)
  qed
  then show ?case by (simp split: option.split yval.split)
qed simp_all

lemma write_entries_texts:
  assumes "ytext_ok T" "whole_family F" "key_texts F keys k (JSObj es)" "texts F (YMap m)"
  shows "texts F (YMap (fst (write_entries T keys es m)))"
proof (rule write_entries_pred [where P = "texts F" and Q = "key_texts F keys"])
  fix k s t assume a: "key_texts F keys k (JSStr s)" "k \<in> set keys" "t = [] \<or> texts F (YTxt t)"
  then have "t \<noteq> s \<Longrightarrow> whole_edit t s" using whole_familyD [OF assms(2)] empty_whole by auto
  then have "fst (applyTextDiff T t s) = s" by (rule applyTextDiff_result [OF assms(1)])
  then show "texts F (YTxt (fst (applyTextDiff T t s)))" using a by simp
qed (use assms in simp_all)

lemma writeInto_texts:
  assumes "ytext_ok T" "whole_family F" "key_texts F keys k (JSObj es)" "texts F (YMap m)"
  shows "texts F (YMap (fst (writeInto T keys p es m)))"
proof -
  have "texts F (YMap (if p then fst (prune es m) else m))"
    using assms(4) prune_facts(3) by (cases p) (simp_all del: texts.simps)
  then show ?thesis using write_entries_texts [OF assms(1-3)]
    by (cases p) (simp_all add: writeInto_def split_beta del: texts.simps)
qed

subsection \<open>Reading gives back what was written\<close>

text \<open>What a JSON reader can see of a value: no undefined fields.\<close>

fun strip :: "jsval \<Rightarrow> jsval" where
  "strip (JSObj fs) = JSObj (map (\<lambda>p. (fst p, strip (snd p))) (filter (\<lambda>p. snd p \<noteq> JSUndef) fs))"
| "strip v = v"

lemma map_of_strip:
  "distinct (map fst fs) \<Longrightarrow> map_of (map (\<lambda>p. (fst p, strip (snd p))) (filter (\<lambda>p. snd p \<noteq> JSUndef) fs)) k =
     (case map_of fs k of None \<Rightarrow> None | Some v \<Rightarrow> if v = JSUndef then None else Some (strip v))"
  by (induction fs) (auto simp: map_of_eq_None_iff image_iff split: option.splits)

lemma map_of_snd: "map_of (map (\<lambda>p. (fst p, f (snd p))) m) k = map_option f (map_of m k)"
  by (induction m) auto

lemma same_keys_length:
  assumes "distinct (map fst m)" "distinct (map fst fs)" "fst ` set m = fst ` set fs"
  shows "length m = length fs"
  using assms by (metis distinct_card length_map set_map)

lemma defined_keys: "distinct (map fst fs) \<Longrightarrow> fst ` set (filter (\<lambda>p. snd p \<noteq> JSUndef) fs) = {k. \<not> undefined_in fs k}"
proof -
  assume d: "distinct (map fst fs)"
  have "k \<in> fst ` set (filter (\<lambda>p. snd p \<noteq> JSUndef) fs) \<longleftrightarrow> (\<exists>v. (k, v) \<in> set fs \<and> v \<noteq> JSUndef)" for k by force
  also have "(\<exists>v. (k, v) \<in> set fs \<and> v \<noteq> JSUndef) \<longleftrightarrow> (\<exists>v. map_of fs k = Some v \<and> v \<noteq> JSUndef)" for k
    using d by simp
  also have "(\<exists>v. map_of fs k = Some v \<and> v \<noteq> JSUndef) \<longleftrightarrow> \<not> undefined_in fs k" for k
    by (cases "map_of fs k") (auto simp: undefined_in_def)
  finally show ?thesis by blast
qed

lemma holds_read_fields:
  assumes m: "wf_yval (YMap m)" and fs: "distinct (map fst fs)" and only: "only_keys fs m"
    and vals: "\<And>k v. map_of fs k = Some v \<Longrightarrow> v \<noteq> JSUndef \<Longrightarrow> \<exists>y. map_of m k = Some y \<and> deepEqual (toJSON y) (strip v)"
  shows "deepEqual (toJSON (YMap m)) (strip (JSObj fs))"
proof -
  let ?gs = "map (\<lambda>p. (fst p, strip (snd p))) (filter (\<lambda>p. snd p \<noteq> JSUndef) fs)"
  have "fst ` set m = {k. \<not> undefined_in fs k}"
  proof
    show "fst ` set m \<subseteq> {k. \<not> undefined_in fs k}" using only by (auto simp: only_keys_iff)
    show "{k. \<not> undefined_in fs k} \<subseteq> fst ` set m"
    proof
      fix k assume "k \<in> {k. \<not> undefined_in fs k}"
      then obtain v where "map_of fs k = Some v" "v \<noteq> JSUndef" by (auto simp: undefined_in_def)
      from vals [OF this] show "k \<in> fst ` set m" by (metis map_of_eq_None_iff option.discI)
    qed
  qed
  moreover have "distinct (map fst (filter (\<lambda>p. snd p \<noteq> JSUndef) fs))" using fs by (simp add: distinct_map_filter)
  ultimately have len: "length m = length (filter (\<lambda>p. snd p \<noteq> JSUndef) fs)"
    using m defined_keys [OF fs] by (intro same_keys_length) simp_all
  have "case map_of ?gs (fst p) of None \<Rightarrow> False | Some y \<Rightarrow> deepEqual (toJSON (snd p)) y" if p: "p \<in> set m" for p
  proof -
    have "\<not> undefined_in fs (fst p)" using only p by (auto simp: only_keys_iff)
    then obtain v where v: "map_of fs (fst p) = Some v" "v \<noteq> JSUndef" by (auto simp: undefined_in_def)
    have "map_of m (fst p) = Some (snd p)" using m p by (intro map_of_defined) simp_all
    with vals [OF v] have "deepEqual (toJSON (snd p)) (strip v)" by auto
    then show ?thesis using v by (simp add: map_of_strip [OF fs])
  qed
  then show ?thesis using len by (simp add: list_all_iff cong: option.case_cong)
qed

lemma holds_read:
  "holds_value keys k v yo \<Longrightarrow> yo = Some y \<Longrightarrow> v \<noteq> JSUndef \<Longrightarrow> wf_val v \<Longrightarrow> wf_yval y \<Longrightarrow> deepEqual (toJSON y) (strip v)"
proof (induction keys k v yo arbitrary: y rule: holds_value.induct)
  case (3 keys k fs yo)
  then obtain m where y: "y = YMap m" by (auto split: yval.splits)
  with 3(2,3) have only: "only_keys fs m" and hold: "holds_entries keys fs m"
    by (simp_all add: only_keys_def holds_entries_def)
  show ?case unfolding y
  proof (rule holds_read_fields [OF _ _ only])
    show "wf_yval (YMap m)" "distinct (map fst fs)" using 3(5,6) y by simp_all
    fix k' v assume v: "map_of fs k' = Some v" "v \<noteq> JSUndef"
    from v(1) have p: "(k', v) \<in> set fs" by (rule map_of_SomeD)
    have h: "holds_value keys k' v (map_of m k')" using hold p by (auto simp: holds_entries_def list_all_iff)
    moreover have "map_of m k' \<noteq> None"
    proof
      assume "map_of m k' = None"
      with h v(2) show False by (cases v) (auto simp: plainOf_def split: if_splits)
    qed
    then obtain y' where y': "map_of m k' = Some y'" by auto
    have "wf_yval y'" using 3(6) y map_of_all [where P = wf_yval, OF _ y'] by simp
    moreover have "wf_val v" using 3(5) p by (auto simp: list_all_iff)
    ultimately have "deepEqual (toJSON y') (strip v)"
      using 3(1) [OF _ y p] h y' v(2) 3(3) by simp
    with y' show "\<exists>y. map_of m k' = Some y \<and> deepEqual (toJSON y) (strip v)" by blast
  qed
next
  case (4 keys k b yo)
  then obtain m where y: "y = YMap m" by (auto split: yval.splits)
  with 4(1,2) have only: "only_keys (bin_entries b) m"
    and hold: "list_all (\<lambda>p. deepEqual (plainOf (map_of m (fst p))) (snd p)) (bin_entries b)"
    by (simp_all add: only_keys_def)
  have stripped: "strip (JSObj (bin_entries b)) = JSObj (bin_entries b)"
    by (auto simp: bin_entries_def intro!: map_idI)
  have "deepEqual (toJSON (YMap m)) (strip (JSObj (bin_entries b)))"
  proof (rule holds_read_fields [OF _ bin_keys_distinct only])
    show "wf_yval (YMap m)" using 4(5) y by simp
    fix k' v assume "map_of (bin_entries b) k' = Some v" "v \<noteq> JSUndef"
    then have p: "(k', v) \<in> set (bin_entries b)" by (rule_tac map_of_SomeD)
    then obtain n where n: "v = JSNum n" using bin_entries_nums [of b] by (auto simp: list_all_iff)
    have "deepEqual (plainOf (map_of m k')) v" using hold p by (auto simp: list_all_iff)
    then show "\<exists>y. map_of m k' = Some y \<and> deepEqual (toJSON y) (strip v)"
      using n by (cases "map_of m k'") (auto simp: plainOf_def)
  qed
  then have "deepEqual (toJSON (YMap m)) (JSObj (bin_entries b))" by (simp only: stripped)
  then show ?case using y by simp
qed (auto simp: plainOf_def split: if_splits)

subsection \<open>The properties\<close>

lemma writeInto_holds:
  assumes "ytext_ok T" "wf_val (JSObj e)" "wf_yval (YMap m)" "entries_whole keys e m"
  shows "holds_entries keys e (fst (writeInto T keys True e m))" "only_keys e (fst (writeInto T keys True e m))"
    "wf_yval (YMap (fst (writeInto T keys True e m)))"
proof -
  have w: "written keys e (fst (prune e m)) (fst (write_entries T keys e (fst (prune e m))))"
    using assms prune_facts(4) [OF assms(3)] entries_whole_prune [OF assms(4)]
    by (intro write_entries_written) simp_all
  moreover have eq: "fst (writeInto T keys True e m) = fst (write_entries T keys e (fst (prune e m)))"
    by (simp add: writeInto_def split_beta)
  ultimately show "holds_entries keys e (fst (writeInto T keys True e m))" "wf_yval (YMap (fst (writeInto T keys True e m)))"
    using writtenD(2,4) [OF w] by simp_all
  show "only_keys e (fst (writeInto T keys True e m))"
    using only_keys_written [OF prune_facts(1) w] by (simp add: eq)
qed

lemma writeElement_eq:
  "fst (writeElement T e els) = AList.update (element_id e)
     (YMap (fst (writeInto T Y_TEXT_KEYS True e (fst (nested_of (element_id e) els))))) els"
  by (simp add: writeElement_def split_beta)

lemma writeElement_reads:
  assumes "ytext_ok T" "wf_val (JSObj e)" "wf_yval (YMap els)"
    "cuts_no_pair Y_TEXT_KEYS (element_id e) (JSObj e) (map_of els (element_id e))"
  shows "\<exists>m. map_of (fst (writeElement T e els)) (element_id e) = Some (YMap m) \<and>
      deepEqual (readElement m) (strip (JSObj e)) \<and> writeInto T Y_TEXT_KEYS True e m = (m, [])"
    "i \<noteq> element_id e \<Longrightarrow> map_of (fst (writeElement T e els)) i = map_of els i"
    "wf_yval (YMap (fst (writeElement T e els)))"
proof -
  define n where "n = fst (nested_of (element_id e) els)"
  define m where "m = fst (writeInto T Y_TEXT_KEYS True e n)"
  have els': "fst (writeElement T e els) = AList.update (element_id e) (YMap m) els"
    by (simp add: writeElement_eq m_def n_def)
  have n: "wf_yval (YMap n)" "entries_whole Y_TEXT_KEYS e n"
    unfolding n_def by (rule nested_wf [OF assms(3)], rule entries_whole_nested [OF assms(4)])
  note h = writeInto_holds [OF assms(1,2) n, folded m_def]
  have get: "map_of (fst (writeElement T e els)) (element_id e) = Some (YMap m)" by (simp add: els' update_conv')
  have "holds_value Y_TEXT_KEYS [] (JSObj e) (Some (YMap m))"
    using h(1,2) by (simp add: holds_entries_def only_keys_def)
  from holds_read [OF this refl _ assms(2) h(3)] have "deepEqual (readElement m) (strip (JSObj e))"
    by (simp add: readElement_def)
  moreover have "writeInto T Y_TEXT_KEYS True e m = (m, [])"
    using prune_only [OF h(2)] write_entries_held [OF h(1)] by (simp add: writeInto_def)
  ultimately show "\<exists>m. map_of (fst (writeElement T e els)) (element_id e) = Some (YMap m) \<and>
      deepEqual (readElement m) (strip (JSObj e)) \<and> writeInto T Y_TEXT_KEYS True e m = (m, [])" using get by blast
  show "i \<noteq> element_id e \<Longrightarrow> map_of (fst (writeElement T e els)) i = map_of els i" by (simp add: els' update_conv')
  show "wf_yval (YMap (fst (writeElement T e els)))"
    using assms(3) head_writtenD(4) [OF head_written_update [OF assms(3) h(3), of Y_TEXT_KEYS "element_id e" JSUndef]]
    by (simp add: els')
qed

text \<open>
  C27. Writing an element into the document and reading it back gives the element, whatever else the document held
  under its id: exactly the defined fields, deeply equal, nested objects included. No other element
  changes, and writing the same element again sends nothing. The one condition on the old content: where a
  text of the element was there already and differs, the edit between the two cuts no surrogate pair.
\<close>

theorem element_roundtrip:
  assumes "ytext_ok T" "wf_val (JSObj e)" "wf_yval (YMap els)"
    "cuts_no_pair Y_TEXT_KEYS (element_id e) (JSObj e) (map_of els (element_id e))"
  shows "\<exists>m. map_of (fst (writeElement T e els)) (element_id e) = Some (YMap m) \<and>
    deepEqual (readElement m) (strip (JSObj e)) \<and>
    (\<forall>i. i \<noteq> element_id e \<longrightarrow> map_of (fst (writeElement T e els)) i = map_of els i) \<and>
    writeElement T e (fst (writeElement T e els)) = (fst (writeElement T e els), [])"
proof -
  obtain m where m: "map_of (fst (writeElement T e els)) (element_id e) = Some (YMap m)"
    "deepEqual (readElement m) (strip (JSObj e))" "writeInto T Y_TEXT_KEYS True e m = (m, [])"
    using writeElement_reads(1) [OF assms] by blast
  then have "nested_of (element_id e) (fst (writeElement T e els)) = (m, [])" by (simp add: nested_of_def)
  with m have "writeElement T e (fst (writeElement T e els)) = (fst (writeElement T e els), [])"
    by (simp add: writeElement_def [of T e "fst (writeElement T e els)"] update_same)
  then show ?thesis using m writeElement_reads(2) [OF assms] by blast
qed

definition sample_element :: fields where
  "sample_element =
     [(u ''id'', JSStr (u ''e1'')), (u ''originalText'', JSStr (u ''salam'' @ [55357, 56832])), (u ''x'', JSNum 3), (u ''link'', JSUndef),
      (u ''customData'', JSObj [(u ''hb'', JSObj [(u ''tags'', JSArr [JSStr (u ''a'')])])])]"

definition sample_elements :: ymap where
  "sample_elements = [(u ''e1'', YMap [(u ''originalText'', YTxt (u ''salaam'')), (u ''old'', YPlain JSNull)])]"

theorem element_roundtrip_witness:
  "\<exists>m. map_of (fst (writeElement list_text sample_element sample_elements)) (u ''e1'') = Some (YMap m) \<and>
    deepEqual (readElement m) (strip (JSObj sample_element)) \<and>
    writeElement list_text sample_element (fst (writeElement list_text sample_element sample_elements)) =
      (fst (writeElement list_text sample_element sample_elements), [])"
proof -
  have id: "element_id sample_element = u ''e1''" by (simp add: element_id_def sample_element_def u_def)
  have "whole_edit (u ''salaam'') (u ''salam'' @ [55357, 56832])"
    by (rule plane0_whole) (simp add: plane0_def u_def high_surrogate_def)
  then have "cuts_no_pair Y_TEXT_KEYS (element_id sample_element) (JSObj sample_element)
      (map_of sample_elements (element_id sample_element))"
    by (simp add: id) (simp add: sample_element_def sample_elements_def Y_TEXT_KEYS_def u_def)
  moreover have "wf_val (JSObj sample_element)" "wf_yval (YMap sample_elements)"
    by (simp_all add: sample_element_def sample_elements_def u_def)
  ultimately show ?thesis using element_roundtrip [OF list_text_ok, of sample_element sample_elements]
    by (simp add: id del: wf_val.simps wf_yval.simps cuts_no_pair.simps) blast
qed

definition utf16_ok :: "js_string \<Rightarrow> bool" where
  "utf16_ok s \<longleftrightarrow> (\<forall>i < length s. (high_surrogate (s ! i) \<longleftrightarrow> Suc i < length s \<and> low_surrogate (s ! Suc i)))"

lemma prefix_end_differs:
  "a \<noteq> b \<Longrightarrow> k \<le> length pre \<Longrightarrow> prefix_end (pre @ a # xs) (pre @ b # ys) k = length pre"
proof (induction "length pre - k" arbitrary: k)
  case 0
  then show ?case by (subst prefix_end.simps) (auto simp: nth_append)
next
  case (Suc n)
  then have "k < length pre" "prefix_end (pre @ a # xs) (pre @ b # ys) (k + 1) = length pre" by simp_all
  then show ?case by (subst prefix_end.simps) (simp add: nth_append)
qed

lemma suffix_ends_differ:
  assumes "a \<noteq> b"
  shows "j \<le> length post \<Longrightarrow>
    suffix_ends (pre @ a # post) (pre @ b # post) (length pre) (length pre + 1 + j) (length pre + 1 + j) =
      (length pre + 1, length pre + 1)"
proof (induction j)
  case 0
  then show ?case using assms by (subst suffix_ends.simps) simp
next
  case (Suc j)
  then show ?case by (subst suffix_ends.simps) (simp add: nth_append)
qed

text \<open>
  C28. The text diff is exact where it may be: for texts whose edit splits no surrogate pair it makes the text the
  new string and keeps the common ends. But the comparison goes by code units: when two characters outside
  the basic multilingual plane share their first half, as most emoji do, replacing one by the
  other, anywhere in a text, deletes and inserts in the middle of a surrogate pair, where Yjs promises nothing.
\<close>

theorem text_diff_cuts_emoji:
  "(\<forall>T base nxt. ytext_ok T \<and> (base = nxt \<or> whole_edit base nxt) \<longrightarrow> fst (applyTextDiff T base nxt) = nxt) \<and>
   (\<forall>T pre post h l1 l2. high_surrogate h \<and> low_surrogate l1 \<and> low_surrogate l2 \<and> l1 \<noteq> l2 \<longrightarrow>
      utf16_ok [h, l1] \<and> utf16_ok [h, l2] \<and>
      snd (applyTextDiff T (pre @ [h, l1] @ post) (pre @ [h, l2] @ post)) =
        [TextDelete (length pre + 1) 1, TextInsert (length pre + 1) [l2]] \<and>
      splits_pair (pre @ [h, l1] @ post) (length pre + 1))"
proof -
  have "utf16_ok [h, l1] \<and> utf16_ok [h, l2] \<and>
      snd (applyTextDiff T (pre @ [h, l1] @ post) (pre @ [h, l2] @ post)) =
        [TextDelete (length pre + 1) 1, TextInsert (length pre + 1) [l2]] \<and>
      splits_pair (pre @ [h, l1] @ post) (length pre + 1)"
    if h: "high_surrogate h" "low_surrogate l1" "low_surrogate l2" "l1 \<noteq> l2" for T pre post h l1 l2
  proof (intro conjI)
    show "utf16_ok [h, l1]" "utf16_ok [h, l2]" using h(1-3)
      by (auto simp: utf16_ok_def high_surrogate_def low_surrogate_def less_Suc_eq)
    show "splits_pair (pre @ [h, l1] @ post) (length pre + 1)" using h(1,2) by (simp add: splits_pair_def nth_append)
    have "text_edit (pre @ [h, l1] @ post) (pre @ [h, l2] @ post) = (length pre + 1, length pre + 2, length pre + 2)"
      using prefix_end_differs [OF h(4), of 0 "pre @ [h]" post post]
        suffix_ends_differ [OF h(4), of "length post" post "pre @ [h]"] by (simp add: text_edit_def)
    then show "snd (applyTextDiff T (pre @ [h, l1] @ post) (pre @ [h, l2] @ post)) =
        [TextDelete (length pre + 1) 1, TextInsert (length pre + 1) [l2]]"
      using h(4) by (simp add: applyTextDiff_def)
  qed
  then show ?thesis using applyTextDiff_result by blast
qed

theorem text_diff_cuts_emoji_witness:
  "fst (applyTextDiff list_text (u ''salaam'') (u ''salam'')) = u ''salam'' \<and>
   snd (applyTextDiff list_text [104, 105, 55357, 56832] [104, 105, 55357, 56833]) = [TextDelete 3 1, TextInsert 3 [56833]]"
proof -
  have "whole_edit (u ''salaam'') (u ''salam'')"
    by (rule plane0_whole) (simp add: plane0_def u_def high_surrogate_def)
  then have "fst (applyTextDiff list_text (u ''salaam'') (u ''salam'')) = u ''salam''"
    using conjunct1 [OF text_diff_cuts_emoji] list_text_ok by blast
  moreover have "high_surrogate 55357" "low_surrogate 56832" "low_surrogate 56833" "(56832 :: nat) \<noteq> 56833"
    by (simp_all add: high_surrogate_def low_surrogate_def)
  then have "snd (applyTextDiff list_text ([104, 105] @ [55357, 56832] @ []) ([104, 105] @ [55357, 56833] @ [])) =
      [TextDelete (length [104 :: nat, 105] + 1) 1, TextInsert (length [104 :: nat, 105] + 1) [56833]]"
    using conjunct2 [OF text_diff_cuts_emoji] by blast
  ultimately show ?thesis by simp
qed

end
