(* ===== verification/BoardDoc.thy ===== *)
theory BoardDoc
  imports ValueCodec "HOL-Library.List_Lexorder" "HOL-Library.Product_Lexorder"
begin

text \<open>
  The rest of \<open>packages/ydoc-schema/src\<close> that reads and writes a board document: its roots
  (\<open>doc.ts\<close>), the shared settings (\<open>app-state.ts\<close>), asset records (\<open>assets.ts\<close>), comment pins
  (\<open>comment-pins.ts\<close>) and the guard against binary values (\<open>binary-guard.ts\<close>). A document is the
  association list of its roots; a root that was never touched is the empty map. Transactions are not modelled: their origin concerns undo only, and an
  exception inside one keeps what was written before it.
\<close>

subsection \<open>Roots\<close>

type_synonym ydoc = "(js_string \<times> ymap) list"

definition SCHEMA_VERSION :: int where "SCHEMA_VERSION = 1"

definition ROOT_META :: js_string where "ROOT_META = u ''meta''"
definition ROOT_ELEMENTS :: js_string where "ROOT_ELEMENTS = u ''elements''"
definition ROOT_ASSETS :: js_string where "ROOT_ASSETS = u ''assets''"
definition ROOT_APP_STATE :: js_string where "ROOT_APP_STATE = u ''appState''"
definition ROOT_COMMENT_PINS :: js_string where "ROOT_COMMENT_PINS = u ''commentPins''"
definition META_SCHEMA_VERSION :: js_string where "META_SCHEMA_VERSION = u ''schemaVersion''"

definition root :: "ydoc \<Rightarrow> js_string \<Rightarrow> ymap" where
  "root d name = (case map_of d name of None \<Rightarrow> [] | Some m \<Rightarrow> m)"

definition set_root :: "js_string \<Rightarrow> ymap \<Rightarrow> ydoc \<Rightarrow> ydoc" where
  "set_root name m d = AList.update name m d"

lemma root_set_root [simp]: "root (set_root name m d) name' = (if name' = name then m else root d name')"
  by (simp add: root_def set_root_def update_conv')

definition stamp :: "int \<Rightarrow> ydoc \<Rightarrow> ydoc" where
  "stamp v d = set_root ROOT_META (AList.update META_SCHEMA_VERSION (YPlain (JSNum v)) (root d ROOT_META)) d"

definition createBoardDoc :: "int option \<Rightarrow> ydoc" where
  "createBoardDoc schemaVersion =
     stamp (case schemaVersion of Some v \<Rightarrow> v | None \<Rightarrow> SCHEMA_VERSION)
       (map (\<lambda>name. (name, [])) [ROOT_META, ROOT_ELEMENTS, ROOT_ASSETS, ROOT_APP_STATE, ROOT_COMMENT_PINS])"

definition getSchemaVersion :: "ydoc \<Rightarrow> int option" where
  "getSchemaVersion d =
     (case map_of (root d ROOT_META) META_SCHEMA_VERSION of Some (YPlain (JSNum v)) \<Rightarrow> Some v | _ \<Rightarrow> None)"

lemma getSchemaVersion_stamp [simp]: "getSchemaVersion (stamp v d) = Some v"
  by (simp add: getSchemaVersion_def stamp_def update_conv')

subsection \<open>Reading the whole board\<close>

definition str_field :: "jsval \<Rightarrow> js_string \<Rightarrow> js_string" where
  "str_field v k = (case v of JSObj fs \<Rightarrow> (case map_of fs k of Some (JSStr s) \<Rightarrow> s | _ \<Rightarrow> []) | _ \<Rightarrow> [])"

text \<open>\<open>elements.sort\<close>: by \<open>index\<close>, then by \<open>id\<close>.\<close>

definition z_key :: "jsval \<Rightarrow> js_string \<times> js_string" where
  "z_key e = (str_field e (u ''index''), str_field e (u ''id''))"

definition element_maps :: "ymap \<Rightarrow> ymap list" where
  "element_maps m = List.map_filter (\<lambda>p. case snd p of YMap n \<Rightarrow> Some n | _ \<Rightarrow> None) m"

definition read_elements :: "ydoc \<Rightarrow> jsval list" where
  "read_elements d = sort_key z_key (map readElement (element_maps (root d ROOT_ELEMENTS)))"

subsection \<open>Shared settings\<close>

definition SHARED_APP_STATE_KEYS :: "js_string list" where
  "SHARED_APP_STATE_KEYS = map u
     [''viewBackgroundColor'', ''gridSize'', ''gridEnabled'', ''snapToObjects'', ''frameRendering'']"

definition DEFAULT_APP_STATE :: fields where
  "DEFAULT_APP_STATE =
     [(u ''viewBackgroundColor'', JSStr (u ''#ffffff'')), (u ''gridSize'', JSNum 20), (u ''gridEnabled'', JSBool False),
      (u ''snapToObjects'', JSBool True),
      (u ''frameRendering'', JSObj [(u ''enabled'', JSBool True), (u ''name'', JSBool True),
         (u ''outline'', JSBool True), (u ''clip'', JSBool True)])]"

text \<open>\<open>Inl\<close> is the error with the keys that are not shared settings.\<close>

definition writeAppState :: "YText \<Rightarrow> fields \<Rightarrow> ymap \<Rightarrow> js_string list + ymap \<times> YOp list" where
  "writeAppState T patch appState =
     (let unknown = filter (\<lambda>k. k \<notin> set SHARED_APP_STATE_KEYS) (map fst patch)
      in if unknown \<noteq> [] then Inl unknown else Inr (writeInto T [] False patch appState))"

definition known_settings :: "ymap \<Rightarrow> fields" where
  "known_settings appState =
     List.map_filter (\<lambda>k. case plainOf (map_of appState k) of JSUndef \<Rightarrow> None | v \<Rightarrow> Some (k, v)) SHARED_APP_STATE_KEYS"

text \<open>\<open>{...DEFAULT_APP_STATE, ...known}\<close>\<close>

definition readAppState :: "ymap \<Rightarrow> fields" where
  "readAppState appState = foldl (\<lambda>fs (k, v). AList.update k v fs) DEFAULT_APP_STATE (known_settings appState)"

subsection \<open>Comment pins\<close>

record CommentPin =
  pin_x :: int
  pin_y :: int
  pin_elementId :: "js_string option"
  pin_resolved :: bool

definition pin_fields :: "CommentPin \<Rightarrow> fields" where
  "pin_fields p =
     [(u ''x'', JSNum (pin_x p)), (u ''y'', JSNum (pin_y p)),
      (u ''elementId'', case pin_elementId p of None \<Rightarrow> JSUndef | Some i \<Rightarrow> JSStr i),
      (u ''resolved'', JSBool (pin_resolved p))]"

definition writeCommentPin :: "YText \<Rightarrow> js_string \<Rightarrow> CommentPin \<Rightarrow> ymap \<Rightarrow> ymap \<times> YOp list" where
  "writeCommentPin T threadId pin commentPins =
     (let (m, o1) = nested_of threadId commentPins;
          (m', o2) = writeInto T [] True (pin_fields pin) m
      in (AList.update threadId (YMap m') commentPins, o1 @ o2))"

text \<open>\<open>{ threadId, ...value.toJSON() }\<close>\<close>

definition pin_entry :: "js_string \<Rightarrow> ymap \<Rightarrow> jsval" where
  "pin_entry threadId n =
     JSObj (foldl (\<lambda>fs p. AList.update (fst p) (toJSON (snd p)) fs) [(u ''threadId'', JSStr threadId)] n)"

definition readCommentPins :: "ymap \<Rightarrow> jsval list" where
  "readCommentPins commentPins =
     sort_key (\<lambda>v. str_field v (u ''threadId''))
       (List.map_filter (\<lambda>p. case snd p of YMap n \<Rightarrow> Some (pin_entry (fst p) n) | _ \<Rightarrow> None) commentPins)"

definition removeCommentPin :: "js_string \<Rightarrow> ymap \<Rightarrow> ymap" where
  "removeCommentPin threadId commentPins = AList.delete threadId commentPins"

subsection \<open>The guard against binary values\<close>

definition dot :: "js_string \<Rightarrow> js_string \<Rightarrow> js_string" where
  "dot path k = path @ u ''.'' @ k"

definition at_index :: "js_string \<Rightarrow> nat \<Rightarrow> js_string" where
  "at_index path i = path @ u ''['' @ u (show_nat i) @ u '']''"

lemma size_enumerate:
  fixes vs :: "'a::size list"
  assumes "p \<in> set (enumerate n vs)"
  shows "size (snd p) < Suc (size_list size vs)"
proof -
  have "fst p - n < length vs" "snd p = vs ! (fst p - n)" using assms by (auto simp: in_set_enumerate_eq)
  then have "snd p \<in> set vs" by simp
  then show ?thesis by (induction vs) auto
qed

function walk_plain :: "jsval \<Rightarrow> js_string \<Rightarrow> js_string list" where
  "walk_plain (JSBin b) path = [path]"
| "walk_plain (JSArr vs) path = concat (map (\<lambda>p. walk_plain (snd p) (at_index path (fst p))) (enumerate 0 vs))"
| "walk_plain (JSObj fs) path = concat (map (\<lambda>p. walk_plain (snd p) (dot path (fst p))) fs)"
| "walk_plain JSUndef path = []"
| "walk_plain JSNull path = []"
| "walk_plain (JSBool b) path = []"
| "walk_plain (JSNum n) path = []"
| "walk_plain (JSStr s) path = []"
  by pat_completeness auto
termination by (relation "measure (\<lambda>(v, path). size v)") (auto simp: size_enumerate size_field)

lemma size_entry: "p \<in> set m \<Longrightarrow> size (snd p) < Suc (size_list (size_prod (\<lambda>x. 0) size) m)"
  by (induction m) (auto simp: less_SucI)

function walk :: "yval \<Rightarrow> js_string \<Rightarrow> js_string list" where
  "walk (YPlain v) path = walk_plain v path"
| "walk (YTxt s) path = []"
| "walk (YMap m) path = concat (map (\<lambda>p. walk (snd p) (dot path (fst p))) m)"
| "walk (YArr vs) path = concat (map (\<lambda>p. walk (snd p) (at_index path (fst p))) (enumerate 0 vs))"
  by pat_completeness auto
termination by (relation "measure (\<lambda>(v, path). size v)") (auto simp: size_enumerate size_entry)

definition findBinaryValues :: "ydoc \<Rightarrow> js_string list" where
  "findBinaryValues d = concat (map (\<lambda>p. walk (YMap (snd p)) (fst p)) d)"

definition findBinaryIn :: "jsval \<Rightarrow> js_string \<Rightarrow> js_string list" where
  "findBinaryIn v path = walk_plain v path"

definition assertNoBinary :: "ydoc \<Rightarrow> js_string list + unit" where
  "assertNoBinary d = (if findBinaryValues d \<noteq> [] then Inl (findBinaryValues d) else Inr ())"

subsection \<open>Asset records\<close>

text \<open>
  \<open>parse\<close> is \<open>hbAsset.parse\<close> of the schema library: the fields it knows, or the validation error.
\<close>

datatype AssetError = BinaryInAsset "js_string list" | InvalidAsset

definition writeAsset :: "YText \<Rightarrow> (fields \<Rightarrow> fields option) \<Rightarrow> fields \<Rightarrow> ymap \<Rightarrow> AssetError + ymap \<times> YOp list" where
  "writeAsset T parse asset assets =
     (let binary = findBinaryIn (JSObj asset) (u ''asset'')
      in if binary \<noteq> [] then Inl (BinaryInAsset binary)
         else case parse asset of
           None \<Rightarrow> Inl InvalidAsset
         | Some parsed \<Rightarrow>
             let fileId = str_field (JSObj parsed) (u ''fileId'');
                 (m, o1) = nested_of fileId assets;
                 (m', o2) = writeInto T [] True parsed m
             in Inr (AList.update fileId (YMap m') assets, o1 @ o2))"

definition readAssets :: "ymap \<Rightarrow> jsval list" where
  "readAssets assets = sort_key (\<lambda>v. str_field v (u ''fileId'')) (map (\<lambda>p. toJSON (snd p)) assets)"

definition removeAsset :: "js_string \<Rightarrow> ymap \<Rightarrow> ymap" where
  "removeAsset fileId assets = AList.delete fileId assets"

record BoardDocument =
  bd_elements :: "jsval list"
  bd_assets :: "jsval list"
  bd_appState :: fields

definition readDocument :: "ydoc \<Rightarrow> BoardDocument" where
  "readDocument d =
     \<lparr>bd_elements = read_elements d, bd_assets = readAssets (root d ROOT_ASSETS),
      bd_appState = readAppState (root d ROOT_APP_STATE)\<rparr>"

subsection \<open>What the guard sees\<close>

fun clean_plain :: "jsval \<Rightarrow> bool" where
  "clean_plain (JSBin b) \<longleftrightarrow> False"
| "clean_plain (JSArr vs) \<longleftrightarrow> list_all clean_plain vs"
| "clean_plain (JSObj fs) \<longleftrightarrow> list_all (\<lambda>p. clean_plain (snd p)) fs"
| "clean_plain v \<longleftrightarrow> True"

fun clean :: "yval \<Rightarrow> bool" where
  "clean (YPlain v) \<longleftrightarrow> clean_plain v"
| "clean (YTxt s) \<longleftrightarrow> True"
| "clean (YMap m) \<longleftrightarrow> list_all (\<lambda>p. clean (snd p)) m"
| "clean (YArr vs) \<longleftrightarrow> list_all clean vs"

text \<open>Binary values may be fields of objects, but not lie inside an array.\<close>

fun arrays_clean :: "jsval \<Rightarrow> bool" where
  "arrays_clean (JSArr vs) \<longleftrightarrow> list_all clean_plain vs"
| "arrays_clean (JSObj fs) \<longleftrightarrow> list_all (\<lambda>p. arrays_clean (snd p)) fs"
| "arrays_clean v \<longleftrightarrow> True"

lemma enumerate_all: "(\<forall>p \<in> set (enumerate n vs). P (snd p)) \<longleftrightarrow> list_all P vs"
  by (induction vs arbitrary: n) auto

lemma walk_plain_clean: "walk_plain v path = [] \<longleftrightarrow> clean_plain v"
proof (induction v path rule: walk_plain.induct)
  case (2 vs path)
  then have "walk_plain (JSArr vs) path = [] \<longleftrightarrow> (\<forall>p \<in> set (enumerate 0 vs). clean_plain (snd p))" by simp
  then show ?case by (simp add: enumerate_all)
next
  case (3 fs path)
  then show ?case by (simp add: list_all_iff)
qed simp_all

lemma walk_clean: "walk v path = [] \<longleftrightarrow> clean v"
proof (induction v path rule: walk.induct)
  case (4 vs path)
  then have "walk (YArr vs) path = [] \<longleftrightarrow> (\<forall>p \<in> set (enumerate 0 vs). clean (snd p))" by simp
  then show ?case by (simp add: enumerate_all)
qed (simp_all add: walk_plain_clean list_all_iff)

lemma findBinaryValues_clean: "findBinaryValues d = [] \<longleftrightarrow> list_all (\<lambda>p. clean (YMap (snd p))) d"
  by (simp add: findBinaryValues_def walk_clean list_all_iff del: walk.simps clean.simps)

lemma write_entries_clean:
  assumes "arrays_clean (JSObj es)" "clean (YMap m)"
  shows "clean (YMap (fst (write_entries T keys es m)))"
proof (rule write_entries_pred [where P = clean and Q = "\<lambda>k. arrays_clean"])
  show "clean (YPlain v)" if "arrays_clean v" "is_leaf keys k v" for k v using that by (cases v) auto
qed (use assms in simp_all)

lemma writeElement_clean:
  assumes "arrays_clean (JSObj e)" "clean (YMap els)"
  shows "clean (YMap (fst (writeElement T e els)))"
proof -
  have "clean (YMap (fst (prune e (fst (nested_of (element_id e) els)))))"
    using assms(2) by (intro prune_map_pred [where P = clean] nested_map_pred [where P = clean]) simp_all
  from write_entries_clean [OF assms(1) this]
  have "clean (YMap (fst (writeInto T Y_TEXT_KEYS True e (fst (nested_of (element_id e) els)))))"
    by (simp add: writeInto_def split_beta)
  then show ?thesis unfolding writeElement_eq by (rule update_map_pred [where P = clean, OF clean.simps(3) assms(2)])
qed

definition thumb_element :: fields where
  "thumb_element = [(u ''id'', JSStr (u ''e1'')), (u ''thumb'', JSBin [137, 80, 78])]"

text \<open>
  C34. The guard against binary values is exact for values that lie in the document as binaries: it is silent
  just when there is none, in any root, at any depth. But it does not see what it is there for: the codec
  takes a byte array for a plain object and writes its bytes as a nested map, so a thumbnail put into
  an element, which the search before writing does report, goes into the document byte by byte and
  the guard stays silent.
\<close>

theorem guard_misses_written_bytes:
  "(findBinaryValues d = [] \<longleftrightarrow> list_all (\<lambda>p. clean (YMap (snd p))) d) \<and>
   (findBinaryValues d = [] \<and> arrays_clean (JSObj e) \<longrightarrow>
      findBinaryValues (set_root ROOT_ELEMENTS (fst (writeElement T e (root d ROOT_ELEMENTS))) d) = []) \<and>
   arrays_clean (JSObj thumb_element) \<and> findBinaryIn (JSObj thumb_element) path \<noteq> [] \<and>
   map_of (fst (writeElement T thumb_element [])) (u ''e1'') =
     Some (YMap [(u ''id'', YPlain (JSStr (u ''e1''))),
       (u ''thumb'', YMap [(u ''0'', YPlain (JSNum 137)), (u ''1'', YPlain (JSNum 80)), (u ''2'', YPlain (JSNum 78))])])"
proof (intro conjI impI)
  assume a: "findBinaryValues d = [] \<and> arrays_clean (JSObj e)"
  then have d: "list_all (\<lambda>p. clean (YMap (snd p))) d" by (simp add: findBinaryValues_clean del: clean.simps)
  then have "clean (YMap (root d ROOT_ELEMENTS))"
    using map_of_all [where P = "\<lambda>m. clean (YMap m)" and m = d and k = ROOT_ELEMENTS]
    by (cases "map_of d ROOT_ELEMENTS") (simp_all add: root_def)
  then have "clean (YMap (fst (writeElement T e (root d ROOT_ELEMENTS))))"
    using a by (intro writeElement_clean) simp_all
  with d show "findBinaryValues (set_root ROOT_ELEMENTS (fst (writeElement T e (root d ROOT_ELEMENTS))) d) = []"
    unfolding findBinaryValues_clean set_root_def by (rule list_all_snd_update [where P = "\<lambda>m. clean (YMap m)"])
next
  show "findBinaryValues d = [] \<longleftrightarrow> list_all (\<lambda>p. clean (YMap (snd p))) d" by (rule findBinaryValues_clean)
  show "arrays_clean (JSObj thumb_element)" by (simp add: thumb_element_def)
  have "\<not> clean_plain (JSObj thumb_element)" by (simp add: thumb_element_def)
  then show "findBinaryIn (JSObj thumb_element) path \<noteq> []" by (simp add: findBinaryIn_def walk_plain_clean del: walk_plain.simps clean_plain.simps)
  show "map_of (fst (writeElement T thumb_element [])) (u ''e1'') =
     Some (YMap [(u ''id'', YPlain (JSStr (u ''e1''))),
       (u ''thumb'', YMap [(u ''0'', YPlain (JSNum 137)), (u ''1'', YPlain (JSNum 80)), (u ''2'', YPlain (JSNum 78))])])"
    by code_simp
qed

theorem guard_misses_written_bytes_witness:
  "findBinaryValues (set_root ROOT_ELEMENTS (fst (writeElement list_text thumb_element [])) (createBoardDoc None)) = []"
proof -
  have "findBinaryValues (createBoardDoc None) = [] \<and> arrays_clean (JSObj thumb_element)"
    "root (createBoardDoc None) ROOT_ELEMENTS = []" by code_simp+
  then show ?thesis
    using guard_misses_written_bytes [of "createBoardDoc None" thumb_element list_text "[]"] by simp
qed

subsection \<open>Shared settings are patched\<close>

lemma map_of_foldl_update:
  "distinct (map fst ps) \<Longrightarrow> map_of (foldl (\<lambda>fs (k, v). AList.update k v fs) fs ps) k =
     (case map_of ps k of None \<Rightarrow> map_of fs k | Some v \<Rightarrow> Some v)"
proof (induction ps arbitrary: fs)
  case (Cons p ps)
  then have "map_of ps (fst p) = None" by (simp add: map_of_eq_None_iff)
  with Cons show ?case by (cases p) (auto simp: update_conv' split: option.split)
qed simp

lemma keys_foldl_update:
  "fst ` set ps \<subseteq> fst ` set fs \<Longrightarrow> map fst (foldl (\<lambda>fs (k, v). AList.update k v fs) fs ps) = map fst fs"
proof (induction ps arbitrary: fs)
  case (Cons p ps)
  then have "map fst (AList.update (fst p) (snd p) fs) = map fst fs" by (auto simp: update_keys)
  moreover from this have "fst ` set (AList.update (fst p) (snd p) fs) = fst ` set fs" by (metis set_map)
  ultimately show ?case using Cons by (cases p) simp
qed simp

lemma map_of_known:
  "map_of (List.map_filter (\<lambda>k. case f k of JSUndef \<Rightarrow> None | v \<Rightarrow> Some (k, v)) ks) k =
     (if k \<in> set ks \<and> f k \<noteq> JSUndef then Some (f k) else None)"
  by (induction ks) (auto simp: List.map_filter_simps split: jsval.split)

lemma known_keys: "map fst (List.map_filter (\<lambda>k. case f k of JSUndef \<Rightarrow> None | v \<Rightarrow> Some (k, v)) ks) =
    filter (\<lambda>k. f k \<noteq> JSUndef) ks"
  by (induction ks) (auto simp: List.map_filter_simps split: jsval.split)

lemma default_keys: "map fst DEFAULT_APP_STATE = SHARED_APP_STATE_KEYS" "distinct SHARED_APP_STATE_KEYS"
  by code_simp+

lemma known_settings_keys: "map fst (known_settings m) = filter (\<lambda>k. plainOf (map_of m k) \<noteq> JSUndef) SHARED_APP_STATE_KEYS"
  unfolding known_settings_def by (rule known_keys)

lemma readAppState_keys: "map fst (readAppState m) = SHARED_APP_STATE_KEYS"
proof -
  have "fst ` set (known_settings m) = set (map fst (known_settings m))" by simp
  also have "\<dots> \<subseteq> fst ` set DEFAULT_APP_STATE"
    unfolding known_settings_keys using default_keys(1) by (metis filter_is_subset set_map)
  finally show ?thesis unfolding readAppState_def by (simp add: keys_foldl_update default_keys(1))
qed

lemma map_of_readAppState:
  "map_of (readAppState m) k =
     (if k \<in> set SHARED_APP_STATE_KEYS \<and> plainOf (map_of m k) \<noteq> JSUndef then Some (plainOf (map_of m k))
      else map_of DEFAULT_APP_STATE k)"
proof -
  have "distinct (map fst (known_settings m))" unfolding known_settings_keys using default_keys(2) by simp
  then show ?thesis unfolding readAppState_def
    by (simp add: map_of_foldl_update) (simp add: known_settings_def map_of_known)
qed

lemma strip_defined: "v \<noteq> JSUndef \<Longrightarrow> strip v \<noteq> JSUndef"
  by (cases v) simp_all

text \<open>
  A patch of the shared settings is all or nothing and exact. One key that is not a shared setting, such as
  a user's own zoom, refuses the patch with just those keys named. Otherwise every setting of the patch reads
  back deeply equal, every other setting reads as before, and whatever the document holds, a
  reader gets exactly the shared settings: foreign keys are invisible and absent ones have their defaults.
\<close>

theorem settings_are_patched:
  assumes "ytext_ok T" "wf_val (JSObj patch)" "wf_yval (YMap m)"
  shows "map fst (readAppState m) = SHARED_APP_STATE_KEYS \<and>
    (case writeAppState T patch m of
       Inl bad \<Rightarrow> bad \<noteq> [] \<and> set bad = fst ` set patch - set SHARED_APP_STATE_KEYS
     | Inr (m', ops) \<Rightarrow> fst ` set patch \<subseteq> set SHARED_APP_STATE_KEYS \<and>
         (\<forall>k v. map_of patch k = Some v \<and> v \<noteq> JSUndef \<longrightarrow>
            (\<exists>y. map_of (readAppState m') k = Some y \<and> deepEqual y (strip v))) \<and>
         (\<forall>k. k \<notin> fst ` set patch \<longrightarrow> map_of (readAppState m') k = map_of (readAppState m) k))"
proof (cases "filter (\<lambda>k. k \<notin> set SHARED_APP_STATE_KEYS) (map fst patch) = []")
  case False
  then show ?thesis using readAppState_keys by (auto simp: writeAppState_def Let_def)
next
  case True
  then have sub: "fst ` set patch \<subseteq> set SHARED_APP_STATE_KEYS" by (auto simp: filter_empty_conv)
  obtain m' ops where w: "writeInto T [] False patch m = (m', ops)" by fastforce
  have m': "m' = fst (write_entries T [] patch m)" using w by (simp add: writeInto_def split_beta)
  have "written [] patch m m'" unfolding m'
    using assms entries_whole_free by (intro write_entries_written) simp_all
  note wr = writtenD [OF this]
  have "\<exists>y. map_of (readAppState m') k = Some y \<and> deepEqual y (strip v)"
    if v: "map_of patch k = Some v" "v \<noteq> JSUndef" for k v
  proof -
    have p: "(k, v) \<in> set patch" using v(1) by (rule map_of_SomeD)
    then have h: "holds_value [] k v (map_of m' k)" using wr(2) by (auto simp: holds_entries_def list_all_iff)
    moreover have "map_of m' k \<noteq> None"
    proof
      assume "map_of m' k = None"
      with h v(2) show False by (cases v) (auto simp: plainOf_def)
    qed
    then obtain y where y: "map_of m' k = Some y" by auto
    moreover have "wf_yval y" using wr(4) map_of_all [where P = wf_yval, OF _ y] by simp
    moreover have "wf_val v" using assms(2) p by (auto simp: list_all_iff)
    ultimately have eq: "deepEqual (toJSON y) (strip v)" using v(2) by (intro holds_read) simp_all
    then have "toJSON y \<noteq> JSUndef" using strip_defined [OF v(2)] by auto
    moreover have "k \<in> set SHARED_APP_STATE_KEYS" using sub p by force
    ultimately show ?thesis using y eq by (simp add: map_of_readAppState plainOf_def)
  qed
  moreover have "map_of (readAppState m') k = map_of (readAppState m) k" if "k \<notin> fst ` set patch" for k
    using wr(1) [OF that] by (simp add: map_of_readAppState)
  ultimately show ?thesis using True sub w readAppState_keys by (simp add: writeAppState_def)
qed

definition sample_settings :: ymap where
  "sample_settings = [(u ''gridSize'', YPlain (JSNum 10)), (u ''zoom'', YPlain (JSNum 3))]"

theorem settings_are_patched_witness:
  "map_of (readAppState (fst (writeInto list_text [] False [(u ''gridEnabled'', JSBool True)] sample_settings))) (u ''gridSize'') =
     Some (JSNum 10) \<and>
   writeAppState list_text [(u ''zoom'', JSNum 2)] sample_settings = Inl [u ''zoom'']"
proof -
  let ?p = "[(u ''gridEnabled'', JSBool True)]"
  have h: "wf_val (JSObj ?p)" "wf_yval (YMap sample_settings)"
    "u ''gridSize'' \<notin> fst ` set ?p" by code_simp+
  have w: "writeAppState list_text ?p sample_settings = Inr (writeInto list_text [] False ?p sample_settings)"
    by (simp add: writeAppState_def) code_simp
  have "map_of (readAppState sample_settings) (u ''gridSize'') = Some (JSNum 10)" by code_simp
  then have "map_of (readAppState (fst (writeInto list_text [] False ?p sample_settings))) (u ''gridSize'') = Some (JSNum 10)"
    using settings_are_patched [OF list_text_ok h(1,2)] h(3) unfolding w by (auto simp: split_beta)
  moreover have "writeAppState list_text [(u ''zoom'', JSNum 2)] sample_settings = Inl [u ''zoom'']" by code_simp
  ultimately show ?thesis ..
qed

end
