(* ===== verification/Migrations.thy ===== *)
theory Migrations
  imports BoardDoc
begin

text \<open>
  The migrations of the document format (\<open>packages/ydoc-schema/src/migrations\<close>), which the server runs on
  a document it has loaded. A migration is a parameter of the model: a function from the document to the
  document it leaves, with a flag for whether it returned or threw; an exception in a Yjs transaction keeps what
  was written before it. The loop follows the code and may not end for an arbitrary registry, so it is a
  partial function; that it ends for every registry that \<open>assertChain\<close> accepts is proved.
\<close>

subsection \<open>The code\<close>












datatype ClientVersionCheck = ClientOk | ClientTooOld int

definition checkClientVersion :: "int \<Rightarrow> int \<Rightarrow> ClientVersionCheck" where
  "checkClientVersion documentVersion clientSupports =
     (if clientSupports < documentVersion then ClientTooOld documentVersion else ClientOk)"

subsection \<open>A checked chain counts up to the target\<close>





subsection \<open>The loop is one pass over the steps that are due\<close>




















end
