(* ===== verification/EmitLocal.thy ===== *)
theory EmitLocal
  imports Migrations
begin

text \<open>
  The local write path of the client: the queue of \<open>packages/canvas-sync/src/emit-local.ts\<close> between the
  canvas and the document. The queue is polymorphic in the
  state behind its sink. A timer is the delay it was set with; that it fires is an event of the run.
  The interface \<open>element_sink\<close> states what the queue relies on; it is interpreted on the document codec in \<open>LocalCommit\<close>.
\<close>

subsection \<open>Change sets\<close>

datatype ChangeOrigin = LocalUser | Remote | Undo | System

text \<open>\<open>cs_assets\<close> is empty where the field is absent.\<close>

record ElementChangeSet =
  cs_upserted :: "fields list"
  cs_deleted :: "js_string list"
  cs_assets :: "fields list"
  cs_origin :: ChangeOrigin
  cs_gesture :: "string option"

definition isEmittableOrigin :: "ChangeOrigin \<Rightarrow> bool" where
  "isEmittableOrigin origin \<longleftrightarrow> origin \<noteq> Remote"

text \<open>A gesture id as a condition: absent and empty are false.\<close>

definition truthy :: "string option \<Rightarrow> bool" where
  "truthy g \<longleftrightarrow> g \<noteq> None \<and> g \<noteq> Some []"

subsection \<open>The scheduler\<close>

record 's EmitSink =
  sink_commit :: "ElementChangeSet \<Rightarrow> 's \<Rightarrow> 's"
  sink_has :: "'s \<Rightarrow> js_string \<Rightarrow> bool"
  sink_textOf :: "'s \<Rightarrow> js_string \<Rightarrow> js_string option"

datatype Mode = GestureMode | TextMode

record Throttle =
  gestureMs :: nat
  textDebounceMs :: nat

definition HB_THROTTLE :: Throttle where
  "HB_THROTTLE = \<lparr>gestureMs = 50, textDebounceMs = 150\<rparr>"

record Scheduler =
  sc_pending :: "(js_string \<times> fields) list"
  sc_gesture :: "string option"
  sc_origin :: ChangeOrigin
  sc_mode :: Mode
  sc_timer :: "nat option"

definition new_scheduler :: Scheduler where
  "new_scheduler = \<lparr>sc_pending = [], sc_gesture = None, sc_origin = LocalUser, sc_mode = GestureMode, sc_timer = None\<rparr>"

definition isTextOnly :: "fields \<Rightarrow> js_string option \<Rightarrow> bool" where
  "isTextOnly e currentText =
     (case currentText of
        None \<Rightarrow> False
      | Some t \<Rightarrow> (case map_of e (u ''originalText'') of Some (JSStr s) \<Rightarrow> s \<noteq> t | _ \<Rightarrow> False))"

definition flush :: "'s EmitSink \<Rightarrow> Scheduler \<times> 's \<Rightarrow> Scheduler \<times> 's" where
  "flush sink cfg =
     (case cfg of (sc, s) \<Rightarrow>
        if sc_pending sc = [] then (sc\<lparr>sc_timer := None\<rparr>, s)
        else (sc\<lparr>sc_timer := None, sc_pending := [], sc_gesture := None\<rparr>,
              sink_commit sink
                \<lparr>cs_upserted = map snd (sc_pending sc), cs_deleted = [], cs_assets = [], cs_origin = sc_origin sc,
                 cs_gesture = (if truthy (sc_gesture sc) then sc_gesture sc else None)\<rparr> s))"

definition schedule :: "Throttle \<Rightarrow> 's EmitSink \<Rightarrow> Mode \<Rightarrow> Scheduler \<times> 's \<Rightarrow> Scheduler \<times> 's" where
  "schedule opts sink nxt cfg =
     (let (sc, s) = (if sc_timer (fst cfg) \<noteq> None \<and> nxt \<noteq> sc_mode (fst cfg) then flush sink cfg else cfg);
          sc = sc\<lparr>sc_mode := nxt\<rparr>;
          sc = (if nxt = TextMode then sc\<lparr>sc_timer := None\<rparr> else sc)
      in (if sc_timer sc = None
          then sc\<lparr>sc_timer := Some (if nxt = TextMode then textDebounceMs opts else gestureMs opts)\<rparr> else sc, s))"

definition immediate_push :: "'s EmitSink \<Rightarrow> 's \<Rightarrow> ElementChangeSet \<Rightarrow> bool" where
  "immediate_push sink s cs \<longleftrightarrow>
     cs_deleted cs \<noteq> [] \<or> (\<exists>e \<in> set (cs_upserted cs). \<not> sink_has sink s (element_id e)) \<or> \<not> truthy (cs_gesture cs)"

definition push :: "Throttle \<Rightarrow> 's EmitSink \<Rightarrow> ElementChangeSet \<Rightarrow> Scheduler \<times> 's \<Rightarrow> Scheduler \<times> 's" where
  "push opts sink cs cfg =
     (if immediate_push sink (snd cfg) cs
      then let (sc, s) = flush sink cfg in (sc, sink_commit sink cs s)
      else
        let (sc, s) = (if sc_gesture (fst cfg) \<noteq> None \<and> sc_gesture (fst cfg) \<noteq> cs_gesture cs then flush sink cfg else cfg);
            textOnly = (\<forall>e \<in> set (cs_upserted cs). isTextOnly e (sink_textOf sink s (element_id e)));
            sc = sc\<lparr>sc_gesture := cs_gesture cs, sc_origin := cs_origin cs,
                    sc_pending := foldl (\<lambda>m e. AList.update (element_id e) e m) (sc_pending sc) (cs_upserted cs)\<rparr>
        in schedule opts sink (if textOnly then TextMode else GestureMode) (sc, s))"

text \<open>
  A change of mode is not throttled: the new change joins the queue before \<open>schedule\<close> flushes it, so pushes that
  alternate between typing and moving are each written at once.
\<close>

lemma mode_switch_is_not_throttled:
  assumes "\<not> immediate_push sink s cs" "sc_gesture sc = cs_gesture cs" "sc_timer sc \<noteq> None"
    "sc_mode sc = (if \<forall>e \<in> set (cs_upserted cs). isTextOnly e (sink_textOf sink s (element_id e)) then GestureMode else TextMode)"
  shows "sc_pending (fst (push opts sink cs (sc, s))) = []" "sc_timer (fst (push opts sink cs (sc, s))) \<noteq> None"
    "sc_mode (fst (push opts sink cs (sc, s))) \<noteq> sc_mode sc"
  using assms by (auto simp: push_def schedule_def flush_def Let_def)

text \<open>The queue changes the state behind its sink by commits only, of the change sets it is given and of what it holds.\<close>

lemma flush_commits:
  assumes "\<And>cs s. Q cs \<Longrightarrow> P s \<Longrightarrow> P (sink_commit sink cs s)"
    "\<And>cs. cs_deleted cs = [] \<Longrightarrow> cs_assets cs = [] \<Longrightarrow> set (cs_upserted cs) \<subseteq> E \<Longrightarrow> Q cs"
    "snd ` set (sc_pending (fst cfg)) \<subseteq> E" "P (snd cfg)"
  shows "P (snd (flush sink cfg)) \<and> snd ` set (sc_pending (fst (flush sink cfg))) \<subseteq> E"
proof (cases "sc_pending (fst cfg) = []")
  case True
  then show ?thesis using assms(3,4) by (simp add: flush_def split_beta)
next
  case False
  let ?cs = "\<lparr>cs_upserted = map snd (sc_pending (fst cfg)), cs_deleted = [], cs_assets = [], cs_origin = sc_origin (fst cfg),
               cs_gesture = (if truthy (sc_gesture (fst cfg)) then sc_gesture (fst cfg) else None)\<rparr>"
  have "P (sink_commit sink ?cs (snd cfg))" by (intro assms(1,4) assms(2)) (use assms(3) in simp_all)
  moreover have "snd (flush sink cfg) = sink_commit sink ?cs (snd cfg)" "sc_pending (fst (flush sink cfg)) = []"
    using False by (simp_all add: flush_def split_beta)
  ultimately show ?thesis by simp
qed

lemma schedule_commits:
  assumes "\<And>cs s. Q cs \<Longrightarrow> P s \<Longrightarrow> P (sink_commit sink cs s)"
    "\<And>cs. cs_deleted cs = [] \<Longrightarrow> cs_assets cs = [] \<Longrightarrow> set (cs_upserted cs) \<subseteq> E \<Longrightarrow> Q cs"
    "snd ` set (sc_pending (fst cfg)) \<subseteq> E" "P (snd cfg)"
  shows "P (snd (schedule opts sink nxt cfg)) \<and> snd ` set (sc_pending (fst (schedule opts sink nxt cfg))) \<subseteq> E"
proof -
  have "P (snd (flush sink cfg)) \<and> snd ` set (sc_pending (fst (flush sink cfg))) \<subseteq> E"
    by (rule flush_commits [of Q P sink E, OF assms])
  moreover note assms(3,4)
  ultimately show ?thesis by (simp add: schedule_def split_beta Let_def)
qed

lemma push_commits:
  assumes commit: "\<And>cs s. Q cs \<Longrightarrow> P s \<Longrightarrow> P (sink_commit sink cs s)"
    and queued: "\<And>cs. cs_deleted cs = [] \<Longrightarrow> cs_assets cs = [] \<Longrightarrow> set (cs_upserted cs) \<subseteq> E \<Longrightarrow> Q cs"
    and cfg: "snd ` set (sc_pending (fst cfg)) \<subseteq> E" "P (snd cfg)" and cs: "Q cs" "set (cs_upserted cs) \<subseteq> E"
  shows "P (snd (push opts sink cs cfg)) \<and> snd ` set (sc_pending (fst (push opts sink cs cfg))) \<subseteq> E"
proof -
  have f: "P (snd (flush sink cfg)) \<and> snd ` set (sc_pending (fst (flush sink cfg))) \<subseteq> E"
    by (rule flush_commits [of Q P sink E, OF commit queued cfg])
  have up: "snd ` set (foldl (\<lambda>m e. AList.update (element_id e) e m) m es) \<subseteq> E"
    if "snd ` set m \<subseteq> E" "set es \<subseteq> E" for m es
    using that
  proof (induction es arbitrary: m)
    case (Cons e es)
    have "snd ` set (AList.update (element_id e) e m) \<subseteq> E" using Cons(2,3) by (induction m) auto
    then show ?case using Cons by simp
  qed simp
  show ?thesis
  proof (cases "immediate_push sink (snd cfg) cs")
    case True
    then have "push opts sink cs cfg = (fst (flush sink cfg), sink_commit sink cs (snd (flush sink cfg)))"
      by (simp add: push_def split_beta Let_def)
    then have p: "snd (push opts sink cs cfg) = sink_commit sink cs (snd (flush sink cfg))"
      "fst (push opts sink cs cfg) = fst (flush sink cfg)" by simp_all
    show ?thesis unfolding p by (intro conjI commit [OF cs(1)] conjunct1 [OF f] conjunct2 [OF f])
  next
    case False
    obtain sc s where c: "(if sc_gesture (fst cfg) \<noteq> None \<and> sc_gesture (fst cfg) \<noteq> cs_gesture cs then flush sink cfg else cfg) = (sc, s)"
      by fastforce
    have "(sc, s) = flush sink cfg \<or> (sc, s) = cfg" using c by (auto split: if_splits)
    then have g: "P s" "snd ` set (sc_pending sc) \<subseteq> E" using f cfg by (metis fst_conv snd_conv)+
    let ?sc = "sc\<lparr>sc_gesture := cs_gesture cs, sc_origin := cs_origin cs,
        sc_pending := foldl (\<lambda>m e. AList.update (element_id e) e m) (sc_pending sc) (cs_upserted cs)\<rparr>"
    have "\<exists>nxt. push opts sink cs cfg = schedule opts sink nxt (?sc, s)" using False c by (simp add: push_def Let_def) blast
    then obtain nxt where nxt: "push opts sink cs cfg = schedule opts sink nxt (?sc, s)" ..
    have h: "snd ` set (sc_pending (fst (?sc, s))) \<subseteq> E" "P (snd (?sc, s))" using up [OF g(2) cs(2)] g(1) by simp_all
    show ?thesis unfolding nxt by (rule schedule_commits [of Q P sink E, OF commit queued h])
  qed
qed

lemma flush_state:
  assumes "\<And>cs s. P s \<Longrightarrow> P (sink_commit sink cs s)" "P (snd cfg)"
  shows "P (snd (flush sink cfg))"
  using flush_commits [of "\<lambda>cs. True" P sink UNIV] assms by simp

lemma push_state:
  assumes "\<And>cs s. P s \<Longrightarrow> P (sink_commit sink cs s)" "P (snd cfg)"
  shows "P (snd (push opts sink cs cfg))"
  using push_commits [of "\<lambda>cs. True" P sink UNIV] assms by simp

text \<open>What happens to a queue: a change set from the canvas, its timer, a flush from outside.\<close>

datatype QueueEvent = Push ElementChangeSet | Fire | Flush

definition queue_step :: "Throttle \<Rightarrow> 's EmitSink \<Rightarrow> QueueEvent \<Rightarrow> Scheduler \<times> 's \<Rightarrow> Scheduler \<times> 's" where
  "queue_step opts sink ev cfg =
     (case ev of
        Push cs \<Rightarrow> push opts sink cs cfg
      | Fire \<Rightarrow> if sc_timer (fst cfg) = None then cfg else flush sink cfg
      | Flush \<Rightarrow> flush sink cfg)"

definition queue_run :: "Throttle \<Rightarrow> 's EmitSink \<Rightarrow> QueueEvent list \<Rightarrow> Scheduler \<times> 's \<Rightarrow> Scheduler \<times> 's" where
  "queue_run opts sink evs cfg = foldl (\<lambda>c ev. queue_step opts sink ev c) cfg evs"

definition dispose :: "'s EmitSink \<Rightarrow> Scheduler \<times> 's \<Rightarrow> Scheduler \<times> 's" where
  "dispose sink cfg = flush sink cfg"

subsection \<open>What the canvas said last\<close>

datatype LastWord = Upserted fields | Deleted

definition upsert_of :: "fields list \<Rightarrow> js_string \<Rightarrow> fields option" where
  "upsert_of es i = map_of (rev (map (\<lambda>e. (element_id e, e)) es)) i"

definition word_of :: "ElementChangeSet \<Rightarrow> js_string \<Rightarrow> LastWord option" where
  "word_of cs i = (if i \<in> set (cs_deleted cs) then Some Deleted else map_option Upserted (upsert_of (cs_upserted cs) i))"

fun last_word :: "QueueEvent list \<Rightarrow> js_string \<Rightarrow> LastWord option" where
  "last_word [] i = None"
| "last_word (Push cs # evs) i = (case last_word evs i of None \<Rightarrow> word_of cs i | Some w \<Rightarrow> Some w)"
| "last_word (Fire # evs) i = last_word evs i"
| "last_word (Flush # evs) i = last_word evs i"

lemma last_word_snoc:
  "last_word (evs @ [ev]) i = (case ev of Push cs \<Rightarrow> (case word_of cs i of None \<Rightarrow> last_word evs i | Some w \<Rightarrow> Some w)
     | _ \<Rightarrow> last_word evs i)"
proof (induction evs)
  case Nil
  show ?case by (cases ev) (simp_all split: option.split)
next
  case (Cons e evs)
  then show ?case by (cases e; cases ev) (auto split: option.splits)
qed

subsection \<open>The interface of the sink\<close>

text \<open>
  \<open>reads s w i\<close>: the state shows for \<open>i\<close> what was said. A commit makes its own words true and
  leaves the rest; \<open>okay\<close> is what it needs of the state, \<open>valid\<close> of an element.
\<close>

locale element_sink =
  fixes sink :: "'s EmitSink" and okay :: "'s \<Rightarrow> bool" and valid :: "fields \<Rightarrow> bool"
    and reads :: "'s \<Rightarrow> LastWord \<Rightarrow> js_string \<Rightarrow> bool"
  assumes commit_okay: "okay s \<Longrightarrow> list_all valid (cs_upserted cs) \<Longrightarrow> okay (sink_commit sink cs s)"
    and commit_word: "okay s \<Longrightarrow> list_all valid (cs_upserted cs) \<Longrightarrow> word_of cs i = Some w \<Longrightarrow> reads (sink_commit sink cs s) w i"
    and commit_frame: "okay s \<Longrightarrow> list_all valid (cs_upserted cs) \<Longrightarrow> word_of cs i = None \<Longrightarrow>
      reads (sink_commit sink cs s) w i = reads s w i"
begin

definition valid_event :: "QueueEvent \<Rightarrow> bool" where
  "valid_event ev \<longleftrightarrow> (case ev of Push cs \<Rightarrow> list_all valid (cs_upserted cs) | _ \<Rightarrow> True)"

text \<open>What is queued was said last; what is not queued is written, or as it was in \<open>s0\<close>.\<close>

definition settled_word :: "'s \<Rightarrow> (js_string \<Rightarrow> LastWord option) \<Rightarrow> Scheduler \<Rightarrow> 's \<Rightarrow> js_string \<Rightarrow> bool" where
  "settled_word s0 said sc s i \<longleftrightarrow>
     (case map_of (sc_pending sc) i of
        Some e \<Rightarrow> said i = Some (Upserted e)
      | None \<Rightarrow> (case said i of Some w \<Rightarrow> reads s w i | None \<Rightarrow> \<forall>w. reads s w i = reads s0 w i))"

definition keyed :: "(js_string \<times> fields) list \<Rightarrow> bool" where
  "keyed m \<longleftrightarrow> list_all (\<lambda>p. valid (snd p) \<and> element_id (snd p) = fst p) m \<and> distinct (map fst m)"

definition queue_inv :: "'s \<Rightarrow> (js_string \<Rightarrow> LastWord option) \<Rightarrow> Scheduler \<times> 's \<Rightarrow> bool" where
  "queue_inv s0 said cfg \<longleftrightarrow> okay (snd cfg) \<and> keyed (sc_pending (fst cfg)) \<and> (\<forall>i. settled_word s0 said (fst cfg) (snd cfg) i)"

lemma queue_invD:
  assumes "queue_inv s0 said (sc, s)"
  shows "okay s" "keyed (sc_pending sc)" "settled_word s0 said sc s i"
  using assms by (simp_all add: queue_inv_def)

lemma queue_invI:
  assumes "okay s" "keyed (sc_pending sc)" "\<And>i. settled_word s0 said sc s i"
  shows "queue_inv s0 said (sc, s)"
  using assms by (simp add: queue_inv_def)

text \<open>Only the queue and the state matter.\<close>

lemma queue_inv_cong: "sc_pending sc = sc_pending sc' \<Longrightarrow> queue_inv s0 said (sc, s) \<longleftrightarrow> queue_inv s0 said (sc', s)"
  by (simp add: queue_inv_def settled_word_def)

lemma keyed_upserts: "keyed m \<Longrightarrow> upsert_of (map snd m) i = map_of m i"
proof -
  assume k: "keyed m"
  then have "map (\<lambda>e. (element_id e, e)) (map snd m) = m"
    by (auto simp: keyed_def list_all_iff comp_def intro!: map_idI)
  moreover have "map_of (rev m) = map_of m"
    using k by (subst map_of_inject_set) (simp_all add: keyed_def rev_map [symmetric])
  ultimately show ?thesis by (simp add: upsert_of_def)
qed

lemma keyed_valid: "keyed m \<Longrightarrow> list_all valid (map snd m)"
  by (auto simp: keyed_def list_all_iff)

lemma flush_inv:
  assumes inv: "queue_inv s0 said (sc, s)" and f: "flush sink (sc, s) = (sc', s')"
  shows "queue_inv s0 said (sc', s')" "sc_pending sc' = []" "sc_timer sc' = None"
proof -
  show p: "sc_pending sc' = []" "sc_timer sc' = None" using f by (auto simp: flush_def split: if_splits)
  show "queue_inv s0 said (sc', s')"
  proof (cases "sc_pending sc = []")
    case True
    then have "s' = s" "sc_pending sc' = sc_pending sc" using f by (auto simp: flush_def)
    then show ?thesis using inv queue_inv_cong by blast
  next
    case False
    note i = queue_invD [OF inv]
    let ?cs = "\<lparr>cs_upserted = map snd (sc_pending sc), cs_deleted = [], cs_assets = [], cs_origin = sc_origin sc,
                 cs_gesture = (if truthy (sc_gesture sc) then sc_gesture sc else None)\<rparr>"
    have s': "s' = sink_commit sink ?cs s" using f False by (simp add: flush_def)
    have v: "list_all valid (cs_upserted ?cs)" using keyed_valid [OF i(2)] by simp
    have w: "word_of ?cs k = map_option Upserted (map_of (sc_pending sc) k)" for k
      using keyed_upserts [OF i(2)] by (simp add: word_of_def)
    have "settled_word s0 said sc' s' k" for k
    proof (cases "map_of (sc_pending sc) k")
      case None
      with w have "reads s' x k = reads s x k" for x unfolding s' by (intro commit_frame [OF i(1) v]) simp
      then show ?thesis using i(3) [of k] None p(1) by (cases "said k") (simp_all add: settled_word_def)
    next
      case (Some e)
      with w have "reads s' (Upserted e) k" unfolding s' by (intro commit_word [OF i(1) v]) simp
      then show ?thesis using i(3) [of k] Some p(1) by (simp add: settled_word_def)
    qed
    moreover have "okay s'" unfolding s' by (rule commit_okay [OF i(1) v])
    ultimately show ?thesis using p(1) by (intro queue_invI) (simp_all add: keyed_def)
  qed
qed

lemma flush_reads:
  assumes "okay s" "keyed (sc_pending sc)" "map_of (sc_pending sc) i = Some e"
  shows "reads (snd (flush sink (sc, s))) (Upserted e) i"
proof -
  obtain sc' s' where f: "flush sink (sc, s) = (sc', s')" by fastforce
  have "queue_inv s (\<lambda>k. map_option Upserted (map_of (sc_pending sc) k)) (sc, s)"
    using assms(1,2) by (intro queue_invI) (simp_all add: settled_word_def split: option.split)
  note q = flush_inv [OF this f]
  show ?thesis using queue_invD(3) [OF q(1), of i] assms(3) q(2) f by (simp add: settled_word_def)
qed

lemma schedule_inv:
  assumes "queue_inv s0 said cfg"
  shows "queue_inv s0 said (schedule opts sink nxt cfg)"
proof -
  obtain sc s where c: "(if sc_timer (fst cfg) \<noteq> None \<and> nxt \<noteq> sc_mode (fst cfg) then flush sink cfg else cfg) = (sc, s)"
    by fastforce
  then have "queue_inv s0 said (sc, s)"
    using assms flush_inv(1) [of s0 said "fst cfg" "snd cfg"] by (auto split: if_splits)
  moreover have "snd (schedule opts sink nxt cfg) = s" "sc_pending (fst (schedule opts sink nxt cfg)) = sc_pending sc"
    unfolding schedule_def c by (simp_all add: Let_def)
  ultimately show ?thesis by (metis prod.collapse queue_inv_cong)
qed

definition said_after :: "(js_string \<Rightarrow> LastWord option) \<Rightarrow> ElementChangeSet \<Rightarrow> js_string \<Rightarrow> LastWord option" where
  "said_after said cs i = (case word_of cs i of None \<Rightarrow> said i | Some w \<Rightarrow> Some w)"

lemma map_of_upserts:
  "map_of (foldl (\<lambda>m e. AList.update (element_id e) e m) m es) i =
     (case upsert_of es i of None \<Rightarrow> map_of m i | Some e \<Rightarrow> Some e)"
  by (induction es rule: rev_induct) (auto simp: upsert_of_def update_conv' split: option.split)

lemma keyed_upsert:
  "keyed m \<Longrightarrow> list_all valid es \<Longrightarrow> keyed (foldl (\<lambda>m e. AList.update (element_id e) e m) m es)"
proof (induction es rule: rev_induct)
  case (snoc e es)
  let ?m = "foldl (\<lambda>m e. AList.update (element_id e) e m) m es"
  have "keyed ?m" using snoc by simp
  moreover have "list_all (\<lambda>p. valid (snd p) \<and> element_id (snd p) = fst p) (AList.update (element_id e) e n)"
    if "list_all (\<lambda>p. valid (snd p) \<and> element_id (snd p) = fst p) n" for n
    using that snoc(3) by (induction n) auto
  ultimately show ?case by (simp add: keyed_def distinct_update)
qed simp

lemma push_inv:
  assumes inv: "queue_inv s0 said (sc, s)" and v: "list_all valid (cs_upserted cs)"
  shows "queue_inv s0 (said_after said cs) (push opts sink cs (sc, s))"
proof (cases "immediate_push sink s cs")
  case True
  obtain sc' s' where f: "flush sink (sc, s) = (sc', s')" by fastforce
  note fi = flush_inv [OF inv f]
  note i = queue_invD [OF fi(1)]
  have "settled_word s0 (said_after said cs) sc' (sink_commit sink cs s') k" for k
    using commit_word [OF i(1) v, of k] commit_frame [OF i(1) v, of k] i(3) [of k]
    by (cases "word_of cs k"; cases "said k") (simp_all add: settled_word_def said_after_def fi(2))
  then have "queue_inv s0 (said_after said cs) (sc', sink_commit sink cs s')"
    using i(2) commit_okay [OF i(1) v] by (intro queue_invI)
  then show ?thesis using True f by (simp add: push_def)
next
  case False
  obtain sc' s' where c: "(if sc_gesture sc \<noteq> None \<and> sc_gesture sc \<noteq> cs_gesture cs then flush sink (sc, s) else (sc, s)) = (sc', s')"
    by fastforce
  then have "queue_inv s0 said (sc', s')" using inv flush_inv(1) by (auto split: if_splits)
  note i = queue_invD [OF this]
  let ?sc = "sc'\<lparr>sc_gesture := cs_gesture cs, sc_origin := cs_origin cs,
                    sc_pending := foldl (\<lambda>m e. AList.update (element_id e) e m) (sc_pending sc') (cs_upserted cs)\<rparr>"
  have said: "said_after said cs k = (case upsert_of (cs_upserted cs) k of None \<Rightarrow> said k | Some e \<Rightarrow> Some (Upserted e))" for k
    using False by (simp add: immediate_push_def word_of_def said_after_def split: option.split)
  have "settled_word s0 (said_after said cs) ?sc s' k" for k
    using i(3) [of k] by (cases "upsert_of (cs_upserted cs) k") (simp_all add: settled_word_def said map_of_upserts cong: option.case_cong)
  then have "queue_inv s0 (said_after said cs) (?sc, s')"
    using i(1,2) v by (intro queue_invI) (simp_all add: keyed_upsert)
  then show ?thesis using False c by (simp add: push_def Let_def schedule_inv)
qed

lemma queue_step_inv:
  assumes "queue_inv s0 (last_word evs) cfg" "valid_event ev"
  shows "queue_inv s0 (last_word (evs @ [ev])) (queue_step opts sink ev cfg)"
proof -
  obtain sc s where cfg: "cfg = (sc, s)" by fastforce
  have fl: "queue_inv s0 (last_word evs) (flush sink cfg)"
    using flush_inv(1) [of s0 _ sc s] assms(1) by (metis cfg prod.collapse)
  show ?thesis
  proof (cases ev)
    case (Push cs)
    then have "last_word (evs @ [ev]) = said_after (last_word evs) cs"
      by (rule_tac ext) (simp add: last_word_snoc said_after_def)
    then show ?thesis using Push assms push_inv cfg by (simp add: queue_step_def valid_event_def)
  next
    case Fire
    have "last_word (evs @ [ev]) = last_word evs" using Fire by (rule_tac ext) (simp add: last_word_snoc)
    then show ?thesis using Fire assms(1) fl by (simp add: queue_step_def)
  next
    case Flush
    have "last_word (evs @ [ev]) = last_word evs" using Flush by (rule_tac ext) (simp add: last_word_snoc)
    then show ?thesis using Flush fl by (simp add: queue_step_def)
  qed
qed

lemma queue_run_inv:
  assumes "okay s0" "list_all valid_event evs"
  shows "queue_inv s0 (last_word evs) (queue_run opts sink evs (new_scheduler, s0))"
  using assms(2)
proof (induction evs rule: rev_induct)
  case Nil
  show ?case using assms(1) by (simp add: queue_run_def new_scheduler_def queue_inv_def keyed_def settled_word_def)
next
  case (snoc ev evs)
  then show ?case using queue_step_inv by (simp add: queue_run_def)
qed

lemma disposed_queue:
  assumes "okay s0" "list_all valid_event evs"
    "dispose sink (queue_run opts sink evs (new_scheduler, s0)) = (sc, s)"
  shows "sc_pending sc = [] \<and> sc_timer sc = None \<and> okay s \<and>
    (case last_word evs i of Some w \<Rightarrow> reads s w i | None \<Rightarrow> \<forall>w. reads s w i = reads s0 w i)"
proof -
  obtain sc1 s1 where c: "queue_run opts sink evs (new_scheduler, s0) = (sc1, s1)" by fastforce
  have "queue_inv s0 (last_word evs) (sc1, s1)" using queue_run_inv [OF assms(1,2), of opts] c by simp
  note f = flush_inv [OF this assms(3) [unfolded dispose_def c]]
  show ?thesis using f(2,3) queue_invD(1) [OF f(1)] queue_invD(3) [OF f(1), of i] by (simp add: settled_word_def)
qed

end

end
