(* ===== verification/LocalCommit.thy ===== *)
theory LocalCommit
  imports EmitLocal
begin

text \<open>
  The commit of \<open>packages/canvas-sync/src/adapter.ts\<close> on the document: the lazy version stamp, the elements,
  the soft deletions and the assets of one change set. The document is the sink of the queue: the
  interpretation discharges the laws of \<open>element_sink\<close> for the codec of \<open>ydoc-schema\<close>.
\<close>

subsection \<open>One transaction\<close>

definition IS_DELETED :: js_string where "IS_DELETED = u ''isDeleted''"

definition softDelete :: "js_string \<Rightarrow> ymap \<Rightarrow> ymap" where
  "softDelete i els =
     (case map_of els i of
        Some (YMap m) \<Rightarrow>
          if map_of m IS_DELETED \<noteq> Some (YPlain (JSBool True))
          then AList.update i (YMap (AList.update IS_DELETED (YPlain (JSBool True)) m)) els else els
      | _ \<Rightarrow> els)"

definition currentText :: "ymap \<Rightarrow> js_string \<Rightarrow> js_string option" where
  "currentText els i =
     (case map_of els i of
        Some (YMap m) \<Rightarrow> (case map_of m (u ''originalText'') of Some (YTxt t) \<Rightarrow> Some t | _ \<Rightarrow> None)
      | _ \<Rightarrow> None)"

text \<open>The loop over the assets ends at the first that throws.\<close>

fun write_assets :: "YText \<Rightarrow> (fields \<Rightarrow> fields option) \<Rightarrow> fields list \<Rightarrow> ymap \<Rightarrow> ymap \<times> AssetError option" where
  "write_assets T parse [] m = (m, None)"
| "write_assets T parse (a # as) m =
     (case writeAsset T parse a m of Inl e \<Rightarrow> (m, Some e) | Inr (m', ops) \<Rightarrow> write_assets T parse as m')"

definition commit_elements :: "YText \<Rightarrow> ElementChangeSet \<Rightarrow> ymap \<Rightarrow> ymap" where
  "commit_elements T cs els =
     foldl (\<lambda>m i. softDelete i m) (foldl (\<lambda>m e. fst (writeElement T e m)) els (cs_upserted cs)) (cs_deleted cs)"

definition commit_doc :: "YText \<Rightarrow> (fields \<Rightarrow> fields option) \<Rightarrow> ElementChangeSet \<Rightarrow> ydoc \<Rightarrow> ydoc \<times> AssetError option" where
  "commit_doc T parse cs d =
     (let d1 = (if getSchemaVersion d = None then stamp SCHEMA_VERSION d else d);
          d2 = set_root ROOT_ELEMENTS (commit_elements T cs (root d1 ROOT_ELEMENTS)) d1;
          (assets, err) = write_assets T parse (cs_assets cs) (root d2 ROOT_ASSETS)
      in (set_root ROOT_ASSETS assets d2, err))"

definition doc_sink :: "YText \<Rightarrow> (fields \<Rightarrow> fields option) \<Rightarrow> ydoc EmitSink" where
  "doc_sink T parse =
     \<lparr>sink_commit = \<lambda>cs d. fst (commit_doc T parse cs d),
      sink_has = \<lambda>d i. map_of (root d ROOT_ELEMENTS) i \<noteq> None,
      sink_textOf = \<lambda>d. currentText (root d ROOT_ELEMENTS)\<rparr>"

subsection \<open>The laws of the sink\<close>

text \<open>
  \<open>F\<close> is the family of texts a session writes under text keys, no two of which are edited inside a surrogate pair
  (\<open>whole_family\<close>). Elements, stored or pushed, are objects as JavaScript has them with texts of \<open>F\<close>.
\<close>

definition diff_ok :: "(js_string \<Rightarrow> bool) \<Rightarrow> YText \<Rightarrow> bool" where
  "diff_ok F T \<longleftrightarrow> ytext_ok T \<and> whole_family F"

definition els_okay :: "(js_string \<Rightarrow> bool) \<Rightarrow> ymap \<Rightarrow> bool" where
  "els_okay F els \<longleftrightarrow> wf_yval (YMap els) \<and> texts F (YMap els)"

definition valid_element :: "(js_string \<Rightarrow> bool) \<Rightarrow> fields \<Rightarrow> bool" where
  "valid_element F e \<longleftrightarrow> wf_val (JSObj e) \<and> key_texts F Y_TEXT_KEYS [] (JSObj e)"

lemma stored_texts: "texts F (YMap els) \<Longrightarrow> map_of els k = Some y \<Longrightarrow> texts F y"
  using map_of_all [where P = "texts F" and m = els] by simp

lemma valid_cuts_no_pair:
  assumes "diff_ok F T" "els_okay F els" "valid_element F e"
  shows "cuts_no_pair Y_TEXT_KEYS k (JSObj e) (map_of els i)"
proof -
  have "cuts_no_pair Y_TEXT_KEYS [] (JSObj e) (map_of els i)"
    using assms stored_texts [of F els i]
    by (intro family_cuts_no_pair [where F = F]) (simp_all add: diff_ok_def els_okay_def valid_element_def del: texts.simps key_texts.simps)
  then show ?thesis by simp
qed

definition els_read :: "ymap \<Rightarrow> LastWord \<Rightarrow> js_string \<Rightarrow> bool" where
  "els_read els w i =
     (case w of
        Upserted e \<Rightarrow> (case map_of els i of Some (YMap m) \<Rightarrow> deepEqual (readElement m) (strip (JSObj e)) | _ \<Rightarrow> False)
      | Deleted \<Rightarrow> (case map_of els i of Some (YMap m) \<Rightarrow> map_of m IS_DELETED = Some (YPlain (JSBool True)) | _ \<Rightarrow> True))"

lemma els_read_cong: "map_of els i = map_of els' i \<Longrightarrow> els_read els w i = els_read els' w i"
  by (simp add: els_read_def split: LastWord.split)

lemma writeElement_okay:
  assumes "diff_ok F T" "els_okay F els" "valid_element F e"
  shows "els_okay F (fst (writeElement T e els))"
proof -
  have T: "ytext_ok T" "whole_family F" using assms(1) by (simp_all add: diff_ok_def)
  have n: "texts F (YMap (fst (nested_of (element_id e) els)))"
    using assms(2) by (intro nested_texts) (simp add: els_okay_def)
  have "key_texts F Y_TEXT_KEYS [] (JSObj e)" using assms(3) by (simp add: valid_element_def)
  then have "texts F (YMap (fst (writeElement T e els)))"
    unfolding writeElement_eq using assms(2)
    by (intro update_map_pred [where P = "texts F"] writeInto_texts [OF T _ n]) (simp_all add: els_okay_def)
  moreover have "wf_yval (YMap (fst (writeElement T e els)))"
    using assms T valid_cuts_no_pair [OF assms]
    by (intro writeElement_reads(3)) (simp_all add: els_okay_def valid_element_def del: cuts_no_pair.simps)
  ultimately show ?thesis by (simp add: els_okay_def)
qed

lemma writeElement_word:
  assumes "diff_ok F T" "els_okay F els" "valid_element F e"
  shows "els_read (fst (writeElement T e els)) (Upserted e) (element_id e)"
    "i \<noteq> element_id e \<Longrightarrow> map_of (fst (writeElement T e els)) i = map_of els i"
  using writeElement_reads [of T e els] valid_cuts_no_pair [OF assms] assms
  by (auto simp: diff_ok_def els_okay_def valid_element_def els_read_def
      simp del: wf_val.simps wf_yval.simps texts.simps cuts_no_pair.simps key_texts.simps)

lemma softDelete_other: "i \<noteq> j \<Longrightarrow> map_of (softDelete j els) i = map_of els i"
  by (auto simp: softDelete_def update_conv' split: option.split yval.split)

lemma softDelete_word: "els_read (softDelete i els) Deleted i"
  by (auto simp: softDelete_def els_read_def update_conv' split: option.split yval.split)

lemma softDelete_okay:
  assumes "els_okay F els"
  shows "els_okay F (softDelete i els)"
proof (cases "\<exists>m. map_of els i = Some (YMap m)")
  case True
  then obtain m where m: "map_of els i = Some (YMap m)" by blast
  then have "wf_yval (YMap m)" "texts F (YMap m)"
    using assms map_of_all [where P = wf_yval and m = els and k = i] map_of_all [where P = "texts F" and m = els and k = i]
    by (auto simp: els_okay_def)
  then have "wf_yval (YMap (AList.update IS_DELETED (YPlain (JSBool True)) m))"
    "texts F (YMap (AList.update IS_DELETED (YPlain (JSBool True)) m))"
    by (simp_all add: distinct_update list_all_snd_update [where P = wf_yval] list_all_snd_update [where P = "texts F"])
  then show ?thesis using assms m
    by (simp add: softDelete_def els_okay_def distinct_update list_all_snd_update [where P = wf_yval]
        list_all_snd_update [where P = "texts F"])
next
  case False
  then have "softDelete i els = els" by (auto simp: softDelete_def split: option.split yval.split)
  then show ?thesis using assms by simp
qed

lemma upserts_spec:
  assumes "diff_ok F T" "els_okay F els" "list_all (valid_element F) es"
  shows "els_okay F (foldl (\<lambda>m e. fst (writeElement T e m)) els es) \<and>
    (case upsert_of es i of
       Some e \<Rightarrow> els_read (foldl (\<lambda>m e. fst (writeElement T e m)) els es) (Upserted e) i
     | None \<Rightarrow> map_of (foldl (\<lambda>m e. fst (writeElement T e m)) els es) i = map_of els i)"
  using assms(3)
proof (induction es rule: rev_induct)
  case Nil
  then show ?case using assms(2) by (simp add: upsert_of_def)
next
  case (snoc e es)
  let ?m = "foldl (\<lambda>m e. fst (writeElement T e m)) els es"
  have m: "els_okay F ?m" "valid_element F e" using snoc by simp_all
  note w = writeElement_word [OF assms(1) m] and o = writeElement_okay [OF assms(1) m]
  show ?case
  proof (cases "i = element_id e")
    case True
    then have "upsert_of (es @ [e]) i = Some e" by (simp add: upsert_of_def)
    then show ?thesis using w(1) o True by simp
  next
    case False
    then have "upsert_of (es @ [e]) i = upsert_of es i" by (simp add: upsert_of_def)
    moreover have "els_read (fst (writeElement T e ?m)) x i = els_read ?m x i" for x
      using w(2) [OF False] by (rule els_read_cong)
    ultimately show ?thesis using snoc w(2) [OF False] o by (cases "upsert_of es i") simp_all
  qed
qed

lemma deletes_spec:
  assumes "els_okay F els"
  shows "els_okay F (foldl (\<lambda>m i. softDelete i m) els is) \<and>
    (if i \<in> set is then els_read (foldl (\<lambda>m i. softDelete i m) els is) Deleted i
     else map_of (foldl (\<lambda>m i. softDelete i m) els is) i = map_of els i)"
proof (induction "is" rule: rev_induct)
  case Nil
  then show ?case using assms by simp
next
  case (snoc j js)
  let ?m = "foldl (\<lambda>m i. softDelete i m) els js"
  have "els_read (softDelete j ?m) x i = els_read ?m x i" if "i \<noteq> j" for x
    using softDelete_other [OF that] by (rule els_read_cong)
  then show ?case using snoc softDelete_okay [of F ?m j] softDelete_word [of j ?m] softDelete_other [of i j ?m]
    by (cases "i = j") auto
qed

lemma commit_elements_spec:
  assumes "diff_ok F T" "els_okay F els" "list_all (valid_element F) (cs_upserted cs)"
  shows "els_okay F (commit_elements T cs els)"
    "case word_of cs i of
       Some w \<Rightarrow> els_read (commit_elements T cs els) w i
     | None \<Rightarrow> map_of (commit_elements T cs els) i = map_of els i"
proof -
  let ?m = "foldl (\<lambda>m e. fst (writeElement T e m)) els (cs_upserted cs)"
  note up = upserts_spec [OF assms, of i]
  then have m: "els_okay F ?m" by simp
  note del = deletes_spec [OF m, of "cs_deleted cs" i]
  show "els_okay F (commit_elements T cs els)" using del by (simp add: commit_elements_def)
  show "case word_of cs i of
       Some w \<Rightarrow> els_read (commit_elements T cs els) w i
     | None \<Rightarrow> map_of (commit_elements T cs els) i = map_of els i"
  proof (cases "i \<in> set (cs_deleted cs)")
    case True
    then show ?thesis using del by (simp add: commit_elements_def word_of_def)
  next
    case False
    then have "map_of (commit_elements T cs els) i = map_of ?m i" using del by (simp add: commit_elements_def)
    moreover from this have "els_read (commit_elements T cs els) x i = els_read ?m x i" for x by (rule els_read_cong)
    ultimately show ?thesis using up False by (cases "upsert_of (cs_upserted cs) i") (simp_all add: word_of_def)
  qed
qed

lemma commit_doc_elements:
  "root (fst (commit_doc T parse cs d)) ROOT_ELEMENTS = commit_elements T cs (root d ROOT_ELEMENTS)"
proof -
  have "ROOT_META \<noteq> ROOT_ELEMENTS" "ROOT_ASSETS \<noteq> ROOT_ELEMENTS" by code_simp+
  then show ?thesis by (simp add: commit_doc_def Let_def stamp_def split_beta)
qed

definition doc_okay :: "(js_string \<Rightarrow> bool) \<Rightarrow> YText \<Rightarrow> ydoc \<Rightarrow> bool" where
  "doc_okay F T d \<longleftrightarrow> diff_ok F T \<and> els_okay F (root d ROOT_ELEMENTS)"

definition doc_reads :: "ydoc \<Rightarrow> LastWord \<Rightarrow> js_string \<Rightarrow> bool" where
  "doc_reads d w i = els_read (root d ROOT_ELEMENTS) w i"

interpretation ds: element_sink "doc_sink T parse" "doc_okay F T" "valid_element F" doc_reads for T parse F
proof
  fix s :: ydoc and cs :: ElementChangeSet and i w
  assume a: "doc_okay F T s" "list_all (valid_element F) (cs_upserted cs)"
  note c = commit_elements_spec [of F T "root s ROOT_ELEMENTS" cs] a [unfolded doc_okay_def]
  show "doc_okay F T (sink_commit (doc_sink T parse) cs s)"
    using c by (simp add: doc_sink_def doc_okay_def commit_doc_elements)
  show "doc_reads (sink_commit (doc_sink T parse) cs s) w i" if "word_of cs i = Some w"
    using c(2) [of i] c(3-) that by (simp add: doc_sink_def doc_reads_def commit_doc_elements)
  show "doc_reads (sink_commit (doc_sink T parse) cs s) w i = doc_reads s w i" if "word_of cs i = None"
  proof -
    have "map_of (commit_elements T cs (root s ROOT_ELEMENTS)) i = map_of (root s ROOT_ELEMENTS) i"
      using c(2) [of i] c(3-) that by simp
    from els_read_cong [OF this] show ?thesis by (simp add: doc_sink_def doc_reads_def commit_doc_elements)
  qed
qed

subsection \<open>No edit is lost in the queue\<close>

text \<open>
  C29. Whatever the canvas emits and whenever the timer fires or the queue is flushed: once the queue is disposed of
  it holds nothing and no timer, and the document shows for every element the last thing the canvas said
  about it, the full last state or its deletion; elements the canvas never mentioned are as they were.
  No update is lost to the throttle, to merging by id, or to a change of gesture or mode. The texts of the
  elements, those in the document and those pushed, belong to a family \<open>F\<close> of which no two are edited
  inside a surrogate pair: all texts of the basic multilingual plane, or texts with emoji among them as long
  as no two start or cease to differ inside a pair. What happens outside such a family is C28.
\<close>

theorem no_edit_is_lost:
  assumes "ytext_ok T" "whole_family F" "els_okay F (root d ROOT_ELEMENTS)"
    "\<And>cs. Push cs \<in> set evs \<Longrightarrow> list_all (valid_element F) (cs_upserted cs)"
    "dispose (doc_sink T parse) (queue_run opts (doc_sink T parse) evs (new_scheduler, d)) = (sc, d')"
  shows "sc_pending sc = [] \<and> sc_timer sc = None \<and>
    (case last_word evs i of
       Some w \<Rightarrow> els_read (root d' ROOT_ELEMENTS) w i
     | None \<Rightarrow> \<forall>w. els_read (root d' ROOT_ELEMENTS) w i = els_read (root d ROOT_ELEMENTS) w i)"
proof -
  have "list_all (ds.valid_event F) evs"
    using assms(4) by (auto simp: list_all_iff ds.valid_event_def split: QueueEvent.split)
  moreover have "doc_okay F T d" using assms(1-3) by (simp add: doc_okay_def diff_ok_def)
  ultimately show ?thesis using ds.disposed_queue [of F T d evs parse opts sc d' i] assms(5) by (simp add: doc_reads_def cong: option.case_cong)
qed

text \<open>A note that is moved twice in a gesture, and another that is typed into, an emoji at its end.\<close>

definition moved :: "int \<Rightarrow> fields" where
  "moved x = [(u ''id'', JSStr (u ''e1'')), (u ''x'', JSNum x)]"

definition typed :: "js_string \<Rightarrow> fields" where
  "typed s = [(u ''id'', JSStr (u ''e2'')), (u ''originalText'', JSStr s)]"

definition sample_texts :: "js_string \<Rightarrow> bool" where
  "sample_texts s \<longleftrightarrow> s = [104, 105] \<or> s = [104, 105, 55357, 56832]"

definition sample_edits :: "QueueEvent list" where
  "sample_edits =
     [Push \<lparr>cs_upserted = [moved 1, typed [104, 105]], cs_deleted = [], cs_assets = [], cs_origin = LocalUser, cs_gesture = Some ''drag''\<rparr>,
      Fire,
      Push \<lparr>cs_upserted = [moved 2, typed [104, 105, 55357, 56832]], cs_deleted = [], cs_assets = [], cs_origin = LocalUser,
        cs_gesture = Some ''drag''\<rparr>]"

definition sample_doc :: ydoc where
  "sample_doc = set_root ROOT_ELEMENTS [(u ''e1'', YMap [(u ''id'', YPlain (JSStr (u ''e1''))), (u ''x'', YPlain (JSNum 0))])]
     (createBoardDoc None)"

lemma sample_texts_whole: "whole_family sample_texts"
proof -
  have "text_edit [104, 105] [104, 105, 55357, 56832] = (2, 2, 4)" "text_edit [104, 105, 55357, 56832] [104, 105] = (2, 4, 2)"
    by (simp_all add: text_edit_def prefix_end.simps suffix_ends.simps)
  then have "whole_edit [104, 105] [104, 105, 55357, 56832]" "whole_edit [104, 105, 55357, 56832] [104, 105]"
    by (simp_all add: whole_edit_def splits_pair_def high_surrogate_def)
  then show ?thesis unfolding whole_family_def sample_texts_def by blast
qed

theorem no_edit_is_lost_witness:
  "\<exists>sc d'. dispose (doc_sink list_text Some) (queue_run HB_THROTTLE (doc_sink list_text Some) sample_edits (new_scheduler, sample_doc)) =
      (sc, d') \<and> sc_pending sc = [] \<and> els_read (root d' ROOT_ELEMENTS) (Upserted (moved 2)) (u ''e1'') \<and>
      els_read (root d' ROOT_ELEMENTS) (Upserted (typed [104, 105, 55357, 56832])) (u ''e2'')"
proof -
  obtain sc d' where r: "dispose (doc_sink list_text Some)
      (queue_run HB_THROTTLE (doc_sink list_text Some) sample_edits (new_scheduler, sample_doc)) = (sc, d')" by fastforce
  have "root sample_doc ROOT_ELEMENTS = [(u ''e1'', YMap [(u ''id'', YPlain (JSStr (u ''e1''))), (u ''x'', YPlain (JSNum 0))])]"
    by (simp add: sample_doc_def)
  then have o: "els_okay sample_texts (root sample_doc ROOT_ELEMENTS)" by (simp add: els_okay_def u_def)
  have v: "list_all (valid_element sample_texts) (cs_upserted cs)" if "Push cs \<in> set sample_edits" for cs
    using that by (auto simp: sample_edits_def valid_element_def moved_def typed_def u_def sample_texts_def Y_TEXT_KEYS_def)
  have ids: "element_id (moved x) = u ''e1''" "element_id (typed t) = u ''e2''" "u ''e1'' \<noteq> u ''e2''" for x t
    by (simp_all add: moved_def typed_def element_id_def u_def)
  have w: "last_word sample_edits (u ''e1'') = Some (Upserted (moved 2))"
    "last_word sample_edits (u ''e2'') = Some (Upserted (typed [104, 105, 55357, 56832]))"
    using ids(3) by (simp_all add: sample_edits_def word_of_def upsert_of_def ids)
  note n = no_edit_is_lost [OF list_text_ok sample_texts_whole o v r]
  show ?thesis using n [of "u ''e1''"] n [of "u ''e2''"] r by (simp add: w)
qed

end
