(* ===== verification/Transport.thy ===== *)
theory Transport
  imports Protocol
begin

text \<open>
  The reconnecting client socket of \<open>packages/canvas-sync/src/websocket-transport.ts\<close> with the delays of
  \<open>backoff.ts\<close>. The closure of \<open>createWebSocketTransport\<close> is the record \<open>Transport\<close>: its mutable
  variables (\<open>ws_*\<close>) and the part of the environment they refer to (\<open>env_*\<close>: the timers that run, the
  token requests under way, the sockets, \<open>navigator.onLine\<close>). Every callback the code registers is one
  branch of \<open>transport_step\<close>: what happens between two callbacks is up to the environment, so any order
  of timers, answers, socket and network events is a run. Log lines are left out.
\<close>

subsection \<open>Delays\<close>

record BackoffOptions =
  bo_baseMs :: "rat option"
  bo_maxMs :: "rat option"
  bo_factor :: "rat option"
  bo_jitter :: "rat option"

definition RECONNECT_BACKOFF :: BackoffOptions where
  "RECONNECT_BACKOFF = \<lparr>bo_baseMs = Some 500, bo_maxMs = Some 30000, bo_factor = Some 2, bo_jitter = Some (1 / 2)\<rparr>"

definition clamp01 :: "rat \<Rightarrow> rat" where
  "clamp01 v = min 1 (max 0 v)"

definition or_default :: "rat option \<Rightarrow> (BackoffOptions \<Rightarrow> rat option) \<Rightarrow> rat" where
  "or_default v f = (case v of Some x \<Rightarrow> x | None \<Rightarrow> the (f RECONNECT_BACKOFF))"

text \<open>
  The attempt is an integer here; \<open>factor ** big\<close> is a rational where the code reaches \<open>Infinity\<close>, which the
  minimum cuts to the same ceiling.
\<close>

definition backoffCeilingMs :: "int \<Rightarrow> BackoffOptions \<Rightarrow> rat" where
  "backoffCeilingMs n opts =
     (let baseMs = or_default (bo_baseMs opts) bo_baseMs;
          maxMs = or_default (bo_maxMs opts) bo_maxMs;
          factor = or_default (bo_factor opts) bo_factor;
          step = max 1 n
      in min maxMs (baseMs * factor ^ nat (step - 1)))"

text \<open>\<open>roll\<close> is what \<open>random()\<close> returned.\<close>

definition backoffDelayMs :: "int \<Rightarrow> BackoffOptions \<Rightarrow> rat \<Rightarrow> int" where
  "backoffDelayMs n opts roll =
     (let ceiling = backoffCeilingMs n opts;
          share = clamp01 (or_default (bo_jitter opts) bo_jitter)
      in \<lfloor>ceiling * (1 - share * clamp01 roll) + 1 / 2\<rfloor>)"

subsection \<open>What a close means\<close>

definition CLOSE_NORMAL :: nat where "CLOSE_NORMAL = 1000"
definition CLOSE_GOING_AWAY :: nat where "CLOSE_GOING_AWAY = 1001"
definition CLOSE_POLICY :: nat where "CLOSE_POLICY = 1008"

datatype CloseReaction = immediate | backoff | fatal

definition DEFAULT_CONNECT_TIMEOUT_MS :: int where "DEFAULT_CONNECT_TIMEOUT_MS = 10000"
definition DEFAULT_SILENCE_TIMEOUT_MS :: int where "DEFAULT_SILENCE_TIMEOUT_MS = 75000"
definition MAX_IMMEDIATE_RETRIES :: nat where "MAX_IMMEDIATE_RETRIES = 2"

definition REACTIONS :: "string \<rightharpoonup> CloseReaction" where
  "REACTIONS = map_of
     [(''TOKEN_EXPIRED'', immediate), (''SERVER_BUSY'', backoff), (''ROOM_CLOSED'', backoff),
      (''TOKEN_MISSING'', fatal), (''TOKEN_INVALID'', fatal), (''FORBIDDEN'', fatal),
      (''DOC_TOO_LARGE'', fatal), (''CLIENT_TOO_OLD'', fatal)]"

definition closeReaction :: "nat \<Rightarrow> string option \<Rightarrow> CloseReaction" where
  "closeReaction code errorCode =
     (if code = CLOSE_GOING_AWAY then immediate
      else if code \<noteq> CLOSE_POLICY then backoff
      else case errorCode of
        None \<Rightarrow> fatal
      | Some e \<Rightarrow> if e = [] then fatal else case REACTIONS e of Some r \<Rightarrow> r | None \<Rightarrow> fatal)"

subsection \<open>State\<close>

datatype StopReason = stopped_fatal | stopped_offline

datatype TransportStatus =
    Connecting nat
  | Open bool
  | Retrying nat int
  | Stopped StopReason string string

definition OFFLINE_STATUS :: TransportStatus where
  "OFFLINE_STATUS = Stopped stopped_offline ''NETWORK_OFFLINE'' []"

text \<open>The callbacks handed to \<open>setTimeout\<close>, with the generation they close over.\<close>

datatype TimerCallback = RetryTimer | RefreshTimer | ConnectTimer nat | SilenceTimer nat

datatype TokenPurpose = ForOpen | ForRefresh

datatype SocketLife = Sk_connecting | Sk_open | Sk_closed

record Socket =
  sk_url :: string
  sk_mine :: nat
  sk_wired :: bool
  sk_life :: SocketLife
  sk_closing :: "nat option"

record WebSocketTransportOptions =
  opt_url :: string
  opt_backoff :: BackoffOptions
  authRefreshMs :: int
  connectTimeoutMs :: int
  silenceTimeoutMs :: int
  opt_random :: "nat \<Rightarrow> rat"
  opt_codec :: lib0
  opt_networkEvents :: bool

record Transport =
  ws_status :: TransportStatus
  ws_socket :: "nat option"
  ws_generation :: nat
  ws_attempt :: nat
  ws_immediateRuns :: nat
  ws_started :: bool
  ws_retryTimer :: "nat option"
  ws_refreshTimer :: "nat option"
  ws_connectTimer :: "nat option"
  ws_silenceTimer :: "nat option"
  ws_lastError :: "(string \<times> string) option"
  ws_droppedWhileDown :: nat
  ws_unwireNetwork :: bool
  ws_messageHandlers :: "nat list"
  ws_statusHandlers :: "nat list"
  env_timers :: "nat \<rightharpoonup> TimerCallback \<times> int"
  env_nextTimer :: nat
  env_fetches :: "nat \<rightharpoonup> TokenPurpose \<times> nat"
  env_nextFetch :: nat
  env_sockets :: "nat \<rightharpoonup> Socket"
  env_nextSocket :: nat
  env_onLine :: "bool option"
  env_draws :: nat
  env_sent :: "(nat \<times> bytes) list"
  env_delivered :: "(nat list \<times> bytes) list"
  env_published :: "(nat list \<times> TransportStatus) list"
  env_active :: bool

text \<open>\<open>env_active\<close> remembers whether the client called \<open>connect\<close> last, or \<open>disconnect\<close>.\<close>

definition new_transport :: "bool option \<Rightarrow> Transport" where
  "new_transport onLine =
     \<lparr>ws_status = Connecting 1, ws_socket = None, ws_generation = 0, ws_attempt = 0, ws_immediateRuns = 0,
      ws_started = False, ws_retryTimer = None, ws_refreshTimer = None, ws_connectTimer = None,
      ws_silenceTimer = None, ws_lastError = None, ws_droppedWhileDown = 0, ws_unwireNetwork = False,
      ws_messageHandlers = [], ws_statusHandlers = [], env_timers = Map.empty, env_nextTimer = 0,
      env_fetches = Map.empty, env_nextFetch = 0, env_sockets = Map.empty, env_nextSocket = 0,
      env_onLine = onLine, env_draws = 0, env_sent = [], env_delivered = [], env_published = [],
      env_active = False\<rparr>"

subsection \<open>The functions of the closure\<close>

definition publish :: "TransportStatus \<Rightarrow> Transport \<Rightarrow> Transport" where
  "publish nxt s = s\<lparr>ws_status := nxt, env_published := (ws_statusHandlers s, nxt) # env_published s\<rparr>"

definition clearTimer :: "nat option \<Rightarrow> Transport \<Rightarrow> Transport" where
  "clearTimer h s = (case h of None \<Rightarrow> s | Some k \<Rightarrow> s\<lparr>env_timers := (env_timers s)(k := None)\<rparr>)"

definition setTimeout :: "TimerCallback \<Rightarrow> int \<Rightarrow> Transport \<Rightarrow> Transport" where
  "setTimeout cb ms s =
     s\<lparr>env_timers := (env_timers s)(env_nextTimer s \<mapsto> (cb, ms)), env_nextTimer := Suc (env_nextTimer s)\<rparr>"

definition clear_link_timers :: "Transport \<Rightarrow> Transport" where
  "clear_link_timers s =
     (let s = (clearTimer (ws_refreshTimer s) s)\<lparr>ws_refreshTimer := None\<rparr>;
          s = (clearTimer (ws_connectTimer s) s)\<lparr>ws_connectTimer := None\<rparr>
      in (clearTimer (ws_silenceTimer s) s)\<lparr>ws_silenceTimer := None\<rparr>)"

definition dropSocket :: "nat \<Rightarrow> Transport \<Rightarrow> Transport" where
  "dropSocket code s =
     (let s' = clear_link_timers (s\<lparr>ws_socket := None\<rparr>)
      in case ws_socket s of
           None \<Rightarrow> s'
         | Some i \<Rightarrow> s'\<lparr>env_sockets := (env_sockets s')(i := map_option
               (\<lambda>k. k\<lparr>sk_wired := False, sk_closing := Some code\<rparr>) (env_sockets s' i))\<rparr>)"

definition isBrowserOffline :: "Transport \<Rightarrow> bool" where
  "isBrowserOffline s \<longleftrightarrow> env_onLine s = Some False"

definition scheduleRetry :: "WebSocketTransportOptions \<Rightarrow> CloseReaction \<Rightarrow> Transport \<Rightarrow> Transport" where
  "scheduleRetry c reaction s =
     (if isBrowserOffline s then publish OFFLINE_STATUS s
      else
        let rush = (reaction = immediate \<and> ws_immediateRuns s < MAX_IMMEDIATE_RETRIES);
            s = (if rush then s\<lparr>ws_immediateRuns := ws_immediateRuns s + 1\<rparr> else s);
            s = s\<lparr>ws_attempt := ws_attempt s + 1\<rparr>;
            delay = (if rush then 0
                     else backoffDelayMs (int (ws_attempt s)) (opt_backoff c) (opt_random c (env_draws s)));
            s = (if rush then s else s\<lparr>env_draws := env_draws s + 1\<rparr>);
            s = publish (Retrying (ws_attempt s) delay) s
        in (setTimeout RetryTimer delay s)\<lparr>ws_retryTimer := Some (env_nextTimer s)\<rparr>)"

definition scheduleAuthRefresh :: "WebSocketTransportOptions \<Rightarrow> Transport \<Rightarrow> Transport" where
  "scheduleAuthRefresh c s =
     (if authRefreshMs c \<le> 0 then s
      else (setTimeout RefreshTimer (authRefreshMs c) s)\<lparr>ws_refreshTimer := Some (env_nextTimer s)\<rparr>)"

definition close_error_code :: "string \<Rightarrow> (string \<times> string) option \<Rightarrow> string option" where
  "close_error_code reason lastError =
     (if reason \<noteq> [] then Some reason
      else case lastError of Some (e, m) \<Rightarrow> if e \<noteq> [] then Some e else None | None \<Rightarrow> None)"

definition handleClose :: "WebSocketTransportOptions \<Rightarrow> nat \<Rightarrow> nat \<Rightarrow> string \<Rightarrow> Transport \<Rightarrow> Transport" where
  "handleClose c mine code reason s =
     (if mine \<noteq> ws_generation s then s
      else
        let s = clear_link_timers (s\<lparr>ws_socket := None\<rparr>);
            errorCode = close_error_code reason (ws_lastError s);
            reaction = closeReaction code errorCode
        in if reaction = fatal
           then publish (Stopped stopped_fatal (case errorCode of Some e \<Rightarrow> e | None \<Rightarrow> show_nat code)
                   (case ws_lastError s of Some (e, m) \<Rightarrow> m | None \<Rightarrow> [])) s
           else scheduleRetry c reaction s)"

definition armSilence :: "WebSocketTransportOptions \<Rightarrow> nat \<Rightarrow> Transport \<Rightarrow> Transport" where
  "armSilence c mine s =
     (if silenceTimeoutMs c \<le> 0 then s
      else let s = clearTimer (ws_silenceTimer s) s
           in (setTimeout (SilenceTimer mine) (silenceTimeoutMs c) s)
                \<lparr>ws_silenceTimer := Some (env_nextTimer s)\<rparr>)"

definition armConnectTimeout :: "WebSocketTransportOptions \<Rightarrow> nat \<Rightarrow> Transport \<Rightarrow> Transport" where
  "armConnectTimeout c mine s =
     (if connectTimeoutMs c \<le> 0 then s
      else let s = clearTimer (ws_connectTimer s) s
           in (setTimeout (ConnectTimer mine) (connectTimeoutMs c) s)
                \<lparr>ws_connectTimer := Some (env_nextTimer s)\<rparr>)"

text \<open>\<open>await token()\<close> suspends: the request is entered with what continues when it is answered.\<close>

definition request_token :: "TokenPurpose \<Rightarrow> nat \<Rightarrow> Transport \<Rightarrow> Transport" where
  "request_token p mine s =
     s\<lparr>env_fetches := (env_fetches s)(env_nextFetch s \<mapsto> (p, mine)), env_nextFetch := Suc (env_nextFetch s)\<rparr>"

definition openSocket :: "Transport \<Rightarrow> Transport" where
  "openSocket s =
     (let s = s\<lparr>ws_generation := ws_generation s + 1\<rparr>
      in request_token ForOpen (ws_generation s) (publish (Connecting (ws_attempt s + 1)) s))"

text \<open>\<open>encodeURIComponent\<close> of a string of Latin-1 code units: UTF-8, percent-encoded.\<close>

definition uri_unreserved :: "char \<Rightarrow> bool" where
  "uri_unreserved ch \<longleftrightarrow> ch \<in> set
     ''ABCDEFGHIJKLMNOPQRSTUVWXYZabcdefghijklmnopqrstuvwxyz0123456789-_.!~*()'' \<or> of_char ch = (39 :: nat)"

definition hex_digit :: "nat \<Rightarrow> char" where
  "hex_digit d = ''0123456789ABCDEF'' ! (d mod 16)"

definition percent_byte :: "nat \<Rightarrow> string" where
  "percent_byte b = [CHR ''%'', hex_digit (b div 16), hex_digit b]"

definition encode_char :: "char \<Rightarrow> string" where
  "encode_char ch =
     (if uri_unreserved ch then [ch]
      else let n = of_char ch in
        if n < 128 then percent_byte n else percent_byte (192 + n div 64) @ percent_byte (128 + n mod 64))"

definition encodeURIComponent :: "string \<Rightarrow> string" where
  "encodeURIComponent s = concat (map encode_char s)"

definition socket_target :: "string \<Rightarrow> string \<Rightarrow> string" where
  "socket_target url token =
     url @ (if CHR ''?'' \<in> set url then ''&'' else ''?'') @ ''token='' @ encodeURIComponent token"

definition createSocket :: "string \<Rightarrow> nat \<Rightarrow> Transport \<Rightarrow> Transport" where
  "createSocket target mine s =
     s\<lparr>env_sockets := (env_sockets s)(env_nextSocket s \<mapsto>
          \<lparr>sk_url = target, sk_mine = mine, sk_wired = True, sk_life = Sk_connecting, sk_closing = None\<rparr>),
       env_nextSocket := Suc (env_nextSocket s)\<rparr>"

text \<open>
  The rest of \<open>openSocket\<close> after the await: the answer is a token or a failure, and \<open>created\<close> tells
  whether \<open>createSocket\<close> returned or threw.
\<close>

definition open_continues ::
    "WebSocketTransportOptions \<Rightarrow> nat \<Rightarrow> string option \<Rightarrow> bool \<Rightarrow> Transport \<Rightarrow> Transport" where
  "open_continues c mine answer created s =
     (case answer of
        None \<Rightarrow> if mine = ws_generation s then scheduleRetry c backoff s else s
      | Some fresh \<Rightarrow>
          if mine \<noteq> ws_generation s then s
          else if \<not> created then scheduleRetry c backoff s
          else armConnectTimeout c mine
                 ((createSocket (socket_target (opt_url c) fresh) mine s)
                    \<lparr>ws_socket := Some (env_nextSocket s), ws_lastError := None\<rparr>))"

definition socket_send :: "nat \<Rightarrow> bytes \<Rightarrow> Transport \<Rightarrow> Transport" where
  "socket_send i b s = s\<lparr>env_sent := (i, b) # env_sent s\<rparr>"

definition refresh_continues :: "WebSocketTransportOptions \<Rightarrow> nat \<Rightarrow> string option \<Rightarrow> Transport \<Rightarrow> Transport" where
  "refresh_continues c mine answer s =
     (case answer of
        None \<Rightarrow> s
      | Some fresh \<Rightarrow>
          if mine \<noteq> ws_generation s then s
          else case ws_socket s of
            None \<Rightarrow> s
          | Some i \<Rightarrow> scheduleAuthRefresh c
                        (socket_send i (encodeMessage (opt_codec c) (HB_AUTH_REFRESH fresh)) s))"

definition on_open :: "WebSocketTransportOptions \<Rightarrow> nat \<Rightarrow> Transport \<Rightarrow> Transport" where
  "on_open c mine s =
     (if mine \<noteq> ws_generation s then s
      else
        let s = (clearTimer (ws_connectTimer s) s)\<lparr>ws_connectTimer := None\<rparr>;
            resumed = ws_started s;
            s = publish (Open resumed) (s\<lparr>ws_started := True, ws_attempt := 0, ws_immediateRuns := 0\<rparr>)
        in armSilence c mine (scheduleAuthRefresh c s))"

text \<open>
  \<open>rememberError\<close> looks at the first byte only; \<open>None\<close> is the exception of a malformed error message,
  which leaves \<open>onmessage\<close> before the handlers run.
\<close>

definition rememberError :: "WebSocketTransportOptions \<Rightarrow> bytes \<Rightarrow> Transport \<Rightarrow> Transport option" where
  "rememberError c b s =
     (case b of
        [] \<Rightarrow> Some s
      | t # _ \<Rightarrow>
          if unat t \<noteq> MSG_HB_ERROR then Some s
          else case decodeMessage (opt_codec c) b of
            Inl _ \<Rightarrow> None
          | Inr (Some (HB_ERROR e m)) \<Rightarrow> Some (s\<lparr>ws_lastError := Some (e, m)\<rparr>)
          | Inr _ \<Rightarrow> Some s)"

text \<open>What a frame carries: \<open>Uint8Array\<close>, \<open>ArrayBuffer\<close>, or anything else.\<close>

datatype FrameData = Uint8Array bytes | ArrayBuffer bytes | OtherData

fun toBytes :: "FrameData \<Rightarrow> bytes option" where
  "toBytes (Uint8Array b) = Some b"
| "toBytes (ArrayBuffer b) = Some b"
| "toBytes OtherData = None"

definition on_message :: "WebSocketTransportOptions \<Rightarrow> nat \<Rightarrow> FrameData \<Rightarrow> Transport \<Rightarrow> Transport" where
  "on_message c mine d s =
     (if mine \<noteq> ws_generation s then s
      else
        let s = armSilence c mine s
        in case toBytes d of
             None \<Rightarrow> s
           | Some b \<Rightarrow>
               (case rememberError c b s of
                  None \<Rightarrow> s
                | Some s \<Rightarrow> s\<lparr>env_delivered := (ws_messageHandlers s, b) # env_delivered s\<rparr>))"

definition onNetworkOffline :: "Transport \<Rightarrow> Transport" where
  "onNetworkOffline s =
     (if \<not> ws_started s \<and> (\<exists>n. ws_status s = Connecting n) then s
      else
        let s = (clearTimer (ws_retryTimer s) s)\<lparr>ws_retryTimer := None\<rparr>
        in publish OFFLINE_STATUS (dropSocket CLOSE_NORMAL s))"

definition onNetworkOnline :: "Transport \<Rightarrow> Transport" where
  "onNetworkOnline s =
     (case ws_status s of
        Stopped stopped_offline e m \<Rightarrow> openSocket (s\<lparr>ws_attempt := 0\<rparr>)
      | _ \<Rightarrow> s)"

definition transport_connect :: "Transport \<Rightarrow> Transport" where
  "transport_connect s =
     (let s = s\<lparr>ws_unwireNetwork := True, ws_attempt := 0\<rparr>
      in if isBrowserOffline s then publish OFFLINE_STATUS s else openSocket s)"

definition transport_disconnect :: "Transport \<Rightarrow> Transport" where
  "transport_disconnect s =
     (let s = s\<lparr>ws_generation := ws_generation s + 1\<rparr>;
          s = (clearTimer (ws_retryTimer s) s)\<lparr>ws_retryTimer := None\<rparr>;
          s = dropSocket CLOSE_NORMAL s
      in s\<lparr>ws_unwireNetwork := False, ws_started := False, ws_messageHandlers := [], ws_statusHandlers := []\<rparr>)"

definition transport_send :: "bytes \<Rightarrow> Transport \<Rightarrow> Transport" where
  "transport_send b s =
     (case (ws_socket s, ws_status s) of
        (Some i, Open r) \<Rightarrow> socket_send i b s
      | _ \<Rightarrow> s\<lparr>ws_droppedWhileDown := ws_droppedWhileDown s + 1\<rparr>)"

definition add_handler :: "nat \<Rightarrow> nat list \<Rightarrow> nat list" where
  "add_handler h hs = (if h \<in> set hs then hs else hs @ [h])"

text \<open>A timer fires: it is gone from the timers, and its callback runs.\<close>

definition timer_fires :: "WebSocketTransportOptions \<Rightarrow> nat \<Rightarrow> Transport \<Rightarrow> Transport" where
  "timer_fires c h s =
     (case env_timers s h of
        None \<Rightarrow> s
      | Some (cb, ms) \<Rightarrow>
          let s = s\<lparr>env_timers := (env_timers s)(h := None)\<rparr>
          in case cb of
               RetryTimer \<Rightarrow> openSocket (s\<lparr>ws_retryTimer := None\<rparr>)
             | RefreshTimer \<Rightarrow> request_token ForRefresh (ws_generation s) (s\<lparr>ws_refreshTimer := None\<rparr>)
             | ConnectTimer mine \<Rightarrow>
                 let s = s\<lparr>ws_connectTimer := None\<rparr>
                 in if mine \<noteq> ws_generation s \<or> ws_socket s = None then s
                    else scheduleRetry c backoff (dropSocket CLOSE_NORMAL s)
             | SilenceTimer mine \<Rightarrow>
                 let s = s\<lparr>ws_silenceTimer := None\<rparr>
                 in if mine \<noteq> ws_generation s \<or> ws_socket s = None then s
                    else scheduleRetry c backoff (dropSocket CLOSE_NORMAL s))"

definition token_answered ::
    "WebSocketTransportOptions \<Rightarrow> nat \<Rightarrow> string option \<Rightarrow> bool \<Rightarrow> Transport \<Rightarrow> Transport" where
  "token_answered c f answer created s =
     (case env_fetches s f of
        None \<Rightarrow> s
      | Some (p, mine) \<Rightarrow>
          let s = s\<lparr>env_fetches := (env_fetches s)(f := None)\<rparr>
          in case p of
               ForOpen \<Rightarrow> open_continues c mine answer created s
             | ForRefresh \<Rightarrow> refresh_continues c mine answer s)"

subsection \<open>Events\<close>

datatype TransportEvent =
    Connect
  | Disconnect
  | SendMessage bytes
  | OnMessage nat
  | OffMessage nat
  | OnStatus nat
  | OffStatus nat
  | TimerFires nat
  | TokenAnswered nat "string option" bool
  | SocketOpens nat
  | SocketMessage nat FrameData
  | SocketCloses nat nat string
  | OfflineEvent
  | OnlineEvent
  | OnLineIs "bool option"

definition set_life :: "nat \<Rightarrow> SocketLife \<Rightarrow> Transport \<Rightarrow> Transport" where
  "set_life i l s = s\<lparr>env_sockets := (env_sockets s)(i := map_option (\<lambda>k. k\<lparr>sk_life := l\<rparr>) (env_sockets s i))\<rparr>"

definition listens :: "(Socket \<Rightarrow> bool) \<Rightarrow> nat \<Rightarrow> Transport \<Rightarrow> nat option" where
  "listens p i s = (case env_sockets s i of
     Some k \<Rightarrow> if sk_wired k \<and> p k then Some (sk_mine k) else None | None \<Rightarrow> None)"

fun transport_step :: "WebSocketTransportOptions \<Rightarrow> Transport \<Rightarrow> TransportEvent \<Rightarrow> Transport" where
  "transport_step c s Connect = (transport_connect s)\<lparr>env_active := True\<rparr>"
| "transport_step c s Disconnect = (transport_disconnect s)\<lparr>env_active := False\<rparr>"
| "transport_step c s (SendMessage b) = transport_send b s"
| "transport_step c s (OnMessage h) = s\<lparr>ws_messageHandlers := add_handler h (ws_messageHandlers s)\<rparr>"
| "transport_step c s (OffMessage h) = s\<lparr>ws_messageHandlers := removeAll h (ws_messageHandlers s)\<rparr>"
| "transport_step c s (OnStatus h) = s\<lparr>ws_statusHandlers := add_handler h (ws_statusHandlers s)\<rparr>"
| "transport_step c s (OffStatus h) = s\<lparr>ws_statusHandlers := removeAll h (ws_statusHandlers s)\<rparr>"
| "transport_step c s (TimerFires h) = timer_fires c h s"
| "transport_step c s (TokenAnswered f answer created) = token_answered c f answer created s"
| "transport_step c s (SocketOpens i) =
     (case listens (\<lambda>k. sk_life k = Sk_connecting) i s of
        None \<Rightarrow> s | Some mine \<Rightarrow> on_open c mine (set_life i Sk_open s))"
| "transport_step c s (SocketMessage i d) =
     (case listens (\<lambda>k. sk_life k = Sk_open) i s of None \<Rightarrow> s | Some mine \<Rightarrow> on_message c mine d s)"
| "transport_step c s (SocketCloses i code reason) =
     (case listens (\<lambda>k. sk_life k \<noteq> Sk_closed) i s of
        None \<Rightarrow> set_life i Sk_closed s | Some mine \<Rightarrow> handleClose c mine code reason (set_life i Sk_closed s))"
| "transport_step c s OfflineEvent =
     (if ws_unwireNetwork s \<and> opt_networkEvents c then onNetworkOffline s else s)"
| "transport_step c s OnlineEvent =
     (if ws_unwireNetwork s \<and> opt_networkEvents c then onNetworkOnline s else s)"
| "transport_step c s (OnLineIs v) = s\<lparr>env_onLine := v\<rparr>"

text \<open>
  The runs of a transport: the client calls \<open>connect\<close> only when it is not connected, as
  \<open>YjsSyncAdapter.connect\<close> enforces; everything else may happen at any time.
\<close>

inductive transport_run :: "WebSocketTransportOptions \<Rightarrow> Transport \<Rightarrow> bool" for c where
  start: "transport_run c (new_transport onLine)"
| step: "transport_run c s \<Longrightarrow> (e = Connect \<Longrightarrow> \<not> env_active s) \<Longrightarrow> transport_run c (transport_step c s e)"

end
