(* ===== verification/Adapter.thy ===== *)
theory Adapter
  imports LocalCommit Transport
begin

text \<open>
  The client side of a board: \<open>YjsSyncAdapter\<close> of \<open>packages/canvas-sync/src/adapter.ts\<close> as a state machine.
  The record \<open>Adapter\<close> holds the fields of the class, and what the adapter says to the canvas, to the
  transport and to the presence channel is a log of calls in order. Every entry point (the calls of
  the application, the continuations of \<open>connect\<close> after its awaits, the timer of the queue, messages and status
  changes of the transport, undo) is one branch of \<open>adapter_step\<close>; which comes next is up to the
  environment.

  Yjs is the record \<open>YNet\<close>: what a received sync message does to the document, with the elements its
  events name and the replies. The undo manager and the presence channel are not modelled beyond the calls
  they get; what an undo does to the document is part of the event.
\<close>

subsection \<open>What the adapter depends on and what it says\<close>

record YNet =
  y_read :: "bytes \<Rightarrow> ydoc \<Rightarrow> (ydoc \<times> js_string list \<times> bytes list) option"
  y_step1 :: "ydoc \<Rightarrow> bytes"
  y_step2 :: "ydoc \<Rightarrow> bytes"
  y_update :: "ydoc \<Rightarrow> ydoc \<Rightarrow> bytes"

record AdapterOptions =
  ao_transport :: bool
  ao_onStatus :: bool
  ao_localStore :: bool
  ao_assets :: bool
  ao_supported :: int
  ao_permissions :: CanvasPermissions
  ao_throttle :: Throttle
  ao_tooOldMessage :: string
  ao_text :: YText
  ao_parse :: "fields \<Rightarrow> fields option"
  ao_codec :: lib0
  ao_yjs :: YNet

datatype ConnectionState =
  Cn_connecting | Cn_connected nat | Cn_reconnecting nat int | Cn_offline nat | Cn_error string string

datatype SaveState = Sv_saving | Sv_saved | Sv_unsaved nat

datatype AdapterError =
  AlreadyConnected | ConnectionCancelled | EchoLoop | Undecodable nat | SyncFailed | AssetRefused AssetError | NoAssetPort

text \<open>\<open>Emitted\<close> records a change set the canvas had accepted before it emitted it.\<close>

datatype AdapterCall =
    SetConnection ConnectionState | SetSave SaveState | SetPermissions CanvasPermissions
  | ReplaceDocument BoardDocument | ApplyRemote "jsval list" "js_string list" "jsval list" | ApplyPeers nat
  | Emitted ElementChangeSet | TransportConnect | TransportDisconnect | SendBytes bytes
  | OnProtocolError string string
  | PresenceAnnounce | PresenceReannounce | PresenceDestroy | PresenceReceive bytes | PresenceEphemeral nat string
  | Raise AdapterError

datatype LastConnection = L_connecting | L_connected | L_reconnecting | L_offline | L_error

datatype ConnectStage = AwaitStore | AwaitTransport

record Adapter =
  ad_doc :: ydoc
  ad_permissions :: CanvasPermissions
  ad_role :: "BoardRole option"
  ad_inbound :: bool
  ad_wired :: bool
  ad_pendingRemote :: "js_string list"
  ad_epoch :: nat
  ad_scheduler :: "Scheduler option"
  ad_lastGesture :: "string option"
  ad_presence :: bool
  ad_peerCount :: nat
  ad_linkUp :: bool
  ad_offlineTouched :: "js_string list"
  ad_lastConnection :: "LastConnection option"
  ad_refused :: bool
  ad_awaits :: "(ConnectStage \<times> nat) list"
  ad_uploads :: "nat list"

type_synonym run = "Adapter \<times> AdapterCall list"

definition new_adapter :: "AdapterOptions \<Rightarrow> ydoc \<Rightarrow> Adapter" where
  "new_adapter opts d =
     \<lparr>ad_doc = d, ad_permissions = ao_permissions opts, ad_role = None, ad_inbound = False, ad_wired = False,
      ad_pendingRemote = [], ad_epoch = 0, ad_scheduler = None, ad_lastGesture = None, ad_presence = False,
      ad_peerCount = 0, ad_linkUp = True, ad_offlineTouched = [], ad_lastConnection = None, ad_refused = False,
      ad_awaits = [], ad_uploads = []\<rparr>"

definition call :: "AdapterCall \<Rightarrow> run \<Rightarrow> run" where
  "call c r = (fst r, snd r @ [c])"

definition tell :: "AdapterCall \<Rightarrow> run \<Rightarrow> run" where
  "tell c r = (if ad_inbound (fst r) then call c r else r)"

definition change :: "(Adapter \<Rightarrow> Adapter) \<Rightarrow> run \<Rightarrow> run" where
  "change f r = (f (fst r), snd r)"

definition statusChannel :: "AdapterOptions \<Rightarrow> bool" where
  "statusChannel opts \<longleftrightarrow> ao_transport opts \<and> ao_onStatus opts"

definition sendSync :: "AdapterOptions \<Rightarrow> bytes \<Rightarrow> run \<Rightarrow> run" where
  "sendSync opts p r = (if ao_transport opts then call (SendBytes (encodeMessage (ao_codec opts) (SYNC p))) r else r)"

text \<open>Insertion into a JavaScript \<open>Set\<close>.\<close>

definition add_ids :: "js_string list \<Rightarrow> js_string list \<Rightarrow> js_string list" where
  "add_ids ids s = foldl (\<lambda>s i. if i \<in> set s then s else s @ [i]) s ids"

subsection \<open>Offline changes\<close>

definition reportUnsaved :: "run \<Rightarrow> run" where
  "reportUnsaved r =
     (let n = length (ad_offlineTouched (fst r));
          r = tell (SetSave (Sv_unsaved n)) r
      in if ad_lastConnection (fst r) = Some L_offline then tell (SetConnection (Cn_offline n)) r else r)"

definition collectOffline :: "js_string list \<Rightarrow> run \<Rightarrow> run" where
  "collectOffline ids r =
     (let known = length (ad_offlineTouched (fst r));
          r = change (\<lambda>a. a\<lparr>ad_offlineTouched := add_ids ids (ad_offlineTouched a)\<rparr>) r
      in if length (ad_offlineTouched (fst r)) = known then r else reportUnsaved r)"

definition collectRemote :: "js_string list \<Rightarrow> run \<Rightarrow> run" where
  "collectRemote ids = change (\<lambda>a. a\<lparr>ad_pendingRemote := add_ids ids (ad_pendingRemote a)\<rparr>)"

subsection \<open>The local write\<close>

text \<open>The elements a commit touches, and whether it changes the document at all.\<close>

fun upserts_touched :: "YText \<Rightarrow> fields list \<Rightarrow> ymap \<Rightarrow> js_string list" where
  "upserts_touched T [] els = []"
| "upserts_touched T (e # es) els =
     (case writeElement T e els of (els', ops) \<Rightarrow>
        (if ops = [] then [] else [element_id e]) @ upserts_touched T es els')"

fun deletes_touched :: "js_string list \<Rightarrow> ymap \<Rightarrow> js_string list" where
  "deletes_touched [] els = []"
| "deletes_touched (i # is) els =
     (if softDelete i els = els then [] else [i]) @ deletes_touched is (softDelete i els)"

fun assets_changed :: "YText \<Rightarrow> (fields \<Rightarrow> fields option) \<Rightarrow> fields list \<Rightarrow> ymap \<Rightarrow> bool" where
  "assets_changed T parse [] m = False"
| "assets_changed T parse (a # as) m =
     (case writeAsset T parse a m of Inl e \<Rightarrow> False | Inr (m', ops) \<Rightarrow> ops \<noteq> [] \<or> assets_changed T parse as m')"

definition commit_touched :: "YText \<Rightarrow> ElementChangeSet \<Rightarrow> ymap \<Rightarrow> js_string list" where
  "commit_touched T cs els =
     upserts_touched T (cs_upserted cs) els @
     deletes_touched (cs_deleted cs) (foldl (\<lambda>m e. fst (writeElement T e m)) els (cs_upserted cs))"

text \<open>
  The end of a transaction of this client: the observer of the elements (not called without an event), then
  the update of the document.
\<close>

definition local_transaction :: "AdapterOptions \<Rightarrow> ydoc \<Rightarrow> js_string list \<Rightarrow> bool \<Rightarrow> run \<Rightarrow> run" where
  "local_transaction opts d' touched changed r =
     (let d = ad_doc (fst r);
          r = change (\<lambda>a. a\<lparr>ad_doc := d'\<rparr>) r;
          r = (if ad_wired (fst r) \<and> touched \<noteq> [] \<and> \<not> ad_linkUp (fst r) then collectOffline touched r else r)
      in if ad_wired (fst r) \<and> changed then sendSync opts (y_update (ao_yjs opts) d d') r else r)"

definition commitChanges :: "AdapterOptions \<Rightarrow> ElementChangeSet \<Rightarrow> run \<Rightarrow> run" where
  "commitChanges opts cs r =
     (let d = ad_doc (fst r);
          els = root d ROOT_ELEMENTS;
          (d', err) = commit_doc (ao_text opts) (ao_parse opts) cs d;
          touched = commit_touched (ao_text opts) cs els;
          changed = (getSchemaVersion d = None \<or> touched \<noteq> [] \<or>
            assets_changed (ao_text opts) (ao_parse opts) (cs_assets cs) (root d ROOT_ASSETS));
          r = change (\<lambda>a. a\<lparr>ad_lastGesture := cs_gesture cs\<rparr>) r;
          r = local_transaction opts d' touched changed r
      in case err of
           Some e \<Rightarrow> call (Raise (AssetRefused e)) r
         | None \<Rightarrow> if ao_transport opts then r else tell (SetSave (Sv_unsaved 0)) r)"

definition adapter_sink :: "AdapterOptions \<Rightarrow> run EmitSink" where
  "adapter_sink opts =
     \<lparr>sink_commit = commitChanges opts,
      sink_has = \<lambda>r i. map_of (root (ad_doc (fst r)) ROOT_ELEMENTS) i \<noteq> None,
      sink_textOf = \<lambda>r. currentText (root (ad_doc (fst r)) ROOT_ELEMENTS)\<rparr>"

text \<open>An operation of the queue, when there is one.\<close>

definition with_scheduler :: "(Scheduler \<times> run \<Rightarrow> Scheduler \<times> run) \<Rightarrow> run \<Rightarrow> run" where
  "with_scheduler f r =
     (case ad_scheduler (fst r) of
        None \<Rightarrow> r
      | Some sc \<Rightarrow> (case f (sc, r) of (sc', r') \<Rightarrow> change (\<lambda>a. a\<lparr>ad_scheduler := Some sc'\<rparr>) r'))"

definition emitElementChanges :: "AdapterOptions \<Rightarrow> ElementChangeSet \<Rightarrow> run \<Rightarrow> run" where
  "emitElementChanges opts cs r =
     (if \<not> isEmittableOrigin (cs_origin cs) then call (Raise EchoLoop) r
      else if \<not> ad_inbound (fst r) then r
      else with_scheduler (push (ao_throttle opts) (adapter_sink opts) cs)
             (tell (SetSave Sv_saving) (call (Emitted cs) r)))"

subsection \<open>Delivery to the canvas\<close>

definition js_truthy :: "jsval option \<Rightarrow> bool" where
  "js_truthy v \<longleftrightarrow> v \<notin> {None, Some JSUndef, Some JSNull, Some (JSBool False), Some (JSNum 0), Some (JSStr [])}"

definition field_of :: "jsval \<Rightarrow> js_string \<Rightarrow> jsval option" where
  "field_of v k = (case v of JSObj fs \<Rightarrow> map_of fs k | _ \<Rightarrow> None)"

definition remote_element :: "ymap \<Rightarrow> js_string \<Rightarrow> js_string + jsval" where
  "remote_element els i =
     (case map_of els i of
        Some (YMap m) \<Rightarrow> if js_truthy (field_of (readElement m) IS_DELETED) then Inl i else Inr (readElement m)
      | _ \<Rightarrow> Inl i)"

fun file_ids :: "jsval list \<Rightarrow> js_string list \<Rightarrow> js_string list" where
  "file_ids [] seen = []"
| "file_ids (e # es) seen =
     (case field_of e (u ''fileId'') of
        Some (JSStr f) \<Rightarrow> if f \<in> set seen then file_ids es seen else f # file_ids es (f # seen)
      | _ \<Rightarrow> file_ids es seen)"

definition assetsOf :: "ydoc \<Rightarrow> jsval list \<Rightarrow> jsval list" where
  "assetsOf d es =
     List.map_filter (\<lambda>f. case map_of (root d ROOT_ASSETS) f of Some (YMap m) \<Rightarrow> Some (toJSON (YMap m)) | _ \<Rightarrow> None)
       (file_ids es [])"

definition lefts :: "('a + 'b) list \<Rightarrow> 'a list" where
  "lefts xs = List.map_filter (\<lambda>x. case x of Inl a \<Rightarrow> Some a | Inr b \<Rightarrow> None) xs"

definition rights :: "('a + 'b) list \<Rightarrow> 'b list" where
  "rights xs = List.map_filter (\<lambda>x. case x of Inl a \<Rightarrow> None | Inr b \<Rightarrow> Some b) xs"

definition flushRemote :: "run \<Rightarrow> run" where
  "flushRemote r =
     (let a = fst r in
      if \<not> ad_inbound a \<or> ad_pendingRemote a = [] then r
      else
        let found = map (remote_element (root (ad_doc a) ROOT_ELEMENTS)) (ad_pendingRemote a);
            upserted = rights found
        in call (ApplyRemote upserted (lefts found) (assetsOf (ad_doc a) upserted))
             (change (\<lambda>a. a\<lparr>ad_pendingRemote := []\<rparr>) r))"

definition publishPeers :: "nat \<Rightarrow> run \<Rightarrow> run" where
  "publishPeers n r =
     (if \<not> ad_inbound (fst r) then r
      else
        let r = tell (ApplyPeers n) r in
        if n = ad_peerCount (fst r) then r
        else
          let r = change (\<lambda>a. a\<lparr>ad_peerCount := n\<rparr>) r
          in if ad_linkUp (fst r) then tell (SetConnection (Cn_connected n)) r else r)"

subsection \<open>Refusal and roles\<close>

definition refuse :: "AdapterOptions \<Rightarrow> string \<Rightarrow> run \<Rightarrow> run" where
  "refuse opts message r =
     (if ad_refused (fst r) then r
      else
        let r = change (\<lambda>a. a\<lparr>ad_refused := True\<rparr>) r;
            r = (if ao_transport opts then call TransportDisconnect r else r);
            r = change (\<lambda>a. a\<lparr>ad_linkUp := False, ad_permissions := READ_ONLY_PERMISSIONS\<rparr>) r
        in tell (SetConnection (Cn_error ''CLIENT_TOO_OLD'' message)) (tell (SetPermissions READ_ONLY_PERMISSIONS) r))"

definition refuseIfTooOld :: "AdapterOptions \<Rightarrow> run \<Rightarrow> run" where
  "refuseIfTooOld opts r =
     (case getSchemaVersion (ad_doc (fst r)) of
        None \<Rightarrow> r
      | Some v \<Rightarrow> if checkClientVersion v (ao_supported opts) = ClientOk then r else refuse opts (ao_tooOldMessage opts) r)"

definition wire_name :: "BoardRole \<Rightarrow> string" where
  "wire_name role = (case role of owner \<Rightarrow> ''owner'' | editor \<Rightarrow> ''editor'' | commenter \<Rightarrow> ''commenter'' | viewer \<Rightarrow> ''viewer'')"

definition applyRole :: "BoardRole \<Rightarrow> run \<Rightarrow> run" where
  "applyRole role r =
     (if ad_role (fst r) = Some role then r
      else
        let perms = permissionsForRole (wire_name role)
        in tell (SetPermissions perms) (change (\<lambda>a. a\<lparr>ad_role := Some role, ad_permissions := perms\<rparr>) r))"

definition handleProtocolError :: "AdapterOptions \<Rightarrow> string \<Rightarrow> string \<Rightarrow> run \<Rightarrow> run" where
  "handleProtocolError opts code message r =
     (if code = ''CLIENT_TOO_OLD'' then refuse opts message r else call (OnProtocolError code message) r)"

subsection \<open>Messages\<close>

definition requestInitialSync :: "AdapterOptions \<Rightarrow> run \<Rightarrow> run" where
  "requestInitialSync opts r =
     (let d = ad_doc (fst r)
      in sendSync opts (y_step2 (ao_yjs opts) d) (sendSync opts (y_step1 (ao_yjs opts) d) r))"

definition handleSync :: "AdapterOptions \<Rightarrow> bytes \<Rightarrow> run \<Rightarrow> run" where
  "handleSync opts p r =
     (case y_read (ao_yjs opts) p (ad_doc (fst r)) of
        None \<Rightarrow> call (Raise SyncFailed) r
      | Some (d', ids, replies) \<Rightarrow>
          let r = collectRemote ids (change (\<lambda>a. a\<lparr>ad_doc := d'\<rparr>) r);
              r = foldl (\<lambda>r reply. sendSync opts reply r) r replies
          in refuseIfTooOld opts (flushRemote r))"

definition save_of :: "SaveStatus \<Rightarrow> SaveState" where
  "save_of s = (case s of saved \<Rightarrow> Sv_saved | saving \<Rightarrow> Sv_saving | unsaved \<Rightarrow> Sv_unsaved 0)"

definition handleMessage :: "AdapterOptions \<Rightarrow> bytes \<Rightarrow> run \<Rightarrow> run" where
  "handleMessage opts data r =
     (case decodeMessage (ao_codec opts) data of
        Inl ty \<Rightarrow> call (Raise (Undecodable ty)) r
      | Inr None \<Rightarrow> r
      | Inr (Some message) \<Rightarrow> (case message of
            SYNC p \<Rightarrow> handleSync opts p r
          | AWARENESS p \<Rightarrow> if ad_presence (fst r) then call (PresenceReceive p) r else r
          | HB_EPHEMERAL c p \<Rightarrow> if ad_presence (fst r) then call (PresenceEphemeral c p) r else r
          | HB_ROOM_INFO users sq save \<Rightarrow>
              tell (SetConnection (Cn_connected (ad_peerCount (fst r)))) (tell (SetSave (save_of save)) r)
          | HB_PERMISSION role \<Rightarrow> applyRole role r
          | HB_ERROR code m \<Rightarrow> handleProtocolError opts code m r
          | HB_AUTH_REFRESH t \<Rightarrow> r))"

subsection \<open>The status of the transport\<close>

definition resumeSession :: "AdapterOptions \<Rightarrow> run \<Rightarrow> run" where
  "resumeSession opts r =
     (let r = requestInitialSync opts r in if ad_presence (fst r) then call PresenceReannounce r else r)"

definition handleStatus :: "AdapterOptions \<Rightarrow> TransportStatus \<Rightarrow> run \<Rightarrow> run" where
  "handleStatus opts status r =
     (if \<not> ad_inbound (fst r) \<or> ad_refused (fst r) then r
      else
        let up = (case status of Open b \<Rightarrow> True | _ \<Rightarrow> False);
            r = (if \<not> up \<and> ad_linkUp (fst r) then reportUnsaved (change (\<lambda>a. a\<lparr>ad_linkUp := False\<rparr>) r) else r);
            r = change (\<lambda>a. a\<lparr>ad_linkUp := up\<rparr>) r;
            last = (\<lambda>l. change (\<lambda>a. a\<lparr>ad_lastConnection := Some l\<rparr>))
        in case status of
             Connecting n \<Rightarrow>
               if n = 1 then tell (SetConnection Cn_connecting) (last L_connecting r) else last L_reconnecting r
           | Open b \<Rightarrow>
               let r = change (\<lambda>a. a\<lparr>ad_offlineTouched := [], ad_lastConnection := Some L_connected\<rparr>) (resumeSession opts r)
               in tell (SetSave Sv_saving) (tell (SetConnection (Cn_connected (ad_peerCount (fst r)))) r)
           | Retrying n ms \<Rightarrow> tell (SetConnection (Cn_reconnecting n ms)) (last L_reconnecting r)
           | Stopped why code m \<Rightarrow>
               if why = stopped_offline
               then tell (SetConnection (Cn_offline (length (ad_offlineTouched (fst r))))) (last L_offline r)
               else tell (SetConnection (Cn_error code m)) (last L_error r))"

subsection \<open>Connecting and disconnecting\<close>

definition connect_started :: "AdapterOptions \<Rightarrow> run \<Rightarrow> run" where
  "connect_started opts r =
     (let r = (if ao_transport opts then call TransportConnect r else r)
      in change (\<lambda>a. a\<lparr>ad_awaits := (AwaitTransport, ad_epoch a) # ad_awaits a\<rparr>) r)"

definition adapter_connect :: "AdapterOptions \<Rightarrow> run \<Rightarrow> run" where
  "adapter_connect opts r =
     (if ad_inbound (fst r) then call (Raise AlreadyConnected) r
      else
        let r = change (\<lambda>a. a\<lparr>ad_epoch := Suc (ad_epoch a), ad_inbound := True, ad_offlineTouched := [],
                             ad_linkUp := \<not> statusChannel opts\<rparr>) r;
            r = tell (SetConnection Cn_connecting) r
        in if ao_localStore opts
           then change (\<lambda>a. a\<lparr>ad_awaits := (AwaitStore, ad_epoch a) # ad_awaits a\<rparr>) r
           else connect_started opts r)"

definition connect_finish :: "AdapterOptions \<Rightarrow> run \<Rightarrow> run" where
  "connect_finish opts r =
     (let r = change (\<lambda>a. a\<lparr>ad_scheduler := Some new_scheduler, ad_wired := True\<rparr>) r;
          r = refuseIfTooOld opts (requestInitialSync opts r);
          r = tell (ReplaceDocument (readDocument (ad_doc (fst r)))) r;
          r = call PresenceAnnounce (change (\<lambda>a. a\<lparr>ad_presence := True\<rparr>) r);
          r = tell (SetPermissions (ad_permissions (fst r))) r;
          r = (if statusChannel opts then r else tell (SetConnection (Cn_connected (ad_peerCount (fst r)))) r)
      in tell (SetSave (Sv_unsaved 0)) r)"

text \<open>What follows an \<open>await\<close> of \<open>connect\<close>.\<close>

definition connect_continues :: "AdapterOptions \<Rightarrow> ConnectStage \<Rightarrow> nat \<Rightarrow> run \<Rightarrow> run" where
  "connect_continues opts stage token r =
     (if (stage, token) \<notin> set (ad_awaits (fst r)) then r
      else
        let r = change (\<lambda>a. a\<lparr>ad_awaits := remove1 (stage, token) (ad_awaits a)\<rparr>) r
        in if ad_epoch (fst r) \<noteq> token then call (Raise ConnectionCancelled) r
           else if stage = AwaitStore then connect_started opts r else connect_finish opts r)"

definition adapter_disconnect :: "AdapterOptions \<Rightarrow> run \<Rightarrow> run" where
  "adapter_disconnect opts r =
     (let r = change (\<lambda>a. a\<lparr>ad_epoch := Suc (ad_epoch a)\<rparr>) r;
          r = with_scheduler (EmitLocal.dispose (adapter_sink opts)) r;
          r = change (\<lambda>a. a\<lparr>ad_scheduler := None, ad_lastGesture := None\<rparr>) r;
          r = (if ad_presence (fst r) then call PresenceDestroy r else r);
          r = change (\<lambda>a. a\<lparr>ad_presence := False, ad_peerCount := 0, ad_wired := False, ad_pendingRemote := []\<rparr>) r;
          r = (if ao_transport opts then call TransportDisconnect r else r);
          r = tell (SetConnection (Cn_offline (length (ad_offlineTouched (fst r))))) r
      in change (\<lambda>a. a\<lparr>ad_inbound := False, ad_linkUp := True, ad_lastConnection := None, ad_offlineTouched := []\<rparr>) r)"

subsection \<open>Assets and undo\<close>

definition uploadAsset :: "AdapterOptions \<Rightarrow> run \<Rightarrow> run" where
  "uploadAsset opts r =
     (if ao_assets opts then change (\<lambda>a. a\<lparr>ad_uploads := ad_epoch a # ad_uploads a\<rparr>) r else call (Raise NoAssetPort) r)"

definition upload_continues :: "AdapterOptions \<Rightarrow> nat \<Rightarrow> fields \<Rightarrow> run \<Rightarrow> run" where
  "upload_continues opts token asset r =
     (if token \<notin> set (ad_uploads (fst r)) then r
      else
        let r = change (\<lambda>a. a\<lparr>ad_uploads := remove1 token (ad_uploads a)\<rparr>) r
        in if ad_epoch (fst r) \<noteq> token then call (Raise ConnectionCancelled) r
           else case writeAsset (ao_text opts) (ao_parse opts) asset (root (ad_doc (fst r)) ROOT_ASSETS) of
               Inl e \<Rightarrow> call (Raise (AssetRefused e)) r
             | Inr (m, ops) \<Rightarrow>
                 local_transaction opts (set_root ROOT_ASSETS m (ad_doc (fst r))) [] (ops \<noteq> []) r)"

text \<open>The origin of an undo is neither local nor remote: it is counted, sent and delivered to the canvas.\<close>

definition undo_applied :: "AdapterOptions \<Rightarrow> ydoc \<Rightarrow> js_string list \<Rightarrow> run \<Rightarrow> run" where
  "undo_applied opts d' ids r =
     (if ad_wired (fst r) then flushRemote (collectRemote ids (local_transaction opts d' ids (d' \<noteq> ad_doc (fst r)) r)) else r)"

subsection \<open>Runs\<close>

datatype AdapterEvent =
    Connect | Continue ConnectStage nat | Disconnect | StoreLoads ydoc
  | Emit ElementChangeSet | QueueTimer | UndoRedo ydoc "js_string list"
  | Message bytes | Status TransportStatus | Peers nat
  | Upload | Uploaded nat fields

text \<open>
  Handlers are registered with the transport between \<open>connect\<close> and \<open>disconnect\<close>; the local store loads while
  \<open>connect\<close> waits for it.
\<close>

definition adapter_step :: "AdapterOptions \<Rightarrow> AdapterEvent \<Rightarrow> run \<Rightarrow> run" where
  "adapter_step opts ev r =
     (case ev of
        Connect \<Rightarrow> adapter_connect opts r
      | Continue stage token \<Rightarrow> connect_continues opts stage token r
      | Disconnect \<Rightarrow> adapter_disconnect opts r
      | StoreLoads d \<Rightarrow> if ad_wired (fst r) then r else change (\<lambda>a. a\<lparr>ad_doc := d\<rparr>) r
      | Emit cs \<Rightarrow> emitElementChanges opts cs r
      | QueueTimer \<Rightarrow> with_scheduler (queue_step (ao_throttle opts) (adapter_sink opts) Fire) r
      | UndoRedo d ids \<Rightarrow> undo_applied opts d ids r
      | Message data \<Rightarrow> if ad_wired (fst r) \<and> ao_transport opts then handleMessage opts data r else r
      | Status s \<Rightarrow> if ad_wired (fst r) \<and> statusChannel opts then handleStatus opts s r else r
      | Peers n \<Rightarrow> if ad_presence (fst r) then publishPeers n r else r
      | Upload \<Rightarrow> uploadAsset opts r
      | Uploaded token asset \<Rightarrow> upload_continues opts token asset r)"

definition adapter_run :: "AdapterOptions \<Rightarrow> AdapterEvent list \<Rightarrow> run \<Rightarrow> run" where
  "adapter_run opts evs r = foldl (\<lambda>r ev. adapter_step opts ev r) r evs"

end
