(* ===== verification/AdapterMirror.thy ===== *)
theory AdapterMirror
  imports Adapter
begin

text \<open>
  What the canvas shows, computed from the log of an adapter, and the proof that it is what the document holds.
  The queue of the adapter is the queue of \<open>EmitLocal\<close> with the adapter itself as its sink, so the interface
  \<open>element_sink\<close> is interpreted once more, on the adapter.
\<close>

subsection \<open>Calls and fields\<close>

lemma call_simps [simp]: "fst (call c r) = fst r" "snd (call c r) = snd r @ [c]"
  by (simp_all add: call_def)

lemma tell_simps [simp]: "fst (tell c r) = fst r" "snd (tell c r) = snd r @ (if ad_inbound (fst r) then [c] else [])"
  by (simp_all add: tell_def)

lemma change_simps [simp]: "fst (change f r) = f (fst r)" "snd (change f r) = snd r"
  by (simp_all add: change_def)

lemma fst_sendSync [simp]: "fst (sendSync opts p r) = fst r"
  by (simp add: sendSync_def)

lemma fst_sends [simp]: "fst (foldl (\<lambda>r p. sendSync opts p r) r ps) = fst r"
  by (induction ps arbitrary: r) simp_all

lemma fst_reportUnsaved [simp]: "fst (reportUnsaved r) = fst r"
  by (simp add: reportUnsaved_def Let_def)

lemma fst_requestInitialSync [simp]: "fst (requestInitialSync opts r) = fst r"
  by (simp add: requestInitialSync_def Let_def)

lemma fst_resumeSession [simp]: "fst (resumeSession opts r) = fst r"
  by (simp add: resumeSession_def Let_def)

lemma fst_collectOffline [simp]:
  "fst (collectOffline ids r) = (fst r)\<lparr>ad_offlineTouched := add_ids ids (ad_offlineTouched (fst r))\<rparr>"
  by (simp add: collectOffline_def Let_def)

lemma fst_collectRemote [simp]:
  "fst (collectRemote ids r) = (fst r)\<lparr>ad_pendingRemote := add_ids ids (ad_pendingRemote (fst r))\<rparr>"
  by (simp add: collectRemote_def)

lemma set_add_ids [simp]: "set (add_ids ids s) = set ids \<union> set s"
  unfolding add_ids_def by (induction ids arbitrary: s) auto

subsection \<open>What the canvas shows\<close>

definition fields_of :: "jsval \<Rightarrow> fields" where
  "fields_of v = (case v of JSObj fs \<Rightarrow> fs | _ \<Rightarrow> [])"

definition shown_in :: "jsval list \<Rightarrow> js_string \<Rightarrow> LastWord option" where
  "shown_in vs i = map_of (rev (map (\<lambda>v. (str_field v (u ''id''), Upserted (fields_of v))) vs)) i"

fun view_step :: "AdapterCall \<Rightarrow> (js_string \<Rightarrow> LastWord) \<Rightarrow> js_string \<Rightarrow> LastWord" where
  "view_step (ReplaceDocument b) v i = (case shown_in (bd_elements b) i of Some w \<Rightarrow> w | None \<Rightarrow> Deleted)"
| "view_step (ApplyRemote ups dels as) v i =
     (if i \<in> set dels then Deleted else case shown_in ups i of Some w \<Rightarrow> w | None \<Rightarrow> v i)"
| "view_step (Emitted cs) v i = (case word_of cs i of Some w \<Rightarrow> w | None \<Rightarrow> v i)"
| "view_step c v i = v i"

definition canvas :: "AdapterCall list \<Rightarrow> js_string \<Rightarrow> LastWord" where
  "canvas calls = foldl (\<lambda>v c. view_step c v) (\<lambda>i. Deleted) calls"

fun silent :: "AdapterCall \<Rightarrow> bool" where
  "silent (ReplaceDocument b) = False"
| "silent (ApplyRemote ups dels as) = False"
| "silent (Emitted cs) = False"
| "silent c = True"

lemma canvas_snoc: "canvas (calls @ [c]) = view_step c (canvas calls)"
  by (simp add: canvas_def)

lemma silent_step: "silent c \<Longrightarrow> view_step c v = v"
  by (cases c) auto

lemma canvas_silent: "silent c \<Longrightarrow> canvas (calls @ [c]) = canvas calls"
  by (simp add: canvas_snoc silent_step)

lemma canvas_call [simp]: "silent c \<Longrightarrow> canvas (snd (call c r)) = canvas (snd r)"
  by (simp add: canvas_silent)

lemma canvas_tell [simp]: "silent c \<Longrightarrow> canvas (snd (tell c r)) = canvas (snd r)"
  by (simp add: canvas_silent)

declare call_simps(2) [simp del] tell_simps(2) [simp del]

lemma canvas_sendSync [simp]: "canvas (snd (sendSync opts p r)) = canvas (snd r)"
  by (simp add: sendSync_def)

lemma canvas_sends [simp]: "canvas (snd (foldl (\<lambda>r p. sendSync opts p r) r ps)) = canvas (snd r)"
  by (induction ps arbitrary: r) simp_all

lemma canvas_reportUnsaved [simp]: "canvas (snd (reportUnsaved r)) = canvas (snd r)"
  by (simp add: reportUnsaved_def Let_def)

lemma canvas_collectOffline [simp]: "canvas (snd (collectOffline ids r)) = canvas (snd r)"
  by (simp add: collectOffline_def Let_def)

lemma canvas_requestInitialSync [simp]: "canvas (snd (requestInitialSync opts r)) = canvas (snd r)"
  by (simp add: requestInitialSync_def Let_def)

lemma canvas_resumeSession [simp]: "canvas (snd (resumeSession opts r)) = canvas (snd r)"
  by (simp add: resumeSession_def Let_def)

lemma canvas_local_transaction [simp]: "canvas (snd (local_transaction opts d t c r)) = canvas (snd r)"
  by (simp add: local_transaction_def Let_def)

lemma fst_local_transaction:
  "fst (local_transaction opts d t c r) =
     (fst r)\<lparr>ad_doc := d, ad_offlineTouched :=
       (if ad_wired (fst r) \<and> t \<noteq> [] \<and> \<not> ad_linkUp (fst r) then add_ids t (ad_offlineTouched (fst r))
        else ad_offlineTouched (fst r))\<rparr>"
  by (simp add: local_transaction_def Let_def)

lemma canvas_commitChanges [simp]: "canvas (snd (commitChanges opts cs r)) = canvas (snd r)"
  by (simp add: commitChanges_def Let_def split_beta split: option.split)

lemma canvas_refuse [simp]: "canvas (snd (refuse opts m r)) = canvas (snd r)"
  by (simp add: refuse_def Let_def)

lemma canvas_refuseIfTooOld [simp]: "canvas (snd (refuseIfTooOld opts r)) = canvas (snd r)"
  by (simp add: refuseIfTooOld_def split: option.split)

subsection \<open>The adapter as a sink\<close>

definition els_of :: "run \<Rightarrow> ymap" where
  "els_of r = root (ad_doc (fst r)) ROOT_ELEMENTS"

text \<open>What is shown for \<open>i\<close> agrees with the document: the same value, or equal up to absent fields.\<close>

definition shows_word :: "ymap \<Rightarrow> LastWord \<Rightarrow> js_string \<Rightarrow> bool" where
  "shows_word els w i =
     (case w of
        Upserted fs \<Rightarrow> (case map_of els i of
            Some (YMap m) \<Rightarrow> readElement m = JSObj fs \<or> deepEqual (readElement m) (strip (JSObj fs))
          | _ \<Rightarrow> False)
      | Deleted \<Rightarrow> (case map_of els i of
            Some (YMap m) \<Rightarrow> js_truthy (field_of (readElement m) IS_DELETED)
          | _ \<Rightarrow> True))"

lemma shows_word_cong: "map_of els i = map_of els' i \<Longrightarrow> shows_word els w i = shows_word els' w i"
  by (simp add: shows_word_def split: LastWord.split)

lemma field_of_readElement: "field_of (readElement m) k = map_option toJSON (map_of m k)"
  by (simp add: field_of_def readElement_def map_of_snd)

lemma els_read_shows: "els_read els w i \<Longrightarrow> shows_word els w i"
  by (auto simp: els_read_def shows_word_def field_of_readElement js_truthy_def split: LastWord.splits option.splits yval.splits)

text \<open>Elements are stored under their own ids.\<close>

definition id_keyed :: "ymap \<Rightarrow> bool" where
  "id_keyed els \<longleftrightarrow> (\<forall>i m. map_of els i = Some (YMap m) \<longrightarrow> field_of (readElement m) (u ''id'') = Some (JSStr i))"

definition els_good :: "(js_string \<Rightarrow> bool) \<Rightarrow> ymap \<Rightarrow> bool" where
  "els_good F els \<longleftrightarrow> els_okay F els \<and> id_keyed els"

definition good_element :: "(js_string \<Rightarrow> bool) \<Rightarrow> fields \<Rightarrow> bool" where
  "good_element F e \<longleftrightarrow> valid_element F e \<and> (\<exists>s. map_of e (u ''id'') = Some (JSStr s))"

definition adapter_okay :: "(js_string \<Rightarrow> bool) \<Rightarrow> AdapterOptions \<Rightarrow> run \<Rightarrow> bool" where
  "adapter_okay F opts r \<longleftrightarrow> diff_ok F (ao_text opts) \<and> els_good F (els_of r)"

definition adapter_reads :: "run \<Rightarrow> LastWord \<Rightarrow> js_string \<Rightarrow> bool" where
  "adapter_reads r w i = shows_word (els_of r) w i"

lemma id_keyedD: "id_keyed els \<Longrightarrow> map_of els i = Some (YMap m) \<Longrightarrow> field_of (readElement m) (u ''id'') = Some (JSStr i)"
  unfolding id_keyed_def by blast

lemma deepEqual_str: "deepEqual v (JSStr s) \<longleftrightarrow> v = JSStr s"
  by (cases v) auto

lemma deepEqual_field:
  assumes "deepEqual (JSObj fs) (JSObj gs)" "map_of gs k = Some (JSStr s)" "distinct (map fst fs)" "distinct (map fst gs)"
  shows "map_of fs k = Some (JSStr s)"
proof -
  have len: "length fs = length gs" and all: "list_all (\<lambda>p. case map_of gs (fst p) of None \<Rightarrow> False | Some y \<Rightarrow> deepEqual (snd p) y) fs"
    using assms(1) by simp_all
  have "fst ` set fs \<subseteq> fst ` set gs"
    using all by (force simp: list_all_iff map_of_eq_None_iff split: option.splits)
  moreover have "card (fst ` set fs) = card (fst ` set gs)"
    using assms(3,4) len by (metis distinct_card length_map set_map)
  ultimately have "fst ` set fs = fst ` set gs" by (simp add: card_subset_eq)
  then have "k \<in> fst ` set fs" using assms(2) by (metis domI dom_map_of_conv_image_fst)
  then obtain v where v: "map_of fs k = Some v" by (metis map_of_eq_None_iff not_None_eq)
  then have "deepEqual v (JSStr s)" using all assms(2) map_of_SomeD [OF v] by (auto simp: list_all_iff)
  then show ?thesis using v by (simp add: deepEqual_str)
qed

lemma writeElement_id_keyed:
  assumes T: "diff_ok F T" and els: "els_okay F els" "id_keyed els" and e: "good_element F e"
  shows "id_keyed (fst (writeElement T e els))"
  unfolding id_keyed_def
proof (intro allI impI)
  fix i m assume m: "map_of (fst (writeElement T e els)) i = Some (YMap m)"
  have v: "valid_element F e" using e by (simp add: good_element_def)
  obtain s where s: "map_of e (u ''id'') = Some (JSStr s)" using e by (auto simp: good_element_def)
  show "field_of (readElement m) (u ''id'') = Some (JSStr i)"
  proof (cases "i = element_id e")
    case False
    then show ?thesis using m writeElement_word(2) [OF T els(1) v] id_keyedD [OF els(2)] by simp
  next
    case True
    have wf: "wf_val (JSObj e)" using v by (simp add: valid_element_def)
    have "deepEqual (readElement m) (strip (JSObj e))"
      using writeElement_word(1) [OF T els(1) v] m True by (simp add: els_read_def)
    then have eq: "deepEqual (JSObj (map (\<lambda>p. (fst p, toJSON (snd p))) m))
        (JSObj (map (\<lambda>p. (fst p, strip (snd p))) (filter (\<lambda>p. snd p \<noteq> JSUndef) e)))"
      by (simp add: readElement_def del: deepEqual.simps)
    have id: "map_of (map (\<lambda>p. (fst p, strip (snd p))) (filter (\<lambda>p. snd p \<noteq> JSUndef) e)) (u ''id'') = Some (JSStr s)"
      using wf s by (simp add: map_of_strip)
    have "wf_yval (YMap m)"
      using writeElement_okay [OF T els(1) v] map_of_all [where P = wf_yval, OF _ m] by (simp add: els_okay_def)
    then have "map_of (map (\<lambda>p. (fst p, toJSON (snd p))) m) (u ''id'') = Some (JSStr s)"
      using wf by (intro deepEqual_field [OF eq id]) (simp_all add: comp_def distinct_map_filter)
    moreover have "i = s" using True s by (simp add: element_id_def)
    ultimately show ?thesis by (simp add: readElement_def field_of_def)
  qed
qed

lemma softDelete_id_keyed: "id_keyed els \<Longrightarrow> id_keyed (softDelete j els)"
  unfolding id_keyed_def
proof (intro allI impI)
  fix i m
  assume k: "\<forall>i m. map_of els i = Some (YMap m) \<longrightarrow> field_of (readElement m) (u ''id'') = Some (JSStr i)"
    and m: "map_of (softDelete j els) i = Some (YMap m)"
  have "IS_DELETED \<noteq> u ''id''" by code_simp
  then show "field_of (readElement m) (u ''id'') = Some (JSStr i)"
    using m k by (auto simp: softDelete_def update_conv' field_of_readElement split: option.splits yval.splits if_splits)
qed

lemma commit_elements_good:
  assumes T: "diff_ok F T" and els: "els_good F els" and cs: "list_all (good_element F) (cs_upserted cs)"
  shows "els_good F (commit_elements T cs els)"
proof -
  have up: "els_good F (foldl (\<lambda>m e. fst (writeElement T e m)) els es)" if "list_all (good_element F) es" for es
    using that
  proof (induction es rule: rev_induct)
    case (snoc e es)
    then show ?case
      using writeElement_okay [OF T] writeElement_id_keyed [OF T] by (simp add: els_good_def good_element_def)
  qed (use els in simp)
  have "els_good F (foldl (\<lambda>m i. softDelete i m) m is)" if "els_good F m" for m "is"
    using that by (induction "is" rule: rev_induct) (simp_all add: els_good_def softDelete_okay softDelete_id_keyed)
  then show ?thesis using up [OF cs] by (simp add: commit_elements_def)
qed

lemma good_valid: "list_all (good_element F) es \<Longrightarrow> list_all (valid_element F) es"
  by (simp add: list_all_iff good_element_def)

lemma els_of_commit [simp]: "els_of (commitChanges opts cs r) = commit_elements (ao_text opts) cs (els_of r)"
proof -
  have "ad_doc (fst (commitChanges opts cs r)) = fst (commit_doc (ao_text opts) (ao_parse opts) cs (ad_doc (fst r)))"
    by (simp add: commitChanges_def Let_def split_beta fst_local_transaction split: option.split)
  then show ?thesis by (simp add: els_of_def commit_doc_elements)
qed

interpretation ad: element_sink "adapter_sink opts" "adapter_okay F opts" "good_element F" adapter_reads for F opts
proof
  fix r :: run and cs :: ElementChangeSet and i w
  assume a: "adapter_okay F opts r" "list_all (good_element F) (cs_upserted cs)"
  then have T: "diff_ok F (ao_text opts)" "els_okay F (els_of r)" by (simp_all add: adapter_okay_def els_good_def)
  note c = commit_elements_spec(2) [OF T good_valid [OF a(2)], of i]
  show "adapter_okay F opts (sink_commit (adapter_sink opts) cs r)"
    using a commit_elements_good by (simp add: adapter_sink_def adapter_okay_def)
  show "adapter_reads (sink_commit (adapter_sink opts) cs r) w i" if "word_of cs i = Some w"
    using c that els_read_shows by (simp add: adapter_sink_def adapter_reads_def)
  show "adapter_reads (sink_commit (adapter_sink opts) cs r) w i = adapter_reads r w i" if "word_of cs i = None"
  proof -
    have "map_of (commit_elements (ao_text opts) cs (els_of r)) i = map_of (els_of r) i" using c that by simp
    from shows_word_cong [OF this] show ?thesis by (simp add: adapter_sink_def adapter_reads_def)
  qed
qed

subsection \<open>The canvas mirrors the document\<close>

text \<open>The part of a run the invariant speaks about; most handlers leave it alone.\<close>

record Face =
  f_wired :: bool
  f_scheduler :: "Scheduler option"
  f_inbound :: bool
  f_epoch :: nat
  f_awaits :: "(ConnectStage \<times> nat) list"
  f_pendingRemote :: "js_string list"
  f_els :: ymap
  f_canvas :: "js_string \<Rightarrow> LastWord"

definition face :: "run \<Rightarrow> Face" where
  "face r =
     \<lparr>f_wired = ad_wired (fst r), f_scheduler = ad_scheduler (fst r), f_inbound = ad_inbound (fst r),
      f_epoch = ad_epoch (fst r), f_awaits = ad_awaits (fst r), f_pendingRemote = ad_pendingRemote (fst r),
      f_els = els_of r, f_canvas = canvas (snd r)\<rparr>"

lemma face_simps [simp]:
  "f_wired (face r) = ad_wired (fst r)" "f_scheduler (face r) = ad_scheduler (fst r)" "f_inbound (face r) = ad_inbound (fst r)"
  "f_epoch (face r) = ad_epoch (fst r)" "f_awaits (face r) = ad_awaits (fst r)"
  "f_pendingRemote (face r) = ad_pendingRemote (fst r)" "f_els (face r) = els_of r" "f_canvas (face r) = canvas (snd r)"
  by (simp_all add: face_def)

definition connecting_now :: "Face \<Rightarrow> (ConnectStage \<times> nat) list" where
  "connecting_now f = filter (\<lambda>p. snd p = f_epoch f) (f_awaits f)"

definition control_ok :: "Face \<Rightarrow> bool" where
  "control_ok f \<longleftrightarrow>
     (f_wired f \<longleftrightarrow> f_scheduler f \<noteq> None) \<and> (f_wired f \<longrightarrow> f_inbound f) \<and>
     (\<forall>p \<in> set (f_awaits f). snd p \<le> f_epoch f) \<and> length (connecting_now f) \<le> 1 \<and>
     (connecting_now f \<noteq> [] \<longrightarrow> f_inbound f \<and> \<not> f_wired f)"

definition agrees :: "Face \<Rightarrow> Scheduler \<Rightarrow> js_string \<Rightarrow> bool" where
  "agrees f sc i \<longleftrightarrow>
     (case map_of (sc_pending sc) i of
        Some e \<Rightarrow> f_canvas f i = Upserted e
      | None \<Rightarrow> shows_word (f_els f) (f_canvas f i) i)"

definition mirrors :: "(js_string \<Rightarrow> bool) \<Rightarrow> Face \<Rightarrow> bool" where
  "mirrors F f \<longleftrightarrow> els_good F (f_els f) \<and> f_pendingRemote f = [] \<and>
     (\<forall>sc. f_scheduler f = Some sc \<longrightarrow> ad.keyed F (sc_pending sc) \<and> (\<forall>i. agrees f sc i))"

definition mirror_inv :: "(js_string \<Rightarrow> bool) \<Rightarrow> run \<Rightarrow> bool" where
  "mirror_inv F r \<longleftrightarrow> control_ok (face r) \<and> mirrors F (face r)"

lemma mirrors_cong:
  assumes "f_els f = f_els g" "f_canvas f = f_canvas g" "f_scheduler f = f_scheduler g" "f_pendingRemote f = f_pendingRemote g"
  shows "mirrors F f \<longleftrightarrow> mirrors F g"
proof -
  have "agrees f sc i \<longleftrightarrow> agrees g sc i" for sc i
    using assms by (cases "map_of (sc_pending sc) i") (simp_all add: agrees_def)
  then show ?thesis using assms by (simp add: mirrors_def)
qed

lemma mirror_inv_cong: "face r' = face r \<Longrightarrow> mirror_inv F r \<Longrightarrow> mirror_inv F r'"
  by (simp add: mirror_inv_def)

lemma mirrors_queue:
  assumes "diff_ok F (ao_text opts)"
  shows "ad.queue_inv F opts s0 (\<lambda>i. Some (v i)) (sc, r) \<longleftrightarrow> els_good F (els_of r) \<and> ad.keyed F (sc_pending sc) \<and>
    (\<forall>i. case map_of (sc_pending sc) i of Some e \<Rightarrow> v i = Upserted e | None \<Rightarrow> shows_word (els_of r) (v i) i)"
  using assms by (simp add: ad.queue_inv_def ad.settled_word_def adapter_okay_def adapter_reads_def cong: option.case_cong)

subsection \<open>Handlers that leave the face alone\<close>

lemma face_call [simp]: "silent c \<Longrightarrow> face (call c r) = face r"
  by (simp add: face_def els_of_def)

lemma face_tell [simp]: "silent c \<Longrightarrow> face (tell c r) = face r"
  by (simp add: face_def els_of_def)

lemma face_sendSync [simp]: "face (sendSync opts p r) = face r"
  by (simp add: face_def els_of_def)

lemma face_sends [simp]: "face (foldl (\<lambda>r p. sendSync opts p r) r ps) = face r"
  by (simp add: face_def els_of_def)

lemma face_reportUnsaved [simp]: "face (reportUnsaved r) = face r"
  by (simp add: face_def els_of_def)

lemma face_collectOffline [simp]: "face (collectOffline ids r) = face r"
  by (simp add: face_def els_of_def)

lemma face_requestInitialSync [simp]: "face (requestInitialSync opts r) = face r"
  by (simp add: face_def els_of_def)

lemma face_resumeSession [simp]: "face (resumeSession opts r) = face r"
  by (simp add: face_def els_of_def)

lemma face_change:
  assumes "\<And>a. (ad_wired (f a), ad_scheduler (f a), ad_inbound (f a), ad_epoch (f a), ad_awaits (f a), ad_pendingRemote (f a),
      root (ad_doc (f a)) ROOT_ELEMENTS) =
    (ad_wired a, ad_scheduler a, ad_inbound a, ad_epoch a, ad_awaits a, ad_pendingRemote a, root (ad_doc a) ROOT_ELEMENTS)"
  shows "face (change f r) = face r"
  using assms [of "fst r"] by (simp add: face_def els_of_def)

lemma face_refuse [simp]: "face (refuse opts m r) = face r"
  by (simp add: refuse_def Let_def face_change)

lemma face_refuseIfTooOld [simp]: "face (refuseIfTooOld opts r) = face r"
  by (simp add: refuseIfTooOld_def split: option.split)

lemma face_applyRole [simp]: "face (applyRole role r) = face r"
  by (simp add: applyRole_def Let_def face_change)

lemma face_handleProtocolError [simp]: "face (handleProtocolError opts code m r) = face r"
  by (simp add: handleProtocolError_def)

lemma face_handleStatus [simp]: "face (handleStatus opts st r) = face r"
  by (simp add: handleStatus_def Let_def face_change split: TransportStatus.split)

lemma face_publishPeers [simp]: "face (publishPeers n r) = face r"
  by (simp add: publishPeers_def Let_def face_change)

lemma face_local_transaction:
  "face (local_transaction opts d t c r) = (face r)\<lparr>f_els := root d ROOT_ELEMENTS\<rparr>"
  by (simp add: face_def els_of_def fst_local_transaction)

lemma face_uploadAsset [simp]: "face (uploadAsset opts r) = face r"
  by (simp add: uploadAsset_def face_change)

lemma face_upload_continues [simp]: "face (upload_continues opts token asset r) = face r"
proof -
  have "ROOT_ASSETS \<noteq> ROOT_ELEMENTS" by code_simp
  then show ?thesis
    by (auto simp: upload_continues_def Let_def face_change face_local_transaction split: sum.split)
      (simp add: face_def els_of_def)
qed

lemma face_commitChanges:
  "face (commitChanges opts cs r) = (face r)\<lparr>f_els := commit_elements (ao_text opts) cs (f_els (face r))\<rparr>"
proof -
  have "els_of (commitChanges opts cs r) = commit_elements (ao_text opts) cs (els_of r)" by simp
  moreover have "(face (commitChanges opts cs r))\<lparr>f_els := []\<rparr> = (face r)\<lparr>f_els := []\<rparr>"
    by (simp add: commitChanges_def Let_def split_beta face_local_transaction split: option.split)
  ultimately show ?thesis by (simp add: face_def)
qed

subsection \<open>What a replaced and an updated canvas shows\<close>

lemma shown_in_Some: "shown_in vs i = Some w \<Longrightarrow> \<exists>v \<in> set vs. str_field v (u ''id'') = i \<and> w = Upserted (fields_of v)"
  unfolding shown_in_def by (drule map_of_SomeD) auto

lemma shown_in_None: "shown_in vs i = None \<Longrightarrow> v \<in> set vs \<Longrightarrow> str_field v (u ''id'') \<noteq> i"
  unfolding shown_in_def by (force simp: map_of_eq_None_iff)

lemma stored_id:
  assumes "els_good F els" "map_of els i = Some (YMap m)"
  shows "str_field (readElement m) (u ''id'') = i"
  using id_keyedD [of els i m] assms by (auto simp: els_good_def str_field_def field_of_def readElement_def)

lemma shows_stored: "map_of els i = Some (YMap m) \<Longrightarrow> shows_word els (Upserted (fields_of (readElement m))) i"
  by (simp add: shows_word_def fields_of_def readElement_def)

lemma read_elements_set:
  assumes "els_good F (root d ROOT_ELEMENTS)"
  shows "v \<in> set (read_elements d) \<longleftrightarrow> (\<exists>i m. map_of (root d ROOT_ELEMENTS) i = Some (YMap m) \<and> v = readElement m)"
proof -
  have "distinct (map fst (root d ROOT_ELEMENTS))" using assms by (simp add: els_good_def els_okay_def)
  then have "map_of (root d ROOT_ELEMENTS) i = Some (YMap m) \<longleftrightarrow> (i, YMap m) \<in> set (root d ROOT_ELEMENTS)" for i m by simp
  moreover have "m \<in> set (element_maps els) \<longleftrightarrow> (\<exists>i. (i, YMap m) \<in> set els)" for m els
    by (induction els) (auto simp: element_maps_def List.map_filter_simps split: yval.splits)
  moreover have "v \<in> set (read_elements d) \<longleftrightarrow> (\<exists>m \<in> set (element_maps (root d ROOT_ELEMENTS)). v = readElement m)"
    by (auto simp: read_elements_def)
  ultimately show ?thesis by metis
qed

lemma replaced_shows:
  assumes good: "els_good F (root d ROOT_ELEMENTS)"
  shows "shows_word (root d ROOT_ELEMENTS) (view_step (ReplaceDocument (readDocument d)) v i) i"
proof (cases "shown_in (read_elements d) i")
  case None
  have "\<nexists>m. map_of (root d ROOT_ELEMENTS) i = Some (YMap m)"
  proof
    assume "\<exists>m. map_of (root d ROOT_ELEMENTS) i = Some (YMap m)"
    then obtain m where m: "map_of (root d ROOT_ELEMENTS) i = Some (YMap m)" by blast
    then have "readElement m \<in> set (read_elements d)" using read_elements_set [OF good] by blast
    from shown_in_None [OF None this] stored_id [OF good m] show False by simp
  qed
  then have "shows_word (root d ROOT_ELEMENTS) Deleted i" by (auto simp: shows_word_def split: option.split yval.split)
  then show ?thesis using None by (simp add: readDocument_def)
next
  case (Some w)
  from shown_in_Some [OF this] obtain x where x: "x \<in> set (read_elements d)" "str_field x (u ''id'') = i"
    "w = Upserted (fields_of x)" by blast
  from x(1) obtain j m where m: "map_of (root d ROOT_ELEMENTS) j = Some (YMap m)"
    "str_field (readElement m) (u ''id'') = i" "w = Upserted (fields_of (readElement m))"
    using x(2,3) unfolding read_elements_set [OF good] by blast
  then have "j = i" using stored_id [OF good m(1)] by simp
  then show ?thesis using shows_stored [of _ i m] m Some by (simp add: readDocument_def)
qed

lemma lefts_rights: "a \<in> set (lefts xs) \<longleftrightarrow> Inl a \<in> set xs" "b \<in> set (rights xs) \<longleftrightarrow> Inr b \<in> set xs"
  by (induction xs) (auto simp: lefts_def rights_def List.map_filter_simps split: sum.splits)

lemma remote_element_Inl: "remote_element els j = Inl i \<Longrightarrow> i = j \<and> shows_word els Deleted i"
  by (auto simp: remote_element_def shows_word_def split: option.splits yval.splits if_splits)

lemma remote_element_Inr: "remote_element els j = Inr v \<Longrightarrow> \<exists>m. map_of els j = Some (YMap m) \<and> v = readElement m"
  by (auto simp: remote_element_def split: option.splits yval.splits if_splits)

lemma updated_shows:
  assumes good: "els_good F els" and found: "found = map (remote_element els) ids"
  shows "i \<in> set ids \<Longrightarrow> shows_word els (view_step (ApplyRemote (rights found) (lefts found) as) v i) i"
    "i \<notin> set ids \<Longrightarrow> view_step (ApplyRemote (rights found) (lefts found) as) v i = v i"
proof -
  have del: "j \<in> set ids \<and> remote_element els j = Inl j" if "j \<in> set (lefts found)" for j
  proof -
    obtain k where "k \<in> set ids" "remote_element els k = Inl j" using \<open>j \<in> set (lefts found)\<close> unfolding found lefts_rights by auto
    then show ?thesis using remote_element_Inl [of els k j] by simp
  qed
  have up: "\<exists>m. map_of els j = Some (YMap m) \<and> w = Upserted (fields_of (readElement m)) \<and> j \<in> set ids"
    if shown: "shown_in (rights found) j = Some w" for j w
  proof -
    obtain x where x: "x \<in> set (rights found)" "str_field x (u ''id'') = j" "w = Upserted (fields_of x)"
      using shown_in_Some [OF shown] by blast
    then obtain k where "k \<in> set ids" "remote_element els k = Inr x" unfolding found lefts_rights by auto
    with remote_element_Inr obtain m where "map_of els k = Some (YMap m)" "x = readElement m" "k \<in> set ids" by blast
    with stored_id [OF good] x show ?thesis by blast
  qed
  show "i \<notin> set ids \<Longrightarrow> view_step (ApplyRemote (rights found) (lefts found) as) v i = v i"
    using del up by (cases "shown_in (rights found) i") auto
  assume i: "i \<in> set ids"
  show "shows_word els (view_step (ApplyRemote (rights found) (lefts found) as) v i) i"
  proof (cases "remote_element els i")
    case (Inl j)
    then have "i \<in> set (lefts found)" "shows_word els Deleted i"
      using i remote_element_Inl [OF Inl] unfolding found lefts_rights by force+
    then show ?thesis by simp
  next
    case (Inr x)
    then obtain m where m: "map_of els i = Some (YMap m)" "x = readElement m" using remote_element_Inr by blast
    have "x \<in> set (rights found)" using i Inr unfolding found lefts_rights by force
    then have "shown_in (rights found) i \<noteq> None" using shown_in_None stored_id [OF good m(1)] m(2) by blast
    moreover have "i \<notin> set (lefts found)" using del Inr by auto
    ultimately show ?thesis using up shows_stored m(1) by fastforce
  qed
qed

subsection \<open>Every step keeps the invariant\<close>

lemma queue_face:
  "(face (snd (push thr (adapter_sink opts) cs (sc, r))))\<lparr>f_els := []\<rparr> = (face r)\<lparr>f_els := []\<rparr>"
  "(face (snd (flush (adapter_sink opts) (sc, r))))\<lparr>f_els := []\<rparr> = (face r)\<lparr>f_els := []\<rparr>"
  by (rule push_state flush_state; simp add: adapter_sink_def face_commitChanges)+

lemma with_scheduler_mirror:
  assumes T: "diff_ok F (ao_text opts)" and ctl: "control_ok (face r)" and rest: "f_pendingRemote (face r) = []" "els_good F (els_of r)"
    and f: "\<And>sc sc' r'. ad_scheduler (fst r) = Some sc \<Longrightarrow> f (sc, r) = (sc', r') \<Longrightarrow>
      (face r')\<lparr>f_els := []\<rparr> = (face r)\<lparr>f_els := []\<rparr> \<and> ad.queue_inv F opts s0 (\<lambda>i. Some (canvas (snd r) i)) (sc', r')"
  shows "mirror_inv F (with_scheduler f r) \<and>
    (face (with_scheduler f r))\<lparr>f_els := [], f_scheduler := None\<rparr> = (face r)\<lparr>f_els := [], f_scheduler := None\<rparr>"
proof (cases "ad_scheduler (fst r)")
  case None
  then show ?thesis using ctl rest by (simp add: with_scheduler_def mirror_inv_def mirrors_def)
next
  case (Some sc)
  obtain sc' r' where q: "f (sc, r) = (sc', r')" by (cases "f (sc, r)")
  note g = f [OF Some q]
  have w: "face (with_scheduler f r) = (face r')\<lparr>f_scheduler := Some sc'\<rparr>"
    using Some q by (simp add: with_scheduler_def face_def els_of_def)
  have eq: "ad_wired (fst r') = ad_wired (fst r)" "ad_inbound (fst r') = ad_inbound (fst r)" "ad_epoch (fst r') = ad_epoch (fst r)"
    "ad_awaits (fst r') = ad_awaits (fst r)" "ad_pendingRemote (fst r') = ad_pendingRemote (fst r)"
    "canvas (snd r') = canvas (snd r)"
    using g by (auto simp: face_def)
  have "control_ok (face (with_scheduler f r))"
    using ctl Some unfolding w control_ok_def connecting_now_def by (auto simp: eq)
  moreover have "agrees (face (with_scheduler f r)) sc' i" for i
    using g unfolding w mirrors_queue [OF T] by (simp add: eq agrees_def cong: option.case_cong)
  then have "mirrors F (face (with_scheduler f r))"
    using g rest unfolding mirrors_def mirrors_queue [OF T] by (auto simp: w eq)
  moreover have "(face (with_scheduler f r))\<lparr>f_els := [], f_scheduler := None\<rparr> = (face r)\<lparr>f_els := [], f_scheduler := None\<rparr>"
    using g unfolding w by (simp add: face_def)
  ultimately show ?thesis by (simp add: mirror_inv_def)
qed

lemma mirror_queue:
  assumes "diff_ok F (ao_text opts)" "mirror_inv F r" "ad_scheduler (fst r) = Some sc"
  shows "ad.queue_inv F opts s0 (\<lambda>i. Some (canvas (snd r) i)) (sc, r)"
  using assms unfolding mirrors_queue [OF assms(1)] by (simp add: mirror_inv_def mirrors_def agrees_def cong: option.case_cong)

lemma flush_mirror:
  assumes T: "diff_ok F (ao_text opts)" and inv: "mirror_inv F r"
  shows "mirror_inv F (with_scheduler (flush (adapter_sink opts)) r) \<and>
    (face (with_scheduler (flush (adapter_sink opts)) r))\<lparr>f_els := [], f_scheduler := None\<rparr> =
      (face r)\<lparr>f_els := [], f_scheduler := None\<rparr>"
proof (rule with_scheduler_mirror [OF T])
  show "control_ok (face r)" "f_pendingRemote (face r) = []" "els_good F (els_of r)"
    using inv by (simp_all add: mirror_inv_def mirrors_def)
  fix sc sc' r' assume a: "ad_scheduler (fst r) = Some sc" "flush (adapter_sink opts) (sc, r) = (sc', r')"
  have "(face r')\<lparr>f_els := []\<rparr> = (face r)\<lparr>f_els := []\<rparr>" using queue_face(2) [of opts sc r] a(2) by simp
  then show "(face r')\<lparr>f_els := []\<rparr> = (face r)\<lparr>f_els := []\<rparr> \<and> ad.queue_inv F opts r (\<lambda>i. Some (canvas (snd r) i)) (sc', r')"
    using ad.flush_inv(1) [OF mirror_queue [OF T inv a(1)] a(2)] by blast
qed

text \<open>
  Events of a quiet run: elements the canvas emits are well formed, remote changes and undos name every element
  they change, leave a well-formed document, and do not meet an element that waits in the queue. Well formed: an
  object without a repeated key, stored under the id it carries, its texts in the family \<open>F\<close>.
\<close>

definition quiet_change :: "(js_string \<Rightarrow> bool) \<Rightarrow> ydoc \<Rightarrow> js_string list \<Rightarrow> run \<Rightarrow> bool" where
  "quiet_change F d' ids r \<longleftrightarrow>
     els_good F (root d' ROOT_ELEMENTS) \<and>
     (\<forall>i. i \<notin> set ids \<longrightarrow> map_of (root d' ROOT_ELEMENTS) i = map_of (els_of r) i) \<and>
     (\<forall>sc. ad_scheduler (fst r) = Some sc \<longrightarrow> set ids \<inter> fst ` set (sc_pending sc) = {})"

definition quiet_event :: "(js_string \<Rightarrow> bool) \<Rightarrow> AdapterOptions \<Rightarrow> AdapterEvent \<Rightarrow> run \<Rightarrow> bool" where
  "quiet_event F opts ev r =
     (case ev of
        Emit cs \<Rightarrow> list_all (good_element F) (cs_upserted cs)
      | Message data \<Rightarrow> (case decodeMessage (ao_codec opts) data of
            Inr (Some (SYNC p)) \<Rightarrow> (case y_read (ao_yjs opts) p (ad_doc (fst r)) of
                Some (d', ids, replies) \<Rightarrow> quiet_change F d' ids r
              | None \<Rightarrow> True)
          | _ \<Rightarrow> True)
      | UndoRedo d' ids \<Rightarrow> quiet_change F d' ids r
      | StoreLoads d \<Rightarrow> els_good F (root d ROOT_ELEMENTS)
      | _ \<Rightarrow> True)"

fun quiet_run :: "(js_string \<Rightarrow> bool) \<Rightarrow> AdapterOptions \<Rightarrow> AdapterEvent list \<Rightarrow> run \<Rightarrow> bool" where
  "quiet_run F opts [] r \<longleftrightarrow> True"
| "quiet_run F opts (ev # evs) r \<longleftrightarrow> quiet_event F opts ev r \<and> quiet_run F opts evs (adapter_step opts ev r)"

text \<open>A change that is collected and flushed.\<close>

lemma delivered_mirror:
  assumes inv: "mirror_inv F r" and q: "quiet_change F d' ids r" and wired: "ad_wired (fst r)"
    and r1: "face r1 = (face r)\<lparr>f_els := root d' ROOT_ELEMENTS, f_pendingRemote := add_ids ids []\<rparr>"
  shows "mirror_inv F (flushRemote r1)"
proof -
  have ctl: "control_ok (face r)" and m: "mirrors F (face r)" using inv by (simp_all add: mirror_inv_def)
  let ?els = "root d' ROOT_ELEMENTS"
  have good: "els_good F ?els" and same: "\<And>i. i \<notin> set ids \<Longrightarrow> map_of ?els i = map_of (els_of r) i"
    using q by (simp_all add: quiet_change_def)
  have eqs: "ad_inbound (fst r1)" "els_of r1 = ?els" "ad_pendingRemote (fst r1) = add_ids ids []"
    "ad_scheduler (fst r1) = ad_scheduler (fst r)" "canvas (snd r1) = canvas (snd r)"
    using r1 ctl wired by (simp_all add: face_def control_ok_def)
  obtain v where v: "face (flushRemote r1) = (face r)\<lparr>f_els := ?els, f_pendingRemote := [], f_canvas := v\<rparr>"
    "\<And>i. i \<in> set ids \<Longrightarrow> shows_word ?els (v i) i" "\<And>i. i \<notin> set ids \<Longrightarrow> v i = canvas (snd r) i"
  proof (cases "ad_pendingRemote (fst r1) = []")
    case True
    then have "set ids = {}" using eqs(3) set_add_ids [of ids "[]"] by simp
    moreover have "face (flushRemote r1) = (face r)\<lparr>f_els := ?els, f_pendingRemote := [], f_canvas := canvas (snd r)\<rparr>"
      using True eqs(3) r1 by (simp add: flushRemote_def)
    ultimately show ?thesis using that by simp
  next
    case False
    let ?found = "map (remote_element ?els) (add_ids ids [])"
    let ?v = "view_step (ApplyRemote (rights ?found) (lefts ?found) (assetsOf (ad_doc (fst r1)) (rights ?found))) (canvas (snd r))"
    have d: "root (ad_doc (fst r1)) ROOT_ELEMENTS = ?els" using eqs(2) by (simp add: els_of_def)
    have "canvas (snd (flushRemote r1)) = ?v"
      using False eqs(1,3,5) d by (simp add: flushRemote_def Let_def call_simps(2) canvas_snoc)
    moreover have "face (flushRemote r1) = (face r1)\<lparr>f_pendingRemote := [], f_canvas := canvas (snd (flushRemote r1))\<rparr>"
      using False eqs(1) by (simp add: flushRemote_def Let_def face_def els_of_def)
    ultimately have "face (flushRemote r1) = (face r)\<lparr>f_els := ?els, f_pendingRemote := [], f_canvas := ?v\<rparr>"
      using r1 by simp
    then show ?thesis using that [of ?v] updated_shows [OF good refl] by simp
  qed
  have agree: "agrees ((face r)\<lparr>f_els := ?els, f_pendingRemote := [], f_canvas := v\<rparr>) sc i"
    if sc: "ad_scheduler (fst r) = Some sc" for sc i
  proof (cases "i \<in> set ids")
    case True
    then have "map_of (sc_pending sc) i = None" using q sc by (auto simp: quiet_change_def map_of_eq_None_iff)
    then show ?thesis using v(2) [OF True] by (simp add: agrees_def)
  next
    case False
    have "agrees (face r) sc i" using m sc by (simp add: mirrors_def)
    then show ?thesis using v(3) [OF False] shows_word_cong [OF same [OF False]]
      by (cases "map_of (sc_pending sc) i") (simp_all add: agrees_def)
  qed
  have "mirrors F (face (flushRemote r1))" unfolding v(1) using m good agree by (simp add: mirrors_def)
  moreover have "control_ok (face (flushRemote r1))" unfolding v(1) using ctl by (auto simp: control_ok_def connecting_now_def)
  ultimately show ?thesis by (simp add: mirror_inv_def)
qed

lemma emit_mirror:
  assumes T: "diff_ok F (ao_text opts)" and inv: "mirror_inv F r" and cs: "list_all (good_element F) (cs_upserted cs)"
  shows "mirror_inv F (emitElementChanges opts cs r)"
proof (cases "isEmittableOrigin (cs_origin cs) \<and> ad_inbound (fst r)")
  case False
  then show ?thesis by (intro mirror_inv_cong [OF _ inv]) (auto simp: emitElementChanges_def)
next
  case True
  let ?r = "tell (SetSave Sv_saving) (call (Emitted cs) r)"
  have c: "canvas (snd ?r) = view_step (Emitted cs) (canvas (snd r))" by (simp add: call_simps(2) canvas_snoc)
  have f: "face ?r = (face r)\<lparr>f_canvas := canvas (snd ?r)\<rparr>" by (simp add: face_def els_of_def)
  have e: "els_of ?r = els_of r" by (simp add: els_of_def)
  have "mirror_inv F (with_scheduler (push (ao_throttle opts) (adapter_sink opts) cs) ?r)"
  proof (rule conjunct1 [OF with_scheduler_mirror [OF T]])
    show "control_ok (face ?r)" "f_pendingRemote (face ?r) = []" "els_good F (els_of ?r)"
      using inv unfolding f by (auto simp: mirror_inv_def mirrors_def control_ok_def connecting_now_def e)
    fix sc sc' r' assume sc: "ad_scheduler (fst ?r) = Some sc"
      and p: "push (ao_throttle opts) (adapter_sink opts) cs (sc, ?r) = (sc', r')"
    have "ad.queue_inv F opts r (\<lambda>i. Some (canvas (snd r) i)) (sc, r)" using mirror_queue [OF T inv] sc by simp
    then have "ad.queue_inv F opts r (\<lambda>i. Some (canvas (snd r) i)) (sc, ?r)" unfolding mirrors_queue [OF T] e .
    from ad.push_inv [OF this cs, of "ao_throttle opts"]
    have "ad.queue_inv F opts r (ad.said_after (\<lambda>i. Some (canvas (snd r) i)) cs) (sc', r')" by (simp only: p)
    moreover have "ad.said_after (\<lambda>i. Some (canvas (snd r) i)) cs = (\<lambda>i. Some (canvas (snd ?r) i))"
      unfolding c by (rule ext) (simp add: ad.said_after_def split: option.split)
    moreover have "(face r')\<lparr>f_els := []\<rparr> = (face ?r)\<lparr>f_els := []\<rparr>"
      using queue_face(1) [of "ao_throttle opts" opts cs sc ?r] by (simp only: p snd_conv)
    ultimately show "(face r')\<lparr>f_els := []\<rparr> = (face ?r)\<lparr>f_els := []\<rparr> \<and>
        ad.queue_inv F opts r (\<lambda>i. Some (canvas (snd ?r) i)) (sc', r')" by simp
  qed
  then show ?thesis using True by (simp add: emitElementChanges_def)
qed

lemma timer_mirror:
  assumes T: "diff_ok F (ao_text opts)" and inv: "mirror_inv F r"
  shows "mirror_inv F (with_scheduler (queue_step (ao_throttle opts) (adapter_sink opts) Fire) r)"
proof (cases "ad_scheduler (fst r)")
  case None
  then show ?thesis using inv by (simp add: with_scheduler_def)
next
  case (Some sc)
  show ?thesis
  proof (cases "sc_timer sc = None")
    case True
    have "face (change (\<lambda>a. a\<lparr>ad_scheduler := Some sc\<rparr>) r) = face r" using Some by (simp add: face_def els_of_def)
    then show ?thesis using mirror_inv_cong inv Some True by (simp add: with_scheduler_def queue_step_def)
  next
    case False
    then have "with_scheduler (queue_step (ao_throttle opts) (adapter_sink opts) Fire) r = with_scheduler (flush (adapter_sink opts)) r"
      using Some by (auto simp: with_scheduler_def queue_step_def)
    then show ?thesis using flush_mirror [OF T inv] by simp
  qed
qed

lemma no_old_await: "control_ok f \<Longrightarrow> filter (\<lambda>p. snd p = Suc (f_epoch f)) (f_awaits f) = []"
  by (force simp: control_ok_def filter_empty_conv)

lemma disconnect_mirror:
  assumes T: "diff_ok F (ao_text opts)" and inv: "mirror_inv F r"
  shows "mirror_inv F (adapter_disconnect opts r)"
proof -
  let ?r1 = "change (\<lambda>a. a\<lparr>ad_epoch := Suc (ad_epoch a)\<rparr>) r"
  have ctl: "control_ok (face r)" and m: "mirrors F (face r)" using inv by (simp_all add: mirror_inv_def)
  have f1: "face ?r1 = (face r)\<lparr>f_epoch := Suc (f_epoch (face r))\<rparr>" by (simp add: face_def els_of_def)
  have none: "connecting_now (face ?r1) = []" using no_old_await [OF ctl] by (simp add: f1 connecting_now_def)
  then have "control_ok (face ?r1)" using ctl by (auto simp: f1 control_ok_def le_SucI)
  moreover have "mirrors F (face ?r1)" using m mirrors_cong [of "face ?r1" "face r"] by (simp add: f1)
  ultimately have "mirror_inv F ?r1" by (simp add: mirror_inv_def)
  note r2 = flush_mirror [OF T this]
  define r2 where "r2 = with_scheduler (flush (adapter_sink opts)) ?r1"
  have f2: "mirror_inv F r2" "f_awaits (face r2) = f_awaits (face ?r1)" "f_epoch (face r2) = f_epoch (face ?r1)"
    using flush_mirror [OF T \<open>mirror_inv F ?r1\<close>] unfolding r2_def [symmetric] by (simp_all add: face_def)
  have "face (adapter_disconnect opts r) =
      (face r2)\<lparr>f_scheduler := None, f_wired := False, f_pendingRemote := [], f_inbound := False\<rparr>"
    unfolding adapter_disconnect_def EmitLocal.dispose_def [abs_def] Let_def r2_def [symmetric]
    by (simp add: face_def els_of_def)
  then show ?thesis using f2 none
    by (simp add: mirror_inv_def control_ok_def mirrors_def connecting_now_def)
qed

lemma connect_started_face:
  "face (connect_started opts r) = (face r)\<lparr>f_awaits := (AwaitTransport, f_epoch (face r)) # f_awaits (face r)\<rparr>"
  by (simp add: connect_started_def Let_def face_def els_of_def)

lemma started_mirror:
  assumes "mirror_inv F r" "connecting_now (face r) = []" "ad_inbound (fst r)" "\<not> ad_wired (fst r)"
    "face r' = (face r)\<lparr>f_awaits := (stage, f_epoch (face r)) # f_awaits (face r)\<rparr>"
  shows "mirror_inv F r'"
proof -
  have "control_ok (face r')" using assms by (auto simp: mirror_inv_def control_ok_def connecting_now_def)
  moreover have "mirrors F (face r')" using assms(1) mirrors_cong [of "face r'" "face r"] by (simp add: assms(5) mirror_inv_def)
  ultimately show ?thesis by (simp add: mirror_inv_def)
qed

lemma connect_mirror:
  assumes inv: "mirror_inv F r"
  shows "mirror_inv F (adapter_connect opts r)"
proof (cases "ad_inbound (fst r)")
  case True
  then show ?thesis by (intro mirror_inv_cong [OF _ inv]) (simp add: adapter_connect_def)
next
  case False
  let ?r = "tell (SetConnection Cn_connecting) (change (\<lambda>a. a\<lparr>ad_epoch := Suc (ad_epoch a), ad_inbound := True,
      ad_offlineTouched := [], ad_linkUp := \<not> statusChannel opts\<rparr>) r)"
  have ctl: "control_ok (face r)" and m: "mirrors F (face r)" using inv by (simp_all add: mirror_inv_def)
  have f: "face ?r = (face r)\<lparr>f_epoch := Suc (f_epoch (face r)), f_inbound := True\<rparr>" by (simp add: face_def els_of_def)
  have none: "connecting_now (face ?r) = []" using no_old_await [OF ctl] by (simp add: f connecting_now_def)
  have unwired: "\<not> ad_wired (fst ?r)" using ctl False by (auto simp: control_ok_def)
  have "control_ok (face ?r)" using ctl none by (auto simp: f control_ok_def le_SucI)
  moreover have "mirrors F (face ?r)" using m mirrors_cong [of "face ?r" "face r"] by (simp add: f)
  ultimately have i: "mirror_inv F ?r" by (simp add: mirror_inv_def)
  have "\<exists>stage. face (adapter_connect opts r) = (face ?r)\<lparr>f_awaits := (stage, f_epoch (face ?r)) # f_awaits (face ?r)\<rparr>"
  proof (cases "ao_localStore opts")
    case True
    then show ?thesis using False by (intro exI [of _ AwaitStore]) (simp add: adapter_connect_def Let_def face_def els_of_def)
  next
    case no_store: False
    then have "adapter_connect opts r = connect_started opts ?r" using False by (simp add: adapter_connect_def Let_def)
    then show ?thesis using connect_started_face by (intro exI [of _ AwaitTransport]) simp
  qed
  then obtain stage where
    s: "face (adapter_connect opts r) = (face ?r)\<lparr>f_awaits := (stage, f_epoch (face ?r)) # f_awaits (face ?r)\<rparr>" by blast
  show ?thesis by (rule started_mirror [OF i none _ unwired s]) simp
qed

lemma finish_mirror:
  assumes good: "els_good F (els_of r)" and inb: "ad_inbound (fst r)" and none: "connecting_now (face r) = []"
    and old: "\<forall>p \<in> set (ad_awaits (fst r)). snd p \<le> ad_epoch (fst r)" and pend: "ad_pendingRemote (fst r) = []"
  shows "mirror_inv F (connect_finish opts r)"
proof -
  let ?d = "ad_doc (fst r)"
  let ?r = "refuseIfTooOld opts (requestInitialSync opts (change (\<lambda>a. a\<lparr>ad_scheduler := Some new_scheduler, ad_wired := True\<rparr>) r))"
  have doc: "ad_doc (fst ?r) = ?d" by (simp add: refuseIfTooOld_def refuse_def Let_def split: option.split)
  have f: "face ?r = (face r)\<lparr>f_scheduler := Some new_scheduler, f_wired := True\<rparr>" by simp (simp add: face_def els_of_def)
  then have i: "ad_inbound (fst ?r)" using inb by (metis Face.select_convs(3) Face.update_convs(1,2) Face.surjective face_simps(3))
  let ?v = "view_step (ReplaceDocument (readDocument ?d)) (canvas (snd r))"
  have "face (connect_finish opts r) = (face (tell (ReplaceDocument (readDocument ?d)) ?r))"
    unfolding connect_finish_def Let_def doc by (auto simp: face_change)
  also have "\<dots> = (face ?r)\<lparr>f_canvas := ?v\<rparr>"
    using i f by (simp add: face_def els_of_def tell_simps(2) canvas_snoc)
  finally have face: "face (connect_finish opts r) =
      (face r)\<lparr>f_scheduler := Some new_scheduler, f_wired := True, f_canvas := ?v\<rparr>" unfolding f by simp
  have "agrees (face (connect_finish opts r)) new_scheduler j" for j
    using replaced_shows [of F ?d "canvas (snd r)" j] good unfolding face
    by (simp add: agrees_def new_scheduler_def els_of_def del: view_step.simps)
  then have "mirrors F (face (connect_finish opts r))"
    using good pend unfolding mirrors_def by (auto simp: face new_scheduler_def ad.keyed_def)
  moreover have "control_ok (face (connect_finish opts r))"
    using inb none old by (simp add: face control_ok_def connecting_now_def)
  ultimately show ?thesis by (simp add: mirror_inv_def)
qed

lemma continue_mirror:
  assumes inv: "mirror_inv F r"
  shows "mirror_inv F (connect_continues opts stage token r)"
proof (cases "(stage, token) \<in> set (ad_awaits (fst r))")
  case False
  then show ?thesis using inv by (simp add: connect_continues_def)
next
  case True
  let ?r = "change (\<lambda>a. a\<lparr>ad_awaits := remove1 (stage, token) (ad_awaits a)\<rparr>) r"
  have ctl: "control_ok (face r)" and m: "mirrors F (face r)" using inv by (simp_all add: mirror_inv_def)
  have f: "face ?r = (face r)\<lparr>f_awaits := remove1 (stage, token) (f_awaits (face r))\<rparr>" by (simp add: face_def els_of_def)
  have now: "connecting_now (face ?r) = remove1 (stage, token) (connecting_now (face r))"
    unfolding f by (simp add: connecting_now_def filter_remove1)
  have "control_ok (face ?r)" using ctl notin_set_remove1 unfolding control_ok_def now
    by (auto simp: f length_remove1 dest: notin_set_remove1 split: if_splits)
  moreover have "mirrors F (face ?r)" using m mirrors_cong [of "face ?r" "face r"] by (simp add: f)
  ultimately have i: "mirror_inv F ?r" by (simp add: mirror_inv_def)
  show ?thesis
  proof (cases "ad_epoch (fst r) = token")
    case other: False
    then show ?thesis using i True mirror_inv_cong [OF _ i] by (simp add: connect_continues_def)
  next
    case same: True
    then have "(stage, token) \<in> set (connecting_now (face r))" using True by (simp add: connecting_now_def)
    moreover have "length (connecting_now (face r)) \<le> 1" using ctl by (simp add: control_ok_def)
    ultimately have c: "connecting_now (face r) = [(stage, token)]" by (cases "connecting_now (face r)") auto
    then have none: "connecting_now (face ?r) = []" unfolding now by simp
    have a: "ad_inbound (fst ?r)" "\<not> ad_wired (fst ?r)" using ctl c by (auto simp: control_ok_def)
    have "mirror_inv F (connect_started opts ?r)" by (rule started_mirror [OF i none a connect_started_face])
    moreover have "mirror_inv F (connect_finish opts ?r)"
      using i by (intro finish_mirror [OF _ a(1) none]) (simp_all add: mirror_inv_def mirrors_def control_ok_def)
    ultimately show ?thesis using True same by (cases stage) (simp_all add: connect_continues_def Let_def)
  qed
qed

lemma message_mirror:
  assumes inv: "mirror_inv F r" and wired: "ad_wired (fst r)" and q: "quiet_event F opts (Message data) r"
  shows "mirror_inv F (handleMessage opts data r)"
proof -
  have pend: "ad_pendingRemote (fst r) = []" using inv by (simp add: mirror_inv_def mirrors_def)
  have sync: "mirror_inv F (handleSync opts p r)"
    if d: "decodeMessage (ao_codec opts) data = Inr (Some (SYNC p))" for p
  proof (cases "y_read (ao_yjs opts) p (ad_doc (fst r))")
    case None
    then show ?thesis using mirror_inv_cong [OF _ inv] by (simp add: handleSync_def)
  next
    case (Some out)
    obtain d' ids replies where out: "out = (d', ids, replies)" by (cases out)
    let ?r1 = "collectRemote ids (change (\<lambda>a. a\<lparr>ad_doc := d'\<rparr>) r)"
    let ?r2 = "foldl (\<lambda>r reply. sendSync opts reply r) ?r1 replies"
    have "quiet_change F d' ids r" using q d Some out by (simp add: quiet_event_def)
    moreover have "face ?r1 = (face r)\<lparr>f_els := root d' ROOT_ELEMENTS, f_pendingRemote := add_ids ids []\<rparr>"
      using pend by (simp add: collectRemote_def face_def els_of_def)
    ultimately have "mirror_inv F (flushRemote ?r2)" by (intro delivered_mirror [OF inv _ wired]) simp_all
    then show ?thesis using Some out mirror_inv_cong by (simp add: handleSync_def Let_def)
  qed
  show ?thesis
    using sync mirror_inv_cong [OF _ inv]
    by (auto simp: handleMessage_def split: sum.split option.split HbMessage.split)
qed

lemma undo_mirror:
  assumes inv: "mirror_inv F r" and q: "quiet_change F d' ids r"
  shows "mirror_inv F (undo_applied opts d' ids r)"
proof (cases "ad_wired (fst r)")
  case True
  have pend: "ad_pendingRemote (fst r) = []" using inv by (simp add: mirror_inv_def mirrors_def)
  have "face (collectRemote ids (local_transaction opts d' ids c r)) =
      (face r)\<lparr>f_els := root d' ROOT_ELEMENTS, f_pendingRemote := add_ids ids []\<rparr>" for c
    using face_local_transaction [of opts d' ids c r] pend
    by (simp add: collectRemote_def face_def els_of_def fst_local_transaction)
  then show ?thesis using delivered_mirror [OF inv q True] True by (simp add: undo_applied_def)
qed (use inv in \<open>simp add: undo_applied_def\<close>)

lemma loads_mirror:
  assumes inv: "mirror_inv F r" and d: "els_good F (root d ROOT_ELEMENTS)" and unwired: "\<not> ad_wired (fst r)"
  shows "mirror_inv F (change (\<lambda>a. a\<lparr>ad_doc := d\<rparr>) r)"
proof -
  have "face (change (\<lambda>a. a\<lparr>ad_doc := d\<rparr>) r) = (face r)\<lparr>f_els := root d ROOT_ELEMENTS\<rparr>" by (simp add: face_def els_of_def)
  then show ?thesis using inv d unwired by (simp add: mirror_inv_def mirrors_def control_ok_def connecting_now_def)
qed

lemma adapter_step_mirror:
  assumes T: "diff_ok F (ao_text opts)" and inv: "mirror_inv F r" and q: "quiet_event F opts ev r"
  shows "mirror_inv F (adapter_step opts ev r)"
proof (cases ev)
  case (StoreLoads d)
  then show ?thesis using inv q loads_mirror [OF inv] by (simp add: adapter_step_def quiet_event_def)
next
  case (Emit cs)
  then show ?thesis using q emit_mirror [OF T inv] by (simp add: adapter_step_def quiet_event_def)
next
  case (UndoRedo d ids)
  then show ?thesis using q undo_mirror [OF inv] by (simp add: adapter_step_def quiet_event_def)
next
  case (Message data)
  then show ?thesis using q inv message_mirror [OF inv] by (simp add: adapter_step_def)
qed (use inv connect_mirror continue_mirror disconnect_mirror [OF T] timer_mirror [OF T] mirror_inv_cong [OF _ inv]
     in \<open>simp_all add: adapter_step_def\<close>)

lemma adapter_run_mirror:
  assumes "diff_ok F (ao_text opts)"
  shows "mirror_inv F r \<Longrightarrow> quiet_run F opts evs r \<Longrightarrow> mirror_inv F (adapter_run opts evs r)"
  by (induction evs arbitrary: r) (simp_all add: adapter_run_def adapter_step_mirror [OF assms])

lemma new_adapter_mirror: "els_good F (root d ROOT_ELEMENTS) \<Longrightarrow> mirror_inv F (new_adapter opts d, calls)"
  by (simp add: mirror_inv_def control_ok_def mirrors_def connecting_now_def new_adapter_def els_of_def)

end
