(* ===== verification/AdapterProperties.thy ===== *)
theory AdapterProperties
  imports AdapterMirror
begin

text \<open>
  The properties of the adapter: the canvas mirrors the document, and the two situations in which what the user is
  shown is not what the adapter has.
\<close>

subsection \<open>The canvas shows the document\<close>

text \<open>
  C30. In every run of the adapter (connects and disconnects at any moment, edits, undo, the queue's timer, messages,
  status changes of the transport, uploads) in which a remote change or an undo names the elements it changes
  and none of them waits in the queue: as long as the adapter has a queue no remote change is held back,
  and the canvas shows for every element the queued edit if there is one, and what the document holds otherwise.
  Elements are well formed wherever they come from (the canvas, a message, the local store, an undo): objects
  without a repeated key, under the id they carry, and with texts of a family \<open>F\<close> of which no two are edited
  inside a surrogate pair; a text outside such a family is C28.
\<close>

theorem canvas_mirrors_document:
  assumes "ytext_ok (ao_text opts)" "whole_family F" "els_good F (root d ROOT_ELEMENTS)" "quiet_run F opts evs (new_adapter opts d, [])"
    "adapter_run opts evs (new_adapter opts d, []) = (a, calls)" "ad_scheduler a = Some sc"
  shows "ad_pendingRemote a = [] \<and>
    (case map_of (sc_pending sc) i of
       Some e \<Rightarrow> canvas calls i = Upserted e
     | None \<Rightarrow> shows_word (root (ad_doc a) ROOT_ELEMENTS) (canvas calls i) i)"
proof -
  have "mirror_inv F (a, calls)"
    using adapter_run_mirror [OF _ new_adapter_mirror [OF assms(3)] assms(4)] assms(1,2,5) by (simp add: diff_ok_def)
  then show ?thesis using assms(6)
    by (simp add: mirror_inv_def mirrors_def agrees_def els_of_def cong: option.case_cong)
qed

text \<open>A board without a server: connecting, a move that waits in the queue, and an undo that brings another element.\<close>

definition null_net :: YNet where
  "null_net = \<lparr>y_read = (\<lambda>p d. None), y_step1 = (\<lambda>d. []), y_step2 = (\<lambda>d. []), y_update = (\<lambda>d d'. [])\<rparr>"

definition local_options :: AdapterOptions where
  "local_options =
     \<lparr>ao_transport = False, ao_onStatus = False, ao_localStore = False, ao_assets = False, ao_supported = 1,
      ao_permissions = READ_ONLY_PERMISSIONS, ao_throttle = HB_THROTTLE, ao_tooOldMessage = [], ao_text = list_text,
      ao_parse = Some, ao_codec = leb, ao_yjs = null_net\<rparr>"

definition moving :: "int \<Rightarrow> ElementChangeSet" where
  "moving x = \<lparr>cs_upserted = [moved x], cs_deleted = [], cs_assets = [], cs_origin = LocalUser, cs_gesture = Some ''drag''\<rparr>"

definition restored_doc :: ydoc where
  "restored_doc = set_root ROOT_ELEMENTS
     (root sample_doc ROOT_ELEMENTS @ [(u ''e2'', YMap [(u ''id'', YPlain (JSStr (u ''e2'')))])]) sample_doc"

definition local_events :: "AdapterEvent list" where
  "local_events = [Connect, Continue AwaitTransport 1, Emit (moving 1), UndoRedo restored_doc [u ''e2'']]"

theorem canvas_mirrors_document_witness:
  "\<exists>a calls sc. adapter_run local_options local_events (new_adapter local_options sample_doc, []) = (a, calls) \<and>
     ad_scheduler a = Some sc \<and> sc_pending sc = [(u ''e1'', moved 1)] \<and> canvas calls (u ''e1'') = Upserted (moved 1) \<and>
     shows_word (root (ad_doc a) ROOT_ELEMENTS) (canvas calls (u ''e2'')) (u ''e2'')"
proof -
  let ?r0 = "(new_adapter local_options sample_doc, [])"
  let ?sc = "\<lparr>sc_pending = [(u ''e1'', moved 1)], sc_gesture = Some ''drag'', sc_origin = LocalUser, sc_mode = GestureMode, sc_timer = Some 50\<rparr>"
  obtain a calls where r: "adapter_run local_options local_events ?r0 = (a, calls)" by fastforce
  have "ad_scheduler (fst (adapter_run local_options local_events ?r0)) = Some ?sc" by code_simp
  then have sc: "ad_scheduler a = Some ?sc" using r by simp
  have T: "ytext_ok (ao_text local_options)" by (simp add: local_options_def list_text_ok)
  have els: "root sample_doc ROOT_ELEMENTS = [(u ''e1'', YMap [(u ''id'', YPlain (JSStr (u ''e1''))), (u ''x'', YPlain (JSNum 0))])]"
    by (simp add: sample_doc_def)
  have good: "els_good plane0 (root sample_doc ROOT_ELEMENTS)" "els_good plane0 (root restored_doc ROOT_ELEMENTS)"
    by (simp_all add: els restored_doc_def els_good_def els_okay_def id_keyed_def readElement_def field_of_def u_def)
  let ?r3 = "adapter_run local_options (take 3 local_events) ?r0"
  have r3: "root (ad_doc (fst ?r3)) ROOT_ELEMENTS = root sample_doc ROOT_ELEMENTS" "ad_scheduler (fst ?r3) = Some ?sc"
    by code_simp+
  have "quiet_change plane0 restored_doc [u ''e2''] ?r3"
    unfolding quiet_change_def els_of_def r3
    using good(2) by (auto simp: restored_doc_def u_def map_add_def split: option.split)
  moreover have "list_all (good_element plane0) (cs_upserted (moving 1))"
    by (simp add: moving_def good_element_def valid_element_def moved_def u_def plane0_def high_surrogate_def)
  ultimately have q: "quiet_run plane0 local_options local_events ?r0"
    by (simp add: local_events_def quiet_event_def adapter_run_def)
  note c = canvas_mirrors_document [OF T whole_family_plane0 good(1) q r sc]
  show ?thesis using r sc c [of "u ''e1''"] c [of "u ''e2''"] by (simp add: u_def)
qed

subsection \<open>A remote change for an element that waits in the queue\<close>

lemma timer_flush:
  assumes "ad_scheduler (fst r) = Some sc" "sc_timer sc \<noteq> None" "ad.keyed F (sc_pending sc)" "adapter_okay F opts r"
    "map_of (sc_pending sc) i = Some e"
  shows "\<exists>sc'. ad_scheduler (fst (adapter_step opts QueueTimer r)) = Some sc' \<and> sc_pending sc' = []"
    "shows_word (els_of (adapter_step opts QueueTimer r)) (Upserted e) i"
    "canvas (snd (adapter_step opts QueueTimer r)) = canvas (snd r)"
    "ad_pendingRemote (fst (adapter_step opts QueueTimer r)) = ad_pendingRemote (fst r)"
proof -
  obtain sc' r' where f: "flush (adapter_sink opts) (sc, r) = (sc', r')" by (cases "flush (adapter_sink opts) (sc, r)")
  have step: "adapter_step opts QueueTimer r = change (\<lambda>a. a\<lparr>ad_scheduler := Some sc'\<rparr>) r'"
    using assms(1,2) f by (auto simp: adapter_step_def with_scheduler_def queue_step_def)
  have "sc_pending sc' = []" using f by (auto simp: flush_def split: if_splits)
  then show "\<exists>sc'. ad_scheduler (fst (adapter_step opts QueueTimer r)) = Some sc' \<and> sc_pending sc' = []" unfolding step by simp
  show "shows_word (els_of (adapter_step opts QueueTimer r)) (Upserted e) i"
    using ad.flush_reads [OF assms(4,3,5)] f unfolding step by (simp add: adapter_reads_def els_of_def)
  have "(face r')\<lparr>f_els := []\<rparr> = (face r)\<lparr>f_els := []\<rparr>" using queue_face(2) [of opts sc r] f by simp
  then show "canvas (snd (adapter_step opts QueueTimer r)) = canvas (snd r)"
    "ad_pendingRemote (fst (adapter_step opts QueueTimer r)) = ad_pendingRemote (fst r)"
    unfolding step by (simp_all add: face_def)
qed

lemma delivered_element:
  assumes "ad_inbound (fst r)" "ad_pendingRemote (fst r) = [i]" "els_good F (els_of r)" "map_of (els_of r) i = Some (YMap m)"
    "\<not> js_truthy (field_of (readElement m) IS_DELETED)"
  shows "canvas (snd (flushRemote r)) i = Upserted (fields_of (readElement m))"
    "face (flushRemote r) = (face r)\<lparr>f_pendingRemote := [], f_canvas := canvas (snd (flushRemote r))\<rparr>"
proof -
  have "remote_element (root (ad_doc (fst r)) ROOT_ELEMENTS) i = Inr (readElement m)"
    using assms(4,5) by (simp add: remote_element_def els_of_def)
  moreover have "shown_in [readElement m] i = Some (Upserted (fields_of (readElement m)))"
    using stored_id [OF assms(3,4)] by (simp add: shown_in_def)
  ultimately show "canvas (snd (flushRemote r)) i = Upserted (fields_of (readElement m))"
    using assms(1,2) by (simp add: flushRemote_def Let_def call_simps(2) canvas_snoc rights_def lefts_def List.map_filter_simps)
  show "face (flushRemote r) = (face r)\<lparr>f_pendingRemote := [], f_canvas := canvas (snd (flushRemote r))\<rparr>"
    using assms(1,2) by (simp add: flushRemote_def Let_def face_def els_of_def)
qed

text \<open>
  C31. The case the previous property leaves out. After such a run let an edit of an element wait in the queue, and let a
  sync message change the same element. The canvas is given the version of the message in place of the
  edit; when the timer fires the edit is written over that version in the document, and the canvas is not told: with
  nothing queued and nothing pending it shows what the others wrote while the document has what this user did.
\<close>

theorem queued_edit_is_hidden:
  assumes "ytext_ok (ao_text opts)" "whole_family F" "els_good F (root d ROOT_ELEMENTS)" "quiet_run F opts evs (new_adapter opts d, [])"
    "adapter_run opts evs (new_adapter opts d, []) = r" "ad_scheduler (fst r) = Some sc" "sc_timer sc \<noteq> None"
    "map_of (sc_pending sc) i = Some e" "ao_transport opts"
    "decodeMessage (ao_codec opts) data = Inr (Some (SYNC p))"
    "y_read (ao_yjs opts) p (ad_doc (fst r)) = Some (d', [i], replies)" "els_good F (root d' ROOT_ELEMENTS)"
    "map_of (root d' ROOT_ELEMENTS) i = Some (YMap m)" "\<not> js_truthy (field_of (readElement m) IS_DELETED)"
    "adapter_run opts [Message data, QueueTimer] r = (a', calls')"
  shows "canvas calls' i = Upserted (fields_of (readElement m)) \<and>
    shows_word (root (ad_doc a') ROOT_ELEMENTS) (Upserted e) i \<and>
    (\<exists>sc'. ad_scheduler a' = Some sc' \<and> sc_pending sc' = []) \<and> ad_pendingRemote a' = []"
proof -
  have T: "diff_ok F (ao_text opts)" using assms(1,2) by (simp add: diff_ok_def)
  have inv: "mirror_inv F r" using adapter_run_mirror [OF T new_adapter_mirror [OF assms(3)] assms(4)] assms(5) by simp
  then have ctl: "ad_wired (fst r)" "ad_inbound (fst r)" "ad_pendingRemote (fst r) = []" "ad.keyed F (sc_pending sc)"
    using assms(6) by (auto simp: mirror_inv_def mirrors_def control_ok_def)
  define r1 where "r1 = foldl (\<lambda>r reply. sendSync opts reply r) (collectRemote [i] (change (\<lambda>a. a\<lparr>ad_doc := d'\<rparr>) r)) replies"
  define r2 where "r2 = refuseIfTooOld opts (flushRemote r1)"
  have f1: "fst r1 = (fst r)\<lparr>ad_doc := d', ad_pendingRemote := [i]\<rparr>" using ctl(3) by (simp add: r1_def add_ids_def)
  have good: "els_good F (els_of r1)" "map_of (els_of r1) i = Some (YMap m)" using assms(12,13) by (simp_all add: els_of_def f1)
  have "ad_inbound (fst r1)" "ad_pendingRemote (fst r1) = [i]" using ctl(2) by (simp_all add: f1)
  note fl = delivered_element [OF this good assms(14)]
  have f2: "face r2 = (face r1)\<lparr>f_pendingRemote := [], f_canvas := canvas (snd (flushRemote r1))\<rparr>"
    unfolding r2_def using fl(2) by simp
  then have r2: "ad_scheduler (fst r2) = Some sc" "els_of r2 = root d' ROOT_ELEMENTS" "ad_pendingRemote (fst r2) = []"
    "canvas (snd r2) i = Upserted (fields_of (readElement m))"
    using assms(6) fl(1) by (auto simp: face_def f1 els_of_def)
  have "adapter_run opts [Message data, QueueTimer] r = adapter_step opts QueueTimer r2"
    using ctl(1) assms(9,10,11) by (simp add: adapter_run_def adapter_step_def [of opts "Message data"] handleMessage_def
      handleSync_def Let_def r1_def r2_def)
  then have out: "(a', calls') = adapter_step opts QueueTimer r2" using assms(15) by simp
  have "adapter_okay F opts r2" using T assms(12) r2(2) by (simp add: adapter_okay_def)
  note t = timer_flush [OF r2(1) assms(7) ctl(4) this assms(8), folded out]
  show ?thesis using t r2(3,4) by (simp add: els_of_def)
qed

text \<open>A drag that waits in the queue, and a colleague who moved the same note.\<close>

definition colleague :: ydoc where
  "colleague = set_root ROOT_ELEMENTS [(u ''e1'', YMap [(u ''id'', YPlain (JSStr (u ''e1''))), (u ''x'', YPlain (JSNum 9))])]
     (createBoardDoc None)"

definition shared_options :: AdapterOptions where
  "shared_options = local_options\<lparr>ao_transport := True,
     ao_yjs := null_net\<lparr>y_read := (\<lambda>p d. Some (colleague, [u ''e1''], []))\<rparr>\<rparr>"

theorem queued_edit_is_hidden_witness:
  "\<exists>a calls. adapter_run shared_options [Connect, Continue AwaitTransport 1, Emit (moving 1), Message (encodeMessage leb (SYNC [2])), QueueTimer]
       (new_adapter shared_options sample_doc, []) = (a, calls) \<and>
     canvas calls (u ''e1'') = Upserted (moved 9) \<and> shows_word (root (ad_doc a) ROOT_ELEMENTS) (Upserted (moved 1)) (u ''e1'')"
proof -
  let ?r0 = "(new_adapter shared_options sample_doc, [])"
  let ?evs = "[Connect, Continue AwaitTransport 1, Emit (moving 1)]"
  let ?data = "encodeMessage leb (SYNC [2])"
  let ?sc = "\<lparr>sc_pending = [(u ''e1'', moved 1)], sc_gesture = Some ''drag'', sc_origin = LocalUser, sc_mode = GestureMode, sc_timer = Some 50\<rparr>"
  let ?m = "[(u ''id'', YPlain (JSStr (u ''e1''))), (u ''x'', YPlain (JSNum 9))]"
  define r where "r = adapter_run shared_options ?evs ?r0"
  have sc: "ad_scheduler (fst r) = Some ?sc" unfolding r_def by code_simp
  obtain a calls where out: "adapter_run shared_options [Message ?data, QueueTimer] r = (a, calls)"
    by (cases "adapter_run shared_options [Message ?data, QueueTimer] r")
  have o: "ytext_ok (ao_text shared_options)" "ao_transport shared_options" "ao_codec shared_options = leb"
    "y_read (ao_yjs shared_options) [2] (ad_doc (fst r)) = Some (colleague, [u ''e1''], [])"
    by (simp_all add: shared_options_def local_options_def list_text_ok)
  have dec: "decodeMessage (ao_codec shared_options) ?data = Inr (Some (SYNC [2]))" unfolding o(3) by code_simp
  have els: "els_good plane0 (root sample_doc ROOT_ELEMENTS)" "els_good plane0 (root colleague ROOT_ELEMENTS)"
    "map_of (root colleague ROOT_ELEMENTS) (u ''e1'') = Some (YMap ?m)"
    by (simp_all add: sample_doc_def colleague_def els_good_def els_okay_def id_keyed_def readElement_def field_of_def u_def)
  have q: "quiet_run plane0 shared_options ?evs ?r0"
    by (simp add: quiet_event_def moving_def good_element_def valid_element_def moved_def u_def plane0_def high_surrogate_def)
  have live: "\<not> js_truthy (field_of (readElement ?m) IS_DELETED)" by code_simp
  have m: "fields_of (readElement ?m) = moved 9" by code_simp
  have e: "sc_timer ?sc \<noteq> None" "map_of (sc_pending ?sc) (u ''e1'') = Some (moved 1)" by simp_all
  note w = queued_edit_is_hidden [OF o(1) whole_family_plane0 els(1) q r_def [symmetric] sc e o(2) dec o(4) els(2,3) live out]
  have "adapter_run shared_options (?evs @ [Message ?data, QueueTimer]) ?r0 = (a, calls)"
    using out unfolding r_def adapter_run_def by simp
  then show ?thesis using w m by auto
qed

subsection \<open>What is said about saving without a connection\<close>

definition last_save :: "AdapterCall list \<Rightarrow> SaveState option" where
  "last_save calls = foldl (\<lambda>s c. case c of SetSave v \<Rightarrow> Some v | _ \<Rightarrow> s) None calls"

definition touches :: "ElementChangeSet \<Rightarrow> js_string set" where
  "touches cs = element_id ` set (cs_upserted cs) \<union> set (cs_deleted cs)"

text \<open>Edits of elements of \<open>S\<close>, and the timer of the queue.\<close>

definition edit_within :: "js_string set \<Rightarrow> AdapterEvent \<Rightarrow> bool" where
  "edit_within S ev \<longleftrightarrow> (case ev of Emit cs \<Rightarrow> isEmittableOrigin (cs_origin cs) \<and> touches cs \<subseteq> S | QueueTimer \<Rightarrow> True | _ \<Rightarrow> False)"

lemma last_save_snoc: "last_save (calls @ [c]) = (case c of SetSave v \<Rightarrow> Some v | _ \<Rightarrow> last_save calls)"
  by (cases c) (simp_all add: last_save_def)

lemma last_save_call [simp]: "last_save (snd (call c r)) = (case c of SetSave v \<Rightarrow> Some v | _ \<Rightarrow> last_save (snd r))"
  by (simp add: call_simps(2) last_save_snoc)

lemma last_save_sendSync [simp]: "last_save (snd (sendSync opts p r)) = last_save (snd r)"
  by (simp add: sendSync_def)

lemma add_ids_known: "set ids \<subseteq> set s \<Longrightarrow> add_ids ids s = s"
  unfolding add_ids_def by (induction ids) auto

lemma upserts_touched_ids: "set (upserts_touched T es els) \<subseteq> element_id ` set es"
  by (induction T es els rule: upserts_touched.induct) (auto split: prod.splits)

lemma deletes_touched_ids: "set (deletes_touched is els) \<subseteq> set is"
  by (induction "is" els rule: deletes_touched.induct) auto

lemma commit_touched_ids: "set (commit_touched T cs els) \<subseteq> touches cs"
  unfolding commit_touched_def touches_def set_append by (intro Un_mono upserts_touched_ids deletes_touched_ids)

definition unlinked :: "js_string list \<Rightarrow> SaveState option \<Rightarrow> run \<Rightarrow> bool" where
  "unlinked ids s r \<longleftrightarrow> ad_wired (fst r) \<and> ad_inbound (fst r) \<and> \<not> ad_linkUp (fst r) \<and> ad_offlineTouched (fst r) = ids \<and>
     last_save (snd r) = s"

lemma commit_unlinked:
  assumes "ao_transport opts" "touches cs \<subseteq> set ids" "unlinked ids s r"
  shows "unlinked ids s (commitChanges opts cs r)"
proof -
  have "set (commit_touched T cs els) \<subseteq> set ids" for T els using commit_touched_ids assms(2) by blast
  note known = add_ids_known [OF this]
  show ?thesis using assms(1,3)
    by (auto simp: unlinked_def commitChanges_def split_beta Let_def local_transaction_def collectOffline_def known
        split: option.split)
qed

lemma edit_unlinked:
  assumes "ao_transport opts" "edit_within (set ids) ev" "unlinked ids s r" "ad_scheduler (fst r) = Some sc"
    "element_id ` snd ` set (sc_pending sc) \<subseteq> set ids"
  shows "unlinked ids (case ev of Emit cs \<Rightarrow> Some Sv_saving | _ \<Rightarrow> s) (adapter_step opts ev r) \<and>
    (\<exists>sc'. ad_scheduler (fst (adapter_step opts ev r)) = Some sc' \<and> element_id ` snd ` set (sc_pending sc') \<subseteq> set ids)"
proof -
  let ?E = "{e. element_id e \<in> set ids}"
  have E: "snd ` set (sc_pending sc) \<subseteq> ?E" using assms(5) by auto
  have with_f: "unlinked ids t (with_scheduler f r') \<and>
      (\<exists>sc'. ad_scheduler (fst (with_scheduler f r')) = Some sc' \<and> element_id ` snd ` set (sc_pending sc') \<subseteq> set ids)"
    if "ad_scheduler (fst r') = Some sc" "unlinked ids t (snd (f (sc, r'))) \<and> snd ` set (sc_pending (fst (f (sc, r')))) \<subseteq> ?E" for f r' t
    using that by (auto simp: with_scheduler_def unlinked_def split_beta)
  note commit = commit_unlinked [OF assms(1)]
  show ?thesis
  proof (cases ev)
    case (Emit cs)
    let ?r = "tell (SetSave Sv_saving) (call (Emitted cs) r)"
    have cs: "isEmittableOrigin (cs_origin cs)" "touches cs \<subseteq> set ids" using assms(2) Emit by (simp_all add: edit_within_def)
    have "unlinked ids (Some Sv_saving) ?r" "ad_inbound (fst r)"
      using assms(3) by (auto simp: unlinked_def tell_simps(2) last_save_snoc)
    moreover from this have "unlinked ids (Some Sv_saving) (snd (push (ao_throttle opts) (adapter_sink opts) cs (sc, ?r))) \<and>
        snd ` set (sc_pending (fst (push (ao_throttle opts) (adapter_sink opts) cs (sc, ?r)))) \<subseteq> ?E"
      using cs(2) E by (intro push_commits [where Q = "\<lambda>cs. touches cs \<subseteq> set ids"])
        (auto simp: adapter_sink_def commit touches_def)
    ultimately show ?thesis using Emit cs(1) assms(4) with_f [of ?r "Some Sv_saving" "push (ao_throttle opts) (adapter_sink opts) cs"]
      by (simp add: adapter_step_def emitElementChanges_def)
  next
    case QueueTimer
    have "unlinked ids s (snd (flush (adapter_sink opts) (sc, r))) \<and>
        snd ` set (sc_pending (fst (flush (adapter_sink opts) (sc, r)))) \<subseteq> ?E"
      using assms(3) E by (intro flush_commits [where Q = "\<lambda>cs. touches cs \<subseteq> set ids"])
        (auto simp: adapter_sink_def commit touches_def)
    then have "unlinked ids s (snd (queue_step (ao_throttle opts) (adapter_sink opts) Fire (sc, r))) \<and>
        snd ` set (sc_pending (fst (queue_step (ao_throttle opts) (adapter_sink opts) Fire (sc, r)))) \<subseteq> ?E"
      using assms(3) E by (simp add: queue_step_def)
    then show ?thesis using QueueTimer with_f [OF assms(4), of s "queue_step (ao_throttle opts) (adapter_sink opts) Fire"] by (simp add: adapter_step_def)
  qed (use assms(2) in \<open>simp_all add: edit_within_def\<close>)
qed

text \<open>
  C32. Without a connection \<open>unsaved\<close> is reported once per element: after further edits of elements already counted, in
  any number and whenever the queue writes them, the last word is \<open>saving\<close>, although nothing is being
  saved and the count of unsaved elements is what it was.
\<close>

theorem offline_edits_look_saving:
  assumes "ao_transport opts" "ad_wired a" "ad_inbound a" "\<not> ad_linkUp a" "ad_scheduler a = Some sc"
    "element_id ` snd ` set (sc_pending sc) \<subseteq> set (ad_offlineTouched a)"
    "list_all (edit_within (set (ad_offlineTouched a))) evs" "Emit cs \<in> set evs"
    "adapter_run opts evs (a, calls) = (a', calls')"
  shows "last_save calls' = Some Sv_saving \<and> \<not> ad_linkUp a' \<and> ad_offlineTouched a' = ad_offlineTouched a"
proof -
  let ?ids = "ad_offlineTouched a"
  have "unlinked ?ids (if \<exists>cs. Emit cs \<in> set evs then Some Sv_saving else s) (adapter_run opts evs r)"
    if "unlinked ?ids s r" "list_all (edit_within (set ?ids)) evs" "ad_scheduler (fst r) = Some sc"
      "element_id ` snd ` set (sc_pending sc) \<subseteq> set ?ids" for evs r s sc
    using that
  proof (induction evs arbitrary: r s sc)
    case Nil
    then show ?case by (simp add: adapter_run_def)
  next
    case (Cons ev evs)
    have e: "edit_within (set ?ids) ev" using Cons(3) by simp
    note st = edit_unlinked [OF assms(1) e Cons(2,4,5)]
    then obtain sc' where "ad_scheduler (fst (adapter_step opts ev r)) = Some sc'"
      "element_id ` snd ` set (sc_pending sc') \<subseteq> set ?ids" by blast
    from Cons(1) [OF conjunct1 [OF st] _ this] Cons(3)
    have "unlinked ?ids (if \<exists>cs. Emit cs \<in> set evs then Some Sv_saving else case ev of Emit cs \<Rightarrow> Some Sv_saving | _ \<Rightarrow> s)
        (adapter_run opts (ev # evs) r)" by (simp add: adapter_run_def)
    moreover have "(if \<exists>cs. Emit cs \<in> set evs then Some Sv_saving else case ev of Emit cs \<Rightarrow> Some Sv_saving | _ \<Rightarrow> s) =
        (if \<exists>cs. Emit cs \<in> set (ev # evs) then Some Sv_saving else s)" by (cases ev) auto
    ultimately show ?case by simp
  qed
  from this [of "last_save calls" "(a, calls)" evs sc] show ?thesis
    using assms by (auto simp: unlinked_def)
qed

text \<open>An adapter whose link is down and that has counted a note, which is moved once more.\<close>

definition counted :: run where
  "counted = ((new_adapter shared_options sample_doc)\<lparr>ad_wired := True, ad_inbound := True, ad_linkUp := False,
     ad_scheduler := Some new_scheduler, ad_offlineTouched := [u ''e1'']\<rparr>, [SetSave (Sv_unsaved 1)])"

theorem offline_edits_look_saving_witness:
  "last_save (snd counted) = Some (Sv_unsaved 1) \<and>
   last_save (snd (adapter_run shared_options [Emit (moving 2), QueueTimer] counted)) = Some Sv_saving"
proof -
  obtain a calls where r: "counted = (a, calls)" by (cases counted)
  obtain a' calls' where out: "adapter_run shared_options [Emit (moving 2), QueueTimer] (a, calls) = (a', calls')"
    by (cases "adapter_run shared_options [Emit (moving 2), QueueTimer] (a, calls)")
  have s: "ao_transport shared_options" "ad_wired a" "ad_inbound a" "\<not> ad_linkUp a" "ad_scheduler a = Some new_scheduler"
    "ad_offlineTouched a = [u ''e1'']" "last_save calls = Some (Sv_unsaved 1)"
    using r by (auto simp: counted_def shared_options_def last_save_def)
  have "list_all (edit_within (set (ad_offlineTouched a))) [Emit (moving 2), QueueTimer]"
    by (simp add: s(6) edit_within_def touches_def moving_def moved_def element_id_def isEmittableOrigin_def u_def)
  from offline_edits_look_saving [OF s(1-5) _ this _ out, of "moving 2"] s(7) out show ?thesis
    unfolding r by (simp add: new_scheduler_def)
qed

end
