(* ===== verification/TransportInvariant.thy ===== *)
theory TransportInvariant
  imports Transport
begin

text \<open>
  The bookkeeping of the reconnecting socket: over every run the four timer variables are exactly the
  timers that run, generations number the attempts, the current generation is in one place at a time,
  token renewal belongs to the open socket, and nothing is left after \<open>disconnect\<close>. The invariant
  \<open>transport_inv\<close> is kept by each function of the closure and so by every step.
\<close>

subsection \<open>The bookkeeping invariant\<close>

text \<open>
  Each part is a predicate of the variables it reads, so that a state update is seen by rewriting.
  \<open>tracked\<close>: every timer that runs is the one its variable holds, and conversely.
\<close>

fun timer_kind :: "TimerCallback \<Rightarrow> nat" where
  "timer_kind RetryTimer = 0"
| "timer_kind RefreshTimer = 1"
| "timer_kind (ConnectTimer m) = 2"
| "timer_kind (SilenceTimer m) = 3"

fun timer_cell :: "(TimerCallback \<times> int) option \<Rightarrow> nat \<Rightarrow> nat \<Rightarrow> nat option \<Rightarrow> nat option \<Rightarrow> nat option \<Rightarrow>
    nat option \<Rightarrow> bool" where
  "timer_cell None h n a b c d \<longleftrightarrow> a \<noteq> Some h \<and> b \<noteq> Some h \<and> c \<noteq> Some h \<and> d \<noteq> Some h"
| "timer_cell (Some p) h n a b c d \<longleftrightarrow> h < n \<and>
     (a = Some h \<longleftrightarrow> timer_kind (fst p) = 0) \<and> (b = Some h \<longleftrightarrow> timer_kind (fst p) = 1) \<and>
     (c = Some h \<longleftrightarrow> timer_kind (fst p) = 2) \<and> (d = Some h \<longleftrightarrow> timer_kind (fst p) = 3)"

definition tracked :: "(nat \<rightharpoonup> TimerCallback \<times> int) \<Rightarrow> nat \<Rightarrow> nat option \<Rightarrow> nat option \<Rightarrow> nat option \<Rightarrow>
    nat option \<Rightarrow> bool" where
  "tracked T n a b c d \<longleftrightarrow> (\<forall>h. timer_cell (T h) h n a b c d)"

text \<open>Numbers are fresh, generations never run ahead, one socket per generation.\<close>

definition numbered :: "(nat \<rightharpoonup> TokenPurpose \<times> nat) \<Rightarrow> nat \<Rightarrow> (nat \<rightharpoonup> Socket) \<Rightarrow> nat \<Rightarrow> nat \<Rightarrow> nat option \<Rightarrow>
    bool" where
  "numbered F nf S ns g so \<longleftrightarrow>
     (\<forall>f p m. F f = Some (p, m) \<longrightarrow> m \<le> g \<and> f < nf) \<and>
     (\<forall>i k. S i = Some k \<longrightarrow> sk_mine k \<le> g \<and> i < ns) \<and>
     (\<forall>i j k l. S i = Some k \<and> S j = Some l \<and> sk_mine k = sk_mine l \<longrightarrow> i = j) \<and>
     (\<forall>i k. S i = Some k \<longrightarrow> (sk_wired k \<longleftrightarrow> sk_closing k = None)) \<and>
     (\<forall>i. so = Some i \<longrightarrow> (\<exists>k. S i = Some k \<and> sk_wired k))"

text \<open>
  The current generation is in one place at a time: a token request, a socket, or a retry timer.
\<close>

definition one_attempt :: "(nat \<rightharpoonup> TokenPurpose \<times> nat) \<Rightarrow> (nat \<rightharpoonup> Socket) \<Rightarrow> nat \<Rightarrow> nat option \<Rightarrow> nat option \<Rightarrow>
    bool" where
  "one_attempt F S g rt so \<longleftrightarrow>
     (\<forall>f f'. F f = Some (ForOpen, g) \<and> F f' = Some (ForOpen, g) \<longrightarrow> f = f') \<and>
     (\<forall>f. F f = Some (ForOpen, g) \<longrightarrow> rt = None \<and> (\<forall>i k. S i = Some k \<longrightarrow> sk_mine k \<noteq> g)) \<and>
     (\<forall>i k. S i = Some k \<and> sk_wired k \<and> sk_life k \<noteq> Sk_closed \<and> sk_mine k = g \<longrightarrow>
        rt = None \<and> so = Some i)"

definition live_in :: "(nat \<rightharpoonup> Socket) \<Rightarrow> nat \<Rightarrow> nat option \<Rightarrow> bool" where
  "live_in S g so \<longleftrightarrow> (\<exists>i k. so = Some i \<and> S i = Some k \<and> sk_wired k \<and> sk_life k \<noteq> Sk_closed \<and> sk_mine k = g)"

text \<open>Token renewal belongs to the socket of the current generation, once it has opened.\<close>

definition opened_in :: "(nat \<rightharpoonup> Socket) \<Rightarrow> nat \<Rightarrow> bool" where
  "opened_in S g \<longleftrightarrow> (\<exists>i k. S i = Some k \<and> sk_mine k = g \<and> sk_life k \<noteq> Sk_connecting)"

definition one_refresh :: "(nat \<rightharpoonup> TokenPurpose \<times> nat) \<Rightarrow> (nat \<rightharpoonup> Socket) \<Rightarrow> nat \<Rightarrow> nat option \<Rightarrow> nat option \<Rightarrow>
    TransportStatus \<Rightarrow> bool" where
  "one_refresh F S g rf so st \<longleftrightarrow>
     (rf \<noteq> None \<longrightarrow> (\<forall>f. F f \<noteq> Some (ForRefresh, g)) \<and> opened_in S g \<and> live_in S g so \<and> (\<exists>b. st = Open b)) \<and>
     (\<forall>f. F f = Some (ForRefresh, g) \<longrightarrow> opened_in S g) \<and>
     (\<forall>f f'. F f = Some (ForRefresh, g) \<and> F f' = Some (ForRefresh, g) \<longrightarrow> f = f')"

text \<open>A watchdog of the current generation watches the socket of the current generation.\<close>

fun watches :: "TimerCallback \<Rightarrow> nat option" where
  "watches (ConnectTimer m) = Some m"
| "watches (SilenceTimer m) = Some m"
| "watches cb = None"

definition watching :: "(nat \<rightharpoonup> TimerCallback \<times> int) \<Rightarrow> (nat \<rightharpoonup> Socket) \<Rightarrow> nat \<Rightarrow> nat option \<Rightarrow> bool" where
  "watching T S g so \<longleftrightarrow> (\<forall>h p m. T h = Some p \<and> watches (fst p) = Some m \<longrightarrow>
     m \<le> g \<and> (m = g \<longrightarrow> live_in S g so))"

text \<open>
  Once the current generation has a socket, \<open>socket\<close> is that one or null, and when it has opened the
  status says so.
\<close>

definition has_socket :: "(nat \<rightharpoonup> Socket) \<Rightarrow> nat \<Rightarrow> bool" where
  "has_socket S g \<longleftrightarrow> (\<exists>j k. S j = Some k \<and> sk_mine k = g)"

definition current_link :: "(nat \<rightharpoonup> Socket) \<Rightarrow> nat \<Rightarrow> nat option \<Rightarrow> TransportStatus \<Rightarrow> bool" where
  "current_link S g so st \<longleftrightarrow> (so \<noteq> None \<and> has_socket S g \<longrightarrow>
     live_in S g so \<and> (\<forall>i k. so = Some i \<and> S i = Some k \<and> sk_life k = Sk_open \<longrightarrow> (\<exists>b. st = Open b)))"

text \<open>Nothing of the current generation is under way: the place where a retry is scheduled.\<close>

definition settled :: "(nat \<rightharpoonup> TokenPurpose \<times> nat) \<Rightarrow> (nat \<rightharpoonup> Socket) \<Rightarrow> nat \<Rightarrow> bool" where
  "settled F S g \<longleftrightarrow> (\<forall>f. F f \<noteq> Some (ForOpen, g)) \<and>
     (\<forall>i k. S i = Some k \<and> sk_wired k \<and> sk_life k \<noteq> Sk_closed \<longrightarrow> sk_mine k \<noteq> g)"

text \<open>After \<open>disconnect\<close> every answer still under way, and every socket, belongs to the past.\<close>

definition past_only :: "(nat \<rightharpoonup> TokenPurpose \<times> nat) \<Rightarrow> (nat \<rightharpoonup> Socket) \<Rightarrow> nat \<Rightarrow> bool" where
  "past_only F S g \<longleftrightarrow> (\<forall>f p. F f \<noteq> Some (p, g)) \<and> (\<forall>i k. S i = Some k \<longrightarrow> sk_mine k \<noteq> g)"

definition idle :: "Transport \<Rightarrow> bool" where
  "idle s \<longleftrightarrow>
     ws_retryTimer s = None \<and> ws_refreshTimer s = None \<and> ws_connectTimer s = None \<and>
     ws_silenceTimer s = None \<and> ws_socket s = None \<and> \<not> ws_unwireNetwork s \<and>
     past_only (env_fetches s) (env_sockets s) (ws_generation s)"

definition transport_base :: "Transport \<Rightarrow> bool" where
  "transport_base s \<longleftrightarrow>
     tracked (env_timers s) (env_nextTimer s) (ws_retryTimer s) (ws_refreshTimer s) (ws_connectTimer s)
       (ws_silenceTimer s) \<and>
     numbered (env_fetches s) (env_nextFetch s) (env_sockets s) (env_nextSocket s) (ws_generation s)
       (ws_socket s) \<and>
     one_refresh (env_fetches s) (env_sockets s) (ws_generation s) (ws_refreshTimer s) (ws_socket s)
       (ws_status s) \<and>
     watching (env_timers s) (env_sockets s) (ws_generation s) (ws_socket s) \<and>
     current_link (env_sockets s) (ws_generation s) (ws_socket s) (ws_status s) \<and>
     (ws_retryTimer s \<noteq> None \<longrightarrow> (\<exists>n d. ws_status s = Retrying n d))"

definition transport_inv :: "Transport \<Rightarrow> bool" where
  "transport_inv s \<longleftrightarrow> transport_base s \<and>
     one_attempt (env_fetches s) (env_sockets s) (ws_generation s) (ws_retryTimer s) (ws_socket s) \<and>
     (\<not> env_active s \<longrightarrow> idle s)"

subsection \<open>Timers\<close>

definition clear_handle :: "nat option \<Rightarrow> (nat \<rightharpoonup> 'x) \<Rightarrow> (nat \<rightharpoonup> 'x)" where
  "clear_handle h T = (case h of None \<Rightarrow> T | Some k \<Rightarrow> T(k := None))"

lemma clearTimer_eq: "clearTimer h s = s\<lparr>env_timers := clear_handle h (env_timers s)\<rparr>"
  by (simp add: clearTimer_def clear_handle_def split: option.split)

lemma clear_link_timers_eq:
  "clear_link_timers s = s\<lparr>env_timers := clear_handle (ws_silenceTimer s) (clear_handle (ws_connectTimer s)
     (clear_handle (ws_refreshTimer s) (env_timers s))), ws_refreshTimer := None, ws_connectTimer := None,
     ws_silenceTimer := None\<rparr>"
  by (simp add: clear_link_timers_def clearTimer_eq Let_def)

lemma clear_handle_at: "clear_handle x T h = (if x = Some h then None else T h)"
  by (simp add: clear_handle_def split: option.split)

lemma timer_cell_clear:
  assumes "timer_cell x h n a b c d"
  shows "timer_cell (if a = Some h then None else x) h n None b c d"
    "timer_cell (if b = Some h then None else x) h n a None c d"
    "timer_cell (if c = Some h then None else x) h n a b None d"
    "timer_cell (if d = Some h then None else x) h n a b c None"
  using assms by (cases x; simp)+

lemma tracked_clear:
  assumes "tracked T n a b c d"
  shows "tracked (clear_handle a T) n None b c d" "tracked (clear_handle b T) n a None c d"
    "tracked (clear_handle c T) n a b None d" "tracked (clear_handle d T) n a b c None"
  using assms by (simp_all add: tracked_def clear_handle_at timer_cell_clear)

lemma timer_cell_set:
  assumes "timer_cell x h n a b c d"
  shows "a = None \<Longrightarrow> timer_cell (if h = n then Some (RetryTimer, ms) else x) h (Suc n) (Some n) b c d"
    "b = None \<Longrightarrow> timer_cell (if h = n then Some (RefreshTimer, ms) else x) h (Suc n) a (Some n) c d"
    "c = None \<Longrightarrow> timer_cell (if h = n then Some (ConnectTimer m, ms) else x) h (Suc n) a b (Some n) d"
    "d = None \<Longrightarrow> timer_cell (if h = n then Some (SilenceTimer m, ms) else x) h (Suc n) a b c (Some n)"
  using assms by (cases x; cases "h = n"; simp; linarith?)+

lemma tracked_set:
  "tracked T n None b c d \<Longrightarrow> tracked (T(n \<mapsto> (RetryTimer, ms))) (Suc n) (Some n) b c d"
  "tracked T n a None c d \<Longrightarrow> tracked (T(n \<mapsto> (RefreshTimer, ms))) (Suc n) a (Some n) c d"
  "tracked T n a b None d \<Longrightarrow> tracked (T(n \<mapsto> (ConnectTimer m, ms))) (Suc n) a b (Some n) d"
  "tracked T n a b c None \<Longrightarrow> tracked (T(n \<mapsto> (SilenceTimer m, ms))) (Suc n) a b c (Some n)"
  unfolding tracked_def fun_upd_apply by (blast intro: timer_cell_set)+

lemma tracked_fire:
  assumes t: "tracked T n a b c d" and h: "T h = Some (cb, ms)"
  shows "timer_kind cb = 0 \<Longrightarrow> tracked (T(h := None)) n None b c d"
    "timer_kind cb = 1 \<Longrightarrow> tracked (T(h := None)) n a None c d"
    "timer_kind cb = 2 \<Longrightarrow> tracked (T(h := None)) n a b None d"
    "timer_kind cb = 3 \<Longrightarrow> tracked (T(h := None)) n a b c None"
proof -
  have "timer_cell (Some (cb, ms)) h n a b c d" using t h by (metis tracked_def)
  then have "timer_kind cb = 0 \<Longrightarrow> clear_handle a T = T(h := None)"
    "timer_kind cb = 1 \<Longrightarrow> clear_handle b T = T(h := None)"
    "timer_kind cb = 2 \<Longrightarrow> clear_handle c T = T(h := None)"
    "timer_kind cb = 3 \<Longrightarrow> clear_handle d T = T(h := None)"
    by (simp_all add: clear_handle_def)
  then show "timer_kind cb = 0 \<Longrightarrow> tracked (T(h := None)) n None b c d"
    "timer_kind cb = 1 \<Longrightarrow> tracked (T(h := None)) n a None c d"
    "timer_kind cb = 2 \<Longrightarrow> tracked (T(h := None)) n a b None d"
    "timer_kind cb = 3 \<Longrightarrow> tracked (T(h := None)) n a b c None"
    using tracked_clear [OF t] by metis+
qed

subsection \<open>Requests and sockets\<close>

definition unwired :: "nat \<Rightarrow> nat \<Rightarrow> (nat \<rightharpoonup> Socket) \<Rightarrow> (nat \<rightharpoonup> Socket)" where
  "unwired code i S = S(i := map_option (\<lambda>k. k\<lparr>sk_wired := False, sk_closing := Some code\<rparr>) (S i))"

definition with_life :: "SocketLife \<Rightarrow> nat \<Rightarrow> (nat \<rightharpoonup> Socket) \<Rightarrow> (nat \<rightharpoonup> Socket)" where
  "with_life l i S = S(i := map_option (\<lambda>k. k\<lparr>sk_life := l\<rparr>) (S i))"

definition fresh_socket :: "string \<Rightarrow> nat \<Rightarrow> Socket" where
  "fresh_socket u g = \<lparr>sk_url = u, sk_mine = g, sk_wired = True, sk_life = Sk_connecting, sk_closing = None\<rparr>"

lemma unwired_at: "unwired code i S j =
    (if j = i then map_option (\<lambda>k. k\<lparr>sk_wired := False, sk_closing := Some code\<rparr>) (S i) else S j)"
  by (simp add: unwired_def)

lemma with_life_at: "with_life l i S j = (if j = i then map_option (\<lambda>k. k\<lparr>sk_life := l\<rparr>) (S i) else S j)"
  by (simp add: with_life_def)

lemma unwired_mine: "unwired code i S j = Some k \<Longrightarrow> \<exists>k'. S j = Some k' \<and> sk_mine k' = sk_mine k \<and>
    sk_life k' = sk_life k \<and> (if j = i then \<not> sk_wired k \<and> sk_closing k = Some code else k' = k)"
  by (auto simp: unwired_at split: if_splits)

lemma with_life_mine: "with_life l i S j = Some k \<Longrightarrow> \<exists>k'. S j = Some k' \<and> sk_mine k' = sk_mine k \<and>
    sk_wired k' = sk_wired k \<and> sk_closing k' = sk_closing k \<and> sk_life k = (if j = i then l else sk_life k')"
  by (auto simp: with_life_at split: if_splits)

lemma numbered_laws:
  assumes "numbered F nf S ns g so"
  shows "numbered F nf S ns (Suc g) so" "numbered F nf S ns g None"
    "m \<le> g \<Longrightarrow> numbered (F(nf \<mapsto> (p, m))) (Suc nf) S ns g so"
    "numbered (F(f := None)) nf S ns g so"
  using assms by (auto simp: numbered_def le_SucI less_SucI)

lemma numbered_same_mine:
  assumes n: "numbered F nf S ns g so"
    and same: "\<And>j k'. S' j = Some k' \<Longrightarrow> \<exists>k. S j = Some k \<and> sk_mine k = sk_mine k' \<and>
      (sk_wired k' \<longleftrightarrow> sk_closing k' = None)"
    and so: "\<And>i. so' = Some i \<Longrightarrow> \<exists>k. S' i = Some k \<and> sk_wired k"
  shows "numbered F nf S' ns g so'"
proof -
  have "sk_mine k' \<le> g \<and> j < ns" if "S' j = Some k'" for j k'
    using same [OF that] n unfolding numbered_def by metis
  moreover have "i = j" if "S' i = Some k" "S' j = Some l" "sk_mine k = sk_mine l" for i j k l
    using same [OF that(1)] same [OF that(2)] that(3) n unfolding numbered_def by metis
  moreover have "sk_wired k' \<longleftrightarrow> sk_closing k' = None" if "S' j = Some k'" for j k'
    using same [OF that] by blast
  ultimately show ?thesis using n so unfolding numbered_def by blast
qed

lemma numbered_wired: "numbered F nf S ns g so \<Longrightarrow> S i = Some k \<Longrightarrow> sk_wired k \<longleftrightarrow> sk_closing k = None"
  by (simp add: numbered_def)

lemma numbered_unwired:
  assumes n: "numbered F nf S ns g so"
  shows "numbered F nf (unwired code i S) ns g None"
proof (rule numbered_same_mine [OF n])
  fix j k' assume "unwired code i S j = Some k'"
  from unwired_mine [OF this] show "\<exists>k. S j = Some k \<and> sk_mine k = sk_mine k' \<and> (sk_wired k' \<longleftrightarrow> sk_closing k' = None)"
    using numbered_wired [OF n] by (auto split: if_splits)
qed simp

lemma numbered_with_life:
  assumes n: "numbered F nf S ns g so"
  shows "numbered F nf (with_life l i S) ns g so"
proof (rule numbered_same_mine [OF n])
  fix j k' assume "with_life l i S j = Some k'"
  from with_life_mine [OF this] show "\<exists>k. S j = Some k \<and> sk_mine k = sk_mine k' \<and> (sk_wired k' \<longleftrightarrow> sk_closing k' = None)"
    using numbered_wired [OF n] by auto
next
  fix j assume "so = Some j"
  with n obtain k where "S j = Some k" "sk_wired k" by (auto simp: numbered_def)
  then show "\<exists>k. with_life l i S j = Some k \<and> sk_wired k" by (cases "j = i") (simp_all add: with_life_at)
qed

lemma numbered_create:
  assumes "numbered F nf S ns g so" "\<And>i k. S i = Some k \<Longrightarrow> sk_mine k \<noteq> g"
  shows "numbered F nf (S(ns \<mapsto> fresh_socket u g)) (Suc ns) g (Some ns)"
  using assms by (auto simp: numbered_def less_SucI fresh_socket_def)

lemma settled_laws:
  "one_attempt F S g rt so \<Longrightarrow> F f = Some (ForOpen, g) \<Longrightarrow> settled (F(f := None)) S g"
  by (auto simp: settled_def one_attempt_def)

lemma settled_closed:
  assumes o: "one_attempt F S g rt so" and i: "S i = Some k" "sk_wired k" "sk_life k \<noteq> Sk_closed" "sk_mine k = g"
  shows "settled F (with_life Sk_closed i S) g"
proof -
  have so: "so = Some i" using o i by (auto simp: one_attempt_def)
  have "F f \<noteq> Some (ForOpen, g)" for f using o i by (auto simp: one_attempt_def)
  moreover have "sk_mine k' \<noteq> g"
    if "with_life Sk_closed i S j = Some k'" "sk_wired k'" "sk_life k' \<noteq> Sk_closed" for j k'
  proof -
    have "j \<noteq> i" and "S j = Some k'" using that by (auto simp: with_life_at split: if_splits)
    then show ?thesis using o that so by (auto simp: one_attempt_def)
  qed
  ultimately show ?thesis by (auto simp: settled_def)
qed

lemma settled_unwired:
  assumes o: "one_attempt F S g rt so" and l: "live_in S g so" and so: "so = Some i"
  shows "settled F (unwired code i S) g"
proof -
  have "F f \<noteq> Some (ForOpen, g)" for f using o l by (auto simp: one_attempt_def live_in_def)
  moreover have "sk_mine k' \<noteq> g"
    if "unwired code i S j = Some k'" "sk_wired k'" "sk_life k' \<noteq> Sk_closed" for j k'
  proof -
    have "j \<noteq> i" and "S j = Some k'" using that by (auto simp: unwired_at split: if_splits)
    then show ?thesis using o that so by (auto simp: one_attempt_def)
  qed
  ultimately show ?thesis by (auto simp: settled_def)
qed

lemma settled_one_attempt: "settled F S g \<Longrightarrow> one_attempt F S g rt so"
  by (auto simp: settled_def one_attempt_def)

lemma one_attempt_laws:
  assumes "one_attempt F S g rt so"
  shows "one_attempt (F(f := None)) S g rt so"
    "one_attempt (F(nf \<mapsto> (ForRefresh, m))) S g rt so"
    "one_attempt F S g None so"
  using assms by (auto simp: one_attempt_def)

lemma one_attempt_open:
  assumes "numbered F nf S ns g so"
  shows "one_attempt (F(nf \<mapsto> (ForOpen, Suc g))) S (Suc g) None so'"
proof -
  have "F f = Some (p, m) \<Longrightarrow> m \<le> g" for f p m using assms by (auto simp: numbered_def)
  then have "F f \<noteq> Some (p, Suc g)" for f p by (metis not_less_eq_eq order_refl)
  moreover have "S i = Some k \<Longrightarrow> sk_mine k \<noteq> Suc g" for i k using assms by (force simp: numbered_def)
  ultimately show ?thesis by (auto simp: one_attempt_def split: if_splits)
qed

lemma one_attempt_create:
  assumes "one_attempt F S g rt so" "F f = Some (ForOpen, g)"
  shows "one_attempt (F(f := None)) (S(ns \<mapsto> fresh_socket u g)) g rt (Some ns)"
proof -
  have "\<And>i k. S i = Some k \<Longrightarrow> sk_mine k \<noteq> g" "rt = None" using assms by (auto simp: one_attempt_def)
  moreover have "(F(f := None)) f' \<noteq> Some (ForOpen, g)" for f' using assms by (auto simp: one_attempt_def)
  ultimately show ?thesis by (auto simp: one_attempt_def fresh_socket_def)
qed

lemma one_attempt_unwired:
  assumes "one_attempt F S g rt (Some i)"
  shows "one_attempt F (unwired code i S) g rt None"
proof -
  have "F f = Some (ForOpen, g) \<Longrightarrow> rt = None" for f using assms by (auto simp: one_attempt_def)
  moreover have "sk_mine k \<noteq> g" if f: "F f = Some (ForOpen, g)" and k: "unwired code i S j = Some k" for f j k
  proof -
    from unwired_mine [OF k] obtain k' where "S j = Some k'" "sk_mine k' = sk_mine k" by blast
    then show ?thesis using assms f by (auto simp: one_attempt_def)
  qed
  moreover have "sk_mine k' \<noteq> g"
    if "unwired code i S j = Some k'" "sk_wired k'" "sk_life k' \<noteq> Sk_closed" for j k'
  proof -
    have "j \<noteq> i" and "S j = Some k'" using that by (auto simp: unwired_at split: if_splits)
    then show ?thesis using assms that by (auto simp: one_attempt_def)
  qed
  moreover have "\<And>f f'. F f = Some (ForOpen, g) \<Longrightarrow> F f' = Some (ForOpen, g) \<Longrightarrow> f = f'"
    using assms by (simp add: one_attempt_def)
  ultimately show ?thesis unfolding one_attempt_def by blast
qed

lemma one_attempt_no_socket:
  assumes "one_attempt F S g rt None"
  shows "one_attempt F S g None None"
  using assms by (auto simp: one_attempt_def)

lemma one_attempt_with_life:
  assumes o: "one_attempt F S g rt so" and k: "S i = Some k" "l = Sk_closed \<or> sk_life k \<noteq> Sk_closed"
  shows "one_attempt F (with_life l i S) g rt so"
proof -
  have "rt = None \<and> so = Some j"
    if "with_life l i S j = Some k'" "sk_wired k'" "sk_life k' \<noteq> Sk_closed" "sk_mine k' = g" for j k'
  proof -
    from with_life_mine [OF that(1)] obtain k'' where "S j = Some k''" "sk_mine k'' = sk_mine k'"
      "sk_wired k'' = sk_wired k'" "sk_life k' = (if j = i then l else sk_life k'')" by blast
    moreover from this k that have "sk_life k'' \<noteq> Sk_closed" by (auto split: if_splits)
    ultimately show ?thesis using o that by (auto simp: one_attempt_def)
  qed
  moreover have "sk_mine k' \<noteq> g" if f: "F f = Some (ForOpen, g)" and k': "with_life l i S j = Some k'" for f j k'
  proof -
    from with_life_mine [OF k'] obtain k'' where "S j = Some k''" "sk_mine k'' = sk_mine k'" by blast
    then show ?thesis using o f by (auto simp: one_attempt_def)
  qed
  moreover have "\<And>f. F f = Some (ForOpen, g) \<Longrightarrow> rt = None"
    "\<And>f f'. F f = Some (ForOpen, g) \<Longrightarrow> F f' = Some (ForOpen, g) \<Longrightarrow> f = f'"
    using o by (auto simp: one_attempt_def)
  ultimately show ?thesis unfolding one_attempt_def by blast
qed

lemma opened_in_unwired [simp]: "opened_in (unwired code i S) g \<longleftrightarrow> opened_in S g"
proof
  assume "opened_in (unwired code i S) g"
  then show "opened_in S g" unfolding opened_in_def using unwired_mine by metis
next
  assume "opened_in S g"
  then obtain j k where "S j = Some k" "sk_mine k = g" "sk_life k \<noteq> Sk_connecting" by (auto simp: opened_in_def)
  then have "\<exists>k'. unwired code i S j = Some k' \<and> sk_mine k' = g \<and> sk_life k' \<noteq> Sk_connecting"
    by (cases "j = i") (simp_all add: unwired_at)
  then show "opened_in (unwired code i S) g" by (auto simp: opened_in_def)
qed

lemma opened_in_with_life:
  assumes "opened_in S g" "l \<noteq> Sk_connecting"
  shows "opened_in (with_life l i S) g"
proof -
  from assms(1) obtain j k where "S j = Some k" "sk_mine k = g" "sk_life k \<noteq> Sk_connecting"
    by (auto simp: opened_in_def)
  then have "\<exists>k'. with_life l i S j = Some k' \<and> sk_mine k' = g \<and> sk_life k' \<noteq> Sk_connecting"
    using assms(2) by (cases "j = i") (simp_all add: with_life_at)
  then show ?thesis by (auto simp: opened_in_def)
qed

lemma live_in_with_life:
  assumes "live_in S g so" "l \<noteq> Sk_closed"
  shows "live_in (with_life l i S) g so"
proof -
  from assms(1) obtain j k where "so = Some j" "S j = Some k" "sk_wired k" "sk_mine k = g" "sk_life k \<noteq> Sk_closed"
    by (auto simp: live_in_def)
  then have "\<exists>k'. with_life l i S j = Some k' \<and> sk_wired k' \<and> sk_mine k' = g \<and> sk_life k' \<noteq> Sk_closed"
    using assms(2) by (cases "j = i") (simp_all add: with_life_at)
  with \<open>so = Some j\<close> show ?thesis by (auto simp: live_in_def)
qed

lemma live_in_other_life:
  assumes "live_in S g so" "\<And>k. S i = Some k \<Longrightarrow> sk_mine k \<noteq> g \<or> \<not> sk_wired k \<or> sk_life k = Sk_closed"
  shows "live_in (with_life l i S) g so"
proof -
  from assms(1) obtain j k' where j: "so = Some j" "S j = Some k'" "sk_wired k'" "sk_mine k' = g" "sk_life k' \<noteq> Sk_closed"
    by (auto simp: live_in_def)
  moreover from this assms have "j \<noteq> i" by auto
  ultimately have "with_life l i S j = Some k'" by (simp add: with_life_at)
  with j show ?thesis by (auto simp: live_in_def)
qed

lemma one_refresh_laws:
  assumes "one_refresh F S g rf so st"
  shows "one_refresh (F(f := None)) S g rf so st" "one_refresh F S g None so' st'"
    "l \<noteq> Sk_connecting \<Longrightarrow> one_refresh F (with_life l i S) g None so' st'"
    "one_refresh F (unwired code i S) g None so' st'"
    "one_refresh F S g rf so (Open b)"
  using assms by (auto simp: one_refresh_def opened_in_with_life)

lemma one_refresh_open_life:
  assumes "one_refresh F S g rf so st" "l \<noteq> Sk_connecting" "live_in S g so \<Longrightarrow> live_in (with_life l i S) g so"
  shows "one_refresh F (with_life l i S) g rf so st"
  using assms by (auto simp: one_refresh_def opened_in_with_life)

lemma one_refresh_bump:
  assumes "numbered F nf S ns g so"
  shows "one_refresh (F(nf \<mapsto> (ForOpen, Suc g))) S (Suc g) None so' st'"
proof -
  have "F f = Some (p, m) \<Longrightarrow> m \<le> g" for f p m using assms by (auto simp: numbered_def)
  then have "F f \<noteq> Some (p, Suc g)" for f p by (metis not_less_eq_eq order_refl)
  then show ?thesis by (auto simp: one_refresh_def)
qed

lemma one_refresh_fire:
  assumes "one_refresh F S g (Some h) so st"
  shows "one_refresh (F(nf \<mapsto> (ForRefresh, g))) S g None so st"
  using assms by (auto simp: one_refresh_def)

lemma one_refresh_create:
  assumes "one_refresh F S g rf so st" "S ns = None"
  shows "one_refresh F (S(ns \<mapsto> k)) g None so' st"
proof -
  have "opened_in (S(ns \<mapsto> k)) g" if "opened_in S g"
  proof -
    from that obtain i k' where "S i = Some k'" "sk_mine k' = g" "sk_life k' \<noteq> Sk_connecting"
      by (auto simp: opened_in_def)
    moreover from this assms(2) have "i \<noteq> ns" by auto
    ultimately have "(S(ns \<mapsto> k)) i = Some k' \<and> sk_mine k' = g \<and> sk_life k' \<noteq> Sk_connecting" by simp
    then show ?thesis unfolding opened_in_def by blast
  qed
  then show ?thesis using assms by (auto simp: one_refresh_def)
qed

lemma watching_less:
  assumes "watching T S g so" "\<And>h p. T' h = Some p \<Longrightarrow> T h = Some p \<or> watches (fst p) = None"
  shows "watching T' S g so"
  using assms unfolding watching_def by (metis option.discI)

lemma watching_clear: "watching T S g so \<Longrightarrow> watching (clear_handle h T) S g so"
  by (erule watching_less) (simp add: clear_handle_at split: if_splits)

lemma watching_none:
  assumes "tracked T n a b None None"
  shows "watching T S g so"
proof -
  have "watches (fst p) = None" if "T h = Some p" for h p
  proof -
    have "timer_cell (T h) h n a b None None" using assms by (simp add: tracked_def)
    with that show ?thesis by (cases "fst p") simp_all
  qed
  then show ?thesis by (auto simp: watching_def)
qed

lemma watching_bump: "watching T S g so \<Longrightarrow> watching T S (Suc g) so'"
  by (force simp: watching_def)

lemma watching_arm:
  assumes "watching T S g so" "live_in S g so" "watches cb = Some g"
  shows "watching (T(h \<mapsto> (cb, ms))) S g so"
  using assms by (auto simp: watching_def split: if_splits)

lemma watching_no_current:
  assumes "watching T S g so" "\<not> live_in S g so"
  shows "T h = Some p \<Longrightarrow> watches (fst p) = Some m \<Longrightarrow> m \<noteq> g"
  using assms unfolding watching_def by metis

lemma current_link_None [simp]: "current_link S g None st"
  by (simp add: current_link_def)

lemma current_link_no_socket: "\<not> has_socket S g \<Longrightarrow> current_link S g so st"
  by (simp add: current_link_def)

lemma no_next_socket: "numbered F nf S ns g so \<Longrightarrow> \<not> has_socket S (Suc g)"
  by (force simp: numbered_def has_socket_def)

lemma has_socket_with_life: "has_socket (with_life l i S) g \<Longrightarrow> has_socket S g"
  unfolding has_socket_def using with_life_mine by metis

subsection \<open>The functions keep the invariant\<close>

lemma publish_fields [simp]:
  "ws_status (publish st s) = st" "ws_socket (publish st s) = ws_socket s"
  "ws_generation (publish st s) = ws_generation s" "ws_attempt (publish st s) = ws_attempt s"
  "ws_immediateRuns (publish st s) = ws_immediateRuns s" "ws_started (publish st s) = ws_started s"
  "ws_retryTimer (publish st s) = ws_retryTimer s" "ws_refreshTimer (publish st s) = ws_refreshTimer s"
  "ws_connectTimer (publish st s) = ws_connectTimer s" "ws_silenceTimer (publish st s) = ws_silenceTimer s"
  "ws_unwireNetwork (publish st s) = ws_unwireNetwork s" "env_timers (publish st s) = env_timers s"
  "env_nextTimer (publish st s) = env_nextTimer s" "env_fetches (publish st s) = env_fetches s"
  "env_nextFetch (publish st s) = env_nextFetch s" "env_sockets (publish st s) = env_sockets s"
  "env_nextSocket (publish st s) = env_nextSocket s" "env_active (publish st s) = env_active s"
  "env_onLine (publish st s) = env_onLine s" "env_published (publish st s) = (ws_statusHandlers s, st) # env_published s"
  by (simp_all add: publish_def)

lemma scheduleRetry_inv:
  assumes "transport_base s" "settled (env_fetches s) (env_sockets s) (ws_generation s)"
    "ws_retryTimer s = None" "ws_refreshTimer s = None" "env_active s"
    "ws_socket s = None \<or> \<not> has_socket (env_sockets s) (ws_generation s)"
  shows "transport_inv (scheduleRetry c r s)"
proof -
  have "watching ((env_timers s)(env_nextTimer s \<mapsto> (RetryTimer, d))) (env_sockets s) (ws_generation s) (ws_socket s)" for d
    using assms(1) by (auto simp: transport_base_def elim: watching_less split: if_splits)
  moreover have "tracked ((env_timers s)(env_nextTimer s \<mapsto> (RetryTimer, d))) (Suc (env_nextTimer s))
     (Some (env_nextTimer s)) (ws_refreshTimer s) (ws_connectTimer s) (ws_silenceTimer s)" for d
    using assms(1,3) by (intro tracked_set) (simp add: transport_base_def)
  moreover have "one_refresh (env_fetches s) (env_sockets s) (ws_generation s) None (ws_socket s) st" for st
    using assms(1) by (auto simp: transport_base_def intro: one_refresh_laws)
  moreover have "current_link (env_sockets s) (ws_generation s) (ws_socket s) st" for st
    using assms(6) current_link_no_socket by auto
  ultimately show ?thesis
    using assms(1-5) settled_one_attempt [OF assms(2)]
    by (simp add: transport_inv_def transport_base_def scheduleRetry_def setTimeout_def Let_def)
qed

lemma openSocket_inv:
  assumes "transport_base s" "ws_retryTimer s = None" "ws_refreshTimer s = None" "env_active s"
  shows "transport_inv (openSocket s)"
proof -
  have n: "numbered (env_fetches s) (env_nextFetch s) (env_sockets s) (env_nextSocket s) (ws_generation s) (ws_socket s)"
    and w: "watching (env_timers s) (env_sockets s) (ws_generation s) (ws_socket s)"
    and t: "tracked (env_timers s) (env_nextTimer s) None None (ws_connectTimer s) (ws_silenceTimer s)"
    using assms by (simp_all add: transport_base_def)
  show ?thesis
    using assms t numbered_laws(3) [OF numbered_laws(1) [OF n], of "Suc (ws_generation s)" ForOpen]
      one_attempt_open [OF n] one_refresh_bump [OF n] watching_bump [OF w]
      current_link_no_socket [OF no_next_socket [OF n]]
    by (simp add: transport_inv_def transport_base_def openSocket_def request_token_def Let_def)
qed

text \<open>Dropping the socket and closing it both clear the three link timers first.\<close>

lemma tracked_link_cleared:
  assumes "tracked T n a b c d"
  shows "tracked (clear_handle d (clear_handle c (clear_handle b T))) n a None None None"
  using assms by (intro tracked_clear)

lemma dropSocket_eq:
  "dropSocket code s = (clear_link_timers s)\<lparr>ws_socket := None,
     env_sockets := (case ws_socket s of None \<Rightarrow> env_sockets s | Some i \<Rightarrow> unwired code i (env_sockets s))\<rparr>"
  by (simp add: dropSocket_def clear_link_timers_eq unwired_def Let_def split: option.split)

lemma set_life_eq: "set_life i l s = s\<lparr>env_sockets := with_life l i (env_sockets s)\<rparr>"
  by (simp add: set_life_def with_life_def)

lemma transport_baseD:
  assumes "transport_base s"
  shows "tracked (env_timers s) (env_nextTimer s) (ws_retryTimer s) (ws_refreshTimer s) (ws_connectTimer s)
       (ws_silenceTimer s)"
    "numbered (env_fetches s) (env_nextFetch s) (env_sockets s) (env_nextSocket s) (ws_generation s) (ws_socket s)"
    "one_refresh (env_fetches s) (env_sockets s) (ws_generation s) (ws_refreshTimer s) (ws_socket s) (ws_status s)"
    "watching (env_timers s) (env_sockets s) (ws_generation s) (ws_socket s)"
    "current_link (env_sockets s) (ws_generation s) (ws_socket s) (ws_status s)"
    "ws_retryTimer s \<noteq> None \<longrightarrow> (\<exists>n d. ws_status s = Retrying n d)"
  using assms by (simp_all add: transport_base_def)

lemma dropSocket_base:
  assumes "transport_base s"
  shows "transport_base (dropSocket code s)"
proof -
  note b = transport_baseD [OF assms]
  note t = tracked_link_cleared [OF b(1)]
  show ?thesis
    using t b(6) watching_none [OF t] one_refresh_laws(2,4) [OF b(3)] numbered_laws(2) [OF b(2)] numbered_unwired [OF b(2)]
    by (simp add: transport_base_def dropSocket_eq clear_link_timers_eq split: option.split)
qed

text \<open>The socket of the current generation closes.\<close>

lemma closed_base:
  assumes inv: "transport_inv s" and i: "env_sockets s i = Some k" "sk_wired k" "sk_life k \<noteq> Sk_closed"
    "sk_mine k = ws_generation s"
    and s1: "s1 = clear_link_timers ((set_life i Sk_closed s)\<lparr>ws_socket := None\<rparr>)"
  shows "transport_base s1" "settled (env_fetches s1) (env_sockets s1) (ws_generation s1)"
    "ws_retryTimer s1 = None" "ws_refreshTimer s1 = None" "env_active s1"
    "ws_socket s1 = None \<or> \<not> has_socket (env_sockets s1) (ws_generation s1)"
proof -
  have "transport_base s" and o: "one_attempt (env_fetches s) (env_sockets s) (ws_generation s) (ws_retryTimer s) (ws_socket s)"
    using inv by (simp_all add: transport_inv_def)
  note b = transport_baseD [OF this(1)]
  note t = tracked_link_cleared [OF b(1)]
  show "transport_base s1"
    using t b(6) watching_none [OF t] one_refresh_laws(3) [OF b(3)] numbered_laws(2) [OF numbered_with_life [OF b(2)]]
    by (simp add: s1 transport_base_def clear_link_timers_eq set_life_eq)
  show "settled (env_fetches s1) (env_sockets s1) (ws_generation s1)"
    using settled_closed [OF o i] by (simp add: s1 set_life_eq clear_link_timers_eq)
  show "ws_retryTimer s1 = None" using o i by (auto simp: s1 set_life_eq one_attempt_def clear_link_timers_eq)
  show "ws_refreshTimer s1 = None" by (simp add: s1 clear_link_timers_eq)
  show "ws_socket s1 = None \<or> \<not> has_socket (env_sockets s1) (ws_generation s1)"
    by (simp add: s1 clear_link_timers_eq)
  show "env_active s1" using inv i by (auto simp: s1 set_life_eq transport_inv_def idle_def past_only_def clear_link_timers_eq)
qed

lemma inv_change_status:
  assumes "transport_inv s" "ws_refreshTimer s = None" "ws_socket s = None" "ws_retryTimer s = None"
  shows "transport_inv (publish st s)"
proof -
  have "one_refresh (env_fetches s) (env_sockets s) (ws_generation s) None (ws_socket s) st"
    using assms by (auto simp: transport_inv_def transport_base_def intro: one_refresh_laws)
  then show ?thesis using assms by (simp add: transport_inv_def transport_base_def idle_def)
qed

lemma base_settled_inv:
  assumes "transport_base s" "settled (env_fetches s) (env_sockets s) (ws_generation s)" "env_active s"
  shows "transport_inv s"
  using assms settled_one_attempt by (simp add: transport_inv_def)

text \<open>A socket opens or closes that is not the current one.\<close>

lemma set_life_inv:
  assumes inv: "transport_inv s" and i: "env_sockets s i = Some k" "l = Sk_closed \<or> sk_life k \<noteq> Sk_closed"
    and l: "l \<noteq> Sk_connecting" and stale: "sk_mine k \<noteq> ws_generation s \<or> \<not> sk_wired k \<or> sk_life k = Sk_closed"
  shows "transport_inv (set_life i l s)"
proof -
  have base: "transport_base s" and o: "one_attempt (env_fetches s) (env_sockets s) (ws_generation s) (ws_retryTimer s) (ws_socket s)"
    using inv by (simp_all add: transport_inv_def)
  note b = transport_baseD [OF base]
  have live: "live_in (with_life l i (env_sockets s)) (ws_generation s) (ws_socket s)"
    if "live_in (env_sockets s) (ws_generation s) (ws_socket s)"
    using that stale i by (intro live_in_other_life) auto
  have "current_link (with_life l i (env_sockets s)) (ws_generation s) (ws_socket s) (ws_status s)"
    unfolding current_link_def
  proof (intro impI conjI allI)
    assume a: "ws_socket s \<noteq> None \<and> has_socket (with_life l i (env_sockets s)) (ws_generation s)"
    then have now: "live_in (env_sockets s) (ws_generation s) (ws_socket s)"
      using b(5) by (auto simp: current_link_def dest: has_socket_with_life)
    then show "live_in (with_life l i (env_sockets s)) (ws_generation s) (ws_socket s)" by (rule live)
    fix j k' assume k': "ws_socket s = Some j \<and> with_life l i (env_sockets s) j = Some k' \<and> sk_life k' = Sk_open"
    from now stale i k' have "j \<noteq> i" by (auto simp: live_in_def)
    with k' have "env_sockets s j = Some k'" by (simp add: with_life_at)
    then show "\<exists>b. ws_status s = Open b" using k' a b(5) has_socket_with_life unfolding current_link_def by blast
  qed
  moreover have "watching (env_timers s) (with_life l i (env_sockets s)) (ws_generation s) (ws_socket s)"
    using b(4) live by (auto simp: watching_def)
  moreover have "one_refresh (env_fetches s) (with_life l i (env_sockets s)) (ws_generation s)
      (ws_refreshTimer s) (ws_socket s) (ws_status s)"
    by (rule one_refresh_open_life [OF b(3) l live])
  ultimately have "transport_base (set_life i l s)"
    using b numbered_with_life [OF b(2)] by (simp add: transport_base_def set_life_eq)
  moreover have "one_attempt (env_fetches s) (with_life l i (env_sockets s)) (ws_generation s) (ws_retryTimer s) (ws_socket s)"
    by (rule one_attempt_with_life [OF o i])
  moreover have "past_only (env_fetches s) (env_sockets s) (ws_generation s) \<Longrightarrow>
      past_only (env_fetches s) (with_life l i (env_sockets s)) (ws_generation s)"
    using with_life_mine unfolding past_only_def by metis
  ultimately show ?thesis
    using inv by (simp add: transport_inv_def set_life_eq idle_def)
qed

lemma stale_close_inv:
  assumes inv: "transport_inv s" and i: "\<And>k. env_sockets s i = Some k \<Longrightarrow>
    sk_mine k \<noteq> ws_generation s \<or> \<not> sk_wired k \<or> sk_life k = Sk_closed"
  shows "transport_inv (set_life i Sk_closed s)"
proof (cases "env_sockets s i")
  case None
  then have "with_life Sk_closed i (env_sockets s) = env_sockets s" by (auto simp: with_life_def)
  with inv show ?thesis by (simp add: set_life_eq)
next
  case (Some k)
  show ?thesis
    by (rule set_life_inv [OF inv Some]) (use i [OF Some] in simp_all)
qed

lemma handleClose_inv:
  assumes inv: "transport_inv s" and i: "env_sockets s i = Some k" "sk_wired k" "sk_life k \<noteq> Sk_closed"
  shows "transport_inv (handleClose c (sk_mine k) code reason (set_life i Sk_closed s))"
proof (cases "sk_mine k = ws_generation s")
  case True
  define s1 where "s1 = clear_link_timers ((set_life i Sk_closed s)\<lparr>ws_socket := None\<rparr>)"
  note b = closed_base [OF inv i True s1_def]
  have "transport_inv (scheduleRetry c r s1)" for r by (rule scheduleRetry_inv [OF b])
  moreover have "transport_inv (publish st s1)" for st
    by (rule inv_change_status [OF base_settled_inv [OF b(1,2,5)] b(4) _ b(3)]) (simp add: s1_def clear_link_timers_eq)
  moreover have "ws_generation (set_life i Sk_closed s) = ws_generation s" by (simp add: set_life_eq)
  ultimately show ?thesis using True by (simp add: handleClose_def Let_def flip: s1_def)
next
  case False
  have "transport_inv (set_life i Sk_closed s)"
    by (rule stale_close_inv [OF inv]) (use i False in simp)
  moreover have "ws_generation (set_life i Sk_closed s) = ws_generation s" by (simp add: set_life_eq)
  ultimately show ?thesis using False by (simp add: handleClose_def)
qed

text \<open>The socket of the current generation opens: its watchdog changes, renewal starts.\<close>

lemma armSilence_base:
  assumes "transport_base s" "live_in (env_sockets s) (ws_generation s) (ws_socket s)"
  shows "transport_base (armSilence c (ws_generation s) s)"
proof -
  note b = transport_baseD [OF assms(1)]
  have "watching ((clear_handle (ws_silenceTimer s) (env_timers s))(env_nextTimer s \<mapsto>
      (SilenceTimer (ws_generation s), silenceTimeoutMs c))) (env_sockets s) (ws_generation s) (ws_socket s)"
    by (rule watching_arm [OF watching_clear [OF b(4)] assms(2)]) simp
  moreover have "tracked ((clear_handle (ws_silenceTimer s) (env_timers s))(env_nextTimer s \<mapsto>
      (SilenceTimer (ws_generation s), silenceTimeoutMs c))) (Suc (env_nextTimer s)) (ws_retryTimer s)
      (ws_refreshTimer s) (ws_connectTimer s) (Some (env_nextTimer s))"
    by (rule tracked_set(4) [OF tracked_clear(4) [OF b(1)]])
  ultimately show ?thesis
    using b by (simp add: transport_base_def armSilence_def setTimeout_def clearTimer_eq Let_def)
qed

lemma armConnectTimeout_base:
  assumes "transport_base s" "live_in (env_sockets s) (ws_generation s) (ws_socket s)"
  shows "transport_base (armConnectTimeout c (ws_generation s) s)"
proof -
  note b = transport_baseD [OF assms(1)]
  have "watching ((clear_handle (ws_connectTimer s) (env_timers s))(env_nextTimer s \<mapsto>
      (ConnectTimer (ws_generation s), connectTimeoutMs c))) (env_sockets s) (ws_generation s) (ws_socket s)"
    by (rule watching_arm [OF watching_clear [OF b(4)] assms(2)]) simp
  moreover have "tracked ((clear_handle (ws_connectTimer s) (env_timers s))(env_nextTimer s \<mapsto>
      (ConnectTimer (ws_generation s), connectTimeoutMs c))) (Suc (env_nextTimer s)) (ws_retryTimer s)
      (ws_refreshTimer s) (Some (env_nextTimer s)) (ws_silenceTimer s)"
    by (rule tracked_set(3) [OF tracked_clear(3) [OF b(1)]])
  ultimately show ?thesis
    using b by (simp add: transport_base_def armConnectTimeout_def setTimeout_def clearTimer_eq Let_def)
qed

lemma scheduleAuthRefresh_base:
  assumes base: "transport_base s" and live: "live_in (env_sockets s) (ws_generation s) (ws_socket s)"
    and rf: "ws_refreshTimer s = None" "\<And>f. env_fetches s f \<noteq> Some (ForRefresh, ws_generation s)"
    and st: "ws_status s = Open b" "opened_in (env_sockets s) (ws_generation s)"
  shows "transport_base (scheduleAuthRefresh c s)"
proof -
  note b = transport_baseD [OF base]
  have "watching ((env_timers s)(env_nextTimer s \<mapsto> (RefreshTimer, authRefreshMs c))) (env_sockets s)
      (ws_generation s) (ws_socket s)"
    using b(4) by (auto elim: watching_less split: if_splits)
  moreover have "tracked ((env_timers s)(env_nextTimer s \<mapsto> (RefreshTimer, authRefreshMs c))) (Suc (env_nextTimer s))
      (ws_retryTimer s) (Some (env_nextTimer s)) (ws_connectTimer s) (ws_silenceTimer s)"
    using b(1) rf(1) by (intro tracked_set) simp
  moreover have "one_refresh (env_fetches s) (env_sockets s) (ws_generation s) (Some h) (ws_socket s) (Open b)" for h
    using rf(2) live st(2) by (simp add: one_refresh_def)
  moreover have "ws_retryTimer s = None" using b(6) st by auto
  ultimately show ?thesis
    using base st b(2) by (simp add: transport_base_def scheduleAuthRefresh_def setTimeout_def)
qed

text \<open>An update of the watchdogs and the renewal timer alone keeps the rest of the invariant.\<close>

lemma inv_by_base:
  assumes "transport_inv s" "env_active s" "transport_base s'"
    "env_fetches s' = env_fetches s" "env_sockets s' = env_sockets s" "ws_generation s' = ws_generation s"
    "ws_retryTimer s' = ws_retryTimer s" "ws_socket s' = ws_socket s" "env_active s' = env_active s"
  shows "transport_inv s'"
  using assms by (simp add: transport_inv_def)

lemma armSilence_fields [simp]:
  "env_fetches (armSilence c m s) = env_fetches s" "env_sockets (armSilence c m s) = env_sockets s"
  "ws_generation (armSilence c m s) = ws_generation s" "ws_retryTimer (armSilence c m s) = ws_retryTimer s"
  "ws_socket (armSilence c m s) = ws_socket s" "env_active (armSilence c m s) = env_active s"
  "ws_status (armSilence c m s) = ws_status s" "env_published (armSilence c m s) = env_published s"
  "ws_immediateRuns (armSilence c m s) = ws_immediateRuns s" "ws_attempt (armSilence c m s) = ws_attempt s"
  "ws_refreshTimer (armSilence c m s) = ws_refreshTimer s" "ws_connectTimer (armSilence c m s) = ws_connectTimer s"
  "ws_unwireNetwork (armSilence c m s) = ws_unwireNetwork s" "env_nextSocket (armSilence c m s) = env_nextSocket s"
  "ws_started (armSilence c m s) = ws_started s"
  by (simp_all add: armSilence_def setTimeout_def clearTimer_eq Let_def)

lemma armConnectTimeout_fields [simp]:
  "env_fetches (armConnectTimeout c m s) = env_fetches s" "env_sockets (armConnectTimeout c m s) = env_sockets s"
  "ws_generation (armConnectTimeout c m s) = ws_generation s" "ws_retryTimer (armConnectTimeout c m s) = ws_retryTimer s"
  "ws_socket (armConnectTimeout c m s) = ws_socket s" "env_active (armConnectTimeout c m s) = env_active s"
  "ws_status (armConnectTimeout c m s) = ws_status s" "env_published (armConnectTimeout c m s) = env_published s"
  "ws_immediateRuns (armConnectTimeout c m s) = ws_immediateRuns s" "ws_attempt (armConnectTimeout c m s) = ws_attempt s"
  "ws_refreshTimer (armConnectTimeout c m s) = ws_refreshTimer s"
  "ws_silenceTimer (armConnectTimeout c m s) = ws_silenceTimer s"
  "ws_unwireNetwork (armConnectTimeout c m s) = ws_unwireNetwork s"
  "env_nextSocket (armConnectTimeout c m s) = env_nextSocket s" "ws_started (armConnectTimeout c m s) = ws_started s"
  by (simp_all add: armConnectTimeout_def setTimeout_def clearTimer_eq Let_def)

lemma scheduleAuthRefresh_fields [simp]:
  "env_fetches (scheduleAuthRefresh c s) = env_fetches s" "env_sockets (scheduleAuthRefresh c s) = env_sockets s"
  "ws_generation (scheduleAuthRefresh c s) = ws_generation s" "ws_retryTimer (scheduleAuthRefresh c s) = ws_retryTimer s"
  "ws_socket (scheduleAuthRefresh c s) = ws_socket s" "env_active (scheduleAuthRefresh c s) = env_active s"
  "ws_status (scheduleAuthRefresh c s) = ws_status s" "env_published (scheduleAuthRefresh c s) = env_published s"
  "ws_immediateRuns (scheduleAuthRefresh c s) = ws_immediateRuns s" "ws_attempt (scheduleAuthRefresh c s) = ws_attempt s"
  "ws_connectTimer (scheduleAuthRefresh c s) = ws_connectTimer s" "ws_silenceTimer (scheduleAuthRefresh c s) = ws_silenceTimer s"
  "ws_unwireNetwork (scheduleAuthRefresh c s) = ws_unwireNetwork s"
  "env_nextSocket (scheduleAuthRefresh c s) = env_nextSocket s" "ws_started (scheduleAuthRefresh c s) = ws_started s"
  by (simp_all add: scheduleAuthRefresh_def setTimeout_def)

lemma current_socket:
  assumes "transport_inv s" "env_sockets s i = Some k" "sk_wired k" "sk_life k \<noteq> Sk_closed"
    "sk_mine k = ws_generation s"
  shows "ws_socket s = Some i" "ws_retryTimer s = None" "env_active s"
    "live_in (env_sockets s) (ws_generation s) (ws_socket s)"
  using assms by (auto simp: transport_inv_def one_attempt_def idle_def past_only_def live_in_def)

lemma on_open_inv:
  assumes inv: "transport_inv s" and i: "env_sockets s i = Some k" "sk_wired k" "sk_life k = Sk_connecting"
  shows "transport_inv (on_open c (sk_mine k) (set_life i Sk_open s))"
proof (cases "sk_mine k = ws_generation s")
  case True
  have base: "transport_base s" using inv by (simp add: transport_inv_def)
  note b = transport_baseD [OF base]
  have life: "sk_life k \<noteq> Sk_closed" using i by simp
  note cur = current_socket [OF inv i(1,2) life True]
  let ?S = "with_life Sk_open i (env_sockets s)" and ?g = "ws_generation s"
  have live: "live_in ?S ?g (ws_socket s)" using cur(4) by (rule live_in_with_life) simp
  have unopened: "\<not> opened_in (env_sockets s) ?g"
  proof
    assume "opened_in (env_sockets s) ?g"
    then obtain j k' where j: "env_sockets s j = Some k'" "sk_mine k' = ?g" "sk_life k' \<noteq> Sk_connecting"
      by (auto simp: opened_in_def)
    with b(2) i True have "j = i" by (simp add: numbered_def)
    with j i show False by simp
  qed
  then have rf: "ws_refreshTimer s = None" and no_rf: "\<And>f. env_fetches s f \<noteq> Some (ForRefresh, ?g)"
    using b(3) by (auto simp: one_refresh_def)
  have opened: "opened_in ?S ?g" unfolding opened_in_def
    using i True by (intro exI [of _ i] exI [of _ "k\<lparr>sk_life := Sk_open\<rparr>"]) (simp add: with_life_at)
  define s1 where "s1 = publish (Open (ws_started s))
     (((clearTimer (ws_connectTimer s) (set_life i Sk_open s))\<lparr>ws_connectTimer := None\<rparr>)
        \<lparr>ws_started := True, ws_attempt := 0, ws_immediateRuns := 0\<rparr>)"
  have o: "one_attempt (env_fetches s) ?S ?g (ws_retryTimer s) (ws_socket s)"
    using inv i by (intro one_attempt_with_life) (auto simp: transport_inv_def)
  have "watching (env_timers s) ?S ?g (ws_socket s)"
    using b(4) live by (auto simp: watching_def)
  moreover have "current_link ?S ?g (ws_socket s) (Open (ws_started s))" using live by (simp add: current_link_def)
  ultimately have base1: "transport_base s1"
    using cur(2) watching_clear tracked_clear(3) [OF b(1)] numbered_with_life [OF b(2)] rf no_rf
    by (simp add: transport_base_def s1_def set_life_eq clearTimer_eq one_refresh_def)
  have inv1: "transport_inv s1" using base1 o cur(3)
    by (simp add: transport_inv_def s1_def set_life_eq clearTimer_eq)
  have base2: "transport_base (scheduleAuthRefresh c s1)"
    using live no_rf opened rf
    by (intro scheduleAuthRefresh_base [OF base1, where b = "ws_started s"])
      (simp_all add: s1_def set_life_eq clearTimer_eq)
  have "transport_base (armSilence c (ws_generation (scheduleAuthRefresh c s1)) (scheduleAuthRefresh c s1))"
    using live by (intro armSilence_base [OF base2]) (simp add: s1_def set_life_eq clearTimer_eq)
  then have "transport_inv (armSilence c ?g (scheduleAuthRefresh c s1))"
    using cur(3) by (intro inv_by_base [OF inv1]) (simp_all add: s1_def set_life_eq clearTimer_eq)
  then show ?thesis using True
    by (simp add: on_open_def s1_def set_life_eq clearTimer_eq Let_def)
next
  case False
  have "transport_inv (set_life i Sk_open s)"
    by (rule set_life_inv [OF inv i(1)]) (use i False in simp_all)
  moreover have "ws_generation (set_life i Sk_open s) = ws_generation s" by (simp add: set_life_eq)
  ultimately show ?thesis using False by (simp add: on_open_def)
qed

lemma on_message_inv:
  assumes inv: "transport_inv s" and i: "env_sockets s i = Some k" "sk_wired k" "sk_life k = Sk_open"
  shows "transport_inv (on_message c (sk_mine k) d s)"
proof (cases "sk_mine k = ws_generation s")
  case True
  have life: "sk_life k \<noteq> Sk_closed" using i by simp
  note cur = current_socket [OF inv i(1,2) life True]
  let ?s = "armSilence c (ws_generation s) s"
  have "transport_base ?s" using inv cur(4) by (intro armSilence_base) (simp_all add: transport_inv_def)
  then have inv': "transport_inv ?s" using cur(3) by (intro inv_by_base [OF inv]) simp_all
  have "transport_inv (t\<lparr>env_delivered := x\<rparr>)" if "rememberError c b ?s = Some t" for b t x
    using that inv' by (auto simp: rememberError_def transport_inv_def transport_base_def idle_def
        split: list.splits if_splits sum.splits option.splits HbMessage.splits)
  then show ?thesis using True inv' by (auto simp: on_message_def Let_def split: option.split)
next
  case False
  then show ?thesis using inv by (simp add: on_message_def)
qed

text \<open>The token of the current generation arrives, or does not.\<close>

lemma past_only_answer: "past_only F S g \<Longrightarrow> past_only (F(f := None)) S g"
  by (simp add: past_only_def)

lemma answered_inv:
  assumes "transport_inv s"
  shows "transport_inv (s\<lparr>env_fetches := (env_fetches s)(f := None)\<rparr>)"
  using assms numbered_laws(4) one_refresh_laws(1) one_attempt_laws(1) past_only_answer
  by (simp add: transport_inv_def transport_base_def idle_def)

lemma waiting_for_token:
  assumes inv: "transport_inv s" and f: "env_fetches s f = Some (ForOpen, ws_generation s)"
  shows "ws_retryTimer s = None" "ws_refreshTimer s = None" "env_active s"
    "\<not> has_socket (env_sockets s) (ws_generation s)" "\<not> live_in (env_sockets s) (ws_generation s) so"
proof -
  have none: "\<And>i k. env_sockets s i = Some k \<Longrightarrow> sk_mine k \<noteq> ws_generation s" and "ws_retryTimer s = None"
    using assms by (auto simp: transport_inv_def one_attempt_def)
  then show "ws_retryTimer s = None" "\<not> has_socket (env_sockets s) (ws_generation s)"
    "\<not> live_in (env_sockets s) (ws_generation s) so" by (auto simp: has_socket_def live_in_def)
  show "ws_refreshTimer s = None"
    using inv none by (auto simp: transport_inv_def transport_base_def one_refresh_def opened_in_def)
  show "env_active s" using assms by (auto simp: transport_inv_def idle_def past_only_def)
qed

lemma watching_create:
  assumes "watching T S g so" "\<not> live_in S g so"
  shows "watching T S' g so'"
  using assms unfolding watching_def by blast

lemma created_inv:
  assumes inv: "transport_inv s" and f: "env_fetches s f = Some (ForOpen, ws_generation s)"
    and s1: "s1 = (createSocket u (ws_generation s) (s\<lparr>env_fetches := (env_fetches s)(f := None)\<rparr>))
      \<lparr>ws_socket := Some (env_nextSocket s), ws_lastError := None\<rparr>"
  shows "transport_inv (armConnectTimeout c (ws_generation s) s1)"
proof -
  have base: "transport_base s" and o: "one_attempt (env_fetches s) (env_sockets s) (ws_generation s) (ws_retryTimer s) (ws_socket s)"
    using inv by (simp_all add: transport_inv_def)
  note b = transport_baseD [OF base] and w = waiting_for_token [OF inv f]
  let ?g = "ws_generation s" and ?F = "(env_fetches s)(f := None)" and ?n = "env_nextSocket s"
  let ?S = "(env_sockets s)(?n \<mapsto> fresh_socket u ?g)"
  have none: "\<And>i k. env_sockets s i = Some k \<Longrightarrow> sk_mine k \<noteq> ?g" using w(4) by (auto simp: has_socket_def)
  have free: "env_sockets s ?n = None" using b(2) by (cases "env_sockets s ?n") (auto simp: numbered_def)
  have live: "live_in ?S ?g (Some ?n)" by (simp add: live_in_def fresh_socket_def)
  have eq: "s1 = s\<lparr>env_fetches := ?F, env_sockets := ?S, env_nextSocket := Suc ?n, ws_socket := Some ?n, ws_lastError := None\<rparr>"
    by (simp add: s1 createSocket_def fresh_socket_def)
  have "current_link ?S ?g (Some ?n) (ws_status s)" using live by (simp add: current_link_def fresh_socket_def)
  moreover have "numbered ?F (env_nextFetch s) ?S (Suc ?n) ?g (Some ?n)"
    by (rule numbered_create [OF numbered_laws(4) [OF b(2)] none])
  moreover have "one_refresh ?F ?S ?g None (Some ?n) (ws_status s)"
    by (rule one_refresh_create [OF one_refresh_laws(1) [OF b(3)] free])
  moreover have "watching (env_timers s) ?S ?g (Some ?n)" by (rule watching_create [OF b(4) w(5)])
  ultimately have base1: "transport_base s1" using b(1) w(1,2) by (simp add: transport_base_def eq)
  have inv1: "transport_inv s1"
    using base1 one_attempt_create [OF o f] w(3) by (simp add: transport_inv_def eq)
  have "transport_base (armConnectTimeout c (ws_generation s1) s1)"
    using live by (intro armConnectTimeout_base [OF base1]) (simp add: eq)
  then show ?thesis using w(3) by (intro inv_by_base [OF inv1]) (simp_all add: eq)
qed

lemma open_continues_inv:
  assumes inv: "transport_inv s" and f: "env_fetches s f = Some (ForOpen, mine)"
  shows "transport_inv (open_continues c mine answer created (s\<lparr>env_fetches := (env_fetches s)(f := None)\<rparr>))"
proof (cases "mine = ws_generation s")
  case True
  let ?s = "s\<lparr>env_fetches := (env_fetches s)(f := None)\<rparr>"
  note w = waiting_for_token [OF inv f [unfolded True]]
  have "settled (env_fetches ?s) (env_sockets ?s) (ws_generation ?s)"
    using inv f True by (auto simp: transport_inv_def intro: settled_laws)
  then have "transport_inv (scheduleRetry c backoff ?s)"
    using answered_inv [OF inv] w by (intro scheduleRetry_inv) (simp_all add: transport_inv_def)
  then show ?thesis
    using created_inv [OF inv f [unfolded True] refl] True by (simp add: open_continues_def split: option.split)
next
  case False
  then show ?thesis using answered_inv [OF inv] by (simp add: open_continues_def split: option.split)
qed

lemma refresh_continues_inv:
  assumes inv: "transport_inv s" and f: "env_fetches s f = Some (ForRefresh, mine)"
  shows "transport_inv (refresh_continues c mine answer (s\<lparr>env_fetches := (env_fetches s)(f := None)\<rparr>))"
proof (cases "mine = ws_generation s \<and> ws_socket s \<noteq> None \<and> answer \<noteq> None")
  case True
  then obtain i t where t: "mine = ws_generation s" "ws_socket s = Some i" "answer = Some t" by auto
  let ?s = "socket_send i (encodeMessage (opt_codec c) (HB_AUTH_REFRESH t)) (s\<lparr>env_fetches := (env_fetches s)(f := None)\<rparr>)"
  have inv1: "transport_inv ?s"
    using answered_inv [OF inv] by (simp add: transport_inv_def transport_base_def idle_def socket_send_def)
  have base: "transport_base s" using inv by (simp add: transport_inv_def)
  note b = transport_baseD [OF base]
  have opened: "opened_in (env_sockets s) (ws_generation s)" and rf: "ws_refreshTimer s = None"
    and only: "\<And>f'. env_fetches s f' = Some (ForRefresh, ws_generation s) \<Longrightarrow> f' = f"
    using b(3) f t by (auto simp: one_refresh_def)
  have has: "has_socket (env_sockets s) (ws_generation s)" using opened by (auto simp: opened_in_def has_socket_def)
  then have live: "live_in (env_sockets s) (ws_generation s) (ws_socket s)" using b(5) t by (simp add: current_link_def)
  then obtain k where k: "env_sockets s i = Some k" "sk_mine k = ws_generation s" "sk_life k \<noteq> Sk_closed" "sk_wired k"
    using t by (auto simp: live_in_def)
  have "sk_life k \<noteq> Sk_connecting"
  proof -
    obtain j k' where "env_sockets s j = Some k'" "sk_mine k' = ws_generation s" "sk_life k' \<noteq> Sk_connecting"
      using opened by (auto simp: opened_in_def)
    moreover from this k b(2) have "j = i" by (simp add: numbered_def)
    ultimately show ?thesis using k by simp
  qed
  with k have "sk_life k = Sk_open" by (cases "sk_life k") simp_all
  then obtain b where st: "ws_status s = Open b" using b(5) has t k by (auto simp: current_link_def)
  have act: "env_active s" using k t inv by (auto simp: transport_inv_def idle_def)
  have "transport_base (scheduleAuthRefresh c ?s)"
    using inv1 live rf only opened st
    by (intro scheduleAuthRefresh_base [where b = b]) (auto simp: transport_inv_def socket_send_def split: if_splits)
  then have "transport_inv (scheduleAuthRefresh c ?s)"
    using act by (intro inv_by_base [OF inv1]) (simp_all add: socket_send_def)
  then show ?thesis using t by (simp add: refresh_continues_def)
next
  case False
  then show ?thesis using answered_inv [OF inv] by (auto simp: refresh_continues_def split: option.split)
qed

text \<open>A timer fires.\<close>

lemma fired_handle:
  assumes "transport_inv s" "env_timers s h = Some (cb, ms)"
  shows "timer_kind cb = 0 \<Longrightarrow> ws_retryTimer s = Some h" "timer_kind cb = 1 \<Longrightarrow> ws_refreshTimer s = Some h"
    "timer_kind cb = 2 \<Longrightarrow> ws_connectTimer s = Some h" "timer_kind cb = 3 \<Longrightarrow> ws_silenceTimer s = Some h"
proof -
  have "timer_cell (env_timers s h) h (env_nextTimer s) (ws_retryTimer s) (ws_refreshTimer s) (ws_connectTimer s)
    (ws_silenceTimer s)" using assms(1) by (simp add: transport_inv_def transport_base_def tracked_def)
  with assms(2) show "timer_kind cb = 0 \<Longrightarrow> ws_retryTimer s = Some h" "timer_kind cb = 1 \<Longrightarrow> ws_refreshTimer s = Some h"
    "timer_kind cb = 2 \<Longrightarrow> ws_connectTimer s = Some h" "timer_kind cb = 3 \<Longrightarrow> ws_silenceTimer s = Some h"
    by simp_all
qed

lemma retry_fires_inv:
  assumes inv: "transport_inv s" and h: "env_timers s h = Some (RetryTimer, ms)"
  shows "transport_inv (openSocket (s\<lparr>env_timers := (env_timers s)(h := None), ws_retryTimer := None\<rparr>))"
proof -
  have base: "transport_base s" using inv by (simp add: transport_inv_def)
  note b = transport_baseD [OF base]
  have rt: "ws_retryTimer s = Some h" by (rule fired_handle(1) [OF inv h]) simp
  then have "\<not> live_in (env_sockets s) (ws_generation s) (ws_socket s)"
    using inv by (auto simp: transport_inv_def one_attempt_def live_in_def)
  then have rf: "ws_refreshTimer s = None" using b(3) by (auto simp: one_refresh_def)
  have act: "env_active s" using inv rt by (auto simp: transport_inv_def idle_def)
  have "watching ((env_timers s)(h := None)) (env_sockets s) (ws_generation s) (ws_socket s)"
    using b(4) by (rule watching_less) (simp split: if_splits)
  then have "transport_base (s\<lparr>env_timers := (env_timers s)(h := None), ws_retryTimer := None\<rparr>)"
    using b tracked_fire(1) [OF b(1) h] by (simp add: transport_base_def)
  then show ?thesis using rf act by (intro openSocket_inv) simp_all
qed

lemma refresh_fires_inv:
  assumes inv: "transport_inv s" and h: "env_timers s h = Some (RefreshTimer, ms)"
  shows "transport_inv (request_token ForRefresh (ws_generation s)
    (s\<lparr>env_timers := (env_timers s)(h := None), ws_refreshTimer := None\<rparr>))"
proof -
  have base: "transport_base s" and o: "one_attempt (env_fetches s) (env_sockets s) (ws_generation s) (ws_retryTimer s) (ws_socket s)"
    using inv by (simp_all add: transport_inv_def)
  note b = transport_baseD [OF base]
  have rf: "ws_refreshTimer s = Some h" by (rule fired_handle(2) [OF inv h]) simp
  have act: "env_active s" using inv rf by (auto simp: transport_inv_def idle_def)
  have "watching ((env_timers s)(h := None)) (env_sockets s) (ws_generation s) (ws_socket s)"
    using b(4) by (rule watching_less) (simp split: if_splits)
  then show ?thesis
    using b tracked_fire(2) [OF b(1) h] numbered_laws(3) [OF b(2)] one_refresh_fire [OF b(3) [unfolded rf]]
      one_attempt_laws(2) [OF o] act
    by (simp add: transport_inv_def transport_base_def request_token_def)
qed

lemma dropped_retry_inv:
  assumes inv: "transport_inv s" and live: "live_in (env_sockets s) (ws_generation s) (ws_socket s)"
    and base1: "transport_base s1"
    and same: "env_fetches s1 = env_fetches s" "env_sockets s1 = env_sockets s" "ws_generation s1 = ws_generation s"
      "ws_retryTimer s1 = ws_retryTimer s" "ws_socket s1 = ws_socket s" "env_active s1 = env_active s"
  shows "transport_inv (scheduleRetry c backoff (dropSocket code s1))"
proof -
  from live obtain i k where i: "ws_socket s = Some i" "env_sockets s i = Some k" "sk_wired k" "sk_life k \<noteq> Sk_closed"
    "sk_mine k = ws_generation s" by (auto simp: live_in_def)
  note cur = current_socket [OF inv i(2-5)]
  have o: "one_attempt (env_fetches s) (env_sockets s) (ws_generation s) (ws_retryTimer s) (ws_socket s)"
    using inv by (simp add: transport_inv_def)
  have "settled (env_fetches s) (unwired code i (env_sockets s)) (ws_generation s)"
    by (rule settled_unwired [OF o live i(1)])
  then show ?thesis
    using dropSocket_base [OF base1] same cur i
    by (intro scheduleRetry_inv) (simp_all add: dropSocket_eq clear_link_timers_eq)
qed

lemma watchdog_fires_inv:
  assumes inv: "transport_inv s" and h: "env_timers s h = Some (cb, ms)" "watches cb = Some mine"
    and s1: "s1 = s\<lparr>env_timers := (env_timers s)(h := None), ws_connectTimer := None\<rparr> \<and> timer_kind cb = 2 \<or>
      s1 = s\<lparr>env_timers := (env_timers s)(h := None), ws_silenceTimer := None\<rparr> \<and> timer_kind cb = 3"
  shows "transport_inv (if mine \<noteq> ws_generation s1 \<or> ws_socket s1 = None then s1
    else scheduleRetry c backoff (dropSocket CLOSE_NORMAL s1))"
proof -
  have base: "transport_base s" using inv by (simp add: transport_inv_def)
  note b = transport_baseD [OF base]
  have "watching ((env_timers s)(h := None)) (env_sockets s) (ws_generation s) (ws_socket s)"
    using b(4) by (rule watching_less) (simp split: if_splits)
  then have base1: "transport_base s1"
    using s1 b tracked_fire(3,4) [OF b(1) h(1)] by (auto simp: transport_base_def)
  have same: "env_fetches s1 = env_fetches s" "env_sockets s1 = env_sockets s" "ws_generation s1 = ws_generation s"
      "ws_retryTimer s1 = ws_retryTimer s" "ws_socket s1 = ws_socket s" "env_active s1 = env_active s"
    using s1 by auto
  show ?thesis
  proof (cases "mine \<noteq> ws_generation s1 \<or> ws_socket s1 = None")
    case True
    have act: "env_active s" using fired_handle(3,4) [OF inv h(1)] s1 inv by (auto simp: transport_inv_def idle_def)
    then show ?thesis using True inv_by_base [OF inv act base1 same] by simp
  next
    case False
    have "live_in (env_sockets s) (ws_generation s) (ws_socket s)"
      using b(4) h False same unfolding watching_def by (metis fst_conv)
    from dropped_retry_inv [OF inv this base1 same] show ?thesis using False by (simp del: not_None_eq)
  qed
qed

lemma timer_fires_inv:
  assumes "transport_inv s"
  shows "transport_inv (timer_fires c h s)"
proof (cases "env_timers s h")
  case None
  then show ?thesis using assms by (simp add: timer_fires_def)
next
  case (Some p)
  then obtain cb ms where h: "env_timers s h = Some (cb, ms)" by (cases p) simp
  show ?thesis
  proof (cases cb)
    case RetryTimer
    then show ?thesis using retry_fires_inv [OF assms] h by (simp add: timer_fires_def)
  next
    case RefreshTimer
    then show ?thesis using refresh_fires_inv [OF assms] h by (simp add: timer_fires_def)
  next
    case (ConnectTimer m)
    then show ?thesis using watchdog_fires_inv [OF assms h, of m _ c] h by (simp add: timer_fires_def Let_def)
  next
    case (SilenceTimer m)
    then show ?thesis using watchdog_fires_inv [OF assms h, of m _ c] h by (simp add: timer_fires_def Let_def)
  qed
qed

text \<open>The network and the client.\<close>

lemma dropSocket_inv:
  assumes inv: "transport_inv s" and act: "env_active s" and rt: "ws_retryTimer s = None"
  shows "transport_inv (publish st (dropSocket code s))"
proof -
  have base: "transport_base s" and o: "one_attempt (env_fetches s) (env_sockets s) (ws_generation s) None (ws_socket s)"
    using inv rt by (simp_all add: transport_inv_def)
  have "transport_inv (dropSocket code s)"
    using dropSocket_base [OF base] o one_attempt_unwired act rt
    by (auto simp: transport_inv_def dropSocket_eq clear_link_timers_eq split: option.split)
  then show ?thesis using rt by (intro inv_change_status) (simp_all add: dropSocket_eq clear_link_timers_eq)
qed

lemma retry_cleared_inv:
  assumes inv: "transport_inv s" and act: "env_active s"
  shows "transport_inv ((clearTimer (ws_retryTimer s) s)\<lparr>ws_retryTimer := None\<rparr>)"
proof -
  have base: "transport_base s" and o: "one_attempt (env_fetches s) (env_sockets s) (ws_generation s) (ws_retryTimer s) (ws_socket s)"
    using inv by (simp_all add: transport_inv_def)
  note b = transport_baseD [OF base]
  have "one_attempt (env_fetches s) (env_sockets s) (ws_generation s) None (ws_socket s)"
    using o by (rule one_attempt_laws(3))
  then show ?thesis
    using b tracked_clear(1) [OF b(1)] watching_clear [OF b(4)] act
    by (simp add: transport_inv_def transport_base_def clearTimer_eq)
qed

lemma onNetworkOffline_inv:
  assumes "transport_inv s" "env_active s"
  shows "transport_inv (onNetworkOffline s)"
proof -
  have "transport_inv (publish st (dropSocket code ((clearTimer (ws_retryTimer s) s)\<lparr>ws_retryTimer := None\<rparr>)))" for st code
    using assms by (intro dropSocket_inv retry_cleared_inv) (simp_all add: clearTimer_eq)
  then show ?thesis using assms(1) by (simp add: onNetworkOffline_def)
qed

lemma stopped_offline_quiet:
  assumes "transport_base s" "ws_status s = Stopped r e m"
  shows "ws_retryTimer s = None" "ws_refreshTimer s = None"
proof -
  show "ws_retryTimer s = None" using transport_baseD(6) [OF assms(1)] assms(2) by auto
  show "ws_refreshTimer s = None" using transport_baseD(3) [OF assms(1)] assms(2) by (simp add: one_refresh_def)
qed

lemma onNetworkOnline_inv:
  assumes inv: "transport_inv s" and act: "env_active s"
  shows "transport_inv (onNetworkOnline s)"
proof (cases "\<exists>e m. ws_status s = Stopped stopped_offline e m")
  case True
  then obtain e m where st: "ws_status s = Stopped stopped_offline e m" by blast
  have base: "transport_base s" using inv by (simp add: transport_inv_def)
  have "transport_base (s\<lparr>ws_attempt := 0\<rparr>)" using base by (simp add: transport_base_def)
  then have "transport_inv (openSocket (s\<lparr>ws_attempt := 0\<rparr>))"
    using stopped_offline_quiet [OF base st] act by (intro openSocket_inv) simp_all
  then show ?thesis using st by (simp add: onNetworkOnline_def)
next
  case False
  then show ?thesis using inv by (auto simp: onNetworkOnline_def split: TransportStatus.split StopReason.split)
qed

lemma connect_inv:
  assumes inv: "transport_inv s" and idle: "\<not> env_active s"
  shows "transport_inv ((transport_connect s)\<lparr>env_active := True\<rparr>)"
proof -
  have i: "idle s" and base: "transport_base s" and o: "one_attempt (env_fetches s) (env_sockets s) (ws_generation s) (ws_retryTimer s) (ws_socket s)"
    using inv idle by (simp_all add: transport_inv_def)
  define s1 where "s1 = s\<lparr>ws_unwireNetwork := True, ws_attempt := 0, env_active := True\<rparr>"
  have base1: "transport_base s1" using base by (simp add: transport_base_def s1_def)
  have "transport_inv s1" using base1 o by (simp add: transport_inv_def s1_def)
  then have "transport_inv (publish OFFLINE_STATUS s1)"
    using i by (intro inv_change_status) (simp_all add: s1_def idle_def)
  moreover have "transport_inv (openSocket s1)"
    using base1 i by (intro openSocket_inv) (simp_all add: s1_def idle_def)
  moreover have "(transport_connect s)\<lparr>env_active := True\<rparr> = (if isBrowserOffline s then publish OFFLINE_STATUS s1 else openSocket s1)"
    by (simp add: transport_connect_def s1_def isBrowserOffline_def publish_def openSocket_def request_token_def Let_def)
  ultimately show ?thesis by simp
qed

lemma past_only_next:
  assumes "numbered F nf S ns g so"
  shows "past_only F S (Suc g)"
proof -
  have "m \<le> g" if "F f = Some (p, m)" for f p m using assms that by (auto simp: numbered_def)
  moreover have "sk_mine k \<le> g" if "S i = Some k" for i k using assms that by (auto simp: numbered_def)
  ultimately show ?thesis unfolding past_only_def by (metis not_less_eq_eq order_refl)
qed

lemma past_only_unwired: "past_only F S g \<Longrightarrow> past_only F (unwired code i S) g"
  using unwired_mine unfolding past_only_def by metis

lemma disconnect_inv:
  assumes inv: "transport_inv s"
  shows "transport_inv ((transport_disconnect s)\<lparr>env_active := False\<rparr>)"
proof -
  have base: "transport_base s" using inv by (simp add: transport_inv_def)
  note b = transport_baseD [OF base]
  let ?S = "case ws_socket s of None \<Rightarrow> env_sockets s | Some i \<Rightarrow> unwired CLOSE_NORMAL i (env_sockets s)"
  let ?T = "clear_handle (ws_silenceTimer s) (clear_handle (ws_connectTimer s) (clear_handle (ws_refreshTimer s)
    (clear_handle (ws_retryTimer s) (env_timers s))))"
  have t: "tracked ?T (env_nextTimer s) None None None None"
    by (rule tracked_link_cleared [OF tracked_clear(1) [OF b(1)]])
  have n: "numbered (env_fetches s) (env_nextFetch s) ?S (env_nextSocket s) (Suc (ws_generation s)) None"
    using numbered_laws(2) [OF b(2)] numbered_unwired [OF b(2)] by (auto intro: numbered_laws(1) split: option.split)
  have p: "past_only (env_fetches s) ?S (Suc (ws_generation s))"
    using past_only_next [OF b(2)] past_only_unwired by (auto split: option.split)
  then have "one_attempt (env_fetches s) ?S (Suc (ws_generation s)) None None"
    "one_refresh (env_fetches s) ?S (Suc (ws_generation s)) None None (ws_status s)"
    by (auto simp: past_only_def one_attempt_def one_refresh_def)
  with t n p watching_none [OF t] show ?thesis
    by (cases "ws_socket s") (simp_all add: transport_inv_def transport_base_def transport_disconnect_def dropSocket_eq
      clear_link_timers_eq clearTimer_eq idle_def Let_def)
qed

subsection \<open>Every run keeps the invariant\<close>

lemma listens_Some:
  "listens p i s = Some m \<longleftrightarrow> (\<exists>k. env_sockets s i = Some k \<and> sk_wired k \<and> p k \<and> m = sk_mine k)"
  by (auto simp: listens_def split: option.split)

lemma listens_None: "listens p i s = None \<Longrightarrow> env_sockets s i = Some k \<Longrightarrow> \<not> sk_wired k \<or> \<not> p k"
  by (auto simp: listens_def split: if_splits)

lemma transport_send_inv:
  assumes "transport_inv s"
  shows "transport_inv (transport_send b s)"
proof -
  have "transport_inv (s\<lparr>env_sent := x\<rparr>)" "transport_inv (s\<lparr>ws_droppedWhileDown := n\<rparr>)" for x n
    using assms by (simp_all add: transport_inv_def transport_base_def idle_def)
  then show ?thesis by (simp add: transport_send_def socket_send_def split: option.split TransportStatus.split)
qed

lemma transport_step_inv:
  assumes inv: "transport_inv s" and e: "e = Connect \<Longrightarrow> \<not> env_active s"
  shows "transport_inv (transport_step c s e)"
proof (cases e)
  case Connect
  then show ?thesis using connect_inv [OF inv] e by simp
next
  case Disconnect
  then show ?thesis using disconnect_inv [OF inv] by simp
next
  case (SendMessage b)
  then show ?thesis using transport_send_inv [OF inv] by simp
next
  case (TimerFires h)
  then show ?thesis using timer_fires_inv [OF inv] by simp
next
  case (TokenAnswered f answer created)
  show ?thesis
  proof (cases "env_fetches s f")
    case (Some p)
    then obtain q m where "env_fetches s f = Some (q, m)" by (cases p) simp
    then show ?thesis using TokenAnswered open_continues_inv [OF inv] refresh_continues_inv [OF inv]
      by (cases q) (simp_all add: token_answered_def)
  qed (use TokenAnswered inv in \<open>simp add: token_answered_def\<close>)
next
  case (SocketOpens i)
  then show ?thesis using inv on_open_inv [OF inv]
    by (auto simp: listens_Some split: option.split)
next
  case (SocketMessage i d)
  then show ?thesis using inv on_message_inv [OF inv]
    by (auto simp: listens_Some split: option.split)
next
  case (SocketCloses i code reason)
  show ?thesis
  proof (cases "listens (\<lambda>k. sk_life k \<noteq> Sk_closed) i s")
    case None
    then show ?thesis using SocketCloses stale_close_inv [OF inv] listens_None [OF None] by auto
  next
    case (Some m)
    then obtain k where "env_sockets s i = Some k" "sk_wired k" "sk_life k \<noteq> Sk_closed" "m = sk_mine k"
      by (auto simp: listens_Some)
    with SocketCloses Some handleClose_inv [OF inv] show ?thesis by simp
  qed
next
  case OfflineEvent
  then show ?thesis using inv onNetworkOffline_inv [OF inv] by (auto simp: transport_inv_def idle_def)
next
  case OnlineEvent
  then show ?thesis using inv onNetworkOnline_inv [OF inv] by (auto simp: transport_inv_def idle_def)
qed (use inv in \<open>simp_all add: transport_inv_def transport_base_def idle_def\<close>)

lemma new_transport_inv: "transport_inv (new_transport onLine)"
  by (simp add: new_transport_def transport_inv_def transport_base_def tracked_def numbered_def one_attempt_def
    one_refresh_def watching_def current_link_def idle_def past_only_def)

lemma transport_run_inv: "transport_run c s \<Longrightarrow> transport_inv s"
  by (induction rule: transport_run.induct) (simp_all add: new_transport_inv transport_step_inv)

end
