(* ===== verification/TransportProperties.thy ===== *)
theory TransportProperties
  imports TransportInvariant
begin

text \<open>
  What the reconnecting socket guarantees over every run: something is always pending while it is not
  stopped, its delays are bounded, a refusal of the server is final but for the offline event, and there
  is one connection at a time but for an offline event during a token request.
\<close>

subsection \<open>Progress\<close>

definition waiting :: "(nat \<rightharpoonup> TokenPurpose \<times> nat) \<Rightarrow> nat \<Rightarrow> bool" where
  "waiting F g \<longleftrightarrow> (\<exists>f. F f = Some (ForOpen, g))"

definition watched :: "(nat \<rightharpoonup> TimerCallback \<times> int) \<Rightarrow> TimerCallback \<Rightarrow> bool" where
  "watched T cb \<longleftrightarrow> (\<exists>h ms. T h = Some (cb, ms))"

definition linked :: "(nat \<rightharpoonup> Socket) \<Rightarrow> nat \<Rightarrow> nat option \<Rightarrow> SocketLife \<Rightarrow> bool" where
  "linked S g so l \<longleftrightarrow> (\<exists>i k. so = Some i \<and> S i = Some k \<and> sk_wired k \<and> sk_mine k = g \<and> sk_life k = l)"

text \<open>What each status promises.\<close>

fun promised :: "TransportStatus \<Rightarrow> (nat \<rightharpoonup> TimerCallback \<times> int) \<Rightarrow> (nat \<rightharpoonup> TokenPurpose \<times> nat) \<Rightarrow>
    (nat \<rightharpoonup> Socket) \<Rightarrow> nat \<Rightarrow> nat option \<Rightarrow> bool" where
  "promised (Connecting n) T F S g so \<longleftrightarrow>
     waiting F g \<or> linked S g so Sk_connecting \<and> watched T (ConnectTimer g)"
| "promised (Open b) T F S g so \<longleftrightarrow> linked S g so Sk_open \<and> watched T (SilenceTimer g)"
| "promised (Retrying n d) T F S g so \<longleftrightarrow> watched T RetryTimer"
| "promised (Stopped stopped_fatal e m) T F S g so \<longleftrightarrow> (\<forall>h. T h = None) \<and> settled F S g \<and> so = None"
| "promised (Stopped stopped_offline e m) T F S g so \<longleftrightarrow> True"

definition progress :: "Transport \<Rightarrow> bool" where
  "progress s \<longleftrightarrow> (env_active s \<longrightarrow> ws_unwireNetwork s \<and>
     promised (ws_status s) (env_timers s) (env_fetches s) (env_sockets s) (ws_generation s) (ws_socket s))"

lemma tracked_no_timers: "tracked T n None None None None \<Longrightarrow> T h = None"
proof -
  assume "tracked T n None None None None"
  then have "timer_cell (T h) h n None None None None" by (simp add: tracked_def)
  then show "T h = None"
  proof (cases "T h")
    case (Some p)
    then have "timer_kind (fst p) \<noteq> 0 \<and> timer_kind (fst p) \<noteq> 1 \<and> timer_kind (fst p) \<noteq> 2 \<and> timer_kind (fst p) \<noteq> 3"
      using \<open>timer_cell (T h) h n None None None None\<close> by simp
    then show ?thesis by (cases "fst p") simp_all
  qed
qed

lemma promised_more_timers:
  assumes "promised st T F S g so" "\<And>cb. watched T cb \<Longrightarrow> watched T' cb" "\<And>e m. st \<noteq> Stopped stopped_fatal e m"
  shows "promised st T' F S g so"
  using assms by (cases "(st, T, F, S, g, so)" rule: promised.cases) auto

lemma scheduleRetry_progress:
  assumes "ws_unwireNetwork s"
  shows "progress (scheduleRetry c r s)"
  using assms by (auto simp: scheduleRetry_def progress_def OFFLINE_STATUS_def setTimeout_def watched_def Let_def)

lemma openSocket_progress:
  assumes "ws_unwireNetwork s"
  shows "progress (openSocket s)"
  using assms by (auto simp: openSocket_def progress_def request_token_def waiting_def Let_def)

lemma linked_stale_life:
  assumes "linked S g so l'" "S i = Some k" "sk_mine k \<noteq> g \<or> \<not> sk_wired k"
  shows "linked (with_life l i S) g so l'"
proof -
  from assms(1) obtain j k' where j: "so = Some j" "S j = Some k'" "sk_wired k'" "sk_mine k' = g" "sk_life k' = l'"
    by (auto simp: linked_def)
  with assms(2,3) have "j \<noteq> i" by auto
  with j show ?thesis by (auto simp: linked_def with_life_at)
qed

lemma settled_stale_life:
  assumes "settled F S g" "S i = Some k" "sk_mine k \<noteq> g \<or> \<not> sk_wired k \<or> l = Sk_closed"
  shows "settled F (with_life l i S) g"
  unfolding settled_def
proof (intro conjI allI impI)
  show "F f \<noteq> Some (ForOpen, g)" for f using assms(1) by (simp add: settled_def)
  fix j k' assume k': "with_life l i S j = Some k' \<and> sk_wired k' \<and> sk_life k' \<noteq> Sk_closed"
  show "sk_mine k' \<noteq> g"
  proof (cases "j = i")
    case True
    then have "sk_mine k' = sk_mine k" "sk_wired k' = sk_wired k" "sk_life k' = l"
      using k' assms(2) by (auto simp: with_life_at)
    then show ?thesis using assms(3) k' by auto
  next
    case False
    then show ?thesis using k' assms(1) unfolding settled_def with_life_at by auto
  qed
qed

lemma stale_life_progress:
  assumes p: "progress s" and k: "env_sockets s i = Some k"
    and stale: "sk_mine k \<noteq> ws_generation s \<or> \<not> sk_wired k"
  shows "progress (set_life i l s)"
proof -
  have "linked (env_sockets s) (ws_generation s) so l' \<Longrightarrow> linked (with_life l i (env_sockets s)) (ws_generation s) so l'"
    for so l' using k stale by (rule linked_stale_life [rotated])
  moreover have "settled F (env_sockets s) (ws_generation s) \<Longrightarrow>
      settled F (with_life l i (env_sockets s)) (ws_generation s)" for F
    by (rule settled_stale_life [where k = k]) (use k stale in auto)
  ultimately show ?thesis using p
  by (cases "(ws_status s, env_timers s, env_fetches s, env_sockets s, ws_generation s, ws_socket s)" rule: promised.cases)
    (auto simp: progress_def set_life_eq)
qed

text \<open>Every callback keeps the promise.\<close>

lemma handleClose_progress:
  assumes inv: "transport_inv s" and p: "progress s" and i: "env_sockets s i = Some k" "sk_wired k" "sk_life k \<noteq> Sk_closed"
  shows "progress (handleClose c (sk_mine k) code reason (set_life i Sk_closed s))"
proof (cases "sk_mine k = ws_generation s")
  case True
  define s1 where "s1 = clear_link_timers ((set_life i Sk_closed s)\<lparr>ws_socket := None\<rparr>)"
  note b = closed_base [OF inv i True s1_def]
  have "ws_unwireNetwork s1" using p b(5) by (simp add: s1_def progress_def clear_link_timers_eq set_life_eq)
  then have retry: "progress (scheduleRetry c r s1)" for r by (rule scheduleRetry_progress)
  have "env_timers s1 h = None" for h
    using transport_baseD(1) [OF b(1)] b(3) by (intro tracked_no_timers) (simp add: s1_def clear_link_timers_eq)
  then have "progress (publish (Stopped stopped_fatal e m) s1)" for e m
    using b(2) \<open>ws_unwireNetwork s1\<close> by (simp add: progress_def) (simp add: s1_def clear_link_timers_eq)
  moreover have "ws_generation (set_life i Sk_closed s) = ws_generation s" by (simp add: set_life_eq)
  ultimately show ?thesis using True retry by (simp add: handleClose_def Let_def flip: s1_def)
next
  case False
  have "progress (set_life i Sk_closed s)" by (rule stale_life_progress [OF p i(1)]) (use False in simp)
  then show ?thesis using False by (simp add: handleClose_def set_life_eq)
qed

lemma armSilence_watched: "0 < silenceTimeoutMs c \<Longrightarrow> watched (env_timers (armSilence c m s)) (SilenceTimer m)"
  by (auto simp: armSilence_def setTimeout_def watched_def Let_def)

lemma armConnect_watched: "0 < connectTimeoutMs c \<Longrightarrow> watched (env_timers (armConnectTimeout c m s)) (ConnectTimer m)"
  by (auto simp: armConnectTimeout_def setTimeout_def watched_def Let_def)

lemma on_open_progress:
  assumes inv: "transport_inv s" and p: "progress s" and i: "env_sockets s i = Some k" "sk_wired k" "sk_life k = Sk_connecting"
    and c: "0 < silenceTimeoutMs c"
  shows "progress (on_open c (sk_mine k) (set_life i Sk_open s))"
proof (cases "sk_mine k = ws_generation s")
  case True
  have life: "sk_life k \<noteq> Sk_closed" using i by simp
  note cur = current_socket [OF inv i(1,2) life True]
  have "linked (with_life Sk_open i (env_sockets s)) (ws_generation s) (ws_socket s) Sk_open"
    using cur(1) i True by (simp add: linked_def with_life_at)
  then show ?thesis using True c p cur(3)
    by (simp add: on_open_def progress_def Let_def set_life_eq clearTimer_eq armSilence_watched)
next
  case False
  have "progress (set_life i Sk_open s)" by (rule stale_life_progress [OF p i(1)]) (use False in simp)
  then show ?thesis using False by (simp add: on_open_def set_life_eq)
qed

lemma on_message_progress:
  assumes inv: "transport_inv s" and p: "progress s" and i: "env_sockets s i = Some k" "sk_wired k" "sk_life k = Sk_open"
    and c: "0 < silenceTimeoutMs c"
  shows "progress (on_message c (sk_mine k) d s)"
proof (cases "sk_mine k = ws_generation s")
  case True
  have life: "sk_life k \<noteq> Sk_closed" using i by simp
  note cur = current_socket [OF inv i(1,2) life True]
  have "has_socket (env_sockets s) (ws_generation s)" using i True by (auto simp: has_socket_def)
  then obtain b where st: "ws_status s = Open b"
    using inv i cur(1) by (auto simp: transport_inv_def transport_base_def current_link_def)
  have "linked (env_sockets s) (ws_generation s) (ws_socket s) Sk_open" using cur(1) i True by (simp add: linked_def)
  then have "progress (armSilence c (ws_generation s) s)" using c st p cur(3)
    by (simp add: progress_def armSilence_watched)
  moreover from this have "progress (t\<lparr>env_delivered := x\<rparr>)"
    if "rememberError c b (armSilence c (ws_generation s) s) = Some t" for b t x
    using that by (auto simp: rememberError_def progress_def split: list.splits if_splits sum.splits option.splits HbMessage.splits)
  ultimately show ?thesis using True by (auto simp: on_message_def Let_def split: option.split)
qed (use p in \<open>simp add: on_message_def\<close>)

lemma refresh_status:
  assumes inv: "transport_inv s" and f: "env_fetches s f = Some (ForRefresh, ws_generation s)" and so: "ws_socket s \<noteq> None"
  shows "\<exists>b. ws_status s = Open b"
proof -
  have base: "transport_base s" using inv by (simp add: transport_inv_def)
  note b = transport_baseD [OF base]
  obtain j k' where j: "env_sockets s j = Some k'" "sk_mine k' = ws_generation s" "sk_life k' \<noteq> Sk_connecting"
    using b(3) f by (auto simp: one_refresh_def opened_in_def)
  then have has: "has_socket (env_sockets s) (ws_generation s)" by (auto simp: has_socket_def)
  then obtain i k where k: "ws_socket s = Some i" "env_sockets s i = Some k" "sk_mine k = ws_generation s" "sk_life k \<noteq> Sk_closed"
    using b(5) so by (auto simp: current_link_def live_in_def)
  with j b(2) have "j = i" by (simp add: numbered_def)
  with j k have "sk_life k = Sk_open" by (cases "sk_life k") simp_all
  then show ?thesis using b(5) has k by (auto simp: current_link_def)
qed

lemma answered_progress:
  assumes "progress s" "env_fetches s f = Some (p, m)" "p = ForRefresh \<or> m \<noteq> ws_generation s"
  shows "progress (s\<lparr>env_fetches := (env_fetches s)(f := None)\<rparr>)"
proof -
  have "waiting (env_fetches s) (ws_generation s) \<Longrightarrow> waiting ((env_fetches s)(f := None)) (ws_generation s)"
    using assms(2,3) unfolding waiting_def by (metis Pair_inject TokenPurpose.distinct(1) fun_upd_apply option.inject)
  moreover have "settled (env_fetches s) S g \<Longrightarrow> settled ((env_fetches s)(f := None)) S g" for S g
    unfolding settled_def by auto
  ultimately show ?thesis using assms(1)
    by (cases "(ws_status s, env_timers s, env_fetches s, env_sockets s, ws_generation s, ws_socket s)" rule: promised.cases)
      (auto simp: progress_def)
qed

lemma refresh_continues_progress:
  assumes inv: "transport_inv s" and p: "progress s" and f: "env_fetches s f = Some (ForRefresh, mine)"
  shows "progress (refresh_continues c mine answer (s\<lparr>env_fetches := (env_fetches s)(f := None)\<rparr>))"
proof -
  let ?s = "s\<lparr>env_fetches := (env_fetches s)(f := None)\<rparr>"
  have p': "progress ?s" by (rule answered_progress [OF p f]) simp
  have "progress (scheduleAuthRefresh c (socket_send i b ?s))" if m: "mine = ws_generation s" "ws_socket s = Some i" for i b
  proof -
    obtain r where "ws_status s = Open r" using refresh_status [OF inv f [unfolded m(1)]] m by auto
    moreover have free: "env_timers s (env_nextTimer s) = None"
    proof -
      have "timer_cell (env_timers s (env_nextTimer s)) (env_nextTimer s) (env_nextTimer s) (ws_retryTimer s)
          (ws_refreshTimer s) (ws_connectTimer s) (ws_silenceTimer s)"
        using inv by (simp add: transport_inv_def transport_base_def tracked_def)
      then show ?thesis by (cases "env_timers s (env_nextTimer s)") simp_all
    qed
    then have "watched (env_timers s) cb \<Longrightarrow> watched ((env_timers s)(env_nextTimer s \<mapsto> x)) cb" for cb x
      unfolding watched_def by (metis fun_upd_apply option.discI)
    ultimately show ?thesis using p'
      by (auto simp: progress_def scheduleAuthRefresh_def setTimeout_def socket_send_def)
  qed
  then show ?thesis using p' by (simp add: refresh_continues_def split: option.split)
qed

lemma open_continues_progress:
  assumes inv: "transport_inv s" and p: "progress s" and f: "env_fetches s f = Some (ForOpen, mine)"
    and c: "0 < connectTimeoutMs c"
  shows "progress (open_continues c mine answer created (s\<lparr>env_fetches := (env_fetches s)(f := None)\<rparr>))"
proof (cases "mine = ws_generation s")
  case True
  let ?s = "s\<lparr>env_fetches := (env_fetches s)(f := None)\<rparr>"
  note w = waiting_for_token [OF inv f [unfolded True]]
  have un: "ws_unwireNetwork s" using p w(3) by (simp add: progress_def)
  then have retry: "progress (scheduleRetry c backoff ?s)" by (intro scheduleRetry_progress) simp
  have base: "transport_base s" using inv by (simp add: transport_inv_def)
  define s1 where "s1 u = armConnectTimeout c mine
    ((createSocket u mine ?s)\<lparr>ws_socket := Some (env_nextSocket s), ws_lastError := None\<rparr>)" for u
  have linked: "linked (env_sockets (s1 u)) (ws_generation s) (ws_socket (s1 u)) Sk_connecting" for u
    by (simp add: s1_def linked_def createSocket_def True)
  have watched: "watched (env_timers (s1 u)) (ConnectTimer (ws_generation s))" for u
    using armConnect_watched [OF c] by (simp add: s1_def True)
  have "ws_status s \<noteq> Open b" "ws_status s \<noteq> Retrying n d" "ws_status s \<noteq> Stopped stopped_fatal e m" for b n d e m
  proof -
    show "ws_status s \<noteq> Open b" using p w(3,4) by (auto simp: progress_def linked_def has_socket_def)
    show "ws_status s \<noteq> Stopped stopped_fatal e m" using p w(3) f True by (auto simp: progress_def settled_def)
    show "ws_status s \<noteq> Retrying n d"
    proof
      assume "ws_status s = Retrying n d"
      then obtain h ms where h: "env_timers s h = Some (RetryTimer, ms)" using p w(3) by (auto simp: progress_def watched_def)
      then show False using fired_handle(1) [OF inv h] w(1) by simp
    qed
  qed
  then have "(\<exists>n. ws_status s = Connecting n) \<or> (\<exists>e m. ws_status s = Stopped stopped_offline e m)"
    by (cases "ws_status s"; metis StopReason.exhaust)
  then have "progress (s1 u)" for u
    using linked [of u] watched [of u] un by (auto simp: progress_def s1_def createSocket_def)
  then show ?thesis using retry True
    by (simp add: open_continues_def s1_def split: option.split)
next
  case False
  have "progress (s\<lparr>env_fetches := (env_fetches s)(f := None)\<rparr>)" by (rule answered_progress [OF p f]) (use False in simp)
  then show ?thesis using False by (simp add: open_continues_def split: option.split)
qed

lemma fired_watch:
  assumes inv: "transport_inv s" and h: "env_timers s h = Some (cb, ms)" and w: "watched (env_timers s) cb'"
    and d: "cb' \<noteq> cb"
  shows "watched ((env_timers s)(h := None)) cb'"
  using w d h unfolding watched_def by (metis fun_upd_other option.inject Pair_inject)

lemma timer_fires_progress:
  assumes inv: "transport_inv s" and p: "progress s"
  shows "progress (timer_fires c h s)"
proof (cases "env_timers s h")
  case (Some q)
  then obtain cb ms where h: "env_timers s h = Some (cb, ms)" by (cases q) simp
  have act: "env_active s"
    using fired_handle [OF inv h] inv by (cases cb) (auto simp: transport_inv_def idle_def)
  then have un: "ws_unwireNetwork s" using p by (simp add: progress_def)
  have not_fatal: "ws_status s \<noteq> Stopped stopped_fatal e m" for e m
    using p act h by (auto simp: progress_def)
  note watch = fired_watch [OF inv h]
  have base: "transport_base s" using inv by (simp add: transport_inv_def)
  note b = transport_baseD [OF base]
  show ?thesis
  proof (cases cb)
    case RetryTimer
    then show ?thesis using h un by (simp add: timer_fires_def openSocket_progress)
  next
    case RefreshTimer
    have free: "env_fetches s (env_nextFetch s) = None"
      using b(2) by (cases "env_fetches s (env_nextFetch s)") (auto simp: numbered_def)
    then have "waiting (env_fetches s) g \<Longrightarrow> waiting ((env_fetches s)(env_nextFetch s \<mapsto> x)) g" for g x
      unfolding waiting_def by (metis fun_upd_other option.discI)
    then show ?thesis using RefreshTimer h un p act not_fatal watch
      by (cases "(ws_status s, env_timers s, env_fetches s, env_sockets s, ws_generation s, ws_socket s)" rule: promised.cases)
        (auto simp: timer_fires_def progress_def request_token_def)
  next
    case (ConnectTimer m)
    show ?thesis
    proof (cases "m \<noteq> ws_generation s \<or> ws_socket s = None")
      case False
      then show ?thesis using h un ConnectTimer
        by (auto simp: timer_fires_def Let_def dropSocket_eq clear_link_timers_eq intro!: scheduleRetry_progress)
    next
      case True
      then show ?thesis using ConnectTimer h un p act not_fatal watch
        by (cases "(ws_status s, env_timers s, env_fetches s, env_sockets s, ws_generation s, ws_socket s)" rule: promised.cases)
          (auto simp: timer_fires_def progress_def linked_def)
    qed
  next
    case (SilenceTimer m)
    show ?thesis
    proof (cases "m \<noteq> ws_generation s \<or> ws_socket s = None")
      case False
      then show ?thesis using h un SilenceTimer
        by (auto simp: timer_fires_def Let_def dropSocket_eq clear_link_timers_eq intro!: scheduleRetry_progress)
    next
      case True
      then show ?thesis using SilenceTimer h un p act not_fatal watch
        by (cases "(ws_status s, env_timers s, env_fetches s, env_sockets s, ws_generation s, ws_socket s)" rule: promised.cases)
          (auto simp: timer_fires_def progress_def linked_def)
    qed
  qed
qed (use p in \<open>simp add: timer_fires_def\<close>)

lemma transport_step_progress:
  assumes inv: "transport_inv s" and p: "progress s" and c: "0 < connectTimeoutMs c" "0 < silenceTimeoutMs c"
  shows "progress (transport_step c s e)"
proof (cases e)
  case Connect
  have "progress (publish OFFLINE_STATUS t)" if "ws_unwireNetwork t" for t
    using that by (simp add: progress_def OFFLINE_STATUS_def)
  moreover have "progress (t\<lparr>env_active := True\<rparr>)" if "progress t" "ws_unwireNetwork t" "env_active t" for t
    using that by (simp add: progress_def)
  ultimately show ?thesis using Connect
    by (simp add: transport_connect_def Let_def) (auto simp: progress_def OFFLINE_STATUS_def openSocket_def
      request_token_def waiting_def Let_def)
next
  case Disconnect
  then show ?thesis by (simp add: progress_def)
next
  case (SendMessage b)
  have "progress (s\<lparr>env_sent := x\<rparr>)" "progress (s\<lparr>ws_droppedWhileDown := n\<rparr>)" for x n
    using p by (simp_all add: progress_def)
  then show ?thesis using SendMessage
    by (simp add: transport_send_def socket_send_def split: option.split TransportStatus.split)
next
  case (TimerFires h)
  then show ?thesis using timer_fires_progress [OF inv p] by simp
next
  case (TokenAnswered f answer created)
  show ?thesis
  proof (cases "env_fetches s f")
    case (Some q)
    then obtain u m where "env_fetches s f = Some (u, m)" by (cases q) simp
    then show ?thesis using TokenAnswered open_continues_progress [OF inv p _ c(1)] refresh_continues_progress [OF inv p]
      by (cases u) (simp_all add: token_answered_def)
  qed (use TokenAnswered p in \<open>simp add: token_answered_def\<close>)
next
  case (SocketOpens i)
  then show ?thesis using p on_open_progress [OF inv p _ _ _ c(2)]
    by (auto simp: listens_Some split: option.split)
next
  case (SocketMessage i d)
  then show ?thesis using p on_message_progress [OF inv p _ _ _ c(2)]
    by (auto simp: listens_Some split: option.split)
next
  case (SocketCloses i code reason)
  show ?thesis
  proof (cases "listens (\<lambda>k. sk_life k \<noteq> Sk_closed) i s")
    case None
    have "progress (set_life i Sk_closed s)"
    proof (cases "env_sockets s i")
      case None
      then have "with_life Sk_closed i (env_sockets s) = env_sockets s" by (auto simp: with_life_def)
      with p show ?thesis by (simp add: set_life_eq)
    next
      case (Some k)
      show ?thesis
      proof (cases "sk_life k = Sk_closed")
        case True
        then have "k\<lparr>sk_life := Sk_closed\<rparr> = k" by simp
        then have "with_life Sk_closed i (env_sockets s) = env_sockets s" using Some by (auto simp: with_life_def)
        with p show ?thesis by (simp add: set_life_eq)
      next
        case False
        then have "\<not> sk_wired k" using listens_None [OF None Some] by simp
        then show ?thesis by (intro stale_life_progress [OF p Some]) simp
      qed
    qed
    with None SocketCloses show ?thesis by simp
  next
    case (Some m)
    then obtain k where "env_sockets s i = Some k" "sk_wired k" "sk_life k \<noteq> Sk_closed" "m = sk_mine k"
      by (auto simp: listens_Some)
    with SocketCloses Some handleClose_progress [OF inv p] show ?thesis by simp
  qed
next
  case OfflineEvent
  then show ?thesis using p
    by (auto simp: onNetworkOffline_def progress_def OFFLINE_STATUS_def dropSocket_eq clear_link_timers_eq clearTimer_eq Let_def)
next
  case OnlineEvent
  then show ?thesis using p openSocket_progress
    by (auto simp: onNetworkOnline_def split: TransportStatus.split StopReason.split)
qed (use p in \<open>simp_all add: progress_def\<close>)

lemma transport_run_progress:
  assumes "0 < connectTimeoutMs c" "0 < silenceTimeoutMs c"
  shows "transport_run c s \<Longrightarrow> progress s"
proof (induction rule: transport_run.induct)
  case (start onLine)
  then show ?case by (simp add: progress_def new_transport_def)
next
  case (step s e)
  then show ?case using assms by (intro transport_step_progress transport_run_inv)
qed

subsection \<open>A sample transport\<close>

definition sample_transport :: WebSocketTransportOptions where
  "sample_transport =
     \<lparr>opt_url = ''wss://rt/board'', opt_backoff = RECONNECT_BACKOFF, authRefreshMs = 45000,
      connectTimeoutMs = DEFAULT_CONNECT_TIMEOUT_MS, silenceTimeoutMs = DEFAULT_SILENCE_TIMEOUT_MS,
      opt_random = (\<lambda>n. 1 / 2), opt_codec = leb, opt_networkEvents = True\<rparr>"

lemmas timeout_defs = DEFAULT_CONNECT_TIMEOUT_MS_def DEFAULT_SILENCE_TIMEOUT_MS_def

lemma sample_fields [simp]:
  "opt_url sample_transport = ''wss://rt/board''" "opt_backoff sample_transport = RECONNECT_BACKOFF"
  "authRefreshMs sample_transport = 45000" "connectTimeoutMs sample_transport = 10000"
  "silenceTimeoutMs sample_transport = 75000" "opt_random sample_transport = (\<lambda>n. 1 / 2)"
  "opt_codec sample_transport = leb" "opt_networkEvents sample_transport = True"
  by (simp_all add: sample_transport_def timeout_defs)

subsection \<open>The properties\<close>

definition gives_up :: "Transport \<Rightarrow> bool" where
  "gives_up s \<longleftrightarrow> (\<exists>n d. ws_status s = Retrying n d) \<or> ws_status s = OFFLINE_STATUS"

lemma scheduleRetry_gives_up [simp]: "gives_up (scheduleRetry c r s)"
  by (simp add: scheduleRetry_def gives_up_def setTimeout_def Let_def)

lemma watchdog_gives_up:
  "env_timers s h = Some (ConnectTimer (ws_generation s), ms) \<Longrightarrow> ws_socket s = Some i \<Longrightarrow> gives_up (timer_fires c h s)"
  "env_timers s h = Some (SilenceTimer (ws_generation s), ms) \<Longrightarrow> ws_socket s = Some i \<Longrightarrow> gives_up (timer_fires c h s)"
  by (simp_all add: timer_fires_def)

lemma no_token_gives_up:
  "env_fetches s f = Some (ForOpen, ws_generation s) \<Longrightarrow> gives_up (token_answered c f None b s)"
  by (simp add: token_answered_def open_continues_def)

lemma retry_connects:
  "env_timers s h = Some (RetryTimer, ms) \<Longrightarrow> ws_status (timer_fires c h s) = Connecting (ws_attempt s + 1)"
  by (simp add: timer_fires_def openSocket_def request_token_def Let_def)

text \<open>
  C19. The transport is never stuck: after \<open>connect\<close>, while it is connecting a token request is under way or the
  connect timeout of the socket runs, while it is open the silence watchdog runs, while it is retrying the
  retry timer runs, and each of these, when it comes without success, leads on to a retry or to the
  offline status; offline, it listens to the network.
\<close>

theorem never_stuck:
  assumes "transport_run c s" "0 < connectTimeoutMs c" "0 < silenceTimeoutMs c" "env_active s"
  shows "case ws_status s of
      Connecting n \<Rightarrow>
        (\<exists>f. env_fetches s f = Some (ForOpen, ws_generation s) \<and>
           gives_up (transport_step c s (TokenAnswered f None False))) \<or>
        (\<exists>i k h ms. ws_socket s = Some i \<and> env_sockets s i = Some k \<and> sk_mine k = ws_generation s \<and>
           sk_life k = Sk_connecting \<and> env_timers s h = Some (ConnectTimer (ws_generation s), ms) \<and>
           gives_up (transport_step c s (TimerFires h)))
    | Open b \<Rightarrow>
        \<exists>i k h ms. ws_socket s = Some i \<and> env_sockets s i = Some k \<and> sk_mine k = ws_generation s \<and>
          sk_life k = Sk_open \<and> env_timers s h = Some (SilenceTimer (ws_generation s), ms) \<and>
          gives_up (transport_step c s (TimerFires h))
    | Retrying n d \<Rightarrow>
        \<exists>h ms k. env_timers s h = Some (RetryTimer, ms) \<and> ws_status (transport_step c s (TimerFires h)) = Connecting k
    | Stopped r e m \<Rightarrow> ws_unwireNetwork s"
proof -
  have p: "ws_unwireNetwork s" "promised (ws_status s) (env_timers s) (env_fetches s) (env_sockets s) (ws_generation s) (ws_socket s)"
    using transport_run_progress [OF assms(2,3,1)] assms(4) by (simp_all add: progress_def)
  show ?thesis
  proof (cases "ws_status s")
    case (Connecting n)
    with p(2) consider "waiting (env_fetches s) (ws_generation s)"
      | "linked (env_sockets s) (ws_generation s) (ws_socket s) Sk_connecting"
        "watched (env_timers s) (ConnectTimer (ws_generation s))" by auto
    then show ?thesis
    proof cases
      case 1
      then show ?thesis using Connecting no_token_gives_up unfolding waiting_def by auto
    next
      case 2
      then obtain i k h ms where "ws_socket s = Some i" "env_sockets s i = Some k" "sk_mine k = ws_generation s"
        "sk_life k = Sk_connecting" "env_timers s h = Some (ConnectTimer (ws_generation s), ms)"
        by (auto simp: linked_def watched_def)
      with watchdog_gives_up(1) [OF this(5,1)] show ?thesis using Connecting by auto
    qed
  next
    case (Open b)
    with p(2) obtain i k h ms where "ws_socket s = Some i" "env_sockets s i = Some k" "sk_mine k = ws_generation s"
        "sk_life k = Sk_open" "env_timers s h = Some (SilenceTimer (ws_generation s), ms)"
      by (auto simp: linked_def watched_def)
    with watchdog_gives_up(2) [OF this(5,1)] show ?thesis using Open by auto
  next
    case (Retrying n d)
    with p(2) obtain h ms where "env_timers s h = Some (RetryTimer, ms)" by (auto simp: watched_def)
    with retry_connects [OF this] show ?thesis using Retrying by auto
  qed (use p(1) in simp)
qed

lemma sample_connect: "transport_run sample_transport (transport_step sample_transport (new_transport None) Connect)"
  by (rule transport_run.step [OF transport_run.start]) (simp add: new_transport_def)

lemma connected_state:
  "ws_status (transport_step sample_transport (new_transport None) Connect) = Connecting 1"
  "env_active (transport_step sample_transport (new_transport None) Connect)"
  "ws_generation (transport_step sample_transport (new_transport None) Connect) = 1"
  by (simp_all add: transport_connect_def openSocket_def request_token_def new_transport_def isBrowserOffline_def Let_def)

theorem never_stuck_witness:
  "\<exists>s. transport_run sample_transport s \<and> env_active s \<and>
    ((\<exists>f. env_fetches s f = Some (ForOpen, ws_generation s) \<and>
       gives_up (transport_step sample_transport s (TokenAnswered f None False))) \<or>
     (\<exists>i k h ms. ws_socket s = Some i \<and> env_sockets s i = Some k \<and> sk_mine k = ws_generation s \<and>
       sk_life k = Sk_connecting \<and> env_timers s h = Some (ConnectTimer (ws_generation s), ms) \<and>
       gives_up (transport_step sample_transport s (TimerFires h))))"
  by (rule exI, intro conjI, rule sample_connect, rule connected_state(2))
    (use never_stuck [OF sample_connect _ _ connected_state(2)] connected_state(1) in
      \<open>simp del: transport_step.simps\<close>)

subsection \<open>Delays\<close>

lemma default_ceiling:
  "\<exists>m. backoffCeilingMs n RECONNECT_BACKOFF = 2 * of_int m \<and> 250 \<le> m \<and> m \<le> 15000"
proof -
  define k where "k = nat (max 1 n - 1)"
  have c: "backoffCeilingMs n RECONNECT_BACKOFF = min 30000 (500 * 2 ^ k)"
    by (simp add: backoffCeilingMs_def or_default_def RECONNECT_BACKOFF_def k_def Let_def)
  show ?thesis
  proof (cases "(30000 :: rat) \<le> 500 * 2 ^ k")
    case True
    then show ?thesis by (intro exI [of _ 15000]) (simp add: c)
  next
    case False
    then have "(of_int (250 * 2 ^ k) :: rat) < of_int 15000" by simp
    then have "250 * 2 ^ k < (15000 :: int)" by (simp only: of_int_less_iff)
    moreover have "(1 :: int) \<le> 2 ^ k" by simp
    ultimately show ?thesis using False by (intro exI [of _ "250 * 2 ^ k"]) (simp add: c)
  qed
qed

lemma clamp01_bounds: "0 \<le> clamp01 v" "clamp01 v \<le> 1"
  by (simp_all add: clamp01_def)

lemma default_delay:
  "backoffCeilingMs n RECONNECT_BACKOFF / 2 \<le> of_int (backoffDelayMs n RECONNECT_BACKOFF roll)"
  "of_int (backoffDelayMs n RECONNECT_BACKOFF roll) \<le> backoffCeilingMs n RECONNECT_BACKOFF"
  "250 \<le> backoffDelayMs n RECONNECT_BACKOFF roll" "backoffDelayMs n RECONNECT_BACKOFF roll \<le> 30000"
proof -
  obtain m where m: "backoffCeilingMs n RECONNECT_BACKOFF = 2 * of_int m" "250 \<le> m" "m \<le> 15000"
    using default_ceiling by blast
  define r where "r = clamp01 roll"
  have r: "0 \<le> r" "r \<le> 1" by (simp_all add: r_def clamp01_bounds)
  have share: "clamp01 (1 / 2) = 1 / 2" by (simp add: clamp01_def)
  have d: "backoffDelayMs n RECONNECT_BACKOFF roll = \<lfloor>of_int m * (2 - r) + 1 / 2\<rfloor>"
  proof -
    have "backoffDelayMs n RECONNECT_BACKOFF roll = \<lfloor>2 * of_int m * (1 - 1 / 2 * r) + 1 / 2\<rfloor>"
      using share by (simp add: backoffDelayMs_def m(1) or_default_def r_def) (simp add: RECONNECT_BACKOFF_def share)
    also have "(2 * of_int m * (1 - 1 / 2 * r) + 1 / 2 :: rat) = of_int m * (2 - r) + 1 / 2" by (simp add: algebra_simps)
    finally show ?thesis .
  qed
  have m0: "(0 :: rat) \<le> of_int m" using m(2) by simp
  have "of_int m * 1 \<le> (of_int m * (2 - r) :: rat)" using r m0 by (intro mult_left_mono) auto
  then have lo: "m \<le> backoffDelayMs n RECONNECT_BACKOFF roll" unfolding d le_floor_iff by simp
  have "(of_int m * (2 - r) :: rat) \<le> of_int m * 2" using r m0 by (intro mult_left_mono) auto
  then have "of_int m * (2 - r) + 1 / 2 < (of_int (2 * m + 1) :: rat)" by simp
  then have hi: "backoffDelayMs n RECONNECT_BACKOFF roll \<le> 2 * m" unfolding d by (simp add: floor_less_iff flip: zle_add1_eq_le)
  show "250 \<le> backoffDelayMs n RECONNECT_BACKOFF roll" "backoffDelayMs n RECONNECT_BACKOFF roll \<le> 30000"
    using lo hi m by auto
  show "backoffCeilingMs n RECONNECT_BACKOFF / 2 \<le> of_int (backoffDelayMs n RECONNECT_BACKOFF roll)"
    using lo by (simp add: m(1))
  have "(of_int (backoffDelayMs n RECONNECT_BACKOFF roll) :: rat) \<le> of_int (2 * m)" using hi by (simp only: of_int_le_iff)
  then show "of_int (backoffDelayMs n RECONNECT_BACKOFF roll) \<le> backoffCeilingMs n RECONNECT_BACKOFF" by (simp add: m(1))
qed

text \<open>The retries without delay since the socket was last open, in the published statuses (latest first).\<close>

fun is_open :: "TransportStatus \<Rightarrow> bool" where
  "is_open (Open b) = True" | "is_open st = False"

fun is_rush :: "TransportStatus \<Rightarrow> bool" where
  "is_rush (Retrying n d) = (d = 0)" | "is_rush st = False"

fun delay_kept :: "TransportStatus \<Rightarrow> bool" where
  "delay_kept (Retrying n d) \<longleftrightarrow> d = 0 \<or>
     backoffCeilingMs (int n) RECONNECT_BACKOFF / 2 \<le> of_int d \<and> of_int d \<le> backoffCeilingMs (int n) RECONNECT_BACKOFF"
| "delay_kept st \<longleftrightarrow> True"

definition rushes :: "(nat list \<times> TransportStatus) list \<Rightarrow> nat" where
  "rushes h = length (filter (\<lambda>p. is_rush (snd p)) (takeWhile (\<lambda>p. \<not> is_open (snd p)) h))"

definition paced :: "Transport \<Rightarrow> bool" where
  "paced s \<longleftrightarrow> rushes (env_published s) \<le> ws_immediateRuns s \<and> ws_immediateRuns s \<le> MAX_IMMEDIATE_RETRIES \<and>
     list_all (\<lambda>p. delay_kept (snd p)) (env_published s)"

lemma paced_same:
  "paced s \<Longrightarrow> env_published t = env_published s \<Longrightarrow> ws_immediateRuns t = ws_immediateRuns s \<Longrightarrow> paced t"
  by (simp add: paced_def)

lemma paced_publish: "paced s \<Longrightarrow> \<not> is_rush st \<Longrightarrow> delay_kept st \<Longrightarrow> paced (publish st s)"
  by (auto simp: paced_def rushes_def)

lemma scheduleRetry_paced:
  assumes "paced s" "opt_backoff c = RECONNECT_BACKOFF"
  shows "paced (scheduleRetry c r s)"
proof -
  have "backoffDelayMs n RECONNECT_BACKOFF roll \<noteq> 0" for n roll using default_delay(3) [of n roll] by simp
  then show ?thesis using assms paced_publish [OF assms(1), of OFFLINE_STATUS] default_delay(1,2)
    by (auto simp: scheduleRetry_def paced_def rushes_def setTimeout_def Let_def OFFLINE_STATUS_def MAX_IMMEDIATE_RETRIES_def)
qed

lemma openSocket_paced: "paced s \<Longrightarrow> paced (openSocket s)"
  by (simp add: openSocket_def request_token_def Let_def paced_def rushes_def)

lemma transport_step_paced:
  assumes p: "paced s" and c: "opt_backoff c = RECONNECT_BACKOFF"
  shows "paced (transport_step c s e)"
proof -
  have upd: "paced (dropSocket code s)" if "paced s" for s code
    using that by (simp add: paced_def dropSocket_eq clear_link_timers_eq)
  have life: "paced (set_life i l s)" for i l using p by (simp add: paced_def set_life_eq)
  show ?thesis
  proof (cases e)
    case Connect
    have "paced (publish OFFLINE_STATUS (s\<lparr>ws_unwireNetwork := True, ws_attempt := 0\<rparr>))"
      "paced (openSocket (s\<lparr>ws_unwireNetwork := True, ws_attempt := 0\<rparr>))"
      using p by (auto intro!: paced_publish openSocket_paced intro: paced_same simp: OFFLINE_STATUS_def)
    then show ?thesis using Connect by (simp add: transport_connect_def Let_def paced_def)
  next
    case Disconnect
    then show ?thesis using p
      by (simp add: transport_disconnect_def dropSocket_eq clear_link_timers_eq clearTimer_eq paced_def Let_def)
  next
    case (SendMessage b)
    have "paced (s\<lparr>env_sent := x\<rparr>)" "paced (s\<lparr>ws_droppedWhileDown := n\<rparr>)" for x n using p by (simp_all add: paced_def)
    then show ?thesis using SendMessage
      by (simp add: transport_send_def socket_send_def split: option.split TransportStatus.split)
  next
    case (TimerFires h)
    have q: "paced (s\<lparr>env_timers := T, ws_connectTimer := x\<rparr>)" "paced (s\<lparr>env_timers := T, ws_silenceTimer := x\<rparr>)"
      "paced (s\<lparr>env_timers := T, ws_retryTimer := x\<rparr>)" for T x using p by (simp_all add: paced_def)
    then have "paced (scheduleRetry c backoff (dropSocket k (s\<lparr>env_timers := T, ws_connectTimer := x\<rparr>)))"
      "paced (scheduleRetry c backoff (dropSocket k (s\<lparr>env_timers := T, ws_silenceTimer := x\<rparr>)))"
      "paced (openSocket (s\<lparr>env_timers := T, ws_retryTimer := x\<rparr>))" for T x k
      by (auto intro: scheduleRetry_paced [OF upd c] openSocket_paced)
    moreover have "paced (request_token ForRefresh g (s\<lparr>env_timers := T, ws_refreshTimer := x\<rparr>))" for g T x
      using p by (simp add: paced_def request_token_def)
    ultimately show ?thesis using TimerFires q p
      by (simp add: timer_fires_def Let_def split: option.split prod.split TimerCallback.split)
  next
    case (TokenAnswered f answer created)
    have q: "paced (s\<lparr>env_fetches := F\<rparr>)" for F using p by (simp add: paced_def)
    then have "paced (scheduleRetry c backoff (s\<lparr>env_fetches := F\<rparr>))" for F by (rule scheduleRetry_paced [OF _ c])
    moreover have "paced (armConnectTimeout c m ((createSocket u m (s\<lparr>env_fetches := F\<rparr>))\<lparr>ws_socket := x, ws_lastError := None\<rparr>))"
      "paced (scheduleAuthRefresh c (socket_send j b (s\<lparr>env_fetches := F\<rparr>)))" for F m u x j b
      using p by (simp_all add: paced_def createSocket_def socket_send_def)
    ultimately show ?thesis using TokenAnswered p q
      by (simp add: token_answered_def open_continues_def refresh_continues_def Let_def
        split: option.split prod.split TokenPurpose.split)
  next
    case (SocketOpens i)
    have "paced (on_open c m (set_life i Sk_open s))" for m
      using life [of i Sk_open] by (simp add: on_open_def paced_def rushes_def clearTimer_eq Let_def)
    then show ?thesis using SocketOpens p by (simp split: option.split)
  next
    case (SocketMessage i d)
    have "paced (t\<lparr>env_delivered := x\<rparr>)" if "rememberError c b (armSilence c m s) = Some t" for m b t x
      using that p by (auto simp: rememberError_def paced_def split: list.splits if_splits sum.splits option.splits HbMessage.splits)
    moreover have "paced (armSilence c m s)" for m using p by (simp add: paced_def)
    ultimately show ?thesis using SocketMessage p by (simp add: on_message_def Let_def split: option.split)
  next
    case (SocketCloses i code reason)
    let ?t = "clear_link_timers ((set_life i Sk_closed s)\<lparr>ws_socket := None\<rparr>)"
    have t: "paced ?t" using p by (simp add: paced_def clear_link_timers_eq set_life_eq)
    have "paced (handleClose c m code reason (set_life i Sk_closed s))" for m
      using scheduleRetry_paced [OF t c] paced_publish [OF t] life [of i Sk_closed]
      by (simp add: handleClose_def Let_def)
    then show ?thesis using SocketCloses life by (simp split: option.split)
  next
    case OfflineEvent
    have "paced ((clearTimer (ws_retryTimer s) s)\<lparr>ws_retryTimer := None\<rparr>)" using p by (simp add: paced_def clearTimer_eq)
    then have "paced (publish OFFLINE_STATUS (dropSocket k ((clearTimer (ws_retryTimer s) s)\<lparr>ws_retryTimer := None\<rparr>)))" for k
      by (intro paced_publish upd) (simp_all add: OFFLINE_STATUS_def)
    then show ?thesis using OfflineEvent p by (simp add: onNetworkOffline_def Let_def)
  next
    case OnlineEvent
    have "paced (openSocket (s\<lparr>ws_attempt := 0\<rparr>))" using p by (intro openSocket_paced) (simp add: paced_def)
    then show ?thesis using OnlineEvent p by (simp add: onNetworkOnline_def split: TransportStatus.split StopReason.split)
  qed (use p in \<open>simp_all add: paced_def\<close>)
qed

text \<open>
  With the default delays, between two openings of the socket at most two retries come without delay,
  whatever the server answers; every other retry waits between half the ceiling of its attempt and
  the ceiling, so between a quarter of a second and thirty seconds.
\<close>

theorem retries_are_paced:
  assumes "transport_run c s" "opt_backoff c = RECONNECT_BACKOFF"
  shows "rushes (env_published s) \<le> 2 \<and>
    (\<forall>(hs, st) \<in> set (env_published s). \<forall>n d. st = Retrying n d \<longrightarrow> d = 0 \<or>
       backoffCeilingMs (int n) RECONNECT_BACKOFF / 2 \<le> of_int d \<and>
       of_int d \<le> backoffCeilingMs (int n) RECONNECT_BACKOFF \<and> 250 \<le> d \<and> d \<le> 30000)"
proof -
  have "paced s" using assms(1)
  proof (induction rule: transport_run.induct)
    case (step s e)
    then show ?case using transport_step_paced assms(2) by blast
  qed (simp add: paced_def rushes_def new_transport_def)
  moreover have "250 \<le> d \<and> d \<le> 30000" if "delay_kept (Retrying n d)" "d \<noteq> 0" for n d
  proof -
    obtain m where m: "backoffCeilingMs (int n) RECONNECT_BACKOFF = 2 * of_int m" "250 \<le> m" "m \<le> 15000"
      using default_ceiling by blast
    with that have "(of_int m :: rat) \<le> of_int d" "(of_int d :: rat) \<le> of_int (2 * m)" by simp_all
    then have "m \<le> d" "d \<le> 2 * m" by (simp_all only: of_int_le_iff)
    with m show ?thesis by simp
  qed
  ultimately show ?thesis by (fastforce simp: paced_def MAX_IMMEDIATE_RETRIES_def list_all_iff)
qed

lemma sample_retry:
  "transport_run sample_transport (transport_step sample_transport (transport_step sample_transport (new_transport None) Connect)
     (TokenAnswered 0 None False))"
  by (rule transport_run.step [OF sample_connect]) simp

theorem retries_are_paced_witness:
  "\<exists>s n d. transport_run sample_transport s \<and> rushes (env_published s) \<le> 2 \<and> ([], Retrying n d) \<in> set (env_published s) \<and>
     (d = 0 \<or> 250 \<le> d \<and> d \<le> 30000)"
proof -
  let ?s = "transport_step sample_transport (transport_step sample_transport (new_transport None) Connect) (TokenAnswered 0 None False)"
  obtain n d where nd: "([], Retrying n d) \<in> set (env_published ?s)"
    by (simp add: transport_connect_def openSocket_def request_token_def new_transport_def isBrowserOffline_def
      token_answered_def open_continues_def scheduleRetry_def setTimeout_def publish_def Let_def)
  with retries_are_paced [OF sample_retry] sample_retry show ?thesis by (intro exI [of _ ?s] exI [of _ n] exI [of _ d]) fastforce
qed

subsection \<open>A refusal is final, but for the offline event\<close>

lemma fatal_state:
  assumes "transport_run c s" "0 < connectTimeoutMs c" "0 < silenceTimeoutMs c" "env_active s"
    and "ws_status s = Stopped stopped_fatal e m"
  shows "env_timers s h = None" "settled (env_fetches s) (env_sockets s) (ws_generation s)" "ws_socket s = None"
  using transport_run_progress [OF assms(2,3,1)] assms(4,5) by (simp_all add: progress_def)

lemma settled_not_current:
  assumes "settled F S g"
  shows "F f = Some (ForOpen, m) \<Longrightarrow> m \<noteq> g"
    "S i = Some k \<Longrightarrow> sk_wired k \<Longrightarrow> sk_life k \<noteq> Sk_closed \<Longrightarrow> sk_mine k \<noteq> g"
  using assms unfolding settled_def by auto

text \<open>
  C21. A refusal of the server is final: in the fatal status no event but a network or client call
  changes the status, opens a socket, asks for a token or starts a timer. But the offline event replaces
  the refusal by the offline status, and the online event then starts a new attempt.
\<close>

theorem refusal_is_final:
  assumes "transport_run c s" "0 < connectTimeoutMs c" "0 < silenceTimeoutMs c" "env_active s"
    and st: "ws_status s = Stopped stopped_fatal code msg"
  shows "(\<forall>e. e \<notin> {Connect, Disconnect, OfflineEvent} \<longrightarrow>
      ws_status (transport_step c s e) = ws_status s \<and>
      env_nextSocket (transport_step c s e) = env_nextSocket s \<and>
      env_nextFetch (transport_step c s e) = env_nextFetch s \<and>
      env_timers (transport_step c s e) = env_timers s) \<and>
    (opt_networkEvents c \<longrightarrow>
      ws_status (transport_step c s OfflineEvent) = OFFLINE_STATUS \<and>
      ws_status (transport_step c (transport_step c s OfflineEvent) OnlineEvent) = Connecting 1 \<and>
      env_nextFetch (transport_step c (transport_step c s OfflineEvent) OnlineEvent) = Suc (env_nextFetch s))"
proof -
  note f = fatal_state [OF assms]
  note stale = settled_not_current [OF f(2)]
  have un: "ws_unwireNetwork s" using transport_run_progress [OF assms(2,3,1)] assms(4) by (simp add: progress_def)
  have "ws_status (transport_step c s e) = ws_status s \<and> env_nextSocket (transport_step c s e) = env_nextSocket s \<and>
      env_nextFetch (transport_step c s e) = env_nextFetch s \<and> env_timers (transport_step c s e) = env_timers s"
    if e: "e \<notin> {Connect, Disconnect, OfflineEvent}" for e
  proof (cases e)
    case (SendMessage b)
    then show ?thesis using f(3) by (simp add: transport_send_def)
  next
    case (TimerFires h)
    then show ?thesis using f(1) by (simp add: timer_fires_def)
  next
    case (TokenAnswered g answer created)
    show ?thesis
    proof (cases "env_fetches s g")
      case (Some q)
      then obtain p m where q: "env_fetches s g = Some (p, m)" by (cases q) simp
      show ?thesis
      proof (cases p)
        case ForOpen
        with q stale(1) [of g m] have "m \<noteq> ws_generation s" by simp
        then show ?thesis using TokenAnswered q ForOpen
          by (cases answer) (simp_all add: token_answered_def open_continues_def Let_def)
      next
        case ForRefresh
        then show ?thesis using TokenAnswered q f(3)
          by (cases answer) (simp_all add: token_answered_def refresh_continues_def Let_def)
      qed
    qed (use TokenAnswered in \<open>simp add: token_answered_def\<close>)
  next
    case (SocketOpens i)
    have "ws_status (on_open c m (set_life i Sk_open s)) = ws_status s \<and> env_nextSocket (on_open c m (set_life i Sk_open s)) = env_nextSocket s \<and>
        env_nextFetch (on_open c m (set_life i Sk_open s)) = env_nextFetch s \<and> env_timers (on_open c m (set_life i Sk_open s)) = env_timers s"
      if "listens (\<lambda>k. sk_life k = Sk_connecting) i s = Some m" for m
    proof -
      from that obtain k where "env_sockets s i = Some k" "sk_wired k" "sk_life k = Sk_connecting" "m = sk_mine k"
        by (auto simp: listens_Some)
      then have "m \<noteq> ws_generation s" using stale(2) by auto
      then show ?thesis by (simp add: on_open_def set_life_eq)
    qed
    then show ?thesis using SocketOpens by (simp split: option.split)
  next
    case (SocketMessage i d)
    have "on_message c m d s = s" if "listens (\<lambda>k. sk_life k = Sk_open) i s = Some m" for m
    proof -
      from that obtain k where "env_sockets s i = Some k" "sk_wired k" "sk_life k = Sk_open" "m = sk_mine k"
        by (auto simp: listens_Some)
      then have "m \<noteq> ws_generation s" using stale(2) by auto
      then show ?thesis by (simp add: on_message_def)
    qed
    then show ?thesis using SocketMessage by (simp split: option.split)
  next
    case (SocketCloses i cd reason)
    have "handleClose c m cd reason (set_life i Sk_closed s) = set_life i Sk_closed s"
      if "listens (\<lambda>k. sk_life k \<noteq> Sk_closed) i s = Some m" for m
    proof -
      from that obtain k where "env_sockets s i = Some k" "sk_wired k" "sk_life k \<noteq> Sk_closed" "m = sk_mine k"
        by (auto simp: listens_Some)
      then have "m \<noteq> ws_generation s" using stale(2) by auto
      then show ?thesis by (simp add: handleClose_def set_life_eq)
    qed
    then show ?thesis using SocketCloses by (simp add: set_life_eq split: option.split)
  next
    case OnlineEvent
    then show ?thesis using st by (simp add: onNetworkOnline_def)
  qed (use e in simp_all)
  moreover have "ws_status (transport_step c s OfflineEvent) = OFFLINE_STATUS"
      "ws_status (transport_step c (transport_step c s OfflineEvent) OnlineEvent) = Connecting 1"
      "env_nextFetch (transport_step c (transport_step c s OfflineEvent) OnlineEvent) = Suc (env_nextFetch s)"
    if "opt_networkEvents c"
    using that un st f(3)
    by (simp_all add: onNetworkOffline_def onNetworkOnline_def OFFLINE_STATUS_def openSocket_def request_token_def
      dropSocket_eq clear_link_timers_eq clearTimer_eq publish_def Let_def)
  ultimately show ?thesis by blast
qed

text \<open>A refused run: connect, a token, and the socket closes with 1008.\<close>

definition sample_refused :: "Transport" where
  "sample_refused = foldl (transport_step sample_transport) (new_transport None)
     [Connect, TokenAnswered 0 (Some ''t'') True, SocketCloses 0 1008 ''FORBIDDEN'']"

lemma sample_refused_run: "transport_run sample_transport sample_refused"
  unfolding sample_refused_def foldl.simps
  by (intro transport_run.step transport_run.start) (simp_all add: new_transport_def)

lemma sample_refused_state:
  "ws_status sample_refused = Stopped stopped_fatal ''FORBIDDEN'' []" "env_active sample_refused"
  "env_nextFetch sample_refused = 1"
  by (simp_all add: sample_refused_def transport_connect_def openSocket_def request_token_def new_transport_def
    isBrowserOffline_def token_answered_def open_continues_def createSocket_def armConnectTimeout_def setTimeout_def
    clearTimer_eq clear_handle_def publish_def listens_def handleClose_def set_life_eq clear_link_timers_eq with_life_def
    close_error_code_def closeReaction_def REACTIONS_def CLOSE_GOING_AWAY_def CLOSE_POLICY_def Let_def)

theorem refusal_is_final_witness:
  "ws_status sample_refused = Stopped stopped_fatal ''FORBIDDEN'' [] \<and>
   ws_status (transport_step sample_transport sample_refused OnlineEvent) = Stopped stopped_fatal ''FORBIDDEN'' [] \<and>
   ws_status (transport_step sample_transport (transport_step sample_transport sample_refused OfflineEvent) OnlineEvent) =
     Connecting 1"
  using refusal_is_final [OF sample_refused_run _ _ sample_refused_state(2,1)] sample_refused_state(1)
  by (simp del: transport_step.simps)

subsection \<open>One connection at a time\<close>

text \<open>Runs in which the offline event never arrives while the token of the current attempt is awaited.\<close>

inductive careful_run :: "WebSocketTransportOptions \<Rightarrow> Transport \<Rightarrow> bool" for c where
  start: "careful_run c (new_transport onLine)"
| step: "careful_run c s \<Longrightarrow> (e = Connect \<Longrightarrow> \<not> env_active s) \<Longrightarrow>
    (e = OfflineEvent \<Longrightarrow> \<not> waiting (env_fetches s) (ws_generation s)) \<Longrightarrow> careful_run c (transport_step c s e)"

lemma careful_run_run: "careful_run c s \<Longrightarrow> transport_run c s"
  by (induction rule: careful_run.induct) (auto intro: transport_run.intros)

text \<open>A socket that the transport has not closed and that has not ended.\<close>

definition still_open :: "Socket \<Rightarrow> bool" where
  "still_open k \<longleftrightarrow> sk_closing k = None \<and> sk_life k \<noteq> Sk_closed"

definition lone_sockets :: "(nat \<rightharpoonup> Socket) \<Rightarrow> nat \<Rightarrow> nat option \<Rightarrow> bool" where
  "lone_sockets S g so \<longleftrightarrow> (\<forall>i k. S i = Some k \<and> still_open k \<longrightarrow> sk_mine k = g \<and> so = Some i)"

definition none_open :: "(nat \<rightharpoonup> Socket) \<Rightarrow> bool" where
  "none_open S \<longleftrightarrow> (\<forall>i k. S i = Some k \<longrightarrow> \<not> still_open k)"

definition lone :: "Transport \<Rightarrow> bool" where
  "lone s \<longleftrightarrow> lone_sockets (env_sockets s) (ws_generation s) (ws_socket s) \<and>
     (\<forall>e m. ws_status s = Stopped stopped_offline e m \<longrightarrow>
        none_open (env_sockets s) \<and> \<not> waiting (env_fetches s) (ws_generation s))"

lemma none_open_lone: "none_open S \<Longrightarrow> lone_sockets S g so"
  unfolding none_open_def lone_sockets_def by blast

lemma lone_unwired: "lone_sockets S g (Some i) \<Longrightarrow> none_open (unwired code i S)"
  unfolding none_open_def
proof (intro allI impI notI)
  fix j k assume l: "lone_sockets S g (Some i)" and k: "unwired code i S j = Some k" "still_open k"
  show False
  proof (cases "j = i")
    case True
    then show False using unwired_mine [OF k(1)] k(2) by (auto simp: still_open_def)
  next
    case False
    then have "S j = Some k" using k(1) by (simp add: unwired_at)
    with l k(2) False show False by (auto simp: lone_sockets_def)
  qed
qed

lemma lone_no_socket: "lone_sockets S g None \<Longrightarrow> none_open S"
  by (auto simp: lone_sockets_def none_open_def)

lemma with_life_still_open:
  "with_life l i S j = Some k \<Longrightarrow> still_open k \<Longrightarrow> (\<And>k'. S i = Some k' \<Longrightarrow> l = Sk_closed \<or> sk_life k' \<noteq> Sk_closed) \<Longrightarrow>
     \<exists>k'. S j = Some k' \<and> still_open k' \<and> sk_mine k' = sk_mine k \<and> (j = i \<longrightarrow> l \<noteq> Sk_closed)"
  by (auto simp: with_life_at still_open_def split: if_splits)

lemma lone_with_life:
  assumes "lone_sockets S g so" "\<And>k'. S i = Some k' \<Longrightarrow> l = Sk_closed \<or> sk_life k' \<noteq> Sk_closed"
  shows "lone_sockets (with_life l i S) g so"
  unfolding lone_sockets_def
proof (intro allI impI)
  fix j k assume k: "with_life l i S j = Some k \<and> still_open k"
  with with_life_still_open [of l i S j k] assms(2) obtain k' where "S j = Some k'" "still_open k'" "sk_mine k' = sk_mine k"
    by blast
  with assms(1) show "sk_mine k = g \<and> so = Some j" unfolding lone_sockets_def by metis
qed

lemma none_open_with_life:
  assumes "none_open S" "\<And>k'. S i = Some k' \<Longrightarrow> l = Sk_closed \<or> sk_life k' \<noteq> Sk_closed"
  shows "none_open (with_life l i S)"
  unfolding none_open_def
proof (intro allI impI notI)
  fix j k assume "with_life l i S j = Some k" "still_open k"
  with with_life_still_open [of l i S j k] assms(2) obtain k' where "S j = Some k'" "still_open k'" by blast
  with assms(1) show False unfolding none_open_def by blast
qed

lemma lone_closed: "lone_sockets S g (Some i) \<Longrightarrow> none_open (with_life Sk_closed i S)"
  unfolding none_open_def
proof (intro allI impI notI)
  fix j k assume l: "lone_sockets S g (Some i)" and k: "with_life Sk_closed i S j = Some k" "still_open k"
  from with_life_still_open [OF k] obtain k' where "S j = Some k'" "still_open k'" "j \<noteq> i" by auto
  with l show False by (auto simp: lone_sockets_def)
qed

lemma scheduleRetry_lone:
  assumes "none_open (env_sockets s)" "\<not> waiting (env_fetches s) (ws_generation s)"
  shows "lone (scheduleRetry c r s)"
  using assms none_open_lone by (auto simp: scheduleRetry_def lone_def setTimeout_def Let_def)

lemma openSocket_lone:
  assumes "none_open (env_sockets s)"
  shows "lone (openSocket s)"
  using none_open_lone [OF assms] by (simp add: openSocket_def lone_def request_token_def Let_def)

lemma lone_nothing_current:
  assumes inv: "transport_inv s" and l: "lone s"
    and none: "\<And>i k. env_sockets s i = Some k \<Longrightarrow> sk_wired k \<Longrightarrow> sk_life k \<noteq> Sk_closed \<Longrightarrow> sk_mine k \<noteq> ws_generation s"
  shows "none_open (env_sockets s)"
  unfolding none_open_def
proof (intro allI impI notI)
  fix i k assume k: "env_sockets s i = Some k" "still_open k"
  with inv have "sk_wired k" by (auto simp: transport_inv_def transport_base_def numbered_def still_open_def)
  with none k have "sk_mine k \<noteq> ws_generation s" by (auto simp: still_open_def)
  with l k show False by (auto simp: lone_def lone_sockets_def)
qed

lemma lone_same:
  assumes "lone s" "env_sockets t = env_sockets s" "ws_generation t = ws_generation s" "ws_socket t = ws_socket s"
    "ws_status t = ws_status s" "\<And>f x. env_fetches t f = Some (ForOpen, x) \<Longrightarrow> env_fetches s f = Some (ForOpen, x)"
  shows "lone t"
  using assms by (auto simp: lone_def waiting_def)

lemma lone_drop: "lone_sockets (env_sockets s) (ws_generation s) (ws_socket s) \<Longrightarrow> none_open (env_sockets (dropSocket code s))"
  by (cases "ws_socket s") (simp_all add: dropSocket_eq lone_unwired lone_no_socket)

lemma handleClose_lone:
  assumes inv: "transport_inv s" and l: "lone s" and i: "env_sockets s i = Some k" "sk_wired k" "sk_life k \<noteq> Sk_closed"
  shows "lone (handleClose c (sk_mine k) code reason (set_life i Sk_closed s))"
proof (cases "sk_mine k = ws_generation s")
  case True
  define s1 where "s1 = clear_link_timers ((set_life i Sk_closed s)\<lparr>ws_socket := None\<rparr>)"
  note b = closed_base [OF inv i True s1_def]
  have "lone_sockets (env_sockets s) (ws_generation s) (Some i)"
    using l current_socket(1) [OF inv i True] by (simp add: lone_def)
  then have none: "none_open (env_sockets s1)"
    by (simp add: s1_def clear_link_timers_eq set_life_eq lone_closed)
  have "\<not> waiting (env_fetches s1) (ws_generation s1)" using b(2) by (auto simp: settled_def waiting_def)
  then have "lone (scheduleRetry c r s1)" for r by (rule scheduleRetry_lone [OF none])
  moreover have "lone (publish st s1)" for st
    using none none_open_lone \<open>\<not> waiting (env_fetches s1) (ws_generation s1)\<close> by (simp add: lone_def)
  ultimately show ?thesis using True by (simp add: handleClose_def Let_def set_life_eq flip: s1_def)
    (simp add: s1_def set_life_eq)
next
  case False
  have "lone (set_life i Sk_closed s)"
    using l lone_with_life none_open_with_life by (simp add: lone_def set_life_eq)
  then show ?thesis using False by (simp add: handleClose_def set_life_eq)
qed

lemma set_life_lone:
  assumes "lone s" "\<And>k'. env_sockets s i = Some k' \<Longrightarrow> l = Sk_closed \<or> sk_life k' \<noteq> Sk_closed"
  shows "lone (set_life i l s)"
  using assms lone_with_life none_open_with_life by (simp add: lone_def set_life_eq)

lemma on_open_lone:
  assumes inv: "transport_inv s" and l: "lone s" and i: "env_sockets s i = Some k" "sk_wired k" "sk_life k = Sk_connecting"
  shows "lone (on_open c (sk_mine k) (set_life i Sk_open s))"
proof -
  have "lone (set_life i Sk_open s)" by (rule set_life_lone [OF l]) (use i in simp)
  then show ?thesis by (simp add: on_open_def lone_def clearTimer_eq Let_def)
qed

lemma open_continues_lone:
  assumes inv: "transport_inv s" and l: "lone s" and f: "env_fetches s f = Some (ForOpen, mine)"
  shows "lone (open_continues c mine answer created (s\<lparr>env_fetches := (env_fetches s)(f := None)\<rparr>))"
proof (cases "mine = ws_generation s")
  case True
  note w = waiting_for_token [OF inv f [unfolded True]]
  have none: "none_open (env_sockets s)"
    by (rule lone_nothing_current [OF inv l]) (use w(4) in \<open>auto simp: has_socket_def\<close>)
  have st: "ws_status s \<noteq> Stopped stopped_offline e m" for e m
    using l f True by (auto simp: lone_def waiting_def)
  have "\<not> waiting ((env_fetches s)(f := None)) (ws_generation s)"
    using inv f True by (auto simp: transport_inv_def one_attempt_def waiting_def)
  then have "lone (scheduleRetry c backoff (s\<lparr>env_fetches := (env_fetches s)(f := None)\<rparr>))"
    using none by (intro scheduleRetry_lone) simp_all
  moreover have "lone_sockets ((env_sockets s)(n \<mapsto> fresh_socket u g)) g (Some n)" for n u g
    using none by (auto simp: lone_sockets_def none_open_def fresh_socket_def)
  then have "lone (armConnectTimeout c (ws_generation s) ((createSocket u (ws_generation s)
      (s\<lparr>env_fetches := (env_fetches s)(f := None)\<rparr>))\<lparr>ws_socket := Some (env_nextSocket s), ws_lastError := None\<rparr>))" for u
    using st by (simp add: lone_def createSocket_def flip: fresh_socket_def)
  ultimately show ?thesis using True by (simp add: open_continues_def split: option.split)
next
  case False
  have "lone (s\<lparr>env_fetches := (env_fetches s)(f := None)\<rparr>)" by (rule lone_same [OF l]) (auto split: if_splits)
  then show ?thesis using False by (simp add: open_continues_def split: option.split)
qed

lemma timer_fires_lone:
  assumes inv: "transport_inv s" and l: "lone s"
  shows "lone (timer_fires c h s)"
proof (cases "env_timers s h")
  case (Some q)
  then obtain cb ms where h: "env_timers s h = Some (cb, ms)" by (cases q) simp
  have base: "transport_base s" and o: "one_attempt (env_fetches s) (env_sockets s) (ws_generation s) (ws_retryTimer s) (ws_socket s)"
    using inv by (simp_all add: transport_inv_def)
  have watchdog: "lone (scheduleRetry c backoff (dropSocket k t))"
    if cb: "watches cb = Some m" "m = ws_generation s" and t: "env_sockets t = env_sockets s" "ws_generation t = ws_generation s"
      "ws_socket t = ws_socket s" "env_fetches t = env_fetches s" for m k t
  proof (rule scheduleRetry_lone)
    have "lone_sockets (env_sockets t) (ws_generation t) (ws_socket t)" using l t by (simp add: lone_def)
    then show "none_open (env_sockets (dropSocket k t))" by (rule lone_drop)
    have "live_in (env_sockets s) (ws_generation s) (ws_socket s)"
      using transport_baseD(4) [OF base] h cb unfolding watching_def by (metis fst_conv)
    then show "\<not> waiting (env_fetches (dropSocket k t)) (ws_generation (dropSocket k t))"
      using o t by (auto simp: waiting_def one_attempt_def live_in_def dropSocket_eq clear_link_timers_eq)
  qed
  have keep: "lone (s\<lparr>env_timers := T, ws_connectTimer := x\<rparr>)" "lone (s\<lparr>env_timers := T, ws_silenceTimer := x\<rparr>)" for T x
    using l by (simp_all add: lone_def)
  show ?thesis
  proof (cases cb)
    case RetryTimer
    have "ws_retryTimer s = Some h" by (rule fired_handle(1) [OF inv h]) (simp add: RetryTimer)
    with o have "none_open (env_sockets s)" by (intro lone_nothing_current [OF inv l]) (auto simp: one_attempt_def)
    then show ?thesis using h RetryTimer by (simp add: timer_fires_def openSocket_lone)
  next
    case RefreshTimer
    have "lone (request_token ForRefresh g (s\<lparr>env_timers := T, ws_refreshTimer := x\<rparr>))" for g T x
      by (rule lone_same [OF l]) (auto simp: request_token_def split: if_splits)
    then show ?thesis using h RefreshTimer by (simp add: timer_fires_def)
  next
    case (ConnectTimer m)
    then show ?thesis using h keep watchdog by (simp add: timer_fires_def Let_def)
  next
    case (SilenceTimer m)
    then show ?thesis using h keep watchdog by (simp add: timer_fires_def Let_def)
  qed
qed (use l in \<open>simp add: timer_fires_def\<close>)

lemma transport_step_lone:
  assumes inv: "transport_inv s" and l: "lone s" and e: "e = Connect \<Longrightarrow> \<not> env_active s"
    "e = OfflineEvent \<Longrightarrow> \<not> waiting (env_fetches s) (ws_generation s)"
  shows "lone (transport_step c s e)"
proof (cases e)
  case Connect
  then have i: "idle s" using inv e by (simp add: transport_inv_def)
  have none: "none_open (env_sockets s)"
    by (rule lone_nothing_current [OF inv l]) (use i in \<open>auto simp: idle_def past_only_def\<close>)
  moreover have "\<not> waiting (env_fetches s) (ws_generation s)" using i by (simp add: idle_def past_only_def waiting_def)
  ultimately have "lone (publish OFFLINE_STATUS (s\<lparr>ws_unwireNetwork := True, ws_attempt := 0\<rparr>))"
    using none_open_lone by (simp add: lone_def)
  moreover have "lone (openSocket (s\<lparr>ws_unwireNetwork := True, ws_attempt := 0\<rparr>))"
    using none by (intro openSocket_lone) simp
  ultimately show ?thesis using Connect by (simp add: transport_connect_def Let_def lone_def)
next
  case Disconnect
  define t where "t = (clearTimer (ws_retryTimer s) (s\<lparr>ws_generation := ws_generation s + 1\<rparr>))\<lparr>ws_retryTimer := None\<rparr>"
  have "lone_sockets (env_sockets s) (ws_generation s) (ws_socket s)" using l by (simp add: lone_def)
  then have "none_open (env_sockets (dropSocket CLOSE_NORMAL t))"
    by (cases "ws_socket s") (simp_all add: t_def clearTimer_eq dropSocket_eq lone_unwired lone_no_socket)
  moreover have "\<not> waiting (env_fetches s) (Suc (ws_generation s))"
    using past_only_next transport_baseD(2) inv by (fastforce simp: transport_inv_def past_only_def waiting_def)
  ultimately show ?thesis using Disconnect none_open_lone
    by (simp add: transport_disconnect_def lone_def Let_def flip: t_def)
      (simp add: t_def clearTimer_eq dropSocket_eq clear_link_timers_eq)
next
  case (SendMessage b)
  have "lone (s\<lparr>env_sent := x\<rparr>)" "lone (s\<lparr>ws_droppedWhileDown := n\<rparr>)" for x n using l by (simp_all add: lone_def)
  then show ?thesis using SendMessage
    by (simp add: transport_send_def socket_send_def split: option.split TransportStatus.split)
next
  case (TimerFires h)
  then show ?thesis using timer_fires_lone [OF inv l] by simp
next
  case (TokenAnswered f answer created)
  show ?thesis
  proof (cases "env_fetches s f")
    case (Some q)
    then obtain u m where q: "env_fetches s f = Some (u, m)" by (cases q) simp
    have l': "lone (s\<lparr>env_fetches := (env_fetches s)(f := None)\<rparr>)" by (rule lone_same [OF l]) (auto split: if_splits)
    moreover have "lone (scheduleAuthRefresh c (socket_send i b t))" if "lone t" for i b t
      using that by (simp add: lone_def socket_send_def)
    ultimately have "lone (refresh_continues c m answer (s\<lparr>env_fetches := (env_fetches s)(f := None)\<rparr>))"
      by (simp add: refresh_continues_def split: option.split)
    then show ?thesis using TokenAnswered q open_continues_lone [OF inv l]
      by (cases u) (simp_all add: token_answered_def)
  qed (use TokenAnswered l in \<open>simp add: token_answered_def\<close>)
next
  case (SocketOpens i)
  then show ?thesis using l on_open_lone [OF inv l]
    by (auto simp: listens_Some split: option.split)
next
  case (SocketMessage i d)
  have "lone (t\<lparr>env_delivered := x\<rparr>)" if "rememberError c b (armSilence c m s) = Some t" for m b t x
    using that l by (auto simp: rememberError_def lone_def split: list.splits if_splits sum.splits option.splits HbMessage.splits)
  moreover have "lone (armSilence c m s)" for m using l by (simp add: lone_def)
  ultimately show ?thesis using SocketMessage l by (simp add: on_message_def Let_def split: option.split)
next
  case (SocketCloses i code reason)
  show ?thesis
  proof (cases "listens (\<lambda>k. sk_life k \<noteq> Sk_closed) i s")
    case None
    then show ?thesis using SocketCloses set_life_lone [OF l] by simp
  next
    case (Some m)
    then obtain k where "env_sockets s i = Some k" "sk_wired k" "sk_life k \<noteq> Sk_closed" "m = sk_mine k"
      by (auto simp: listens_Some)
    with SocketCloses Some handleClose_lone [OF inv l] show ?thesis by simp
  qed
next
  case OfflineEvent
  define t where "t = (clearTimer (ws_retryTimer s) s)\<lparr>ws_retryTimer := None\<rparr>"
  have t: "env_sockets t = env_sockets s" "ws_generation t = ws_generation s" "ws_socket t = ws_socket s" "env_fetches t = env_fetches s"
    by (simp_all add: t_def clearTimer_eq)
  then have "none_open (env_sockets (dropSocket CLOSE_NORMAL t))" using l by (intro lone_drop) (simp add: lone_def)
  then have "lone (publish OFFLINE_STATUS (dropSocket CLOSE_NORMAL t))"
    using none_open_lone e(2) [OF OfflineEvent] t by (simp add: lone_def) (simp add: dropSocket_eq clear_link_timers_eq t)
  then show ?thesis using OfflineEvent l by (simp add: onNetworkOffline_def Let_def t_def)
next
  case OnlineEvent
  have "lone (openSocket (s\<lparr>ws_attempt := 0\<rparr>))" if "ws_status s = Stopped stopped_offline x y" for x y
    using l that by (intro openSocket_lone) (simp add: lone_def)
  then show ?thesis using OnlineEvent l by (auto simp: onNetworkOnline_def split: TransportStatus.split StopReason.split)
qed (use l in \<open>simp_all add: lone_def\<close>)

text \<open>
  C20. There is one connection at a time: in every run in which the offline event never arrives while the token of
  the current attempt is awaited, at most one socket has neither ended nor been closed by the
  transport, it is the one the transport uses, and after \<open>disconnect\<close> there is none.
\<close>

theorem one_connection:
  assumes "careful_run c s" "env_sockets s i = Some k" "still_open k"
  shows "ws_socket s = Some i \<and> sk_mine k = ws_generation s \<and> env_active s"
proof -
  have inv: "transport_inv s" using assms(1) by (intro transport_run_inv careful_run_run)
  have "lone s" using assms(1)
  proof (induction rule: careful_run.induct)
    case (start onLine)
    then show ?case by (simp add: lone_def lone_sockets_def new_transport_def)
  next
    case (step s e)
    then show ?case by (intro transport_step_lone transport_run_inv careful_run_run)
  qed
  with assms have "ws_socket s = Some i" "sk_mine k = ws_generation s" by (auto simp: lone_def lone_sockets_def)
  moreover from this inv have "env_active s" by (auto simp: transport_inv_def idle_def)
  ultimately show ?thesis by simp
qed

definition sample_linking :: Transport where
  "sample_linking = foldl (transport_step sample_transport) (new_transport None)
     [Connect, TokenAnswered 0 (Some ''t'') True]"

lemmas transport_eval = transport_connect_def openSocket_def request_token_def new_transport_def
    isBrowserOffline_def token_answered_def open_continues_def createSocket_def armConnectTimeout_def setTimeout_def
    clearTimer_eq clear_handle_def publish_def listens_def set_life_eq clear_link_timers_eq with_life_def
    on_open_def armSilence_def scheduleAuthRefresh_def onNetworkOffline_def onNetworkOnline_def dropSocket_eq
    unwired_def OFFLINE_STATUS_def Let_def

lemma sample_linking_state:
  "careful_run sample_transport sample_linking"
  "env_sockets sample_linking 0 = Some (fresh_socket (socket_target ''wss://rt/board'' ''t'') 1)"
proof -
  show "careful_run sample_transport sample_linking"
    unfolding sample_linking_def foldl.simps
    by (intro careful_run.step careful_run.start) (simp_all add: new_transport_def)
  show "env_sockets sample_linking 0 = Some (fresh_socket (socket_target ''wss://rt/board'' ''t'') 1)"
    by (simp add: sample_linking_def transport_eval fresh_socket_def)
qed

theorem one_connection_witness:
  "careful_run sample_transport sample_linking \<and>
   env_sockets sample_linking 0 = Some (fresh_socket (socket_target ''wss://rt/board'' ''t'') 1) \<and>
   ws_socket sample_linking = Some 0 \<and> env_active sample_linking"
  using one_connection [OF sample_linking_state] sample_linking_state by (simp add: still_open_def fresh_socket_def)

text \<open>What the two halves of an outage do to a transport that waits for a token.\<close>

lemma outage_keeps_request:
  assumes "opt_networkEvents c" "ws_unwireNetwork s" "ws_started s" "env_fetches s f = Some (ForOpen, ws_generation s)"
    and s': "s' = transport_step c (transport_step c s OfflineEvent) (TokenAnswered f (Some t) True)"
  shows "ws_status s' = OFFLINE_STATUS \<and> ws_socket s' = Some (env_nextSocket s) \<and>
    ws_generation s' = ws_generation s \<and> ws_started s' \<and> ws_unwireNetwork s' \<and>
    env_nextSocket s' = Suc (env_nextSocket s) \<and> env_nextFetch s' = env_nextFetch s \<and>
    env_sockets s' (env_nextSocket s) = Some (fresh_socket (socket_target (opt_url c) t) (ws_generation s))"
  using assms(1-4) unfolding s' by (simp add: transport_eval fresh_socket_def)

lemma online_opens_again:
  assumes "opt_networkEvents c" "ws_unwireNetwork s" "ws_started s" "ws_status s = OFFLINE_STATUS"
    and s': "s' = transport_step c (transport_step c s OnlineEvent) (TokenAnswered (env_nextFetch s) (Some t) True)"
  shows "ws_socket s' = Some (env_nextSocket s) \<and> ws_generation s' = Suc (ws_generation s) \<and> ws_started s' \<and>
    env_sockets s' = (env_sockets s)(env_nextSocket s \<mapsto>
      fresh_socket (socket_target (opt_url c) t) (Suc (ws_generation s)))"
  using assms(1-4) unfolding s' by (simp add: transport_eval fresh_socket_def)

lemma stale_socket_opens:
  assumes "env_sockets s i = Some (fresh_socket u g)" "ws_generation s \<noteq> g"
  shows "transport_step c s (SocketOpens i) = set_life i Sk_open s"
  using assms by (simp add: listens_def fresh_socket_def on_open_def set_life_eq)

lemma own_socket_opens:
  assumes "env_sockets s i = Some (fresh_socket u (ws_generation s))" "ws_started s"
    and s': "s' = transport_step c s (SocketOpens i)"
  shows "ws_status s' = Open True \<and> ws_socket s' = ws_socket s \<and>
    env_sockets s' = (env_sockets s)(i \<mapsto> (fresh_socket u (ws_generation s))\<lparr>sk_life := Sk_open\<rparr>)"
  using assms(1,2) unfolding s'
  by (simp add: listens_def fresh_socket_def on_open_def set_life_def Let_def clearTimer_eq)

text \<open>
  C22. An offline event during a token request leaves a ghost. Take any run of a transport that was open
  before, listens to the network events and waits for the token of a new connection. If the network goes
  and comes back around the answer, and the second request and both sockets go through, two sockets are open
  on the wire: the transport uses the second and has lost the first, which \<open>disconnect\<close> leaves open.
\<close>

theorem offline_leaves_a_ghost:
  assumes run: "transport_run c s" and net: "opt_networkEvents c" "ws_unwireNetwork s" "ws_started s"
    and waits: "env_fetches s f = Some (ForOpen, ws_generation s)"
    and i: "i = env_nextSocket s"
    and s': "s' = foldl (transport_step c) s [OfflineEvent, TokenAnswered f (Some t) True, OnlineEvent,
      TokenAnswered (env_nextFetch s) (Some t') True, SocketOpens i, SocketOpens (Suc i)]"
  shows "transport_run c s' \<and> ws_status s' = Open True \<and> ws_socket s' = Some (Suc i) \<and>
    (\<forall>j \<in> {i, Suc i}. \<exists>k. env_sockets s' j = Some k \<and> sk_life k = Sk_open \<and> still_open k) \<and>
    (\<exists>k. env_sockets (transport_step c s' Disconnect) i = Some k \<and> sk_life k = Sk_open \<and> still_open k)"
proof -
  define s2 where "s2 = foldl (transport_step c) s [OfflineEvent, TokenAnswered f (Some t) True]"
  define s4 where "s4 = foldl (transport_step c) s2 [OnlineEvent, TokenAnswered (env_nextFetch s2) (Some t') True]"
  have two: "ws_status s2 = OFFLINE_STATUS" "ws_generation s2 = ws_generation s" "ws_started s2" "ws_unwireNetwork s2"
    "env_nextSocket s2 = Suc i" "env_nextFetch s2 = env_nextFetch s"
    "env_sockets s2 i = Some (fresh_socket (socket_target (opt_url c) t) (ws_generation s))"
    using outage_keeps_request [OF net waits refl, of t] by (simp_all add: s2_def i)
  have four: "ws_socket s4 = Some (Suc i)" "ws_generation s4 = Suc (ws_generation s)" "ws_started s4"
    "env_sockets s4 i = Some (fresh_socket (socket_target (opt_url c) t) (ws_generation s))"
    "env_sockets s4 (Suc i) = Some (fresh_socket (socket_target (opt_url c) t') (Suc (ws_generation s)))"
    using online_opens_again [OF net(1) two(4,3,1) refl, of t'] two by (simp_all add: s4_def)
  define s5 where "s5 = transport_step c s4 (SocketOpens i)"
  have five: "s5 = set_life i Sk_open s4"
    unfolding s5_def by (rule stale_socket_opens [OF four(4)]) (simp add: four(2))
  have s6: "s' = transport_step c s5 (SocketOpens (Suc i))"
    using two(6) by (simp add: s' s5_def s4_def s2_def)
  have five': "env_sockets s5 (Suc i) = Some (fresh_socket (socket_target (opt_url c) t') (ws_generation s5))" "ws_started s5"
    "ws_socket s5 = Some (Suc i)"
    "env_sockets s5 i = Some ((fresh_socket (socket_target (opt_url c) t) (ws_generation s))\<lparr>sk_life := Sk_open\<rparr>)"
    using four by (simp_all add: five set_life_def)
  have six: "ws_status s' = Open True" "ws_socket s' = Some (Suc i)"
    "env_sockets s' i = Some ((fresh_socket (socket_target (opt_url c) t) (ws_generation s))\<lparr>sk_life := Sk_open\<rparr>)"
    "env_sockets s' (Suc i) = Some ((fresh_socket (socket_target (opt_url c) t') (ws_generation s5))\<lparr>sk_life := Sk_open\<rparr>)"
    using own_socket_opens [OF five'(1,2) refl, of c] five'(3,4) by (simp_all add: s6)
  have "transport_run c s'"
    unfolding s' foldl.simps by (intro transport_run.step run) simp_all
  moreover have "env_sockets (transport_step c s' Disconnect) i = env_sockets s' i"
    using six(2) by (simp add: transport_disconnect_def dropSocket_eq unwired_def clearTimer_eq Let_def)
  ultimately show ?thesis using six by (auto simp: still_open_def fresh_socket_def)
qed

definition sample_waiting :: Transport where
  "sample_waiting = foldl (transport_step sample_transport) (new_transport None)
     [Connect, TokenAnswered 0 (Some ''t'') True, SocketOpens 0, OfflineEvent, OnlineEvent]"

theorem offline_leaves_a_ghost_witness:
  "ws_socket (foldl (transport_step sample_transport) sample_waiting [OfflineEvent, TokenAnswered 1 (Some ''t'') True,
     OnlineEvent, TokenAnswered 2 (Some ''t'') True, SocketOpens 1, SocketOpens 2]) = Some 2"
proof -
  have run: "transport_run sample_transport sample_waiting"
    unfolding sample_waiting_def foldl.simps
    by (intro transport_run.step transport_run.start) (simp_all add: new_transport_def)
  have "opt_networkEvents sample_transport" "ws_unwireNetwork sample_waiting" "ws_started sample_waiting"
    "env_fetches sample_waiting 1 = Some (ForOpen, ws_generation sample_waiting)"
    "env_nextSocket sample_waiting = 1" "env_nextFetch sample_waiting = 2"
    by (simp_all add: sample_waiting_def transport_eval)
  with offline_leaves_a_ghost [OF run _ _ _ _ refl refl, of 1 "''t''" "''t''"] show ?thesis
    by (simp add: numeral_2_eq_2)
qed

end
