(* ===== verification/Persistence.thy ===== *)
theory Persistence
  imports HB_Prelude
begin

text \<open>
  The durable state of a board: the append-only update log, the catalog of snapshots and the store of
  snapshot bytes, with their in-memory and PostgreSQL implementations
  (\<open>apps/realtime/src/persistence/\<close>: \<open>update-log.ts\<close>, \<open>postgres-update-log.ts\<close>, \<open>snapshot-catalog.ts\<close>,
  \<open>postgres-snapshot-catalog.ts\<close>, \<open>snapshot-store.ts\<close>, \<open>storage-snapshot-store.ts\<close>). The three ports are
  records of operations on one world; the locale \<open>persistence\<close> is their joint contract, stated over two
  ghost views: the numbered entries and the snapshot rows of a board. Update payloads and bytes are an
  arbitrary type.
\<close>

subsection \<open>The ports\<close>

record 'b SnapshotRecord =
  seqUpto :: nat
  storageKey :: string
  stateVector :: 'b
  byteSize :: nat
  elementCount :: nat

record ('w, 'b) UpdateLog =
  log_append :: "'w \<Rightarrow> string \<Rightarrow> 'b \<Rightarrow> nat \<times> 'w"
  log_since :: "'w \<Rightarrow> string \<Rightarrow> nat \<Rightarrow> nat option \<Rightarrow> 'b list"
  log_latest :: "'w \<Rightarrow> string \<Rightarrow> nat"
  log_prune :: "'w \<Rightarrow> string \<Rightarrow> nat \<Rightarrow> nat \<times> 'w"

record ('w, 'b) SnapshotCatalog =
  cat_record :: "'w \<Rightarrow> string \<Rightarrow> 'b SnapshotRecord \<Rightarrow> 'w"
  cat_latest :: "'w \<Rightarrow> string \<Rightarrow> 'b SnapshotRecord option"
  cat_older :: "'w \<Rightarrow> string \<Rightarrow> nat \<Rightarrow> 'b SnapshotRecord list"
  cat_forget :: "'w \<Rightarrow> string \<Rightarrow> nat \<Rightarrow> 'w"

record ('w, 'b) SnapshotStore =
  obj_put :: "'w \<Rightarrow> string \<Rightarrow> 'b \<Rightarrow> 'w"
  obj_get :: "'w \<Rightarrow> string \<Rightarrow> 'b option"
  obj_delete :: "'w \<Rightarrow> string \<Rightarrow> 'w"

definition in_range :: "nat \<Rightarrow> nat option \<Rightarrow> nat \<Rightarrow> bool" where
  "in_range afterSeq uptoSeq s \<longleftrightarrow>
     afterSeq < s \<and> (case uptoSeq of None \<Rightarrow> True | Some u \<Rightarrow> s \<le> u)"

definition snapshotKey :: "string \<Rightarrow> nat \<Rightarrow> string" where
  "snapshotKey boardId upTo = boardId @ ''/'' @ pad_start 12 (CHR ''0'') (show_nat upTo) @ ''.ybin''"

text \<open>The row with the greatest \<open>seqUpto\<close>, the first of them on a tie.\<close>

definition best_snapshot :: "'b SnapshotRecord list \<Rightarrow> 'b SnapshotRecord option" where
  "best_snapshot rows =
     foldl (\<lambda>top row. case top of
              None \<Rightarrow> Some row
            | Some t \<Rightarrow> if seqUpto row > seqUpto t then Some row else Some t) None rows"

subsection \<open>In memory\<close>

record 'b MemWorld =
  mem_logs :: "string \<rightharpoonup> ('b \<times> nat) list"
  mem_highWater :: "string \<rightharpoonup> nat"
  mem_rows :: "string \<rightharpoonup> 'b SnapshotRecord list"
  mem_objects :: "string \<rightharpoonup> 'b"

definition mem_append :: "'b MemWorld \<Rightarrow> string \<Rightarrow> 'b \<Rightarrow> nat \<times> 'b MemWorld" where
  "mem_append w b p =
     (let entries = get_or [] (mem_logs w) b; s = get_or 0 (mem_highWater w) b + 1
      in (s, w\<lparr>mem_logs := (mem_logs w)(b \<mapsto> entries @ [(p, s)]),
              mem_highWater := (mem_highWater w)(b \<mapsto> s)\<rparr>))"

definition mem_since :: "'b MemWorld \<Rightarrow> string \<Rightarrow> nat \<Rightarrow> nat option \<Rightarrow> 'b list" where
  "mem_since w b afterSeq uptoSeq =
     map fst (filter (\<lambda>e. in_range afterSeq uptoSeq (snd e)) (get_or [] (mem_logs w) b))"

definition mem_latest :: "'b MemWorld \<Rightarrow> string \<Rightarrow> nat" where
  "mem_latest w b = get_or 0 (mem_highWater w) b"

definition mem_prune :: "'b MemWorld \<Rightarrow> string \<Rightarrow> nat \<Rightarrow> nat \<times> 'b MemWorld" where
  "mem_prune w b uptoSeq =
     (let entries = get_or [] (mem_logs w) b; kept = filter (\<lambda>e. snd e > uptoSeq) entries
      in (length entries - length kept, w\<lparr>mem_logs := (mem_logs w)(b \<mapsto> kept)\<rparr>))"

definition mem_log :: "('b MemWorld, 'b) UpdateLog" where
  "mem_log = \<lparr> log_append = mem_append, log_since = mem_since, log_latest = mem_latest,
               log_prune = mem_prune \<rparr>"

definition mem_record :: "'b MemWorld \<Rightarrow> string \<Rightarrow> 'b SnapshotRecord \<Rightarrow> 'b MemWorld" where
  "mem_record w b r = w\<lparr>mem_rows := (mem_rows w)(b \<mapsto> get_or [] (mem_rows w) b @ [r])\<rparr>"

definition mem_latest_snapshot :: "'b MemWorld \<Rightarrow> string \<Rightarrow> 'b SnapshotRecord option" where
  "mem_latest_snapshot w b = best_snapshot (get_or [] (mem_rows w) b)"

definition mem_older :: "'b MemWorld \<Rightarrow> string \<Rightarrow> nat \<Rightarrow> 'b SnapshotRecord list" where
  "mem_older w b keepFrom = filter (\<lambda>r. seqUpto r < keepFrom) (get_or [] (mem_rows w) b)"

definition mem_forget :: "'b MemWorld \<Rightarrow> string \<Rightarrow> nat \<Rightarrow> 'b MemWorld" where
  "mem_forget w b upTo =
     w\<lparr>mem_rows := (mem_rows w)(b \<mapsto> filter (\<lambda>r. seqUpto r \<noteq> upTo) (get_or [] (mem_rows w) b))\<rparr>"

definition mem_catalog :: "('b MemWorld, 'b) SnapshotCatalog" where
  "mem_catalog = \<lparr> cat_record = mem_record, cat_latest = mem_latest_snapshot, cat_older = mem_older,
                   cat_forget = mem_forget \<rparr>"

definition mem_store :: "('b MemWorld, 'b) SnapshotStore" where
  "mem_store = \<lparr> obj_put = (\<lambda>w k b. w\<lparr>mem_objects := (mem_objects w)(k \<mapsto> b)\<rparr>),
                 obj_get = (\<lambda>w k. mem_objects w k),
                 obj_delete = (\<lambda>w k. w\<lparr>mem_objects := (mem_objects w)(k := None)\<rparr>) \<rparr>"

subsection \<open>PostgreSQL and the object storage\<close>

record 'b UpdateRow =
  bu_board :: string
  bu_seq :: nat
  bu_payload :: 'b

record 'b PgWorld =
  board_updates :: "'b UpdateRow list"
  board_snapshots :: "(string \<times> 'b SnapshotRecord) list"
  pg_objects :: "string \<rightharpoonup> 'b"

definition pg_latest :: "'b PgWorld \<Rightarrow> string \<Rightarrow> nat" where
  "pg_latest w b =
     max (sql_max bu_seq (\<lambda>r. bu_board r = b) (board_updates w))
         (sql_max (\<lambda>r. seqUpto (snd r)) (\<lambda>r. fst r = b) (board_snapshots w))"

definition MAX_SEQ_RETRIES :: nat where "MAX_SEQ_RETRIES = 5"

text \<open>
  The insert with its retries. Each attempt is a pair: the state its statement reads (a statement does
  not see rows other transactions have not committed yet) and the state its row is inserted into, where
  the unique index \<open>(board_id, seq)\<close> may refuse it.
\<close>

datatype AppendError = UniqueViolation | NoAttemptLeft

fun appendNow ::
  "nat \<Rightarrow> string \<Rightarrow> 'b \<Rightarrow> ('b PgWorld \<times> 'b PgWorld) list \<Rightarrow> AppendError + (nat \<times> 'b PgWorld)" where
  "appendNow attempt b p [] = Inl NoAttemptLeft"
| "appendNow attempt b p ((seen, w) # rest) =
     (let s = pg_latest seen b + 1
      in if (\<exists>r \<in> set (board_updates w). bu_board r = b \<and> bu_seq r = s)
         then (if attempt = MAX_SEQ_RETRIES then Inl UniqueViolation
               else appendNow (attempt + 1) b p rest)
         else Inr (s, w\<lparr>board_updates := board_updates w @
                        [\<lparr> bu_board = b, bu_seq = s, bu_payload = p \<rparr>]\<rparr>))"

text \<open>Through the queue of its board, an append of one process sees everything before it.\<close>

definition pg_append :: "'b PgWorld \<Rightarrow> string \<Rightarrow> 'b \<Rightarrow> nat \<times> 'b PgWorld" where
  "pg_append w b p = (case appendNow 1 b p [(w, w)] of Inr r \<Rightarrow> r | Inl _ \<Rightarrow> (0, w))"

definition pg_since :: "'b PgWorld \<Rightarrow> string \<Rightarrow> nat \<Rightarrow> nat option \<Rightarrow> 'b list" where
  "pg_since w b afterSeq uptoSeq =
     map bu_payload (sort_key bu_seq
       (filter (\<lambda>r. bu_board r = b \<and> in_range afterSeq uptoSeq (bu_seq r)) (board_updates w)))"

definition pg_prune :: "'b PgWorld \<Rightarrow> string \<Rightarrow> nat \<Rightarrow> nat \<times> 'b PgWorld" where
  "pg_prune w b uptoSeq =
     (let p = (\<lambda>r. bu_board r = b \<and> bu_seq r \<le> uptoSeq)
      in (sql_count p (board_updates w), w\<lparr>board_updates := sql_delete p (board_updates w)\<rparr>))"

definition pg_log :: "('b PgWorld, 'b) UpdateLog" where
  "pg_log = \<lparr> log_append = pg_append, log_since = pg_since, log_latest = pg_latest,
              log_prune = pg_prune \<rparr>"

definition pg_rows :: "'b PgWorld \<Rightarrow> string \<Rightarrow> 'b SnapshotRecord list" where
  "pg_rows w b = map snd (filter (\<lambda>r. fst r = b) (board_snapshots w))"

definition pg_record :: "'b PgWorld \<Rightarrow> string \<Rightarrow> 'b SnapshotRecord \<Rightarrow> 'b PgWorld" where
  "pg_record w b r = w\<lparr>board_snapshots := board_snapshots w @ [(b, r)]\<rparr>"

definition pg_latest_snapshot :: "'b PgWorld \<Rightarrow> string \<Rightarrow> 'b SnapshotRecord option" where
  "pg_latest_snapshot w b = best_snapshot (pg_rows w b)"

definition pg_older :: "'b PgWorld \<Rightarrow> string \<Rightarrow> nat \<Rightarrow> 'b SnapshotRecord list" where
  "pg_older w b keepFrom = sort_key seqUpto (filter (\<lambda>r. seqUpto r < keepFrom) (pg_rows w b))"

definition pg_forget :: "'b PgWorld \<Rightarrow> string \<Rightarrow> nat \<Rightarrow> 'b PgWorld" where
  "pg_forget w b upTo =
     w\<lparr>board_snapshots := sql_delete (\<lambda>r. fst r = b \<and> seqUpto (snd r) = upTo) (board_snapshots w)\<rparr>"

definition pg_catalog :: "('b PgWorld, 'b) SnapshotCatalog" where
  "pg_catalog = \<lparr> cat_record = pg_record, cat_latest = pg_latest_snapshot, cat_older = pg_older,
                  cat_forget = pg_forget \<rparr>"

definition storage_store :: "('b PgWorld, 'b) SnapshotStore" where
  "storage_store = \<lparr> obj_put = (\<lambda>w k b. w\<lparr>pg_objects := (pg_objects w)(k \<mapsto> b)\<rparr>),
                     obj_get = (\<lambda>w k. pg_objects w k),
                     obj_delete = (\<lambda>w k. w\<lparr>pg_objects := (pg_objects w)(k := None)\<rparr>) \<rparr>"

subsection \<open>The contract\<close>

locale persistence =
  fixes L :: "('w, 'b) UpdateLog" and C :: "('w, 'b) SnapshotCatalog" and S :: "('w, 'b) SnapshotStore"
    and inv :: "'w \<Rightarrow> bool" and entries :: "'w \<Rightarrow> string \<Rightarrow> (nat \<times> 'b) list"
    and rows :: "'w \<Rightarrow> string \<Rightarrow> 'b SnapshotRecord list"
  assumes since_entries: "inv w \<Longrightarrow> log_since L w b a u =
      map snd (filter (\<lambda>e. in_range a u (fst e)) (entries w b))"
    and latest_rows: "cat_latest C w b = best_snapshot (rows w b)"
    and older_rows: "set (cat_older C w b k) = {r \<in> set (rows w b). seqUpto r < k}"
    and append_law: "\<lbrakk>inv w; log_append L w b p = (s, w')\<rbrakk> \<Longrightarrow>
      inv w' \<and> s = log_latest L w b + 1 \<and> log_latest L w' = (log_latest L w)(b := s) \<and>
      entries w' = (entries w)(b := entries w b @ [(s, p)]) \<and> rows w' = rows w \<and>
      obj_get S w' = obj_get S w"
    and prune_law: "\<lbrakk>inv w; log_prune L w b k = (n, w')\<rbrakk> \<Longrightarrow>
      inv w' \<and> entries w' = (entries w)(b := filter (\<lambda>e. k < fst e) (entries w b)) \<and>
      rows w' = rows w \<and> obj_get S w' = obj_get S w \<and>
      ((\<exists>r \<in> set (rows w b). k \<le> seqUpto r) \<longrightarrow> log_latest L w' = log_latest L w)"
    and record_law: "inv w \<Longrightarrow> seqUpto r \<le> log_latest L w b \<Longrightarrow>
      inv (cat_record C w b r) \<and> entries (cat_record C w b r) = entries w \<and>
      rows (cat_record C w b r) = (rows w)(b := rows w b @ [r]) \<and>
      obj_get S (cat_record C w b r) = obj_get S w \<and>
      log_latest L (cat_record C w b r) = log_latest L w"
    and forget_law: "inv w \<Longrightarrow>
      inv (cat_forget C w b k) \<and> entries (cat_forget C w b k) = entries w \<and>
      rows (cat_forget C w b k) = (rows w)(b := filter (\<lambda>r. seqUpto r \<noteq> k) (rows w b)) \<and>
      obj_get S (cat_forget C w b k) = obj_get S w \<and>
      ((\<exists>r \<in> set (rows w b). k < seqUpto r) \<longrightarrow> log_latest L (cat_forget C w b k) = log_latest L w)"
    and put_law: "inv w \<Longrightarrow>
      inv (obj_put S w key x) \<and> entries (obj_put S w key x) = entries w \<and>
      rows (obj_put S w key x) = rows w \<and> log_latest L (obj_put S w key x) = log_latest L w \<and>
      obj_get S (obj_put S w key x) = (obj_get S w)(key \<mapsto> x)"
    and delete_law: "inv w \<Longrightarrow>
      inv (obj_delete S w key) \<and> entries (obj_delete S w key) = entries w \<and>
      rows (obj_delete S w key) = rows w \<and> log_latest L (obj_delete S w key) = log_latest L w \<and>
      obj_get S (obj_delete S w key) = (obj_get S w)(key := None)"

subsection \<open>Both implementations keep it\<close>

definition mem_entries :: "'b MemWorld \<Rightarrow> string \<Rightarrow> (nat \<times> 'b) list" where
  "mem_entries w b = map (\<lambda>e. (snd e, fst e)) (get_or [] (mem_logs w) b)"

definition mem_snapshot_rows :: "'b MemWorld \<Rightarrow> string \<Rightarrow> 'b SnapshotRecord list" where
  "mem_snapshot_rows w b = get_or [] (mem_rows w) b"

lemmas mem_defs = mem_log_def mem_catalog_def mem_store_def mem_append_def mem_since_def mem_latest_def
  mem_prune_def mem_record_def mem_latest_snapshot_def mem_older_def mem_forget_def mem_entries_def
  mem_snapshot_rows_def

interpretation mem: persistence mem_log mem_catalog mem_store "\<lambda>_. True" mem_entries mem_snapshot_rows
  by unfold_locales
    (auto simp: mem_defs Let_def fun_eq_iff filter_map comp_def)

definition pg_entries :: "'b PgWorld \<Rightarrow> string \<Rightarrow> (nat \<times> 'b) list" where
  "pg_entries w b = map (\<lambda>r. (bu_seq r, bu_payload r)) (filter (\<lambda>r. bu_board r = b) (board_updates w))"

text \<open>The rows of each board are in the order of their numbers: an insert always takes the next one.\<close>

definition pg_inv :: "'b PgWorld \<Rightarrow> bool" where
  "pg_inv w \<longleftrightarrow> (\<forall>b. sorted_wrt (<) (map fst (pg_entries w b)))"

lemma pg_append_eq:
  "pg_append w b p = (pg_latest w b + 1, w\<lparr>board_updates := board_updates w @
     [\<lparr> bu_board = b, bu_seq = pg_latest w b + 1, bu_payload = p \<rparr>]\<rparr>)"
proof -
  have "\<not> (\<exists>r \<in> set (board_updates w). bu_board r = b \<and> bu_seq r = pg_latest w b + 1)"
  proof
    assume "\<exists>r \<in> set (board_updates w). bu_board r = b \<and> bu_seq r = pg_latest w b + 1"
    then obtain r where r: "r \<in> set (board_updates w)" "bu_board r = b" "bu_seq r = pg_latest w b + 1"
      by blast
    have "bu_seq r \<le> sql_max bu_seq (\<lambda>r. bu_board r = b) (board_updates w)"
      using r(1,2) by (intro sql_max_ge)
    with r(3) show False by (simp add: pg_latest_def)
  qed
  then show ?thesis by (simp add: pg_append_def Let_def)
qed

lemma sorted_filter_board:
  assumes "pg_inv w"
  shows "sorted (map bu_seq (filter (\<lambda>r. bu_board r = b \<and> P r) (board_updates w)))"
proof -
  have "sorted_wrt (<) (map bu_seq (filter (\<lambda>r. bu_board r = b) (board_updates w)))"
    using assms by (simp add: pg_inv_def pg_entries_def comp_def)
  then have "sorted (map bu_seq (filter (\<lambda>r. bu_board r = b) (board_updates w)))"
    by (rule strict_sorted_imp_sorted)
  then have "sorted (map bu_seq (filter P (filter (\<lambda>r. bu_board r = b) (board_updates w))))"
    by (rule sorted_filter)
  then show ?thesis by (simp add: conj_commute)
qed

lemma pg_since_entries:
  assumes "pg_inv w"
  shows "pg_since w b a u = map snd (filter (\<lambda>e. in_range a u (fst e)) (pg_entries w b))"
proof -
  have "sort_key bu_seq (filter (\<lambda>r. bu_board r = b \<and> in_range a u (bu_seq r)) (board_updates w)) =
      filter (\<lambda>r. bu_board r = b \<and> in_range a u (bu_seq r)) (board_updates w)"
    using sorted_filter_board [OF assms] by (rule sort_key_id_if_sorted)
  then show ?thesis
    by (simp add: pg_since_def pg_entries_def filter_map comp_def conj_commute)
qed

lemma pg_entries_le: "e \<in> set (pg_entries w b) \<Longrightarrow> fst e \<le> pg_latest w b"
  by (auto simp: pg_entries_def pg_latest_def intro!: max.coboundedI1 sql_max_ge)

lemma pg_inv_update:
  assumes "pg_inv w" "\<And>b'. b' \<noteq> b \<Longrightarrow> pg_entries w' b' = pg_entries w b'"
    and "sorted_wrt (<) (map fst (pg_entries w' b))"
  shows "pg_inv w'"
  unfolding pg_inv_def
proof
  fix b'
  show "sorted_wrt (<) (map fst (pg_entries w' b'))"
    using assms by (cases "b' = b") (simp_all add: pg_inv_def)
qed

lemma pg_append_law:
  assumes "pg_inv w" "pg_append w b p = (s, w')"
  shows "pg_inv w' \<and> s = pg_latest w b + 1 \<and> pg_latest w' = (pg_latest w)(b := s) \<and>
    pg_entries w' = (pg_entries w)(b := pg_entries w b @ [(s, p)]) \<and> pg_rows w' = pg_rows w \<and>
    pg_objects w' = pg_objects w"
proof -
  have "(s, w') = (pg_latest w b + 1, w\<lparr>board_updates := board_updates w @
      [\<lparr> bu_board = b, bu_seq = pg_latest w b + 1, bu_payload = p \<rparr>]\<rparr>)"
    unfolding assms(2) [symmetric] by (rule pg_append_eq)
  then have s: "s = pg_latest w b + 1" and w': "w' = w\<lparr>board_updates := board_updates w @
      [\<lparr> bu_board = b, bu_seq = pg_latest w b + 1, bu_payload = p \<rparr>]\<rparr>"
    by (rule conjunct1 [OF iffD1 [OF prod.inject]], rule conjunct2 [OF iffD1 [OF prod.inject]])
  have entries: "pg_entries w' = (pg_entries w)(b := pg_entries w b @ [(s, p)])"
    by (auto simp: fun_eq_iff pg_entries_def w' s)
  have "sorted_wrt (<) (map fst (pg_entries w b @ [(s, p)]))"
    using assms(1) pg_entries_le [of _ w b] s
    by (auto simp: pg_inv_def sorted_wrt_append less_Suc_eq_le)
  then have "pg_inv w'" by (intro pg_inv_update [OF assms(1), of b]) (simp_all add: entries)
  moreover have "pg_latest w' = (pg_latest w)(b := s)"
    by (auto simp: fun_eq_iff pg_latest_def w' s table_simps)
  moreover have "pg_rows w' = pg_rows w" "pg_objects w' = pg_objects w"
    by (simp_all add: w' pg_rows_def fun_eq_iff)
  ultimately show ?thesis using s entries by (intro conjI)
qed

lemma pg_prune_law:
  assumes "pg_inv w" "pg_prune w b k = (n, w')"
  shows "pg_inv w' \<and> pg_entries w' = (pg_entries w)(b := filter (\<lambda>e. k < fst e) (pg_entries w b)) \<and>
    pg_rows w' = pg_rows w \<and> pg_objects w' = pg_objects w \<and>
    ((\<exists>r \<in> set (pg_rows w b). k \<le> seqUpto r) \<longrightarrow> pg_latest w' = pg_latest w)"
proof -
  let ?p = "\<lambda>r. bu_board r = b \<and> bu_seq r \<le> k"
  have w': "w' = w\<lparr>board_updates := sql_delete ?p (board_updates w)\<rparr>"
    using assms(2) by (simp add: pg_prune_def Let_def)
  have entries: "pg_entries w' = (pg_entries w)(b := filter (\<lambda>e. k < fst e) (pg_entries w b))"
    unfolding fun_eq_iff
  proof
    fix b'
    have "filter (\<lambda>r. bu_board r = b') (sql_delete ?p (board_updates w)) =
        (if b' = b then filter (\<lambda>r. k < bu_seq r) (filter (\<lambda>r. bu_board r = b') (board_updates w))
         else filter (\<lambda>r. bu_board r = b') (board_updates w))"
      by (simp add: sql_delete_def) (intro conjI impI; rule filter_cong; auto)
    then show "pg_entries w' b' = ((pg_entries w)(b := filter (\<lambda>e. k < fst e) (pg_entries w b))) b'"
      by (simp add: pg_entries_def w' filter_map comp_def)
  qed
  have "sorted_wrt (<) (map fst (filter (\<lambda>e. k < fst e) (pg_entries w b)))"
    using assms(1) sorted_wrt_filter [of "\<lambda>x y. fst x < fst y" "pg_entries w b"]
    by (simp add: pg_inv_def sorted_wrt_map)
  then have inv: "pg_inv w'" by (intro pg_inv_update [OF assms(1), of b]) (simp_all add: entries)
  have latest: "pg_latest w' = pg_latest w" if "r \<in> set (pg_rows w b)" "k \<le> seqUpto r" for r
  proof
    fix b'
    let ?m = "sql_max (\<lambda>r. seqUpto (snd r)) (\<lambda>r. fst r = b') (board_snapshots w)"
    have "\<forall>r \<in> set (board_updates w). bu_board r = b' \<and> ?p r \<longrightarrow> bu_seq r \<le> ?m"
    proof (intro ballI impI)
      fix q
      assume q: "q \<in> set (board_updates w)" "bu_board q = b' \<and> ?p q"
      from that(1) obtain x where x: "x \<in> set (board_snapshots w)" "fst x = b" "snd x = r"
        by (auto simp: pg_rows_def)
      have "seqUpto (snd x) \<le> ?m"
        using x(1,2) q(2) by (intro sql_max_ge [where c = "\<lambda>r. seqUpto (snd r)"]) auto
      with q(2) x(3) that(2) show "bu_seq q \<le> ?m" by simp
    qed
    from sql_max_delete [OF this] show "pg_latest w' b' = pg_latest w b'"
      by (simp add: pg_latest_def w')
  qed
  have "pg_rows w' = pg_rows w" "pg_objects w' = pg_objects w"
    by (simp_all add: w' pg_rows_def fun_eq_iff)
  moreover have "(\<exists>r \<in> set (pg_rows w b). k \<le> seqUpto r) \<longrightarrow> pg_latest w' = pg_latest w"
    using latest by (intro impI) (erule bexE)
  ultimately show ?thesis using inv entries by (intro conjI)
qed

lemma pg_record_law:
  assumes "pg_inv w" "seqUpto r \<le> pg_latest w b"
  shows "pg_inv (pg_record w b r) \<and> pg_entries (pg_record w b r) = pg_entries w \<and>
    pg_rows (pg_record w b r) = (pg_rows w)(b := pg_rows w b @ [r]) \<and>
    pg_objects (pg_record w b r) = pg_objects w \<and> pg_latest (pg_record w b r) = pg_latest w"
  using assms
  by (auto simp: pg_record_def pg_inv_def pg_entries_def pg_rows_def pg_latest_def fun_eq_iff table_simps)

lemma pg_forget_law:
  assumes "pg_inv w"
  shows "pg_inv (pg_forget w b k) \<and> pg_entries (pg_forget w b k) = pg_entries w \<and>
    pg_rows (pg_forget w b k) = (pg_rows w)(b := filter (\<lambda>r. seqUpto r \<noteq> k) (pg_rows w b)) \<and>
    pg_objects (pg_forget w b k) = pg_objects w \<and>
    ((\<exists>r \<in> set (pg_rows w b). k < seqUpto r) \<longrightarrow> pg_latest (pg_forget w b k) = pg_latest w)"
proof -
  let ?p = "\<lambda>r. fst r = b \<and> seqUpto (snd r) = k"
  have rows: "pg_rows (pg_forget w b k) = (pg_rows w)(b := filter (\<lambda>r. seqUpto r \<noteq> k) (pg_rows w b))"
    unfolding fun_eq_iff
  proof
    fix b'
    have "filter (\<lambda>r. fst r = b') (sql_delete ?p (board_snapshots w)) =
        (if b' = b then filter (\<lambda>r. seqUpto (snd r) \<noteq> k) (filter (\<lambda>r. fst r = b') (board_snapshots w))
         else filter (\<lambda>r. fst r = b') (board_snapshots w))"
      by (simp add: sql_delete_def) (intro conjI impI; rule filter_cong; auto)
    then show "pg_rows (pg_forget w b k) b' =
        ((pg_rows w)(b := filter (\<lambda>r. seqUpto r \<noteq> k) (pg_rows w b))) b'"
      by (simp add: pg_rows_def pg_forget_def filter_map comp_def)
  qed
  have latest: "pg_latest (pg_forget w b k) = pg_latest w" if "r \<in> set (pg_rows w b)" "k < seqUpto r" for r
  proof
    fix b'
    let ?c = "\<lambda>r. seqUpto (snd r)" and ?t' = "sql_delete ?p (board_snapshots w)"
    from that(1) obtain x where x: "x \<in> set (board_snapshots w)" "fst x = b" "snd x = r"
      by (auto simp: pg_rows_def)
    have "\<forall>q \<in> set (board_snapshots w). fst q = b' \<and> ?p q \<longrightarrow> ?c q \<le> sql_max ?c (\<lambda>r. fst r = b') ?t'"
    proof (intro ballI impI)
      fix q
      assume q: "fst q = b' \<and> ?p q"
      have "?c x \<le> sql_max ?c (\<lambda>r. fst r = b') ?t'"
        using x that(2) q by (intro sql_max_ge [where c = ?c]) auto
      with q x(3) that(2) show "?c q \<le> sql_max ?c (\<lambda>r. fst r = b') ?t'" by simp
    qed
    from sql_max_delete [OF this]
    have "sql_max ?c (\<lambda>r. fst r = b') ?t' = max (sql_max ?c (\<lambda>r. fst r = b') (board_snapshots w))
        (sql_max ?c (\<lambda>r. fst r = b') ?t')" by simp
    moreover have "sql_max ?c (\<lambda>r. fst r = b') ?t' \<le> sql_max ?c (\<lambda>r. fst r = b') (board_snapshots w)"
      by (rule sql_max_le) (auto intro: sql_max_ge [where c = ?c])
    ultimately have "sql_max ?c (\<lambda>r. fst r = b') ?t' = sql_max ?c (\<lambda>r. fst r = b') (board_snapshots w)"
      by simp
    then show "pg_latest (pg_forget w b k) b' = pg_latest w b'"
      by (simp add: pg_latest_def pg_forget_def)
  qed
  have "pg_inv (pg_forget w b k)" "pg_entries (pg_forget w b k) = pg_entries w"
    "pg_objects (pg_forget w b k) = pg_objects w"
    using assms by (simp_all add: pg_forget_def pg_inv_def pg_entries_def fun_eq_iff)
  moreover have "(\<exists>r \<in> set (pg_rows w b). k < seqUpto r) \<longrightarrow> pg_latest (pg_forget w b k) = pg_latest w"
    using latest by (intro impI) (erule bexE)
  ultimately show ?thesis using rows by (intro conjI)
qed

lemma pg_object_frame:
  "pg_inv (w\<lparr>pg_objects := f\<rparr>) = pg_inv w" "pg_entries (w\<lparr>pg_objects := f\<rparr>) = pg_entries w"
  "pg_rows (w\<lparr>pg_objects := f\<rparr>) = pg_rows w" "pg_latest (w\<lparr>pg_objects := f\<rparr>) = pg_latest w"
  by (simp_all add: pg_inv_def pg_entries_def pg_rows_def pg_latest_def fun_eq_iff)

lemmas pg_ports = pg_log_def pg_catalog_def storage_store_def

interpretation pg: persistence pg_log pg_catalog storage_store pg_inv pg_entries pg_rows
proof (unfold_locales, goal_cases)
  case (1 w b a u)
  then show ?case by (simp add: pg_ports pg_since_entries)
next
  case (2 w b)
  show ?case by (simp add: pg_ports pg_latest_snapshot_def)
next
  case (3 w b k)
  show ?case by (simp add: pg_ports pg_older_def)
next
  case (4 w b p s w')
  then have "pg_append w b p = (s, w')" by (simp add: pg_log_def)
  from pg_append_law [OF 4(1) this] show ?case unfolding pg_ports UpdateLog.simps SnapshotStore.simps .
next
  case (5 w b k n w')
  then have "pg_prune w b k = (n, w')" by (simp add: pg_log_def)
  from pg_prune_law [OF 5(1) this] show ?case unfolding pg_ports UpdateLog.simps SnapshotStore.simps .
next
  case (6 w r b)
  then have "seqUpto r \<le> pg_latest w b" by (simp add: pg_log_def)
  from pg_record_law [OF 6(1) this] show ?case
    unfolding pg_ports UpdateLog.simps SnapshotStore.simps SnapshotCatalog.simps .
next
  case (7 w b k)
  from pg_forget_law [OF this] show ?case
    unfolding pg_ports UpdateLog.simps SnapshotStore.simps SnapshotCatalog.simps .
next
  case (8 w key x)
  then show ?case by (simp add: pg_ports pg_object_frame)
next
  case (9 w key)
  then show ?case by (simp add: pg_ports pg_object_frame)
qed

end
