(* ===== verification/Compaction.thy ===== *)
theory Compaction
  imports Persistence
begin

text \<open>
  Loading a board and folding its update log into snapshots: \<open>apps/realtime/src/store/persisted-board-store.ts\<close>
  and \<open>apps/realtime/src/persistence/compactor.ts\<close>. Yjs is a parameter: a record of its operations on
  an arbitrary type of documents. A compaction is a sequence of steps, one per \<open>await\<close>; the steps of
  several boards, appends, loads, damaged writes and crashes interleave freely. As long as no compaction
  of a board overlaps another one, or a load, of the same board, each board loads as the fold of every
  update appended to it; the last theorem shows what is lost when they do overlap.
\<close>

subsection \<open>Yjs\<close>

record ('d, 'b) Yjs =
  y_new :: 'd
  y_apply :: "'d \<Rightarrow> 'b \<Rightarrow> 'd"
  y_pending :: "'d \<Rightarrow> bool"
  y_encode :: "'d \<Rightarrow> 'b"
  y_vector :: "'d \<Rightarrow> 'b"
  y_elements :: "'d \<Rightarrow> nat"
  y_length :: "'b \<Rightarrow> nat"

text \<open>
  What the code relies on: the encoded state of a document without pending structs, applied to a new
  document, gives the document back.
\<close>

definition yjs_ok :: "('d, 'b) Yjs \<Rightarrow> bool" where
  "yjs_ok Y \<longleftrightarrow> (\<forall>d. \<not> y_pending Y d \<longrightarrow> y_apply Y (y_new Y) (y_encode Y d) = d)"

subsection \<open>Loading a board\<close>

record 'b BoardSnapshot =
  snap_bytes :: "'b option"
  snap_updates :: "'b list"
  snap_seqUpto :: nat

datatype LoadError = SnapshotBytesMissing string

definition load ::
  "('w, 'b) UpdateLog \<Rightarrow> (('w, 'b) SnapshotStore \<times> ('w, 'b) SnapshotCatalog) option \<Rightarrow> 'w \<Rightarrow> string \<Rightarrow>
   LoadError + 'b BoardSnapshot" where
  "load L snapshots w b =
     (case snapshots of
        None \<Rightarrow> Inr \<lparr> snap_bytes = None, snap_updates = log_since L w b 0 None, snap_seqUpto = 0 \<rparr>
      | Some (S, C) \<Rightarrow>
          (case cat_latest C w b of
             None \<Rightarrow> Inr \<lparr> snap_bytes = None, snap_updates = log_since L w b 0 None, snap_seqUpto = 0 \<rparr>
           | Some r \<Rightarrow>
               (case obj_get S w (storageKey r) of
                  None \<Rightarrow> Inl (SnapshotBytesMissing (storageKey r))
                | Some x \<Rightarrow> Inr \<lparr> snap_bytes = Some x, snap_updates = log_since L w b (seqUpto r) None,
                                snap_seqUpto = seqUpto r \<rparr>)))"

text \<open>
  The same with its three awaits apart. The number a load carries is a ghost: how many updates the
  board had when it was called.
\<close>

datatype 'b LoadPhase =
    NotLoading
  | LoadCalled nat
  | LoadLatest nat "'b SnapshotRecord option"
  | LoadBytes nat "'b SnapshotRecord" 'b
  | LoadEnded nat "LoadError + 'b BoardSnapshot"

fun load_step ::
  "('w, 'b) UpdateLog \<Rightarrow> ('w, 'b) SnapshotCatalog \<Rightarrow> ('w, 'b) SnapshotStore \<Rightarrow> 'w \<Rightarrow> string \<Rightarrow>
   'b LoadPhase \<Rightarrow> 'b LoadPhase" where
  "load_step L C S w b (LoadCalled k) = LoadLatest k (cat_latest C w b)"
| "load_step L C S w b (LoadLatest k None) =
     LoadEnded k (Inr \<lparr> snap_bytes = None, snap_updates = log_since L w b 0 None, snap_seqUpto = 0 \<rparr>)"
| "load_step L C S w b (LoadLatest k (Some r)) =
     (case obj_get S w (storageKey r) of
        None \<Rightarrow> LoadEnded k (Inl (SnapshotBytesMissing (storageKey r)))
      | Some x \<Rightarrow> LoadBytes k r x)"
| "load_step L C S w b (LoadBytes k r x) =
     LoadEnded k (Inr \<lparr> snap_bytes = Some x, snap_updates = log_since L w b (seqUpto r) None,
                       snap_seqUpto = seqUpto r \<rparr>)"
| "load_step L C S w b NotLoading = NotLoading"
| "load_step L C S w b (LoadEnded k result) = LoadEnded k result"

lemma load_is_its_steps:
  "(load_step L C S w b ^^ 3) (LoadCalled k) = LoadEnded k (load L (Some (S, C)) w b)"
  by (simp add: numeral_3_eq_3 load_def split: option.split)

text \<open>The document a snapshot and the updates after it stand for (the transaction of a rebuild).\<close>

definition rebuild :: "('d, 'b) Yjs \<Rightarrow> 'b option \<Rightarrow> 'b list \<Rightarrow> 'd" where
  "rebuild Y base updates =
     foldl (y_apply Y) (case base of None \<Rightarrow> y_new Y | Some x \<Rightarrow> y_apply Y (y_new Y) x) updates"

abbreviation document :: "('d, 'b) Yjs \<Rightarrow> 'b list \<Rightarrow> 'd" where
  "document Y updates \<equiv> foldl (y_apply Y) (y_new Y) updates"

subsection \<open>The compactor\<close>

record CompactionThresholds =
  everyUpdates :: int
  everyMs :: int

definition shouldCompact :: "CompactionThresholds \<Rightarrow> epoch_ms \<Rightarrow> int \<Rightarrow> int \<Rightarrow> epoch_ms \<Rightarrow> bool" where
  "shouldCompact T now s sinceSeq sinceAt =
     (let pending = s - sinceSeq
      in if pending \<le> 0 then False
         else pending \<ge> everyUpdates T \<or> now - sinceAt \<ge> everyMs T)"

record CompactionResult =
  res_seqUpto :: nat
  res_byteSize :: nat
  res_elementCount :: nat
  res_pruned :: nat

datatype CompactionError = NotReadBack | VectorMismatch

text \<open>
  What the store keeps of the bytes it is given: \<open>Some\<close> for an honest one, other bytes or nothing for
  one that writes badly and reports no error.
\<close>

definition put_with :: "('w, 'b) SnapshotStore \<Rightarrow> ('b \<Rightarrow> 'b option) \<Rightarrow> 'w \<Rightarrow> string \<Rightarrow> 'b \<Rightarrow> 'w" where
  "put_with S keeps w key x = (case keeps x of Some y \<Rightarrow> obj_put S w key y | None \<Rightarrow> obj_delete S w key)"

fun collect ::
  "('w, 'b) SnapshotCatalog \<Rightarrow> ('w, 'b) SnapshotStore \<Rightarrow> string \<Rightarrow> 'b SnapshotRecord list \<Rightarrow> 'w \<Rightarrow> 'w" where
  "collect C S b [] w = w"
| "collect C S b (stale # rest) w =
     collect C S b rest (cat_forget C (obj_delete S w (storageKey stale)) b (seqUpto stale))"

definition compact ::
  "('d, 'b) Yjs \<Rightarrow> ('w, 'b) UpdateLog \<Rightarrow> ('w, 'b) SnapshotCatalog \<Rightarrow> ('w, 'b) SnapshotStore \<Rightarrow>
   ('b \<Rightarrow> 'b option) \<Rightarrow> string \<Rightarrow> nat \<Rightarrow> 'w \<Rightarrow> (CompactionError + CompactionResult option) \<times> 'w" where
  "compact Y L C S keeps b target w =
     (let previous = cat_latest C w b;
          fromSeq = (case previous of None \<Rightarrow> 0 | Some r \<Rightarrow> seqUpto r)
      in if target \<le> fromSeq then (Inr None, w)
         else
           let updates = log_since L w b fromSeq (Some target);
               base = (case previous of None \<Rightarrow> None | Some r \<Rightarrow> obj_get S w (storageKey r))
           in if previous \<noteq> None \<and> base = None then (Inr None, w)
              else
                let d = rebuild Y base updates
                in if y_pending Y d then (Inr None, w)
                   else
                     let bytes = y_encode Y d; key = snapshotKey b target;
                         w1 = put_with S keeps w key bytes
                     in case obj_get S w1 key of
                          None \<Rightarrow> (Inl NotReadBack, w1)
                        | Some written \<Rightarrow>
                            if y_vector Y (y_apply Y (y_new Y) written) \<noteq> y_vector Y d
                            then (Inl VectorMismatch, w1)
                            else
                              let w2 = cat_record C w1 b
                                         \<lparr> seqUpto = target, storageKey = key, stateVector = y_vector Y d,
                                           byteSize = y_length Y bytes, elementCount = y_elements Y d \<rparr>;
                                  (pruned, w3) = log_prune L w2 b target;
                                  w4 = collect C S b (cat_older C w3 b target) w3
                              in (Inr (Some \<lparr> res_seqUpto = target, res_byteSize = y_length Y bytes,
                                              res_elementCount = y_elements Y d, res_pruned = pruned \<rparr>), w4))"

subsection \<open>The same, one step per await\<close>

datatype ('d, 'b) Phase =
    Idle
  | Started nat
  | HavePrevious nat "'b SnapshotRecord option"
  | HaveUpdates nat "'b SnapshotRecord option" "'b list"
  | Rebuilt nat 'd
  | Written nat 'd
  | Verified nat 'd
  | Committed nat 'd
  | Pruned nat 'd nat
  | Collecting nat 'd nat "'b SnapshotRecord list"
  | Deleted nat 'd nat "'b SnapshotRecord" "'b SnapshotRecord list"
  | Finished "CompactionError + CompactionResult option"

definition previous_seq :: "'b SnapshotRecord option \<Rightarrow> nat" where
  "previous_seq previous = (case previous of None \<Rightarrow> 0 | Some r \<Rightarrow> seqUpto r)"

definition snapshot_record :: "('d, 'b) Yjs \<Rightarrow> string \<Rightarrow> nat \<Rightarrow> 'd \<Rightarrow> 'b SnapshotRecord" where
  "snapshot_record Y b target d =
     \<lparr> seqUpto = target, storageKey = snapshotKey b target, stateVector = y_vector Y d,
       byteSize = y_length Y (y_encode Y d), elementCount = y_elements Y d \<rparr>"

fun compact_step ::
  "('d, 'b) Yjs \<Rightarrow> ('w, 'b) UpdateLog \<Rightarrow> ('w, 'b) SnapshotCatalog \<Rightarrow> ('w, 'b) SnapshotStore \<Rightarrow>
   ('b \<Rightarrow> 'b option) \<Rightarrow> string \<Rightarrow> ('d, 'b) Phase \<times> 'w \<Rightarrow> ('d, 'b) Phase \<times> 'w" where
  "compact_step Y L C S keeps b (Idle, w) = (Idle, w)"
| "compact_step Y L C S keeps b (Started t, w) = (HavePrevious t (cat_latest C w b), w)"
| "compact_step Y L C S keeps b (HavePrevious t previous, w) =
     (if t \<le> previous_seq previous then (Finished (Inr None), w)
      else (HaveUpdates t previous (log_since L w b (previous_seq previous) (Some t)), w))"
| "compact_step Y L C S keeps b (HaveUpdates t previous updates, w) =
     (let base = (case previous of None \<Rightarrow> None | Some r \<Rightarrow> obj_get S w (storageKey r))
      in if previous \<noteq> None \<and> base = None then (Finished (Inr None), w)
         else if y_pending Y (rebuild Y base updates) then (Finished (Inr None), w)
         else (Rebuilt t (rebuild Y base updates), w))"
| "compact_step Y L C S keeps b (Rebuilt t d, w) =
     (Written t d, put_with S keeps w (snapshotKey b t) (y_encode Y d))"
| "compact_step Y L C S keeps b (Written t d, w) =
     (case obj_get S w (snapshotKey b t) of
        None \<Rightarrow> (Finished (Inl NotReadBack), w)
      | Some x \<Rightarrow> if y_vector Y (y_apply Y (y_new Y) x) \<noteq> y_vector Y d
                  then (Finished (Inl VectorMismatch), w) else (Verified t d, w))"
| "compact_step Y L C S keeps b (Verified t d, w) =
     (Committed t d, cat_record C w b (snapshot_record Y b t d))"
| "compact_step Y L C S keeps b (Committed t d, w) =
     (let (n, w') = log_prune L w b t in (Pruned t d n, w'))"
| "compact_step Y L C S keeps b (Pruned t d n, w) = (Collecting t d n (cat_older C w b t), w)"
| "compact_step Y L C S keeps b (Collecting t d n [], w) =
     (Finished (Inr (Some \<lparr> res_seqUpto = t, res_byteSize = y_length Y (y_encode Y d),
                            res_elementCount = y_elements Y d, res_pruned = n \<rparr>)), w)"
| "compact_step Y L C S keeps b (Collecting t d n (stale # rest), w) =
     (Deleted t d n stale rest, obj_delete S w (storageKey stale))"
| "compact_step Y L C S keeps b (Deleted t d n stale rest, w) =
     (Collecting t d n rest, cat_forget C w b (seqUpto stale))"
| "compact_step Y L C S keeps b (Finished r, w) = (Finished r, w)"

text \<open>Run on its own, the steps are \<open>compact\<close>.\<close>

abbreviation solo where
  "solo Y L C S keeps b \<equiv> (\<lambda>x y. compact_step Y L C S keeps b x = y)\<^sup>*\<^sup>*"

lemma solo_step: "solo Y L C S keeps b (compact_step Y L C S keeps b x) y \<Longrightarrow> solo Y L C S keeps b x y"
  by (auto intro: converse_rtranclp_into_rtranclp)

lemma solo_collect:
  "solo Y L C S keeps b (Collecting t d n todo, w)
     (Finished (Inr (Some \<lparr> res_seqUpto = t, res_byteSize = y_length Y (y_encode Y d),
        res_elementCount = y_elements Y d, res_pruned = n \<rparr>)), collect C S b todo w)"
proof (induction todo arbitrary: w)
  case Nil
  show ?case by - (rule solo_step, simp)
next
  case (Cons r todo)
  have "solo Y L C S keeps b (Deleted t d n r todo, obj_delete S w (storageKey r))
      (Finished (Inr (Some \<lparr> res_seqUpto = t, res_byteSize = y_length Y (y_encode Y d),
        res_elementCount = y_elements Y d, res_pruned = n \<rparr>)), collect C S b (r # todo) w)"
    by - (rule solo_step, simp add: Cons)
  then show ?case by - (rule solo_step, simp)
qed

text \<open>
  The compactor as the interleaving semantics runs it, one step per \<open>await\<close>, is \<open>compact\<close>: alone,
  the steps end with its result and its world.
\<close>

theorem compact_is_its_steps:
  "solo Y L C S keeps b (Started t, w)
     (Finished (fst (compact Y L C S keeps b t w)), snd (compact Y L C S keeps b t w))"
proof -
  define p where "p = cat_latest C w b"
  define u where "u = log_since L w b (previous_seq p) (Some t)"
  define base where "base = (case p of None \<Rightarrow> None | Some r \<Rightarrow> obj_get S w (storageKey r))"
  define d where "d = rebuild Y base u"
  define w1 where "w1 = put_with S keeps w (snapshotKey b t) (y_encode Y d)"
  define w2 where "w2 = cat_record C w1 b (snapshot_record Y b t d)"
  obtain n w3 where prune: "log_prune L w2 b t = (n, w3)" by (cases "log_prune L w2 b t")
  define res where "res = \<lparr> res_seqUpto = t, res_byteSize = y_length Y (y_encode Y d),
    res_elementCount = y_elements Y d, res_pruned = n \<rparr>"
  let ?r = "\<lambda>(x, w). (Finished x, w)"
  have eq: "compact Y L C S keeps b t w =
      (if t \<le> previous_seq p then (Inr None, w)
       else if p \<noteq> None \<and> base = None then (Inr None, w)
       else if y_pending Y d then (Inr None, w)
       else case obj_get S w1 (snapshotKey b t) of
              None \<Rightarrow> (Inl NotReadBack, w1)
            | Some x \<Rightarrow>
                if y_vector Y (y_apply Y (y_new Y) x) \<noteq> y_vector Y d then (Inl VectorMismatch, w1)
                else (Inr (Some res), collect C S b (cat_older C w3 b t) w3))"
    using prune unfolding compact_def Let_def p_def [symmetric] previous_seq_def [symmetric]
      u_def [symmetric] base_def [symmetric] d_def [symmetric] w1_def [symmetric] w2_def res_def
    by (simp add: snapshot_record_def split: option.split)
  have collecting: "solo Y L C S keeps b (Verified t d, w1)
      (Finished (Inr (Some res)), collect C S b (cat_older C w3 b t) w3)"
  proof -
    have "solo Y L C S keeps b (Pruned t d n, w3)
        (Finished (Inr (Some res)), collect C S b (cat_older C w3 b t) w3)"
      by (rule solo_step) (simp add: solo_collect res_def)
    then have "solo Y L C S keeps b (Committed t d, w2)
        (Finished (Inr (Some res)), collect C S b (cat_older C w3 b t) w3)"
      by - (rule solo_step, simp add: prune)
    then show ?thesis by - (rule solo_step, simp add: w2_def [symmetric])
  qed
  then have "solo Y L C S keeps b (Written t d, w1) (?r (compact Y L C S keeps b t w))"
    if "\<not> t \<le> previous_seq p" "\<not> (p \<noteq> None \<and> base = None)" "\<not> y_pending Y d"
    using that by - (rule solo_step, auto simp: eq split: option.split)
  then have rebuilt: "solo Y L C S keeps b (Rebuilt t d, w) (?r (compact Y L C S keeps b t w))"
    if "\<not> t \<le> previous_seq p" "\<not> (p \<noteq> None \<and> base = None)" "\<not> y_pending Y d"
    using that by - (rule solo_step, simp add: w1_def [symmetric])
  have "solo Y L C S keeps b (HaveUpdates t p u, w) (?r (compact Y L C S keeps b t w))"
    if t: "\<not> t \<le> previous_seq p"
  proof (cases "(p \<noteq> None \<and> base = None) \<or> y_pending Y d")
    case True
    then have "compact Y L C S keeps b t w = (Inr None, w)" using t unfolding eq by auto
    with True show ?thesis
      by - (rule solo_step, auto simp: Let_def base_def [symmetric] d_def [symmetric])
  next
    case False
    then have "compact_step Y L C S keeps b (HaveUpdates t p u, w) = (Rebuilt t d, w)"
      by (auto simp: Let_def base_def [symmetric] d_def [symmetric])
    with rebuilt t False show ?thesis by - (rule solo_step, simp)
  qed
  then have "solo Y L C S keeps b (HavePrevious t p, w) (?r (compact Y L C S keeps b t w))"
    by - (rule solo_step, simp add: eq u_def [symmetric])
  then show ?thesis by - (rule solo_step, simp add: p_def [symmetric] split_beta)
qed

subsection \<open>Every interleaving\<close>

text \<open>
  The store may damage what it writes in any way the state vector shows: the code compares nothing else
  of what it reads back.
\<close>

definition damage_shows :: "('d, 'b) Yjs \<Rightarrow> ('b \<Rightarrow> 'b option) \<Rightarrow> bool" where
  "damage_shows Y keeps \<longleftrightarrow> (\<forall>x y. keeps x = Some y \<longrightarrow> y = x \<or>
     y_vector Y (y_apply Y (y_new Y) y) \<noteq> y_vector Y (y_apply Y (y_new Y) x))"

text \<open>
  A board has any number of compactions and of loads under way at once: its room starts one when a
  threshold is reached, the shutdown starts one whatever the room is doing, and every node loads the
  boards it opens. The history of a board is a ghost: every update ever appended to it.
\<close>

type_synonym job = "string \<times> nat"

record ('w, 'd, 'b) System =
  world :: 'w
  phase :: "job \<Rightarrow> ('d, 'b) Phase"
  loading :: "job \<Rightarrow> 'b LoadPhase"
  history :: "string \<Rightarrow> 'b list"

definition idle_phase :: "('d, 'b) Phase \<Rightarrow> bool" where
  "idle_phase ph \<longleftrightarrow> (case ph of Idle \<Rightarrow> True | Finished _ \<Rightarrow> True | _ \<Rightarrow> False)"

definition idle_load :: "'b LoadPhase \<Rightarrow> bool" where
  "idle_load lp \<longleftrightarrow> (case lp of NotLoading \<Rightarrow> True | LoadEnded _ _ \<Rightarrow> True | _ \<Rightarrow> False)"

lemma idle_phase_simps [simp]:
  "idle_phase Idle" "idle_phase (Finished r)" "\<not> idle_phase (Started t)"
  by (simp_all add: idle_phase_def)

lemma idle_phase_iff: "idle_phase ph \<longleftrightarrow> ph = Idle \<or> (\<exists>r. ph = Finished r)"
  by (cases ph) (simp_all add: idle_phase_def)

lemma idle_load_simps [simp]:
  "idle_load NotLoading" "idle_load (LoadEnded k r)" "\<not> idle_load (LoadCalled k)"
  by (simp_all add: idle_load_def)

lemma idle_load_iff: "idle_load lp \<longleftrightarrow> lp = NotLoading \<or> (\<exists>k r. lp = LoadEnded k r)"
  by (cases lp) (simp_all add: idle_load_def)

inductive durable_step ::
  "('d, 'b) Yjs \<Rightarrow> ('w, 'b) UpdateLog \<Rightarrow> ('w, 'b) SnapshotCatalog \<Rightarrow> ('w, 'b) SnapshotStore \<Rightarrow>
   ('w, 'd, 'b) System \<Rightarrow> ('w, 'd, 'b) System \<Rightarrow> bool"
  for Y L C S where
  appended: "log_append L (world s) b p = (q, w') \<Longrightarrow> durable_step Y L C S s
     (s\<lparr>world := w', history := (history s)(b := history s b @ [p])\<rparr>)"
| called: "idle_phase (phase s (b, n)) \<Longrightarrow> t \<le> log_latest L (world s) b \<Longrightarrow>
     durable_step Y L C S s (s\<lparr>phase := (phase s)((b, n) := Started t)\<rparr>)"
| moved: "damage_shows Y keeps \<Longrightarrow> compact_step Y L C S keeps b (phase s (b, n), world s) = (ph, w') \<Longrightarrow>
     durable_step Y L C S s (s\<lparr>world := w', phase := (phase s)((b, n) := ph)\<rparr>)"
| opened: "idle_load (loading s (b, n)) \<Longrightarrow>
     durable_step Y L C S s (s\<lparr>loading := (loading s)((b, n) := LoadCalled (length (history s b)))\<rparr>)"
| read_on: "durable_step Y L C S s
     (s\<lparr>loading := (loading s)((b, n) := load_step L C S (world s) b (loading s (b, n)))\<rparr>)"
| crashed: "durable_step Y L C S s (s\<lparr>phase := (\<lambda>_. Idle), loading := (\<lambda>_. NotLoading)\<rparr>)"

text \<open>
  What the code relies on and does not enforce: at most one compaction of a board is under way, and
  none while the board is being loaded.
\<close>

definition alone :: "('w, 'd, 'b) System \<Rightarrow> bool" where
  "alone s \<longleftrightarrow> (\<forall>b n m. \<not> idle_phase (phase s (b, n)) \<longrightarrow>
     (\<not> idle_phase (phase s (b, m)) \<longrightarrow> m = n) \<and> idle_load (loading s (b, m)))"

definition calm_step where
  "calm_step Y L C S s s' \<longleftrightarrow> durable_step Y L C S s s' \<and> alone s'"

subsection \<open>What every step keeps\<close>

definition board_ok ::
  "('d, 'b) Yjs \<Rightarrow> string \<Rightarrow> 'b list \<Rightarrow> nat \<Rightarrow> (nat \<times> 'b) list \<Rightarrow> 'b SnapshotRecord list \<Rightarrow>
   (string \<Rightarrow> 'b option) \<Rightarrow> bool" where
  "board_ok Y b H latest es rs objs \<longleftrightarrow>
     latest = length H \<and>
     (\<forall>r \<in> set rs. storageKey r = snapshotKey b (seqUpto r) \<and> seqUpto r \<le> length H) \<and>
     filter (\<lambda>e. previous_seq (best_snapshot rs) < fst e) es =
       enumerate (Suc (previous_seq (best_snapshot rs))) (drop (previous_seq (best_snapshot rs)) H) \<and>
     (\<forall>r. best_snapshot rs = Some r \<longrightarrow> (\<exists>x. objs (storageKey r) = Some x \<and>
        y_apply Y (y_new Y) x = document Y (take (seqUpto r) H)))"

definition target_ok :: "('d, 'b) Yjs \<Rightarrow> 'b list \<Rightarrow> 'b SnapshotRecord list \<Rightarrow> nat \<Rightarrow> 'd \<Rightarrow> bool" where
  "target_ok Y H rs t d \<longleftrightarrow> t \<le> length H \<and> previous_seq (best_snapshot rs) < t \<and>
     \<not> y_pending Y d \<and> d = document Y (take t H)"

definition committed :: "'b SnapshotRecord list \<Rightarrow> nat \<Rightarrow> bool" where
  "committed rs t \<longleftrightarrow> (\<exists>r. best_snapshot rs = Some r \<and> seqUpto r = t)"

definition stale_ok :: "string \<Rightarrow> nat \<Rightarrow> 'b SnapshotRecord \<Rightarrow> bool" where
  "stale_ok b t r \<longleftrightarrow> seqUpto r < t \<and> storageKey r = snapshotKey b (seqUpto r)"

fun phase_ok ::
  "('d, 'b) Yjs \<Rightarrow> string \<Rightarrow> 'b list \<Rightarrow> 'b SnapshotRecord list \<Rightarrow> (string \<Rightarrow> 'b option) \<Rightarrow>
   ('d, 'b) Phase \<Rightarrow> bool" where
  "phase_ok Y b H rs objs Idle \<longleftrightarrow> True"
| "phase_ok Y b H rs objs (Finished r) \<longleftrightarrow> True"
| "phase_ok Y b H rs objs (Started t) \<longleftrightarrow> t \<le> length H"
| "phase_ok Y b H rs objs (HavePrevious t p) \<longleftrightarrow> t \<le> length H \<and> p = best_snapshot rs"
| "phase_ok Y b H rs objs (HaveUpdates t p u) \<longleftrightarrow> t \<le> length H \<and> p = best_snapshot rs \<and>
     previous_seq p < t \<and> u = drop (previous_seq p) (take t H)"
| "phase_ok Y b H rs objs (Rebuilt t d) \<longleftrightarrow> target_ok Y H rs t d"
| "phase_ok Y b H rs objs (Written t d) \<longleftrightarrow> target_ok Y H rs t d \<and>
     (\<forall>x. objs (snapshotKey b t) = Some x \<longrightarrow> x = y_encode Y d \<or>
        y_vector Y (y_apply Y (y_new Y) x) \<noteq> y_vector Y (y_apply Y (y_new Y) (y_encode Y d)))"
| "phase_ok Y b H rs objs (Verified t d) \<longleftrightarrow> target_ok Y H rs t d \<and>
     (\<exists>x. objs (snapshotKey b t) = Some x \<and> y_apply Y (y_new Y) x = d)"
| "phase_ok Y b H rs objs (Committed t d) \<longleftrightarrow> committed rs t"
| "phase_ok Y b H rs objs (Pruned t d n) \<longleftrightarrow> committed rs t"
| "phase_ok Y b H rs objs (Collecting t d n todo) \<longleftrightarrow> committed rs t \<and> (\<forall>r \<in> set todo. stale_ok b t r)"
| "phase_ok Y b H rs objs (Deleted t d n stale todo) \<longleftrightarrow> committed rs t \<and> stale_ok b t stale \<and>
     (\<forall>r \<in> set todo. stale_ok b t r)"

lemma snapshotKey_rev:
  "rev (snapshotKey b s) = rev (pad_start 12 (CHR ''0'') (show_nat s) @ ''.ybin'') @ CHR ''/'' # rev b"
  by (simp add: snapshotKey_def)

lemma snapshotKey_inj: "snapshotKey b s = snapshotKey b' s' \<longleftrightarrow> b = b' \<and> s = s'"
proof
  assume "snapshotKey b s = snapshotKey b' s'"
  then have "rev (pad_start 12 (CHR ''0'') (show_nat s) @ ''.ybin'') @ CHR ''/'' # rev b =
      rev (pad_start 12 (CHR ''0'') (show_nat s') @ ''.ybin'') @ CHR ''/'' # rev b'"
    by (metis snapshotKey_rev)
  then have "rev (pad_start 12 (CHR ''0'') (show_nat s) @ ''.ybin'') =
      rev (pad_start 12 (CHR ''0'') (show_nat s') @ ''.ybin'') \<and> rev b = rev b'"
    by (rule append_sep_inj) simp_all
  then show "b = b' \<and> s = s'" using pad_start_show_inj by auto
qed simp

lemma best_snapshot_Nil [simp]: "best_snapshot [] = None"
  by (simp add: best_snapshot_def)

lemma best_snapshot_snoc: "best_snapshot (rs @ [r]) =
    (case best_snapshot rs of None \<Rightarrow> Some r | Some q \<Rightarrow> if seqUpto q < seqUpto r then Some r else Some q)"
  by (simp add: best_snapshot_def)

lemma best_snapshot_None [simp]: "best_snapshot rs = None \<longleftrightarrow> rs = []"
  by (induction rs rule: rev_induct) (simp_all add: best_snapshot_snoc split: option.split)

lemma best_snapshot_Some: "best_snapshot rs = Some r \<Longrightarrow> r \<in> set rs \<and> (\<forall>q \<in> set rs. seqUpto q \<le> seqUpto r)"
  by (induction rs arbitrary: r rule: rev_induct)
    (fastforce simp: best_snapshot_snoc split: option.splits if_splits)+

text \<open>The best row stays the best when a row is added below it or rows other than it go.\<close>

lemma best_snapshot_filter:
  assumes "best_snapshot rs = Some r" "P r"
  shows "best_snapshot (filter P rs) = Some r"
  using assms
proof (induction rs arbitrary: r rule: rev_induct)
  case (snoc x rs)
  show ?case
  proof (cases "best_snapshot rs")
    case None
    then have "rs = []" by simp
    with snoc.prems show ?thesis by (simp add: best_snapshot_def)
  next
    case (Some q)
    show ?thesis
    proof (cases "seqUpto q < seqUpto x")
      case True
      with Some snoc.prems have "r = x" by (simp add: best_snapshot_snoc)
      moreover have "seqUpto y < seqUpto x" if "best_snapshot (filter P rs) = Some y" for y
        using that True Some by (meson best_snapshot_Some filter_is_subset le_less_trans subsetD)
      ultimately show ?thesis using snoc.prems
        by (simp add: best_snapshot_snoc split: option.split)
    next
      case False
      with Some snoc.prems have q: "r = q" by (simp add: best_snapshot_snoc)
      with Some snoc have "best_snapshot (filter P rs) = Some q" by simp
      with False q show ?thesis by (simp add: best_snapshot_snoc)
    qed
  qed
qed simp

lemma best_snapshot_new:
  "previous_seq (best_snapshot rs) < seqUpto r \<Longrightarrow> best_snapshot (rs @ [r]) = Some r"
  by (simp add: best_snapshot_snoc previous_seq_def split: option.splits)

text \<open>The part of a numbered history up to a number, and after it.\<close>

lemma enumerate_split:
  assumes "a \<le> t" "t \<le> length H"
  shows "filter (\<lambda>e. fst e \<le> t) (enumerate (Suc a) (drop a H)) = enumerate (Suc a) (drop a (take t H))"
    and "filter (\<lambda>e. t < fst e) (enumerate (Suc a) (drop a H)) = enumerate (Suc t) (drop t H)"
proof -
  have "drop a H = drop a (take t H) @ drop t H"
    using assms by (metis append_take_drop_id drop_append diff_is_0_eq' drop_0 length_take min.absorb2)
  then have split: "enumerate (Suc a) (drop a H) = enumerate (Suc a) (drop a (take t H)) @ enumerate (Suc t) (drop t H)"
    using assms by (simp add: enumerate_append_eq)
  have low: "\<forall>e \<in> set (enumerate (Suc a) (drop a (take t H))). fst e \<le> t"
    using assms by (auto simp: in_set_enumerate_eq)
  have high: "\<forall>e \<in> set (enumerate (Suc t) (drop t H)). t < fst e"
    by (auto simp: in_set_enumerate_eq)
  show "filter (\<lambda>e. fst e \<le> t) (enumerate (Suc a) (drop a H)) = enumerate (Suc a) (drop a (take t H))"
    using low high unfolding split filter_append by (auto simp: filter_empty_conv not_le)
  show "filter (\<lambda>e. t < fst e) (enumerate (Suc a) (drop a H)) = enumerate (Suc t) (drop t H)"
    using low high unfolding split filter_append by (auto simp: filter_empty_conv not_less)
qed

text \<open>The two predicates see of the store only the objects of the board's own keys.\<close>

lemma board_ok_objs:
  assumes "board_ok Y b H l es rs objs" "\<And>k. objs' (snapshotKey b k) = objs (snapshotKey b k)"
  shows "board_ok Y b H l es rs objs'"
  using assms(1) unfolding board_ok_def
  by (metis assms(2) best_snapshot_Some)

lemma phase_ok_objs:
  assumes "\<And>k. objs' (snapshotKey b k) = objs (snapshotKey b k)"
  shows "phase_ok Y b H rs objs' ph = phase_ok Y b H rs objs ph"
  using assms by (cases ph) simp_all

lemma board_ok_put:
  assumes "board_ok Y b H l es rs objs" "previous_seq (best_snapshot rs) < t"
    and "\<And>k. k \<noteq> t \<Longrightarrow> objs' (snapshotKey b k) = objs (snapshotKey b k)"
  shows "board_ok Y b H l es rs objs'"
proof -
  have "objs' (storageKey r) = objs (storageKey r)" if "best_snapshot rs = Some r" for r
  proof -
    have "seqUpto r \<noteq> t" using assms(2) that by (simp add: previous_seq_def)
    moreover have "storageKey r = snapshotKey b (seqUpto r)"
      using assms(1) that best_snapshot_Some unfolding board_ok_def by blast
    ultimately show ?thesis using assms(3) by simp
  qed
  then show ?thesis using assms(1) unfolding board_ok_def by metis
qed

lemma board_ok_delete:
  assumes "board_ok Y b H l es rs objs" "committed rs t" "stale_ok b t stale"
  shows "board_ok Y b H l es rs (objs(storageKey stale := None))"
proof -
  have "(objs(storageKey stale := None)) (storageKey r) = objs (storageKey r)"
    if "best_snapshot rs = Some r" for r
  proof -
    have "storageKey r = snapshotKey b (seqUpto r)"
      using assms(1) that best_snapshot_Some unfolding board_ok_def by blast
    then show ?thesis using assms(2,3) that by (auto simp: committed_def stale_ok_def snapshotKey_inj)
  qed
  then show ?thesis using assms(1) unfolding board_ok_def by metis
qed

lemma board_ok_record:
  assumes "board_ok Y b H l es rs objs" "target_ok Y H rs t d"
    and "objs (snapshotKey b t) = Some x" "y_apply Y (y_new Y) x = d"
  shows "board_ok Y b H l es (rs @ [snapshot_record Y b t d]) objs"
proof -
  let ?a = "previous_seq (best_snapshot rs)"
  have t: "?a < t" "t \<le> length H" "d = document Y (take t H)" using assms(2) by (simp_all add: target_ok_def)
  have best: "best_snapshot (rs @ [snapshot_record Y b t d]) = Some (snapshot_record Y b t d)"
    by (rule best_snapshot_new) (simp add: t(1) snapshot_record_def)
  have "filter (\<lambda>e. t < fst e) es = filter (\<lambda>e. t < fst e) (filter (\<lambda>e. ?a < fst e) es)"
    using t(1) by (auto intro!: filter_cong)
  also have "\<dots> = enumerate (Suc t) (drop t H)"
    using assms(1) t enumerate_split(2) [of ?a t H] by (simp only: board_ok_def less_imp_le)
  finally show ?thesis using assms(1,3,4) t best
    by (auto simp: board_ok_def previous_seq_def snapshot_record_def)
qed

lemma board_ok_prune:
  assumes "board_ok Y b H l es rs objs" "committed rs t"
  shows "board_ok Y b H l (filter (\<lambda>e. t < fst e) es) rs objs"
  using assms unfolding board_ok_def committed_def by (auto simp: previous_seq_def conj_commute)

lemma best_snapshot_forget:
  assumes "committed rs t" "k < t"
  shows "best_snapshot (filter (\<lambda>r. seqUpto r \<noteq> k) rs) = best_snapshot rs"
proof -
  from assms(1) obtain r where r: "best_snapshot rs = Some r" "seqUpto r = t"
    unfolding committed_def by blast
  then show ?thesis using best_snapshot_filter [OF r(1), of "\<lambda>r. seqUpto r \<noteq> k"] assms(2) by simp
qed

lemma board_ok_forget:
  assumes "board_ok Y b H l es rs objs" "committed rs t" "k < t"
  shows "board_ok Y b H l es (filter (\<lambda>r. seqUpto r \<noteq> k) rs) objs"
  using assms(1) unfolding board_ok_def best_snapshot_forget [OF assms(2,3)] by simp

lemma board_ok_append:
  assumes "board_ok Y b H l es rs objs" "s = l + 1"
  shows "board_ok Y b (H @ [p]) s (es @ [(s, p)]) rs objs"
proof -
  have "previous_seq (best_snapshot rs) \<le> length H"
  proof (cases "best_snapshot rs")
    case (Some r)
    then show ?thesis using assms(1) best_snapshot_Some [OF Some] by (simp add: board_ok_def previous_seq_def)
  qed (simp add: previous_seq_def)
  then show ?thesis using assms best_snapshot_Some
    by (fastforce simp: board_ok_def enumerate_append_eq)
qed

lemma phase_ok_append:
  assumes "phase_ok Y b H rs objs ph"
  shows "phase_ok Y b (H @ [p]) rs objs ph"
  using assms by (cases ph) (auto simp: target_ok_def)

context persistence begin

definition this_board :: "('d, 'b) Yjs \<Rightarrow> string \<Rightarrow> 'b list \<Rightarrow> 'w \<Rightarrow> ('d, 'b) Phase \<Rightarrow> bool" where
  "this_board Y b H w ph \<longleftrightarrow> inv w \<and> board_ok Y b H (log_latest L w b) (entries w b) (rows w b) (obj_get S w) \<and>
     phase_ok Y b H (rows w b) (obj_get S w) ph"

definition others_same :: "string \<Rightarrow> 'w \<Rightarrow> 'w \<Rightarrow> bool" where
  "others_same b w w' \<longleftrightarrow> (\<forall>b'. b' \<noteq> b \<longrightarrow> log_latest L w' b' = log_latest L w b' \<and>
     entries w' b' = entries w b' \<and> rows w' b' = rows w b' \<and>
     (\<forall>k. obj_get S w' (snapshotKey b' k) = obj_get S w (snapshotKey b' k)))"

lemma others_same_refl [simp]: "others_same b w w"
  by (simp add: others_same_def)

lemma put_with_eq:
  assumes "inv w"
  shows "inv (put_with S keeps w key x) \<and> entries (put_with S keeps w key x) = entries w \<and>
    rows (put_with S keeps w key x) = rows w \<and> log_latest L (put_with S keeps w key x) = log_latest L w \<and>
    obj_get S (put_with S keeps w key x) = (obj_get S w)(key := keeps x)"
  using put_law [OF assms] delete_law [OF assms] by (simp add: put_with_def split: option.split)

lemma since_between:
  assumes "this_board Y b H w ph" "t \<le> length H" "previous_seq (best_snapshot (rows w b)) < t"
  shows "log_since L w b (previous_seq (best_snapshot (rows w b))) (Some t) =
    drop (previous_seq (best_snapshot (rows w b))) (take t H)"
proof -
  let ?a = "previous_seq (best_snapshot (rows w b))"
  have "filter (\<lambda>e. in_range ?a (Some t) (fst e)) (entries w b) =
      filter (\<lambda>e. fst e \<le> t) (filter (\<lambda>e. ?a < fst e) (entries w b))"
    by (simp add: in_range_def conj_commute)
  also have "\<dots> = enumerate (Suc ?a) (drop ?a (take t H))"
    using assms enumerate_split(1) [of ?a t H] by (simp only: this_board_def board_ok_def less_imp_le)
  finally show ?thesis using assms(1) by (simp add: since_entries this_board_def)
qed

lemma since_all:
  assumes "this_board Y b H w ph"
  shows "log_since L w b (previous_seq (best_snapshot (rows w b))) None =
    drop (previous_seq (best_snapshot (rows w b))) H"
  using assms by (simp add: since_entries this_board_def board_ok_def in_range_def)

lemma rebuild_document:
  assumes "this_board Y b H w ph" "t \<le> length H" "previous_seq (best_snapshot (rows w b)) \<le> t"
    and "base = (case best_snapshot (rows w b) of None \<Rightarrow> None | Some r \<Rightarrow> obj_get S w (storageKey r))"
    and "best_snapshot (rows w b) \<noteq> None \<longrightarrow> base \<noteq> None"
  shows "rebuild Y base (drop (previous_seq (best_snapshot (rows w b))) (take t H)) = document Y (take t H)"
proof (cases "best_snapshot (rows w b)")
  case None
  with assms(4) show ?thesis by (simp add: rebuild_def previous_seq_def)
next
  case (Some r)
  with assms obtain x where x: "base = Some x" "y_apply Y (y_new Y) x = document Y (take (seqUpto r) H)"
    by (auto simp: this_board_def board_ok_def)
  have "document Y (take t H) = foldl (y_apply Y) (document Y (take (seqUpto r) (take t H))) (drop (seqUpto r) (take t H))"
    by (metis append_take_drop_id foldl_append)
  with x Some assms(3) show ?thesis by (simp add: rebuild_def previous_seq_def min.absorb1)
qed

lemma step_record:
  assumes "this_board Y b H w (Verified t d)"
  shows "this_board Y b H (cat_record C w b (snapshot_record Y b t d)) (Committed t d) \<and>
    others_same b w (cat_record C w b (snapshot_record Y b t d))"
proof -
  from assms obtain x where x: "inv w" "target_ok Y H (rows w b) t d" "obj_get S w (snapshotKey b t) = Some x"
    "y_apply Y (y_new Y) x = d"
    and ok: "board_ok Y b H (log_latest L w b) (entries w b) (rows w b) (obj_get S w)"
    by (auto simp: this_board_def)
  have "seqUpto (snapshot_record Y b t d) \<le> log_latest L w b"
    using x(2) ok by (simp add: snapshot_record_def target_ok_def board_ok_def)
  note law = record_law [OF x(1) this]
  have "best_snapshot (rows w b @ [snapshot_record Y b t d]) = Some (snapshot_record Y b t d)"
    by (rule best_snapshot_new) (use x(2) in \<open>simp add: target_ok_def snapshot_record_def\<close>)
  then have "committed (rows w b @ [snapshot_record Y b t d]) t"
    by (simp add: committed_def snapshot_record_def)
  with law board_ok_record [OF ok x(2-4)] show ?thesis
    by (simp add: this_board_def others_same_def)
qed

lemma step_prune:
  assumes "this_board Y b H w (Committed t d)" "log_prune L w b t = (n, w')"
  shows "this_board Y b H w' (Pruned t d n) \<and> others_same b w w'"
proof -
  have w: "inv w" "committed (rows w b) t" "board_ok Y b H (log_latest L w b) (entries w b) (rows w b) (obj_get S w)"
    using assms(1) by (simp_all add: this_board_def)
  then have "\<exists>r \<in> set (rows w b). t \<le> seqUpto r"
    unfolding committed_def using best_snapshot_Some by blast
  with prune_law [OF w(1) assms(2)] board_ok_prune [OF w(3,2)] w(2) show ?thesis
    by (simp add: this_board_def others_same_def)
qed

lemma step_forget:
  assumes "this_board Y b H w (Deleted t d n stale todo)"
  shows "this_board Y b H (cat_forget C w b (seqUpto stale)) (Collecting t d n todo) \<and>
    others_same b w (cat_forget C w b (seqUpto stale))"
proof -
  have w: "inv w" "committed (rows w b) t" "seqUpto stale < t" "\<forall>r \<in> set todo. stale_ok b t r"
    and ok: "board_ok Y b H (log_latest L w b) (entries w b) (rows w b) (obj_get S w)"
    using assms by (simp_all add: this_board_def stale_ok_def)
  then have "\<exists>r \<in> set (rows w b). seqUpto stale < seqUpto r"
    unfolding committed_def using best_snapshot_Some by blast
  moreover have "committed (filter (\<lambda>r. seqUpto r \<noteq> seqUpto stale) (rows w b)) t"
    using w(2) best_snapshot_forget [OF w(2,3)] by (simp add: committed_def)
  ultimately show ?thesis using forget_law [OF w(1), of b "seqUpto stale"] board_ok_forget [OF ok w(2,3)] w(4)
    by (simp add: this_board_def others_same_def)
qed

lemma step_put:
  assumes "this_board Y b H w (Rebuilt t d)" "damage_shows Y keeps"
  shows "this_board Y b H (put_with S keeps w (snapshotKey b t) (y_encode Y d)) (Written t d) \<and>
    others_same b w (put_with S keeps w (snapshotKey b t) (y_encode Y d))"
proof -
  let ?w = "put_with S keeps w (snapshotKey b t) (y_encode Y d)"
  have w: "inv w" "target_ok Y H (rows w b) t d"
    and ok: "board_ok Y b H (log_latest L w b) (entries w b) (rows w b) (obj_get S w)"
    using assms(1) by (simp_all add: this_board_def)
  note law = put_with_eq [OF w(1), of keeps "snapshotKey b t" "y_encode Y d"]
  have "board_ok Y b H (log_latest L w b) (entries w b) (rows w b) (obj_get S ?w)"
    by (rule board_ok_put [OF ok, of t]) (use w(2) law in \<open>auto simp: target_ok_def snapshotKey_inj\<close>)
  moreover have "x = y_encode Y d \<or>
      y_vector Y (y_apply Y (y_new Y) x) \<noteq> y_vector Y (y_apply Y (y_new Y) (y_encode Y d))"
    if "keeps (y_encode Y d) = Some x" for x
    using assms(2) that unfolding damage_shows_def by blast
  ultimately show ?thesis using law w(2)
    by (simp add: this_board_def others_same_def snapshotKey_inj)
qed

lemma step_delete:
  assumes "this_board Y b H w (Collecting t d n (stale # todo))"
  shows "this_board Y b H (obj_delete S w (storageKey stale)) (Deleted t d n stale todo) \<and>
    others_same b w (obj_delete S w (storageKey stale))"
proof -
  have w: "inv w" "committed (rows w b) t" "stale_ok b t stale"
    and ok: "board_ok Y b H (log_latest L w b) (entries w b) (rows w b) (obj_get S w)"
    and todo: "\<forall>r \<in> set todo. stale_ok b t r"
    using assms by (simp_all add: this_board_def)
  show ?thesis using delete_law [OF w(1), of "storageKey stale"] board_ok_delete [OF ok w(2,3)] w todo
    by (simp add: this_board_def others_same_def stale_ok_def snapshotKey_inj)
qed

lemma step_rebuild:
  assumes "this_board Y b H w (HaveUpdates t p u)"
    and "compact_step Y L C S keeps b (HaveUpdates t p u, w) = (ph, w')"
  shows "w' = w \<and> this_board Y b H w ph"
proof -
  have t: "t \<le> length H" "p = best_snapshot (rows w b)" "previous_seq p < t"
    "u = drop (previous_seq p) (take t H)"
    using assms(1) by (auto simp: this_board_def)
  define base where "base = (case p of None \<Rightarrow> None | Some r \<Rightarrow> obj_get S w (storageKey r))"
  define e where "e = rebuild Y base u"
  have step: "(ph, w') = (if p \<noteq> None \<and> base = None then (Finished (Inr None), w)
      else if y_pending Y e then (Finished (Inr None), w) else (Rebuilt t e, w))"
    using assms(2) unfolding compact_step.simps Let_def base_def [symmetric] e_def [symmetric] by (rule sym)
  have "e = document Y (take t H)" if "\<not> (p \<noteq> None \<and> base = None)"
    unfolding e_def t(4) unfolding t(2)
    by (rule rebuild_document [OF assms(1) t(1)]) (use t(1-3) that base_def in auto)
  with step t assms(1) show ?thesis
    by (auto simp: this_board_def target_ok_def split: if_splits)
qed

lemma step_verify:
  assumes "yjs_ok Y" "this_board Y b H w (Written t d)"
    and "compact_step Y L C S keeps b (Written t d, w) = (ph, w')"
  shows "w' = w \<and> this_board Y b H w ph"
proof -
  have d: "target_ok Y H (rows w b) t d"
    and x: "x = y_encode Y d \<or>
      y_vector Y (y_apply Y (y_new Y) x) \<noteq> y_vector Y (y_apply Y (y_new Y) (y_encode Y d))"
    if "obj_get S w (snapshotKey b t) = Some x" for x
    using assms(2) that by (simp_all add: this_board_def)
  have enc: "y_apply Y (y_new Y) (y_encode Y d) = d" if "obj_get S w (snapshotKey b t) = Some x" for x
    using assms(1) d [OF that] unfolding yjs_ok_def target_ok_def by blast
  show ?thesis
  proof (cases "obj_get S w (snapshotKey b t)")
    case None
    with assms(2,3) show ?thesis by (auto simp: this_board_def)
  next
    case (Some y)
    with assms(2,3) x [OF Some] enc [OF Some] show ?thesis
      by (auto simp: this_board_def split: if_splits)
  qed
qed

lemma step_ok:
  assumes "yjs_ok Y" "damage_shows Y keeps" "this_board Y b H w ph"
    and "compact_step Y L C S keeps b (ph, w) = (ph', w')"
  shows "this_board Y b H w' ph' \<and> others_same b w w'"
proof (cases ph)
  case (HavePrevious t p)
  have "cat_latest C w b = best_snapshot (rows w b)" by (rule latest_rows)
  then show ?thesis using assms(3,4) since_between [OF assms(3), of t] HavePrevious
    by (auto simp: this_board_def split: if_splits)
next
  case (Started t)
  then show ?thesis using assms(3,4) by (auto simp: this_board_def latest_rows)
next
  case (HaveUpdates t p u)
  with assms step_rebuild [of Y b H w t p u keeps ph' w'] show ?thesis by simp
next
  case (Rebuilt t d)
  with assms step_put [of Y b H w t d keeps] show ?thesis by auto
next
  case (Written t d)
  with assms step_verify [of Y b H w t d keeps ph' w'] show ?thesis by simp
next
  case (Verified t d)
  with assms step_record [of Y b H w t d] show ?thesis by auto
next
  case (Committed t d)
  with assms step_prune [of Y b H w t d] show ?thesis by (auto split: prod.splits)
next
  case (Pruned t d n)
  with assms show ?thesis by (auto simp: this_board_def older_rows stale_ok_def board_ok_def)
next
  case (Collecting t d n todo)
  with assms step_delete [of Y b H w t d n] show ?thesis
    by (cases todo) (auto simp: this_board_def)
next
  case (Deleted t d n stale todo)
  with assms step_forget [of Y b H w t d n stale todo] show ?thesis by auto
qed (use assms in \<open>auto simp: this_board_def\<close>)

subsection \<open>Every reachable world\<close>

fun load_ok ::
  "('d, 'b) Yjs \<Rightarrow> string \<Rightarrow> 'b list \<Rightarrow> 'w \<Rightarrow> 'b LoadPhase \<Rightarrow> bool" where
  "load_ok Y b H w NotLoading \<longleftrightarrow> True"
| "load_ok Y b H w (LoadCalled k) \<longleftrightarrow> k \<le> length H"
| "load_ok Y b H w (LoadLatest k p) \<longleftrightarrow> k \<le> length H \<and> p = best_snapshot (rows w b)"
| "load_ok Y b H w (LoadBytes k r x) \<longleftrightarrow> k \<le> length H \<and> best_snapshot (rows w b) = Some r \<and>
     obj_get S w (storageKey r) = Some x"
| "load_ok Y b H w (LoadEnded k result) \<longleftrightarrow> (\<exists>snap m. result = Inr snap \<and> k \<le> m \<and> m \<le> length H \<and>
     rebuild Y (snap_bytes snap) (snap_updates snap) = document Y (take m H))"

definition system_ok :: "('d, 'b) Yjs \<Rightarrow> ('w, 'd, 'b) System \<Rightarrow> bool" where
  "system_ok Y s \<longleftrightarrow> alone s \<and> (\<forall>b n. this_board Y b (history s b) (world s) (phase s (b, n)) \<and>
     load_ok Y b (history s b) (world s) (loading s (b, n)))"

lemma other_board:
  assumes "this_board Y b' H w ph" "inv w'" "others_same b w w'" "b' \<noteq> b"
  shows "this_board Y b' H w' ph"
proof -
  have same: "log_latest L w' b' = log_latest L w b'" "entries w' b' = entries w b'" "rows w' b' = rows w b'"
    "\<And>k. obj_get S w' (snapshotKey b' k) = obj_get S w (snapshotKey b' k)"
    using assms(3,4) by (simp_all add: others_same_def)
  show ?thesis
    using assms(1,2) board_ok_objs [where objs' = "obj_get S w'", OF _ same(4)]
      phase_ok_objs [where objs' = "obj_get S w'", OF same(4)]
    unfolding this_board_def same(1-3) by blast
qed

lemma this_board_idle: "this_board Y b H w ph \<Longrightarrow> idle_phase ph' \<Longrightarrow> this_board Y b H w ph'"
  by (auto simp: this_board_def idle_phase_iff)

lemma best_key:
  assumes "this_board Y b H w ph" "best_snapshot (rows w b) = Some r"
  shows "storageKey r = snapshotKey b (seqUpto r) \<and> seqUpto r \<le> length H"
  using assms best_snapshot_Some unfolding this_board_def board_ok_def by blast

lemma other_load:
  assumes "load_ok Y b' H w lp" "this_board Y b' H w ph" "others_same b w w'" "b' \<noteq> b"
  shows "load_ok Y b' H w' lp"
  using assms(1,3,4) best_key [OF assms(2)]
  by (cases lp) (auto simp: others_same_def)

lemma load_ok_idle: "load_ok Y b H w lp \<Longrightarrow> idle_load lp \<Longrightarrow> load_ok Y b H w' lp"
  by (auto simp: idle_load_iff)

lemma load_ok_append:
  assumes "load_ok Y b H w lp" "rows w' b = rows w b" "obj_get S w' = obj_get S w"
  shows "load_ok Y b (H @ [p]) w' lp"
proof (cases lp)
  case (LoadEnded k result)
  with assms(1) obtain snap m where "result = Inr snap" "k \<le> m" "m \<le> length H"
    "rebuild Y (snap_bytes snap) (snap_updates snap) = document Y (take m (H @ [p]))"
    by auto
  with LoadEnded show ?thesis by (auto intro!: exI [of _ m])
qed (use assms in auto)

text \<open>A load that reads the base the catalog names and the updates after it has the whole board.\<close>

lemma load_whole:
  assumes "this_board Y b H w ph"
    and "base = (case best_snapshot (rows w b) of None \<Rightarrow> None | Some r \<Rightarrow> obj_get S w (storageKey r))"
    and "best_snapshot (rows w b) \<noteq> None \<longrightarrow> base \<noteq> None"
  shows "rebuild Y base (log_since L w b (previous_seq (best_snapshot (rows w b))) None) = document Y H"
proof -
  have "previous_seq (best_snapshot (rows w b)) \<le> length H"
    using best_key [OF assms(1)] by (cases "best_snapshot (rows w b)") (auto simp: previous_seq_def)
  from rebuild_document [OF assms(1) order.refl this assms(2,3)] since_all [OF assms(1)]
  show ?thesis by simp
qed

lemma load_moves:
  assumes "this_board Y b H w ph" "load_ok Y b H w lp"
  shows "load_ok Y b H w (load_step L C S w b lp)"
proof (cases lp)
  case (LoadLatest k p)
  then have k: "k \<le> length H" "p = best_snapshot (rows w b)" using assms(2) by simp_all
  show ?thesis
  proof (cases p)
    case None
    with k load_whole [OF assms(1), of None] show ?thesis
      by (auto simp: LoadLatest previous_seq_def intro!: exI [of _ "length H"])
  next
    case (Some r)
    then obtain x where "obj_get S w (storageKey r) = Some x"
      using k assms(1) by (auto simp: this_board_def board_ok_def)
    with Some k show ?thesis by (simp add: LoadLatest)
  qed
next
  case (LoadBytes k r x)
  with assms(2) load_whole [OF assms(1), of "Some x"] show ?thesis
    by (auto simp: previous_seq_def intro!: exI [of _ "length H"])
qed (use assms(2) in \<open>simp_all add: latest_rows\<close>)

lemma system_okD:
  "system_ok Y s \<Longrightarrow> this_board Y b (history s b) (world s) (phase s (b, n))"
  "system_ok Y s \<Longrightarrow> load_ok Y b (history s b) (world s) (loading s (b, n))"
  "system_ok Y s \<Longrightarrow> alone s"
  by (simp_all add: system_ok_def)

lemma moved_keeps:
  assumes "yjs_ok Y" "damage_shows Y keeps" "system_ok Y s" "alone s'"
    and "compact_step Y L C S keeps b (phase s (b, n), world s) = (ph, w')"
    and s': "s' = s\<lparr>world := w', phase := (phase s)((b, n) := ph)\<rparr>"
  shows "system_ok Y s'"
proof (cases "idle_phase (phase s (b, n))")
  case True
  then have "ph = phase s (b, n)" "w' = world s" using assms(5) by (auto simp: idle_phase_iff)
  then have "s' = s" using s' by (simp add: fun_upd_triv)
  with assms(3) show ?thesis by simp
next
  case False
  note here = step_ok [OF assms(1,2) system_okD(1) [OF assms(3)] assms(5)]
  then have b: "this_board Y b (history s b) w' ph" "others_same b (world s) w'" "inv w'"
    by (simp_all add: this_board_def)
  have rest: "idle_phase (phase s (b, m)) \<or> m = n" "idle_load (loading s (b, m))" for m
    using False system_okD(3) [OF assms(3)] by (auto simp: alone_def)
  have "this_board Y b' (history s b') w' (((phase s)((b, n) := ph)) (b', m))" for b' m
  proof (cases "b' = b")
    case True
    with b(1) rest(1) [of m] this_board_idle [OF b(1)] show ?thesis by auto
  next
    case False
    with other_board [OF system_okD(1) [OF assms(3)] b(3,2)] show ?thesis by simp
  qed
  moreover have "load_ok Y b' (history s b') w' (loading s (b', m))" for b' m
  proof (cases "b' = b")
    case True
    with load_ok_idle [OF system_okD(2) [OF assms(3)] rest(2)] show ?thesis by simp
  next
    case False
    with other_load [OF system_okD(2) [OF assms(3)] system_okD(1) [OF assms(3)] b(2)] show ?thesis by simp
  qed
  ultimately show ?thesis using assms(4) by (simp add: system_ok_def s')
qed

lemma appended_keeps:
  assumes "system_ok Y s" "alone s'" "log_append L (world s) b p = (q, w')"
    and s': "s' = s\<lparr>world := w', history := (history s)(b := history s b @ [p])\<rparr>"
  shows "system_ok Y s'"
proof -
  have w: "inv (world s)" using system_okD(1) [OF assms(1)] by (simp add: this_board_def)
  note law = append_law [OF w assms(3)]
  have "this_board Y b' (history s' b') w' (phase s (b', m))" for b' m
  proof (cases "b' = b")
    case True
    have "board_ok Y b (history s b @ [p]) q (entries (world s) b @ [(q, p)]) (rows (world s) b) (obj_get S (world s))"
      and "phase_ok Y b (history s b @ [p]) (rows (world s) b) (obj_get S (world s)) (phase s (b, m))"
      using law system_okD(1) [OF assms(1), of b m]
      by (auto simp: this_board_def intro!: board_ok_append phase_ok_append)
    with law True s' show ?thesis by (simp add: this_board_def)
  next
    case False
    with law system_okD(1) [OF assms(1), of b' m] s' show ?thesis by (simp add: this_board_def)
  qed
  moreover have "load_ok Y b' (history s' b') w' (loading s (b', m))" for b' m
  proof (cases "b' = b")
    case True
    with system_okD(2) [OF assms(1), of b m] law s' show ?thesis
      by (simp add: load_ok_append [of Y b "history s b" "world s"])
  next
    case False
    with system_okD(2) [OF assms(1), of b' m] law s' show ?thesis
      by (cases "loading s (b', m)") simp_all
  qed
  ultimately show ?thesis using assms(2) by (simp add: system_ok_def s')
qed

lemma system_step:
  assumes "calm_step Y L C S s s'" "yjs_ok Y" "system_ok Y s"
  shows "system_ok Y s'"
proof -
  have calm: "alone s'" and step: "durable_step Y L C S s s'" using assms(1) by (simp_all add: calm_step_def)
  from step show ?thesis
  proof cases
    case (appended b p q w')
    then show ?thesis using appended_keeps [OF assms(3) calm] by blast
  next
    case (called b n t)
    then have "t \<le> length (history s b)"
      using system_okD(1) [OF assms(3), of b n] by (simp add: this_board_def board_ok_def)
    with called(1) assms(3) calm show ?thesis by (auto simp: system_ok_def this_board_def)
  next
    case (moved keeps b n ph w')
    then show ?thesis using moved_keeps [OF assms(2) _ assms(3) calm] by blast
  next
    case (opened b n)
    then show ?thesis using assms(3) calm by (auto simp: system_ok_def)
  next
    case (read_on b n)
    then show ?thesis using assms(3) calm load_moves [OF system_okD(1,2) [OF assms(3)]]
      by (auto simp: system_ok_def)
  next
    case crashed
    then show ?thesis using assms(3) calm by (simp add: system_ok_def this_board_def)
  qed
qed

lemma system_reachable:
  assumes "(calm_step Y L C S)\<^sup>*\<^sup>* s s'" "yjs_ok Y" "system_ok Y s"
  shows "system_ok Y s'"
  using assms by (induction rule: rtranclp_induct) (auto intro: system_step)

lemma system_loads:
  assumes "this_board Y b H w ph"
  shows "\<exists>snap. load L (Some (S, C)) w b = Inr snap \<and>
    rebuild Y (snap_bytes snap) (snap_updates snap) = document Y H"
proof (cases "best_snapshot (rows w b)")
  case None
  with load_whole [OF assms refl] show ?thesis by (simp add: load_def latest_rows previous_seq_def)
next
  case (Some r)
  then obtain x where "obj_get S w (storageKey r) = Some x"
    using assms by (auto simp: this_board_def board_ok_def)
  with Some load_whole [OF assms refl] show ?thesis
    by (simp add: load_def latest_rows previous_seq_def)
qed

text \<open>A compaction that runs to its end, and one that gives up.\<close>

lemma collect_rows:
  assumes "this_board Y b H w (Collecting t d n todo)"
  shows "this_board Y b H (collect C S b todo w) (Collecting t d n []) \<and>
    entries (collect C S b todo w) = entries w \<and>
    rows (collect C S b todo w) b = filter (\<lambda>r. seqUpto r \<notin> seqUpto ` set todo) (rows w b)"
  using assms
proof (induction todo arbitrary: w)
  case (Cons stale todo)
  let ?w1 = "obj_delete S w (storageKey stale)"
  let ?w2 = "cat_forget C ?w1 b (seqUpto stale)"
  have "inv w" using Cons.prems by (simp add: this_board_def)
  from delete_law [OF this, of "storageKey stale"] forget_law [of ?w1 b "seqUpto stale"]
  have same: "entries ?w2 = entries w" "rows ?w2 b = filter (\<lambda>r. seqUpto r \<noteq> seqUpto stale) (rows w b)"
    by simp_all
  have "this_board Y b H ?w2 (Collecting t d n todo)"
    using conjunct1 [OF step_delete [OF Cons.prems]] by (rule step_forget [THEN conjunct1])
  from Cons.IH [OF this] same show ?case by (simp add: conj_commute)
qed simp

lemma compact_completes:
  assumes "yjs_ok Y" "this_board Y b H w ph" "previous_seq (best_snapshot (rows w b)) < t" "t \<le> length H"
    and "\<not> y_pending Y (document Y (take t H))"
  shows "\<exists>n w'. compact Y L C S Some b t w = (Inr (Some \<lparr> res_seqUpto = t,
      res_byteSize = y_length Y (y_encode Y (document Y (take t H))),
      res_elementCount = y_elements Y (document Y (take t H)), res_pruned = n \<rparr>), w') \<and>
    this_board Y b H w' Idle \<and> entries w' b = enumerate (Suc t) (drop t H) \<and>
    rows w' b = [snapshot_record Y b t (document Y (take t H))]"
proof -
  define p where "p = best_snapshot (rows w b)"
  define d where "d = document Y (take t H)"
  define base where "base = (case p of None \<Rightarrow> None | Some r \<Rightarrow> obj_get S w (storageKey r))"
  define w1 where "w1 = put_with S Some w (snapshotKey b t) (y_encode Y d)"
  define w2 where "w2 = cat_record C w1 b (snapshot_record Y b t d)"
  obtain n w3 where prune: "log_prune L w2 b t = (n, w3)" by (cases "log_prune L w2 b t")
  have start: "this_board Y b H w (Rebuilt t d)"
    using assms(2-5) by (simp add: this_board_def target_ok_def d_def)
  have base: "p \<noteq> None \<longrightarrow> base \<noteq> None"
    using assms(2) unfolding p_def [symmetric] base_def this_board_def board_ok_def
    by (cases p) (auto simp: p_def)
  have "rebuild Y base (drop (previous_seq p) (take t H)) = d"
    unfolding d_def p_def
    by (rule rebuild_document [OF assms(2,4)]) (use assms(3) base in \<open>auto simp: p_def base_def\<close>)
  then have rebuilt: "rebuild Y base (log_since L w b (previous_seq p) (Some t)) = d"
    using since_between [OF assms(2,4,3)] by (simp add: p_def)
  have shows1: "damage_shows Y Some" by (simp add: damage_shows_def)
  have written: "this_board Y b H w1 (Written t d)"
    unfolding w1_def using step_put [OF start shows1] by simp
  have "inv w" using start by (simp add: this_board_def)
  from put_with_eq [OF this, of Some "snapshotKey b t" "y_encode Y d"]
  have w1: "obj_get S w1 (snapshotKey b t) = Some (y_encode Y d)" "rows w1 = rows w" "entries w1 = entries w" "inv w1"
    by (simp_all add: w1_def)
  have dec: "y_apply Y (y_new Y) (y_encode Y d) = d"
    using assms(1,5) by (simp add: yjs_ok_def d_def)
  have verified: "this_board Y b H w1 (Verified t d)"
    using written w1(1) dec by (simp add: this_board_def)
  have committed: "this_board Y b H w2 (Committed t d)" unfolding w2_def using step_record [OF verified] by simp
  have pruned: "this_board Y b H w3 (Pruned t d n)" using step_prune [OF committed prune] by simp
  have "seqUpto (snapshot_record Y b t d) \<le> log_latest L w1 b"
    using verified by (simp add: this_board_def board_ok_def target_ok_def snapshot_record_def)
  from record_law [OF w1(4) this] have w2: "rows w2 b = rows w b @ [snapshot_record Y b t d]" "entries w2 = entries w" "inv w2"
    using w1(2,3) by (simp_all add: w2_def)
  from prune_law [OF w2(3) prune] have w3: "rows w3 b = rows w b @ [snapshot_record Y b t d]"
    "entries w3 b = filter (\<lambda>e. t < fst e) (entries w b)"
    using w2 by simp_all
  let ?todo = "cat_older C w3 b t"
  have "this_board Y b H w3 (Collecting t d n ?todo)"
    using pruned by (auto simp: this_board_def older_rows stale_ok_def board_ok_def)
  note collected = collect_rows [OF this]
  have w4: "this_board Y b H (collect C S b ?todo w3) Idle"
    "entries (collect C S b ?todo w3) = entries w3"
    "rows (collect C S b ?todo w3) b = filter (\<lambda>r. seqUpto r \<notin> seqUpto ` set ?todo) (rows w3 b)"
    using this_board_idle [OF conjunct1 [OF collected], of Idle] collected by simp_all
  have low: "seqUpto r < t" if "r \<in> set (rows w b)" for r
  proof (cases p)
    case None
    with that show ?thesis by (simp add: p_def)
  next
    case (Some q)
    then show ?thesis using that assms(3) best_snapshot_Some unfolding p_def previous_seq_def
      by (fastforce dest: best_snapshot_Some)
  qed
  have rows4: "rows (collect C S b ?todo w3) b = [snapshot_record Y b t d]"
    unfolding w4(3) older_rows w3(1) using low by (auto simp: filter_empty_conv snapshot_record_def)
  have "filter (\<lambda>e. t < fst e) (entries w b) = filter (\<lambda>e. t < fst e) (filter (\<lambda>e. previous_seq p < fst e) (entries w b))"
    using assms(3) by (auto simp: p_def intro!: filter_cong)
  also have "\<dots> = enumerate (Suc t) (drop t H)"
    using assms(2-4) enumerate_split(2) [of "previous_seq p" t H]
    by (simp add: this_board_def board_ok_def p_def)
  finally have entries4: "entries (collect C S b ?todo w3) b = enumerate (Suc t) (drop t H)"
    using w4(2) w3(2) by simp
  have "compact Y L C S Some b t w = (Inr (Some \<lparr> res_seqUpto = t, res_byteSize = y_length Y (y_encode Y d),
      res_elementCount = y_elements Y d, res_pruned = n \<rparr>), collect C S b ?todo w3)"
    unfolding compact_def Let_def latest_rows p_def [symmetric] previous_seq_def [symmetric]
      base_def [symmetric] rebuilt w1_def [symmetric]
    using assms(3,5) base w1(1) dec prune
    by (auto simp: p_def [symmetric] d_def [symmetric] w2_def snapshot_record_def)
  with w4(1) rows4 entries4 show ?thesis unfolding d_def by blast
qed

text \<open>Two compactions that overlap: the first up to the pruning of the log, then the second.\<close>

lemma first_half:
  assumes "yjs_ok Y" "this_board Y b H w ph" "previous_seq (best_snapshot (rows w b)) < t" "t \<le> length H"
    and "\<not> y_pending Y (document Y (take t H))"
  shows "\<exists>n w'. solo Y L C S Some b (Started t, w) (Pruned t (document Y (take t H)) n, w') \<and>
    this_board Y b H w' (Pruned t (document Y (take t H)) n) \<and>
    rows w' b = rows w b @ [snapshot_record Y b t (document Y (take t H))] \<and>
    entries w' b = filter (\<lambda>e. t < fst e) (entries w b) \<and>
    (\<forall>k. k \<noteq> t \<longrightarrow> obj_get S w' (snapshotKey b k) = obj_get S w (snapshotKey b k))"
proof -
  define p where "p = best_snapshot (rows w b)"
  define d where "d = document Y (take t H)"
  define base where "base = (case p of None \<Rightarrow> None | Some r \<Rightarrow> obj_get S w (storageKey r))"
  define w1 where "w1 = put_with S Some w (snapshotKey b t) (y_encode Y d)"
  define w2 where "w2 = cat_record C w1 b (snapshot_record Y b t d)"
  obtain n w3 where prune: "log_prune L w2 b t = (n, w3)" by (cases "log_prune L w2 b t")
  have rebuilt: "this_board Y b H w (Rebuilt t d)"
    using assms(2-5) by (simp add: this_board_def target_ok_def d_def)
  have base: "p \<noteq> None \<longrightarrow> base \<noteq> None"
    using assms(2) unfolding p_def [symmetric] base_def this_board_def board_ok_def
    by (cases p) (auto simp: p_def)
  have "rebuild Y base (drop (previous_seq p) (take t H)) = d"
    unfolding d_def p_def
    by (rule rebuild_document [OF assms(2,4)]) (use assms(3) base in \<open>auto simp: p_def base_def\<close>)
  then have d: "rebuild Y base (log_since L w b (previous_seq p) (Some t)) = d"
    using since_between [OF assms(2,4,3)] by (simp add: p_def)
  have inv: "inv w" using rebuilt by (simp add: this_board_def)
  note put = put_with_eq [OF inv, of Some "snapshotKey b t" "y_encode Y d", folded w1_def]
  have dec: "y_apply Y (y_new Y) (y_encode Y d) = d" using assms(1,5) by (simp add: yjs_ok_def d_def)
  have "this_board Y b H w1 (Written t d)"
    unfolding w1_def using step_put [OF rebuilt, of Some] by (simp add: damage_shows_def)
  then have verified: "this_board Y b H w1 (Verified t d)" using put dec by (simp add: this_board_def)
  then have "seqUpto (snapshot_record Y b t d) \<le> log_latest L w1 b"
    by (simp add: this_board_def board_ok_def target_ok_def snapshot_record_def)
  with put have w2: "rows w2 b = rows w b @ [snapshot_record Y b t d]" "entries w2 = entries w"
    "obj_get S w2 = obj_get S w1" "inv w2"
    using record_law [of w1 "snapshot_record Y b t d" b] by (simp_all add: w2_def)
  have pruned: "this_board Y b H w3 (Pruned t d n)"
  proof -
    have "this_board Y b H w2 (Committed t d)" using step_record [OF verified] by (simp add: w2_def)
    from step_prune [OF this prune] show ?thesis by simp
  qed
  note w3 = prune_law [OF w2(4) prune]
  have "solo Y L C S Some b (Committed t d, w2) (Pruned t d n, w3)"
    by (rule solo_step) (simp add: prune)
  then have "solo Y L C S Some b (Verified t d, w1) (Pruned t d n, w3)"
    by - (rule solo_step, simp add: w2_def)
  then have "solo Y L C S Some b (Written t d, w1) (Pruned t d n, w3)"
    using put dec by - (rule solo_step, simp)
  then have "solo Y L C S Some b (Rebuilt t d, w) (Pruned t d n, w3)"
    by - (rule solo_step, simp add: w1_def)
  then have "solo Y L C S Some b (HaveUpdates t p (log_since L w b (previous_seq p) (Some t)), w) (Pruned t d n, w3)"
    using base d assms(5) by - (rule solo_step, auto simp: Let_def base_def [symmetric] d_def [symmetric])
  then have "solo Y L C S Some b (HavePrevious t p, w) (Pruned t d n, w3)"
    using assms(3) by - (rule solo_step, simp add: p_def)
  then have "solo Y L C S Some b (Started t, w) (Pruned t d n, w3)"
    by - (rule solo_step, simp add: latest_rows p_def)
  moreover have "rows w3 b = rows w b @ [snapshot_record Y b t d]"
    "entries w3 b = filter (\<lambda>e. t < fst e) (entries w b)"
    "\<forall>k. k \<noteq> t \<longrightarrow> obj_get S w3 (snapshotKey b k) = obj_get S w (snapshotKey b k)"
    using w2 w3 put by (simp_all add: snapshotKey_inj)
  ultimately show ?thesis using pruned unfolding d_def [symmetric] by blast
qed

lemma collect_stale:
  assumes "inv w" "\<forall>r \<in> set todo. stale_ok b t r"
  shows "inv (collect C S b todo w) \<and> entries (collect C S b todo w) = entries w \<and>
    rows (collect C S b todo w) b = filter (\<lambda>r. seqUpto r \<notin> seqUpto ` set todo) (rows w b) \<and>
    obj_get S (collect C S b todo w) (snapshotKey b t) = obj_get S w (snapshotKey b t)"
  using assms
proof (induction todo arbitrary: w)
  case (Cons stale todo)
  let ?w1 = "obj_delete S w (storageKey stale)"
  let ?w2 = "cat_forget C ?w1 b (seqUpto stale)"
  have stale: "snapshotKey b t \<noteq> storageKey stale"
    using Cons.prems(2) by (auto simp: stale_ok_def snapshotKey_inj)
  from delete_law [OF Cons.prems(1), of "storageKey stale"] forget_law [of ?w1 b "seqUpto stale"] stale
  have "inv ?w2" "entries ?w2 = entries w" "rows ?w2 b = filter (\<lambda>r. seqUpto r \<noteq> seqUpto stale) (rows w b)"
    "obj_get S ?w2 (snapshotKey b t) = obj_get S w (snapshotKey b t)"
    by simp_all
  with Cons.IH [of ?w2] Cons.prems(2) show ?case by (simp add: conj_commute)
qed simp

lemma second_half:
  assumes "yjs_ok Y" "this_board Y b H w ph" "committed (rows w b) t" "a = previous_seq p" "a < t"
    and "entries w b = filter (\<lambda>e. t < fst e) es" "\<not> y_pending Y d"
    and "rebuild Y (case p of None \<Rightarrow> None | Some r \<Rightarrow> obj_get S w (storageKey r)) [] = d"
    and "p \<noteq> None \<longrightarrow> (case p of None \<Rightarrow> None | Some r \<Rightarrow> obj_get S w (storageKey r)) \<noteq> None"
  shows "\<exists>r w'. solo Y L C S Some b (HavePrevious t p, w) (Finished r, w') \<and> inv w' \<and>
    obj_get S w' (snapshotKey b t) = Some (y_encode Y d) \<and> entries w' b = entries w b \<and>
    committed (rows w' b) t \<and> set (cat_older C w' b t) = {} \<and>
    (\<forall>r \<in> set (rows w' b). storageKey r = snapshotKey b (seqUpto r))"
proof -
  have w: "inv w" "board_ok Y b H (log_latest L w b) (entries w b) (rows w b) (obj_get S w)"
    using assms(2) by (simp_all add: this_board_def)
  have keys: "\<forall>r \<in> set (rows w b). storageKey r = snapshotKey b (seqUpto r)"
    using w(2) by (simp add: board_ok_def)
  have none: "log_since L w b a (Some t) = []"
    using assms(5) by (auto simp: since_entries [OF w(1)] assms(6) in_range_def filter_empty_conv)
  define w1 where "w1 = put_with S Some w (snapshotKey b t) (y_encode Y d)"
  define w2 where "w2 = cat_record C w1 b (snapshot_record Y b t d)"
  obtain n w3 where prune: "log_prune L w2 b t = (n, w3)" by (cases "log_prune L w2 b t")
  define w4 where "w4 = collect C S b (cat_older C w3 b t) w3"
  note put = put_with_eq [OF w(1), of Some "snapshotKey b t" "y_encode Y d", folded w1_def]
  have dec: "y_apply Y (y_new Y) (y_encode Y d) = d" using assms(1,7) by (simp add: yjs_ok_def)
  obtain q where q: "best_snapshot (rows w b) = Some q" "seqUpto q = t"
    using assms(3) by (auto simp: committed_def)
  have "t \<le> log_latest L w b" using w(2) q best_snapshot_Some [OF q(1)] by (auto simp: board_ok_def)
  with put have w2: "rows w2 b = rows w b @ [snapshot_record Y b t d]" "entries w2 = entries w"
    "obj_get S w2 = obj_get S w1" "inv w2"
    using record_law [of w1 "snapshot_record Y b t d" b] by (simp_all add: w2_def snapshot_record_def)
  note law3 = prune_law [OF w2(4) prune]
  have w3: "inv w3" "rows w3 b = rows w b @ [snapshot_record Y b t d]" "entries w3 b = entries w b"
    "obj_get S w3 (snapshotKey b t) = Some (y_encode Y d)"
    using law3 w2 put assms(6) by (simp_all add: conj_commute)
  have best3: "best_snapshot (rows w3 b) = Some q"
    using q by (simp add: w3(2) best_snapshot_snoc snapshot_record_def)
  have keys3: "\<forall>r \<in> set (rows w3 b). storageKey r = snapshotKey b (seqUpto r)"
    using keys by (simp add: w3(2) snapshot_record_def)
  have todo: "\<forall>r \<in> set (cat_older C w3 b t). stale_ok b t r"
    using keys3 by (simp add: older_rows stale_ok_def)
  note w4 = collect_stale [OF w3(1) todo, folded w4_def]
  then have rows4: "rows w4 b = filter (\<lambda>r. seqUpto r \<notin> seqUpto ` {r \<in> set (rows w3 b). seqUpto r < t}) (rows w3 b)"
    by (simp add: older_rows)
  have "best_snapshot (rows w4 b) = Some q"
    unfolding rows4 by (rule best_snapshot_filter [OF best3]) (use q(2) in auto)
  with q(2) have committed: "committed (rows w4 b) t" by (simp add: committed_def)
  have older: "set (cat_older C w4 b t) = {}" by (auto simp: older_rows rows4)
  have "solo Y L C S Some b (Pruned t d n, w3)
      (Finished (Inr (Some \<lparr> res_seqUpto = t, res_byteSize = y_length Y (y_encode Y d),
        res_elementCount = y_elements Y d, res_pruned = n \<rparr>)), w4)"
    unfolding w4_def by (rule solo_step) (simp add: solo_collect)
  then obtain r where "solo Y L C S Some b (Pruned t d n, w3) (Finished r, w4)" by blast
  then have "solo Y L C S Some b (Committed t d, w2) (Finished r, w4)"
    by - (rule solo_step, simp add: prune)
  then have "solo Y L C S Some b (Verified t d, w1) (Finished r, w4)"
    by - (rule solo_step, simp add: w2_def)
  then have "solo Y L C S Some b (Written t d, w1) (Finished r, w4)"
    using put dec by - (rule solo_step, simp)
  then have "solo Y L C S Some b (Rebuilt t d, w) (Finished r, w4)"
    by - (rule solo_step, simp add: w1_def)
  moreover have "compact_step Y L C S Some b (HaveUpdates t p [], w) = (Rebuilt t d, w)"
    using assms(7-9) by (auto simp: Let_def)
  ultimately have "solo Y L C S Some b (HaveUpdates t p [], w) (Finished r, w4)"
    by - (rule solo_step, simp)
  then have "solo Y L C S Some b (HavePrevious t p, w) (Finished r, w4)"
    using assms(4,5) none by - (rule solo_step, simp)
  moreover have "\<forall>r \<in> set (rows w4 b). storageKey r = snapshotKey b (seqUpto r)"
    using keys3 by (simp add: rows4)
  moreover have "inv w4" "entries w4 b = entries w b" "obj_get S w4 (snapshotKey b t) = Some (y_encode Y d)"
    using w4 w3 by simp_all
  ultimately show ?thesis using committed older by blast
qed

lemma compact_gives_up:
  assumes "inv w" "compact Y L C S keeps b t w = (r, w')" "\<nexists>res. r = Inr (Some res)"
  shows "inv w' \<and> entries w' = entries w \<and> rows w' = rows w \<and> log_latest L w' = log_latest L w \<and>
    (\<forall>key. key \<noteq> snapshotKey b t \<longrightarrow> obj_get S w' key = obj_get S w key)"
proof -
  have "w' = w \<or> (\<exists>x. w' = put_with S keeps w (snapshotKey b t) x)"
    using assms(2,3) by (auto simp: compact_def Let_def split: option.splits if_splits prod.splits)
  then show ?thesis using put_with_eq [OF assms(1)] assms(1) by auto
qed

end

subsection \<open>The compactor over PostgreSQL\<close>

definition pg_empty :: "'b PgWorld" where
  "pg_empty = \<lparr> board_updates = [], board_snapshots = [], pg_objects = Map.empty \<rparr>"

definition fresh_system :: "('b PgWorld, 'd, 'b) System" where
  "fresh_system = \<lparr> world = pg_empty, phase = (\<lambda>_. Idle), loading = (\<lambda>_. NotLoading),
                    history = (\<lambda>_. []) \<rparr>"

abbreviation pg_step where
  "pg_step Y \<equiv> durable_step Y pg_log pg_catalog storage_store"

abbreviation pg_calm where
  "pg_calm Y \<equiv> calm_step Y pg_log pg_catalog storage_store"

lemma fresh_system_ok: "pg.system_ok Y fresh_system"
  unfolding pg.system_ok_def pg.this_board_def alone_def
  by (simp add: fresh_system_def pg_empty_def pg_inv_def pg_entries_def
      pg_rows_def pg_latest_def pg_log_def board_ok_def previous_seq_def)

lemma reachable_ok: "(pg_calm Y)\<^sup>*\<^sup>* fresh_system s \<Longrightarrow> yjs_ok Y \<Longrightarrow> pg.system_ok Y s"
  by (rule pg.system_reachable [OF _ _ fresh_system_ok])

lemma calm_is_durable: "(calm_step Y L C S)\<^sup>*\<^sup>* s s' \<Longrightarrow> (durable_step Y L C S)\<^sup>*\<^sup>* s s'"
  by (induction rule: rtranclp_induct) (auto simp: calm_step_def intro: rtranclp.rtrancl_into_rtrancl)

text \<open>A stretch of one compaction that nothing interrupts is a run of the system.\<close>

lemma solo_durable:
  assumes "solo Y L C S keeps b x y" "damage_shows Y keeps" "x = (phase s (b, n), world s)"
  shows "(durable_step Y L C S)\<^sup>*\<^sup>* s (s\<lparr>world := snd y, phase := (phase s)((b, n) := fst y)\<rparr>)"
  using assms(1)
proof (induction rule: rtranclp_induct)
  case base
  show ?case by (simp add: assms(3) fun_upd_triv)
next
  case (step y z)
  let ?s = "s\<lparr>world := snd y, phase := (phase s)((b, n) := fst y)\<rparr>"
  have "durable_step Y L C S ?s (?s\<lparr>world := snd z, phase := (phase ?s)((b, n) := fst z)\<rparr>)"
    using step.hyps(2) by (intro durable_step.moved [OF assms(2)]) simp
  moreover have "?s\<lparr>world := snd z, phase := (phase ?s)((b, n) := fst z)\<rparr> =
      s\<lparr>world := snd z, phase := (phase s)((b, n) := fst z)\<rparr>"
    by simp
  ultimately show ?case using step.IH by (metis rtranclp.rtrancl_into_rtrancl)
qed

lemma alone_upd:
  assumes "\<And>m. m \<noteq> n \<Longrightarrow> idle_phase (phase s (b, m))" "\<And>m. idle_load (loading s (b, m))" "alone s"
  shows "alone (s\<lparr>world := w, phase := (phase s)((b, n) := ph)\<rparr>)"
  using assms by (auto simp: alone_def)

lemma solo_calm:
  assumes "solo Y L C S keeps b x y" "damage_shows Y keeps" "x = (phase s (b, n), world s)"
    and "\<And>m. m \<noteq> n \<Longrightarrow> idle_phase (phase s (b, m))" "\<And>m. idle_load (loading s (b, m))" "alone s"
  shows "(calm_step Y L C S)\<^sup>*\<^sup>* s (s\<lparr>world := snd y, phase := (phase s)((b, n) := fst y)\<rparr>)"
  using assms(1)
proof (induction rule: rtranclp_induct)
  case base
  show ?case by (simp add: assms(3) fun_upd_triv)
next
  case (step y z)
  let ?s = "s\<lparr>world := snd y, phase := (phase s)((b, n) := fst y)\<rparr>"
  let ?z = "s\<lparr>world := snd z, phase := (phase s)((b, n) := fst z)\<rparr>"
  have "durable_step Y L C S ?s (?s\<lparr>world := snd z, phase := (phase ?s)((b, n) := fst z)\<rparr>)"
    using step.hyps(2) by (intro durable_step.moved [OF assms(2)]) simp
  then have "calm_step Y L C S ?s ?z"
    using alone_upd [OF assms(4-6)] by (simp add: calm_step_def)
  with step.IH show ?case by (metis rtranclp.rtrancl_into_rtrancl)
qed

text \<open>
  A small replicated log stands in for Yjs in the witnesses: an update carries its start clock, known
  operations are skipped and a gap leaves the document pending.
\<close>

definition demo_yjs :: "(nat list \<times> bool, nat \<times> nat list) Yjs" where
  "demo_yjs = \<lparr> y_new = ([], False),
     y_apply = (\<lambda>(ops, gap) (clock, xs). if clock \<le> length ops
       then (ops @ drop (length ops - clock) xs, gap) else (ops, True)),
     y_pending = snd, y_encode = (\<lambda>d. (0, fst d)), y_vector = (\<lambda>d. (length (fst d), [])),
     y_elements = (\<lambda>d. length (fst d)), y_length = (\<lambda>x. length (snd x)) \<rparr>"

lemma demo_yjs_ok: "yjs_ok demo_yjs"
  by (auto simp: yjs_ok_def demo_yjs_def)

definition appended_to :: "('b PgWorld, 'd, 'b) System \<Rightarrow> string \<Rightarrow> 'b \<Rightarrow> ('b PgWorld, 'd, 'b) System" where
  "appended_to s b p = s\<lparr>world := snd (pg_append (world s) b p), history := (history s)(b := history s b @ [p])\<rparr>"

lemma appended_to_step: "alone s \<Longrightarrow> pg_calm Y s (appended_to s b p)"
  unfolding appended_to_def calm_step_def
  by (intro conjI durable_step.appended [where q = "fst (pg_append (world s) b p)"])
    (simp_all add: pg_log_def alone_def)

definition demo_system :: "((nat \<times> nat list) PgWorld, nat list \<times> bool, nat \<times> nat list) System" where
  "demo_system = appended_to (appended_to fresh_system ''b'' (0, [7])) ''b'' (1, [8, 9])"

lemma demo_history: "history demo_system = (\<lambda>_. [])(''b'' := [(0, [7]), (1, [8, 9])])"
  and demo_phase: "phase demo_system = (\<lambda>_. Idle)" "loading demo_system = (\<lambda>_. NotLoading)"
  by (simp_all add: demo_system_def appended_to_def fresh_system_def fun_eq_iff)

lemma demo_reachable: "(pg_calm demo_yjs)\<^sup>*\<^sup>* fresh_system demo_system"
proof -
  have "alone (fresh_system :: ((nat \<times> nat list) PgWorld, nat list \<times> bool, nat \<times> nat list) System)"
    "alone (appended_to fresh_system ''b'' (0 :: nat, [7 :: nat]) ::
      ((nat \<times> nat list) PgWorld, nat list \<times> bool, nat \<times> nat list) System)"
    by (simp_all add: alone_def fresh_system_def appended_to_def)
  then show ?thesis
    unfolding demo_system_def by (meson appended_to_step r_into_rtranclp rtranclp_trans)
qed

text \<open>The demo board compacted up to its first update, and then loaded.\<close>

definition demo_compacted :: "((nat \<times> nat list) PgWorld, nat list \<times> bool, nat \<times> nat list) System" where
  "demo_compacted = (let c = compact demo_yjs pg_log pg_catalog storage_store Some ''b'' 1 (world demo_system)
     in demo_system\<lparr>world := snd c, phase := (\<lambda>_. Idle)((''b'', 0) := Finished (fst c))\<rparr>)"

definition demo_loaded :: "((nat \<times> nat list) PgWorld, nat list \<times> bool, nat \<times> nat list) System" where
  "demo_loaded = demo_compacted\<lparr>loading := (\<lambda>_. NotLoading)((''b'', 5) := LoadEnded 2
     (load pg_log (Some (storage_store, pg_catalog)) (world demo_compacted) ''b''))\<rparr>"

lemma demo_latest: "pg_latest (world demo_system) ''b'' = 2"
  by (simp add: demo_system_def appended_to_def fresh_system_def pg_empty_def pg_append_eq pg_latest_def
      sql_max_def)

lemma demo_compacted_reachable: "(pg_calm demo_yjs)\<^sup>*\<^sup>* fresh_system demo_compacted"
proof -
  let ?s = "demo_system\<lparr>phase := (phase demo_system)((''b'', 0) := Started 1)\<rparr>"
  have alone: "alone ?s" by (simp add: alone_def demo_phase)
  have "pg_step demo_yjs demo_system ?s"
    by (rule durable_step.called) (simp_all add: demo_phase pg_log_def demo_latest)
  with alone have "pg_calm demo_yjs demo_system ?s" by (simp add: calm_step_def)
  moreover have "(pg_calm demo_yjs)\<^sup>*\<^sup>* ?s demo_compacted"
    using solo_calm [OF compact_is_its_steps [where keeps = Some and Y = demo_yjs and b = "''b''" and t = 1
        and w = "world demo_system" and L = pg_log and C = pg_catalog and S = storage_store],
        where s = ?s and n = 0] alone
    by (simp add: damage_shows_def demo_compacted_def Let_def demo_phase)
  ultimately show ?thesis using demo_reachable by (meson r_into_rtranclp rtranclp_trans)
qed

lemma load_calm:
  assumes "loading s (b, n) = lp" "\<And>m. idle_phase (phase s (b, m))" "alone s"
  shows "(calm_step Y L C S)\<^sup>*\<^sup>* s (s\<lparr>loading := (loading s)((b, n) := (load_step L C S (world s) b ^^ k) lp)\<rparr>)"
proof (induction k)
  case 0
  have "(loading s)((b, n) := lp) = loading s" using assms(1) by (simp add: fun_upd_idem)
  then show ?case by simp
next
  case (Suc k)
  let ?s = "\<lambda>k. s\<lparr>loading := (loading s)((b, n) := (load_step L C S (world s) b ^^ k) lp)\<rparr>"
  have "durable_step Y L C S (?s k)
      (?s k\<lparr>loading := (loading (?s k))((b, n) := load_step L C S (world (?s k)) b (loading (?s k) (b, n)))\<rparr>)"
    by (rule durable_step.read_on)
  then have "durable_step Y L C S (?s k) (?s (Suc k))" by simp
  moreover have "alone (?s (Suc k))" using assms(2,3) by (auto simp: alone_def)
  ultimately have "calm_step Y L C S (?s k) (?s (Suc k))" by (simp add: calm_step_def)
  with Suc show ?case by (rule rtranclp.rtrancl_into_rtrancl)
qed

lemma demo_loaded_reachable: "(pg_calm demo_yjs)\<^sup>*\<^sup>* fresh_system demo_loaded"
proof -
  let ?c = "demo_compacted"
  let ?s = "?c\<lparr>loading := (loading ?c)((''b'', 5) := LoadCalled (length (history ?c ''b'')))\<rparr>"
  have idle: "idle_phase (phase ?c (''b'', m))" "loading ?c = (\<lambda>_. NotLoading)" for m
    by (simp_all add: demo_compacted_def Let_def demo_phase)
  have alone: "alone ?c" using reachable_ok [OF demo_compacted_reachable demo_yjs_ok]
    by (simp add: pg.system_ok_def)
  then have alone': "alone ?s" using idle by (auto simp: alone_def)
  have "pg_step demo_yjs ?c ?s" by (rule durable_step.opened) (simp add: idle)
  with alone' have "pg_calm demo_yjs ?c ?s" by (simp add: calm_step_def)
  moreover have "(pg_calm demo_yjs)\<^sup>*\<^sup>* ?s demo_loaded"
  proof -
    have "length (history ?c ''b'') = 2" by (simp add: demo_compacted_def Let_def demo_history)
    moreover have "loading ?s (''b'', 5) = LoadCalled (length (history ?c ''b''))" by simp
    ultimately show ?thesis
      using load_calm [of ?s "''b''" 5 "LoadCalled 2", where k = 3 and Y = demo_yjs and L = pg_log
          and C = pg_catalog and S = storage_store] idle alone'
      by (simp add: load_is_its_steps demo_loaded_def)
  qed
  ultimately show ?thesis using demo_compacted_reachable by (meson r_into_rtranclp rtranclp_trans)
qed

text \<open>
  C1. No update is lost. From an empty database, whatever appends, compactions, loads, bad writes that
  the state vector shows, and crashes happen to all the boards in whatever order, one database or storage
  call at a time, as long as no compaction of a board overlaps another compaction or a load of the same
  board: every load that ended returned, for some \<open>m\<close> no smaller than the number of updates the board had
  when it was called, the document of the first \<open>m\<close> updates in order; a load that nothing interrupts
  returns the document of every update ever appended; and the next append takes the next number.
\<close>

theorem no_update_is_lost:
  assumes "yjs_ok Y" "(pg_calm Y)\<^sup>*\<^sup>* fresh_system s"
  shows "(loading s (b, n) = LoadEnded k result \<longrightarrow> (\<exists>snap m. result = Inr snap \<and>
      k \<le> m \<and> m \<le> length (history s b) \<and>
      rebuild Y (snap_bytes snap) (snap_updates snap) = document Y (take m (history s b)))) \<and>
    (\<exists>snap. load pg_log (Some (storage_store, pg_catalog)) (world s) b = Inr snap \<and>
      rebuild Y (snap_bytes snap) (snap_updates snap) = document Y (history s b)) \<and>
    fst (pg_append (world s) b p) = length (history s b) + 1"
proof -
  have ok: "pg.system_ok Y s" by (rule reachable_ok [OF assms(2,1)])
  note here = pg.system_okD(1) [OF ok, of b 0]
  then have "pg_latest (world s) b = length (history s b)"
    unfolding pg.this_board_def board_ok_def by (simp add: pg_log_def)
  then have "fst (pg_append (world s) b p) = length (history s b) + 1" by (simp add: pg_append_eq)
  with pg.system_loads [OF here] pg.system_okD(2) [OF ok, of b n] show ?thesis by fastforce
qed

theorem no_update_is_lost_witness:
  "(\<exists>snap. loading demo_loaded (''b'', 5) = LoadEnded 2 (Inr snap) \<and>
      rebuild demo_yjs (snap_bytes snap) (snap_updates snap) = ([7, 8, 9], False)) \<and>
    fst (pg_append (world demo_loaded) ''b'' (3, [])) = 3"
proof -
  define result where "result = load pg_log (Some (storage_store, pg_catalog)) (world demo_compacted) ''b''"
  have ended: "loading demo_loaded (''b'', 5) = LoadEnded 2 result"
    by (simp add: demo_loaded_def result_def)
  have history: "history demo_loaded ''b'' = [(0, [7]), (1, [8, 9])]"
    by (simp add: demo_loaded_def demo_compacted_def Let_def demo_history)
  note main = no_update_is_lost [OF demo_yjs_ok demo_loaded_reachable, of "''b''" 5 2 result "(3, [])"]
  from main [THEN conjunct1] ended obtain snap m where snap: "result = Inr snap" "2 \<le> m"
    "m \<le> length (history demo_loaded ''b'')"
    "rebuild demo_yjs (snap_bytes snap) (snap_updates snap) = document demo_yjs (take m (history demo_loaded ''b''))"
    by blast
  then have "m = 2" unfolding history by simp
  with snap(4) have "rebuild demo_yjs (snap_bytes snap) (snap_updates snap) = ([7, 8, 9], False)"
    unfolding history by (simp add: demo_yjs_def)
  with ended snap(1) main [THEN conjunct2, THEN conjunct2] show ?thesis by (simp add: history)
qed

text \<open>
  C2. In every database reached without overlapping compactions, a compaction that runs alone, over a
  store that keeps what it is given, up to an appended sequence number above the latest snapshot, with no
  causal gap in the updates so far, succeeds: its steps end with its result, the log keeps exactly the
  later updates, the catalog exactly the new row, and a load returns the encoded document and those later
  updates.
\<close>

theorem compact_succeeds:
  assumes "yjs_ok Y" "(pg_calm Y)\<^sup>*\<^sup>* fresh_system s"
    and "previous_seq (cat_latest pg_catalog (world s) b) < t" "t \<le> length (history s b)"
    and "\<not> y_pending Y (document Y (take t (history s b)))"
  shows "\<exists>n w' res. compact Y pg_log pg_catalog storage_store Some b t (world s) = (Inr (Some res), w') \<and>
    solo Y pg_log pg_catalog storage_store Some b (Started t, world s) (Finished (Inr (Some res)), w') \<and>
    res = \<lparr> res_seqUpto = t, res_byteSize = y_length Y (y_encode Y (document Y (take t (history s b)))),
         res_elementCount = y_elements Y (document Y (take t (history s b))), res_pruned = n \<rparr> \<and>
    pg_since w' b 0 None = drop t (history s b) \<and>
    pg_rows w' b = [snapshot_record Y b t (document Y (take t (history s b)))] \<and>
    (\<exists>x. load pg_log (Some (storage_store, pg_catalog)) w' b =
       Inr \<lparr> snap_bytes = Some x, snap_updates = drop t (history s b), snap_seqUpto = t \<rparr> \<and>
       y_apply Y (y_new Y) x = document Y (take t (history s b)))"
proof -
  let ?H = "history s b" and ?d = "document Y (take t (history s b))"
  have ok: "pg.this_board Y b ?H (world s) (phase s (b, 0))"
    by (rule pg.system_okD(1) [OF reachable_ok [OF assms(2,1)]])
  have prev: "previous_seq (best_snapshot (pg_rows (world s) b)) < t"
    using assms(3) by (simp add: pg_catalog_def pg_latest_snapshot_def)
  obtain n w' where c: "compact Y pg_log pg_catalog storage_store Some b t (world s) =
      (Inr (Some \<lparr> res_seqUpto = t, res_byteSize = y_length Y (y_encode Y ?d),
         res_elementCount = y_elements Y ?d, res_pruned = n \<rparr>), w')"
    and w': "pg.this_board Y b ?H w' Idle" "pg_entries w' b = enumerate (Suc t) (drop t ?H)"
      "pg_rows w' b = [snapshot_record Y b t ?d]"
    using pg.compact_completes [OF assms(1) ok prev assms(4,5)] by blast
  have inv: "pg_inv w'" using w'(1) by (simp add: pg.this_board_def)
  have best: "best_snapshot (pg_rows w' b) = Some (snapshot_record Y b t ?d)"
    by (simp add: w'(3) best_snapshot_def)
  have since: "pg_since w' b a None = drop t ?H" if "a \<le> t" for a
    using that by (simp add: pg_since_entries [OF inv] w'(2) in_range_def filter_True in_set_enumerate_eq)
  from w'(1) best obtain x where
    "obj_get storage_store w' (snapshotKey b t) = Some x" "y_apply Y (y_new Y) x = ?d"
    by (auto simp: pg.this_board_def board_ok_def snapshot_record_def)
  moreover have "solo Y pg_log pg_catalog storage_store Some b (Started t, world s)
      (Finished (Inr (Some \<lparr> res_seqUpto = t, res_byteSize = y_length Y (y_encode Y ?d),
         res_elementCount = y_elements Y ?d, res_pruned = n \<rparr>)), w')"
    using compact_is_its_steps [of Y pg_log pg_catalog storage_store Some b t "world s"] c by simp
  ultimately show ?thesis using c w'(3) since best
    by (auto simp: load_def pg_ports pg_latest_snapshot_def snapshot_record_def)
qed

theorem compact_succeeds_witness:
  "\<exists>n w'. compact demo_yjs pg_log pg_catalog storage_store Some ''b'' 1 (world demo_system) =
      (Inr (Some \<lparr> res_seqUpto = 1, res_byteSize = 1, res_elementCount = 1, res_pruned = n \<rparr>), w') \<and>
    pg_since w' ''b'' 0 None = [(1, [8, 9])]"
proof -
  have empty: "cat_latest pg_catalog (world demo_system) ''b'' = None"
    by (simp add: demo_system_def appended_to_def fresh_system_def pg_empty_def pg_append_eq pg_catalog_def
        pg_latest_snapshot_def pg_rows_def)
  have "document demo_yjs (take 1 (history demo_system ''b'')) = ([7], False)"
    by (simp add: demo_history) (simp add: demo_yjs_def)
  with compact_succeeds [OF demo_yjs_ok demo_reachable, of "''b''" 1] show ?thesis
    by (fastforce simp: empty previous_seq_def demo_history demo_yjs_def)
qed

text \<open>
  Two overlapping compactions: the second reads the old snapshot before the first commits, and the
  updates after it once the first has pruned them.
\<close>

lemma overlap_run:
  fixes s :: "('b PgWorld, 'd, 'b) System"
  assumes "yjs_ok Y" "(pg_calm Y)\<^sup>*\<^sup>* fresh_system s"
    and "idle_phase (phase s (b, i))" "idle_phase (phase s (b, j))" "i \<noteq> j" "idle_load (loading s (b, l))"
    and "a = previous_seq (cat_latest pg_catalog (world s) b)" "a < t" "t \<le> length (history s b)"
    and "\<not> y_pending Y (document Y (take a (history s b)))" "\<not> y_pending Y (document Y (take t (history s b)))"
  shows "\<exists>s' x snap. (pg_step Y)\<^sup>*\<^sup>* s s' \<and> history s' = history s \<and>
    idle_phase (phase s' (b, i)) \<and> idle_phase (phase s' (b, j)) \<and>
    load pg_log (Some (storage_store, pg_catalog)) (world s') b =
      Inr \<lparr> snap_bytes = Some x, snap_updates = drop t (history s b), snap_seqUpto = t \<rparr> \<and>
    y_apply Y (y_new Y) x = document Y (take a (history s b)) \<and>
    loading s' (b, l) = LoadEnded (length (history s b)) (Inr snap) \<and>
    rebuild Y (snap_bytes snap) (snap_updates snap) = document Y (take a (history s b) @ drop t (history s b))"
proof -
  let ?L = pg_log and ?C = pg_catalog and ?S = storage_store
  define w where "w = world s"
  define H where "H = history s b"
  define d where "d = document Y (take t H)"
  define d0 where "d0 = document Y (take a H)"
  define p where "p = best_snapshot (pg_rows w b)"
  have ok: "pg.this_board Y b H w (phase s (b, i))"
    unfolding H_def w_def by (rule pg.system_okD(1) [OF reachable_ok [OF assms(2,1)]])
  have p: "cat_latest ?C w b = p" by (simp add: p_def pg_catalog_def pg_latest_snapshot_def)
  have a: "a = previous_seq p" "a < t" "t \<le> length H" using assms(7-9) by (simp_all add: w_def [symmetric] p H_def)
  obtain n w3 where A: "solo Y ?L ?C ?S Some b (Started t, w) (Pruned t d n, w3)"
      "pg.this_board Y b H w3 (Pruned t d n)"
      "pg_rows w3 b = pg_rows w b @ [snapshot_record Y b t d]"
      "pg_entries w3 b = filter (\<lambda>e. t < fst e) (pg_entries w b)"
      "\<forall>k. k \<noteq> t \<longrightarrow> obj_get ?S w3 (snapshotKey b k) = obj_get ?S w (snapshotKey b k)"
    using pg.first_half [OF assms(1) ok a(2) [unfolded a(1) p_def] a(3)] assms(11)
    unfolding d_def H_def by blast
  define base where "base = (case p of None \<Rightarrow> None | Some r \<Rightarrow> obj_get ?S w3 (storageKey r))"
  have base: "rebuild Y base [] = d0" "p \<noteq> None \<longrightarrow> base \<noteq> None"
    "base = (case p of None \<Rightarrow> None | Some r \<Rightarrow> obj_get ?S w (storageKey r))"
  proof -
    have "obj_get ?S w3 (storageKey r) = obj_get ?S w (storageKey r)" if "p = Some r" for r
      using pg.best_key [OF ok] that a A(5) by (auto simp: p_def previous_seq_def)
    then show eq: "base = (case p of None \<Rightarrow> None | Some r \<Rightarrow> obj_get ?S w (storageKey r))"
      by (auto simp: base_def split: option.split)
    show ne: "p \<noteq> None \<longrightarrow> base \<noteq> None"
      using ok unfolding eq p_def pg.this_board_def board_ok_def
      by (cases "best_snapshot (pg_rows w b)") auto
    show "rebuild Y base [] = d0"
    proof (cases p)
      case None
      then show ?thesis using a(1) by (simp add: eq d0_def rebuild_def previous_seq_def)
    next
      case (Some r)
      then obtain x where "obj_get ?S w (storageKey r) = Some x" "y_apply Y (y_new Y) x = document Y (take (seqUpto r) H)"
        using ok unfolding p_def pg.this_board_def board_ok_def by blast
      with Some a(1) show ?thesis by (simp add: eq d0_def rebuild_def previous_seq_def)
    qed
  qed
  have com: "committed (pg_rows w3 b) t" using A(2) by (simp add: pg.this_board_def)
  obtain r w4 where B: "solo Y ?L ?C ?S Some b (HavePrevious t p, w3) (Finished r, w4)" "pg_inv w4"
      "obj_get ?S w4 (snapshotKey b t) = Some (y_encode Y d0)" "pg_entries w4 b = pg_entries w3 b"
      "committed (pg_rows w4 b) t" "set (cat_older ?C w4 b t) = {}"
      "\<forall>r \<in> set (pg_rows w4 b). storageKey r = snapshotKey b (seqUpto r)"
    using pg.second_half [OF assms(1) A(2) com a(1,2) A(4), of d0] base assms(10)
    unfolding base_def [symmetric] d0_def H_def by blast
  obtain r' where A': "solo Y ?L ?C ?S Some b (Pruned t d n, w4) (Finished r', w4)"
  proof -
    have "cat_older ?C w4 b t = []" using B(6) by simp
    then have "solo Y ?L ?C ?S Some b (Pruned t d n, w4) (Finished (Inr (Some
        \<lparr> res_seqUpto = t, res_byteSize = y_length Y (y_encode Y d),
          res_elementCount = y_elements Y d, res_pruned = n \<rparr>)), w4)"
      using solo_collect [of Y ?L ?C ?S Some b t d n "[]" w4] by - (rule solo_step, simp)
    then show ?thesis using that by blast
  qed
  have none: "p = None \<Longrightarrow> base = None" by (simp add: base_def)
  define k where "k = length H"
  define lp where "lp = (case p of None \<Rightarrow> LoadLatest k None | Some r \<Rightarrow> LoadBytes k r (the base))"
  define snap where "snap = \<lparr> snap_bytes = base, snap_updates = drop t H, snap_seqUpto = a \<rparr>"
  let ?R = "pg_step Y"
  let ?s1 = "s\<lparr>loading := (loading s)((b, l) := LoadCalled k)\<rparr>"
  let ?s2 = "s\<lparr>loading := (loading s)((b, l) := LoadLatest k p)\<rparr>"
  let ?s3 = "s\<lparr>loading := (loading s)((b, l) := lp)\<rparr>"
  have "?R s ?s1" unfolding k_def H_def by (rule durable_step.opened [OF assms(6)])
  moreover have "?R ?s1 ?s2"
    using durable_step.read_on [where s = "?s1" and b = b and n = l and L = ?L and Y = Y and C = ?C and S = ?S] by (simp add: p w_def [symmetric])
  moreover have "?R\<^sup>*\<^sup>* ?s2 ?s3"
  proof (cases p)
    case (Some r)
    then obtain x where "obj_get ?S w (storageKey r) = Some x" "base = Some x" using base by auto
    with Some durable_step.read_on [where s = "?s2" and b = b and n = l and L = ?L and Y = Y and C = ?C and S = ?S] show ?thesis
      by (auto simp: lp_def w_def [symmetric])
  qed (simp add: lp_def)
  ultimately have s3: "?R\<^sup>*\<^sup>* s ?s3" by (meson converse_rtranclp_into_rtranclp)
  have target: "t \<le> log_latest ?L w b" using ok a(3) by (simp add: pg.this_board_def board_ok_def)
  let ?s4 = "?s3\<lparr>phase := (phase s)((b, i) := Started t)\<rparr>"
  let ?s5 = "?s3\<lparr>phase := (phase s)((b, i) := Started t, (b, j) := Started t)\<rparr>"
  let ?s6 = "?s3\<lparr>phase := (phase s)((b, i) := Started t, (b, j) := HavePrevious t p)\<rparr>"
  have "?R ?s3 ?s4"
    using durable_step.called [where s = "?s3" and b = b and n = i and t = t and L = ?L and Y = Y and C = ?C and S = ?S] assms(3) target by (simp add: w_def)
  moreover have "?R ?s4 ?s5"
    using durable_step.called [where s = "?s4" and b = b and n = j and t = t and L = ?L and Y = Y and C = ?C and S = ?S] assms(4,5) target by (simp add: w_def)
  moreover have "?R ?s5 ?s6"
    using durable_step.moved [where s = "?s5" and b = b and n = j and keeps = Some and L = ?L and Y = Y and C = ?C and S = ?S] p assms(5)
    by (simp add: damage_shows_def w_def fun_upd_twist)
  ultimately have s6: "?R\<^sup>*\<^sup>* ?s3 ?s6" by (meson converse_rtranclp_into_rtranclp r_into_rtranclp)
  let ?s7 = "?s3\<lparr>world := w3, phase := (phase s)((b, i) := Pruned t d n, (b, j) := HavePrevious t p)\<rparr>"
  let ?s8 = "?s7\<lparr>loading := (loading s)((b, l) := LoadEnded k (Inr snap))\<rparr>"
  let ?s9 = "?s8\<lparr>world := w4, phase := (phase s)((b, i) := Pruned t d n, (b, j) := Finished r)\<rparr>"
  let ?s10 = "?s8\<lparr>world := w4, phase := (phase s)((b, i) := Finished r', (b, j) := Finished r)\<rparr>"
  have s7: "?R\<^sup>*\<^sup>* ?s6 ?s7"
    using solo_durable [OF A(1), where s = "?s6" and n = i] assms(5)
    by (simp add: damage_shows_def w_def fun_upd_twist)
  have rest: "pg_entries w3 b = enumerate (Suc t) (drop t H)"
  proof -
    have "pg_entries w3 b = filter (\<lambda>e. t < fst e) (pg_entries w3 b)" by (simp add: A(4))
    also have "\<dots> = enumerate (Suc t) (drop t H)"
      using A(2) com by (auto simp: pg.this_board_def board_ok_def committed_def previous_seq_def)
    finally show ?thesis .
  qed
  have since: "log_since ?L w' b c None = drop t H"
    if "pg_inv w'" "pg_entries w' b = enumerate (Suc t) (drop t H)" "c \<le> t" for w' c
    using that by (simp add: pg.since_entries in_range_def filter_True in_set_enumerate_eq)
  have inv3: "pg_inv w3" using A(2) by (simp add: pg.this_board_def)
  have "?R ?s7 ?s8"
    using durable_step.read_on [where s = "?s7" and b = b and n = l and L = ?L and Y = Y and C = ?C and S = ?S]
      since [OF inv3 rest, of a] base(2) a(1,2)
      none by (cases p) (auto simp: lp_def snap_def previous_seq_def)
  moreover have "?R\<^sup>*\<^sup>* ?s8 ?s9"
    using solo_durable [OF B(1), where s = "?s8" and n = j] assms(5) by (simp add: damage_shows_def)
  moreover have "?R\<^sup>*\<^sup>* ?s9 ?s10"
    using solo_durable [OF A', where s = "?s9" and n = i] assms(5) by (simp add: damage_shows_def fun_upd_twist)
  ultimately have run: "?R\<^sup>*\<^sup>* s ?s10" using s3 s6 s7 by (meson converse_rtranclp_into_rtranclp rtranclp_trans)
  obtain q where q: "best_snapshot (pg_rows w4 b) = Some q" "seqUpto q = t" "storageKey q = snapshotKey b t"
    using B(5,7) best_snapshot_Some unfolding committed_def by metis
  have "load ?L (Some (?S, ?C)) (world ?s10) b =
      Inr \<lparr> snap_bytes = Some (y_encode Y d0), snap_updates = drop t H, snap_seqUpto = t \<rparr>"
    using q B(3) since [OF B(2), of t] B(4) rest by (simp add: load_def pg.latest_rows)
  moreover have "y_apply Y (y_new Y) (y_encode Y d0) = d0"
    using assms(1,10) by (simp add: yjs_ok_def d0_def H_def)
  moreover have "rebuild Y (snap_bytes snap) (snap_updates snap) = document Y (take a H @ drop t H)"
    using base(1) by (simp add: snap_def rebuild_def d0_def)
  moreover have "history ?s10 = history s" "idle_phase (phase ?s10 (b, i))" "idle_phase (phase ?s10 (b, j))"
    "loading ?s10 (b, l) = LoadEnded (length H) (Inr snap)"
    by (simp_all add: k_def)
  ultimately show ?thesis using run unfolding H_def d0_def by blast
qed

text \<open>
  What C1 excludes does happen. The shutdown of \<open>room.ts\<close> compacts every room without looking whether a
  compaction of it is under way, and any node may load a board its owner compacts. From every database
  reached without overlaps, two compactions of one board to the same number can interleave so that every
  later load returns the board without the updates between the snapshot before them and that number: the
  object of the second replaces the good one under the same key. A load that overlaps the first of them
  misses the same updates.
\<close>

theorem overlapping_compactions_lose_updates:
  fixes s :: "('b PgWorld, 'd, 'b) System"
  assumes "yjs_ok Y" "(pg_calm Y)\<^sup>*\<^sup>* fresh_system s"
    and "idle_phase (phase s (b, i))" "idle_phase (phase s (b, j))" "i \<noteq> j" "idle_load (loading s (b, l))"
    and "a = previous_seq (cat_latest pg_catalog (world s) b)" "a < t" "t \<le> length (history s b)"
    and "\<not> y_pending Y (document Y (take a (history s b)))" "\<not> y_pending Y (document Y (take t (history s b)))"
  shows "\<exists>s' snap snap'. (pg_step Y)\<^sup>*\<^sup>* s s' \<and> history s' = history s \<and>
    idle_phase (phase s' (b, i)) \<and> idle_phase (phase s' (b, j)) \<and>
    load pg_log (Some (storage_store, pg_catalog)) (world s') b = Inr snap \<and>
    rebuild Y (snap_bytes snap) (snap_updates snap) = document Y (take a (history s b) @ drop t (history s b)) \<and>
    loading s' (b, l) = LoadEnded (length (history s b)) (Inr snap') \<and>
    rebuild Y (snap_bytes snap') (snap_updates snap') = document Y (take a (history s b) @ drop t (history s b))"
proof -
  let ?H = "history s b"
  obtain s' x snap' where run: "(pg_step Y)\<^sup>*\<^sup>* s s'" "history s' = history s"
      "idle_phase (phase s' (b, i))" "idle_phase (phase s' (b, j))"
      "load pg_log (Some (storage_store, pg_catalog)) (world s') b =
        Inr \<lparr> snap_bytes = Some x, snap_updates = drop t ?H, snap_seqUpto = t \<rparr>"
      "y_apply Y (y_new Y) x = document Y (take a ?H)"
      "loading s' (b, l) = LoadEnded (length ?H) (Inr snap')"
      "rebuild Y (snap_bytes snap') (snap_updates snap') = document Y (take a ?H @ drop t ?H)"
    using overlap_run [OF assms] by blast
  have "rebuild Y (snap_bytes \<lparr> snap_bytes = Some x, snap_updates = drop t ?H, snap_seqUpto = t \<rparr>)
      (snap_updates \<lparr> snap_bytes = Some x, snap_updates = drop t ?H, snap_seqUpto = t \<rparr>) =
      document Y (take a ?H @ drop t ?H)"
    using run(6) by (simp add: rebuild_def)
  with run show ?thesis by blast
qed

theorem overlapping_compactions_lose_updates_witness:
  "\<exists>s' snap. (pg_step demo_yjs)\<^sup>*\<^sup>* demo_system s' \<and>
    history s' ''b'' = [(0, [7]), (1, [8, 9])] \<and>
    load pg_log (Some (storage_store, pg_catalog)) (world s') ''b'' = Inr snap \<and>
    rebuild demo_yjs (snap_bytes snap) (snap_updates snap) = ([], False)"
proof -
  have latest: "cat_latest pg_catalog (world demo_system) ''b'' = None"
    by (simp add: demo_system_def appended_to_def fresh_system_def pg_empty_def pg_append_eq pg_catalog_def
        pg_latest_snapshot_def pg_rows_def)
  have docs: "document demo_yjs (take 0 (history demo_system ''b'')) = ([], False)"
    "document demo_yjs (take 2 (history demo_system ''b'')) = ([7, 8, 9], False)"
    "document demo_yjs (take 0 (history demo_system ''b'') @ drop 2 (history demo_system ''b'')) = ([], False)"
    by (simp_all add: demo_history) (simp_all add: demo_yjs_def)
  have idle: "idle_phase (phase demo_system (''b'', i))" "idle_load (loading demo_system (''b'', i))" for i
    by (simp_all add: demo_phase)
  have pending: "\<not> y_pending demo_yjs (document demo_yjs (take 0 (history demo_system ''b'')))"
    "\<not> y_pending demo_yjs (document demo_yjs (take 2 (history demo_system ''b'')))"
    unfolding docs by (simp_all add: demo_yjs_def)
  have target: "0 = previous_seq (cat_latest pg_catalog (world demo_system) ''b'')" "(0 :: nat) < 2"
    "2 \<le> length (history demo_system ''b'')"
    by (simp_all add: latest previous_seq_def demo_history)
  have "(0 :: nat) \<noteq> 1" by simp
  from overlapping_compactions_lose_updates [OF demo_yjs_ok demo_reachable idle(1,1) this idle(2) target pending]
  obtain s' snap where "(pg_step demo_yjs)\<^sup>*\<^sup>* demo_system s'" "history s' = history demo_system"
      "load pg_log (Some (storage_store, pg_catalog)) (world s') ''b'' = Inr snap"
      "rebuild demo_yjs (snap_bytes snap) (snap_updates snap) = ([], False)"
    unfolding docs by blast
  moreover have "history demo_system ''b'' = [(0, [7]), (1, [8, 9])]" by (simp add: demo_history)
  ultimately show ?thesis by metis
qed

text \<open>
  A compaction that does not succeed (nothing to do, missing base bytes, a causal gap, bytes that do
  not read back as written) leaves the log and the catalog as they were, whatever the store did: at most
  the object of its own key changes.
\<close>

theorem failed_compaction_is_harmless:
  assumes "pg_inv w" "compact Y pg_log pg_catalog storage_store keeps b t w = (r, w')" "\<nexists>res. r = Inr (Some res)"
  shows "(\<forall>b' a u. pg_since w' b' a u = pg_since w b' a u) \<and> pg_rows w' = pg_rows w \<and>
    pg_latest w' = pg_latest w \<and> (\<forall>key. key \<noteq> snapshotKey b t \<longrightarrow> pg_objects w' key = pg_objects w key)"
  using pg.compact_gives_up [OF assms] assms(1)
  by (auto simp: pg_ports pg_since_entries)

theorem failed_compaction_is_harmless_witness:
  "pg_since (snd (compact demo_yjs pg_log pg_catalog storage_store (\<lambda>_. None) ''b'' 2 (world demo_system))) ''b'' 0 None =
     pg_since (world demo_system) ''b'' 0 None"
proof -
  have ok: "pg_inv (world demo_system)"
    using reachable_ok [OF demo_reachable demo_yjs_ok] by (simp add: pg.system_ok_def pg.this_board_def)
  obtain r w' where c: "compact demo_yjs pg_log pg_catalog storage_store (\<lambda>_. None) ''b'' 2 (world demo_system) = (r, w')"
    by fastforce
  then have "\<nexists>res. r = Inr (Some res)"
    by (auto simp: compact_def Let_def put_with_def storage_store_def split: if_splits)
  from failed_compaction_is_harmless [OF ok c this] show ?thesis by (simp add: c)
qed

end
