(* ===== verification/Cluster.thy ===== *)
theory Cluster
  imports Protocol
begin

text \<open>
  What the nodes of the realtime cluster share (\<open>apps/realtime/src/pubsub/\<close>): the envelopes of the bus and
  their codec (\<open>board-bus.ts\<close>), the in-process bus, and the owner lock of a board, in memory
  (\<open>owner-lock.ts\<close>) and on Redis with its lease (\<open>redis-owner-lock.ts\<close>). The locale \<open>owner_lock\<close> is what the
  room relies on. Redis commands and scripts are atomic; \<open>EX\<close> is an expiry time in seconds.
\<close>

subsection \<open>The bus\<close>

datatype BusKind = UPDATE | BUS_AWARENESS | BUS_EPHEMERAL | SAVED | STATE_REQUEST

definition BUS_KINDS :: "BusKind list" where
  "BUS_KINDS = [UPDATE, BUS_AWARENESS, BUS_EPHEMERAL, SAVED, STATE_REQUEST]"

record BusEnvelope =
  env_node :: string
  env_kind :: BusKind
  env_payload :: bytes
  env_seq :: nat

definition encodeEnvelope :: "lib0 \<Rightarrow> BusEnvelope \<Rightarrow> bytes" where
  "encodeEnvelope L e = writeVarUint L (index_of BUS_KINDS (env_kind e)) @ writeVarString L (env_node e) @
     writeVarUint L (env_seq e) @ writeVarUint8Array L (env_payload e)"

definition isBusKind :: "nat \<Rightarrow> bool" where
  "isBusKind n \<longleftrightarrow> n < length BUS_KINDS"

definition decodeEnvelope :: "lib0 \<Rightarrow> bytes \<Rightarrow> BusEnvelope option" where
  "decodeEnvelope L d =
     (case readVarUint L d of
        None \<Rightarrow> None
      | Some (kind, d) \<Rightarrow>
          if \<not> isBusKind kind then None
          else case and_then (readVarString L d) (\<lambda>n d. and_then (readVarUint L d) (\<lambda>s d.
                 and_then (readVarUint8Array L d) (\<lambda>p d. Some ((n, s, p), d)))) of
              None \<Rightarrow> None
            | Some ((n, s, p), _) \<Rightarrow> Some \<lparr> env_node = n, env_kind = BUS_KINDS ! kind, env_payload = p, env_seq = s \<rparr>)"

text \<open>
  The in-process bus: the subscribed handlers of every board by an identity each. Publishing goes
  through the codec and reaches every handler of the board, the publisher's own too.
\<close>

type_synonym bus_handlers = "string \<rightharpoonup> nat list"

definition bus_publish :: "lib0 \<Rightarrow> bus_handlers \<Rightarrow> string \<Rightarrow> BusEnvelope \<Rightarrow> (nat \<times> BusEnvelope) list" where
  "bus_publish L handlers b e =
     concat (map (\<lambda>h. case decodeEnvelope L (encodeEnvelope L e) of None \<Rightarrow> [] | Some d \<Rightarrow> [(h, d)])
       (get_or [] handlers b))"

definition bus_subscribe :: "bus_handlers \<Rightarrow> string \<Rightarrow> nat \<Rightarrow> bus_handlers" where
  "bus_subscribe handlers b h = (let s = get_or [] handlers b in handlers(b \<mapsto> if h \<in> set s then s else s @ [h]))"

definition bus_unsubscribe :: "bus_handlers \<Rightarrow> string \<Rightarrow> nat \<Rightarrow> bus_handlers" where
  "bus_unsubscribe handlers b h =
     (let s = filter (\<lambda>x. x \<noteq> h) (get_or [] handlers b) in handlers(b := if s = [] then None else Some s))"

text \<open>The Redis channels of a board, and the board of a channel.\<close>

definition boardChannel :: "string \<Rightarrow> string" where "boardChannel b = ''hb:board:'' @ b"
definition awarenessChannel :: "string \<Rightarrow> string" where "awarenessChannel b = ''hb:aware:'' @ b"

definition publishChannel :: "string \<Rightarrow> BusEnvelope \<Rightarrow> string" where
  "publishChannel b e =
     (if env_kind e = UPDATE \<or> env_kind e = SAVED then boardChannel b else awarenessChannel b)"

definition boardIdFrom :: "string \<Rightarrow> string option" where
  "boardIdFrom c =
     (let rest = drop 9 c
      in if take 9 c \<in> {''hb:board:'', ''hb:aware:''} \<and> rest \<noteq> [] \<and> CHR 0x0A \<notin> set rest \<and> CHR 0x0D \<notin> set rest
         then Some rest else None)"

lemma bus_kind_index: "index_of BUS_KINDS k < length BUS_KINDS \<and> BUS_KINDS ! index_of BUS_KINDS k = k"
  by (cases k) (simp_all add: BUS_KINDS_def)

text \<open>
  What is published on a board's bus reaches exactly the handlers subscribed to that board, each once
  and unchanged, whatever its kind; and on Redis every kind travels on a channel that maps back to the
  board.
\<close>

theorem bus_delivers:
  assumes "lib0_ok L"
  shows "bus_publish L handlers b e = map (\<lambda>h. (h, e)) (get_or [] handlers b) \<and>
    (b \<noteq> [] \<and> CHR 0x0A \<notin> set b \<and> CHR 0x0D \<notin> set b \<longrightarrow> boardIdFrom (publishChannel b e) = Some b) \<and>
    get_or [] (bus_unsubscribe (bus_subscribe handlers b h) b h) b = filter (\<lambda>x. x \<noteq> h) (get_or [] handlers b)"
proof (intro conjI impI)
  have "decodeEnvelope L (encodeEnvelope L e) = Some e"
    using bus_kind_index [of "env_kind e"]
    by (simp add: decodeEnvelope_def encodeEnvelope_def lib0_laws [OF assms] isBusKind_def and_then_def
        lib0_laws(2) [OF assms, where rest = "[]", simplified])
  then show "bus_publish L handlers b e = map (\<lambda>h. (h, e)) (get_or [] handlers b)"
    by (simp add: bus_publish_def)
qed (auto simp: boardIdFrom_def publishChannel_def boardChannel_def awarenessChannel_def Let_def
    bus_subscribe_def bus_unsubscribe_def get_or_def split: option.split)

theorem bus_delivers_witness:
  "bus_publish leb [''b1'' \<mapsto> [4, 5]] ''b1'' \<lparr> env_node = ''n1'', env_kind = SAVED, env_payload = [], env_seq = 300 \<rparr> =
     [(4, \<lparr> env_node = ''n1'', env_kind = SAVED, env_payload = [], env_seq = 300 \<rparr>),
      (5, \<lparr> env_node = ''n1'', env_kind = SAVED, env_payload = [], env_seq = 300 \<rparr>)]"
  using bus_delivers [OF leb_ok, of "[''b1'' \<mapsto> [4, 5]]" "''b1''"] by (simp add: get_or_def)

subsection \<open>The owner lock\<close>

definition OWNER_LEASE_SECONDS :: epoch_s where "OWNER_LEASE_SECONDS = 30"

type_synonym mem_lock = "string \<rightharpoonup> string"

definition mem_acquire :: "epoch_s \<Rightarrow> mem_lock \<Rightarrow> string \<Rightarrow> string \<Rightarrow> bool \<times> mem_lock" where
  "mem_acquire now w n b =
     (case w b of
        None \<Rightarrow> (True, w(b \<mapsto> n))
      | Some holder \<Rightarrow> if holder \<noteq> n then (False, w) else (True, w(b \<mapsto> n)))"

definition mem_renew :: "epoch_s \<Rightarrow> mem_lock \<Rightarrow> string \<Rightarrow> string \<Rightarrow> bool \<times> mem_lock" where
  "mem_renew now w n b = (w b = Some n, w)"

definition mem_release :: "epoch_s \<Rightarrow> mem_lock \<Rightarrow> string \<Rightarrow> string \<Rightarrow> mem_lock" where
  "mem_release now w n b = (if w b = Some n then w(b := None) else w)"

text \<open>Redis: the value of a key with its expiry time.\<close>

type_synonym redis_lock = "string \<rightharpoonup> string \<times> epoch_s"

definition redis_get :: "epoch_s \<Rightarrow> redis_lock \<Rightarrow> string \<Rightarrow> string option" where
  "redis_get now w b = (case w b of Some (n, expiry) \<Rightarrow> if now < expiry then Some n else None | None \<Rightarrow> None)"

definition redis_acquire :: "epoch_s \<Rightarrow> redis_lock \<Rightarrow> string \<Rightarrow> string \<Rightarrow> bool \<times> redis_lock" where
  "redis_acquire now w n b =
     (if redis_get now w b = None then (True, w(b \<mapsto> (n, now + OWNER_LEASE_SECONDS)))
      else (redis_get now w b = Some n, w))"

definition redis_renew :: "epoch_s \<Rightarrow> redis_lock \<Rightarrow> string \<Rightarrow> string \<Rightarrow> bool \<times> redis_lock" where
  "redis_renew now w n b =
     (if redis_get now w b = Some n then (True, w(b \<mapsto> (n, now + OWNER_LEASE_SECONDS))) else (False, w))"

definition redis_release :: "epoch_s \<Rightarrow> redis_lock \<Rightarrow> string \<Rightarrow> string \<Rightarrow> redis_lock" where
  "redis_release now w n b = (if redis_get now w b = Some n then w(b := None) else w)"

text \<open>What the room relies on, over the node that holds a board at a time.\<close>

locale owner_lock =
  fixes acquire renew :: "epoch_s \<Rightarrow> 'w \<Rightarrow> string \<Rightarrow> string \<Rightarrow> bool \<times> 'w"
    and release :: "epoch_s \<Rightarrow> 'w \<Rightarrow> string \<Rightarrow> string \<Rightarrow> 'w"
    and holder :: "epoch_s \<Rightarrow> 'w \<Rightarrow> string \<Rightarrow> string option"
  assumes acquire_law: "acquire now w n b = (r, w') \<Longrightarrow>
      r = (holder now w b = None \<or> holder now w b = Some n) \<and>
      holder now w' = (if r then (holder now w)(b \<mapsto> n) else holder now w)"
    and renew_law: "renew now w n b = (r, w') \<Longrightarrow>
      r = (holder now w b = Some n) \<and> holder now w' = holder now w"
    and release_law: "holder now (release now w n b) =
      (if holder now w b = Some n then (holder now w)(b := None) else holder now w)"
    and holder_later: "now \<le> later \<Longrightarrow> holder later w b = Some n \<Longrightarrow> holder now w b = Some n"
begin

text \<open>Of two nodes asking at the same moment, one after the other, at most one is told it owns a board.\<close>

lemma one_owner:
  assumes "acquire now w n b = (True, w1)" "acquire now w1 m b = (r, w2)" "n \<noteq> m"
  shows "\<not> r \<and> \<not> fst (renew now w1 m b)"
  using acquire_law [OF assms(1)] acquire_law [OF assms(2)] assms(3)
    renew_law [of now w1 m b "fst (renew now w1 m b)" "snd (renew now w1 m b)"]
  by auto

lemma release_keeps_others: "m \<noteq> n \<Longrightarrow> holder now w b = Some m \<Longrightarrow> holder now (release now w n b) b = Some m"
  by (simp add: release_law)

lemma release_then_acquire:
  assumes "holder now w b = Some n" "acquire now (release now w n b) m b = (r, w')"
  shows "r"
  using acquire_law [OF assms(2)] assms(1) by (simp add: release_law)

end

interpretation mem_lock: owner_lock mem_acquire mem_renew mem_release "\<lambda>_ w. w"
  by unfold_locales
    (auto simp: mem_acquire_def mem_renew_def mem_release_def fun_upd_triv split: option.splits if_splits)

lemma redis_get_upd:
  "redis_get now (w(b \<mapsto> (n, expiry))) = (redis_get now w)(b := if now < expiry then Some n else None)"
  "redis_get now (w(b := None)) = (redis_get now w)(b := None)"
  by (rule ext, simp add: redis_get_def)+

interpretation redis_lock: owner_lock redis_acquire redis_renew redis_release redis_get
proof (unfold_locales, goal_cases)
  case (1 now w n b r w')
  then show ?case
    by (auto simp: redis_acquire_def redis_get_upd OWNER_LEASE_SECONDS_def fun_upd_triv split: if_splits)
next
  case (2 now w n b r w')
  then show ?case
    by (auto simp: redis_renew_def redis_get_upd OWNER_LEASE_SECONDS_def fun_upd_triv split: if_splits)
next
  case (3 now w n b)
  show ?case by (simp add: redis_release_def redis_get_upd)
next
  case (4 now later w b n)
  then show ?case by (auto simp: redis_get_def split: option.splits if_splits)
qed

subsection \<open>The lease\<close>

datatype LockCall = Acquire string | Renew string | Release string

fun lock_call :: "epoch_s \<Rightarrow> redis_lock \<Rightarrow> string \<Rightarrow> LockCall \<Rightarrow> bool \<times> redis_lock" where
  "lock_call now w b (Acquire n) = redis_acquire now w n b"
| "lock_call now w b (Renew n) = redis_renew now w n b"
| "lock_call now w b (Release n) = (False, redis_release now w n b)"

fun caller :: "LockCall \<Rightarrow> string" where
  "caller (Acquire n) = n" | "caller (Renew n) = n" | "caller (Release n) = n"

text \<open>The answers to a sequence of calls about one board, each at its time.\<close>

fun lock_run :: "redis_lock \<Rightarrow> string \<Rightarrow> (epoch_s \<times> LockCall) list \<Rightarrow> bool list" where
  "lock_run w b [] = []"
| "lock_run w b ((t, c) # cs) = (let (r, w') = lock_call t w b c in r # lock_run w' b cs)"

lemma lease_run:
  assumes "w b = Some (n, e)" "t + OWNER_LEASE_SECONDS \<le> e"
    and "\<forall>(s, c) \<in> set cs. t \<le> s \<and> s < t + OWNER_LEASE_SECONDS \<and> c \<noteq> Release n"
    and "i < length cs" "caller (snd (cs ! i)) \<noteq> n"
  shows "\<not> lock_run w b cs ! i"
  using assms
proof (induction cs arbitrary: w e i)
  case (Cons x cs)
  obtain s c where x: "x = (s, c)" by (cases x)
  obtain r w' where call: "lock_call s w b c = (r, w')" by (cases "lock_call s w b c")
  have s: "t \<le> s" "s < t + OWNER_LEASE_SECONDS" "c \<noteq> Release n" using Cons.prems(3) x by auto
  have "(caller c \<noteq> n \<longrightarrow> \<not> r) \<and> (\<exists>e'. w' b = Some (n, e') \<and> t + OWNER_LEASE_SECONDS \<le> e')"
    using call s Cons.prems(1,2) by (cases c)
      (auto simp: redis_acquire_def redis_renew_def redis_release_def redis_get_def split: if_splits)
  then obtain e' where e': "caller c \<noteq> n \<longrightarrow> \<not> r" "w' b = Some (n, e')" "t + OWNER_LEASE_SECONDS \<le> e'" by blast
  show ?case
  proof (cases i)
    case 0
    then show ?thesis using e'(1) Cons.prems(5) x call by simp
  next
    case (Suc j)
    have "\<not> lock_run w' b cs ! j" using Cons.prems(3-5) Suc by (intro Cons.IH [where e = e' and w = w' and i = j, OF e'(2,3)]) auto
    then show ?thesis using Suc x call by simp
  qed
qed simp

text \<open>
  A lease is exclusive: from the moment a node renewed its lock on a board, or acquired a free one,
  every other node that asks for the board within the lease is refused, whatever anyone calls meanwhile,
  unless the owner itself releases it.
\<close>

theorem lease_is_exclusive:
  assumes "(redis_renew t w n b = (True, w') \<or> redis_get t w b = None \<and> redis_acquire t w n b = (True, w'))"
    and "\<forall>(s, c) \<in> set cs. t \<le> s \<and> s < t + OWNER_LEASE_SECONDS \<and> c \<noteq> Release n"
    and "i < length cs" "caller (snd (cs ! i)) \<noteq> n"
  shows "\<not> lock_run w' b cs ! i"
proof -
  have "w' b = Some (n, t + OWNER_LEASE_SECONDS)"
    using assms(1) by (auto simp: redis_renew_def redis_acquire_def split: if_splits)
  then show ?thesis using assms(2-4) by (intro lease_run [where e = "t + OWNER_LEASE_SECONDS"]) auto
qed

theorem lease_is_exclusive_witness:
  "\<not> lock_run [''b1'' \<mapsto> (''n1'', 130)] ''b1'' [(110, Renew ''n1''), (129, Acquire ''n2'')] ! 1"
  using lease_is_exclusive [of 100 Map.empty "''n1''" "''b1''" "[''b1'' \<mapsto> (''n1'', 130)]"
      "[(110, Renew ''n1''), (129, Acquire ''n2'')]" 1]
  by (simp add: redis_get_def redis_acquire_def OWNER_LEASE_SECONDS_def)

text \<open>
  Acquiring a lock one already holds says yes without starting a new lease: a node that comes back to a
  board late in its old lease is told it owns it, and so is another node moments later, before the first
  one's next renewal is due.
\<close>

lemma reacquire_keeps_old_expiry:
  "lock_run [''b1'' \<mapsto> (''n1'', 130)] ''b1'' [(129, Acquire ''n1''), (131, Acquire ''n2'')] = [True, True]"
  by (simp add: redis_get_def redis_acquire_def OWNER_LEASE_SECONDS_def)

end
