(* ===== verification/Presence.thy ===== *)
theory Presence
  imports Protocol
begin

text \<open>
  The presence register of a room (\<open>apps/realtime/src/awareness.ts\<close>): which client ids belong to which
  session of this node, over the awareness protocol of Yjs, which is a parameter. Sessions are named by
  numbers.
\<close>

subsection \<open>Awareness\<close>

text \<open>
  Applying an update reports the clients it added, updated and removed, or throws (\<open>None\<close>), perhaps
  after changing some states; removing clients reports those that were there.
\<close>

record 'p Awareness =
  aw_apply :: "'p \<Rightarrow> bytes \<Rightarrow> (nat list \<times> nat list \<times> nat list) option \<times> 'p"
  aw_remove :: "'p \<Rightarrow> nat list \<Rightarrow> nat list \<times> 'p"
  aw_encode :: "'p \<Rightarrow> nat list \<Rightarrow> bytes"
  aw_clients :: "'p \<Rightarrow> nat list"

datatype PresenceOrigin = FromSession nat | Remote | Leave

record 'p RoomPresence =
  pr_aw :: 'p
  pr_owned :: "nat \<rightharpoonup> nat list"
  pr_owner :: "nat \<rightharpoonup> nat"

datatype PresenceEffect = PresenceBroadcast bytes "nat option" | PresencePublish bytes

subsection \<open>The register\<close>

definition new_presence :: "'p \<Rightarrow> 'p RoomPresence" where
  "new_presence p = \<lparr> pr_aw = p, pr_owned = Map.empty, pr_owner = Map.empty \<rparr>"

definition set_add :: "'a list \<Rightarrow> 'a \<Rightarrow> 'a list" where
  "set_add xs x = (if x \<in> set xs then xs else xs @ [x])"

definition claim :: "nat \<Rightarrow> nat \<Rightarrow> (nat \<rightharpoonup> nat list) \<times> (nat \<rightharpoonup> nat) \<Rightarrow> (nat \<rightharpoonup> nat list) \<times> (nat \<rightharpoonup> nat)" where
  "claim s c reg = ((fst reg)(s \<mapsto> set_add (get_or [] (fst reg) s) c), (snd reg)(c \<mapsto> s))"

definition unclaim :: "nat \<Rightarrow> nat \<Rightarrow> (nat \<rightharpoonup> nat list) \<times> (nat \<rightharpoonup> nat) \<Rightarrow> (nat \<rightharpoonup> nat list) \<times> (nat \<rightharpoonup> nat)" where
  "unclaim s c reg = ((fst reg)(s \<mapsto> filter (\<lambda>x. x \<noteq> c) (get_or [] (fst reg) s)),
     if snd reg c = Some s then (snd reg)(c := None) else snd reg)"

text \<open>The listener of awareness updates.\<close>

definition on_presence ::
  "'p Awareness \<Rightarrow> 'p RoomPresence \<Rightarrow> PresenceOrigin \<Rightarrow> nat list \<times> nat list \<times> nat list \<Rightarrow>
   'p RoomPresence \<times> PresenceEffect list" where
  "on_presence A st origin ids =
     (let (added, updated, removed) = ids; changed = added @ updated @ removed
      in if changed = [] then (st, [])
         else
           let st' = (case origin of
                 FromSession s \<Rightarrow>
                   let reg = (pr_owned st, pr_owner st);
                       reg = ((fst reg)(s \<mapsto> get_or [] (fst reg) s), snd reg);
                       reg = fold (claim s) (added @ updated) reg;
                       reg = fold (unclaim s) removed reg
                   in st\<lparr>pr_owned := fst reg, pr_owner := snd reg\<rparr>
               | _ \<Rightarrow> st);
               update = aw_encode A (pr_aw st) changed
           in (st', PresenceBroadcast update (case origin of FromSession s \<Rightarrow> Some s | _ \<Rightarrow> None) #
                (if origin = Remote then [] else [PresencePublish update])))"

definition presence_apply ::
  "'p Awareness \<Rightarrow> 'p RoomPresence \<Rightarrow> PresenceOrigin \<Rightarrow> bytes \<Rightarrow> 'p RoomPresence \<times> PresenceEffect list" where
  "presence_apply A st origin p =
     (case aw_apply A (pr_aw st) p of
        (None, aw) \<Rightarrow> (st\<lparr>pr_aw := aw\<rparr>, [])
      | (Some ids, aw) \<Rightarrow> on_presence A (st\<lparr>pr_aw := aw\<rparr>) origin ids)"

definition presence_receive :: "'p Awareness \<Rightarrow> 'p RoomPresence \<Rightarrow> nat \<Rightarrow> bytes \<Rightarrow> 'p RoomPresence \<times> PresenceEffect list" where
  "presence_receive A st s p = presence_apply A st (FromSession s) p"

definition presence_receiveRemote :: "'p Awareness \<Rightarrow> 'p RoomPresence \<Rightarrow> bytes \<Rightarrow> 'p RoomPresence \<times> PresenceEffect list" where
  "presence_receiveRemote A st p = presence_apply A st Remote p"

definition ownsClient :: "'p RoomPresence \<Rightarrow> nat \<Rightarrow> nat \<Rightarrow> bool" where
  "ownsClient st s c \<longleftrightarrow> (case pr_owner st c of None \<Rightarrow> True | Some holder \<Rightarrow> holder = s)"

definition presence_forget :: "'p Awareness \<Rightarrow> 'p RoomPresence \<Rightarrow> nat \<Rightarrow> 'p RoomPresence \<times> PresenceEffect list" where
  "presence_forget A st s =
     (let st1 = st\<lparr>pr_owned := (pr_owned st)(s := None)\<rparr>
      in case pr_owned st s of
           None \<Rightarrow> (st1, [])
         | Some ids \<Rightarrow>
             if ids = [] then (st1, [])
             else
               let st2 = st1\<lparr>pr_owner := (\<lambda>c. if c \<in> set ids then None else pr_owner st c)\<rparr>;
                   (removed, aw) = aw_remove A (pr_aw st2) ids
               in on_presence A (st2\<lparr>pr_aw := aw\<rparr>) Leave ([], [], removed))"

definition presence_snapshot :: "'p Awareness \<Rightarrow> 'p RoomPresence \<Rightarrow> bytes option" where
  "presence_snapshot A st =
     (let clients = aw_clients A (pr_aw st) in if clients = [] then None else Some (aw_encode A (pr_aw st) clients))"

subsection \<open>Runs\<close>

datatype PresenceCall = Receive nat bytes | ReceiveRemote bytes | Forget nat

fun presence_call :: "'p Awareness \<Rightarrow> 'p RoomPresence \<Rightarrow> PresenceCall \<Rightarrow> 'p RoomPresence \<times> PresenceEffect list" where
  "presence_call A st (Receive s p) = presence_receive A st s p"
| "presence_call A st (ReceiveRemote p) = presence_receiveRemote A st p"
| "presence_call A st (Forget s) = presence_forget A st s"

definition presence_run :: "'p Awareness \<Rightarrow> 'p RoomPresence \<Rightarrow> PresenceCall list \<Rightarrow> 'p RoomPresence" where
  "presence_run A st calls = fold (\<lambda>c st. fst (presence_call A st c)) calls st"

text \<open>The sessions whose own updates reached the register since they were last forgotten.\<close>

definition present :: "PresenceCall list \<Rightarrow> nat set" where
  "present calls = fold (\<lambda>c S. case c of Receive s p \<Rightarrow> insert s S | ReceiveRemote p \<Rightarrow> S | Forget s \<Rightarrow> S - {s}) calls {}"

definition register_ok :: "(nat \<rightharpoonup> nat list) \<times> (nat \<rightharpoonup> nat) \<Rightarrow> bool" where
  "register_ok reg \<longleftrightarrow> (\<forall>c s. snd reg c = Some s \<longrightarrow> (\<exists>ids. fst reg s = Some ids \<and> c \<in> set ids))"

lemma claim_ok: "register_ok reg \<Longrightarrow> register_ok (claim s c reg)"
  by (fastforce simp: register_ok_def claim_def set_add_def get_or_def split: option.splits if_splits)

lemma unclaim_ok: "register_ok reg \<Longrightarrow> register_ok (unclaim s c reg)"
  by (fastforce simp: register_ok_def unclaim_def get_or_def split: option.splits if_splits)

lemma fold_claim_ok: "register_ok reg \<Longrightarrow> register_ok (fold (claim s) cs reg)"
  by (induction cs arbitrary: reg) (simp_all add: claim_ok)

lemma fold_unclaim_ok: "register_ok reg \<Longrightarrow> register_ok (fold (unclaim s) cs reg)"
  by (induction cs arbitrary: reg) (simp_all add: unclaim_ok)

lemma claim_dom: "dom (fst (claim s c reg)) = insert s (dom (fst reg))"
  by (simp add: claim_def)

lemma fold_claim_dom: "s \<in> dom (fst reg) \<Longrightarrow> dom (fst (fold (claim s) cs reg)) = dom (fst reg)"
  by (induction cs arbitrary: reg) (auto simp: claim_dom)

lemma fold_unclaim_dom: "s \<in> dom (fst reg) \<Longrightarrow> dom (fst (fold (unclaim s) cs reg)) = dom (fst reg)"
  by (induction cs arbitrary: reg) (auto simp: unclaim_def)

definition presence_ok :: "'p RoomPresence \<Rightarrow> nat set \<Rightarrow> bool" where
  "presence_ok st live \<longleftrightarrow> register_ok (pr_owned st, pr_owner st) \<and> dom (pr_owned st) \<subseteq> live"

lemma on_presence_ok:
  assumes "presence_ok st live"
  shows "presence_ok (fst (on_presence A st origin ids)) (case origin of FromSession s \<Rightarrow> insert s live | _ \<Rightarrow> live)"
proof (cases origin)
  case (FromSession s)
  obtain added updated removed where ids: "ids = (added, updated, removed)" by (cases ids)
  let ?r0 = "((pr_owned st)(s \<mapsto> get_or [] (pr_owned st) s), pr_owner st)"
  let ?r1 = "fold (claim s) (added @ updated) ?r0"
  let ?r2 = "fold (unclaim s) removed ?r1"
  have r0: "register_ok ?r0"
    using assms by (fastforce simp: presence_ok_def register_ok_def get_or_def split: option.splits)
  have "dom (fst ?r1) = dom (fst ?r0)" by (rule fold_claim_dom) simp
  moreover from this have "dom (fst ?r2) = dom (fst ?r1)" by (intro fold_unclaim_dom) simp
  ultimately have "dom (fst ?r2) \<subseteq> insert s live" using assms by (auto simp: presence_ok_def)
  moreover have "register_ok ?r2" by (intro fold_unclaim_ok fold_claim_ok r0)
  ultimately show ?thesis using assms
    by (auto simp: on_presence_def Let_def ids FromSession presence_ok_def)
qed (use assms in \<open>auto simp: on_presence_def Let_def presence_ok_def split: prod.splits\<close>)

lemma presence_apply_ok:
  assumes "presence_ok st live"
  shows "presence_ok (fst (presence_apply A st origin p)) (case origin of FromSession s \<Rightarrow> insert s live | _ \<Rightarrow> live)"
proof -
  obtain r aw where r: "aw_apply A (pr_aw st) p = (r, aw)" by (cases "aw_apply A (pr_aw st) p")
  have aw: "presence_ok (st\<lparr>pr_aw := aw\<rparr>) live" using assms by (simp add: presence_ok_def)
  show ?thesis
  proof (cases r)
    case None
    then show ?thesis using aw r
      by (auto simp: presence_apply_def presence_ok_def split: PresenceOrigin.splits)
  next
    case (Some ids)
    with on_presence_ok [OF aw] r show ?thesis by (simp add: presence_apply_def)
  qed
qed

lemma presence_forget_ok:
  assumes "presence_ok st live"
  shows "presence_ok (fst (presence_forget A st s)) (live - {s})"
proof (cases "pr_owned st s")
  case None
  moreover from this have "s \<notin> dom (pr_owned st)" by auto
  ultimately show ?thesis using assms
    by (auto simp: presence_forget_def presence_ok_def fun_upd_idem)
next
  case (Some ids)
  let ?st = "st\<lparr>pr_owned := (pr_owned st)(s := None),
    pr_owner := (\<lambda>c. if c \<in> set ids then None else pr_owner st c)\<rparr>"
  have "presence_ok ?st (live - {s})"
    using assms Some by (fastforce simp: presence_ok_def register_ok_def)
  then have ok: "presence_ok (?st\<lparr>pr_aw := aw\<rparr>) (live - {s})" for aw by (simp add: presence_ok_def)
  show ?thesis
  proof (cases "ids = []")
    case True
    with ok [of "pr_aw st"] Some show ?thesis by (simp add: presence_forget_def presence_ok_def)
  next
    case False
    with on_presence_ok [OF ok, where origin = Leave and A = A] Some show ?thesis
      by (auto simp: presence_forget_def Let_def split: prod.splits)
  qed
qed

lemma presence_run_snoc: "presence_run A st (calls @ [c]) = fst (presence_call A (presence_run A st calls) c)"
  and present_snoc: "present (calls @ [c]) =
    (case c of Receive s p \<Rightarrow> insert s (present calls) | ReceiveRemote p \<Rightarrow> present calls | Forget s \<Rightarrow> present calls - {s})"
  by (simp add: presence_run_def) (cases c; simp add: present_def)

lemma presence_run_ok: "presence_ok (presence_run A (new_presence p) calls) (present calls)"
proof (induction calls rule: rev_induct)
  case Nil
  show ?case by (simp add: presence_run_def present_def new_presence_def presence_ok_def register_ok_def)
next
  case (snoc c calls)
  show ?case
  proof (cases c)
    case (Receive s p)
    with presence_apply_ok [OF snoc.IH, of A "FromSession s" p] show ?thesis
      by (simp add: presence_run_snoc present_snoc presence_receive_def)
  next
    case (ReceiveRemote p)
    with presence_apply_ok [OF snoc.IH, of A Remote p] show ?thesis
      by (simp add: presence_run_snoc present_snoc presence_receiveRemote_def)
  next
    case (Forget s)
    with presence_forget_ok [OF snoc.IH, of A s] show ?thesis
      by (simp add: presence_run_snoc present_snoc)
  qed
qed

text \<open>
  C35. Presence belongs to live sessions of this node. After any calls, every owned client id is owned by a
  session that announced presence itself and has not left since: updates from other nodes make nobody an
  owner, and a session that left owns nothing. Updates from the bus are never published again, and a
  leaving session's clients are announced as removed to everybody and to the other nodes.
\<close>

theorem presence_belongs_to_live_sessions:
  "(pr_owner (presence_run A (new_presence p) calls) c = Some s \<longrightarrow> s \<in> present calls) \<and>
   (\<forall>st q e. e \<in> set (snd (presence_receiveRemote A st q)) \<longrightarrow> (\<exists>b. e = PresenceBroadcast b None)) \<and>
   (\<forall>st ids removed aw. pr_owned st s = Some ids \<and> ids \<noteq> [] \<and> aw_remove A (pr_aw st) ids = (removed, aw) \<and> removed \<noteq> [] \<longrightarrow>
      snd (presence_forget A st s) =
        [PresenceBroadcast (aw_encode A aw removed) None, PresencePublish (aw_encode A aw removed)])"
proof (intro conjI allI impI)
  assume "pr_owner (presence_run A (new_presence p) calls) c = Some s"
  then show "s \<in> present calls"
    using presence_run_ok [of A p calls] by (fastforce simp: presence_ok_def register_ok_def)
next
  fix st q e
  assume "e \<in> set (snd (presence_receiveRemote A st q))"
  then show "\<exists>b. e = PresenceBroadcast b None"
    by (auto simp: presence_receiveRemote_def presence_apply_def on_presence_def Let_def
        split: option.splits prod.splits if_splits)
qed (simp add: presence_forget_def on_presence_def Let_def)

text \<open>
  The owner of a client id is whoever announced it last: a session that announces another one's id takes
  it over, and from then on the other one is the stranger.
\<close>

lemma presence_takeover:
  assumes "aw_apply A (pr_aw st) p = (Some ([], [c], []), aw)" "a \<noteq> b"
  shows "ownsClient (fst (presence_receive A st b p)) b c \<and> \<not> ownsClient (fst (presence_receive A st b p)) a c"
  using assms by (simp add: presence_receive_def presence_apply_def on_presence_def claim_def ownsClient_def Let_def)

text \<open>A register of bytes: an update names a client in each byte; known ones are updated.\<close>

definition demo_awareness :: "nat list Awareness" where
  "demo_awareness = \<lparr> aw_apply = (\<lambda>p b. let cs = map unat b in
       (Some (filter (\<lambda>c. c \<notin> set p) cs, filter (\<lambda>c. c \<in> set p) cs, []), fold (\<lambda>c p. set_add p c) cs p)),
     aw_remove = (\<lambda>p cs. (filter (\<lambda>c. c \<in> set p) cs, filter (\<lambda>c. c \<notin> set cs) p)),
     aw_encode = (\<lambda>p cs. map word_of_nat cs), aw_clients = (\<lambda>p. p) \<rparr>"

theorem presence_belongs_to_live_sessions_witness:
  "pr_owner (presence_run demo_awareness (new_presence []) [Receive 1 [7], ReceiveRemote [9], Receive 2 [8]]) 8 = Some 2 \<and>
   2 \<in> present [Receive 1 [7], ReceiveRemote [9], Receive 2 [8]]"
proof -
  have "pr_owner (presence_run demo_awareness (new_presence []) [Receive 1 [7], ReceiveRemote [9], Receive 2 [8]]) 8 = Some 2"
    by code_simp
  with presence_belongs_to_live_sessions [of demo_awareness "[]" "[Receive 1 [7], ReceiveRemote [9], Receive 2 [8]]" 8 2]
  show ?thesis by blast
qed

end
