(* ===== verification/Room.thy ===== *)
theory Room
  imports Cluster Presence Compaction
begin

text \<open>
  A live room of the realtime server (\<open>apps/realtime/src/room.ts\<close>): its state, and one function per
  event it reacts to. A handler returns the new room and the effects in their order: messages to
  sessions, envelopes for the bus, an append to the update log, a compaction. Yjs, the sync protocol
  and awareness are parameters; a session is named by a number.
\<close>

subsection \<open>What a room is built on\<close>

text \<open>
  Reading a sync message answers with a reply (perhaps empty), the update event the document fires, if
  any, and the new document; \<open>None\<close> is an exception. \<open>s_decode\<close> is the number of structs and of clients
  in the delete set of an update.
\<close>

record 'd SyncProtocol =
  s_read :: "'d \<Rightarrow> bytes \<Rightarrow> (bytes \<times> bytes option \<times> 'd) option"
  s_step1 :: "'d \<Rightarrow> bytes"
  s_step2 :: "'d \<Rightarrow> bytes"
  s_update :: "bytes \<Rightarrow> bytes"
  s_event :: "'d \<Rightarrow> bytes \<Rightarrow> bytes option"
  s_decode :: "bytes \<Rightarrow> (nat \<times> nat) option"

definition messageYjsSyncStep1 :: nat where "messageYjsSyncStep1 = 0"
definition messageYjsSyncStep2 :: nat where "messageYjsSyncStep2 = 1"
definition messageYjsUpdate :: nat where "messageYjsUpdate = 2"

lemmas sync_kinds = messageYjsSyncStep1_def messageYjsSyncStep2_def messageYjsUpdate_def

record ('d, 'p) RoomEnv =
  e_yjs :: "('d, bytes) Yjs"
  e_sync :: "'d SyncProtocol"
  e_aw :: "'p Awareness"
  e_lib0 :: lib0
  e_node :: string
  e_log :: bool
  e_bus :: bool
  e_compactor :: "CompactionThresholds option"

text \<open>Documented of \<open>y-protocols/sync\<close>: only the second step and an update change the document.\<close>

definition sync_ok :: "('d, 'p) RoomEnv \<Rightarrow> bool" where
  "sync_ok E \<longleftrightarrow> (\<forall>d p n rest reply ev d'. readVarUint (e_lib0 E) p = Some (n, rest) \<longrightarrow>
     n \<notin> {messageYjsSyncStep2, messageYjsUpdate} \<longrightarrow> s_read (e_sync E) d p = Some (reply, ev, d') \<longrightarrow>
     ev = None \<and> d' = d)"

record Session =
  ses_id :: nat
  ses_sub :: string
  ses_role :: BoardRole

record ('d, 'p) Room =
  rm_board :: string
  rm_doc :: 'd
  rm_sessions :: "Session list"
  rm_idle :: bool
  rm_seq :: nat
  rm_save :: SaveStatus
  rm_compactedSeq :: nat
  rm_compactedAt :: epoch_ms
  rm_compacting :: bool
  rm_presence :: "'p RoomPresence"
  rm_owner :: bool

datatype RoomEffect =
    Send nat HbMessage
  | Relay nat bytes
  | Publish BusEnvelope
  | AppendUpdate bytes "(nat \<times> string) option"
  | CompactTo nat
  | ReleaseLock

text \<open>The author of an update: a client's session and its user, or another node.\<close>

datatype UpdateOrigin = ClientOrigin nat string | BusOrigin

fun author :: "UpdateOrigin \<Rightarrow> (nat \<times> string) option" where
  "author (ClientOrigin s sub) = Some (s, sub)"
| "author BusOrigin = None"

fun role_word :: "BoardRole \<Rightarrow> string" where
  "role_word owner = ''owner''"
| "role_word editor = ''editor''"
| "role_word commenter = ''commenter''"
| "role_word viewer = ''viewer''"

subsection \<open>Sending\<close>

text \<open>\<open>info\<close> with the broadcast of what it returns.\<close>

definition announce :: "('d, 'p) Room \<Rightarrow> SaveStatus \<Rightarrow> ('d, 'p) Room \<times> RoomEffect list" where
  "announce room save =
     (let room' = room\<lparr>rm_save := save\<rparr>; m = HB_ROOM_INFO (length (rm_sessions room)) (rm_seq room) save
      in (room', map (\<lambda>s. Send (ses_id s) m) (rm_sessions room)))"

definition fanoutLocal :: "('d, 'p) RoomEnv \<Rightarrow> ('d, 'p) Room \<Rightarrow> bytes \<Rightarrow> nat option \<Rightarrow> RoomEffect list" where
  "fanoutLocal E room update from =
     map (\<lambda>s. Send (ses_id s) (SYNC (s_update (e_sync E) update)))
       (filter (\<lambda>s. Some (ses_id s) \<noteq> from) (rm_sessions room))"

definition publishToBus :: "('d, 'p) RoomEnv \<Rightarrow> BusKind \<Rightarrow> bytes \<Rightarrow> nat \<Rightarrow> RoomEffect list" where
  "publishToBus E kind p s =
     (if e_bus E then [Publish \<lparr> env_node = e_node E, env_kind = kind, env_payload = p, env_seq = s \<rparr>] else [])"

fun presence_effect :: "('d, 'p) RoomEnv \<Rightarrow> ('d, 'p) Room \<Rightarrow> PresenceEffect \<Rightarrow> RoomEffect list" where
  "presence_effect E room (PresenceBroadcast b except) =
     map (\<lambda>s. Send (ses_id s) (AWARENESS b)) (filter (\<lambda>s. Some (ses_id s) \<noteq> except) (rm_sessions room))"
| "presence_effect E room (PresencePublish b) = publishToBus E BUS_AWARENESS b 0"

definition with_presence ::
  "('d, 'p) RoomEnv \<Rightarrow> ('d, 'p) Room \<Rightarrow> 'p RoomPresence \<times> PresenceEffect list \<Rightarrow> ('d, 'p) Room \<times> RoomEffect list" where
  "with_presence E room r =
     (room\<lparr>rm_presence := fst r\<rparr>, concat (map (presence_effect E room) (snd r)))"

subsection \<open>Persisting\<close>

definition maybeCompact :: "('d, 'p) RoomEnv \<Rightarrow> epoch_ms \<Rightarrow> ('d, 'p) Room \<Rightarrow> ('d, 'p) Room \<times> RoomEffect list" where
  "maybeCompact E now room =
     (case e_compactor E of
        None \<Rightarrow> (room, [])
      | Some T \<Rightarrow>
          if rm_compacting room \<or> \<not> rm_owner room then (room, [])
          else if \<not> shouldCompact T now (int (rm_seq room)) (int (rm_compactedSeq room)) (rm_compactedAt room)
          then (room, [])
          else (room\<lparr>rm_compacting := True\<rparr>, [CompactTo (rm_seq room)]))"

text \<open>The end of a compaction: its result, or an exception or nothing.\<close>

definition compactionEnded :: "epoch_ms \<Rightarrow> ('d, 'p) Room \<Rightarrow> CompactionResult option \<Rightarrow> ('d, 'p) Room" where
  "compactionEnded now room res =
     (case res of
        None \<Rightarrow> room
      | Some r \<Rightarrow> room\<lparr>rm_compactedSeq := res_seqUpto r, rm_compactedAt := now\<rparr>)\<lparr>rm_compacting := False\<rparr>"

text \<open>After the append, or at once without a log.\<close>

definition persisted ::
  "('d, 'p) RoomEnv \<Rightarrow> epoch_ms \<Rightarrow> ('d, 'p) Room \<Rightarrow> bytes \<Rightarrow> (nat \<times> string) option \<Rightarrow> ('d, 'p) Room \<times> RoomEffect list" where
  "persisted E now room update from =
     (let fanout = fanoutLocal E room update (map_option fst from);
          (room1, saves) = announce room saved;
          (room2, compaction) = maybeCompact E now room1
      in (room2, fanout @ saves @ publishToBus E SAVED [] (rm_seq room) @ compaction))"

definition appendEnded ::
  "('d, 'p) RoomEnv \<Rightarrow> epoch_ms \<Rightarrow> ('d, 'p) Room \<Rightarrow> bytes \<Rightarrow> (nat \<times> string) option \<Rightarrow> nat option \<Rightarrow>
   ('d, 'p) Room \<times> RoomEffect list" where
  "appendEnded E now room update from res =
     (case res of
        None \<Rightarrow> announce room unsaved
      | Some s \<Rightarrow> persisted E now (room\<lparr>rm_seq := max (rm_seq room) s\<rparr>) update from)"

definition persistAndFanout ::
  "('d, 'p) RoomEnv \<Rightarrow> epoch_ms \<Rightarrow> ('d, 'p) Room \<Rightarrow> bytes \<Rightarrow> (nat \<times> string) option \<Rightarrow> ('d, 'p) Room \<times> RoomEffect list" where
  "persistAndFanout E now room update from =
     (if \<not> rm_owner room then
        (let fanout = fanoutLocal E room update (map_option fst from)
         in if from \<noteq> None then (let (room1, saves) = announce room saving in (room1, fanout @ saves))
            else (room, fanout))
      else if e_log E then (room, [AppendUpdate update from])
      else persisted E now room update from)"

text \<open>The listener of document updates, for the two origins that do not stop there.\<close>

definition onUpdate ::
  "('d, 'p) RoomEnv \<Rightarrow> epoch_ms \<Rightarrow> ('d, 'p) Room \<Rightarrow> bytes \<Rightarrow> UpdateOrigin \<Rightarrow> ('d, 'p) Room \<times> RoomEffect list" where
  "onUpdate E now room update origin =
     (let publishes = (if author origin \<noteq> None then publishToBus E UPDATE update 0 else []);
          (room', effects) = persistAndFanout E now room update (author origin)
      in (room', publishes @ effects))"

subsection \<open>The bus\<close>

definition handleBus ::
  "('d, 'p) RoomEnv \<Rightarrow> epoch_ms \<Rightarrow> ('d, 'p) Room \<Rightarrow> BusEnvelope \<Rightarrow> ('d, 'p) Room \<times> RoomEffect list" where
  "handleBus E now room env =
     (if env_node env = e_node E then (room, [])
      else case env_kind env of
        UPDATE \<Rightarrow>
          let room' = room\<lparr>rm_doc := y_apply (e_yjs E) (rm_doc room) (env_payload env)\<rparr>
          in (case s_event (e_sync E) (rm_doc room) (env_payload env) of
                None \<Rightarrow> (room', [])
              | Some u \<Rightarrow> onUpdate E now room' u BusOrigin)
      | BUS_AWARENESS \<Rightarrow>
          with_presence E room (presence_receiveRemote (e_aw E) (rm_presence room) (env_payload env))
      | BUS_EPHEMERAL \<Rightarrow> (room, map (\<lambda>s. Relay (ses_id s) (env_payload env)) (rm_sessions room))
      | SAVED \<Rightarrow>
          if env_seq env \<le> rm_seq room then (room, [])
          else announce (room\<lparr>rm_seq := env_seq env\<rparr>) saved
      | STATE_REQUEST \<Rightarrow> (room, publishToBus E UPDATE (y_encode (e_yjs E) (rm_doc room)) 0))"

subsection \<open>Messages of a session\<close>

datatype Thrown = ProtocolError nat | SyncReadError

definition isEmptyUpdate :: "('d, 'p) RoomEnv \<Rightarrow> bytes \<Rightarrow> bool" where
  "isEmptyUpdate E d =
     (case readVarUint8Array (e_lib0 E) d of
        None \<Rightarrow> False
      | Some (u, _) \<Rightarrow>
          (case s_decode (e_sync E) u of None \<Rightarrow> False | Some (structs, ds) \<Rightarrow> structs = 0 \<and> ds = 0))"

definition denyWrite :: "Session \<Rightarrow> RoomEffect list" where
  "denyWrite s = [Send (ses_id s) (HB_PERMISSION (ses_role s)), Send (ses_id s) (HB_ERROR ''FORBIDDEN'' '''')]"

definition handleSync ::
  "('d, 'p) RoomEnv \<Rightarrow> epoch_ms \<Rightarrow> ('d, 'p) Room \<Rightarrow> Session \<Rightarrow> bytes \<Rightarrow>
   Thrown + ('d, 'p) Room \<times> RoomEffect list" where
  "handleSync E now room s p =
     (case readVarUint (e_lib0 E) p of
        None \<Rightarrow> Inl SyncReadError
      | Some (kind, rest) \<Rightarrow>
          if kind \<in> {messageYjsSyncStep2, messageYjsUpdate} \<and> \<not> mayWriteDocument (role_word (ses_role s))
          then (if isEmptyUpdate E rest then Inr (room, []) else Inr (room, denyWrite s))
          else case s_read (e_sync E) (rm_doc room) p of
              None \<Rightarrow> Inl SyncReadError
            | Some (reply, event, d) \<Rightarrow>
                let room' = room\<lparr>rm_doc := d\<rparr>;
                    (room'', effects) = (case event of
                        None \<Rightarrow> (room', [])
                      | Some u \<Rightarrow> onUpdate E now room' u (ClientOrigin (ses_id s) (ses_sub s)))
                in Inr (room'', effects @ (if reply \<noteq> [] then [Send (ses_id s) (SYNC reply)] else [])))"

definition handleMessage ::
  "('d, 'p) RoomEnv \<Rightarrow> epoch_ms \<Rightarrow> ('d, 'p) Room \<Rightarrow> Session \<Rightarrow> bytes \<Rightarrow>
   Thrown + ('d, 'p) Room \<times> RoomEffect list" where
  "handleMessage E now room s data =
     (case decodeMessage (e_lib0 E) data of
        Inl ty \<Rightarrow> Inl (ProtocolError ty)
      | Inr None \<Rightarrow> Inr (room, [])
      | Inr (Some m) \<Rightarrow>
          (case m of
             AWARENESS p \<Rightarrow>
               if mayBroadcastPresence (role_word (ses_role s))
               then Inr (with_presence E room (presence_receive (e_aw E) (rm_presence room) (ses_id s) p))
               else Inr (room, [])
           | HB_EPHEMERAL c p \<Rightarrow>
               if \<not> mayBroadcastPresence (role_word (ses_role s)) then Inr (room, [])
               else if \<not> ownsClient (rm_presence room) (ses_id s) c then Inr (room, [])
               else Inr (room, map (\<lambda>t. Relay (ses_id t) data)
                        (filter (\<lambda>t. ses_id t \<noteq> ses_id s) (rm_sessions room)) @
                      publishToBus E BUS_EPHEMERAL data 0)
           | SYNC p \<Rightarrow> handleSync E now room s p
           | _ \<Rightarrow> Inr (room, [])))"

subsection \<open>Roles, sessions, ownership\<close>

definition applyRoleChange :: "('d, 'p) Room \<Rightarrow> string \<Rightarrow> BoardRole \<Rightarrow> nat \<times> ('d, 'p) Room \<times> RoomEffect list" where
  "applyRoleChange room sub role =
     (let concerned = (\<lambda>s. ses_sub s = sub \<and> ses_role s \<noteq> role)
      in (length (filter concerned (rm_sessions room)),
          room\<lparr>rm_sessions := map (\<lambda>s. if concerned s then s\<lparr>ses_role := role\<rparr> else s) (rm_sessions room)\<rparr>,
          map (\<lambda>s. Send (ses_id s) (HB_PERMISSION role)) (filter concerned (rm_sessions room))))"

text \<open>Joining a room that is in memory.\<close>

definition joinRoom :: "('d, 'p) RoomEnv \<Rightarrow> ('d, 'p) Room \<Rightarrow> Session \<Rightarrow> ('d, 'p) Room \<times> RoomEffect list" where
  "joinRoom E room s =
     (let room1 = room\<lparr>rm_idle := False, rm_sessions := set_add (rm_sessions room) s\<rparr>;
          greeting =
            [Send (ses_id s) (HB_PERMISSION (ses_role s)),
             Send (ses_id s) (SYNC (s_step1 (e_sync E) (rm_doc room1))),
             Send (ses_id s) (SYNC (s_step2 (e_sync E) (rm_doc room1)))] @
            (case presence_snapshot (e_aw E) (rm_presence room1) of
               None \<Rightarrow> [] | Some b \<Rightarrow> [Send (ses_id s) (AWARENESS b)]);
          (room2, infos) = announce room1 saved
      in (room2, greeting @ infos))"

definition leaveRoom :: "('d, 'p) RoomEnv \<Rightarrow> ('d, 'p) Room \<Rightarrow> nat \<Rightarrow> ('d, 'p) Room \<times> RoomEffect list" where
  "leaveRoom E room sid =
     (let room1 = room\<lparr>rm_sessions := filter (\<lambda>s. ses_id s \<noteq> sid) (rm_sessions room)\<rparr>;
          (room2, gone) = with_presence E room1 (presence_forget (e_aw E) (rm_presence room1) sid)
      in if rm_sessions room2 \<noteq> [] then (let (room3, infos) = announce room2 saved in (room3, gone @ infos))
         else (room2\<lparr>rm_idle := True\<rparr>, gone))"

definition keepalive :: "('d, 'p) Room \<Rightarrow> ('d, 'p) Room \<times> RoomEffect list" where
  "keepalive room = (if rm_sessions room = [] then (room, []) else announce room (rm_save room))"

text \<open>
  A node checks its ownership: it renews when it is the owner and acquires otherwise; \<open>answer\<close> is what the
  lock said, or an exception. A node that becomes owner later than on opening writes its whole state.
\<close>

definition refreshOwnership ::
  "('d, 'p) RoomEnv \<Rightarrow> epoch_ms \<Rightarrow> ('d, 'p) Room \<Rightarrow> bool \<Rightarrow> bool option \<Rightarrow> ('d, 'p) Room \<times> RoomEffect list" where
  "refreshOwnership E now room initial answer =
     (case answer of
        None \<Rightarrow> (room\<lparr>rm_owner := False\<rparr>, [])
      | Some a \<Rightarrow>
          let room1 = room\<lparr>rm_owner := a\<rparr>
          in if a = rm_owner room then (room1, [])
             else if a \<and> e_log E \<and> \<not> initial
             then persistAndFanout E now room1 (y_encode (e_yjs E) (rm_doc room1)) None
             else (room1, []))"

definition evict :: "('d, 'p) Room \<Rightarrow> RoomEffect list option" where
  "evict room = (if rm_sessions room \<noteq> [] then None else Some (if rm_owner room then [ReleaseLock] else []))"

subsection \<open>Opening a room: the trust boundary\<close>

datatype 'e ElementValue = NotAMap | MapValue 'e

datatype Defect = DefectNotAMap | DefectUnreadable | DefectShape | DefectKey

text \<open>
  \<open>readElement\<close> may throw, the schema accepts or refuses what it read, and the accepted element carries
  its own id.
\<close>

record ('d, 'e, 'r) BoardDoc =
  b_elements :: "'d \<Rightarrow> (string \<times> 'e ElementValue) list"
  b_delete :: "'d \<Rightarrow> string list \<Rightarrow> 'd"
  b_noOps :: "'d \<Rightarrow> bool"
  b_migrate :: "'d \<Rightarrow> 'd"
  b_read :: "'e \<Rightarrow> 'r option"
  b_parse :: "'r \<Rightarrow> string option"

definition inspectElement :: "('d, 'e, 'r) BoardDoc \<Rightarrow> string \<Rightarrow> 'e ElementValue \<Rightarrow> Defect option" where
  "inspectElement B i v =
     (case v of
        NotAMap \<Rightarrow> Some DefectNotAMap
      | MapValue m \<Rightarrow>
          (case b_read B m of
             None \<Rightarrow> Some DefectUnreadable
           | Some raw \<Rightarrow>
               (case b_parse B raw of
                  None \<Rightarrow> Some DefectShape
                | Some i' \<Rightarrow> if i' \<noteq> i then Some DefectKey else None)))"

definition quarantineInvalid :: "('d, 'e, 'r) BoardDoc \<Rightarrow> 'd \<Rightarrow> 'd \<times> string list" where
  "quarantineInvalid B d =
     (let invalid = map fst (filter (\<lambda>(i, v). inspectElement B i v \<noteq> None) (b_elements B d))
      in if invalid = [] then (d, []) else (b_delete B d invalid, invalid))"

datatype OpenError = ServerBusy | LoadFailed | DocTooLarge

record RoomLoadReport =
  rep_quarantined :: "string list"
  rep_bytes :: nat
  rep_pending :: bool

record RoomLimits =
  maxRoomsPerNode :: nat
  maxDocBytes :: nat

text \<open>
  Opening a board, from the number of rooms in memory, what the store loaded, the newest sequence
  number, the envelopes that arrived meanwhile and the answer of the lock (\<open>None\<close> when there is none).
  The error comes with whether no bus subscription is left behind.
\<close>

definition openRoom ::
  "('d, 'p) RoomEnv \<Rightarrow> ('d, 'e, 'r) BoardDoc \<Rightarrow> RoomLimits \<Rightarrow> ('d \<Rightarrow> 'p) \<Rightarrow> nat \<Rightarrow> epoch_ms \<Rightarrow> string \<Rightarrow>
   LoadError + bytes BoardSnapshot \<Rightarrow> nat \<Rightarrow> BusEnvelope list \<Rightarrow> bool option option \<Rightarrow>
   (OpenError \<times> bool) + (RoomLoadReport \<times> ('d, 'p) Room \<times> RoomEffect list)" where
  "openRoom E B limits aw0 rooms now b loaded latest buffered lock =
     (if rooms \<ge> maxRoomsPerNode limits then Inl (ServerBusy, True)
      else case loaded of
        Inl e \<Rightarrow> Inl (LoadFailed, False)
      | Inr snap \<Rightarrow>
          let d0 = rebuild (e_yjs E) (snap_bytes snap) (snap_updates snap);
              pending = y_pending (e_yjs E) d0;
              d1 = (if b_noOps B d0 then d0 else b_migrate B d0);
              (d2, quarantined) = quarantineInvalid B d1;
              size = length (y_encode (e_yjs E) d2)
          in if size > maxDocBytes limits then Inl (DocTooLarge, True)
             else
               let room = \<lparr> rm_board = b, rm_doc = d2, rm_sessions = [], rm_idle = False,
                     rm_seq = (if e_log E then latest else 0), rm_save = saved,
                     rm_compactedSeq = snap_seqUpto snap, rm_compactedAt = now, rm_compacting = False,
                     rm_presence = new_presence (aw0 d2), rm_owner = (lock = None) \<rparr>;
                   (room1, drained) = fold (\<lambda>env (room, out). let (room', eff) = handleBus E now room env
                                            in (room', out @ eff)) buffered (room, []);
                   ask = publishToBus E STATE_REQUEST [] 0;
                   (room2, owned) = (case lock of None \<Rightarrow> (room1, [])
                                     | Some answer \<Rightarrow> refreshOwnership E now room1 True answer)
               in Inr (\<lparr> rep_quarantined = quarantined, rep_bytes = size, rep_pending = pending \<rparr>, room2,
                       drained @ ask @ owned))"

text \<open>Deleting keys of the elements map keeps the others.\<close>

definition delete_ok :: "('d, 'e, 'r) BoardDoc \<Rightarrow> bool" where
  "delete_ok B \<longleftrightarrow> (\<forall>d ids. b_elements B (b_delete B d ids) = filter (\<lambda>x. fst x \<notin> set ids) (b_elements B d))"

end
