(* ===== verification/RoomSystem.thy ===== *)
theory RoomSystem
  imports Room "HOL-Library.Multiset"
begin

text \<open>
  What the handlers of a room guarantee: who may change the document, what an announced sequence number
  promises, which node writes, what opening a board lets through, and that the messages between nodes
  die out. Rooms run in a system that interleaves the events of the room with the update log, whose
  commits, acknowledgements and failures come in any order.
\<close>

subsection \<open>What a handler may emit\<close>

text \<open>
  The numbers an effect announces are at most \<open>n\<close>; only a writer's update, the owner's state or an
  owner's duty may be emitted when the flags say so.
\<close>

fun effect_ok :: "nat \<Rightarrow> bool \<Rightarrow> RoomEffect \<Rightarrow> bool" where
  "effect_ok n own (Send i (HB_ROOM_INFO users q st)) \<longleftrightarrow> q \<le> n"
| "effect_ok n own (Send i m) \<longleftrightarrow> True"
| "effect_ok n own (Relay i b) \<longleftrightarrow> True"
| "effect_ok n own (Publish env) \<longleftrightarrow> (env_kind env = SAVED \<longrightarrow> env_seq env \<le> n \<and> own)"
| "effect_ok n own (AppendUpdate u f) \<longleftrightarrow> own"
| "effect_ok n own (CompactTo t) \<longleftrightarrow> t \<le> n \<and> own"
| "effect_ok n own ReleaseLock \<longleftrightarrow> True"

definition handled :: "nat \<Rightarrow> bool \<Rightarrow> ('d, 'p) Room \<Rightarrow> ('d, 'p) Room \<times> RoomEffect list \<Rightarrow> bool" where
  "handled n own room r \<longleftrightarrow> rm_seq room \<le> rm_seq (fst r) \<and> rm_seq (fst r) \<le> n \<and>
     list_all (effect_ok n own) (snd r)"

lemma list_all_map: "list_all P (map f xs) \<longleftrightarrow> (\<forall>x \<in> set xs. P (f x))"
  by (simp add: list_all_iff)

lemma announce_handled: "rm_seq room \<le> n \<Longrightarrow> handled n own room (announce room save)"
  by (simp add: announce_def handled_def list_all_map)

lemma announce_effects_ok: "rm_seq room \<le> n \<Longrightarrow> list_all (effect_ok n own) (snd (announce room save))"
  by (simp add: announce_def list_all_map)

lemma announce_fields [simp]:
  "rm_seq (fst (announce room save)) = rm_seq room" "rm_owner (fst (announce room save)) = rm_owner room"
  "rm_doc (fst (announce room save)) = rm_doc room" "rm_sessions (fst (announce room save)) = rm_sessions room"
  by (simp_all add: announce_def)

lemma fanout_ok: "list_all (effect_ok n own) (fanoutLocal E room u f)"
  by (simp add: fanoutLocal_def list_all_iff)

lemma publish_ok: "kind \<noteq> SAVED \<Longrightarrow> list_all (effect_ok n own) (publishToBus E kind p s)"
  by (simp add: publishToBus_def)

lemma presence_effects_ok: "list_all (effect_ok n own) (concat (map (presence_effect E room) es))"
proof (induction es)
  case (Cons e es)
  then show ?case by (cases e) (simp_all add: list_all_map publish_ok)
qed simp

lemma with_presence_handled: "rm_seq room \<le> n \<Longrightarrow> handled n own room (with_presence E room r)"
  by (simp add: with_presence_def handled_def presence_effects_ok)

lemma handled_fst: "rm_seq room \<le> n \<Longrightarrow> rm_seq r' = rm_seq room \<Longrightarrow> list_all (effect_ok n own) eff \<Longrightarrow>
    handled n own room (r', eff)"
  by (simp add: handled_def)

lemma maybeCompact_handled:
  "rm_seq room \<le> n \<Longrightarrow> rm_owner room \<longrightarrow> own \<Longrightarrow> handled n own room (maybeCompact E now room)"
  by (auto simp: maybeCompact_def handled_def split: option.split)

lemma persisted_handled:
  assumes "rm_seq room \<le> n" "own"
  shows "handled n own room (persisted E now room u f)"
  using maybeCompact_handled [of "fst (announce room saved)" n own E now] assms
    announce_handled [OF assms(1), of own saved]
  by (simp add: persisted_def Let_def handled_def split_beta fanout_ok publishToBus_def)

lemma appendEnded_handled:
  assumes "rm_seq room \<le> n" "own" "\<And>s. res = Some s \<Longrightarrow> s \<le> n"
  shows "handled n own room (appendEnded E now room u f res)"
proof (cases res)
  case None
  then show ?thesis by (simp add: appendEnded_def announce_handled assms(1))
next
  case (Some s)
  then have "handled n own (room\<lparr>rm_seq := max (rm_seq room) s\<rparr>)
      (persisted E now (room\<lparr>rm_seq := max (rm_seq room) s\<rparr>) u f)"
    using assms by (intro persisted_handled) auto
  then show ?thesis using Some by (auto simp: appendEnded_def handled_def)
qed

lemma persistAndFanout_handled:
  assumes "rm_seq room \<le> n" "rm_owner room \<longrightarrow> own"
  shows "handled n own room (persistAndFanout E now room u f)"
  using assms persisted_handled [OF assms(1), of own E now u f] announce_handled [OF assms(1), of own saving]
  by (auto simp: persistAndFanout_def Let_def handled_def split_beta fanout_ok)

lemma onUpdate_handled:
  assumes "rm_seq room \<le> n" "rm_owner room \<longrightarrow> own"
  shows "handled n own room (onUpdate E now room u origin)"
  using persistAndFanout_handled [OF assms, of E now u "author origin"]
  by (simp add: onUpdate_def Let_def handled_def split_beta publish_ok)

lemma handleBus_handled:
  assumes "rm_seq room \<le> n" "rm_owner room \<longrightarrow> own" "env_kind env = SAVED \<longrightarrow> env_seq env \<le> n"
  shows "handled n own room (handleBus E now room env)"
proof (cases "env_node env = e_node E")
  case True
  with assms show ?thesis by (simp add: handleBus_def handled_def)
next
  case False
  show ?thesis
  proof (cases "env_kind env")
    case UPDATE
    let ?room = "room\<lparr>rm_doc := y_apply (e_yjs E) (rm_doc room) (env_payload env)\<rparr>"
    have "handled n own ?room (onUpdate E now ?room u BusOrigin)" for u
      by (rule onUpdate_handled) (use assms in simp_all)
    with False UPDATE assms show ?thesis by (simp add: handleBus_def handled_def Let_def split: option.split)
  next
    case SAVED
    with False assms announce_handled [of "room\<lparr>rm_seq := env_seq env\<rparr>" n own saved]
    show ?thesis by (auto simp: handleBus_def handled_def)
  next
    case BUS_AWARENESS
    with False with_presence_handled [OF assms(1)] show ?thesis by (simp add: handleBus_def)
  next
    case BUS_EPHEMERAL
    with False assms(1) show ?thesis by (simp add: handleBus_def handled_def list_all_map)
  next
    case STATE_REQUEST
    with False assms(1) show ?thesis by (simp add: handleBus_def handled_def publish_ok)
  qed
qed

lemma handleSync_cases:
  assumes "handleSync E now room s p = Inr r"
  obtains (silent) "r = (room, [])" | (denied) "r = (room, denyWrite s)"
    "\<not> mayWriteDocument (role_word (ses_role s))"
  | (applied) kind rest reply event d where "readVarUint (e_lib0 E) p = Some (kind, rest)"
    "kind \<in> {messageYjsSyncStep2, messageYjsUpdate} \<longrightarrow> mayWriteDocument (role_word (ses_role s))"
    "s_read (e_sync E) (rm_doc room) p = Some (reply, event, d)"
    "r = (let (room'', effects) = (case event of None \<Rightarrow> (room\<lparr>rm_doc := d\<rparr>, [])
           | Some u \<Rightarrow> onUpdate E now (room\<lparr>rm_doc := d\<rparr>) u (ClientOrigin (ses_id s) (ses_sub s)))
         in (room'', effects @ (if reply \<noteq> [] then [Send (ses_id s) (SYNC reply)] else [])))"
proof (cases "readVarUint (e_lib0 E) p")
  case None
  with assms show ?thesis by (simp add: handleSync_def)
next
  case (Some kr)
  obtain kind rest where kr: "kr = (kind, rest)" by (cases kr)
  show ?thesis
  proof (cases "kind \<in> {messageYjsSyncStep2, messageYjsUpdate} \<and> \<not> mayWriteDocument (role_word (ses_role s))")
    case True
    with assms Some kr silent denied show ?thesis by (auto simp: handleSync_def split: if_splits)
  next
    case False
    show ?thesis
    proof (cases "s_read (e_sync E) (rm_doc room) p")
      case None
      from assms show ?thesis
        unfolding handleSync_def Some kr option.case prod.case if_not_P [OF False] None by simp
    next
      case (Some x)
      obtain reply event d where x: "x = (reply, event, d)" by (cases x)
      from assms have "r = (let (room'', effects) = (case event of None \<Rightarrow> (room\<lparr>rm_doc := d\<rparr>, [])
           | Some u \<Rightarrow> onUpdate E now (room\<lparr>rm_doc := d\<rparr>) u (ClientOrigin (ses_id s) (ses_sub s)))
         in (room'', effects @ (if reply \<noteq> [] then [Send (ses_id s) (SYNC reply)] else [])))"
        unfolding handleSync_def \<open>readVarUint (e_lib0 E) p = Some kr\<close> kr option.case prod.case
          if_not_P [OF False] Some x Let_def by (simp add: split_beta)
      with applied Some x False \<open>readVarUint (e_lib0 E) p = Some kr\<close> kr show ?thesis by blast
    qed
  qed
qed

lemma handleSync_handled:
  assumes "rm_seq room \<le> n" "rm_owner room \<longrightarrow> own" "handleSync E now room s p = Inr r"
  shows "handled n own room r"
  using assms(3)
proof (cases rule: handleSync_cases)
  case (applied kind rest reply event d)
  have "handled n own (room\<lparr>rm_doc := d\<rparr>) (onUpdate E now (room\<lparr>rm_doc := d\<rparr>) u origin)" for u origin
    by (rule onUpdate_handled) (use assms in simp_all)
  with applied(4) assms(1) show ?thesis
    by (cases event) (simp_all add: handled_def split_beta)
qed (use assms(1) in \<open>simp_all add: handled_def denyWrite_def\<close>)

lemma handleMessage_disj:
  assumes "handleMessage E now room s data = Inr r"
  shows "r = (room, []) \<or> (\<exists>p. handleSync E now room s p = Inr r) \<or>
    (\<exists>p. r = with_presence E room (presence_receive (e_aw E) (rm_presence room) (ses_id s) p)) \<or>
    r = (room, map (\<lambda>t. Relay (ses_id t) data) (filter (\<lambda>t. ses_id t \<noteq> ses_id s) (rm_sessions room)) @
      publishToBus E BUS_EPHEMERAL data 0)"
proof (cases "decodeMessage (e_lib0 E) data")
  case (Inl ty)
  with assms show ?thesis by (simp add: handleMessage_def)
next
  case (Inr mo)
  show ?thesis
  proof (cases mo)
    case None
    with Inr assms show ?thesis by (simp add: handleMessage_def)
  next
    case (Some m)
    note eq = assms [unfolded handleMessage_def Inr Some sum.case option.case]
    show ?thesis
    proof (cases m)
      case (SYNC p)
      with eq have "handleSync E now room s p = Inr r" by simp
      then show ?thesis by blast
    next
      case (AWARENESS p)
      with eq show ?thesis by (simp split: if_splits) blast
    next
      case (HB_EPHEMERAL c p)
      with eq show ?thesis by (simp split: if_splits)
    qed (use eq in simp_all)
  qed
qed

lemma handleMessage_cases:
  assumes "handleMessage E now room s data = Inr r"
  obtains (ignored) "r = (room, [])"
  | (sync) p where "handleSync E now room s p = Inr r"
  | (awareness) p where "r = with_presence E room (presence_receive (e_aw E) (rm_presence room) (ses_id s) p)"
  | (ephemeral) "r = (room, map (\<lambda>t. Relay (ses_id t) data) (filter (\<lambda>t. ses_id t \<noteq> ses_id s) (rm_sessions room)) @
      publishToBus E BUS_EPHEMERAL data 0)"
  using handleMessage_disj [OF assms] by (elim disjE exE)

lemma handleMessage_handled:
  assumes "rm_seq room \<le> n" "rm_owner room \<longrightarrow> own" "handleMessage E now room s data = Inr r"
  shows "handled n own room r"
  using assms(3)
proof (cases rule: handleMessage_cases)
  case ignored
  with assms(1) show ?thesis by (simp add: handled_def)
next
  case (sync p)
  with handleSync_handled assms(1,2) show ?thesis by blast
next
  case (awareness p)
  with with_presence_handled assms(1) show ?thesis by blast
next
  case ephemeral
  with assms(1) show ?thesis by (simp add: handled_def publish_ok list_all_map)
qed

lemma joinRoom_handled: "rm_seq room \<le> n \<Longrightarrow> handled n own room (joinRoom E room s)"
  by (simp add: joinRoom_def Let_def announce_def handled_def list_all_map split: option.split)

lemma leaveRoom_handled:
  assumes "rm_seq room \<le> n"
  shows "handled n own room (leaveRoom E room i)"
  using assms by (simp add: leaveRoom_def Let_def announce_def handled_def list_all_map with_presence_def
      presence_effects_ok)

lemma keepalive_handled: "rm_seq room \<le> n \<Longrightarrow> handled n own room (keepalive room)"
  by (simp add: keepalive_def announce_handled) (simp add: handled_def)

lemma refreshOwnership_handled:
  assumes "rm_seq room \<le> n"
  shows "handled n True room (refreshOwnership E now room initial answer)"
proof (cases answer)
  case None
  with assms show ?thesis by (simp add: refreshOwnership_def handled_def)
next
  case (Some a)
  have "handled n True (room\<lparr>rm_owner := a\<rparr>) (persistAndFanout E now (room\<lparr>rm_owner := a\<rparr>) u None)" for u
    by (rule persistAndFanout_handled) (use assms in simp_all)
  from this [of "y_encode (e_yjs E) (rm_doc room)"] assms Some show ?thesis
    by (cases a) (simp_all add: refreshOwnership_def handled_def Let_def)
qed

subsection \<open>A room and its update log\<close>

text \<open>
  \<open>lv_log\<close> is every update of the board ever committed, in the order of their numbers, whichever node
  wrote it; \<open>lv_queue\<close> the appends this room asked for, \<open>lv_acks\<close> those committed whose promise has not
  resolved yet, \<open>lv_out\<close> all the effects so far. Commits, acknowledgements and failures come in any order. Of the
  other nodes it is assumed what is proved of this one: a number they announce as saved is committed.
\<close>

record ('d, 'p) Live =
  lv_room :: "('d, 'p) Room"
  lv_log :: "bytes list"
  lv_queue :: "(bytes \<times> (nat \<times> string) option) list"
  lv_acks :: "(bytes \<times> (nat \<times> string) option \<times> nat) list"
  lv_out :: "RoomEffect list"

fun appends :: "RoomEffect list \<Rightarrow> (bytes \<times> (nat \<times> string) option) list" where
  "appends [] = []"
| "appends (AppendUpdate u f # es) = (u, f) # appends es"
| "appends (e # es) = appends es"

definition absorb :: "('d, 'p) Live \<Rightarrow> ('d, 'p) Room \<times> RoomEffect list \<Rightarrow> ('d, 'p) Live" where
  "absorb st r = st\<lparr>lv_room := fst r, lv_queue := lv_queue st @ appends (snd r), lv_out := lv_out st @ snd r\<rparr>"

inductive live_step :: "('d, 'p) RoomEnv \<Rightarrow> ('d, 'p) Live \<Rightarrow> ('d, 'p) Live \<Rightarrow> bool" for E where
  message: "s \<in> set (rm_sessions (lv_room st)) \<Longrightarrow> handleMessage E now (lv_room st) s data = Inr r \<Longrightarrow>
     live_step E st (absorb st r)"
| committed: "lv_queue st = xs @ (u, f) # ys \<Longrightarrow> live_step E st (st\<lparr>lv_log := lv_log st @ [u],
     lv_queue := xs @ ys, lv_acks := lv_acks st @ [(u, f, length (lv_log st) + 1)]\<rparr>)"
| acknowledged: "lv_acks st = xs @ (u, f, q) # ys \<Longrightarrow>
     live_step E st (absorb (st\<lparr>lv_acks := xs @ ys\<rparr>) (appendEnded E now (lv_room st) u f (Some q)))"
| failed: "lv_queue st = xs @ (u, f) # ys \<Longrightarrow>
     live_step E st (absorb (st\<lparr>lv_queue := xs @ ys\<rparr>) (appendEnded E now (lv_room st) u f None))"
| foreign: "live_step E st (st\<lparr>lv_log := lv_log st @ [u]\<rparr>)"
| bus: "env_kind env = SAVED \<longrightarrow> env_seq env \<le> length (lv_log st) \<Longrightarrow>
     live_step E st (absorb st (handleBus E now (lv_room st) env))"
| joined: "live_step E st (absorb st (joinRoom E (lv_room st) s))"
| left: "live_step E st (absorb st (leaveRoom E (lv_room st) i))"
| kept_alive: "live_step E st (absorb st (keepalive (lv_room st)))"
| role_changed: "live_step E st (absorb st (snd (applyRoleChange (lv_room st) sub role)))"
| ownership: "live_step E st (absorb st (refreshOwnership E now (lv_room st) initial answer))"
| compacted: "live_step E st (st\<lparr>lv_room := compactionEnded now (lv_room st) res\<rparr>)"

definition live_ok :: "nat \<Rightarrow> ('d, 'p) Live \<Rightarrow> bool" where
  "live_ok q0 st \<longleftrightarrow> q0 \<le> rm_seq (lv_room st) \<and> rm_seq (lv_room st) \<le> length (lv_log st) \<and>
     list_all (effect_ok (length (lv_log st)) True) (lv_out st) \<and>
     (\<forall>(u, f, q) \<in> set (lv_acks st). 1 \<le> q \<and> q \<le> length (lv_log st) \<and> lv_log st ! (q - 1) = u)"

lemma effect_ok_mono: "effect_ok n own e \<Longrightarrow> n \<le> m \<Longrightarrow> own \<longrightarrow> own' \<Longrightarrow> effect_ok m own' e"
  by (induction n own e rule: effect_ok.induct) auto

lemma live_absorb:
  assumes "live_ok q0 st" "handled (length (lv_log st)) True (lv_room st) r"
  shows "live_ok q0 (absorb st r)"
  using assms by (auto simp: live_ok_def absorb_def handled_def)

lemma live_log:
  assumes "live_ok q0 st"
  shows "live_ok q0 (st\<lparr>lv_log := lv_log st @ [u]\<rparr>)"
proof -
  have "list_all (effect_ok (length (lv_log st @ [u])) True) (lv_out st)"
    by (rule list.pred_mono_strong [of "effect_ok (length (lv_log st)) True"])
      (use assms in \<open>auto simp: live_ok_def elim: effect_ok_mono\<close>)
  then show ?thesis using assms by (fastforce simp: live_ok_def nth_append)
qed

lemma live_step_ok:
  assumes "live_step E st st'" "live_ok q0 st"
  shows "live_ok q0 st'"
proof -
  have seq: "rm_seq (lv_room st) \<le> length (lv_log st)" using assms(2) by (simp add: live_ok_def)
  note absorbed = live_absorb [OF assms(2)]
  from assms(1) show ?thesis
  proof cases
    case (message s now data r)
    show ?thesis unfolding message(1)
      by (rule absorbed, rule handleMessage_handled [OF seq _ message(3)]) simp
  next
    case (committed xs u f ys)
    have "live_ok q0 (st\<lparr>lv_log := lv_log st @ [u]\<rparr>)" by (rule live_log [OF assms(2)])
    then show ?thesis unfolding committed(1) by (auto simp: live_ok_def)
  next
    case (acknowledged xs u f q ys now)
    let ?st = "st\<lparr>lv_acks := xs @ ys\<rparr>"
    have st: "live_ok q0 ?st" and q: "q \<le> length (lv_log st)"
      using assms(2) acknowledged(2) by (auto simp: live_ok_def)
    have "handled (length (lv_log st)) True (lv_room st) (appendEnded E now (lv_room st) u f (Some q))"
      by (rule appendEnded_handled) (use seq q in simp_all)
    then show ?thesis unfolding acknowledged(1) by (intro live_absorb [OF st]) simp
  next
    case (failed xs u f ys now)
    let ?st = "st\<lparr>lv_queue := xs @ ys\<rparr>"
    have st: "live_ok q0 ?st" using assms(2) by (simp add: live_ok_def)
    have "handled (length (lv_log st)) True (lv_room st) (appendEnded E now (lv_room st) u f None)"
      by (rule appendEnded_handled) (use seq in simp_all)
    then show ?thesis unfolding failed(1) by (intro live_absorb [OF st]) simp
  next
    case (foreign u)
    then show ?thesis using live_log [OF assms(2)] by simp
  next
    case (bus env now)
    show ?thesis unfolding bus(1) by (rule absorbed, rule handleBus_handled [OF seq _ bus(2)]) simp
  next
    case (joined s)
    show ?thesis unfolding joined by (rule absorbed, rule joinRoom_handled [OF seq])
  next
    case (left i)
    show ?thesis unfolding left by (rule absorbed, rule leaveRoom_handled [OF seq])
  next
    case kept_alive
    show ?thesis unfolding kept_alive by (rule absorbed, rule keepalive_handled [OF seq])
  next
    case (role_changed sub role)
    have "handled (length (lv_log st)) True (lv_room st) (snd (applyRoleChange (lv_room st) sub role))"
      using assms(2) by (simp add: handled_def applyRoleChange_def Let_def live_ok_def list_all_map)
    from absorbed [OF this] show ?thesis by (simp only: role_changed)
  next
    case (ownership now initial answer)
    show ?thesis unfolding ownership by (rule absorbed, rule refreshOwnership_handled [OF seq])
  next
    case (compacted now res)
    then show ?thesis using assms(2) by (simp add: live_ok_def compactionEnded_def split: option.split)
  qed
qed

text \<open>
  C3. What the room announces is durable. Whatever the clients, the other nodes, the lock and the log do,
  in whatever order appends commit, fail and are acknowledged: every sequence number sent to a client or
  to another node is at most the number of committed updates, an acknowledged update is in the log under
  its number, a compaction is asked for only up to a committed number, and the number of the room never
  goes back.
\<close>

theorem announced_is_durable:
  assumes "(live_step E)\<^sup>*\<^sup>* st0 st" "rm_seq (lv_room st0) \<le> length (lv_log st0)" "lv_out st0 = []" "lv_acks st0 = []"
  shows "(\<forall>i n q save. Send i (HB_ROOM_INFO n q save) \<in> set (lv_out st) \<longrightarrow> q \<le> length (lv_log st)) \<and>
    (\<forall>env. Publish env \<in> set (lv_out st) \<and> env_kind env = SAVED \<longrightarrow> env_seq env \<le> length (lv_log st)) \<and>
    (\<forall>t. CompactTo t \<in> set (lv_out st) \<longrightarrow> t \<le> length (lv_log st)) \<and>
    (\<forall>u f q. (u, f, q) \<in> set (lv_acks st) \<longrightarrow> 1 \<le> q \<and> q \<le> length (lv_log st) \<and> lv_log st ! (q - 1) = u) \<and>
    rm_seq (lv_room st0) \<le> rm_seq (lv_room st)"
proof -
  have "live_ok (rm_seq (lv_room st0)) st"
    using assms(1)
  proof (induction rule: rtranclp_induct)
    case base
    with assms(2-4) show ?case by (simp add: live_ok_def)
  qed (blast intro: live_step_ok)
  then have ok: "\<And>e. e \<in> set (lv_out st) \<Longrightarrow> effect_ok (length (lv_log st)) True e"
    and rest: "\<forall>(u, f, q) \<in> set (lv_acks st). 1 \<le> q \<and> q \<le> length (lv_log st) \<and> lv_log st ! (q - 1) = u"
      "rm_seq (lv_room st0) \<le> rm_seq (lv_room st)"
    by (simp_all add: live_ok_def list_all_iff)
  show ?thesis using rest by (fastforce dest: ok)
qed

text \<open>
  A small room for the witnesses: a document is the list of the updates applied to it, a sync message is
  its kind followed by the update.
\<close>

definition demo_env :: "bool \<Rightarrow> (bytes list, nat list) RoomEnv" where
  "demo_env clustered = \<lparr>
     e_yjs = \<lparr> y_new = [], y_apply = (\<lambda>d u. d @ [u]), y_pending = (\<lambda>_. False), y_encode = concat,
               y_vector = concat, y_elements = length, y_length = length \<rparr>,
     e_sync = \<lparr> s_read = (\<lambda>d p. case p of [] \<Rightarrow> None
                   | k # u \<Rightarrow> if k = 0 then Some ([9], None, d)
                             else if k = 1 \<or> k = 2 then Some ([], Some u, d @ [u]) else None),
                s_step1 = (\<lambda>d. [0]), s_step2 = (\<lambda>d. 1 # concat d), s_update = (\<lambda>u. 2 # u),
                s_event = (\<lambda>d u. Some u), s_decode = (\<lambda>u. Some (length u, 0)) \<rparr>,
     e_aw = demo_awareness, e_lib0 = leb, e_node = ''n1'', e_log = True, e_bus = clustered, e_compactor = None \<rparr>"

definition demo_session :: "nat \<Rightarrow> BoardRole \<Rightarrow> Session" where
  "demo_session i r = \<lparr> ses_id = i, ses_sub = ''u'' @ show_nat i, ses_role = r \<rparr>"

definition demo_room :: "(bytes list, nat list) Room" where
  "demo_room = \<lparr> rm_board = ''b1'', rm_doc = [], rm_sessions = [demo_session 1 editor], rm_idle = False, rm_seq = 0,
     rm_save = saved, rm_compactedSeq = 0, rm_compactedAt = 0, rm_compacting = False,
     rm_presence = new_presence [], rm_owner = True \<rparr>"

definition demo_start :: "(bytes list, nat list) Live" where
  "demo_start = \<lparr> lv_room = demo_room, lv_log = [], lv_queue = [], lv_acks = [], lv_out = [] \<rparr>"

definition demo_write :: "8 word \<Rightarrow> (bytes list, nat list) Live \<Rightarrow> (bytes list, nat list) Live" where
  "demo_write u st = (case handleMessage (demo_env False) 0 (lv_room st) (demo_session 1 editor) [0, 2, 2, u] of
     Inr r \<Rightarrow> absorb st r | Inl _ \<Rightarrow> st)"

definition demo_fail :: "(bytes list, nat list) Live \<Rightarrow> (bytes list, nat list) Live" where
  "demo_fail st = (case lv_queue st of [] \<Rightarrow> st | (u, f) # ys \<Rightarrow>
     absorb (st\<lparr>lv_queue := ys\<rparr>) (appendEnded (demo_env False) 0 (lv_room st) u f None))"

definition demo_commit :: "(bytes list, nat list) Live \<Rightarrow> (bytes list, nat list) Live" where
  "demo_commit st = (case lv_queue st of [] \<Rightarrow> st | (u, f) # ys \<Rightarrow>
     st\<lparr>lv_log := lv_log st @ [u], lv_queue := ys, lv_acks := lv_acks st @ [(u, f, length (lv_log st) + 1)]\<rparr>)"

definition demo_ack :: "(bytes list, nat list) Live \<Rightarrow> (bytes list, nat list) Live" where
  "demo_ack st = (case lv_acks st of [] \<Rightarrow> st | (u, f, q) # ys \<Rightarrow>
     absorb (st\<lparr>lv_acks := ys\<rparr>) (appendEnded (demo_env False) 0 (lv_room st) u f (Some q)))"

abbreviation demo_steps where "demo_steps \<equiv> (live_step (demo_env False))\<^sup>*\<^sup>*"

lemma demo_write_step:
  assumes "demo_session 1 editor \<in> set (rm_sessions (lv_room st))"
  shows "demo_steps st (demo_write u st)"
proof (cases "handleMessage (demo_env False) 0 (lv_room st) (demo_session 1 editor) [0, 2, 2, u]")
  case (Inr r)
  from live_step.message [OF assms this] Inr show ?thesis by (simp add: demo_write_def r_into_rtranclp)
qed (simp add: demo_write_def)

lemma demo_fail_step: "demo_steps st (demo_fail st)"
proof (cases "lv_queue st")
  case (Cons x ys)
  obtain u f where "x = (u, f)" by (cases x)
  with live_step.failed [of st "[]" u f ys "demo_env False" 0] Cons show ?thesis
    by (simp add: demo_fail_def r_into_rtranclp)
qed (simp add: demo_fail_def)

lemma demo_commit_step: "demo_steps st (demo_commit st)"
proof (cases "lv_queue st")
  case (Cons x ys)
  obtain u f where "x = (u, f)" by (cases x)
  with live_step.committed [of st "[]" u f ys "demo_env False"] Cons show ?thesis
    by (simp add: demo_commit_def r_into_rtranclp)
qed (simp add: demo_commit_def)

lemma demo_ack_step: "demo_steps st (demo_ack st)"
proof (cases "lv_acks st")
  case (Cons x ys)
  obtain u f q where "x = (u, f, q)" by (cases x)
  with live_step.acknowledged [of st "[]" u f q ys "demo_env False" 0] Cons show ?thesis
    by (simp add: demo_ack_def r_into_rtranclp)
qed (simp add: demo_ack_def)

definition demo_end :: "(bytes list, nat list) Live" where
  "demo_end = demo_ack (demo_commit (demo_write 8 (demo_fail (demo_write 7 demo_start))))"

lemma demo_run: "demo_steps demo_start demo_end"
proof -
  have "demo_session 1 editor \<in> set (rm_sessions (lv_room demo_start))"
    by (simp add: demo_start_def demo_room_def)
  from demo_write_step [OF this, of 7] demo_fail_step [of "demo_write 7 demo_start"]
  have 1: "demo_steps demo_start (demo_fail (demo_write 7 demo_start))" by (rule rtranclp_trans)
  have "demo_session 1 editor \<in> set (rm_sessions (lv_room (demo_fail (demo_write 7 demo_start))))"
    by code_simp
  from demo_write_step [OF this, of 8] demo_commit_step demo_ack_step 1
  show ?thesis unfolding demo_end_def by (meson rtranclp_trans)
qed

theorem announced_is_durable_witness:
  "Send 1 (HB_ROOM_INFO 1 1 saved) \<in> set (lv_out demo_end) \<and> 1 \<le> length (lv_log demo_end) \<and>
   rm_seq (lv_room demo_start) \<le> rm_seq (lv_room demo_end)"
proof -
  have "Send 1 (HB_ROOM_INFO 1 1 saved) \<in> set (lv_out demo_end)" by code_simp
  moreover have "rm_seq (lv_room demo_start) \<le> length (lv_log demo_start)" "lv_out demo_start = []" "lv_acks demo_start = []"
    by (simp_all add: demo_start_def demo_room_def)
  ultimately show ?thesis using announced_is_durable [OF demo_run] by blast
qed

subsection \<open>Who may change the document\<close>

lemma no_writer_publish: "kind \<noteq> UPDATE \<Longrightarrow> Publish env \<in> set (publishToBus E kind p s) \<Longrightarrow> env_kind env \<noteq> UPDATE"
  by (auto simp: publishToBus_def split: if_splits)

lemma presence_is_not_a_write:
  "e \<in> set (snd (with_presence E room r)) \<Longrightarrow>
    (\<exists>i b. e = Send i (AWARENESS b)) \<or> (\<exists>env. e = Publish env \<and> env_kind env = BUS_AWARENESS)"
proof -
  assume "e \<in> set (snd (with_presence E room r))"
  then obtain x where "e \<in> set (presence_effect E room x)" by (auto simp: with_presence_def)
  then show ?thesis by (cases x) (auto simp: publishToBus_def split: if_splits)
qed

lemma with_presence_doc [simp]: "rm_doc (fst (with_presence E room r)) = rm_doc room"
  by (simp add: with_presence_def)

lemma demo_sync_ok: "sync_ok (demo_env clustered)"
  unfolding sync_ok_def
proof (intro allI impI)
  fix d p n rest reply ev d'
  assume r: "readVarUint (e_lib0 (demo_env clustered)) p = Some (n, rest)"
    and n: "n \<notin> {messageYjsSyncStep2, messageYjsUpdate}"
    and s: "s_read (e_sync (demo_env clustered)) d p = Some (reply, ev, d')"
  obtain k u where p: "p = k # u" using s by (cases p) (simp_all add: demo_env_def)
  have "k \<noteq> 1 \<and> k \<noteq> 2" using r n p by (auto simp: demo_env_def leb_def sync_kinds)
  then show "ev = None \<and> d' = d" using s p by (auto simp: demo_env_def split: if_splits)
qed

text \<open>
  C23. The permission boundary. Whatever bytes a session without the right to write sends, whatever the
  update in them: the document, the sequence number and the set of sessions stay, nothing is appended,
  compacted or published as an update, no other session gets a sync message, and a refused update is
  answered to the sender alone with its role and FORBIDDEN.
\<close>

theorem readers_cannot_write:
  assumes "sync_ok E" "\<not> mayWriteDocument (role_word (ses_role s))"
    and "handleMessage E now room s data = Inr (room', effects)"
  shows "rm_doc room' = rm_doc room \<and> rm_seq room' = rm_seq room \<and> rm_sessions room' = rm_sessions room \<and>
    (\<forall>u f t. AppendUpdate u f \<notin> set effects \<and> CompactTo t \<notin> set effects) \<and>
    (\<forall>env. Publish env \<in> set effects \<longrightarrow> env_kind env \<noteq> UPDATE) \<and>
    (\<forall>i p. Send i (SYNC p) \<in> set effects \<longrightarrow> i = ses_id s) \<and>
    (\<forall>i c m. Send i (HB_ERROR c m) \<in> set effects \<longrightarrow> i = ses_id s \<and> effects = denyWrite s)"
  using assms(3)
proof (cases rule: handleMessage_cases)
  case (sync p)
  from sync show ?thesis
  proof (cases rule: handleSync_cases)
    case (applied kind rest reply event d)
    then have "kind \<notin> {messageYjsSyncStep2, messageYjsUpdate}" using assms(2) by blast
    with assms(1) applied(1,3) have same: "event = None \<and> d = rm_doc room" unfolding sync_ok_def by blast
    with applied(4) show ?thesis by (auto split: if_splits)
  qed (auto simp: denyWrite_def)
next
  case (awareness p)
  have "room' = fst (with_presence E room (presence_receive (e_aw E) (rm_presence room) (ses_id s) p))"
    and eff: "effects = snd (with_presence E room (presence_receive (e_aw E) (rm_presence room) (ses_id s) p))"
    using awareness by (metis fst_conv, metis snd_conv)
  then have "rm_doc room' = rm_doc room \<and> rm_seq room' = rm_seq room \<and> rm_sessions room' = rm_sessions room"
    by (simp add: with_presence_def)
  then show ?thesis using presence_is_not_a_write unfolding eff by fastforce
next
  case ephemeral
  then show ?thesis by (auto dest: no_writer_publish simp: publishToBus_def split: if_splits)
qed simp

theorem readers_cannot_write_witness:
  "\<exists>room'. handleMessage (demo_env True) 0 demo_room (demo_session 2 viewer) [0, 2, 2, 7] =
     Inr (room', denyWrite (demo_session 2 viewer)) \<and> rm_doc room' = []"
proof -
  have role: "\<not> mayWriteDocument (role_word (ses_role (demo_session 2 viewer)))" by code_simp
  have "case handleMessage (demo_env True) 0 demo_room (demo_session 2 viewer) [0, 2, 2, 7] of
      Inl e \<Rightarrow> False | Inr (room', es) \<Rightarrow> es = denyWrite (demo_session 2 viewer)" by code_simp
  then obtain room' where run: "handleMessage (demo_env True) 0 demo_room (demo_session 2 viewer) [0, 2, 2, 7] =
      Inr (room', denyWrite (demo_session 2 viewer))" by (auto split: sum.splits)
  with readers_cannot_write [OF demo_sync_ok role run] show ?thesis by (simp add: demo_room_def)
qed

lemma filter_map_others:
  assumes "\<And>x. P (g x) = P x" "\<And>x. P x \<Longrightarrow> g x = x"
  shows "filter P (map g xs) = filter P xs"
  by (induction xs) (simp_all add: assms)

text \<open>
  A role change works at once: every session of the user, and no other, has the new role when the
  call returns, each of the changed ones is told, and from then on the messages of a user made viewer
  change nothing.
\<close>

theorem role_change_takes_effect:
  assumes "applyRoleChange room sub role = (n, room', effects)"
  shows "(\<forall>s' \<in> set (rm_sessions room'). ses_sub s' = sub \<longrightarrow> ses_role s' = role) \<and>
    filter (\<lambda>s. ses_sub s \<noteq> sub) (rm_sessions room') = filter (\<lambda>s. ses_sub s \<noteq> sub) (rm_sessions room) \<and>
    map ses_id (rm_sessions room') = map ses_id (rm_sessions room) \<and>
    effects = map (\<lambda>s. Send (ses_id s) (HB_PERMISSION role))
      (filter (\<lambda>s. ses_sub s = sub \<and> ses_role s \<noteq> role) (rm_sessions room)) \<and> n = length effects \<and>
    (role = viewer \<and> sync_ok E \<and> s \<in> set (rm_sessions room') \<and> ses_sub s = sub \<and>
       handleMessage E now room' s data = Inr r \<longrightarrow> rm_doc (fst r) = rm_doc room)"
proof -
  define concerned where "concerned s \<longleftrightarrow> ses_sub s = sub \<and> ses_role s \<noteq> role" for s :: Session
  define g where "g s = (if concerned s then s\<lparr>ses_role := role\<rparr> else s)" for s :: Session
  have g: "ses_sub (g x) = ses_sub x" "ses_id (g x) = ses_id x" "ses_sub x = sub \<longrightarrow> ses_role (g x) = role"
    "ses_sub x \<noteq> sub \<longrightarrow> g x = x" for x
    by (simp_all add: g_def concerned_def)
  have room': "room' = room\<lparr>rm_sessions := map g (rm_sessions room)\<rparr>"
    and effects: "effects = map (\<lambda>s. Send (ses_id s) (HB_PERMISSION role)) (filter concerned (rm_sessions room))"
    and n: "n = length (filter concerned (rm_sessions room))"
    using assms unfolding applyRoleChange_def Let_def prod.inject concerned_def [symmetric] g_def [symmetric]
    by (fast, fast, fast)
  have roles: "\<forall>s' \<in> set (rm_sessions room'). ses_sub s' = sub \<longrightarrow> ses_role s' = role"
    unfolding room' using g by simp
  moreover have "filter (\<lambda>s. ses_sub s \<noteq> sub) (rm_sessions room') = filter (\<lambda>s. ses_sub s \<noteq> sub) (rm_sessions room)"
    unfolding room' using g by (simp add: filter_map_others)
  moreover have "rm_doc (fst r) = rm_doc room"
    if "role = viewer" "sync_ok E" "s \<in> set (rm_sessions room')" "ses_sub s = sub" "handleMessage E now room' s data = Inr r"
  proof -
    have "ses_role s = viewer" using roles that by blast
    then have "\<not> mayWriteDocument (role_word (ses_role s))"
      by (simp add: mayWriteDocument_def role_of_def BOARD_ROLES_def WRITERS_def)
    with readers_cannot_write [OF that(2) this, of now room' data "fst r" "snd r"] that(5)
    show ?thesis by (simp add: room')
  qed
  moreover have "map ses_id (rm_sessions room') = map ses_id (rm_sessions room)"
    unfolding room' using g by simp
  moreover have "n = length effects" unfolding effects n by simp
  ultimately show ?thesis using effects unfolding concerned_def [abs_def] by blast
qed

theorem role_change_takes_effect_witness:
  "map ses_role (rm_sessions (fst (snd (applyRoleChange demo_room ''u1'' viewer)))) = [viewer] \<and>
   snd (snd (applyRoleChange demo_room ''u1'' viewer)) = [Send 1 (HB_PERMISSION viewer)]"
proof -
  obtain n room' effects where c: "applyRoleChange demo_room ''u1'' viewer = (n, room', effects)"
    by (cases "applyRoleChange demo_room ''u1'' viewer")
  have start: "rm_sessions demo_room = [demo_session 1 editor]" "ses_sub (demo_session 1 editor) = ''u1''"
    "ses_id (demo_session 1 editor) = 1" "ses_role (demo_session 1 editor) = editor"
    by (simp add: demo_room_def, code_simp, code_simp, code_simp)
  note changed = role_change_takes_effect [OF c, unfolded start, where E = "demo_env True" and now = 0
      and s = "demo_session 1 editor" and data = "[]" and r = "(demo_room, [])"]
  from changed obtain z where z: "rm_sessions room' = [z]" using start by (auto simp: map_eq_Cons_conv)
  with changed start have "ses_sub z = ''u1''" by (auto split: if_splits)
  with changed start z c show ?thesis by simp
qed

text \<open>
  What goes wrong with a frame. A frame made by the protocol's own encoder never raises a protocol
  error, a failing handler leaves no trace in the room, and the only failures are a frame of a known type
  whose fields cannot be read and a sync payload the sync protocol cannot read. Nothing catches these: any
  session, a viewer's too, can raise one with a single byte.
\<close>

theorem frames_that_throw:
  assumes "lib0_ok (e_lib0 E)"
  shows "handleMessage E now room s (encodeMessage (e_lib0 E) m @ extra) \<noteq> Inl (ProtocolError ty) \<and>
    (handleMessage E now room s data = Inl e \<longrightarrow>
      (\<exists>ty'. e = ProtocolError ty' \<and> decodeMessage (e_lib0 E) data = Inl ty') \<or>
      (\<exists>p. e = SyncReadError \<and> decodeMessage (e_lib0 E) data = Inr (Some (SYNC p)) \<and>
        (readVarUint (e_lib0 E) p = None \<or> s_read (e_sync E) (rm_doc room) p = None))) \<and>
    handleMessage E now room s (writeVarUint (e_lib0 E) MSG_HB_PERMISSION) = Inl (ProtocolError MSG_HB_PERMISSION)"
proof (intro conjI impI)
  have dec: "decodeMessage (e_lib0 E) (encodeMessage (e_lib0 E) m @ extra) = Inr (Some m)"
    by (cases m) (simp_all add: decode_simps lib0_laws [OF assms])
  have sync: "handleSync E now room s p \<noteq> Inl (ProtocolError ty)" for p
    by (simp add: handleSync_def Let_def split: option.split prod.split)
  show "handleMessage E now room s (encodeMessage (e_lib0 E) m @ extra) \<noteq> Inl (ProtocolError ty)"
    unfolding handleMessage_def dec by (cases m) (simp_all add: sync)
next
  assume thrown: "handleMessage E now room s data = Inl e"
  show "(\<exists>ty'. e = ProtocolError ty' \<and> decodeMessage (e_lib0 E) data = Inl ty') \<or>
      (\<exists>p. e = SyncReadError \<and> decodeMessage (e_lib0 E) data = Inr (Some (SYNC p)) \<and>
        (readVarUint (e_lib0 E) p = None \<or> s_read (e_sync E) (rm_doc room) p = None))"
  proof (cases "decodeMessage (e_lib0 E) data")
    case (Inl ty)
    with thrown show ?thesis by (simp add: handleMessage_def)
  next
    case (Inr mo)
    then obtain m where m: "mo = Some m" using thrown by (cases mo) (simp_all add: handleMessage_def)
    show ?thesis
    proof (cases m)
      case (SYNC p)
      with thrown Inr m have "handleSync E now room s p = Inl e" by (simp add: handleMessage_def)
      then have "e = SyncReadError \<and> (readVarUint (e_lib0 E) p = None \<or> s_read (e_sync E) (rm_doc room) p = None)"
        by (auto simp: handleSync_def Let_def split: option.splits if_splits prod.splits)
      with SYNC Inr m show ?thesis by simp
    qed (use thrown Inr m in \<open>simp_all add: handleMessage_def split: if_splits\<close>)
  qed
next
  have "readVarUint (e_lib0 E) (writeVarUint (e_lib0 E) MSG_HB_PERMISSION) = Some (MSG_HB_PERMISSION, [])"
    using lib0_laws(1) [OF assms, where rest = "[]"] by simp
  moreover have "readVarUint (e_lib0 E) [] = None" using assms by (simp add: lib0_ok_def)
  ultimately show "handleMessage E now room s (writeVarUint (e_lib0 E) MSG_HB_PERMISSION) = Inl (ProtocolError MSG_HB_PERMISSION)"
    by (simp add: handleMessage_def decodeMessage_def payload_def msg_types)
qed

theorem frames_that_throw_witness:
  "handleMessage (demo_env True) 0 demo_room (demo_session 2 viewer) [17] = Inl (ProtocolError 17)"
proof -
  have "lib0_ok (e_lib0 (demo_env True))" by (simp add: demo_env_def)
  from frames_that_throw [OF this, of 0 demo_room "demo_session 2 viewer"]
  have "handleMessage (demo_env True) 0 demo_room (demo_session 2 viewer) (writeVarUint leb MSG_HB_PERMISSION) =
      Inl (ProtocolError MSG_HB_PERMISSION)" by (simp add: demo_env_def)
  moreover have "writeVarUint leb MSG_HB_PERMISSION = [17]" by code_simp
  ultimately show ?thesis by (simp add: MSG_HB_PERMISSION_def)
qed

subsection \<open>The trust boundary\<close>

lemma quarantine_sound:
  assumes "delete_ok B" "distinct (map fst (b_elements B d))" "quarantineInvalid B d = (d', ids)"
  shows "b_elements B d' = filter (\<lambda>(i, v). inspectElement B i v = None) (b_elements B d) \<and>
    ids = map fst (filter (\<lambda>(i, v). inspectElement B i v \<noteq> None) (b_elements B d))"
proof -
  define P where "P x \<longleftrightarrow> inspectElement B (fst x) (snd x) = None" for x
  have P: "(\<lambda>(i, v). inspectElement B i v = None) = P" "(\<lambda>(i, v). inspectElement B i v \<noteq> None) = (\<lambda>x. \<not> P x)"
    by (simp_all add: P_def fun_eq_iff)
  have ids: "ids = map fst (filter (\<lambda>x. \<not> P x) (b_elements B d))" and d': "d' = (if ids = [] then d else b_delete B d ids)"
    using assms(3) unfolding quarantineInvalid_def Let_def P by (auto split: if_splits)
  have eq: "fst x \<notin> set ids \<longleftrightarrow> P x" if x: "x \<in> set (b_elements B d)" for x
  proof -
    have "y = x" if "y \<in> set (b_elements B d)" "fst y = fst x" for y
      using assms(2) x that unfolding distinct_map by (metis inj_on_eq_iff)
    then have "fst x \<in> set ids \<longleftrightarrow> \<not> P x" using x unfolding ids by (auto 4 3)
    then show ?thesis by simp
  qed
  have "b_elements B d' = filter (\<lambda>x. fst x \<notin> set ids) (b_elements B d)"
  proof (cases "ids = []")
    case False
    with assms(1) d' show ?thesis unfolding delete_ok_def by simp
  qed (use d' in simp)
  also have "\<dots> = filter P (b_elements B d)" by (rule filter_cong [OF refl]) (rule eq)
  finally show ?thesis unfolding P ids by simp
qed

text \<open>
  What opening a board lets through. A room that opens serves exactly the elements of the loaded (and,
  unless it is empty, migrated) document that pass the inspection, reports exactly the others, is within
  the size limit, reports a causal gap truthfully, opens only below the limit of rooms, and the server
  writes nothing of its own to the log.
\<close>

theorem opened_board_is_inspected:
  assumes "delete_ok B"
    and "openRoom E B limits aw0 rooms now b (Inr snap) latest [] lock = Inr (rep, room, effects)"
    and "d0 = rebuild (e_yjs E) (snap_bytes snap) (snap_updates snap)"
    and "d1 = (if b_noOps B d0 then d0 else b_migrate B d0)" "distinct (map fst (b_elements B d1))"
  shows "b_elements B (rm_doc room) = filter (\<lambda>(i, v). inspectElement B i v = None) (b_elements B d1) \<and>
    rep_quarantined rep = map fst (filter (\<lambda>(i, v). inspectElement B i v \<noteq> None) (b_elements B d1)) \<and>
    rep_bytes rep = length (y_encode (e_yjs E) (rm_doc room)) \<and> rep_bytes rep \<le> maxDocBytes limits \<and>
    rep_pending rep = y_pending (e_yjs E) d0 \<and> rooms < maxRoomsPerNode limits \<and>
    (rm_owner room \<longleftrightarrow> lock = None \<or> lock = Some (Some True)) \<and> (\<forall>u f. AppendUpdate u f \<notin> set effects)"
proof -
  obtain d2 ids where q: "quarantineInvalid B d1 = (d2, ids)" by (cases "quarantineInvalid B d1")
  note sound = quarantine_sound [OF assms(1,5) q]
  define room0 where "room0 = \<lparr> rm_board = b, rm_doc = d2, rm_sessions = [], rm_idle = False,
    rm_seq = (if e_log E then latest else 0), rm_save = saved, rm_compactedSeq = snap_seqUpto snap,
    rm_compactedAt = now, rm_compacting = False, rm_presence = new_presence (aw0 d2), rm_owner = (lock = None) \<rparr>"
  define lim where "lim \<longleftrightarrow> rooms \<ge> maxRoomsPerNode limits"
  define big where "big \<longleftrightarrow> length (y_encode (e_yjs E) d2) > maxDocBytes limits"
  define r where "r = (case lock of None \<Rightarrow> (room0, []) | Some a \<Rightarrow> refreshOwnership E now room0 True a)"
  have r: "rm_doc (fst r) = d2" "rm_owner (fst r) \<longleftrightarrow> lock = None \<or> lock = Some (Some True)" "snd r = []"
    by (cases lock; cases "the lock"; simp add: r_def room0_def refreshOwnership_def Let_def)+
  have "openRoom E B limits aw0 rooms now b (Inr snap) latest [] lock =
      (if lim then Inl (ServerBusy, True) else if big then Inl (DocTooLarge, True)
       else Inr (\<lparr> rep_quarantined = ids, rep_bytes = length (y_encode (e_yjs E) d2), rep_pending = y_pending (e_yjs E) d0 \<rparr>,
              fst r, publishToBus E STATE_REQUEST [] 0 @ snd r))"
    unfolding openRoom_def lim_def [symmetric] sum.case Let_def assms(3) [symmetric] assms(4) [symmetric] q
      prod.case room0_def [symmetric] fold_simps id_apply r_def [symmetric] big_def
    by (simp add: split_beta)
  with assms(2) have "\<not> lim" "\<not> big" "rep = \<lparr> rep_quarantined = ids, rep_bytes = length (y_encode (e_yjs E) d2),
      rep_pending = y_pending (e_yjs E) d0 \<rparr>" "room = fst r" "effects = publishToBus E STATE_REQUEST [] 0"
    using r(3) by (simp_all split: if_splits)
  moreover have "\<forall>u f. AppendUpdate u f \<notin> set (publishToBus E STATE_REQUEST [] 0)" by (simp add: publishToBus_def)
  ultimately show ?thesis using sound r by (simp add: lim_def big_def)
qed

text \<open>A board whose elements are the updates of the small room, keyed by their first byte.\<close>

definition demo_board :: "(bytes list, bytes, bytes) BoardDoc" where
  "demo_board = \<lparr> b_elements = (\<lambda>d. map (\<lambda>u. (show_nat (unat (hd u)), MapValue u)) d),
     b_delete = (\<lambda>d ids. filter (\<lambda>u. show_nat (unat (hd u)) \<notin> set ids) d), b_noOps = (\<lambda>d. d = []),
     b_migrate = (\<lambda>d. d), b_read = Some, b_parse = (\<lambda>u. if length u = 1 then Some (show_nat (unat (hd u))) else None) \<rparr>"

theorem opened_board_is_inspected_witness:
  "\<exists>rep room effects. openRoom (demo_env True) demo_board \<lparr> maxRoomsPerNode = 2, maxDocBytes = 9 \<rparr> (\<lambda>_. []) 0 0 ''b1''
      (Inr \<lparr> snap_bytes = None, snap_updates = [[7], [8, 8]], snap_seqUpto = 0 \<rparr>) 2 [] None = Inr (rep, room, effects) \<and>
    b_elements demo_board (rm_doc room) = [(''7'', MapValue [7])] \<and> rep_quarantined rep = [''8''] \<and> rm_owner room"
proof -
  let ?snap = "\<lparr> snap_bytes = None, snap_updates = [[7], [8, 8]], snap_seqUpto = 0 \<rparr> :: bytes BoardSnapshot"
  let ?open = "openRoom (demo_env True) demo_board \<lparr> maxRoomsPerNode = 2, maxDocBytes = 9 \<rparr> (\<lambda>_. []) 0 0 ''b1'' (Inr ?snap) 2 [] None"
  have del: "delete_ok demo_board" by (auto simp: delete_ok_def demo_board_def filter_map comp_def)
  have "\<exists>x. ?open = Inr x"
  proof (cases ?open)
    case (Inl e)
    have "isl ?open = False" by code_simp
    with Inl show ?thesis by simp
  qed (rule exI)
  then obtain x where "?open = Inr x" ..
  then obtain rep room effects where o: "?open = Inr (rep, room, effects)" by (cases x rule: prod_cases3) simp
  have d0: "[[7], [8, 8]] = rebuild (e_yjs (demo_env True)) (snap_bytes ?snap) (snap_updates ?snap)" by code_simp
  have d1: "[[7], [8, 8]] = (if b_noOps demo_board [[7], [8, 8]] then [[7], [8, 8]] else b_migrate demo_board [[7], [8, 8]])"
    by (simp add: demo_board_def)
  have keys: "distinct (map fst (b_elements demo_board [[7], [8, 8]]))" by code_simp
  have "filter (\<lambda>(i, v). inspectElement demo_board i v = None) (b_elements demo_board [[7], [8, 8]]) = [(''7'', MapValue [7])]"
    "map fst (filter (\<lambda>(i, v). inspectElement demo_board i v \<noteq> None) (b_elements demo_board [[7], [8, 8]])) = [''8'']"
    by code_simp+
  with opened_board_is_inspected [OF del o d0 d1 keys] o show ?thesis by simp
qed

subsection \<open>The messages between nodes die out\<close>

text \<open>
  Several nodes with a room of the same board each: the envelopes on their way to a node, and the appends
  a node waits for. Publishing reaches every node, the publisher too. Nothing happens on its own here: no
  client writes, no timer runs.
\<close>

record ('d, 'p) Nodes =
  nd_rooms :: "string \<Rightarrow> ('d, 'p) Room"
  nd_bus :: "(string \<times> BusEnvelope) multiset"
  nd_writes :: "(string \<times> bytes \<times> (nat \<times> string) option) multiset"

fun published :: "RoomEffect list \<Rightarrow> BusEnvelope list" where
  "published [] = []"
| "published (Publish env # es) = env # published es"
| "published (e # es) = published es"

definition spread :: "string list \<Rightarrow> RoomEffect list \<Rightarrow> (string \<times> BusEnvelope) multiset" where
  "spread nodes es = mset (concat (map (\<lambda>env. map (\<lambda>n. (n, env)) nodes) (published es)))"

definition outstanding :: "string \<Rightarrow> RoomEffect list \<Rightarrow> (string \<times> bytes \<times> (nat \<times> string) option) multiset" where
  "outstanding n es = mset (map (\<lambda>w. (n, w)) (appends es))"

inductive nodes_step :: "('d, 'p) RoomEnv \<Rightarrow> string list \<Rightarrow> ('d, 'p) Nodes \<Rightarrow> ('d, 'p) Nodes \<Rightarrow> bool" for E nodes where
  delivered: "nd_bus st = add_mset (n, env) rest \<Longrightarrow>
     handleBus (E\<lparr>e_node := n\<rparr>) now (nd_rooms st n) env = (room, es) \<Longrightarrow>
     nodes_step E nodes st \<lparr> nd_rooms = (nd_rooms st)(n := room), nd_bus = rest + spread nodes es,
       nd_writes = nd_writes st + outstanding n es \<rparr>"
| written: "nd_writes st = add_mset (n, u, f) rest \<Longrightarrow>
     appendEnded (E\<lparr>e_node := n\<rparr>) now (nd_rooms st n) u f res = (room, es) \<Longrightarrow>
     nodes_step E nodes st \<lparr> nd_rooms = (nd_rooms st)(n := room), nd_bus = nd_bus st + spread nodes es,
       nd_writes = rest + outstanding n es \<rparr>"

fun kind_weight :: "BusKind \<Rightarrow> nat" where
  "kind_weight STATE_REQUEST = 3" | "kind_weight UPDATE = 2" | "kind_weight SAVED = 0"
| "kind_weight BUS_AWARENESS = 0" | "kind_weight BUS_EPHEMERAL = 0"

definition nodes_weight :: "('d, 'p) Nodes \<Rightarrow> nat multiset" where
  "nodes_weight st = image_mset (\<lambda>x. kind_weight (env_kind (snd x))) (nd_bus st) + image_mset (\<lambda>_. 1) (nd_writes st)"

text \<open>The effects of a handler weigh less than what it handles.\<close>

definition lighter :: "nat \<Rightarrow> RoomEffect list \<Rightarrow> bool" where
  "lighter k es \<longleftrightarrow> (\<forall>env \<in> set (published es). kind_weight (env_kind env) < k) \<and> (appends es \<noteq> [] \<longrightarrow> 1 < k)"

lemma published_append [simp]: "published (xs @ ys) = published xs @ published ys"
  by (induction xs rule: published.induct) simp_all

lemma appends_append [simp]: "appends (xs @ ys) = appends xs @ appends ys"
  by (induction xs rule: appends.induct) simp_all

lemma sends_only [simp]:
  "published (map (\<lambda>s. Send (g s) (h s)) xs) = []" "appends (map (\<lambda>s. Send (g s) (h s)) xs) = []"
  "published (map (\<lambda>s. Relay (g s) b) xs) = []" "appends (map (\<lambda>s. Relay (g s) b) xs) = []"
  by (induction xs) simp_all

lemma announce_silent [simp]: "published (snd (announce room s)) = []" "appends (snd (announce room s)) = []"
  by (simp_all add: announce_def)

lemma fanout_silent [simp]: "published (fanoutLocal E room u f) = []" "appends (fanoutLocal E room u f) = []"
  by (simp_all add: fanoutLocal_def)

lemma publish_effects [simp]:
  "published (publishToBus E kind p s) =
     (if e_bus E then [\<lparr> env_node = e_node E, env_kind = kind, env_payload = p, env_seq = s \<rparr>] else [])"
  "appends (publishToBus E kind p s) = []"
  by (simp_all add: publishToBus_def)

lemma maybeCompact_silent [simp]:
  "published (snd (maybeCompact E now room)) = []" "appends (snd (maybeCompact E now room)) = []"
  by (simp_all add: maybeCompact_def split: option.split)

lemma persisted_lighter: "0 < k \<Longrightarrow> lighter k (snd (persisted E now room u f))"
  by (simp add: persisted_def Let_def lighter_def split_beta)

lemma appendEnded_lighter: "lighter 1 (snd (appendEnded E now room u f res))"
  using persisted_lighter [of 1 E now] by (simp add: appendEnded_def split: option.split) (simp add: lighter_def)

lemma persist_lighter: "lighter 2 (snd (persistAndFanout E now room u f))"
proof (cases "rm_owner room")
  case True
  have "lighter 2 (snd (persisted E now room u f))" by (rule persisted_lighter) simp
  with True show ?thesis by (simp add: persistAndFanout_def Let_def) (simp add: lighter_def)
qed (simp add: persistAndFanout_def Let_def split_beta lighter_def)

lemma remote_presence_silent:
  "published (snd (with_presence E room (presence_receiveRemote A st p))) = [] \<and>
   appends (snd (with_presence E room (presence_receiveRemote A st p))) = []"
proof -
  have "published (concat (map (presence_effect E room) es)) = [] \<and> appends (concat (map (presence_effect E room) es)) = []"
    if "\<forall>e \<in> set es. \<exists>b. e = PresenceBroadcast b None" for es
    using that by (induction es) auto
  moreover have "\<exists>b. e = PresenceBroadcast b None" if "e \<in> set (snd (presence_receiveRemote A st p))" for e
    using that by (auto simp: presence_receiveRemote_def presence_apply_def on_presence_def Let_def
        split: option.splits prod.splits if_splits)
  ultimately show ?thesis by (simp add: with_presence_def)
qed

lemma handleBus_lighter: "lighter (kind_weight (env_kind env)) (snd (handleBus E now room env))"
proof (cases "env_node env = e_node E")
  case True
  then show ?thesis by (simp add: handleBus_def lighter_def)
next
  case False
  show ?thesis
  proof (cases "env_kind env")
    case UPDATE
    have "lighter 2 (snd (onUpdate E now r u BusOrigin))" for r u
      using persist_lighter [of E now r u None] by (simp add: onUpdate_def Let_def split_beta)
    with False UPDATE show ?thesis
      by (simp add: handleBus_def Let_def split: option.split) (simp add: lighter_def)
  qed (use False remote_presence_silent in \<open>simp_all add: handleBus_def lighter_def\<close>)
qed

lemma lighter_mset:
  assumes "lighter k es"
  shows "(M + image_mset (\<lambda>x. kind_weight (env_kind (snd x))) (spread nodes es) +
    image_mset (\<lambda>_. 1) (outstanding n es), add_mset k M) \<in> mult1 {(x, y). x < y}"
proof -
  let ?K = "image_mset (\<lambda>x. kind_weight (env_kind (snd x))) (spread nodes es) + image_mset (\<lambda>_. 1) (outstanding n es)"
  have "(M + ?K, add_mset k M) \<in> mult1 {(x, y). x < y}"
  proof (rule mult1I [OF refl refl])
    fix w
    assume "w \<in># ?K"
    then show "(w, k) \<in> {(x, y). x < y}" using assms by (auto simp: lighter_def spread_def outstanding_def)
  qed
  then show ?thesis by (simp add: ac_simps)
qed

text \<open>
  C25. The messages between nodes die out. However many nodes are subscribed, whatever is on the bus and
  whichever appends succeed or fail: without new client activity only finitely many deliveries and
  acknowledgements can follow, so no update or state request ever circulates.
\<close>

theorem bus_traffic_terminates: "wfp (\<lambda>st' st. nodes_step E nodes st st')"
proof -
  have "(nodes_weight st', nodes_weight st) \<in> mult1 {(x, y). x < y}" if "nodes_step E nodes st st'" for st st'
    using that
  proof cases
    case (delivered n env rest now room es)
    have "lighter (kind_weight (env_kind env)) es"
      using handleBus_lighter [of env "E\<lparr>e_node := n\<rparr>" now "nd_rooms st n"] delivered(3) by simp
    from lighter_mset [OF this, of "image_mset (\<lambda>x. kind_weight (env_kind (snd x))) rest + image_mset (\<lambda>_. 1) (nd_writes st)" nodes n]
    show ?thesis by (simp add: nodes_weight_def delivered ac_simps)
  next
    case (written n u f rest now res room es)
    have "lighter 1 es"
      using appendEnded_lighter [of "E\<lparr>e_node := n\<rparr>" now "nd_rooms st n" u f res] written(3) by simp
    from lighter_mset [OF this, of "image_mset (\<lambda>x. kind_weight (env_kind (snd x))) (nd_bus st) + image_mset (\<lambda>_. 1) rest" nodes n]
    show ?thesis by (simp add: nodes_weight_def written ac_simps)
  qed
  then have "{(st', st). nodes_step E nodes st st'} \<subseteq> inv_image (mult1 {(x, y). x < y}) nodes_weight"
    by (auto simp: inv_image_def)
  moreover have "wf (mult1 {(x :: nat, y). x < y})" by (rule wf_mult1) (rule wf)
  ultimately have "wf {(st', st). nodes_step E nodes st st'}" by (blast intro: wf_subset wf_inv_image)
  then show ?thesis by (simp add: wfp_def)
qed

subsection \<open>What an announced number does not promise\<close>

definition refused :: "('d, 'p) RoomEnv \<Rightarrow> epoch_ms \<Rightarrow> ('d, 'p) Live \<Rightarrow> ('d, 'p) Live" where
  "refused E now st = (case lv_queue st of [] \<Rightarrow> st | (u, f) # ys \<Rightarrow>
     absorb (st\<lparr>lv_queue := ys\<rparr>) (appendEnded E now (lv_room st) u f None))"

lemma refused_step: "lv_queue st = (u, f) # ys \<Longrightarrow> live_step E st (refused E now st)"
  using live_step.failed [of st "[]" u f ys E now] by (simp add: refused_def)

lemma refused_fields:
  assumes "lv_queue st = (u, f) # ys"
  shows "lv_queue (refused E now st) = ys" "lv_log (refused E now st) = lv_log st" "lv_acks (refused E now st) = lv_acks st"
    "rm_doc (lv_room (refused E now st)) = rm_doc (lv_room st)" "rm_seq (lv_room (refused E now st)) = rm_seq (lv_room st)"
    "rm_sessions (lv_room (refused E now st)) = rm_sessions (lv_room st)"
  using assms by (simp_all add: refused_def absorb_def appendEnded_def)

lemma maybeCompact_fields:
  "rm_doc (fst (maybeCompact E now room)) = rm_doc room" "rm_seq (fst (maybeCompact E now room)) = rm_seq room"
  by (simp_all add: maybeCompact_def split: option.split)

lemma appended_silent: "appends (snd (appendEnded E now room u f (Some q))) = []"
  by (simp add: appendEnded_def persisted_def Let_def split_beta)

lemma appended_document: "rm_doc (fst (appendEnded E now room u f (Some q))) = rm_doc room"
  by (simp add: appendEnded_def persisted_def Let_def split_beta maybeCompact_fields)

lemma appended_announces:
  assumes "s \<in> set (rm_sessions room)" "rm_seq room < q"
  shows "Send (ses_id s) (HB_ROOM_INFO (length (rm_sessions room)) q saved)
      \<in> set (snd (appendEnded E now room u f (Some q)))"
  using assms by (simp add: appendEnded_def persisted_def Let_def split_beta announce_def max_def)

text \<open>
  C24. A refused append is not written again, and "saved" does not mean what the author wrote. From every
  state in which two appends are on their way to the log, whatever the room, its clients and its log hold:
  if the log refuses the first and commits the second, the room goes on to tell every client that all up to
  the new number is saved, while the first update, which the room's document keeps and every peer that joins
  will see, is neither in the log nor on its way there.
\<close>

theorem saved_without_the_update:
  assumes "lv_queue st = (u, f) # (v, g) # ys" "rm_seq (lv_room st) \<le> length (lv_log st)"
  shows "\<exists>st'. (live_step E)\<^sup>*\<^sup>* st st' \<and> rm_doc (lv_room st') = rm_doc (lv_room st) \<and>
     lv_log st' = lv_log st @ [v] \<and> lv_queue st' = ys \<and> lv_acks st' = lv_acks st \<and>
     (\<forall>s. s \<in> set (rm_sessions (lv_room st)) \<longrightarrow>
        Send (ses_id s) (HB_ROOM_INFO (length (rm_sessions (lv_room st))) (length (lv_log st) + 1) saved)
          \<in> set (lv_out st'))"
proof (intro exI conjI allI impI)
  let ?a = "refused E 0 st" and ?q = "length (lv_log st) + 1"
  note a = refused_fields [OF assms(1), of E 0]
  let ?b = "?a\<lparr>lv_log := lv_log ?a @ [v], lv_queue := [] @ ys, lv_acks := lv_acks ?a @ [(v, g, length (lv_log ?a) + 1)]\<rparr>"
  let ?c = "absorb (?b\<lparr>lv_acks := lv_acks st @ []\<rparr>) (appendEnded E 0 (lv_room ?b) v g (Some ?q))"
  have "live_step E st ?a" by (rule refused_step [OF assms(1)])
  moreover have "live_step E ?a ?b" by (rule live_step.committed) (simp add: a)
  moreover have "live_step E ?b ?c" by (rule live_step.acknowledged) (simp add: a)
  ultimately show "(live_step E)\<^sup>*\<^sup>* st ?c"
    by (meson rtranclp.rtrancl_into_rtrancl rtranclp.rtrancl_refl)
  have seq: "rm_seq (lv_room ?b) < ?q" using assms(2) by (simp add: a)
  { fix s assume "s \<in> set (rm_sessions (lv_room st))"
    then have "s \<in> set (rm_sessions (lv_room ?b))" by (simp add: a)
    note said = appended_announces [OF this seq, of E 0 v g]
    show "Send (ses_id s) (HB_ROOM_INFO (length (rm_sessions (lv_room st))) ?q saved) \<in> set (lv_out ?c)"
      using said by (simp add: absorb_def a) }
  show "rm_doc (lv_room ?c) = rm_doc (lv_room st)" "lv_log ?c = lv_log st @ [v]" "lv_queue ?c = ys" "lv_acks ?c = lv_acks st"
    by (simp_all add: absorb_def a appended_document appended_silent)
qed

theorem saved_without_the_update_witness:
  "\<exists>st'. (live_step (demo_env False))\<^sup>*\<^sup>* (demo_write 8 (demo_write 7 demo_start)) st' \<and>
     rm_doc (lv_room st') = [[7], [8]] \<and> lv_log st' = [[8]] \<and> lv_queue st' = [] \<and> lv_acks st' = [] \<and>
     Send 1 (HB_ROOM_INFO 1 1 saved) \<in> set (lv_out st')"
proof -
  let ?st = "demo_write 8 (demo_write 7 demo_start)"
  have "lv_queue ?st = [([7], Some (1, ''u1'')), ([8], Some (1, ''u1''))]" by code_simp
  moreover have "rm_seq (lv_room ?st) \<le> length (lv_log ?st)" by code_simp
  moreover have "demo_session 1 editor \<in> set (rm_sessions (lv_room ?st))" by code_simp
  moreover have "rm_doc (lv_room ?st) = [[7], [8]]" "lv_log ?st = []" "lv_acks ?st = []"
    "length (rm_sessions (lv_room ?st)) = 1" "ses_id (demo_session 1 editor) = 1" by code_simp+
  ultimately show ?thesis
    using saved_without_the_update [of ?st "[7]" "Some (1, ''u1'')" "[8]" "Some (1, ''u1'')" "[]" "demo_env False"]
    by fastforce
qed

end
