(* ===== verification/Clock.thy ===== *)
theory Clock
  imports Period
begin

text \<open>
  The JavaScript \<open>Date\<close> as a number: \<open>getTime\<close> counts milliseconds since 1970 over the UTC fields
  of an \<open>Instant\<close>, \<open>toISOString\<close> prints them. The services compare times only through
  \<open>getTime\<close> and through the comparison operators of Postgres, which agree with it; it is strictly monotone
  in the calendar order of \<open>Period\<close>.
\<close>

subsection \<open>Days and milliseconds\<close>

definition leap_days_before :: "int \<Rightarrow> int" where
  "leap_days_before y = (y - 1) div 4 - (y - 1) div 100 + (y - 1) div 400"

definition days_before_year :: "int \<Rightarrow> int" where
  "days_before_year y = 365 * (y - 1970) + leap_days_before y - leap_days_before 1970"

definition days_before_month :: "int \<Rightarrow> nat \<Rightarrow> int" where
  "days_before_month y m = sum_list (map (\<lambda>i. days_in_month y (int i)) [0..<m])"

definition month_start :: "int \<Rightarrow> int" where
  "month_start i = days_before_year (i div 12) + days_before_month (i div 12) (nat (i mod 12))"

definition getTime :: "Instant \<Rightarrow> epoch_ms" where
  "getTime t = 86400000 * month_start (month_index t) + ms_of_month t"

definition pad2 :: "int \<Rightarrow> string" where
  "pad2 n = pad_start 2 (CHR ''0'') (show_nat (nat n))"

definition toISOString :: "Instant \<Rightarrow> string" where
  "toISOString t =
     pad_start 4 (CHR ''0'') (show_nat (nat (getUTCFullYear t))) @ ''-'' @ pad2 (getUTCMonth t + 1) @ ''-'' @
     pad2 (getUTCDate t) @ ''T'' @ pad2 (getUTCHours t) @ '':'' @ pad2 (getUTCMinutes t) @ '':'' @
     pad2 (getUTCSeconds t) @ ''.'' @ pad_start 3 (CHR ''0'') (show_nat (nat (getUTCMilliseconds t))) @ ''Z''"

subsection \<open>Monotonicity\<close>

lemma div_step:
  assumes "0 < (k::int)"
  shows "y div k - (y - 1) div k = (if y mod k = 0 then 1 else 0)"
proof (cases "y mod k = 0")
  case True
  have "k * (y div k) = y" using True mult_div_mod_eq [of k y] by simp
  then have "y - 1 = k * (y div k - 1) + (k - 1)" unfolding right_diff_distrib by linarith
  then have "(y - 1) div k = y div k - 1" by (rule int_div_pos_eq) (use assms in simp_all)
  then show ?thesis using True by simp
next
  case False
  have "0 \<le> y mod k - 1" "y mod k - 1 < k"
    using False assms pos_mod_bound [of k y] pos_mod_sign [of k y] by linarith+
  moreover have "y - 1 = k * (y div k) + (y mod k - 1)" using mult_div_mod_eq [of k y] by linarith
  ultimately have "(y - 1) div k = y div k" by (intro int_div_pos_eq)
  then show ?thesis using False by simp
qed

lemma days_before_year_step:
  "days_before_year (y + 1) = days_before_year y + (if is_leap y then 366 else 365)"
proof -
  have logic: "(if p \<and> (\<not> q \<or> r) then 1 else 0) =
      (if p then 1 else 0) - (if q then 1 else 0) + (if r then 1 else (0::int))"
    if "r \<Longrightarrow> q" "q \<Longrightarrow> p" for p q r using that by auto
  have "y mod 400 = 0 \<Longrightarrow> y mod 100 = 0" "y mod 100 = 0 \<Longrightarrow> y mod 4 = 0"
    unfolding dvd_eq_mod_eq_0 [symmetric] by (erule dvd_trans [rotated], simp)+
  then have leap: "(if is_leap y then 1 else 0) =
      (if y mod 4 = 0 then 1 else 0) - (if y mod 100 = 0 then 1 else 0) + (if y mod 400 = 0 then 1 else (0::int))"
    unfolding is_leap_def by (rule logic)
  have "leap_days_before (y + 1) - leap_days_before y =
      (y div 4 - (y - 1) div 4) - (y div 100 - (y - 1) div 100) + (y div 400 - (y - 1) div 400)"
    by (simp add: leap_days_before_def)
  also have "\<dots> = (if is_leap y then 1 else 0)" by (simp only: leap div_step zero_less_numeral)
  finally show ?thesis by (simp add: days_before_year_def split: if_splits)
qed

lemma days_before_month_step: "days_before_month y (Suc m) = days_before_month y m + days_in_month y (int m)"
  by (simp add: days_before_month_def)

lemma days_before_month_year: "days_before_month y 12 = (if is_leap y then 366 else 365)"
  by (simp add: days_before_month_def days_in_month_def eval_nat_numeral)

lemma month_start_step: "month_start (i + 1) = month_start i + days_in_month (i div 12) (i mod 12)"
proof (cases "i mod 12 = 11")
  case True
  then have e: "i + 1 = 12 * (i div 12 + 1) + 0" using True mult_div_mod_eq [of 12 i] unfolding distrib_left by simp
  have n: "(i + 1) div 12 = i div 12 + 1" "(i + 1) mod 12 = 0"
    using int_div_pos_eq [OF e] int_mod_pos_eq [OF e] by simp_all
  have "days_before_month (i div 12) 12 = days_before_month (i div 12) 11 + days_in_month (i div 12) 11"
    using days_before_month_step [of "i div 12" 11] by simp
  then show ?thesis
    using n True days_before_year_step [of "i div 12"] days_before_month_year [of "i div 12"]
    by (simp add: month_start_def days_before_month_def)
next
  case False
  have b: "0 \<le> i mod 12 + 1" "i mod 12 + 1 < 12"
    using False pos_mod_bound [of 12 i] pos_mod_sign [of 12 i] by linarith+
  have e: "i + 1 = 12 * (i div 12) + (i mod 12 + 1)" using mult_div_mod_eq [of 12 i] by linarith
  have n: "(i + 1) div 12 = i div 12" "(i + 1) mod 12 = i mod 12 + 1"
    using int_div_pos_eq [OF e b] int_mod_pos_eq [OF e b] by simp_all
  have "nat (i mod 12 + 1) = Suc (nat (i mod 12))" by (simp add: nat_add_distrib)
  then show ?thesis by (simp add: month_start_def n days_before_month_step)
qed

lemma month_start_later:
  "i < j \<Longrightarrow> month_start i + days_in_month (i div 12) (i mod 12) \<le> month_start j"
proof (induction j rule: int_gr_induct)
  case base
  then show ?case by (simp add: month_start_step)
next
  case (step j)
  then show ?case
    using month_start_step [of j] days_in_month_bounds(1) [of "j div 12" "j mod 12"] by linarith
qed

lemma ms_of_month_bounds:
  assumes "wf_instant t"
  shows "0 \<le> ms_of_month t"
    "ms_of_month t < 86400000 * days_in_month (getUTCFullYear t) (getUTCMonth t)"
proof -
  have d: "0 \<le> ms_of_day t" "ms_of_day t < 86400000" using ms_of_day_bounds [OF assms] by simp_all
  have "1 \<le> getUTCDate t" "getUTCDate t \<le> days_in_month (getUTCFullYear t) (getUTCMonth t)"
    using assms by (simp_all add: wf_instant_def)
  moreover from this have "(getUTCDate t - 1) * 86400000 + 86400000 \<le>
      86400000 * days_in_month (getUTCFullYear t) (getUTCMonth t)"
    using mult_left_mono [of "getUTCDate t" _ 86400000] by (simp add: algebra_simps)
  moreover from calculation have "0 \<le> (getUTCDate t - 1) * 86400000" by simp
  ultimately show "0 \<le> ms_of_month t"
    "ms_of_month t < 86400000 * days_in_month (getUTCFullYear t) (getUTCMonth t)"
    using d unfolding ms_of_month_def by simp_all
qed

lemma month_index_fields:
  "wf_instant t \<Longrightarrow> month_index t div 12 = getUTCFullYear t \<and> month_index t mod 12 = getUTCMonth t"
  by (simp add: month_index_def wf_instant_def)

lemma getTime_month_less:
  assumes "wf_instant s" "wf_instant t" "month_index s < month_index t"
  shows "getTime s < getTime t"
proof -
  have "month_start (month_index s) + days_in_month (getUTCFullYear s) (getUTCMonth s) \<le> month_start (month_index t)"
    using month_start_later [OF assms(3)] month_index_fields [OF assms(1)] by simp
  then show ?thesis
    using ms_of_month_bounds(2) [OF assms(1)] ms_of_month_bounds(1) [OF assms(2)]
    unfolding getTime_def by linarith
qed

lemma before_iff_getTime:
  assumes "wf_instant s" "wf_instant t"
  shows "before s t \<longleftrightarrow> getTime s \<le> getTime t"
  using getTime_month_less [OF assms] getTime_month_less [OF assms(2,1)]
  by (cases "month_index s = month_index t") (auto simp: before_def getTime_def linorder_neq_iff)

text \<open>A subscription period is never empty: its end is strictly later.\<close>

lemma computePeriod_later:
  assumes "wf_instant a"
  shows "getTime a < getTime (period_end (computePeriod a p))" "wf_instant (period_end (computePeriod a p))"
    "period_start (computePeriod a p) = a"
proof -
  have "wf_instant (addUtcMonths a 12)" "wf_instant (addUtcMonths a 1)"
    using addUtcMonths_wf assms by simp_all
  moreover have "month_index a < month_index (addUtcMonths a 12)" "month_index a < month_index (addUtcMonths a 1)"
    using addUtcMonths_fields(1) assms by simp_all
  ultimately show "getTime a < getTime (period_end (computePeriod a p))"
    "wf_instant (period_end (computePeriod a p))" "period_start (computePeriod a p) = a"
    using getTime_month_less assms by (simp_all add: computePeriod_def)
qed

end
