(* ===== verification/BillingDb.thy ===== *)
theory BillingDb
  imports Clock Gateways
begin

text \<open>
  The tables behind the billing services (\<open>apps/api/migrations\<close>, read by
  \<open>apps/api/src/services/billing.ts\<close>): one record per row, one list per table. A statement that writes
  is checked against the CHECK constraints and unique indexes of the migrations when it ends (\<open>exec\<close>);
  an error ends the transaction and leaves the database as it was (\<open>withTransaction\<close>). Lengths of text
  columns and foreign keys are not modelled: no operation deletes a row.
\<close>

subsection \<open>Rows\<close>

datatype PaymentStatus = P_pending | P_paid | P_failed | P_canceled | P_refunded | P_verify_failed

datatype InvoiceStatus = I_draft | I_open | I_paid | I_void | I_refunded

datatype SubscriptionStatus = S_trialing | S_active | S_past_due | S_canceled | S_expired

text \<open>The columns of a manual transfer: the claim of the customer and what staff saw on the statement.\<close>

record TransferColumns =
  tr_claimed_ref :: "string option"
  tr_claimed_last4 :: "string option"
  tr_claimed_at :: "Instant option"
  tr_ref :: "string option"
  tr_sender_last4 :: "string option"
  tr_approved_by :: "string option"
  tr_approved_at :: "Instant option"

definition no_transfer :: TransferColumns where
  "no_transfer = \<lparr> tr_claimed_ref = None, tr_claimed_last4 = None, tr_claimed_at = None, tr_ref = None,
     tr_sender_last4 = None, tr_approved_by = None, tr_approved_at = None \<rparr>"

record Payment =
  pay_id :: string
  pay_team :: string
  pay_initiated_by :: string
  pay_invoice :: "string option"
  pay_amount :: rial
  pay_status :: PaymentStatus
  pay_authority :: "string option"
  pay_request :: json
  pay_gateway :: string
  pay_mode :: string
  pay_idem :: string
  pay_requested_at :: Instant
  pay_failure_code :: "string option"
  pay_ref_id :: "string option"
  pay_card_pan :: "string option"
  pay_card_hash :: "string option"
  pay_fee :: "rial option"
  pay_paid_at :: "Instant option"
  pay_verified_at :: "Instant option"
  pay_verify_payload :: "json option"
  pay_callback_payload :: "json option"
  pay_refunded_at :: "Instant option"
  pay_refund_ref :: "string option"
  pay_refund_amount :: "rial option"
  pay_transfer :: TransferColumns

record Invoice =
  inv_id :: string
  inv_team :: string
  inv_number :: string
  inv_subtotal :: rial
  inv_discount :: rial
  inv_vat :: rial
  inv_total :: rial
  inv_status :: InvoiceStatus
  inv_line_items :: "InvoiceLineItem list"
  inv_coupon :: "string option"
  inv_vat_percent :: int
  inv_issued_at :: Instant
  inv_paid_at :: "Instant option"
  inv_refunded_at :: "Instant option"

record Subscription =
  sub_id :: string
  sub_team :: string
  sub_plan :: string
  sub_status :: SubscriptionStatus
  sub_period :: BillingPeriod
  sub_seats :: int
  sub_start :: Instant
  sub_end :: Instant
  sub_cancel_at_end :: bool
  sub_canceled_at :: "Instant option"
  sub_payment :: "string option"
  sub_unit_price :: "rial option"

record Coupon =
  cp_code :: string
  cp_percent_off :: "int option"
  cp_amount_off :: "rial option"
  cp_max_redemptions :: "int option"
  cp_redeemed_count :: int
  cp_valid_from :: "Instant option"
  cp_valid_until :: "Instant option"
  cp_plan_codes :: "string list"

record Redemption =
  rd_coupon :: string
  rd_team :: string
  rd_invoice :: string

record PlanRow =
  pl_plan :: Plan
  pl_max_members :: int
  pl_max_boards :: int
  pl_max_storage_bytes :: int
  pl_is_active :: bool

text \<open>\<open>audit_logs\<close>: the network columns and the free-form metadata other than text fields are dropped.\<close>

record AuditEntry =
  ae_actor :: "string option"
  ae_action :: string
  ae_target :: string
  ae_metadata :: "(string \<times> string) list"

record BillingDb =
  payments :: "Payment list"
  invoices :: "Invoice list"
  subscriptions :: "Subscription list"
  coupons :: "Coupon list"
  redemptions :: "Redemption list"
  sequences :: "(nat \<times> int) list"
  plans :: "PlanRow list"
  audit_logs :: "AuditEntry list"

subsection \<open>Constraints\<close>

datatype BillingError =
    HttpError nat string
  | BadCharge InvalidChargeError
  | BadPeriod PeriodError
  | UniqueViolation string
  | CheckViolation string

text \<open>\<open>LIVE_SUBSCRIPTION_STATUSES\<close>, the same set as the partial index \<open>subscriptions_active_uq\<close>.\<close>

definition LIVE_SUBSCRIPTION_STATUSES :: "SubscriptionStatus set" where
  "LIVE_SUBSCRIPTION_STATUSES = {S_trialing, S_active, S_past_due}"

definition is_live :: "Subscription \<Rightarrow> bool" where
  "is_live s \<longleftrightarrow> sub_status s \<in> LIVE_SUBSCRIPTION_STATUSES"

definition last4_ck :: "string option \<Rightarrow> bool" where
  "last4_ck v \<longleftrightarrow> (case v of None \<Rightarrow> True | Some s \<Rightarrow> length s = 4 \<and> set s \<subseteq> set ''0123456789'')"

definition transfer_ck :: "Payment \<Rightarrow> bool" where
  "transfer_ck p \<longleftrightarrow>
     ((tr_approved_at (pay_transfer p) \<noteq> None) =
        (tr_ref (pay_transfer p) \<noteq> None \<and> tr_approved_by (pay_transfer p) \<noteq> None)) \<and>
     ((tr_claimed_at (pay_transfer p) \<noteq> None) = (tr_claimed_ref (pay_transfer p) \<noteq> None)) \<and>
     (pay_gateway p = ''card_transfer'' \<or> pay_transfer p = no_transfer) \<and>
     last4_ck (tr_claimed_last4 (pay_transfer p)) \<and> last4_ck (tr_sender_last4 (pay_transfer p))"

definition refund_ck :: "Payment \<Rightarrow> bool" where
  "refund_ck p \<longleftrightarrow>
     ((pay_status p = P_refunded) = (pay_refunded_at p \<noteq> None \<and> pay_refund_amount p \<noteq> None)) \<and>
     (pay_refund_amount p = None \<or> pay_refund_amount p = Some (pay_amount p)) \<and>
     ((pay_status p = P_paid \<or> pay_status p = P_refunded) = (pay_paid_at p \<noteq> None))"

definition payment_ck :: "Payment \<Rightarrow> bool" where
  "payment_ck p \<longleftrightarrow>
     pay_gateway p \<in> {''zarinpal'', ''idpay'', ''mock'', ''card_transfer''} \<and>
     pay_mode p \<in> {''sandbox'', ''production''} \<and> 1000 \<le> pay_amount p \<and> refund_ck p \<and> transfer_ck p"

definition invoice_ck :: "Invoice \<Rightarrow> bool" where
  "invoice_ck i \<longleftrightarrow>
     inv_subtotal i - inv_discount i + inv_vat i = inv_total i \<and>
     0 \<le> inv_discount i \<and> inv_discount i \<le> inv_subtotal i \<and>
     0 \<le> inv_subtotal i \<and> 0 \<le> inv_vat i \<and> 0 \<le> inv_total i \<and>
     0 \<le> inv_vat_percent i \<and> inv_vat_percent i \<le> 100 \<and>
     ((inv_status i = I_paid \<or> inv_status i = I_refunded) = (inv_paid_at i \<noteq> None)) \<and>
     ((inv_status i = I_refunded) = (inv_refunded_at i \<noteq> None))"

definition subscription_ck :: "Subscription \<Rightarrow> bool" where
  "subscription_ck s \<longleftrightarrow> 1 \<le> sub_seats s \<and> getTime (sub_start s) < getTime (sub_end s) \<and>
     (case sub_unit_price s of None \<Rightarrow> True | Some n \<Rightarrow> 0 \<le> n)"

definition coupon_ck :: "Coupon \<Rightarrow> bool" where
  "coupon_ck c \<longleftrightarrow>
     (cp_percent_off c = None) \<noteq> (cp_amount_off c = None) \<and>
     (case cp_percent_off c of None \<Rightarrow> True | Some n \<Rightarrow> 0 < n \<and> n \<le> 100) \<and>
     (case cp_amount_off c of None \<Rightarrow> True | Some n \<Rightarrow> 0 < n) \<and>
     0 \<le> cp_redeemed_count c \<and>
     (case cp_max_redemptions c of None \<Rightarrow> True | Some n \<Rightarrow> cp_redeemed_count c \<le> n)"

definition authority_keys :: "Payment list \<Rightarrow> (string \<times> string option) list" where
  "authority_keys t = map (\<lambda>p. (pay_gateway p, pay_authority p)) (filter (\<lambda>p. pay_authority p \<noteq> None) t)"

definition transfer_keys :: "Payment list \<Rightarrow> (string \<times> string option) list" where
  "transfer_keys t =
     map (\<lambda>p. (pay_gateway p, tr_ref (pay_transfer p))) (filter (\<lambda>p. tr_ref (pay_transfer p) \<noteq> None) t)"

definition payments_error :: "Payment list \<Rightarrow> BillingError option" where
  "payments_error t =
     (if \<not> list_all payment_ck t then Some (CheckViolation ''payments'')
      else if \<not> distinct (map pay_id t) then Some (UniqueViolation ''payments_pkey'')
      else if \<not> distinct (map pay_idem t) then Some (UniqueViolation ''payments_idem_uq'')
      else if \<not> distinct (authority_keys t) then Some (UniqueViolation ''payments_authority_uq'')
      else if \<not> distinct (transfer_keys t) then Some (UniqueViolation ''payments_transfer_ref_uq'')
      else None)"

definition invoices_error :: "Invoice list \<Rightarrow> BillingError option" where
  "invoices_error t =
     (if \<not> list_all invoice_ck t then Some (CheckViolation ''invoices'')
      else if \<not> distinct (map inv_id t) then Some (UniqueViolation ''invoices_pkey'')
      else if \<not> distinct (map inv_number t) then Some (UniqueViolation ''invoices_number_key'')
      else None)"

definition subscriptions_error :: "Subscription list \<Rightarrow> BillingError option" where
  "subscriptions_error t =
     (if \<not> list_all subscription_ck t then Some (CheckViolation ''subscriptions'')
      else if \<not> distinct (map sub_id t) then Some (UniqueViolation ''subscriptions_pkey'')
      else if \<not> distinct (map sub_team (filter is_live t)) then Some (UniqueViolation ''subscriptions_active_uq'')
      else None)"

definition coupons_error :: "Coupon list \<Rightarrow> BillingError option" where
  "coupons_error t =
     (if \<not> list_all coupon_ck t then Some (CheckViolation ''coupons_redemptions_ck'')
      else if \<not> distinct (map cp_code t) then Some (UniqueViolation ''coupons_pkey'')
      else None)"

definition redemptions_error :: "Redemption list \<Rightarrow> BillingError option" where
  "redemptions_error t =
     (if \<not> distinct (map (\<lambda>r. (rd_coupon r, rd_team r)) t) then Some (UniqueViolation ''coupon_redemptions_pkey'')
      else None)"

definition sequences_error :: "(nat \<times> int) list \<Rightarrow> BillingError option" where
  "sequences_error t =
     (if \<not> list_all (\<lambda>(y, n). 1400 \<le> y \<and> y \<le> 1500 \<and> 0 \<le> n) t then Some (CheckViolation ''invoice_sequences'')
      else if \<not> distinct (map fst t) then Some (UniqueViolation ''invoice_sequences_pkey'')
      else None)"

definition db_error :: "BillingDb \<Rightarrow> BillingError option" where
  "db_error db =
     (case payments_error (payments db) of Some e \<Rightarrow> Some e | None \<Rightarrow>
     (case invoices_error (invoices db) of Some e \<Rightarrow> Some e | None \<Rightarrow>
     (case subscriptions_error (subscriptions db) of Some e \<Rightarrow> Some e | None \<Rightarrow>
     (case coupons_error (coupons db) of Some e \<Rightarrow> Some e | None \<Rightarrow>
     (case redemptions_error (redemptions db) of Some e \<Rightarrow> Some e | None \<Rightarrow>
      sequences_error (sequences db))))))"

definition db_valid :: "BillingDb \<Rightarrow> bool" where
  "db_valid db \<longleftrightarrow> db_error db = None"

text \<open>One statement: the new tables, unless they violate a constraint.\<close>

definition exec :: "BillingDb \<Rightarrow> BillingError + BillingDb" where
  "exec db = (case db_error db of Some e \<Rightarrow> Inl e | None \<Rightarrow> Inr db)"

lemma exec_Inr_iff: "exec db = Inr db' \<longleftrightarrow> db' = db \<and> db_valid db"
  by (auto simp: exec_def db_valid_def split: option.splits)

lemma exec_valid: "db_valid db \<Longrightarrow> exec db = Inr db"
  by (simp add: exec_Inr_iff)

lemma db_valid_iff:
  "db_valid db \<longleftrightarrow> payments_error (payments db) = None \<and> invoices_error (invoices db) = None \<and>
     subscriptions_error (subscriptions db) = None \<and> coupons_error (coupons db) = None \<and>
     redemptions_error (redemptions db) = None \<and> sequences_error (sequences db) = None"
  by (auto simp: db_valid_def db_error_def split: option.splits)

lemma payments_error_None:
  "payments_error t = None \<longleftrightarrow> list_all payment_ck t \<and> distinct (map pay_id t) \<and> distinct (map pay_idem t) \<and>
     distinct (authority_keys t) \<and> distinct (transfer_keys t)"
  by (auto simp: payments_error_def)

lemma invoices_error_None:
  "invoices_error t = None \<longleftrightarrow> list_all invoice_ck t \<and> distinct (map inv_id t) \<and> distinct (map inv_number t)"
  by (auto simp: invoices_error_def)

lemma subscriptions_error_None:
  "subscriptions_error t = None \<longleftrightarrow> list_all subscription_ck t \<and> distinct (map sub_id t) \<and>
     distinct (map sub_team (filter is_live t))"
  by (auto simp: subscriptions_error_def)

lemma coupons_error_None:
  "coupons_error t = None \<longleftrightarrow> list_all coupon_ck t \<and> distinct (map cp_code t)"
  by (auto simp: coupons_error_def)

subsection \<open>Updates by primary key\<close>

text \<open>An update that keeps the key columns keeps every unique index.\<close>

lemma map_sql_update: "(\<And>r. p r \<Longrightarrow> k (f r) = k r) \<Longrightarrow> map k (sql_update p f t) = map k t"
  by (induction t) auto

lemma filter_map_sql_update:
  assumes "\<And>r. p r \<Longrightarrow> k (f r) = k r" "\<And>r. p r \<Longrightarrow> q (f r) = q r"
  shows "map k (filter q (sql_update p f t)) = map k (filter q t)"
  using assms by (induction t) auto

lemma list_all_sql_update:
  "list_all c t \<Longrightarrow> (\<And>r. r \<in> set t \<Longrightarrow> p r \<Longrightarrow> c r \<Longrightarrow> c (f r)) \<Longrightarrow> list_all c (sql_update p f t)"
  by (induction t) auto

lemma payments_error_update:
  assumes "payments_error t = None"
    and "\<And>r. r \<in> set t \<Longrightarrow> p r \<Longrightarrow> payment_ck r \<Longrightarrow> payment_ck (f r)"
    and "\<And>r. pay_id (f r) = pay_id r" "\<And>r. pay_idem (f r) = pay_idem r" "\<And>r. pay_gateway (f r) = pay_gateway r"
      "\<And>r. pay_authority (f r) = pay_authority r" "\<And>r. tr_ref (pay_transfer (f r)) = tr_ref (pay_transfer r)"
  shows "payments_error (sql_update p f t) = None"
proof -
  have "authority_keys (sql_update p f t) = authority_keys t" "transfer_keys (sql_update p f t) = transfer_keys t"
    unfolding authority_keys_def transfer_keys_def by (rule filter_map_sql_update, simp_all add: assms)+
  then show ?thesis
    using assms by (simp add: payments_error_None map_sql_update list_all_sql_update)
qed

lemma find_id_unique:
  assumes "distinct (map k t)" "r \<in> set t"
  shows "find (\<lambda>x. k x = k r) t = Some r"
  using assms by (intro find_unique) (auto simp: distinct_map dest: inj_onD)

end
