(* ===== verification/Billing.thy ===== *)
theory Billing
  imports BillingDb
begin

text \<open>
  \<open>apps/api/src/services/billing.ts\<close>: settling a payment, the only way a subscription becomes active;
  creating the invoice and the pending payment of a checkout; voiding a checkout whose gateway call
  failed; refunding. Every function takes the database as its transaction sees it and returns an error or
  a result with the new database. The gateway of a call is the record of its answers at that call; random
  identifiers and the two clocks (\<open>now()\<close> of Postgres and \<open>new Date()\<close>) come in an \<open>Env\<close>. Message
  texts are dropped.
\<close>

subsection \<open>Inputs\<close>

record Env =
  env_now :: Instant
  env_date :: Instant
  env_uuid1 :: string
  env_uuid2 :: string

text \<open>A card transfer gateway answers from the database of the running transaction.\<close>

record Gateway =
  gw_name :: string
  gw_mode :: string
  gw_verify :: "BillingDb \<Rightarrow> string \<Rightarrow> rial \<Rightarrow> VerifyOutcome"
  gw_refund :: "(string \<Rightarrow> rial \<Rightarrow> RefundOutcome) option"

datatype SettleOutcome =
    Activated (so_subscription: string) (so_invoice: string) (so_ref: string)
  | AlreadySettled "string option" "string option" PaymentStatus
  | StillNotPaid "int option"
  | SettleUnknown

record SettleHooks =
  onSettled :: "SettleOutcome \<Rightarrow> BillingDb \<Rightarrow> BillingError + BillingDb"
  callbackPayload :: "json option"

definition no_hooks :: SettleHooks where
  "no_hooks = \<lparr> onSettled = (\<lambda>_ db. Inr db), callbackPayload = None \<rparr>"

datatype PaymentLocator = ById string | ByAuthority string

record PurchaseIntent =
  in_planCode :: string
  in_period :: BillingPeriod
  in_seats :: int
  in_unitPriceRial :: rial
  in_couponCode :: "string option"

subsection \<open>Reading the frozen purchase\<close>

definition period_name :: "BillingPeriod \<Rightarrow> string" where
  "period_name p = (case p of Monthly \<Rightarrow> ''monthly'' | Yearly \<Rightarrow> ''yearly'')"

definition read_period :: "json option \<Rightarrow> BillingPeriod option" where
  "read_period v = (if v = Some (JStr ''monthly'') then Some Monthly
                    else if v = Some (JStr ''yearly'') then Some Yearly else None)"

definition read_safe_integer :: "json option \<Rightarrow> int option" where
  "read_safe_integer v =
     (case as_number v of None \<Rightarrow> None | Some n \<Rightarrow> if is_safe_integer n then Some n else None)"

definition internal_error :: BillingError where "internal_error = HttpError 500 ''INTERNAL''"

definition readIntent :: "json \<Rightarrow> BillingError + PurchaseIntent" where
  "readIntent raw =
     (case as_string (get_field raw ''planCode'') of None \<Rightarrow> Inl internal_error
      | Some planCode \<Rightarrow>
     (if planCode = [] then Inl internal_error else
     (case read_period (get_field raw ''period'') of None \<Rightarrow> Inl internal_error
      | Some period \<Rightarrow>
     (case read_safe_integer (get_field raw ''seats'') of None \<Rightarrow> Inl internal_error
      | Some seats \<Rightarrow>
     (if seats < 1 then Inl internal_error else
     (case read_safe_integer (get_field raw ''unitPriceRial'') of None \<Rightarrow> Inl internal_error
      | Some unit \<Rightarrow>
        Inr \<lparr> in_planCode = planCode, in_period = period, in_seats = seats, in_unitPriceRial = unit,
              in_couponCode = as_string (get_field raw ''couponCode'') \<rparr>))))))"

text \<open>What \<open>JSON.stringify\<close> of the intent and the snapshot of the transfer destination is parsed to.\<close>

definition json_of_option :: "string option \<Rightarrow> json" where
  "json_of_option v = (case v of None \<Rightarrow> JNull | Some s \<Rightarrow> JStr s)"

definition intent_json :: "PurchaseIntent \<Rightarrow> (string \<times> string option) list option \<Rightarrow> json" where
  "intent_json i snapshot =
     JObj ([(''planCode'', JStr (in_planCode i)), (''period'', JStr (period_name (in_period i))),
            (''seats'', JNum (in_seats i)), (''unitPriceRial'', JNum (in_unitPriceRial i)),
            (''couponCode'', json_of_option (in_couponCode i))] @
           (case snapshot of None \<Rightarrow> []
            | Some kvs \<Rightarrow> [(''gatewaySnapshot'', JObj (map (\<lambda>(k, v). (k, json_of_option v)) kvs))]))"

subsection \<open>Statements\<close>

definition set_payment :: "string \<Rightarrow> (Payment \<Rightarrow> Payment) \<Rightarrow> BillingDb \<Rightarrow> BillingError + BillingDb" where
  "set_payment i f db = exec (db\<lparr>payments := sql_update (\<lambda>p. pay_id p = i) f (payments db)\<rparr>)"

definition set_invoice ::
  "(Invoice \<Rightarrow> bool) \<Rightarrow> (Invoice \<Rightarrow> Invoice) \<Rightarrow> BillingDb \<Rightarrow> BillingError + BillingDb" where
  "set_invoice c f db = exec (db\<lparr>invoices := sql_update c f (invoices db)\<rparr>)"

definition set_subscription ::
  "(Subscription \<Rightarrow> bool) \<Rightarrow> (Subscription \<Rightarrow> Subscription) \<Rightarrow> BillingDb \<Rightarrow> BillingError + BillingDb" where
  "set_subscription c f db = exec (db\<lparr>subscriptions := sql_update c f (subscriptions db)\<rparr>)"

definition payment_by_id :: "BillingDb \<Rightarrow> string \<Rightarrow> Payment option" where
  "payment_by_id db i = find (\<lambda>p. pay_id p = i) (payments db)"

definition activated_by :: "string \<Rightarrow> Subscription \<Rightarrow> bool" where
  "activated_by i s \<longleftrightarrow> sub_payment s = Some i"

definition verifyPayloadOf :: "VerifyOutcome \<Rightarrow> Instant \<Rightarrow> json" where
  "verifyPayloadOf verdict now =
     JObj [(''status'', JStr (case verdict of Paid _ _ _ _ _ \<Rightarrow> ''paid'' | NotPaid _ \<Rightarrow> ''notPaid''
                              | GatewayError _ \<Rightarrow> ''gatewayError'')),
           (''code'', case verdict of NotPaid (Some c) \<Rightarrow> JNum c | GatewayError (Some c) \<Rightarrow> JNum c | _ \<Rightarrow> JNull),
           (''alreadyVerified'', case verdict of Paid a _ _ _ _ \<Rightarrow> JBool a | _ \<Rightarrow> JNull),
           (''refId'', case verdict of Paid _ r _ _ _ \<Rightarrow> JStr r | _ \<Rightarrow> JNull),
           (''feeRial'', case verdict of Paid _ _ _ _ (Some f) \<Rightarrow> JNum f | _ \<Rightarrow> JNull),
           (''at'', JStr (toISOString now))]"

subsection \<open>Settling\<close>

definition assertGatewayMatches :: "Payment \<Rightarrow> Gateway \<Rightarrow> BillingError + unit" where
  "assertGatewayMatches row gateway =
     (if pay_gateway row \<noteq> gw_name gateway \<or> pay_mode row \<noteq> gw_mode gateway
      then Inl (HttpError 409 ''CONFLICT'') else Inr ())"

definition lockPaymentForSettle :: "Gateway \<Rightarrow> PaymentLocator \<Rightarrow> BillingDb \<Rightarrow> BillingError + Payment" where
  "lockPaymentForSettle gateway locator db =
     (case (case locator of
              ById i \<Rightarrow> payment_by_id db i
            | ByAuthority a \<Rightarrow>
                find (\<lambda>p. pay_gateway p = gw_name gateway \<and> pay_authority p = Some a) (payments db)) of
        None \<Rightarrow> Inl (HttpError 404 ''PAYMENT_NOT_FOUND'')
      | Some payment \<Rightarrow> and_then (assertGatewayMatches payment gateway) (\<lambda>_. Inr payment))"

definition upsertSubscription ::
  "Env \<Rightarrow> string \<Rightarrow> string \<Rightarrow> PurchaseIntent \<Rightarrow> BillingDb \<Rightarrow> BillingError + string \<times> BillingDb" where
  "upsertSubscription env teamId paymentId intent db =
     (let live = find (\<lambda>s. sub_team s = teamId \<and> is_live s) (subscriptions db);
          now = env_date env;
          anchor = (case live of
                      Some s \<Rightarrow> if sub_plan s = in_planCode intent \<and> getTime (sub_end s) > getTime now
                                 then sub_end s else now
                    | None \<Rightarrow> now);
          period = computePeriod anchor (in_period intent);
          new = \<lparr> sub_id = env_uuid1 env, sub_team = teamId, sub_plan = in_planCode intent,
                  sub_status = S_active, sub_period = in_period intent, sub_seats = in_seats intent,
                  sub_start = period_start period, sub_end = period_end period,
                  sub_cancel_at_end = False, sub_canceled_at = None,
                  sub_payment = Some paymentId, sub_unit_price = Some (in_unitPriceRial intent) \<rparr>
      in and_then
           (case live of None \<Rightarrow> Inr db
            | Some s \<Rightarrow> set_subscription (\<lambda>q. sub_id q = sub_id s) (\<lambda>q. q\<lparr>sub_status := S_expired\<rparr>) db)
           (\<lambda>db1. and_then (exec (db1\<lparr>subscriptions := subscriptions db1 @ [new]\<rparr>))
             (\<lambda>db2. Inr (sub_id new, db2))))"

text \<open>The coupon is consumed when the payment activates, and counted only when its row is new.\<close>

definition redeemCoupon :: "string \<Rightarrow> string \<Rightarrow> string \<Rightarrow> BillingDb \<Rightarrow> BillingError + BillingDb" where
  "redeemCoupon code teamId invoiceId db =
     (if \<exists>r \<in> set (redemptions db). rd_coupon r = code \<and> rd_team r = teamId then Inr db
      else and_then
        (exec (db\<lparr>redemptions := redemptions db @
                   [\<lparr> rd_coupon = code, rd_team = teamId, rd_invoice = invoiceId \<rparr>]\<rparr>))
        (\<lambda>db1. exec (db1\<lparr>coupons := sql_update (\<lambda>c. cp_code c = code)
                 (\<lambda>c. c\<lparr>cp_redeemed_count := cp_redeemed_count c + 1\<rparr>) (coupons db1)\<rparr>)))"

definition activateFromPayment ::
  "Env \<Rightarrow> Payment \<Rightarrow> BillingDb \<Rightarrow> BillingError + (string \<times> string) \<times> BillingDb" where
  "activateFromPayment env payment db =
     (case pay_invoice payment of
        None \<Rightarrow> Inl internal_error
      | Some invoiceId \<Rightarrow>
          and_then (readIntent (pay_request payment)) (\<lambda>intent.
          and_then (set_invoice (\<lambda>i. inv_id i = invoiceId)
                      (\<lambda>i. i\<lparr>inv_status := I_paid, inv_paid_at := Some (env_now env)\<rparr>) db) (\<lambda>db1.
          and_then (case in_couponCode intent of None \<Rightarrow> Inr db1
                    | Some code \<Rightarrow> redeemCoupon code (pay_team payment) invoiceId db1) (\<lambda>db2.
          and_then (upsertSubscription env (pay_team payment) (pay_id payment) intent db2) (\<lambda>(subId, db3).
          Inr ((subId, invoiceId), db3))))))"

definition code_text :: "int option \<Rightarrow> string option" where
  "code_text c = (case c of None \<Rightarrow> None | Some n \<Rightarrow> Some (show_int n))"

definition settleLocked ::
  "Env \<Rightarrow> Gateway \<Rightarrow> Payment \<Rightarrow> json option \<Rightarrow> BillingDb \<Rightarrow> BillingError + SettleOutcome \<times> BillingDb" where
  "settleLocked env gateway payment callback db =
     and_then
       (case callback of None \<Rightarrow> Inr db
        | Some c \<Rightarrow> set_payment (pay_id payment) (\<lambda>p. p\<lparr>pay_callback_payload := Some c\<rparr>) db)
       (\<lambda>db1.
          if pay_status payment \<noteq> P_pending then
            Inr (AlreadySettled (map_option sub_id (find (activated_by (pay_id payment)) (subscriptions db1)))
                   (pay_invoice payment) (pay_status payment), db1)
          else
            (case pay_authority payment of
               None \<Rightarrow> Inr (SettleUnknown, db1)
             | Some authority \<Rightarrow>
                 (let verdict = gw_verify gateway db1 authority (pay_amount payment);
                      payload = Some (verifyPayloadOf verdict (env_date env))
                  in case verdict of
                       GatewayError c \<Rightarrow>
                         and_then (set_payment (pay_id payment) (\<lambda>p. p\<lparr>pay_verify_payload := payload\<rparr>) db1)
                           (\<lambda>db2. Inr (SettleUnknown, db2))
                     | NotPaid c \<Rightarrow>
                         and_then (set_payment (pay_id payment)
                             (\<lambda>p. p\<lparr>pay_failure_code := code_text c, pay_verified_at := Some (env_now env),
                                    pay_verify_payload := payload\<rparr>) db1)
                           (\<lambda>db2. Inr (StillNotPaid c, db2))
                     | Paid already ref pan hash fee \<Rightarrow>
                         and_then (activateFromPayment env payment db1) (\<lambda>((subId, invoiceId), db2).
                         and_then (set_payment (pay_id payment)
                             (\<lambda>p. p\<lparr>pay_status := P_paid, pay_ref_id := Some ref, pay_card_pan := pan,
                                    pay_card_hash := hash, pay_fee := fee,
                                    pay_paid_at := Some (env_now env), pay_verified_at := Some (env_now env),
                                    pay_failure_code := None, pay_verify_payload := payload\<rparr>) db2) (\<lambda>db3.
                         Inr (Activated subId invoiceId ref, db3))))))"

definition settle_tx ::
  "Env \<Rightarrow> Gateway \<Rightarrow> PaymentLocator \<Rightarrow> SettleHooks \<Rightarrow> BillingDb \<Rightarrow> BillingError + SettleOutcome \<times> BillingDb" where
  "settle_tx env gateway locator hooks db =
     and_then (lockPaymentForSettle gateway locator db) (\<lambda>payment.
     and_then (settleLocked env gateway payment (callbackPayload hooks) db) (\<lambda>(outcome, db1).
     and_then (onSettled hooks outcome db1) (\<lambda>db2.
     Inr (outcome, db2))))"

definition settlePayment ::
  "Env \<Rightarrow> Gateway \<Rightarrow> PaymentLocator \<Rightarrow> SettleHooks \<Rightarrow> BillingDb \<Rightarrow> (BillingError + SettleOutcome) \<times> BillingDb" where
  "settlePayment env gateway locator hooks = withTransaction (settle_tx env gateway locator hooks)"

subsection \<open>Checkout\<close>

record CheckoutInput =
  co_teamId :: string
  co_userId :: string
  co_planCode :: string
  co_period :: BillingPeriod
  co_seats :: int
  co_couponCode :: "string option"
  co_vatPercent :: int
  co_gatewayName :: string
  co_gatewayMode :: string
  co_snapshot :: "(string \<times> string option) list option"

record CheckoutDraft =
  dr_paymentId :: string
  dr_invoiceId :: string
  dr_amountRial :: rial
  dr_invoiceNumber :: string
  dr_replayed :: bool

definition coupon_invalid :: "nat \<Rightarrow> BillingError" where
  "coupon_invalid status = HttpError status ''COUPON_INVALID''"

definition coupon_exhausted :: BillingError where
  "coupon_exhausted = HttpError 409 ''COUPON_EXHAUSTED''"

definition resolveCoupon ::
  "Env \<Rightarrow> string \<Rightarrow> string option \<Rightarrow> string \<Rightarrow> BillingDb \<Rightarrow> BillingError + CouponEffect option" where
  "resolveCoupon env teamId code planCode db =
     (case code of None \<Rightarrow> Inr None
      | Some code \<Rightarrow>
     (case find (\<lambda>c. cp_code c = code) (coupons db) of None \<Rightarrow> Inl (coupon_invalid 404)
      | Some c \<Rightarrow>
          if (case cp_valid_from c of None \<Rightarrow> False | Some t \<Rightarrow> getTime t > getTime (env_date env))
          then Inl (coupon_invalid 409)
          else if (case cp_valid_until c of None \<Rightarrow> False | Some t \<Rightarrow> getTime t < getTime (env_date env))
          then Inl (coupon_invalid 409)
          else if cp_plan_codes c \<noteq> [] \<and> planCode \<notin> set (cp_plan_codes c) then Inl (coupon_invalid 409)
          else if (case cp_max_redemptions c of None \<Rightarrow> False | Some n \<Rightarrow> cp_redeemed_count c \<ge> n)
          then Inl coupon_exhausted
          else if \<exists>r \<in> set (redemptions db). rd_coupon r = code \<and> rd_team r = teamId then Inl coupon_exhausted
          else Inr (Some (case cp_percent_off c of
                            Some n \<Rightarrow> CouponPercent n
                          | None \<Rightarrow> CouponAmount (case cp_amount_off c of None \<Rightarrow> 0 | Some n \<Rightarrow> n)))))"

definition nextSequence :: "nat \<Rightarrow> (nat \<times> int) list \<Rightarrow> int \<times> (nat \<times> int) list" where
  "nextSequence year t =
     (case map_of t year of
        None \<Rightarrow> (1, t @ [(year, 1)])
      | Some n \<Rightarrow> (n + 1, sql_update (\<lambda>r. fst r = year) (\<lambda>r. (fst r, n + 1)) t))"

definition find_prior :: "string \<Rightarrow> BillingDb \<Rightarrow> CheckoutDraft option" where
  "find_prior key db =
     (case find (\<lambda>p. pay_idem p = key) (payments db) of None \<Rightarrow> None
      | Some p \<Rightarrow>
          Some \<lparr> dr_paymentId = pay_id p,
                 dr_invoiceId = (case pay_invoice p of None \<Rightarrow> [] | Some i \<Rightarrow> i),
                 dr_amountRial = pay_amount p,
                 dr_invoiceNumber =
                   (case pay_invoice p of None \<Rightarrow> []
                    | Some i \<Rightarrow> (case find (\<lambda>q. inv_id q = i) (invoices db) of
                                  None \<Rightarrow> [] | Some q \<Rightarrow> inv_number q)),
                 dr_replayed = True \<rparr>)"

definition price_checkout :: "Env \<Rightarrow> CheckoutInput \<Rightarrow> BillingDb \<Rightarrow> BillingError + PlanRow \<times> Charge" where
  "price_checkout env inp db =
     (case find (\<lambda>r. plan_code (pl_plan r) = co_planCode inp) (plans db) of
        None \<Rightarrow> Inl (HttpError 404 ''PLAN_NOT_FOUND'')
      | Some row \<Rightarrow>
          if \<not> pl_is_active row then Inl (HttpError 409 ''PLAN_INACTIVE'')
          else
            and_then (resolveCoupon env (co_teamId inp) (co_couponCode inp) (co_planCode inp) db) (\<lambda>coupon.
            and_then (map_sum BadCharge id
                (computeCharge \<lparr> ci_plan = pl_plan row, ci_period = co_period inp, ci_seats = co_seats inp,
                                 ci_coupon = coupon, ci_vatPercent = co_vatPercent inp \<rparr>)) (\<lambda>charge.
            if totalRial charge = 0 then Inl (HttpError 409 ''PLAN_INACTIVE'')
            else and_then (map_sum BadCharge id (assertGatewayAmount (totalRial charge)))
                   (\<lambda>_. Inr (row, charge)))))"

definition new_invoice :: "Env \<Rightarrow> CheckoutInput \<Rightarrow> Charge \<Rightarrow> string \<Rightarrow> Invoice" where
  "new_invoice env inp charge number =
     \<lparr> inv_id = env_uuid1 env, inv_team = co_teamId inp, inv_number = number,
       inv_subtotal = subtotalRial charge, inv_discount = discountRial charge, inv_vat = vatRial charge,
       inv_total = totalRial charge, inv_status = I_open, inv_line_items = lineItems charge,
       inv_coupon = co_couponCode inp, inv_vat_percent = ch_vatPercent charge,
       inv_issued_at = env_date env, inv_paid_at = None, inv_refunded_at = None \<rparr>"

definition new_payment :: "Env \<Rightarrow> CheckoutInput \<Rightarrow> PlanRow \<Rightarrow> Charge \<Rightarrow> string \<Rightarrow> Payment" where
  "new_payment env inp row charge key =
     \<lparr> pay_id = env_uuid2 env, pay_team = co_teamId inp, pay_initiated_by = co_userId inp,
       pay_invoice = Some (env_uuid1 env), pay_amount = totalRial charge, pay_status = P_pending,
       pay_authority = None,
       pay_request = intent_json
         \<lparr> in_planCode = plan_code (pl_plan row), in_period = co_period inp, in_seats = co_seats inp,
           in_unitPriceRial = li_unitPriceRial (hd (lineItems charge)), in_couponCode = co_couponCode inp \<rparr>
         (co_snapshot inp),
       pay_gateway = co_gatewayName inp, pay_mode = co_gatewayMode inp, pay_idem = key,
       pay_requested_at = env_now env, pay_failure_code = None, pay_ref_id = None, pay_card_pan = None,
       pay_card_hash = None, pay_fee = None, pay_paid_at = None, pay_verified_at = None,
       pay_verify_payload = None, pay_callback_payload = None, pay_refunded_at = None,
       pay_refund_ref = None, pay_refund_amount = None, pay_transfer = no_transfer \<rparr>"

text \<open>\<open>prior\<close> is what the first \<open>SELECT\<close> of the transaction saw; \<open>intl\<close> yields Jalali years.\<close>

definition createCheckout_after ::
  "(Instant \<Rightarrow> nat option) \<Rightarrow> Env \<Rightarrow> CheckoutInput \<Rightarrow> string \<Rightarrow> CheckoutDraft option \<Rightarrow> BillingDb \<Rightarrow>
     BillingError + CheckoutDraft \<times> BillingDb" where
  "createCheckout_after intl env inp key prior db =
     (case prior of
        Some draft \<Rightarrow> Inr (draft, db)
      | None \<Rightarrow>
          and_then (price_checkout env inp db) (\<lambda>(row, charge).
          and_then (map_sum BadPeriod id (jalaliYearOf intl (env_date env))) (\<lambda>year.
          (let (n, seqs) = nextSequence year (sequences db) in
          and_then (exec (db\<lparr>sequences := seqs\<rparr>)) (\<lambda>db1.
          and_then (map_sum BadPeriod id (formatInvoiceNumber intl (env_date env) n)) (\<lambda>number.
          and_then (exec (db1\<lparr>invoices := invoices db1 @ [new_invoice env inp charge number]\<rparr>)) (\<lambda>db2.
          and_then (exec (db2\<lparr>payments := payments db2 @ [new_payment env inp row charge key]\<rparr>)) (\<lambda>db3.
          Inr (\<lparr> dr_paymentId = env_uuid2 env, dr_invoiceId = env_uuid1 env,
                 dr_amountRial = totalRial charge, dr_invoiceNumber = number, dr_replayed = False \<rparr>,
               db3)))))))))"

definition createCheckout ::
  "(Instant \<Rightarrow> nat option) \<Rightarrow> Env \<Rightarrow> CheckoutInput \<Rightarrow> string \<Rightarrow> BillingDb \<Rightarrow>
     BillingError + CheckoutDraft \<times> BillingDb" where
  "createCheckout intl env inp key db = createCheckout_after intl env inp key (find_prior key db) db"

text \<open>
  Two requests with one key may both see no row: the first attempt read \<open>seen\<close>, an older state than the
  one its inserts meet. One retry, in a fresh transaction.
\<close>

definition createCheckoutIdempotent ::
  "(Instant \<Rightarrow> nat option) \<Rightarrow> Env \<Rightarrow> Env \<Rightarrow> CheckoutInput \<Rightarrow> string \<Rightarrow> BillingDb \<Rightarrow> BillingDb \<Rightarrow>
     (BillingError + CheckoutDraft) \<times> BillingDb" where
  "createCheckoutIdempotent intl env env' inp key seen db =
     (case withTransaction (createCheckout_after intl env inp key (find_prior key seen)) db of
        (Inl (UniqueViolation c), db') \<Rightarrow> withTransaction (createCheckout intl env' inp key) db'
      | r \<Rightarrow> r)"

text \<open>The two statements of \<open>voidFailedCheckout\<close>; the routes send them on the pool, each committed on its own.\<close>

definition voidInvoice :: "string \<Rightarrow> BillingDb \<Rightarrow> BillingError + BillingDb" where
  "voidInvoice paymentId db =
     (let invoiceId = (case payment_by_id db paymentId of None \<Rightarrow> None | Some p \<Rightarrow> pay_invoice p) in
      set_invoice (\<lambda>i. invoiceId = Some (inv_id i) \<and> inv_status i = I_open) (\<lambda>i. i\<lparr>inv_status := I_void\<rparr>) db)"

definition failPayment :: "string \<Rightarrow> string \<Rightarrow> BillingDb \<Rightarrow> BillingError + BillingDb" where
  "failPayment paymentId failureCode db =
     exec (db\<lparr>payments := sql_update (\<lambda>p. pay_id p = paymentId \<and> pay_status p = P_pending)
             (\<lambda>p. p\<lparr>pay_status := P_failed, pay_failure_code := Some failureCode\<rparr>) (payments db)\<rparr>)"

text \<open>An error of the second leaves the first written.\<close>

definition voidFailedCheckout :: "string \<Rightarrow> string \<Rightarrow> BillingDb \<Rightarrow> (BillingError + unit) \<times> BillingDb" where
  "voidFailedCheckout paymentId failureCode db =
     (case voidInvoice paymentId db of
        Inl e \<Rightarrow> (Inl e, db)
      | Inr db1 \<Rightarrow>
          (case failPayment paymentId failureCode db1 of
             Inl e \<Rightarrow> (Inl e, db1)
           | Inr db2 \<Rightarrow> (Inr (), db2)))"

subsection \<open>Refunding\<close>

datatype RefundSource = ManualRefund string | GatewayRefund

record RefundOutcomeRows =
  ro_paymentId :: string
  ro_refundRef :: string
  ro_amountRial :: rial
  ro_canceled :: "string option"
  ro_couponCode :: "string option"
  ro_restored :: "string option"

definition resolveRefundRef :: "Gateway \<Rightarrow> Payment \<Rightarrow> RefundSource \<Rightarrow> BillingError + string" where
  "resolveRefundRef gateway payment source =
     (case source of
        ManualRefund ref \<Rightarrow> Inr ref
      | GatewayRefund \<Rightarrow>
     (case gw_refund gateway of None \<Rightarrow> Inl (HttpError 409 ''REFUND_UNAVAILABLE'')
      | Some refund \<Rightarrow>
     (case pay_authority payment of None \<Rightarrow> Inl (HttpError 409 ''INVALID_TRANSITION'')
      | Some authority \<Rightarrow>
     (case refund authority (pay_amount payment) of
        Refunded ref \<Rightarrow> Inr ref
      | RefundUnavailable \<Rightarrow> Inl (HttpError 409 ''REFUND_UNAVAILABLE'')
      | RefundRejected c \<Rightarrow> Inl (HttpError 409 ''REFUND_REJECTED'')
      | RefundGatewayError c \<Rightarrow> Inl (HttpError 502 ''GATEWAY_UNAVAILABLE'')))))"

text \<open>
  The expired subscription that the canceled one had replaced: its end is the start of the canceled one,
  lies in the future, and its own payment is still paid.
\<close>

definition replaced_by :: "Env \<Rightarrow> string \<Rightarrow> Instant \<Rightarrow> BillingDb \<Rightarrow> Subscription \<Rightarrow> bool" where
  "replaced_by env teamId start db s \<longleftrightarrow>
     sub_team s = teamId \<and> sub_status s = S_expired \<and> getTime (sub_end s) = getTime start \<and>
     getTime (sub_end s) > getTime (env_now env) \<and>
     (\<exists>p \<in> set (payments db). sub_payment s = Some (pay_id p) \<and> pay_status p = P_paid)"

definition refund_rows :: "Env \<Rightarrow> Payment \<Rightarrow> string \<Rightarrow> BillingDb \<Rightarrow> BillingError + BillingDb" where
  "refund_rows env payment reference db =
     and_then (set_payment (pay_id payment)
         (\<lambda>p. p\<lparr>pay_status := P_refunded, pay_refunded_at := Some (env_now env),
                pay_refund_ref := Some reference, pay_refund_amount := Some (pay_amount p)\<rparr>) db) (\<lambda>db1.
     case pay_invoice payment of None \<Rightarrow> Inr db1
     | Some invoiceId \<Rightarrow>
         set_invoice (\<lambda>i. inv_id i = invoiceId \<and> inv_status i = I_paid)
           (\<lambda>i. i\<lparr>inv_status := I_refunded, inv_refunded_at := Some (env_now env)\<rparr>) db1)"

definition restore_replaced ::
  "Env \<Rightarrow> string \<Rightarrow> Subscription \<Rightarrow> BillingDb \<Rightarrow> BillingError + string option \<times> BillingDb" where
  "restore_replaced env teamId canceled db =
     (case find (replaced_by env teamId (sub_start canceled) db) (subscriptions db) of
        None \<Rightarrow> Inr (None, db)
      | Some s \<Rightarrow>
          and_then (set_subscription (\<lambda>q. sub_id q = sub_id s) (\<lambda>q. q\<lparr>sub_status := S_active\<rparr>) db)
            (\<lambda>db1. Inr (Some (sub_id s), db1)))"

definition refundPayment ::
  "Env \<Rightarrow> Gateway \<Rightarrow> string \<Rightarrow> RefundSource \<Rightarrow> BillingDb \<Rightarrow> BillingError + RefundOutcomeRows \<times> BillingDb" where
  "refundPayment env gateway paymentId source db =
     (case payment_by_id db paymentId of
        None \<Rightarrow> Inl (HttpError 404 ''PAYMENT_NOT_FOUND'')
      | Some payment \<Rightarrow>
          and_then (assertGatewayMatches payment gateway) (\<lambda>_.
          if pay_status payment \<noteq> P_paid then Inl (HttpError 409 ''INVALID_TRANSITION'')
          else
            and_then (resolveRefundRef gateway payment source) (\<lambda>reference.
            and_then (refund_rows env payment reference db) (\<lambda>db1.
            (let canceled = find (\<lambda>s. activated_by (pay_id payment) s \<and> is_live s) (subscriptions db1) in
            and_then
              (case canceled of None \<Rightarrow> Inr (None, db1)
               | Some s \<Rightarrow>
                   and_then (set_subscription (\<lambda>q. sub_id q = sub_id s)
                       (\<lambda>q. q\<lparr>sub_status := S_canceled, sub_canceled_at := Some (env_now env)\<rparr>) db1)
                     (restore_replaced env (pay_team payment) s))
              (\<lambda>(restored, db2).
                Inr (\<lparr> ro_paymentId = pay_id payment, ro_refundRef = reference,
                       ro_amountRial = pay_amount payment, ro_canceled = map_option sub_id canceled,
                       ro_couponCode = as_string (get_field (pay_request payment) ''couponCode''),
                       ro_restored = restored \<rparr>, db2)))))))"

end
