(* ===== verification/Reconcile.thy ===== *)
theory Reconcile
  imports Billing Sweep
begin

text \<open>
  \<open>apps/api/src/services/reconcile.ts\<close> and \<open>apps/api/src/services/card-transfer.ts\<close>: the sweep over
  pending payments, which decides with the pure functions of \<open>Sweep\<close> and settles with
  \<open>settlePayment\<close>; expiry, which asks the gateway once more under the row lock; the adoption of
  orphans; the end of finished subscriptions; the claim and the approval of a manual transfer. A run of the
  sweep makes many transactions: the clocks and identifiers of transaction \<open>k\<close> are \<open>env k\<close>, and the gateway
  may answer differently in each (\<open>gateway k\<close>).
\<close>

subsection \<open>The audit log\<close>

definition recordAudit ::
  "string option \<Rightarrow> string \<Rightarrow> string \<Rightarrow> (string \<times> string) list \<Rightarrow> BillingDb \<Rightarrow> BillingDb" where
  "recordAudit actor action target metadata db =
     db\<lparr>audit_logs := audit_logs db @
          [\<lparr> ae_actor = actor, ae_action = action, ae_target = target, ae_metadata = metadata \<rparr>]\<rparr>"

definition outcome_kind :: "SettleOutcome \<Rightarrow> string" where
  "outcome_kind o' = (case o' of Activated _ _ _ \<Rightarrow> ''activated'' | AlreadySettled _ _ _ \<Rightarrow> ''alreadySettled''
     | StillNotPaid _ \<Rightarrow> ''notPaid'' | SettleUnknown \<Rightarrow> ''unknown'')"

definition auditSweepSettle ::
  "string option \<Rightarrow> string \<Rightarrow> SettleOutcome \<Rightarrow> string \<Rightarrow> BillingDb \<Rightarrow> BillingDb" where
  "auditSweepSettle actor paymentId outcome via db =
     (if outcome_kind outcome \<noteq> ''activated'' then db
      else recordAudit actor ''payment.verify'' paymentId
             [(''via'', via), (''outcome'', outcome_kind outcome)] db)"

subsection \<open>One payment\<close>

definition settleOne ::
  "Env \<Rightarrow> Gateway \<Rightarrow> string option \<Rightarrow> string \<Rightarrow> BillingDb \<Rightarrow> (BillingError + SettleOutcome) \<times> BillingDb" where
  "settleOne env gateway actor paymentId =
     settlePayment env gateway (ById paymentId)
       \<lparr> onSettled = (\<lambda>outcome db. Inr (auditSweepSettle actor paymentId outcome ''reconcile'' db)),
         callbackPayload = None \<rparr>"

definition applyExpiry ::
  "Env \<Rightarrow> Payment \<Rightarrow> string option \<Rightarrow> string \<Rightarrow> string option \<Rightarrow> BillingDb \<Rightarrow> BillingError + BillingDb" where
  "applyExpiry env payment actor reason failureCode db =
     and_then (set_payment (pay_id payment)
         (\<lambda>p. p\<lparr>pay_status := P_canceled, pay_failure_code := Some ''EXPIRED'',
                pay_verified_at := Some (env_now env)\<rparr>) db) (\<lambda>db1.
     and_then (case pay_invoice payment of None \<Rightarrow> Inr db1
               | Some invoiceId \<Rightarrow>
                   set_invoice (\<lambda>i. inv_id i = invoiceId \<and> inv_status i = I_open)
                     (\<lambda>i. i\<lparr>inv_status := I_void\<rparr>) db1) (\<lambda>db2.
     Inr (recordAudit actor ''payment.expire'' (pay_id payment)
            ((''reason'', reason) #
             (case failureCode of None \<Rightarrow> [] | Some c \<Rightarrow> [(''lastGatewayCode'', c)])) db2)))"

datatype ExpireKind = Expired | ExpireActivated | ExpireAlreadySettled | ExpireUnknown

definition expire_tx ::
  "Env \<Rightarrow> Gateway \<Rightarrow> string option \<Rightarrow> string \<Rightarrow> string \<Rightarrow> BillingDb \<Rightarrow> BillingError + ExpireKind \<times> BillingDb" where
  "expire_tx env gateway actor paymentId reason db =
     and_then (lockPaymentForSettle gateway (ById paymentId) db) (\<lambda>payment.
     if pay_status payment \<noteq> P_pending then Inr (ExpireAlreadySettled, db)
     else
       and_then (settleLocked env gateway payment None db) (\<lambda>(outcome, db1).
       (let db2 = auditSweepSettle actor paymentId outcome ''expire'' db1 in
        case outcome of
          Activated _ _ _ \<Rightarrow> Inr (ExpireActivated, db2)
        | AlreadySettled _ _ _ \<Rightarrow> Inr (ExpireAlreadySettled, db2)
        | SettleUnknown \<Rightarrow> Inr (ExpireUnknown, db2)
        | StillNotPaid c \<Rightarrow>
            and_then (applyExpiry env payment actor reason (code_text c) db2) (\<lambda>db3.
            Inr (Expired, db3)))))"

definition expireStalePayment ::
  "Env \<Rightarrow> Gateway \<Rightarrow> string option \<Rightarrow> string \<Rightarrow> string \<Rightarrow> BillingDb \<Rightarrow> (BillingError + ExpireKind) \<times> BillingDb" where
  "expireStalePayment env gateway actor paymentId reason =
     withTransaction (expire_tx env gateway actor paymentId reason)"

text \<open>The guard \<open>authority IS NULL\<close> is part of the statement: the result says whether a row was hit.\<close>

definition adopt_tx ::
  "string option \<Rightarrow> string \<Rightarrow> string \<Rightarrow> BillingDb \<Rightarrow> BillingError + bool \<times> BillingDb" where
  "adopt_tx actor paymentId authority db =
     (if \<not> (\<exists>p \<in> set (payments db). pay_id p = paymentId \<and> pay_authority p = None) then Inr (False, db)
      else and_then
        (exec (db\<lparr>payments := sql_update (\<lambda>p. pay_id p = paymentId \<and> pay_authority p = None)
                 (\<lambda>p. p\<lparr>pay_authority := Some authority\<rparr>) (payments db)\<rparr>))
        (\<lambda>db1. Inr (True, recordAudit actor ''payment.adopt'' paymentId [(''authority'', authority)] db1)))"

definition end_finished :: "Env \<Rightarrow> Subscription \<Rightarrow> bool" where
  "end_finished env s \<longleftrightarrow> is_live s \<and> getTime (sub_end s) \<le> getTime (env_now env)"

definition endFinishedSubscriptions :: "Env \<Rightarrow> BillingDb \<Rightarrow> BillingError + nat \<times> BillingDb" where
  "endFinishedSubscriptions env db =
     and_then (set_subscription (end_finished env)
         (\<lambda>s. s\<lparr>sub_status := (if sub_cancel_at_end s then S_canceled else S_expired)\<rparr>) db)
       (\<lambda>db1. Inr (sql_count (end_finished env) (subscriptions db), db1))"

subsection \<open>The run\<close>

record ReconcilePolicy =
  rp_staleAfterMs :: int
  rp_expireAfterMs :: int
  rp_batchSize :: nat
  rp_adoptOrphans :: bool
  rp_dryRun :: bool

definition DEFAULT_RECONCILE_POLICY :: ReconcilePolicy where
  "DEFAULT_RECONCILE_POLICY = \<lparr> rp_staleAfterMs = 20 * 60000, rp_expireAfterMs = 72 * 60 * 60000,
     rp_batchSize = 50, rp_adoptOrphans = False, rp_dryRun = False \<rparr>"

record ReconcileReport =
  rr_scanned :: nat
  rr_skipped :: nat
  rr_activated :: nat
  rr_alreadySettled :: nat
  rr_stillPending :: nat
  rr_unknown :: nat
  rr_expired :: nat
  rr_orphans :: nat
  rr_adopted :: nat
  rr_subscriptionsEnded :: nat
  rr_errors :: "string list"

definition emptyReport :: ReconcileReport where
  "emptyReport = \<lparr> rr_scanned = 0, rr_skipped = 0, rr_activated = 0, rr_alreadySettled = 0,
     rr_stillPending = 0, rr_unknown = 0, rr_expired = 0, rr_orphans = 0, rr_adopted = 0,
     rr_subscriptionsEnded = 0, rr_errors = [] \<rparr>"

definition tallyExpire :: "ReconcileReport \<Rightarrow> ExpireKind \<Rightarrow> ReconcileReport" where
  "tallyExpire r kind =
     (case kind of Expired \<Rightarrow> r\<lparr>rr_expired := rr_expired r + 1\<rparr>
      | ExpireActivated \<Rightarrow> r\<lparr>rr_activated := rr_activated r + 1\<rparr>
      | ExpireAlreadySettled \<Rightarrow> r\<lparr>rr_alreadySettled := rr_alreadySettled r + 1\<rparr>
      | ExpireUnknown \<Rightarrow> r\<lparr>rr_unknown := rr_unknown r + 1\<rparr>)"

definition tallySettle :: "ReconcileReport \<Rightarrow> SettleOutcome \<Rightarrow> ReconcileReport" where
  "tallySettle r outcome =
     (case outcome of Activated _ _ _ \<Rightarrow> r\<lparr>rr_activated := rr_activated r + 1\<rparr>
      | AlreadySettled _ _ _ \<Rightarrow> r\<lparr>rr_alreadySettled := rr_alreadySettled r + 1\<rparr>
      | StillNotPaid _ \<Rightarrow> r\<lparr>rr_stillPending := rr_stillPending r + 1\<rparr>
      | SettleUnknown \<Rightarrow> r\<lparr>rr_unknown := rr_unknown r + 1\<rparr>)"

definition add_error :: "string \<Rightarrow> ReconcileReport \<Rightarrow> ReconcileReport" where
  "add_error e r = r\<lparr>rr_errors := rr_errors r @ [e]\<rparr>"

definition toSnapshot :: "Payment \<Rightarrow> PendingPaymentSnapshot" where
  "toSnapshot row = \<lparr> pp_id = pay_id row, pp_authority = pay_authority row, pp_amountRial = pay_amount row,
     pp_requestedAt = getTime (pay_requested_at row), pp_failureCode = pay_failure_code row \<rparr>"

definition pending_batch :: "Gateway \<Rightarrow> nat \<Rightarrow> BillingDb \<Rightarrow> PendingPaymentSnapshot list" where
  "pending_batch gateway batchSize db =
     map toSnapshot (take batchSize (sort_key (\<lambda>p. getTime (pay_requested_at p))
       (filter (\<lambda>p. pay_status p = P_pending \<and> pay_gateway p = gw_name gateway \<and>
                    pay_mode p = gw_mode gateway) (payments db))))"

definition foreign_count :: "Gateway \<Rightarrow> BillingDb \<Rightarrow> nat" where
  "foreign_count gateway db =
     sql_count (\<lambda>p. pay_status p = P_pending \<and> pay_gateway p = gw_name gateway \<and>
                    pay_mode p \<noteq> gw_mode gateway) (payments db)"

text \<open>The loop over the decisions; a row that fails is reported and the run goes on.\<close>

fun run_decisions ::
  "(nat \<Rightarrow> Env) \<Rightarrow> (nat \<Rightarrow> Gateway) \<Rightarrow> string option \<Rightarrow> bool \<Rightarrow> SweepDecision list \<Rightarrow> nat \<Rightarrow>
     ReconcileReport \<Rightarrow> BillingDb \<Rightarrow> ReconcileReport \<times> BillingDb" where
  "run_decisions env gateway actor dryRun [] k report db = (report, db)"
| "run_decisions env gateway actor dryRun (d # ds) k report db =
     (case sd_action d of
        Skip \<Rightarrow> run_decisions env gateway actor dryRun ds (k + 1) (report\<lparr>rr_skipped := rr_skipped report + 1\<rparr>) db
      | Orphan \<Rightarrow> run_decisions env gateway actor dryRun ds (k + 1) (report\<lparr>rr_orphans := rr_orphans report + 1\<rparr>) db
      | Expire \<Rightarrow>
          if dryRun then run_decisions env gateway actor dryRun ds (k + 1) report db
          else (case expireStalePayment (env k) (gateway k) actor (sd_paymentId d) ''sweep'' db of
                  (Inl e, db') \<Rightarrow>
                    run_decisions env gateway actor dryRun ds (k + 1) (add_error (sd_paymentId d) report) db'
                | (Inr kind, db') \<Rightarrow>
                    run_decisions env gateway actor dryRun ds (k + 1) (tallyExpire report kind) db')
      | Verify \<Rightarrow>
          if dryRun then run_decisions env gateway actor dryRun ds (k + 1) report db
          else (case settleOne (env k) (gateway k) actor (sd_paymentId d) db of
                  (Inl e, db') \<Rightarrow>
                    run_decisions env gateway actor dryRun ds (k + 1) (add_error (sd_paymentId d) report) db'
                | (Inr outcome, db') \<Rightarrow>
                    run_decisions env gateway actor dryRun ds (k + 1) (tallySettle report outcome) db'))"

fun adopt_decisions ::
  "(nat \<Rightarrow> Env) \<Rightarrow> (nat \<Rightarrow> Gateway) \<Rightarrow> string option \<Rightarrow> AdoptionDecision list \<Rightarrow> nat \<Rightarrow>
     ReconcileReport \<Rightarrow> BillingDb \<Rightarrow> ReconcileReport \<times> BillingDb" where
  "adopt_decisions env gateway actor [] k report db = (report, db)"
| "adopt_decisions env gateway actor (Refuse i r # ds) k report db =
     adopt_decisions env gateway actor ds (k + 1) report db"
| "adopt_decisions env gateway actor (Adopt i a # ds) k report db =
     (case withTransaction (adopt_tx actor i a) db of
        (Inl e, db') \<Rightarrow> adopt_decisions env gateway actor ds (k + 1) (add_error i report) db'
      | (Inr False, db') \<Rightarrow> adopt_decisions env gateway actor ds (k + 1) report db'
      | (Inr True, db') \<Rightarrow>
          (case settleOne (env k) (gateway k) actor i db' of
             (Inl e, db'') \<Rightarrow>
               adopt_decisions env gateway actor ds (k + 1)
                 (add_error i (report\<lparr>rr_adopted := rr_adopted report + 1\<rparr>)) db''
           | (Inr outcome, db'') \<Rightarrow>
               adopt_decisions env gateway actor ds (k + 1)
                 (tallySettle (report\<lparr>rr_adopted := rr_adopted report + 1\<rparr>) outcome) db''))"

text \<open>
  What \<open>listUnverified\<close> yields: the gateway has no such list, the call fails, or a list.
\<close>

datatype UnverifiedList = NotSupported | ListFailed | Unverified "UnverifiedPayment list"

definition known_authorities :: "Gateway \<Rightarrow> BillingDb \<Rightarrow> string set" where
  "known_authorities gateway db =
     set (map (\<lambda>p. the (pay_authority p))
       (filter (\<lambda>p. pay_gateway p = gw_name gateway \<and> pay_authority p \<noteq> None) (payments db)))"

definition adoptOrphans ::
  "(nat \<Rightarrow> Env) \<Rightarrow> (nat \<Rightarrow> Gateway) \<Rightarrow> string option \<Rightarrow> UnverifiedList \<Rightarrow> PendingPaymentSnapshot list \<Rightarrow> nat \<Rightarrow>
     ReconcileReport \<Rightarrow> BillingDb \<Rightarrow> SweepError + ReconcileReport \<times> BillingDb" where
  "adoptOrphans env gateway actor listed orphans k report db =
     (case listed of
        NotSupported \<Rightarrow> Inr (report, db)
      | ListFailed \<Rightarrow> Inr (add_error ''unVerified'' report, db)
      | Unverified unverified \<Rightarrow>
          if unverified = [] then Inr (report, db)
          else and_then (matchOrphans orphans unverified (known_authorities (gateway k) db))
                 (\<lambda>ds. Inr (adopt_decisions env gateway actor ds k report db)))"

text \<open>An exception outside the loop ends the run: what was committed stays.\<close>

definition runReconcile ::
  "(nat \<Rightarrow> Env) \<Rightarrow> (nat \<Rightarrow> Gateway) \<Rightarrow> string option \<Rightarrow> UnverifiedList \<Rightarrow> Instant \<Rightarrow> ReconcilePolicy \<Rightarrow>
     BillingDb \<Rightarrow> ReconcileReport option \<times> BillingDb" where
  "runReconcile env gateway actor listed now policy db =
     (let rows = pending_batch (gateway 0) (rp_batchSize policy) db;
          report0 = emptyReport\<lparr>rr_scanned := length rows\<rparr>;
          report = (if foreign_count (gateway 0) db > 0 then add_error ''foreign'' report0 else report0)
      in case planSweep rows \<lparr> sp_now = getTime now, staleAfterMs = rp_staleAfterMs policy,
                               expireAfterMs = rp_expireAfterMs policy \<rparr> of
           Inl e \<Rightarrow> (None, db)
         | Inr decisions \<Rightarrow>
             (let (report1, db1) = run_decisions env gateway actor (rp_dryRun policy) decisions 0 report db;
                  orphans = filter (\<lambda>r. \<exists>d \<in> set decisions. sd_action d = Orphan \<and> sd_paymentId d = pp_id r) rows;
                  k = length decisions
              in case (if orphans \<noteq> [] \<and> rp_adoptOrphans policy \<and> \<not> rp_dryRun policy
                       then adoptOrphans env gateway actor listed orphans k report1 db1
                       else Inr (report1, db1)) of
                   Inl e \<Rightarrow> (None, db1)
                 | Inr (report2, db2) \<Rightarrow>
                     if rp_dryRun policy then (Some report2, db2)
                     else (case withTransaction (endFinishedSubscriptions (env (k + length orphans))) db2 of
                             (Inl e, db3) \<Rightarrow> (None, db3)
                           | (Inr n, db3) \<Rightarrow> (Some (report2\<lparr>rr_subscriptionsEnded := n\<rparr>), db3))))"

subsection \<open>Manual transfers\<close>

definition CARD_TRANSFER_NAME :: string where "CARD_TRANSFER_NAME = ''card_transfer''"

definition pg_transfer_read :: "Env \<Rightarrow> BillingDb \<Rightarrow> string \<Rightarrow> TransferRecord option" where
  "pg_transfer_read env db authority =
     (case find (\<lambda>p. pay_gateway p = CARD_TRANSFER_NAME \<and> pay_authority p = Some authority) (payments db) of
        None \<Rightarrow> None
      | Some p \<Rightarrow>
          Some \<lparr> approvedAtMs = map_option getTime (tr_approved_at (pay_transfer p)),
                 transferRef = tr_ref (pay_transfer p),
                 senderLast4 = tr_sender_last4 (pay_transfer p),
                 claimedAtMs = map_option getTime (tr_claimed_at (pay_transfer p)),
                 requestedAtMs = getTime (pay_requested_at p),
                 nowMs = getTime (env_now env) \<rparr>)"

record CardTransferSettings =
  cts_claimWindowMs :: int
  cts_mode :: string

definition createCardTransferGatewayOn :: "CardTransferSettings \<Rightarrow> Env \<Rightarrow> Gateway" where
  "createCardTransferGatewayOn settings env =
     \<lparr> gw_name = CARD_TRANSFER_NAME, gw_mode = cts_mode settings,
       gw_verify = (\<lambda>db authority amountRial.
         card_verifyPayment (pg_transfer_read env db) (cts_claimWindowMs settings) authority),
       gw_refund = None \<rparr>"

definition invalid_transition :: BillingError where
  "invalid_transition = HttpError 409 ''INVALID_TRANSITION''"

definition claimTransfer ::
  "Env \<Rightarrow> string \<Rightarrow> string \<Rightarrow> string option \<Rightarrow> BillingDb \<Rightarrow> BillingError + string \<times> BillingDb" where
  "claimTransfer env paymentId ref last4 db =
     (case payment_by_id db paymentId of
        None \<Rightarrow> Inl (HttpError 404 ''PAYMENT_NOT_FOUND'')
      | Some row \<Rightarrow>
          if pay_gateway row \<noteq> CARD_TRANSFER_NAME then Inl invalid_transition
          else if pay_status row \<noteq> P_pending then Inl invalid_transition
          else and_then (set_payment paymentId
                 (\<lambda>p. p\<lparr>pay_transfer := (pay_transfer p)
                          \<lparr>tr_claimed_ref := Some ref, tr_claimed_last4 := last4,
                           tr_claimed_at := Some (env_now env)\<rparr>\<rparr>) db)
               (\<lambda>db1. Inr (pay_team row, db1)))"

record ApproveInput =
  ap_paymentId :: string
  ap_ref :: string
  ap_last4 :: "string option"
  ap_observedAmountRial :: rial
  ap_note :: "string option"

definition approveTransfer ::
  "Env \<Rightarrow> CardTransferSettings \<Rightarrow> string option \<Rightarrow> ApproveInput \<Rightarrow> BillingDb \<Rightarrow>
     BillingError + SettleOutcome \<times> BillingDb" where
  "approveTransfer env settings actor inp db =
     (let gateway = createCardTransferGatewayOn settings env in
      and_then (lockPaymentForSettle gateway (ById (ap_paymentId inp)) db) (\<lambda>payment.
      if pay_status payment \<noteq> P_pending then Inl invalid_transition
      else if ap_observedAmountRial inp \<noteq> pay_amount payment
      then Inl (HttpError 409 ''TRANSFER_AMOUNT_MISMATCH'')
      else if \<exists>p \<in> set (payments db). pay_gateway p = CARD_TRANSFER_NAME \<and>
                tr_ref (pay_transfer p) = Some (ap_ref inp) \<and> pay_id p \<noteq> ap_paymentId inp
      then Inl (HttpError 409 ''TRANSFER_REF_TAKEN'')
      else
        and_then (set_payment (ap_paymentId inp)
            (\<lambda>p. p\<lparr>pay_transfer := (pay_transfer p)
                     \<lparr>tr_ref := Some (ap_ref inp), tr_sender_last4 := ap_last4 inp,
                      tr_approved_by := actor, tr_approved_at := Some (env_now env)\<rparr>\<rparr>) db) (\<lambda>db1.
        and_then (settleLocked env gateway payment None db1) (\<lambda>(outcome, db2).
        Inr (outcome, recordAudit actor ''payment.approveTransfer'' (ap_paymentId inp)
               ((''outcome'', outcome_kind outcome) #
                (''amountRial'', show_int (ap_observedAmountRial inp)) #
                (''transferRef'', ap_ref inp) #
                (case ap_note inp of None \<Rightarrow> [] | Some n \<Rightarrow> [(''note'', n)])) db2)))))"

end
