(* ===== verification/BillingMoves.thy ===== *)
theory BillingMoves
  imports Reconcile
begin

text \<open>
  Every transaction of the billing services reduced to what it does to the tables the invariants read:
  activation, closing, refunding, opening, or nothing. Of a payment that is its core, the columns no
  technical update touches.
\<close>

subsection \<open>The core of a payment\<close>

record PaymentCore =
  k_id :: string
  k_team :: string
  k_invoice :: "string option"
  k_amount :: rial
  k_status :: PaymentStatus
  k_request :: json
  k_gateway :: string
  k_mode :: string

definition core :: "Payment \<Rightarrow> PaymentCore" where
  "core p = \<lparr> k_id = pay_id p, k_team = pay_team p, k_invoice = pay_invoice p, k_amount = pay_amount p,
     k_status = pay_status p, k_request = pay_request p, k_gateway = pay_gateway p, k_mode = pay_mode p \<rparr>"

definition cores :: "BillingDb \<Rightarrow> PaymentCore list" where
  "cores db = map core (payments db)"

definition set_status :: "string \<Rightarrow> PaymentStatus \<Rightarrow> PaymentCore list \<Rightarrow> PaymentCore list" where
  "set_status i st ks = sql_update (\<lambda>k. k_id k = i) (\<lambda>k. k\<lparr>k_status := st\<rparr>) ks"

lemma core_simps [simp]:
  "k_id (core p) = pay_id p" "k_team (core p) = pay_team p" "k_invoice (core p) = pay_invoice p"
  "k_amount (core p) = pay_amount p" "k_status (core p) = pay_status p" "k_request (core p) = pay_request p"
  "k_gateway (core p) = pay_gateway p" "k_mode (core p) = pay_mode p"
  by (simp_all add: core_def)

lemma map_core_update:
  assumes "\<And>p. core (f p) = g (core p)" "\<And>p. c p = d (core p)"
  shows "map core (sql_update c f t) = sql_update d g (map core t)"
  using assms by (induction t) auto

lemma map_core_same: "(\<And>p. core (f p) = core p) \<Longrightarrow> map core (sql_update c f t) = map core t"
  by (induction t) auto

text \<open>Transactions that only touch technical columns of payments, the audit log and the plans.\<close>

definition same_core :: "BillingDb \<Rightarrow> BillingDb \<Rightarrow> bool" where
  "same_core db db' \<longleftrightarrow> cores db' = cores db \<and> invoices db' = invoices db \<and>
     subscriptions db' = subscriptions db \<and> coupons db' = coupons db \<and> redemptions db' = redemptions db"

lemma same_core_refl [simp]: "same_core db db"
  by (simp add: same_core_def)

lemma same_core_trans: "same_core db db' \<Longrightarrow> same_core db' db'' \<Longrightarrow> same_core db db''"
  by (simp add: same_core_def)

lemma same_core_audit [simp]:
  "same_core db (db'\<lparr>audit_logs := a\<rparr>) = same_core db db'" "cores (db\<lparr>audit_logs := a\<rparr>) = cores db"
  by (simp_all add: same_core_def cores_def)

lemma db_valid_audit [simp]: "db_valid (db\<lparr>audit_logs := a\<rparr>) = db_valid db"
  by (simp add: db_valid_iff)

lemma set_payment_same_core:
  assumes "set_payment i f db = Inr db'" "\<And>p. core (f p) = core p"
  shows "same_core db db' \<and> db_valid db'"
  using assms by (auto simp: set_payment_def exec_Inr_iff same_core_def cores_def map_core_same)

text \<open>The part of a database a subscription or an invoice write leaves alone.\<close>

definition apart_from_subscriptions :: "BillingDb \<Rightarrow> BillingDb \<Rightarrow> bool" where
  "apart_from_subscriptions db db' \<longleftrightarrow> (\<exists>t. db' = db\<lparr>subscriptions := t\<rparr>)"

subsection \<open>The transactions, reduced\<close>

definition expire_live :: "string \<Rightarrow> Subscription list \<Rightarrow> Subscription list" where
  "expire_live teamId t =
     (case find (\<lambda>s. sub_team s = teamId \<and> is_live s) t of
        None \<Rightarrow> t
      | Some s \<Rightarrow> sql_update (\<lambda>q. sub_id q = sub_id s) (\<lambda>q. q\<lparr>sub_status := S_expired\<rparr>) t)"

definition renewal_anchor :: "Env \<Rightarrow> string \<Rightarrow> string \<Rightarrow> Subscription list \<Rightarrow> Instant" where
  "renewal_anchor env teamId plan t =
     (case find (\<lambda>s. sub_team s = teamId \<and> is_live s) t of
        Some s \<Rightarrow> if sub_plan s = plan \<and> getTime (sub_end s) > getTime (env_date env)
                   then sub_end s else env_date env
      | None \<Rightarrow> env_date env)"

definition new_subscription :: "Env \<Rightarrow> string \<Rightarrow> string \<Rightarrow> PurchaseIntent \<Rightarrow> Instant \<Rightarrow> Subscription" where
  "new_subscription env teamId paymentId intent anchor =
     \<lparr> sub_id = env_uuid1 env, sub_team = teamId, sub_plan = in_planCode intent,
       sub_status = S_active, sub_period = in_period intent, sub_seats = in_seats intent,
       sub_start = anchor, sub_end = period_end (computePeriod anchor (in_period intent)),
       sub_cancel_at_end = False, sub_canceled_at = None,
       sub_payment = Some paymentId, sub_unit_price = Some (in_unitPriceRial intent) \<rparr>"

lemma upsertSubscription_Inr:
  assumes "upsertSubscription env teamId paymentId intent db = Inr (u, db')"
  shows "u = env_uuid1 env \<and> db_valid db' \<and>
    db' = db\<lparr>subscriptions := expire_live teamId (subscriptions db) @
       [new_subscription env teamId paymentId intent
          (renewal_anchor env teamId (in_planCode intent) (subscriptions db))]\<rparr>"
  using assms
  by (auto simp: upsertSubscription_def Let_def and_then_Inr_iff exec_Inr_iff set_subscription_def
      expire_live_def renewal_anchor_def new_subscription_def computePeriod_def split: option.splits)

definition redeemed :: "string \<Rightarrow> string \<Rightarrow> Redemption list \<Rightarrow> bool" where
  "redeemed code teamId t \<longleftrightarrow> (\<exists>r \<in> set t. rd_coupon r = code \<and> rd_team r = teamId)"

lemma redeemCoupon_Inr:
  assumes "redeemCoupon code teamId invoiceId db = Inr db'"
  shows "if redeemed code teamId (redemptions db) then db' = db
    else db' = db\<lparr>redemptions := redemptions db @ [\<lparr> rd_coupon = code, rd_team = teamId, rd_invoice = invoiceId \<rparr>],
           coupons := sql_update (\<lambda>c. cp_code c = code)
             (\<lambda>c. c\<lparr>cp_redeemed_count := cp_redeemed_count c + 1\<rparr>) (coupons db)\<rparr>"
  using assms by (auto simp: redeemCoupon_def redeemed_def and_then_Inr_iff exec_Inr_iff split: if_splits)

text \<open>What the activation of \<open>payment\<close> does.\<close>

definition coupon_step :: "string option \<Rightarrow> string \<Rightarrow> BillingDb \<Rightarrow> BillingDb \<Rightarrow> bool" where
  "coupon_step code teamId db db' \<longleftrightarrow>
     (case code of
        None \<Rightarrow> coupons db' = coupons db \<and> redemptions db' = redemptions db
      | Some c \<Rightarrow>
          if redeemed c teamId (redemptions db)
          then coupons db' = coupons db \<and> redemptions db' = redemptions db
          else (\<exists>invoiceId. redemptions db' = redemptions db @
                  [\<lparr> rd_coupon = c, rd_team = teamId, rd_invoice = invoiceId \<rparr>]) \<and>
               coupons db' = sql_update (\<lambda>q. cp_code q = c)
                 (\<lambda>q. q\<lparr>cp_redeemed_count := cp_redeemed_count q + 1\<rparr>) (coupons db))"

lemma coupon_step_cong:
  assumes "coupons d = coupons e" "redemptions d = redemptions e"
    "coupons d' = coupons e'" "redemptions d' = redemptions e'"
  shows "coupon_step code teamId d d' = coupon_step code teamId e e'"
  unfolding coupon_step_def assms by (rule refl)

definition activation :: "Env \<Rightarrow> Payment \<Rightarrow> string \<Rightarrow> PurchaseIntent \<Rightarrow> BillingDb \<Rightarrow> BillingDb \<Rightarrow> bool" where
  "activation env payment invoiceId intent db db' \<longleftrightarrow>
     pay_status payment = P_pending \<and> pay_invoice payment = Some invoiceId \<and>
     readIntent (pay_request payment) = Inr intent \<and>
     cores db' = set_status (pay_id payment) P_paid (cores db) \<and>
     invoices db' = sql_update (\<lambda>i. inv_id i = invoiceId)
       (\<lambda>i. i\<lparr>inv_status := I_paid, inv_paid_at := Some (env_now env)\<rparr>) (invoices db) \<and>
     coupon_step (in_couponCode intent) (pay_team payment) db db' \<and>
     subscriptions db' = expire_live (pay_team payment) (subscriptions db) @
       [new_subscription env (pay_team payment) (pay_id payment) intent
          (renewal_anchor env (pay_team payment) (in_planCode intent) (subscriptions db))]"

lemma activateFromPayment_Inr:
  assumes "activateFromPayment env payment db = Inr ((u, invoiceId), db')"
  shows "\<exists>intent. pay_invoice payment = Some invoiceId \<and> u = env_uuid1 env \<and>
    readIntent (pay_request payment) = Inr intent \<and> payments db' = payments db \<and>
    invoices db' = sql_update (\<lambda>i. inv_id i = invoiceId)
       (\<lambda>i. i\<lparr>inv_status := I_paid, inv_paid_at := Some (env_now env)\<rparr>) (invoices db) \<and>
    coupon_step (in_couponCode intent) (pay_team payment) db db' \<and>
    subscriptions db' = expire_live (pay_team payment) (subscriptions db) @
       [new_subscription env (pay_team payment) (pay_id payment) intent
          (renewal_anchor env (pay_team payment) (in_planCode intent) (subscriptions db))]"
proof -
  from assms obtain intent db1 db2 where i: "pay_invoice payment = Some invoiceId"
    "readIntent (pay_request payment) = Inr intent"
    and d1: "set_invoice (\<lambda>i. inv_id i = invoiceId)
      (\<lambda>i. i\<lparr>inv_status := I_paid, inv_paid_at := Some (env_now env)\<rparr>) db = Inr db1"
    and d2: "(case in_couponCode intent of None \<Rightarrow> Inr db1
       | Some code \<Rightarrow> redeemCoupon code (pay_team payment) invoiceId db1) = Inr db2"
    and d3: "upsertSubscription env (pay_team payment) (pay_id payment) intent db2 = Inr (u, db')"
    by (cases "pay_invoice payment") (auto simp: activateFromPayment_def and_then_Inr_iff)
  have db1: "db1 = db\<lparr>invoices := sql_update (\<lambda>i. inv_id i = invoiceId)
      (\<lambda>i. i\<lparr>inv_status := I_paid, inv_paid_at := Some (env_now env)\<rparr>) (invoices db)\<rparr>"
    using d1 by (simp add: set_invoice_def exec_Inr_iff)
  have db2: "payments db2 = payments db1 \<and> invoices db2 = invoices db1 \<and>
      subscriptions db2 = subscriptions db1 \<and> coupon_step (in_couponCode intent) (pay_team payment) db1 db2"
  proof (cases "in_couponCode intent")
    case None
    then show ?thesis using d2 by (simp add: coupon_step_def)
  next
    case (Some code)
    then show ?thesis using redeemCoupon_Inr [of code "pay_team payment" invoiceId db1 db2] d2
      by (auto simp: coupon_step_def split: if_splits)
  qed
  show ?thesis
    using i db1 db2 upsertSubscription_Inr [OF d3]
    by (intro exI [of _ intent]) (auto simp: coupon_step_def split: option.splits)
qed

lemma settleLocked_Inr:
  assumes "settleLocked env gateway payment callback db = Inr (outcome, db')"
  shows "(\<exists>invoiceId intent ref. outcome = Activated (env_uuid1 env) invoiceId ref \<and> db_valid db' \<and>
      activation env payment invoiceId intent db db') \<or>
    (same_core db db' \<and> (db_valid db \<longrightarrow> db_valid db') \<and> (\<forall>u i r. outcome \<noteq> Activated u i r))"
proof -
  from assms obtain db1 where d1: "(case callback of None \<Rightarrow> Inr db
      | Some c \<Rightarrow> set_payment (pay_id payment) (\<lambda>p. p\<lparr>pay_callback_payload := Some c\<rparr>) db) = Inr db1"
    unfolding settleLocked_def by (rule and_then_InrE)
  have s1: "same_core db db1 \<and> (db_valid db \<longrightarrow> db_valid db1)"
  proof (cases callback)
    case (Some c)
    then show ?thesis using d1 set_payment_same_core [of "pay_id payment" _ db db1] by (auto simp: core_def)
  qed (use d1 in simp)
  note rest = assms [unfolded settleLocked_def, unfolded d1, simplified and_then.simps]
  show ?thesis
  proof (cases "pay_status payment = P_pending \<and> pay_authority payment \<noteq> None")
    case False
    then show ?thesis using rest s1 by (auto split: if_splits option.splits)
  next
    case True
    then obtain authority where a: "pay_status payment = P_pending" "pay_authority payment = Some authority" by auto
    define verdict where "verdict = gw_verify gateway db1 authority (pay_amount payment)"
    note rest' = rest [unfolded a option.case verdict_def [symmetric] Let_def, simplified]
    show ?thesis
    proof (cases verdict)
      case (GatewayError c)
      with rest' obtain db2 where "set_payment (pay_id payment)
          (\<lambda>p. p\<lparr>pay_verify_payload := Some (verifyPayloadOf verdict (env_date env))\<rparr>) db1 = Inr db2"
        "outcome = SettleUnknown" "db' = db2" by (auto simp: and_then_Inr_iff)
      then show ?thesis
        using s1 set_payment_same_core [of "pay_id payment" _ db1 db2] same_core_trans by (auto simp: core_def)
    next
      case (NotPaid c)
      with rest' obtain db2 where "set_payment (pay_id payment)
          (\<lambda>p. p\<lparr>pay_failure_code := code_text c, pay_verified_at := Some (env_now env),
             pay_verify_payload := Some (verifyPayloadOf verdict (env_date env))\<rparr>) db1 = Inr db2"
        "outcome = StillNotPaid c" "db' = db2" by (auto simp: and_then_Inr_iff)
      then show ?thesis
        using s1 set_payment_same_core [of "pay_id payment" _ db1 db2] same_core_trans by (auto simp: core_def)
    next
      case (Paid already ref pan hash fee)
      with rest' obtain u invoiceId db2 where
        act: "activateFromPayment env payment db1 = Inr ((u, invoiceId), db2)"
        and set: "set_payment (pay_id payment)
           (\<lambda>p. p\<lparr>pay_status := P_paid, pay_ref_id := Some ref, pay_card_pan := pan,
              pay_card_hash := hash, pay_fee := fee, pay_paid_at := Some (env_now env),
              pay_verified_at := Some (env_now env), pay_failure_code := None,
              pay_verify_payload := Some (verifyPayloadOf verdict (env_date env))\<rparr>) db2 = Inr db'"
        and o': "outcome = Activated u invoiceId ref"
        by (auto simp: and_then_Inr_iff)
      from activateFromPayment_Inr [OF act] obtain intent where
        f: "pay_invoice payment = Some invoiceId" "u = env_uuid1 env" "readIntent (pay_request payment) = Inr intent"
          "payments db2 = payments db1"
          "invoices db2 = sql_update (\<lambda>i. inv_id i = invoiceId)
             (\<lambda>i. i\<lparr>inv_status := I_paid, inv_paid_at := Some (env_now env)\<rparr>) (invoices db1)"
          "coupon_step (in_couponCode intent) (pay_team payment) db1 db2"
          "subscriptions db2 = expire_live (pay_team payment) (subscriptions db1) @
             [new_subscription env (pay_team payment) (pay_id payment) intent
                (renewal_anchor env (pay_team payment) (in_planCode intent) (subscriptions db1))]" by blast
      have "cores db' = set_status (pay_id payment) P_paid (cores db2)"
        using set by (auto simp: set_payment_def exec_Inr_iff cores_def set_status_def core_def intro!: map_core_update)
      moreover have "cores db2 = cores db1" using f(4) by (simp add: cores_def)
      moreover have "invoices db' = invoices db2" "coupons db' = coupons db2" "redemptions db' = redemptions db2"
        "subscriptions db' = subscriptions db2" "db_valid db'"
        using set by (auto simp: set_payment_def exec_Inr_iff)
      ultimately have "activation env payment invoiceId intent db db'"
        using f a s1 coupon_step_cong [of db1 db db2 db'] unfolding activation_def same_core_def by simp
      then show ?thesis using o' f(2) \<open>db_valid db'\<close> by blast
    qed
  qed
qed

definition closing :: "string \<Rightarrow> PaymentStatus \<Rightarrow> string option \<Rightarrow> BillingDb \<Rightarrow> BillingDb \<Rightarrow> bool" where
  "closing i st invoiceId db db' \<longleftrightarrow>
     st \<in> {P_failed, P_canceled} \<and>
     (\<forall>k \<in> set (cores db). k_id k = i \<longrightarrow> k_invoice k = invoiceId) \<and>
     (invoiceId \<noteq> None \<longrightarrow> (\<exists>k \<in> set (cores db). k_id k = i)) \<and>
     cores db' = sql_update (\<lambda>k. k_id k = i \<and> k_status k = P_pending) (\<lambda>k. k\<lparr>k_status := st\<rparr>) (cores db) \<and>
     invoices db' = sql_update (\<lambda>q. invoiceId = Some (inv_id q) \<and> inv_status q = I_open)
       (\<lambda>q. q\<lparr>inv_status := I_void\<rparr>) (invoices db) \<and>
     subscriptions db' = subscriptions db \<and> coupons db' = coupons db \<and> redemptions db' = redemptions db"

lemma valid_ids: "db_valid db \<Longrightarrow> distinct (map pay_id (payments db))"
  by (simp add: db_valid_iff payments_error_None)

lemma payment_by_id_Some:
  assumes "db_valid db"
  shows "payment_by_id db i = Some p \<longleftrightarrow> p \<in> set (payments db) \<and> pay_id p = i"
  using find_id_unique [OF valid_ids [OF assms], of p]
  by (auto simp: payment_by_id_def dest: find_Some_in_set)

lemma same_id_same_payment:
  "db_valid db \<Longrightarrow> p \<in> set (payments db) \<Longrightarrow> q \<in> set (payments db) \<Longrightarrow> pay_id p = pay_id q \<Longrightarrow> p = q"
  using valid_ids by (auto simp: distinct_map dest: inj_onD)

lemma core_ids: "db_valid db \<Longrightarrow> distinct (map k_id (cores db))"
  using valid_ids [of db] by (simp add: cores_def comp_def)

lemma same_id_same_core:
  "db_valid db \<Longrightarrow> k \<in> set (cores db) \<Longrightarrow> l \<in> set (cores db) \<Longrightarrow> k_id k = k_id l \<Longrightarrow> k = l"
  using core_ids by (auto simp: distinct_map dest: inj_onD)

text \<open>Between the two statements of a voided checkout the invoice is void and the payment still pending.\<close>

definition voiding :: "string option \<Rightarrow> BillingDb \<Rightarrow> BillingDb \<Rightarrow> bool" where
  "voiding invoiceId db db' \<longleftrightarrow>
     cores db' = cores db \<and>
     invoices db' = sql_update (\<lambda>q. invoiceId = Some (inv_id q) \<and> inv_status q = I_open)
       (\<lambda>q. q\<lparr>inv_status := I_void\<rparr>) (invoices db) \<and>
     subscriptions db' = subscriptions db \<and> coupons db' = coupons db \<and> redemptions db' = redemptions db"

definition no_open_invoice :: "string \<Rightarrow> BillingDb \<Rightarrow> bool" where
  "no_open_invoice i db \<longleftrightarrow> (\<forall>k \<in> set (cores db). k_id k = i \<longrightarrow>
     (\<forall>q \<in> set (invoices db). k_invoice k = Some (inv_id q) \<longrightarrow> inv_status q \<noteq> I_open))"

lemma payment_invoice:
  assumes "db_valid db" "k \<in> set (cores db)" "k_id k = i"
  shows "(case payment_by_id db i of None \<Rightarrow> None | Some p \<Rightarrow> pay_invoice p) = k_invoice k"
proof -
  from assms(2,3) obtain p where "p \<in> set (payments db)" "pay_id p = i" "k = core p" by (auto simp: cores_def)
  moreover from this have "payment_by_id db i = Some p" using payment_by_id_Some [OF assms(1)] by simp
  ultimately show ?thesis by simp
qed

lemma voidInvoice_Inr:
  assumes "voidInvoice i db = Inr db'" "db_valid db"
  shows "db_valid db' \<and> no_open_invoice i db' \<and> (\<exists>invoiceId. voiding invoiceId db db')"
proof -
  define invoiceId where "invoiceId = (case payment_by_id db i of None \<Rightarrow> None | Some p \<Rightarrow> pay_invoice p)"
  have db': "db' = db\<lparr>invoices := sql_update (\<lambda>q. invoiceId = Some (inv_id q) \<and> inv_status q = I_open)
       (\<lambda>q. q\<lparr>inv_status := I_void\<rparr>) (invoices db)\<rparr>" "db_valid db'"
    using assms(1) unfolding voidInvoice_def Let_def invoiceId_def [symmetric]
    by (auto simp: set_invoice_def exec_Inr_iff)
  have "voiding invoiceId db db'" by (simp add: voiding_def db'(1) cores_def)
  moreover have "no_open_invoice i db'"
    unfolding no_open_invoice_def
  proof (intro ballI impI)
    fix k q
    assume k: "k \<in> set (cores db')" "k_id k = i" and q: "q \<in> set (invoices db')" "k_invoice k = Some (inv_id q)"
    have "k \<in> set (cores db)" using k(1) by (simp add: db'(1) cores_def)
    with payment_invoice [OF assms(2) _ k(2)] q(2) have "invoiceId = Some (inv_id q)" by (simp add: invoiceId_def)
    moreover from q(1) obtain q0 where "q = (if invoiceId = Some (inv_id q0) \<and> inv_status q0 = I_open
        then q0\<lparr>inv_status := I_void\<rparr> else q0)"
      by (auto simp: db'(1) in_set_sql_update)
    ultimately show "inv_status q \<noteq> I_open"
      by (cases "invoiceId = Some (inv_id q0) \<and> inv_status q0 = I_open") auto
  qed
  ultimately show ?thesis using db'(2) by blast
qed

lemma failPayment_Inr:
  assumes "failPayment i code db = Inr db'" "db_valid db" "no_open_invoice i db"
  shows "db_valid db' \<and>
    closing i P_failed (case payment_by_id db i of None \<Rightarrow> None | Some p \<Rightarrow> pay_invoice p) db db'"
proof -
  define invoiceId where "invoiceId = (case payment_by_id db i of None \<Rightarrow> None | Some p \<Rightarrow> pay_invoice p)"
  have own: "k_invoice k = invoiceId" if "k \<in> set (cores db)" "k_id k = i" for k
    using payment_invoice [OF assms(2) that] by (simp add: invoiceId_def)
  have ex: "\<exists>k \<in> set (cores db). k_id k = i" if "invoiceId \<noteq> None"
  proof (cases "payment_by_id db i")
    case (Some p)
    then show ?thesis using payment_by_id_Some [OF assms(2)] by (force simp: cores_def)
  qed (use that in \<open>simp add: invoiceId_def\<close>)
  have "\<not> (invoiceId = Some (inv_id q) \<and> inv_status q = I_open)" if "q \<in> set (invoices db)" for q
    using ex own assms(3) that unfolding no_open_invoice_def by (metis option.distinct(1))
  then have "invoices db = sql_update (\<lambda>q. invoiceId = Some (inv_id q) \<and> inv_status q = I_open)
       (\<lambda>q. q\<lparr>inv_status := I_void\<rparr>) (invoices db)"
    by (simp add: sql_update_none)
  moreover have "db' = db\<lparr>payments := sql_update (\<lambda>p. pay_id p = i \<and> pay_status p = P_pending)
             (\<lambda>p. p\<lparr>pay_status := P_failed, pay_failure_code := Some code\<rparr>) (payments db)\<rparr>" "db_valid db'"
    using assms(1) by (auto simp: failPayment_def exec_Inr_iff)
  ultimately show ?thesis
    using own ex unfolding invoiceId_def [symmetric] closing_def
    by (auto simp: cores_def core_def intro!: map_core_update)
qed

lemma applyExpiry_Inr:
  assumes "applyExpiry env payment actor reason c db = Inr db'" "db_valid db"
    "core payment \<in> set (cores db)" "pay_status payment = P_pending"
  shows "db_valid db' \<and> closing (pay_id payment) P_canceled (pay_invoice payment) db db'"
proof -
  from assms(1) obtain db1 db2 where
    d1: "set_payment (pay_id payment) (\<lambda>p. p\<lparr>pay_status := P_canceled, pay_failure_code := Some ''EXPIRED'',
                pay_verified_at := Some (env_now env)\<rparr>) db = Inr db1"
    and d2: "(case pay_invoice payment of None \<Rightarrow> Inr db1
               | Some invoiceId \<Rightarrow> set_invoice (\<lambda>i. inv_id i = invoiceId \<and> inv_status i = I_open)
                     (\<lambda>i. i\<lparr>inv_status := I_void\<rparr>) db1) = Inr db2"
    and d3: "db' = recordAudit actor ''payment.expire'' (pay_id payment) ((''reason'', reason) #
             (case c of None \<Rightarrow> [] | Some c \<Rightarrow> [(''lastGatewayCode'', c)])) db2"
    unfolding applyExpiry_def by (auto elim!: and_then_InrE)
  have ids: "k = core payment" if "k \<in> set (cores db)" "k_id k = pay_id payment" for k
    using same_id_same_core [OF assms(2) that(1) assms(3)] that(2) by simp
  have pend: "k_status k = P_pending" if "k \<in> set (cores db)" "k_id k = pay_id payment" for k
    using ids [OF that] assms(4) by simp
  have "cores db1 = set_status (pay_id payment) P_canceled (cores db)"
    using d1 by (auto simp: set_payment_def exec_Inr_iff cores_def set_status_def core_def intro!: map_core_update)
  also have "\<dots> = sql_update (\<lambda>k. k_id k = pay_id payment \<and> k_status k = P_pending)
      (\<lambda>k. k\<lparr>k_status := P_canceled\<rparr>) (cores db)"
    unfolding set_status_def sql_update_def using pend by (intro map_cong refl) auto
  finally have c1: "cores db1 = \<dots>" .
  have o1: "invoices db1 = invoices db" "subscriptions db1 = subscriptions db" "coupons db1 = coupons db"
    "redemptions db1 = redemptions db" "db_valid db1"
    using d1 by (auto simp: set_payment_def exec_Inr_iff)
  have o2: "db2 = db1\<lparr>invoices := sql_update (\<lambda>q. pay_invoice payment = Some (inv_id q) \<and> inv_status q = I_open)
       (\<lambda>q. q\<lparr>inv_status := I_void\<rparr>) (invoices db1)\<rparr> \<and> db_valid db2"
  proof (cases "pay_invoice payment")
    case None
    then show ?thesis using d2 o1(5) by (simp add: sql_update_none)
  next
    case (Some invoiceId)
    have "sql_update (\<lambda>i. inv_id i = invoiceId \<and> inv_status i = I_open) (\<lambda>q. q\<lparr>inv_status := I_void\<rparr>) (invoices db1) =
        sql_update (\<lambda>q. pay_invoice payment = Some (inv_id q) \<and> inv_status q = I_open)
          (\<lambda>q. q\<lparr>inv_status := I_void\<rparr>) (invoices db1)"
      unfolding sql_update_def using Some by (intro map_cong) auto
    then show ?thesis using d2 unfolding Some option.case set_invoice_def exec_Inr_iff by simp
  qed
  have "\<forall>k \<in> set (cores db). k_id k = pay_id payment \<longrightarrow> k_invoice k = pay_invoice payment"
    by (metis ids core_simps(3))
  moreover have "\<exists>k \<in> set (cores db). k_id k = pay_id payment"
    by (rule bexI [OF _ assms(3)]) simp
  moreover have "cores db' = cores db1" using o2 by (simp add: d3 recordAudit_def) (simp add: cores_def)
  moreover have "db_valid db'" using conjunct2 [OF o2] by (simp add: d3 recordAudit_def)
  moreover have "invoices db' = invoices db2" "subscriptions db' = subscriptions db2" "coupons db' = coupons db2"
    "redemptions db' = redemptions db2" by (simp_all add: d3 recordAudit_def)
  ultimately show ?thesis
    using c1 o1 conjunct1 [OF o2] by (simp add: closing_def)
qed

lemma createCheckout_after_Inr:
  assumes "createCheckout_after intl env inp key None db = Inr (draft, db')"
  shows "\<exists>row charge year number.
    price_checkout env inp db = Inr (row, charge) \<and> jalaliYearOf intl (env_date env) = Inr year \<and>
    formatInvoiceNumber intl (env_date env) (fst (nextSequence year (sequences db))) = Inr number \<and> db_valid db' \<and>
    draft = \<lparr> dr_paymentId = env_uuid2 env, dr_invoiceId = env_uuid1 env, dr_amountRial = totalRial charge,
      dr_invoiceNumber = number, dr_replayed = False \<rparr> \<and>
    db' = db\<lparr>sequences := snd (nextSequence year (sequences db)),
      invoices := invoices db @ [new_invoice env inp charge number],
      payments := payments db @ [new_payment env inp row charge key]\<rparr>"
proof -
  from assms obtain row charge year where
    p: "price_checkout env inp db = Inr (row, charge)" "jalaliYearOf intl (env_date env) = Inr year"
    and rest: "(let (n, seqs) = nextSequence year (sequences db) in
          and_then (exec (db\<lparr>sequences := seqs\<rparr>)) (\<lambda>db1.
          and_then (map_sum BadPeriod id (formatInvoiceNumber intl (env_date env) n)) (\<lambda>number.
          and_then (exec (db1\<lparr>invoices := invoices db1 @ [new_invoice env inp charge number]\<rparr>)) (\<lambda>db2.
          and_then (exec (db2\<lparr>payments := payments db2 @ [new_payment env inp row charge key]\<rparr>)) (\<lambda>db3.
          Inr (\<lparr> dr_paymentId = env_uuid2 env, dr_invoiceId = env_uuid1 env,
                 dr_amountRial = totalRial charge, dr_invoiceNumber = number, dr_replayed = False \<rparr>,
               db3)))))) = Inr (draft, db')"
    unfolding createCheckout_after_def
    by (cases "jalaliYearOf intl (env_date env)") (auto simp: and_then_Inr_iff)
  define n seqs where "n = fst (nextSequence year (sequences db))" "seqs = snd (nextSequence year (sequences db))"
  have e: "nextSequence year (sequences db) = (n, seqs)" by (simp add: n_seqs_def)
  from rest show ?thesis
    unfolding e prod.case Let_def
    using p by (cases "formatInvoiceNumber intl (env_date env) n") (auto simp: and_then_Inr_iff exec_Inr_iff e)
qed

definition cancel_activated :: "Env \<Rightarrow> string \<Rightarrow> Subscription list \<Rightarrow> Subscription list" where
  "cancel_activated env i t =
     (case find (\<lambda>s. activated_by i s \<and> is_live s) t of
        None \<Rightarrow> t
      | Some s \<Rightarrow> sql_update (\<lambda>q. sub_id q = sub_id s)
          (\<lambda>q. q\<lparr>sub_status := S_canceled, sub_canceled_at := Some (env_now env)\<rparr>) t)"

definition restored_from ::
  "Env \<Rightarrow> string \<Rightarrow> PaymentCore list \<Rightarrow> Subscription list \<Rightarrow> Subscription \<Rightarrow> Subscription \<Rightarrow> bool" where
  "restored_from env teamId ks t canceled s \<longleftrightarrow>
     s \<in> set t \<and> sub_team s = teamId \<and> sub_status s = S_expired \<and>
     getTime (sub_end s) = getTime (sub_start canceled) \<and> getTime (sub_end s) > getTime (env_now env) \<and>
     (\<exists>k \<in> set ks. sub_payment s = Some (k_id k) \<and> k_status k = P_paid)"

definition refunding :: "Env \<Rightarrow> Payment \<Rightarrow> RefundOutcomeRows \<Rightarrow> BillingDb \<Rightarrow> BillingDb \<Rightarrow> bool" where
  "refunding env payment rows db db' \<longleftrightarrow>
     pay_status payment = P_paid \<and>
     cores db' = set_status (pay_id payment) P_refunded (cores db) \<and>
     invoices db' = sql_update (\<lambda>i. pay_invoice payment = Some (inv_id i) \<and> inv_status i = I_paid)
       (\<lambda>i. i\<lparr>inv_status := I_refunded, inv_refunded_at := Some (env_now env)\<rparr>) (invoices db) \<and>
     coupons db' = coupons db \<and> redemptions db' = redemptions db \<and>
     ro_canceled rows = map_option sub_id
       (find (\<lambda>s. activated_by (pay_id payment) s \<and> is_live s) (subscriptions db)) \<and>
     (subscriptions db' = cancel_activated env (pay_id payment) (subscriptions db) \<and> ro_restored rows = None \<or>
      (\<exists>c s. find (\<lambda>s. activated_by (pay_id payment) s \<and> is_live s) (subscriptions db) = Some c \<and>
         restored_from env (pay_team payment) (cores db')
           (cancel_activated env (pay_id payment) (subscriptions db)) c s \<and>
         subscriptions db' = sql_update (\<lambda>q. sub_id q = sub_id s) (\<lambda>q. q\<lparr>sub_status := S_active\<rparr>)
           (cancel_activated env (pay_id payment) (subscriptions db)) \<and>
         ro_restored rows = Some (sub_id s)))"

lemma refund_rows_Inr:
  assumes "refund_rows env payment ref db = Inr db'" "db_valid db"
  shows "db_valid db' \<and> cores db' = set_status (pay_id payment) P_refunded (cores db) \<and>
    invoices db' = sql_update (\<lambda>i. pay_invoice payment = Some (inv_id i) \<and> inv_status i = I_paid)
       (\<lambda>i. i\<lparr>inv_status := I_refunded, inv_refunded_at := Some (env_now env)\<rparr>) (invoices db) \<and>
    subscriptions db' = subscriptions db \<and> coupons db' = coupons db \<and> redemptions db' = redemptions db"
proof -
  from assms(1) obtain db1 where
    d1: "set_payment (pay_id payment)
         (\<lambda>p. p\<lparr>pay_status := P_refunded, pay_refunded_at := Some (env_now env),
                pay_refund_ref := Some ref, pay_refund_amount := Some (pay_amount p)\<rparr>) db = Inr db1"
    and d2: "(case pay_invoice payment of None \<Rightarrow> Inr db1
     | Some invoiceId \<Rightarrow>
         set_invoice (\<lambda>i. inv_id i = invoiceId \<and> inv_status i = I_paid)
           (\<lambda>i. i\<lparr>inv_status := I_refunded, inv_refunded_at := Some (env_now env)\<rparr>) db1) = Inr db'"
    unfolding refund_rows_def by (auto elim!: and_then_InrE)
  have c1: "cores db1 = set_status (pay_id payment) P_refunded (cores db)"
    using d1 by (auto simp: set_payment_def exec_Inr_iff cores_def set_status_def core_def intro!: map_core_update)
  have o1: "invoices db1 = invoices db" "subscriptions db1 = subscriptions db" "coupons db1 = coupons db"
    "redemptions db1 = redemptions db" "db_valid db1"
    using d1 by (auto simp: set_payment_def exec_Inr_iff)
  show ?thesis
  proof (cases "pay_invoice payment")
    case None
    then show ?thesis using d2 c1 o1 by (simp add: sql_update_none)
  next
    case (Some invoiceId)
    have "sql_update (\<lambda>i. inv_id i = invoiceId \<and> inv_status i = I_paid) f (invoices db1) =
        sql_update (\<lambda>i. pay_invoice payment = Some (inv_id i) \<and> inv_status i = I_paid) f (invoices db1)" for f
      unfolding sql_update_def using Some by (intro map_cong) auto
    then show ?thesis
      using d2 c1 o1 unfolding Some option.case set_invoice_def exec_Inr_iff by (simp add: cores_def)
  qed
qed

lemma refundPayment_Inr:
  assumes "refundPayment env gateway i source db = Inr (rows, db')" "db_valid db"
  shows "db_valid db' \<and> (\<exists>payment \<in> set (payments db). pay_id payment = i \<and> refunding env payment rows db db' \<and>
    ro_paymentId rows = i \<and> ro_amountRial rows = pay_amount payment)"
proof -
  from assms obtain payment ref db1 restored where
    p: "payment \<in> set (payments db)" "pay_id payment = i" "pay_status payment = P_paid"
    and d1: "refund_rows env payment ref db = Inr db1"
    and d2: "(case find (\<lambda>s. activated_by (pay_id payment) s \<and> is_live s) (subscriptions db1) of
         None \<Rightarrow> Inr (None, db1)
       | Some s \<Rightarrow> and_then (set_subscription (\<lambda>q. sub_id q = sub_id s)
             (\<lambda>q. q\<lparr>sub_status := S_canceled, sub_canceled_at := Some (env_now env)\<rparr>) db1)
             (restore_replaced env (pay_team payment) s)) = Inr (restored, db')"
    and rows: "ro_canceled rows = map_option sub_id
         (find (\<lambda>s. activated_by (pay_id payment) s \<and> is_live s) (subscriptions db1))"
      "ro_restored rows = restored" "ro_paymentId rows = i" "ro_amountRial rows = pay_amount payment"
    unfolding refundPayment_def Let_def
    by (cases "payment_by_id db i") (auto simp: payment_by_id_Some elim!: and_then_InrE split: if_splits)
  note f = refund_rows_Inr [OF d1 assms(2)]
  show ?thesis
  proof (cases "find (\<lambda>s. activated_by (pay_id payment) s \<and> is_live s) (subscriptions db)")
    case None
    then have "restored = None \<and> db' = db1" using d2 f by simp
    then show ?thesis using p f rows None
      by (intro conjI bexI [of _ payment]) (simp_all add: refunding_def cancel_activated_def)
  next
    case (Some c)
    with d2 f obtain db2 where
      d3: "set_subscription (\<lambda>q. sub_id q = sub_id c)
             (\<lambda>q. q\<lparr>sub_status := S_canceled, sub_canceled_at := Some (env_now env)\<rparr>) db1 = Inr db2"
      and d4: "restore_replaced env (pay_team payment) c db2 = Inr (restored, db')"
      by (auto elim!: and_then_InrE)
    have db2: "db2 = db1\<lparr>subscriptions := cancel_activated env (pay_id payment) (subscriptions db)\<rparr>" "db_valid db2"
      using d3 f Some by (auto simp: set_subscription_def exec_Inr_iff cancel_activated_def)
    show ?thesis
    proof (cases "find (replaced_by env (pay_team payment) (sub_start c) db2) (subscriptions db2)")
      case None
      then have "restored = None \<and> db' = db2" using d4 by (simp add: restore_replaced_def)
      then show ?thesis using p f rows db2 Some
        by (intro conjI bexI [of _ payment]) (simp_all add: refunding_def cores_def)
    next
      case (Some s)
      then have s: "s \<in> set (subscriptions db2)" "replaced_by env (pay_team payment) (sub_start c) db2 s"
        using find_Some_in_set by fast+
      have r: "restored = Some (sub_id s)" "db_valid db'"
        "db' = db2\<lparr>subscriptions := sql_update (\<lambda>q. sub_id q = sub_id s) (\<lambda>q. q\<lparr>sub_status := S_active\<rparr>)
           (subscriptions db2)\<rparr>"
        using d4 Some by (auto simp: restore_replaced_def set_subscription_def exec_Inr_iff and_then_Inr_iff)
      have "restored_from env (pay_team payment) (cores db')
          (cancel_activated env (pay_id payment) (subscriptions db)) c s"
        using s db2(1) r(3) by (auto simp: restored_from_def replaced_by_def cores_def)
      then show ?thesis
        using p f rows db2 r \<open>find _ (subscriptions db) = Some c\<close>
        by (intro conjI bexI [of _ payment]) (auto simp: refunding_def cores_def)
    qed
  qed
qed

end
