(* ===== verification/BillingSystem.thy ===== *)
theory BillingSystem
  imports BillingMoves
begin

text \<open>
  What holds over any history of the billing services: checkouts, voided checkouts, settlements from the
  callback, the owner, staff or the sweep, refunds, expiries, adoptions, finished and canceled
  subscriptions, claims and approvals of manual transfers, in any order, with any answers of the gateway,
  any clocks and any identifiers. A transaction that fails is rolled back, which is no step.
\<close>

subsection \<open>Steps\<close>

definition wf_env :: "Env \<Rightarrow> bool" where
  "wf_env env \<longleftrightarrow> wf_instant (env_now env) \<and> wf_instant (env_date env)"

definition audit_hook :: "SettleHooks \<Rightarrow> bool" where
  "audit_hook hooks \<longleftrightarrow> (\<forall>o' db db'. onSettled hooks o' db = Inr db' \<longrightarrow> (\<exists>a. db' = db\<lparr>audit_logs := a\<rparr>))"

definition cancelAtPeriodEnd :: "Env \<Rightarrow> string \<Rightarrow> BillingDb \<Rightarrow> BillingError + BillingDb" where
  "cancelAtPeriodEnd env teamId db =
     (if \<not> (\<exists>s \<in> set (subscriptions db). sub_team s = teamId \<and> is_live s)
      then Inl (HttpError 404 ''SUBSCRIPTION_NOT_FOUND'')
      else set_subscription (\<lambda>s. sub_team s = teamId \<and> is_live s)
             (\<lambda>s. s\<lparr>sub_cancel_at_end := True, sub_canceled_at := Some (env_now env)\<rparr>) db)"

definition saveAuthority :: "string \<Rightarrow> string \<Rightarrow> BillingDb \<Rightarrow> BillingError + BillingDb" where
  "saveAuthority paymentId authority db =
     set_payment paymentId (\<lambda>p. p\<lparr>pay_authority := Some authority\<rparr>) db"

text \<open>
  Voiding a failed checkout is two steps, as its two statements commit apart: other transactions may come
  between them, or nothing any more. The second runs only after the first, which leaves the payment without
  an open invoice; no step ever opens one again (\<open>no_open_invoice_stays\<close>).
\<close>

inductive billing_step :: "BillingDb \<Rightarrow> BillingDb \<Rightarrow> bool" where
  st_checkout: "createCheckout_after intl env inp key None db = Inr (draft, db') \<Longrightarrow> wf_env env \<Longrightarrow> billing_step db db'"
| st_authority: "saveAuthority i a db = Inr db' \<Longrightarrow> billing_step db db'"
| st_void_invoice: "voidInvoice i db = Inr db' \<Longrightarrow> billing_step db db'"
| st_fail: "failPayment i code db = Inr db' \<Longrightarrow> no_open_invoice i db \<Longrightarrow> billing_step db db'"
| st_settle: "settle_tx env gateway locator hooks db = Inr (outcome, db') \<Longrightarrow> audit_hook hooks \<Longrightarrow> wf_env env \<Longrightarrow>
    billing_step db db'"
| st_refund: "refundPayment env gateway i source db = Inr (rows, db') \<Longrightarrow> wf_env env \<Longrightarrow> billing_step db db'"
| st_expire: "expire_tx env gateway actor i reason db = Inr (kind, db') \<Longrightarrow> wf_env env \<Longrightarrow> billing_step db db'"
| st_adopt: "adopt_tx actor i a db = Inr (hit, db') \<Longrightarrow> billing_step db db'"
| st_end: "endFinishedSubscriptions env db = Inr (n, db') \<Longrightarrow> billing_step db db'"
| st_cancel: "cancelAtPeriodEnd env teamId db = Inr db' \<Longrightarrow> billing_step db db'"
| st_claim: "claimTransfer env i ref last4 db = Inr (team, db') \<Longrightarrow> billing_step db db'"
| st_approve: "approveTransfer env settings actor inp db = Inr (outcome, db') \<Longrightarrow> wf_env env \<Longrightarrow> billing_step db db'"

inductive_cases billing_stepE: "billing_step db db'"

inductive billing_steps :: "BillingDb \<Rightarrow> BillingDb \<Rightarrow> bool" where
  bs_refl: "billing_steps db db"
| bs_step: "billing_steps db db1 \<Longrightarrow> billing_step db1 db2 \<Longrightarrow> billing_steps db db2"

subsection \<open>The moves of a step\<close>

definition checkout_move :: "BillingDb \<Rightarrow> BillingDb \<Rightarrow> bool" where
  "checkout_move db db' \<longleftrightarrow> (\<exists>env inp row charge key number.
     price_checkout env inp db = Inr (row, charge) \<and>
     cores db' = cores db @ [core (new_payment env inp row charge key)] \<and>
     invoices db' = invoices db @ [new_invoice env inp charge number] \<and>
     subscriptions db' = subscriptions db \<and> coupons db' = coupons db \<and> redemptions db' = redemptions db)"

definition ending :: "BillingDb \<Rightarrow> BillingDb \<Rightarrow> bool" where
  "ending db db' \<longleftrightarrow> cores db' = cores db \<and> invoices db' = invoices db \<and> coupons db' = coupons db \<and>
     redemptions db' = redemptions db \<and>
     (\<exists>c f. subscriptions db' = sql_update c f (subscriptions db) \<and>
        (\<forall>s. sub_payment (f s) = sub_payment s \<and> sub_team (f s) = sub_team s \<and> sub_end (f s) = sub_end s \<and>
             (is_live (f s) \<longrightarrow> is_live s)))"

inductive billing_move :: "BillingDb \<Rightarrow> BillingDb \<Rightarrow> bool" where
  mv_same: "same_core db db' \<Longrightarrow> billing_move db db'"
| mv_activate: "activation env payment invoiceId intent db db' \<Longrightarrow> core payment \<in> set (cores db) \<Longrightarrow> wf_env env \<Longrightarrow>
    billing_move db db'"
| mv_close: "closing i st invoiceId db db' \<Longrightarrow> billing_move db db'"
| mv_void: "voiding invoiceId db db' \<Longrightarrow> billing_move db db'"
| mv_refund: "refunding env payment rows db db' \<Longrightarrow> payment \<in> set (payments db) \<Longrightarrow> billing_move db db'"
| mv_open: "checkout_move db db' \<Longrightarrow> billing_move db db'"
| mv_end: "ending db db' \<Longrightarrow> billing_move db db'"

lemma lockPaymentForSettle_Inr:
  "lockPaymentForSettle gateway locator db = Inr payment \<Longrightarrow>
     payment \<in> set (payments db) \<and> pay_gateway payment = gw_name gateway \<and> pay_mode payment = gw_mode gateway"
  by (auto simp: lockPaymentForSettle_def payment_by_id_def assertGatewayMatches_def
      split: option.splits PaymentLocator.splits if_splits dest: find_Some_in_set)

lemma in_cores: "p \<in> set (payments db) \<Longrightarrow> core p \<in> set (cores db)"
  by (simp add: cores_def)

lemma billing_move_same_core:
  assumes "billing_move db db'" "same_core db' db''"
  shows "billing_move db db''"
proof -
  note e = assms(2) [unfolded same_core_def]
  from assms(1) show ?thesis
  proof cases
    case mv_same
    then show ?thesis using assms(2) same_core_trans billing_move.mv_same by blast
  next
    case (mv_activate env payment invoiceId intent)
    then have "activation env payment invoiceId intent db db''"
      using e coupon_step_cong [of db db db' db''] by (simp add: activation_def)
    then show ?thesis using mv_activate billing_move.mv_activate by blast
  next
    case (mv_close i st invoiceId)
    then have "closing i st invoiceId db db''" using e by (simp add: closing_def)
    then show ?thesis by (rule billing_move.mv_close)
  next
    case (mv_void invoiceId)
    then have "voiding invoiceId db db''" using e by (simp add: voiding_def)
    then show ?thesis by (rule billing_move.mv_void)
  next
    case (mv_refund env payment rows)
    have q: "cores db'' = cores db'" "invoices db'' = invoices db'" "subscriptions db'' = subscriptions db'"
      "coupons db'' = coupons db'" "redemptions db'' = redemptions db'" using e by simp_all
    have "refunding env payment rows db db''" using mv_refund(1) unfolding refunding_def q .
    then show ?thesis using mv_refund billing_move.mv_refund by blast
  next
    case mv_open
    then have "checkout_move db db''" using e by (simp add: checkout_move_def)
    then show ?thesis by (rule billing_move.mv_open)
  next
    case mv_end
    then have "ending db db''" using e by (simp add: ending_def)
    then show ?thesis by (rule billing_move.mv_end)
  qed
qed

lemma settleLocked_move:
  assumes "settleLocked env gateway payment callback db = Inr (outcome, db')"
    "core payment \<in> set (cores db)" "wf_env env" "db_valid db"
  shows "db_valid db' \<and> billing_move db db' \<and> ((\<forall>u i r. outcome \<noteq> Activated u i r) \<longrightarrow> same_core db db')"
  using settleLocked_Inr [OF assms(1)] assms(2-4) billing_move.intros(1,2) by blast

lemma set_subscription_ending:
  assumes "set_subscription c f db = Inr db'"
    and "\<And>s. sub_payment (f s) = sub_payment s \<and> sub_team (f s) = sub_team s \<and> sub_end (f s) = sub_end s \<and>
      (is_live (f s) \<longrightarrow> is_live s)"
  shows "db_valid db' \<and> billing_move db db'"
proof -
  from assms(1) have "db' = db\<lparr>subscriptions := sql_update c f (subscriptions db)\<rparr>" "db_valid db'"
    by (auto simp: set_subscription_def exec_Inr_iff)
  moreover from this(1) assms(2) have "ending db db'" unfolding ending_def by (auto simp: cores_def)
  ultimately show ?thesis using billing_move.mv_end by blast
qed

lemma billing_step_move:
  assumes "billing_step db db'" "db_valid db"
  shows "db_valid db' \<and> billing_move db db'"
  using assms(1)
proof cases
  case (st_checkout intl env inp key draft)
  from createCheckout_after_Inr [OF st_checkout(1)] obtain row charge year number where
    c: "price_checkout env inp db = Inr (row, charge)" "db_valid db'"
      "db' = db\<lparr>sequences := snd (nextSequence year (sequences db)),
        invoices := invoices db @ [new_invoice env inp charge number],
        payments := payments db @ [new_payment env inp row charge key]\<rparr>" by blast
  then have "price_checkout env inp db = Inr (row, charge) \<and>
     cores db' = cores db @ [core (new_payment env inp row charge key)] \<and>
     invoices db' = invoices db @ [new_invoice env inp charge number] \<and>
     subscriptions db' = subscriptions db \<and> coupons db' = coupons db \<and> redemptions db' = redemptions db"
    by (simp add: cores_def)
  then have "checkout_move db db'" unfolding checkout_move_def by blast
  then show ?thesis using c(2) billing_move.mv_open by blast
next
  case (st_authority i a)
  then have "same_core db db' \<and> db_valid db'"
    unfolding saveAuthority_def by (rule set_payment_same_core) (simp add: core_def)
  then show ?thesis using billing_move.mv_same by blast
next
  case (st_void_invoice i)
  then show ?thesis using voidInvoice_Inr [OF st_void_invoice assms(2)] billing_move.mv_void by blast
next
  case (st_fail i code)
  then show ?thesis using failPayment_Inr [OF st_fail(1) assms(2) st_fail(2)] billing_move.mv_close by blast
next
  case (st_settle env gateway locator hooks outcome)
  from st_settle(1) obtain payment db1 where
    l: "lockPaymentForSettle gateway locator db = Inr payment"
    and s: "settleLocked env gateway payment (callbackPayload hooks) db = Inr (outcome, db1)"
    and h: "onSettled hooks outcome db1 = Inr db'"
    unfolding settle_tx_def by (auto elim!: and_then_InrE)
  from st_settle(2) h obtain a where "db' = db1\<lparr>audit_logs := a\<rparr>" unfolding audit_hook_def by blast
  moreover from settleLocked_move [OF s _ st_settle(3) assms(2)] lockPaymentForSettle_Inr [OF l]
  have "db_valid db1 \<and> billing_move db db1" by (simp add: in_cores)
  ultimately show ?thesis using billing_move_same_core [of db db1 db'] by simp
next
  case (st_refund env gateway i source rows)
  then show ?thesis using refundPayment_Inr [OF st_refund(1) assms(2)] billing_move.mv_refund by blast
next
  case (st_expire env gateway actor i reason kind)
  from st_expire(1) obtain payment where
    l: "lockPaymentForSettle gateway (ById i) db = Inr payment"
    and rest: "(if pay_status payment \<noteq> P_pending then Inr (ExpireAlreadySettled, db)
     else
       and_then (settleLocked env gateway payment None db) (\<lambda>(outcome, db1).
       (let db2 = auditSweepSettle actor i outcome ''expire'' db1 in
        case outcome of
          Activated _ _ _ \<Rightarrow> Inr (ExpireActivated, db2)
        | AlreadySettled _ _ _ \<Rightarrow> Inr (ExpireAlreadySettled, db2)
        | SettleUnknown \<Rightarrow> Inr (ExpireUnknown, db2)
        | StillNotPaid c \<Rightarrow>
            and_then (applyExpiry env payment actor reason (code_text c) db2) (\<lambda>db3.
            Inr (Expired, db3))))) = Inr (kind, db')"
    unfolding expire_tx_def by (auto elim!: and_then_InrE)
  have in_db: "core payment \<in> set (cores db)" using lockPaymentForSettle_Inr [OF l] by (simp add: in_cores)
  show ?thesis
  proof (cases "pay_status payment = P_pending")
    case False
    then show ?thesis using rest assms(2) billing_move.mv_same by simp
  next
    case True
    note pending = True
    with rest obtain outcome db1 where s: "settleLocked env gateway payment None db = Inr (outcome, db1)"
      and r: "(case outcome of
          Activated _ _ _ \<Rightarrow> Inr (ExpireActivated, auditSweepSettle actor i outcome ''expire'' db1)
        | AlreadySettled _ _ _ \<Rightarrow> Inr (ExpireAlreadySettled, auditSweepSettle actor i outcome ''expire'' db1)
        | SettleUnknown \<Rightarrow> Inr (ExpireUnknown, auditSweepSettle actor i outcome ''expire'' db1)
        | StillNotPaid c \<Rightarrow>
            and_then (applyExpiry env payment actor reason (code_text c) (auditSweepSettle actor i outcome ''expire'' db1))
              (\<lambda>db3. Inr (Expired, db3))) = Inr (kind, db')"
      by (auto elim!: and_then_InrE simp: Let_def)
    note m = settleLocked_move [OF s in_db st_expire(2) assms(2)]
    show ?thesis
    proof (cases "\<exists>c. outcome = StillNotPaid c")
      case False
      then have "db' = db1 \<or> (\<exists>a. db' = db1\<lparr>audit_logs := a\<rparr>)"
        using r by (auto simp: auditSweepSettle_def recordAudit_def split: SettleOutcome.splits if_splits)
      then show ?thesis using m billing_move_same_core [of db db1 db'] by auto
    next
      case True
      then obtain c where o': "outcome = StillNotPaid c" by blast
      then have sc: "same_core db db1" "db_valid db1" using m by simp_all
      from r o' have x: "applyExpiry env payment actor reason (code_text c) db1 = Inr db'"
        by (auto simp: auditSweepSettle_def outcome_kind_def and_then_Inr_iff)
      have "core payment \<in> set (cores db1)" using in_db sc(1) by (simp add: same_core_def)
      from applyExpiry_Inr [OF x sc(2) this pending]
      have cl: "db_valid db'" "closing (pay_id payment) P_canceled (pay_invoice payment) db1 db'" by blast+
      then have "closing (pay_id payment) P_canceled (pay_invoice payment) db db'"
        using sc(1) by (simp add: closing_def same_core_def)
      then show ?thesis using cl(1) billing_move.mv_close by blast
    qed
  qed
next
  case (st_adopt actor i a hit)
  then have "same_core db db' \<and> db_valid db'"
    using assms(2)
    by (auto simp: adopt_tx_def and_then_Inr_iff exec_Inr_iff recordAudit_def same_core_def cores_def core_def
        map_core_same split: if_splits)
  then show ?thesis using billing_move.mv_same by blast
next
  case (st_end env n)
  then show ?thesis
    by (auto simp: endFinishedSubscriptions_def and_then_Inr_iff is_live_def LIVE_SUBSCRIPTION_STATUSES_def
        elim!: set_subscription_ending split: if_splits)
next
  case (st_cancel env teamId)
  then have "set_subscription (\<lambda>s. sub_team s = teamId \<and> is_live s)
      (\<lambda>s. s\<lparr>sub_cancel_at_end := True, sub_canceled_at := Some (env_now env)\<rparr>) db = Inr db'"
    by (simp add: cancelAtPeriodEnd_def split: if_splits)
  then show ?thesis by (rule set_subscription_ending) (simp add: is_live_def)
next
  case (st_claim env i ref last4 team)
  then obtain db1 where "set_payment i
      (\<lambda>p. p\<lparr>pay_transfer := (pay_transfer p)\<lparr>tr_claimed_ref := Some ref, tr_claimed_last4 := last4,
         tr_claimed_at := Some (env_now env)\<rparr>\<rparr>) db = Inr db'"
    by (auto simp: claimTransfer_def and_then_Inr_iff split: option.splits if_splits)
  then have "same_core db db' \<and> db_valid db'" by (rule set_payment_same_core) (simp add: core_def)
  then show ?thesis using billing_move.mv_same by blast
next
  case (st_approve env settings actor inp outcome)
  define gateway where "gateway = createCardTransferGatewayOn settings env"
  from st_approve(1) obtain payment db1 db2 where
    l: "lockPaymentForSettle gateway (ById (ap_paymentId inp)) db = Inr payment"
    and d1: "set_payment (ap_paymentId inp)
        (\<lambda>p. p\<lparr>pay_transfer := (pay_transfer p)\<lparr>tr_ref := Some (ap_ref inp), tr_sender_last4 := ap_last4 inp,
            tr_approved_by := actor, tr_approved_at := Some (env_now env)\<rparr>\<rparr>) db = Inr db1"
    and s: "settleLocked env gateway payment None db1 = Inr (outcome, db2)"
    and audit: "db' = recordAudit actor ''payment.approveTransfer'' (ap_paymentId inp)
               ((''outcome'', outcome_kind outcome) #
                (''amountRial'', show_int (ap_observedAmountRial inp)) #
                (''transferRef'', ap_ref inp) #
                (case ap_note inp of None \<Rightarrow> [] | Some n \<Rightarrow> [(''note'', n)])) db2"
    unfolding approveTransfer_def Let_def gateway_def [symmetric]
    by (auto elim!: and_then_InrE split: if_splits)
  have db': "\<exists>a. db' = db2\<lparr>audit_logs := a\<rparr>" unfolding audit recordAudit_def by blast
  have sc: "same_core db db1 \<and> db_valid db1"
    by (rule set_payment_same_core [OF d1]) (simp add: core_def)
  have in_db: "core payment \<in> set (cores db1)"
    using lockPaymentForSettle_Inr [OF l] sc by (simp add: same_core_def in_cores)
  have "db_valid db2 \<and> billing_move db db2"
    using settleLocked_Inr [OF s]
  proof (elim disjE exE conjE)
    fix invoiceId intent ref
    assume a: "db_valid db2" "activation env payment invoiceId intent db1 db2"
    then have "activation env payment invoiceId intent db db2"
      using sc coupon_step_cong [of db1 db db2 db2] by (simp add: activation_def same_core_def)
    then show ?thesis using a(1) in_db sc st_approve(2) by (auto simp: same_core_def intro!: billing_move.mv_activate)
  next
    assume "same_core db1 db2" "db_valid db1 \<longrightarrow> db_valid db2"
    then show ?thesis using sc same_core_trans billing_move.mv_same by blast
  qed
  then show ?thesis using db' billing_move_same_core [of db db2 db'] by auto
qed

subsection \<open>The invariant\<close>

text \<open>
  Every subscription that a payment activated has that payment, of its own team, paid (or refunded, once
  the subscription is over); no payment activated two; every payment has its own invoice over its amount
  in the corresponding state; every coupon counts its redemptions.
\<close>

definition backed :: "PaymentCore list \<Rightarrow> Subscription \<Rightarrow> bool" where
  "backed ks s \<longleftrightarrow>
     (case sub_payment s of None \<Rightarrow> True
      | Some i \<Rightarrow> \<exists>k \<in> set ks. k_id k = i \<and> k_team k = sub_team s \<and>
          (k_status k = P_paid \<or> k_status k = P_refunded \<and> \<not> is_live s))"

definition invoice_state :: "PaymentStatus \<Rightarrow> InvoiceStatus" where
  "invoice_state st = (case st of P_pending \<Rightarrow> I_open | P_paid \<Rightarrow> I_paid | P_refunded \<Rightarrow> I_refunded | _ \<Rightarrow> I_void)"

text \<open>The state of the invoice of a payment, but for a voided checkout whose payment has still to be failed.\<close>

definition invoice_follows :: "PaymentStatus \<Rightarrow> InvoiceStatus \<Rightarrow> bool" where
  "invoice_follows st i \<longleftrightarrow> i = invoice_state st \<or> st = P_pending \<and> i = I_void"

lemma invoice_follows_simps:
  "invoice_follows P_pending i \<longleftrightarrow> i = I_open \<or> i = I_void" "invoice_follows P_paid i \<longleftrightarrow> i = I_paid"
  "invoice_follows P_refunded i \<longleftrightarrow> i = I_refunded" "invoice_follows P_failed i \<longleftrightarrow> i = I_void"
  "invoice_follows P_canceled i \<longleftrightarrow> i = I_void" "invoice_follows P_verify_failed i \<longleftrightarrow> i = I_void"
  by (auto simp: invoice_follows_def invoice_state_def)

lemma open_invoice_pending: "invoice_follows st I_open \<Longrightarrow> st = P_pending"
  by (cases st) (simp_all add: invoice_follows_simps)

definition invoiced :: "Invoice list \<Rightarrow> PaymentCore \<Rightarrow> bool" where
  "invoiced invs k \<longleftrightarrow> (\<exists>i \<in> set invs. k_invoice k = Some (inv_id i) \<and> inv_team i = k_team k \<and>
     inv_total i = k_amount k \<and> invoice_follows (k_status k) (inv_status i))"

definition activators :: "Subscription list \<Rightarrow> string option list" where
  "activators t = map sub_payment (filter (\<lambda>s. sub_payment s \<noteq> None) t)"

definition redemption_count :: "Redemption list \<Rightarrow> string \<Rightarrow> int" where
  "redemption_count t code = int (length (filter (\<lambda>r. rd_coupon r = code) t))"

definition counted :: "Redemption list \<Rightarrow> Coupon \<Rightarrow> bool" where
  "counted t c \<longleftrightarrow> cp_redeemed_count c = redemption_count t (cp_code c)"

definition billing_inv :: "BillingDb \<Rightarrow> bool" where
  "billing_inv db \<longleftrightarrow> db_valid db \<and>
     list_all (backed (cores db)) (subscriptions db) \<and> distinct (activators (subscriptions db)) \<and>
     list_all (invoiced (invoices db)) (cores db) \<and> distinct (map k_invoice (cores db)) \<and>
     list_all (counted (redemptions db)) (coupons db) \<and>
     list_all (\<lambda>s. wf_instant (sub_end s)) (subscriptions db)"

lemma list_all_update:
  "list_all q t \<Longrightarrow> (\<And>r. q r \<Longrightarrow> c r \<Longrightarrow> q' (f r)) \<Longrightarrow> (\<And>r. q r \<Longrightarrow> q' r) \<Longrightarrow> list_all q' (sql_update c f t)"
  by (induction t) auto

lemma activators_update:
  "(\<And>s. sub_payment (f s) = sub_payment s) \<Longrightarrow> activators (sql_update c f t) = activators t"
  unfolding activators_def by (rule filter_map_sql_update) simp_all

lemma backed_less_live:
  "backed ks s \<Longrightarrow> sub_payment s' = sub_payment s \<Longrightarrow> sub_team s' = sub_team s \<Longrightarrow>
     (is_live s' \<Longrightarrow> is_live s) \<Longrightarrow> backed ks s'"
  by (auto simp: backed_def split: option.splits)

lemma backed_set_status:
  assumes "backed ks s" "sub_payment s \<noteq> Some i"
  shows "backed (set_status i st ks) s"
  using assms by (auto simp: backed_def set_status_def table_simps split: option.splits)

lemma invoiced_set_status:
  assumes "k_id k \<noteq> i" "invoiced invs k" "k_invoice k \<noteq> Some x"
    "\<And>q. inv_id (f q) = inv_id q" "\<And>q. c q \<Longrightarrow> inv_id q = x"
  shows "invoiced (sql_update c f invs) k"
proof -
  from assms(2) obtain q where q: "q \<in> set invs" "k_invoice k = Some (inv_id q)" "inv_team q = k_team k"
    "inv_total q = k_amount k" "invoice_follows (k_status k) (inv_status q)" by (auto simp: invoiced_def)
  have "\<not> c q" using assms(3,5) q(2) by auto
  then have "q \<in> set (sql_update c f invs)" using q(1) by (auto simp: in_set_sql_update)
  then show ?thesis using q by (auto simp: invoiced_def)
qed

lemma same_invoice_same_core:
  "distinct (map k_invoice (cores db)) \<Longrightarrow> k \<in> set (cores db) \<Longrightarrow> l \<in> set (cores db) \<Longrightarrow>
     k_invoice k = k_invoice l \<Longrightarrow> k = l"
  by (auto simp: distinct_map dest: inj_onD)

subsection \<open>Preservation\<close>

lemma find_live_unique:
  assumes "distinct (map sub_team (filter is_live t))" "s \<in> set t" "is_live s" "q \<in> set t" "is_live q"
    "sub_team q = sub_team s"
  shows "q = s"
  using assms by (auto simp: distinct_map dest: inj_onD)

lemma expire_live_update:
  "\<exists>c. expire_live teamId t = sql_update c (\<lambda>q. q\<lparr>sub_status := S_expired\<rparr>) t"
proof (cases "find (\<lambda>s. sub_team s = teamId \<and> is_live s) t")
  case None
  then have "expire_live teamId t = sql_update (\<lambda>_. False) (\<lambda>q. q\<lparr>sub_status := S_expired\<rparr>) t"
    by (simp add: expire_live_def sql_update_none)
  then show ?thesis by blast
qed (auto simp: expire_live_def)

lemma cancel_activated_update:
  "\<exists>c. cancel_activated env i t =
     sql_update c (\<lambda>q. q\<lparr>sub_status := S_canceled, sub_canceled_at := Some (env_now env)\<rparr>) t"
proof (cases "find (\<lambda>s. activated_by i s \<and> is_live s) t")
  case None
  then have "cancel_activated env i t =
     sql_update (\<lambda>_. False) (\<lambda>q. q\<lparr>sub_status := S_canceled, sub_canceled_at := Some (env_now env)\<rparr>) t"
    by (simp add: cancel_activated_def sql_update_none)
  then show ?thesis by blast
qed (auto simp: cancel_activated_def)

lemma not_live_status [simp]:
  "\<not> is_live (s\<lparr>sub_status := S_expired\<rparr>)" "\<not> is_live (s\<lparr>sub_status := S_canceled, sub_canceled_at := x\<rparr>)"
  by (simp_all add: is_live_def LIVE_SUBSCRIPTION_STATUSES_def)

lemma renewal_anchor_wf:
  "wf_instant (env_date env) \<Longrightarrow> list_all (\<lambda>s. wf_instant (sub_end s)) t \<Longrightarrow>
     wf_instant (renewal_anchor env teamId plan t)"
  by (auto simp: renewal_anchor_def list_all_iff split: option.splits dest: find_Some_in_set)

lemma coupon_step_counted:
  assumes "coupon_step code teamId db db'" "list_all (counted (redemptions db)) (coupons db)"
  shows "list_all (counted (redemptions db')) (coupons db')"
proof (cases code)
  case None
  then show ?thesis using assms by (simp add: coupon_step_def)
next
  case (Some c)
  show ?thesis
  proof (cases "redeemed c teamId (redemptions db)")
    case True
    then show ?thesis using assms Some by (simp add: coupon_step_def)
  next
    case False
    with assms(1) Some obtain invoiceId where
      r: "redemptions db' = redemptions db @ [\<lparr> rd_coupon = c, rd_team = teamId, rd_invoice = invoiceId \<rparr>]"
      and u: "coupons db' = sql_update (\<lambda>q. cp_code q = c)
         (\<lambda>q. q\<lparr>cp_redeemed_count := cp_redeemed_count q + 1\<rparr>) (coupons db)"
      by (auto simp: coupon_step_def)
    show ?thesis unfolding u r using assms(2)
      by (auto simp: list_all_iff table_simps counted_def redemption_count_def)
  qed
qed

lemma activation_preserves:
  assumes a: "activation env payment invoiceId intent db db'" "core payment \<in> set (cores db)" "wf_env env"
    and inv: "billing_inv db" and "db_valid db'"
  shows "billing_inv db'"
proof -
  note i = inv [unfolded billing_inv_def]
  define i0 where "i0 = pay_id payment"
  have pend: "k_status k = P_pending" if "k \<in> set (cores db)" "k_id k = i0" for k
    using same_id_same_core [OF conjunct1 [OF i] that(1) a(2)] that(2) a(1) by (simp add: i0_def activation_def)
  have fresh: "sub_payment s \<noteq> Some i0" if "s \<in> set (subscriptions db)" for s
    using i that pend by (fastforce simp: list_all_iff backed_def)
  have ks: "cores db' = set_status i0 P_paid (cores db)" using a(1) by (simp add: activation_def i0_def)
  obtain c where old: "expire_live (pay_team payment) (subscriptions db) =
      sql_update c (\<lambda>q. q\<lparr>sub_status := S_expired\<rparr>) (subscriptions db)" using expire_live_update by blast
  define new where "new = new_subscription env (pay_team payment) (pay_id payment) intent
      (renewal_anchor env (pay_team payment) (in_planCode intent) (subscriptions db))"
  have subs: "subscriptions db' = sql_update c (\<lambda>q. q\<lparr>sub_status := S_expired\<rparr>) (subscriptions db) @ [new]"
    using a(1) old by (simp add: activation_def new_def)
  have k_new: "(core payment)\<lparr>k_status := P_paid\<rparr> \<in> set (cores db')"
    using a(2) unfolding ks set_status_def by (auto simp: in_set_sql_update i0_def)
  have "list_all (backed (cores db')) (sql_update c (\<lambda>q. q\<lparr>sub_status := S_expired\<rparr>) (subscriptions db))"
  proof -
    have "list_all (\<lambda>s. backed (cores db') s) (subscriptions db)"
      unfolding list_all_iff ks using i fresh by (intro ballI backed_set_status) (auto simp: list_all_iff)
    then show ?thesis by (rule list_all_update) (auto elim: backed_less_live)
  qed
  moreover have "backed (cores db') new"
    unfolding backed_def using k_new
    by (auto simp: new_def new_subscription_def intro!: bexI [of _ "(core payment)\<lparr>k_status := P_paid\<rparr>"])
  ultimately have "list_all (backed (cores db')) (subscriptions db')" by (simp add: subs)
  moreover have "distinct (activators (subscriptions db'))"
    using i fresh unfolding subs activators_def
    by (auto simp: filter_map_sql_update new_def new_subscription_def i0_def)
  moreover have "list_all (invoiced (invoices db')) (cores db')"
    unfolding list_all_iff
  proof
    fix k' assume "k' \<in> set (cores db')"
    then obtain k where k: "k \<in> set (cores db)" "k' = (if k_id k = i0 then k\<lparr>k_status := P_paid\<rparr> else k)"
      unfolding ks set_status_def in_set_sql_update by blast
    have inv_k: "invoiced (invoices db) k" using i k(1) by (simp add: list_all_iff)
    have invs: "invoices db' = sql_update (\<lambda>i. inv_id i = invoiceId)
       (\<lambda>i. i\<lparr>inv_status := I_paid, inv_paid_at := Some (env_now env)\<rparr>) (invoices db)"
      and own: "pay_invoice payment = Some invoiceId" using a(1) by (simp_all add: activation_def)
    show "invoiced (invoices db') k'"
    proof (cases "k_id k = i0")
      case True
      then have "k = core payment" using same_id_same_core [OF conjunct1 [OF i] k(1) a(2)] by (simp add: i0_def)
      then show ?thesis using inv_k own True unfolding k(2) invs invoiced_def
        by (auto simp: table_simps invoice_follows_simps)
    next
      case False
      have "k_invoice k \<noteq> Some invoiceId"
      proof
        assume "k_invoice k = Some invoiceId"
        then have "k = core payment" using same_invoice_same_core i k(1) a(2) own by auto
        then show False using False by (simp add: i0_def)
      qed
      then show ?thesis using False inv_k k(2) unfolding invs
        by (simp add: invoiced_set_status [where x = invoiceId and i = i0])
    qed
  qed
  moreover have "map k_invoice (cores db') = map k_invoice (cores db)"
    unfolding ks set_status_def by (rule map_sql_update) simp
  moreover have "list_all (counted (redemptions db')) (coupons db')"
    by (rule coupon_step_counted [of "in_couponCode intent" "pay_team payment" db db'])
      (use a(1) i in \<open>simp_all add: activation_def\<close>)
  moreover have "list_all (\<lambda>s. wf_instant (sub_end s)) (subscriptions db')"
  proof -
    have "list_all (\<lambda>s. wf_instant (sub_end s)) (sql_update c (\<lambda>q. q\<lparr>sub_status := S_expired\<rparr>) (subscriptions db))"
      by (rule list_all_update [of "\<lambda>s. wf_instant (sub_end s)"]) (use i in simp_all)
    moreover have "wf_instant (sub_end new)"
      using renewal_anchor_wf computePeriod_later(2) i a(3) by (simp add: new_def new_subscription_def wf_env_def)
    ultimately show ?thesis by (simp add: subs)
  qed
  ultimately show ?thesis using i assms(5) by (simp add: billing_inv_def)
qed

lemma closing_preserves:
  assumes a: "closing i st invoiceId db db'" and inv: "billing_inv db" and "db_valid db'"
  shows "billing_inv db'"
proof -
  note v = inv [unfolded billing_inv_def]
  have ks: "cores db' = sql_update (\<lambda>k. k_id k = i \<and> k_status k = P_pending) (\<lambda>k. k\<lparr>k_status := st\<rparr>) (cores db)"
    and invs: "invoices db' = sql_update (\<lambda>q. invoiceId = Some (inv_id q) \<and> inv_status q = I_open)
       (\<lambda>q. q\<lparr>inv_status := I_void\<rparr>) (invoices db)"
    and st: "st \<in> {P_failed, P_canceled}"
    and own: "\<And>k. k \<in> set (cores db) \<Longrightarrow> k_id k = i \<Longrightarrow> k_invoice k = invoiceId"
    and ex: "invoiceId \<noteq> None \<Longrightarrow> \<exists>k \<in> set (cores db). k_id k = i"
    and rest: "subscriptions db' = subscriptions db" "coupons db' = coupons db" "redemptions db' = redemptions db"
    using a by (simp_all add: closing_def)
  have "backed (cores db') s" if "backed (cores db) s" for s
    using that unfolding backed_def ks by (auto simp: table_simps split: option.splits)
  moreover have "invoiced (invoices db') k'" if "k' \<in> set (cores db')" for k'
  proof -
    from that obtain k where k: "k \<in> set (cores db)"
      "k' = (if k_id k = i \<and> k_status k = P_pending then k\<lparr>k_status := st\<rparr> else k)"
      unfolding ks in_set_sql_update by blast
    from v k(1) obtain q where q: "q \<in> set (invoices db)" "k_invoice k = Some (inv_id q)" "inv_team q = k_team k"
      "inv_total q = k_amount k" "invoice_follows (k_status k) (inv_status q)" by (auto simp: list_all_iff invoiced_def)
    show ?thesis
    proof (cases "k_id k = i \<and> k_status k = P_pending")
      case True
      then have "invoiceId = Some (inv_id q)" "inv_status q = I_open \<or> inv_status q = I_void"
        using own [OF k(1)] q by (simp_all add: invoice_follows_simps)
      then show ?thesis
        using q k(2) True st unfolding invoiced_def invs
        by (auto simp: table_simps invoice_follows_simps intro!: bexI [of _ q])
    next
      case False
      have "\<not> (invoiceId = Some (inv_id q) \<and> inv_status q = I_open)"
      proof
        assume h: "invoiceId = Some (inv_id q) \<and> inv_status q = I_open"
        then obtain l where l: "l \<in> set (cores db)" "k_id l = i" using ex by blast
        then have "k_invoice l = k_invoice k" using own h q(2) by simp
        then have "l = k" using same_invoice_same_core v l(1) k(1) by blast
        then show False using False l(2) h q(5) open_invoice_pending [of "k_status k"] by auto
      qed
      then have "q \<in> set (invoices db')" using q(1) unfolding invs by (auto simp: in_set_sql_update)
      moreover have "k' = k" using k(2) False by simp
      ultimately show ?thesis using q unfolding invoiced_def by blast
    qed
  qed
  moreover have "map k_invoice (cores db') = map k_invoice (cores db)"
    unfolding ks by (rule map_sql_update) simp
  ultimately show ?thesis using v assms(3) rest by (simp add: billing_inv_def list_all_iff)
qed

lemma voiding_preserves:
  assumes a: "voiding invoiceId db db'" and inv: "billing_inv db" and "db_valid db'"
  shows "billing_inv db'"
proof -
  note v = inv [unfolded billing_inv_def]
  have "invoiced (invoices db') k" if "k \<in> set (cores db)" for k
  proof -
    from v that obtain q where q: "q \<in> set (invoices db)" "k_invoice k = Some (inv_id q)" "inv_team q = k_team k"
      "inv_total q = k_amount k" "invoice_follows (k_status k) (inv_status q)"
      by (auto simp: list_all_iff invoiced_def)
    let ?hit = "invoiceId = Some (inv_id q) \<and> inv_status q = I_open"
    let ?q = "if ?hit then q\<lparr>inv_status := I_void\<rparr> else q"
    have "?q \<in> set (invoices db')" using a q(1) unfolding voiding_def by (auto simp: in_set_sql_update)
    moreover have "invoice_follows (k_status k) (inv_status ?q)"
      using q(5) open_invoice_pending [of "k_status k"] by (auto simp: invoice_follows_simps)
    ultimately show ?thesis using q(2-4) unfolding invoiced_def by (intro bexI [of _ ?q]) auto
  qed
  then show ?thesis using a v assms(3) by (simp add: voiding_def billing_inv_def list_all_iff)
qed

lemma ending_preserves:
  assumes "ending db db'" "billing_inv db" "db_valid db'"
  shows "billing_inv db'"
proof -
  from assms(1) obtain c f where e: "cores db' = cores db" "invoices db' = invoices db" "coupons db' = coupons db"
     "redemptions db' = redemptions db" "subscriptions db' = sql_update c f (subscriptions db)"
     "\<And>s. sub_payment (f s) = sub_payment s" "\<And>s. sub_team (f s) = sub_team s" "\<And>s. sub_end (f s) = sub_end s"
     "\<And>s. is_live (f s) \<Longrightarrow> is_live s" unfolding ending_def by blast
  have "list_all (backed (cores db)) (sql_update c f (subscriptions db))"
    by (rule list_all_update [of "backed (cores db)"])
      (use assms(2) e in \<open>auto simp: billing_inv_def elim: backed_less_live\<close>)
  moreover have "list_all (\<lambda>s. wf_instant (sub_end s)) (sql_update c f (subscriptions db))"
    by (rule list_all_update [of "\<lambda>s. wf_instant (sub_end s)"]) (use assms(2) e in \<open>auto simp: billing_inv_def\<close>)
  ultimately show ?thesis
    using assms(2,3) e activators_update [of f c "subscriptions db"] by (simp add: billing_inv_def)
qed

lemma same_core_preserves:
  "same_core db db' \<Longrightarrow> billing_inv db \<Longrightarrow> db_valid db' \<Longrightarrow> billing_inv db'"
  by (simp add: same_core_def billing_inv_def)

lemma price_checkout_Inr:
  assumes "price_checkout env inp db = Inr (row, charge)"
  shows "row \<in> set (plans db)" "plan_code (pl_plan row) = co_planCode inp" "pl_is_active row"
    "\<exists>coupon. resolveCoupon env (co_teamId inp) (co_couponCode inp) (co_planCode inp) db = Inr coupon \<and>
       computeCharge \<lparr> ci_plan = pl_plan row, ci_period = co_period inp, ci_seats = co_seats inp,
         ci_coupon = coupon, ci_vatPercent = co_vatPercent inp \<rparr> = Inr charge"
    "assertGatewayAmount (totalRial charge) = Inr ()"
  using assms unfolding price_checkout_def
  by (auto simp: and_then_Inr_iff map_sum_Inr_iff split: option.splits if_splits dest: find_Some_in_set)

lemma checkout_preserves:
  assumes a: "checkout_move db db'" and inv: "billing_inv db" and "db_valid db'"
  shows "billing_inv db'"
proof -
  note v = inv [unfolded billing_inv_def]
  from a obtain env inp row charge key number where
    p: "price_checkout env inp db = Inr (row, charge)"
    and ks: "cores db' = cores db @ [core (new_payment env inp row charge key)]"
    and invs: "invoices db' = invoices db @ [new_invoice env inp charge number]"
    and rest: "subscriptions db' = subscriptions db" "coupons db' = coupons db" "redemptions db' = redemptions db"
    unfolding checkout_move_def by blast
  have "backed (cores db') s" if "backed (cores db) s" for s
    using that by (auto simp: backed_def ks split: option.splits)
  moreover have "invoiced (invoices db') k" if "invoiced (invoices db) k" for k
    using that by (auto simp: invoiced_def invs)
  moreover have "invoiced (invoices db') (core (new_payment env inp row charge key))"
    by (simp add: invoiced_def invs new_payment_def new_invoice_def invoice_follows_simps)
  moreover have "distinct (map k_invoice (cores db'))"
  proof -
    have "env_uuid1 env \<notin> inv_id ` set (invoices db)"
      using assms(3) by (simp add: db_valid_iff invoices_error_None invs new_invoice_def)
    then have "Some (env_uuid1 env) \<notin> k_invoice ` set (cores db)"
      using v by (force simp: list_all_iff invoiced_def)
    then show ?thesis using v by (simp add: ks new_payment_def)
  qed
  ultimately show ?thesis using v assms(3) rest by (simp add: billing_inv_def list_all_iff ks)
qed

lemma one_subscription_per_payment:
  assumes "distinct (activators t)" "s \<in> set t" "q \<in> set t" "sub_payment s = Some i" "sub_payment q = Some i"
  shows "s = q"
proof -
  have "inj_on sub_payment (set (filter (\<lambda>s. sub_payment s \<noteq> None) t))"
    using assms(1) unfolding activators_def distinct_map by blast
  then show ?thesis by (rule inj_onD) (use assms in simp_all)
qed

lemma refunding_preserves:
  assumes a: "refunding env payment rows db db'" "payment \<in> set (payments db)"
    and inv: "billing_inv db" and valid: "db_valid db'"
  shows "billing_inv db'"
proof -
  note v = inv [unfolded billing_inv_def]
  define i0 where "i0 = pay_id payment"
  define t where "t = cancel_activated env i0 (subscriptions db)"
  have ks: "cores db' = set_status i0 P_refunded (cores db)"
    and invs: "invoices db' = sql_update (\<lambda>i. pay_invoice payment = Some (inv_id i) \<and> inv_status i = I_paid)
       (\<lambda>i. i\<lparr>inv_status := I_refunded, inv_refunded_at := Some (env_now env)\<rparr>) (invoices db)"
    and paid: "pay_status payment = P_paid"
    and rest: "coupons db' = coupons db" "redemptions db' = redemptions db"
    using a(1) by (simp_all add: refunding_def i0_def)
  have in_db: "core payment \<in> set (cores db)" using a(2) by (rule in_cores)
  obtain c where t_eq: "t = sql_update c (\<lambda>q. q\<lparr>sub_status := S_canceled, sub_canceled_at := Some (env_now env)\<rparr>)
      (subscriptions db)" using cancel_activated_update unfolding t_def by blast
  have acts: "activators t = activators (subscriptions db)" unfolding t_eq by (rule activators_update) simp
  have ends: "list_all (\<lambda>s. wf_instant (sub_end s)) t"
    unfolding t_eq by (rule list_all_update [of "\<lambda>s. wf_instant (sub_end s)"]) (use v in simp_all)
  have one: "s = q" if "s \<in> set (subscriptions db)" "q \<in> set (subscriptions db)"
    "sub_payment s = Some i0" "sub_payment q = Some i0" for s q
    by (rule one_subscription_per_payment [of "subscriptions db" s q i0]) (use that v in simp_all)
  have dead: "\<not> is_live s" if "s \<in> set t" "sub_payment s = Some i0" for s
  proof (cases "find (\<lambda>s. activated_by i0 s \<and> is_live s) (subscriptions db)")
    case None
    then have "t = subscriptions db" by (simp add: t_def cancel_activated_def)
    then show ?thesis using None that by (auto simp: find_None_iff activated_by_def)
  next
    case (Some w)
    then have w: "w \<in> set (subscriptions db)" "sub_payment w = Some i0"
      using find_Some_in_set [OF Some] by (auto simp: activated_by_def)
    from that(1) Some obtain s0 where s0: "s0 \<in> set (subscriptions db)"
      "s = (if sub_id s0 = sub_id w then s0\<lparr>sub_status := S_canceled, sub_canceled_at := Some (env_now env)\<rparr> else s0)"
      by (auto simp: t_def cancel_activated_def in_set_sql_update)
    then have "s0 = w" using one [OF s0(1) w(1) _ w(2)] that(2) by (auto split: if_splits)
    then show ?thesis using s0(2) by simp
  qed
  have backed_t: "backed (cores db') s" if s: "s \<in> set t" for s
  proof -
    have "list_all (backed (cores db)) t"
      unfolding t_eq by (rule list_all_update [of "backed (cores db)"]) (use v in \<open>auto elim: backed_less_live\<close>)
    then have b: "backed (cores db) s" using s by (simp add: list_all_iff)
    show ?thesis
    proof (cases "sub_payment s = Some i0")
      case False
      then show ?thesis using b unfolding ks by (rule backed_set_status [rotated])
    next
      case True
      with b obtain k where k: "k \<in> set (cores db)" "k_id k = i0" "k_team k = sub_team s" by (auto simp: backed_def)
      then have "k\<lparr>k_status := P_refunded\<rparr> \<in> set (cores db')"
        unfolding ks set_status_def by (auto simp: in_set_sql_update)
      then show ?thesis using k True dead [OF s True]
        by (auto simp: backed_def intro!: bexI [of _ "k\<lparr>k_status := P_refunded\<rparr>"])
    qed
  qed
  have subs: "subscriptions db' = t \<or> (\<exists>w s. restored_from env (pay_team payment) (cores db') t w s \<and>
      subscriptions db' = sql_update (\<lambda>q. sub_id q = sub_id s) (\<lambda>q. q\<lparr>sub_status := S_active\<rparr>) t)"
    using a(1) unfolding refunding_def i0_def [symmetric] t_def [symmetric] by blast
  have ids: "distinct (map sub_id t)"
    using v unfolding t_eq by (simp add: map_sql_update db_valid_iff subscriptions_error_None)
  have "list_all (backed (cores db')) (subscriptions db') \<and>
      activators (subscriptions db') = activators t \<and> list_all (\<lambda>s. wf_instant (sub_end s)) (subscriptions db')"
    using subs
  proof (elim disjE exE conjE)
    assume "subscriptions db' = t"
    then show ?thesis using backed_t ends by (simp add: list_all_iff)
  next
    fix w s
    assume r: "restored_from env (pay_team payment) (cores db') t w s"
      and u: "subscriptions db' = sql_update (\<lambda>q. sub_id q = sub_id s) (\<lambda>q. q\<lparr>sub_status := S_active\<rparr>) t"
    from r obtain k where k: "k \<in> set (cores db')" "sub_payment s = Some (k_id k)" "k_status k = P_paid"
      and s: "s \<in> set t" by (auto simp: restored_from_def)
    have "k_team k = sub_team s"
    proof -
      from backed_t [OF s] k(2) obtain l where "l \<in> set (cores db')" "k_id l = k_id k" "k_team l = sub_team s"
        by (auto simp: backed_def)
      then show ?thesis using same_id_same_core [OF valid] k(1) by metis
    qed
    then have "backed (cores db') (q\<lparr>sub_status := S_active\<rparr>)" if "q \<in> set t" "sub_id q = sub_id s" for q
    proof -
      have "q = s" using that s ids by (auto simp: distinct_map dest: inj_onD)
      then show ?thesis using k \<open>k_team k = sub_team s\<close> by (auto simp: backed_def)
    qed
    then have "list_all (backed (cores db')) (subscriptions db')"
      using backed_t unfolding u by (auto simp: list_all_iff in_set_sql_update)
    moreover have "activators (subscriptions db') = activators t" unfolding u by (rule activators_update) simp
    moreover have "list_all (\<lambda>s. wf_instant (sub_end s)) (subscriptions db')"
      unfolding u by (rule list_all_update [of "\<lambda>s. wf_instant (sub_end s)"]) (use ends in simp_all)
    ultimately show ?thesis by blast
  qed
  moreover have "list_all (invoiced (invoices db')) (cores db')"
    unfolding list_all_iff
  proof
    fix k' assume "k' \<in> set (cores db')"
    then obtain k where k: "k \<in> set (cores db)" "k' = (if k_id k = i0 then k\<lparr>k_status := P_refunded\<rparr> else k)"
      unfolding ks set_status_def in_set_sql_update by blast
    from v k(1) obtain q where q: "q \<in> set (invoices db)" "k_invoice k = Some (inv_id q)" "inv_team q = k_team k"
      "inv_total q = k_amount k" "invoice_follows (k_status k) (inv_status q)" by (auto simp: list_all_iff invoiced_def)
    show "invoiced (invoices db') k'"
    proof (cases "k_id k = i0")
      case True
      then have "k = core payment"
        using same_id_same_core [OF conjunct1 [OF v] k(1) in_db] by (simp add: i0_def)
      then show ?thesis using q k(2) True paid unfolding invoiced_def invs
        by (auto simp: table_simps invoice_follows_simps)
    next
      case False
      have "pay_invoice payment \<noteq> Some (inv_id q)"
      proof
        assume "pay_invoice payment = Some (inv_id q)"
        then have "k = core payment" using same_invoice_same_core v k(1) in_db q(2) by auto
        then show False using False by (simp add: i0_def)
      qed
      then have "q \<in> set (invoices db')" using q(1) unfolding invs by (auto simp: in_set_sql_update)
      then show ?thesis using q k(2) False unfolding invoiced_def by auto
    qed
  qed
  moreover have "map k_invoice (cores db') = map k_invoice (cores db)"
    unfolding ks set_status_def by (rule map_sql_update) simp
  ultimately show ?thesis using v valid rest acts by (simp add: billing_inv_def)
qed

lemma billing_step_preserves:
  assumes "billing_step db db'" "billing_inv db"
  shows "billing_inv db'"
proof -
  have "db_valid db" using assms(2) by (simp add: billing_inv_def)
  from billing_step_move [OF assms(1) this] have "billing_move db db'" "db_valid db'" by blast+
  then show ?thesis
    using assms(2) same_core_preserves activation_preserves closing_preserves voiding_preserves refunding_preserves
      checkout_preserves ending_preserves
    by cases blast+
qed

lemma billing_steps_inv: "billing_steps db db' \<Longrightarrow> billing_inv db \<Longrightarrow> billing_inv db'"
  by (induction rule: billing_steps.induct) (auto intro: billing_step_preserves)

text \<open>What the second statement of a voided checkout finds: the invoice it left void is never open again.\<close>

lemma updated_not_open:
  assumes "no_open_invoice i db" "invoices db' = sql_update c f (invoices db)"
    and "\<And>q. inv_id (f q) = inv_id q" "\<And>q. inv_status (f q) \<noteq> I_open"
    and "\<And>k. k \<in> set (cores db') \<Longrightarrow> \<exists>l \<in> set (cores db). k_id l = k_id k \<and> k_invoice l = k_invoice k"
  shows "no_open_invoice i db'"
  unfolding no_open_invoice_def
proof (intro ballI impI)
  fix k q
  assume k: "k \<in> set (cores db')" "k_id k = i" and q: "q \<in> set (invoices db')" "k_invoice k = Some (inv_id q)"
  from assms(5) [OF k(1)] obtain l where l: "l \<in> set (cores db)" "k_id l = i" "k_invoice l = Some (inv_id q)"
    using k(2) q(2) by auto
  from q(1) obtain q0 where q0: "q0 \<in> set (invoices db)" "q = (if c q0 then f q0 else q0)"
    unfolding assms(2) in_set_sql_update by blast
  then have "inv_id q0 = inv_id q" using assms(3) by simp
  with assms(1) l q0(1) have "inv_status q0 \<noteq> I_open" by (simp add: no_open_invoice_def)
  then show "inv_status q \<noteq> I_open" using q0(2) assms(4) by simp
qed

lemma no_open_invoice_stays:
  assumes "billing_step db db'" "billing_inv db" "no_open_invoice i db" "l0 \<in> set (cores db)" "k_id l0 = i"
  shows "no_open_invoice i db'"
proof -
  have valid: "db_valid db" using assms(2) by (simp add: billing_inv_def)
  have move: "billing_move db db'" and valid': "db_valid db'" using billing_step_move [OF assms(1) valid] by blast+
  have same: "no_open_invoice i db'" if "cores db' = cores db" "invoices db' = invoices db"
    using assms(3) that by (simp add: no_open_invoice_def)
  have status: "\<exists>l \<in> set (cores db). k_id l = k_id k \<and> k_invoice l = k_invoice k"
    if "k \<in> set (sql_update c (\<lambda>k. k\<lparr>k_status := st\<rparr>) (cores db))" for k c st
    using that by (auto simp: in_set_sql_update intro: bexI)
  from move show ?thesis
  proof cases
    case (mv_activate env payment invoiceId intent)
    then have "invoices db' = sql_update (\<lambda>i. inv_id i = invoiceId)
        (\<lambda>i. i\<lparr>inv_status := I_paid, inv_paid_at := Some (env_now env)\<rparr>) (invoices db)"
      and ks: "cores db' = set_status (pay_id payment) P_paid (cores db)" by (simp_all add: activation_def)
    from this(1) show ?thesis
      by (rule updated_not_open [OF assms(3)]) (simp_all add: ks set_status_def status)
  next
    case (mv_close j st invoiceId)
    then have "invoices db' = sql_update (\<lambda>q. invoiceId = Some (inv_id q) \<and> inv_status q = I_open)
        (\<lambda>q. q\<lparr>inv_status := I_void\<rparr>) (invoices db)"
      and ks: "cores db' = sql_update (\<lambda>k. k_id k = j \<and> k_status k = P_pending) (\<lambda>k. k\<lparr>k_status := st\<rparr>) (cores db)"
      by (simp_all add: closing_def)
    from this(1) show ?thesis by (rule updated_not_open [OF assms(3)]) (simp_all add: ks status)
  next
    case (mv_void invoiceId)
    then have "invoices db' = sql_update (\<lambda>q. invoiceId = Some (inv_id q) \<and> inv_status q = I_open)
        (\<lambda>q. q\<lparr>inv_status := I_void\<rparr>) (invoices db)" and ks: "cores db' = cores db"
      by (simp_all add: voiding_def)
    from this(1) show ?thesis by (rule updated_not_open [OF assms(3)]) (auto simp: ks)
  next
    case (mv_refund env payment rows)
    then have "invoices db' = sql_update (\<lambda>i. pay_invoice payment = Some (inv_id i) \<and> inv_status i = I_paid)
        (\<lambda>i. i\<lparr>inv_status := I_refunded, inv_refunded_at := Some (env_now env)\<rparr>) (invoices db)"
      and ks: "cores db' = set_status (pay_id payment) P_refunded (cores db)" by (simp_all add: refunding_def)
    from this(1) show ?thesis
      by (rule updated_not_open [OF assms(3)]) (simp_all add: ks set_status_def status)
  next
    case mv_open
    then obtain env inp row charge key number where
      ks: "cores db' = cores db @ [core (new_payment env inp row charge key)]"
      and invs: "invoices db' = invoices db @ [new_invoice env inp charge number]"
      unfolding checkout_move_def by blast
    show ?thesis
      unfolding no_open_invoice_def
    proof (intro ballI impI)
      fix k q
      assume k: "k \<in> set (cores db')" "k_id k = i" and q: "q \<in> set (invoices db')" "k_invoice k = Some (inv_id q)"
      have "l0 \<in> set (cores db')" using assms(4) by (simp add: ks)
      then have eq: "k = l0" using same_id_same_core [OF valid' k(1)] k(2) assms(5) by simp
      moreover have "invoiced (invoices db) l0" using assms(2,4) by (simp add: billing_inv_def list_all_iff)
      ultimately have "\<exists>r \<in> set (invoices db). inv_id r = inv_id q" using eq q(2) unfolding invoiced_def by auto
      then have "q \<in> set (invoices db)"
        using valid' q(1) by (auto simp: db_valid_iff invoices_error_None invs) (metis imageI)
      with assms(3,4,5) q(2) eq show "inv_status q \<noteq> I_open" by (simp add: no_open_invoice_def)
    qed
  qed (use same in \<open>auto simp: same_core_def ending_def\<close>)
qed

end
