(* ===== verification/BillingRoutes.thy ===== *)
theory BillingRoutes
  imports BillingSystem Access
begin

text \<open>
  \<open>apps/api/src/routes/billing.ts\<close> with the role guard of \<open>services/teams.ts\<close>: which routes are
  registered, the start of a checkout (team role, draft, gateway call, saving the authority), the return
  from the gateway, the verification by the owner and the pages of a manual transfer. Body schemas and the
  HTML of the mock page are left out.
\<close>

subsection \<open>Team roles\<close>

record TeamRow =
  tm_id :: string
  tm_deleted :: bool

record TeamTables =
  tt_teams :: "TeamRow list"
  tt_members :: "(string \<times> string \<times> TeamRole) list"

fun TEAM_RANK :: "TeamRole \<Rightarrow> nat" where
  "TEAM_RANK team_owner = 3"
| "TEAM_RANK team_admin = 2"
| "TEAM_RANK team_member = 1"
| "TEAM_RANK team_guest = 0"

definition getTeamRole :: "TeamTables \<Rightarrow> string \<Rightarrow> string \<Rightarrow> TeamRole option" where
  "getTeamRole t teamId userId =
     (if \<exists>r \<in> set (tt_teams t). tm_id r = teamId \<and> \<not> tm_deleted r
      then lookup2 (tt_members t) teamId userId else None)"

definition requireTeamRole :: "TeamTables \<Rightarrow> string \<Rightarrow> string \<Rightarrow> TeamRole \<Rightarrow> BillingError + TeamRole" where
  "requireTeamRole t teamId userId minRole =
     (case getTeamRole t teamId userId of
        None \<Rightarrow> Inl (HttpError 404 ''TEAM_NOT_FOUND'')
      | Some role \<Rightarrow> if TEAM_RANK role < TEAM_RANK minRole then Inl (HttpError 403 ''FORBIDDEN'') else Inr role)"

subsection \<open>The registered routes\<close>

definition ZARINPAL_CALLBACK_PATH :: string where "ZARINPAL_CALLBACK_PATH = ''/billing/zarinpal/callback''"
definition TRANSFER_API_PATH :: string where "TRANSFER_API_PATH = ''/billing/transfer''"
definition TRANSFER_PAGE_PATH :: string where "TRANSFER_PAGE_PATH = ''/payment/transfer''"

text \<open>\<open>s.slice(0, s.indexOf("/", 1))\<close> of a path with two segments.\<close>

definition first_segment :: "string \<Rightarrow> string" where
  "first_segment s = (case s of [] \<Rightarrow> [] | c # r \<Rightarrow> c # takeWhile (\<lambda>d. d \<noteq> CHR ''/'') r)"

definition starts_with :: "string \<Rightarrow> string \<Rightarrow> bool" where
  "starts_with s p \<longleftrightarrow> take (length p) s = p"

datatype BootError = WrongCallbackPath string | TransferPageUnderApi

definition registerBillingRoutes :: "string \<Rightarrow> string \<Rightarrow> BootError + (string \<times> string) list" where
  "registerBillingRoutes callbackPathname appEnv =
     (let callbackPath = strip_slashes callbackPathname in
      if callbackPath \<noteq> ZARINPAL_CALLBACK_PATH then Inl (WrongCallbackPath callbackPath)
      else if starts_with TRANSFER_PAGE_PATH (first_segment TRANSFER_API_PATH) then Inl TransferPageUnderApi
      else Inr ([(''GET'', ''/billing/plans''), (''POST'', ''/teams/:teamId/billing/checkout''),
                 (''GET'', ZARINPAL_CALLBACK_PATH), (''POST'', ''/billing/payments/:paymentId/verify''),
                 (''GET'', ''/teams/:teamId/billing/subscription''),
                 (''GET'', ''/teams/:teamId/billing/invoices''), (''POST'', ''/teams/:teamId/billing/cancel'')] @
                (if appEnv \<noteq> ''production''
                 then [(''GET'', TRANSFER_API_PATH @ ''/:authority''),
                       (''POST'', TRANSFER_API_PATH @ ''/:authority/claim''),
                       (''GET'', ''/billing/mock/pay/:authority'')]
                 else [])))"

subsection \<open>Starting a checkout\<close>

definition idempotencyKeyFor :: "string \<Rightarrow> string option \<Rightarrow> string \<Rightarrow> string" where
  "idempotencyKeyFor teamId header fresh =
     (let raw = (case header of Some h \<Rightarrow> if h \<noteq> [] then h else fresh | None \<Rightarrow> fresh)
      in take 80 (teamId @ '':'' @ raw))"

definition gateway_unavailable :: BillingError where
  "gateway_unavailable = HttpError 502 ''GATEWAY_UNAVAILABLE''"

definition void_and_fail :: "string \<Rightarrow> string \<Rightarrow> BillingDb \<Rightarrow> (BillingError + 'r) \<times> BillingDb" where
  "void_and_fail paymentId code db =
     (case voidFailedCheckout paymentId code db of
        (Inl e, db') \<Rightarrow> (Inl e, db')
      | (Inr _, db') \<Rightarrow> (Inl gateway_unavailable, db'))"

text \<open>\<open>create\<close> is what the gateway answers to \<open>createPayment\<close>; the reply is the payment and the redirect.\<close>

definition checkout_route ::
  "(Instant \<Rightarrow> nat option) \<Rightarrow> Env \<Rightarrow> Env \<Rightarrow> TeamTables \<Rightarrow> CheckoutInput \<Rightarrow> string option \<Rightarrow> string \<Rightarrow>
     (rial \<Rightarrow> CreateError + CreatePaymentResult) \<Rightarrow> BillingDb \<Rightarrow> (BillingError + string \<times> string) \<times> BillingDb" where
  "checkout_route intl env env' teams inp header fresh create db =
     (case requireTeamRole teams (co_teamId inp) (co_userId inp) team_owner of
        Inl e \<Rightarrow> (Inl e, db)
      | Inr _ \<Rightarrow>
          (case createCheckoutIdempotent intl env env' inp (idempotencyKeyFor (co_teamId inp) header fresh) db db of
             (Inl e, db1) \<Rightarrow> (Inl e, db1)
           | (Inr draft, db1) \<Rightarrow>
               (case create (dr_amountRial draft) of
                  Inl e \<Rightarrow> void_and_fail (dr_paymentId draft) ''GATEWAY'' db1
                | Inr created \<Rightarrow>
                    (case saveAuthority (dr_paymentId draft) (cr_authority created) db1 of
                       Inl e \<Rightarrow> void_and_fail (dr_paymentId draft) ''AUTHORITY'' db1
                     | Inr db2 \<Rightarrow> (Inr (dr_paymentId draft, redirectUrl created), db2)))))"

subsection \<open>Coming back\<close>

text \<open>The status the customer sees on the result page.\<close>

definition callback_route :: "Env \<Rightarrow> Gateway \<Rightarrow> string \<Rightarrow> string \<Rightarrow> BillingDb \<Rightarrow> (BillingError + string) \<times> BillingDb" where
  "callback_route env gateway authority status db =
     (case settlePayment env gateway (ByAuthority authority)
             (no_hooks\<lparr>callbackPayload :=
                Some (JObj [(''Authority'', JStr authority), (''Status'', JStr status)])\<rparr>) db of
        (Inl e, db') \<Rightarrow>
          (if e = HttpError 404 ''PAYMENT_NOT_FOUND'' then (Inr ''failed'', db') else (Inl e, db'))
      | (Inr outcome, db') \<Rightarrow>
          (Inr (case outcome of Activated _ _ _ \<Rightarrow> ''ok''
                | AlreadySettled _ _ st \<Rightarrow> if st = P_paid then ''ok'' else ''failed''
                | _ \<Rightarrow> ''failed''), db'))"

definition verify_route ::
  "Env \<Rightarrow> Gateway \<Rightarrow> TeamTables \<Rightarrow> string \<Rightarrow> string \<Rightarrow> BillingDb \<Rightarrow> (BillingError + string option) \<times> BillingDb" where
  "verify_route env gateway teams sub paymentId db =
     (case payment_by_id db paymentId of
        None \<Rightarrow> (Inl (HttpError 404 ''PAYMENT_NOT_FOUND''), db)
      | Some p \<Rightarrow>
     (case requireTeamRole teams (pay_team p) sub team_owner of
        Inl e \<Rightarrow> (Inl e, db)
      | Inr _ \<Rightarrow>
     (case settlePayment env gateway (ById paymentId) no_hooks db of
        (Inl e, db') \<Rightarrow> (Inl e, db')
      | (Inr outcome, db') \<Rightarrow>
          ((case outcome of
              StillNotPaid _ \<Rightarrow> Inl (HttpError 409 ''PAYMENT_FAILED'')
            | SettleUnknown \<Rightarrow> Inl gateway_unavailable
            | AlreadySettled s _ st \<Rightarrow> if st \<noteq> P_paid then Inl invalid_transition else Inr s
            | Activated s _ _ \<Rightarrow> Inr (Some s)), db'))))"

definition cancel_route ::
  "Env \<Rightarrow> TeamTables \<Rightarrow> string \<Rightarrow> string \<Rightarrow> BillingDb \<Rightarrow> BillingError + BillingDb" where
  "cancel_route env teams sub teamId db =
     and_then (requireTeamRole teams teamId sub team_owner) (\<lambda>_. cancelAtPeriodEnd env teamId db)"

subsection \<open>The manual transfer\<close>

datatype TransferState = ts_approved | ts_expired | ts_claimed | ts_awaiting

definition transferRow :: "CardTransferSettings option \<Rightarrow> string \<Rightarrow> BillingDb \<Rightarrow> BillingError + Payment" where
  "transferRow settings authority db =
     (case settings of None \<Rightarrow> Inl invalid_transition
      | Some _ \<Rightarrow>
     (case find (\<lambda>p. pay_gateway p = CARD_TRANSFER_NAME \<and> pay_authority p = Some authority) (payments db) of
        None \<Rightarrow> Inl (HttpError 404 ''PAYMENT_NOT_FOUND'')
      | Some p \<Rightarrow> Inr p))"

definition instructionsOf :: "Payment \<Rightarrow> CardTransferSettings \<Rightarrow> Instant \<Rightarrow> TransferState" where
  "instructionsOf row settings now =
     (let deadline = getTime (pay_requested_at row) + cts_claimWindowMs settings in
      if pay_status row = P_paid \<or> tr_approved_at (pay_transfer row) \<noteq> None then ts_approved
      else if pay_status row \<noteq> P_pending then ts_expired
      else if tr_claimed_at (pay_transfer row) \<noteq> None then ts_claimed
      else if getTime now \<ge> deadline then ts_expired
      else ts_awaiting)"

definition claim_route ::
  "Env \<Rightarrow> CardTransferSettings option \<Rightarrow> TeamTables \<Rightarrow> string \<Rightarrow> string \<Rightarrow> string \<Rightarrow> string option \<Rightarrow> BillingDb \<Rightarrow>
     (BillingError + TransferState) \<times> BillingDb" where
  "claim_route env settings teams sub authority ref last4 db =
     (case and_then (transferRow settings authority db)
             (\<lambda>row. and_then (requireTeamRole teams (pay_team row) sub team_owner) (\<lambda>_. Inr row)) of
        Inl e \<Rightarrow> (Inl e, db)
      | Inr row \<Rightarrow>
          (case withTransaction (claimTransfer env (pay_id row) ref last4) db of
             (Inl e, db') \<Rightarrow> (Inl e, db')
           | (Inr _, db') \<Rightarrow>
               (and_then (transferRow settings authority db')
                  (\<lambda>row'. Inr (instructionsOf row' (the settings) (env_date env))), db')))"

end
