(* ===== verification/BillingSamples.thy ===== *)
theory BillingSamples
  imports BillingRoutes
begin

text \<open>
  A small concrete history of the billing tables, evaluated by the kernel: a checkout with a coupon that
  may be redeemed once, a second team that checks out with the same coupon, a settlement, a renewal, a
  checkout whose gateway call failed. The witnesses of the billing properties are taken from it.
\<close>

subsection \<open>Inputs\<close>

definition sample_now :: Instant where
  "sample_now = \<lparr> getUTCFullYear = 2026, getUTCMonth = 0, getUTCDate = 10, getUTCHours = 12, getUTCMinutes = 0,
     getUTCSeconds = 0, getUTCMilliseconds = 0 \<rparr>"

definition sample_env :: "nat \<Rightarrow> Env" where
  "sample_env n = \<lparr> env_now = sample_now, env_date = sample_now, env_uuid1 = ''u'' @ show_nat n,
     env_uuid2 = ''v'' @ show_nat n \<rparr>"

definition paying_gateway :: Gateway where
  "paying_gateway = \<lparr> gw_name = ''mock'', gw_mode = ''sandbox'',
     gw_verify = (\<lambda>db a n. Paid False ''R1'' None None None), gw_refund = None \<rparr>"

definition refusing_gateway :: Gateway where
  "refusing_gateway = paying_gateway\<lparr>gw_verify := (\<lambda>db a n. NotPaid (Some (- 51)))\<rparr>"

definition sample_plan :: PlanRow where
  "sample_plan = \<lparr> pl_plan = \<lparr> plan_code = ''pro'', plan_name = ''Pro'', priceMonthlyRial = 1990000,
       priceYearlyRial = 19900000 \<rparr>, pl_max_members = 10, pl_max_boards = - 1, pl_max_storage_bytes = 100,
     pl_is_active = True \<rparr>"

definition sample_coupon :: Coupon where
  "sample_coupon = \<lparr> cp_code = ''C'', cp_percent_off = Some 50, cp_amount_off = None, cp_max_redemptions = Some 1,
     cp_redeemed_count = 0, cp_valid_from = None, cp_valid_until = None, cp_plan_codes = [] \<rparr>"

definition sample_db :: BillingDb where
  "sample_db = \<lparr> payments = [], invoices = [], subscriptions = [], coupons = [sample_coupon], redemptions = [],
     sequences = [], plans = [sample_plan], audit_logs = [] \<rparr>"

definition sample_checkout :: "string \<Rightarrow> string option \<Rightarrow> CheckoutInput" where
  "sample_checkout team coupon = \<lparr> co_teamId = team, co_userId = ''o'', co_planCode = ''pro'', co_period = Monthly,
     co_seats = 1, co_couponCode = coupon, co_vatPercent = 10, co_gatewayName = ''mock'',
     co_gatewayMode = ''sandbox'', co_snapshot = None \<rparr>"

definition sample_teams :: TeamTables where
  "sample_teams = \<lparr> tt_teams = [\<lparr> tm_id = ''t1'', tm_deleted = False \<rparr>, \<lparr> tm_id = ''t2'', tm_deleted = False \<rparr>],
     tt_members = [(''t1'', ''o'', team_owner), (''t2'', ''o'', team_owner)] \<rparr>"

text \<open>The database of a result; each use below proves that the result is no error.\<close>

definition db_after :: "BillingError + 'r \<times> BillingDb \<Rightarrow> BillingDb" where
  "db_after r = (case r of Inr (x, db) \<Rightarrow> db | Inl _ \<Rightarrow> sample_db)"

definition db_only :: "BillingError + BillingDb \<Rightarrow> BillingDb" where
  "db_only r = (case r of Inr db \<Rightarrow> db | Inl _ \<Rightarrow> sample_db)"

definition pay_tx :: "nat \<Rightarrow> string \<Rightarrow> BillingDb \<Rightarrow> BillingError + SettleOutcome \<times> BillingDb" where
  "pay_tx n i = settle_tx (sample_env n) paying_gateway (ById i) no_hooks"

subsection \<open>States\<close>

text \<open>One payment of one seat, with its invoice and the subscription it activated.\<close>

definition sample_payment :: "nat \<Rightarrow> string \<Rightarrow> PaymentStatus \<Rightarrow> string option \<Rightarrow> string option \<Rightarrow> rial \<Rightarrow> Payment" where
  "sample_payment n team status authority coupon amount =
     \<lparr> pay_id = ''v'' @ show_nat n, pay_team = team, pay_initiated_by = ''o'',
       pay_invoice = Some (''u'' @ show_nat n), pay_amount = amount, pay_status = status,
       pay_authority = authority,
       pay_request = intent_json \<lparr> in_planCode = ''pro'', in_period = Monthly, in_seats = 1,
         in_unitPriceRial = 1990000, in_couponCode = coupon \<rparr> None,
       pay_gateway = ''mock'', pay_mode = ''sandbox'', pay_idem = team @ '':k'' @ show_nat n,
       pay_requested_at = sample_now, pay_failure_code = None,
       pay_ref_id = (if status = P_paid then Some ''R1'' else None), pay_card_pan = None,
       pay_card_hash = None, pay_fee = None,
       pay_paid_at = (if status = P_paid then Some sample_now else None),
       pay_verified_at = (if status = P_paid then Some sample_now else None),
       pay_verify_payload = None, pay_callback_payload = None, pay_refunded_at = None,
       pay_refund_ref = None, pay_refund_amount = None, pay_transfer = no_transfer \<rparr>"

definition sample_invoice :: "nat \<Rightarrow> string \<Rightarrow> InvoiceStatus \<Rightarrow> string option \<Rightarrow> rial \<Rightarrow> rial \<Rightarrow> Invoice" where
  "sample_invoice n team status coupon discount vat =
     \<lparr> inv_id = ''u'' @ show_nat n, inv_team = team, inv_number = ''HB-1404-00000'' @ show_nat n,
       inv_subtotal = 1990000, inv_discount = discount, inv_vat = vat,
       inv_total = 1990000 - discount + vat, inv_status = status,
       inv_line_items = [\<lparr> li_name = ''Pro'', li_period = Monthly, li_qty = 1, li_unitPriceRial = 1990000,
         li_totalRial = 1990000 \<rparr>],
       inv_coupon = coupon, inv_vat_percent = 10, inv_issued_at = sample_now,
       inv_paid_at = (if status = I_paid then Some sample_now else None), inv_refunded_at = None \<rparr>"

definition sample_subscription :: Subscription where
  "sample_subscription =
     \<lparr> sub_id = ''s1'', sub_team = ''t1'', sub_plan = ''pro'', sub_status = S_active, sub_period = Monthly,
       sub_seats = 1, sub_start = sample_now, sub_end = sample_now\<lparr>getUTCMonth := 1\<rparr>,
       sub_cancel_at_end = False, sub_canceled_at = None, sub_payment = Some ''v1'',
       sub_unit_price = Some 1990000 \<rparr>"

text \<open>The first team waits for its payment with a coupon that may be redeemed once.\<close>

definition sample_open :: BillingDb where
  "sample_open = sample_db
     \<lparr>payments := [sample_payment 1 ''t1'' P_pending None (Some ''C'') 1094500],
      invoices := [sample_invoice 1 ''t1'' I_open (Some ''C'') 995000 99500], sequences := [(1404, 1)]\<rparr>"

definition sample_waiting :: BillingDb where
  "sample_waiting = sample_open
     \<lparr>payments := [sample_payment 1 ''t1'' P_pending (Some ''A1'') (Some ''C'') 1094500]\<rparr>"

text \<open>Its gateway call failed.\<close>

definition sample_failed :: BillingDb where
  "sample_failed = sample_open
     \<lparr>payments := [sample_payment 1 ''t1'' P_failed None (Some ''C'') 1094500],
      invoices := [sample_invoice 1 ''t1'' I_void (Some ''C'') 995000 99500]\<rparr>"

text \<open>It paid, the coupon is used up, and a second team that opened its checkout in between waits.\<close>

definition sample_raced :: BillingDb where
  "sample_raced = sample_open
     \<lparr>payments := [sample_payment 1 ''t1'' P_paid (Some ''A1'') (Some ''C'') 1094500,
                   sample_payment 2 ''t2'' P_pending (Some ''A2'') (Some ''C'') 1094500],
      invoices := [sample_invoice 1 ''t1'' I_paid (Some ''C'') 995000 99500,
                   sample_invoice 2 ''t2'' I_open (Some ''C'') 995000 99500],
      subscriptions := [sample_subscription],
      coupons := [sample_coupon\<lparr>cp_redeemed_count := 1\<rparr>],
      redemptions := [\<lparr> rd_coupon = ''C'', rd_team = ''t1'', rd_invoice = ''u1'' \<rparr>],
      sequences := [(1404, 2)]\<rparr>"

text \<open>It renews before its period ends, without a coupon.\<close>

definition sample_renewing :: BillingDb where
  "sample_renewing = sample_raced
     \<lparr>payments := [sample_payment 1 ''t1'' P_paid (Some ''A1'') (Some ''C'') 1094500,
                   sample_payment 2 ''t1'' P_pending (Some ''A2'') None 2189000],
      invoices := [sample_invoice 1 ''t1'' I_paid (Some ''C'') 995000 99500,
                   sample_invoice 2 ''t1'' I_open None 0 199000]\<rparr>"

definition sample_paid :: BillingDb where
  "sample_paid = db_after (pay_tx 7 ''v1'' sample_waiting)"

definition sample_renewed :: BillingDb where
  "sample_renewed = db_after (pay_tx 7 ''v2'' sample_renewing)"

lemma sample_inv:
  "billing_inv sample_waiting" "billing_inv sample_failed" "billing_inv sample_raced" "billing_inv sample_renewing"
  by code_simp+

lemma billing_inv_sample_db: "billing_inv sample_db"
  by code_simp

lemma wf_env_sample: "wf_env (sample_env n)"
  by (simp add: wf_env_def sample_env_def sample_now_def wf_instant_def days_in_month_def)

lemma sample_digits:
  "show_nat 1 = ''1''" "show_nat (Suc 0) = ''1''" "show_nat 2 = ''2''" "show_nat 7 = ''7''" "show_nat 8 = ''8''"
  by code_simp+

text \<open>A transaction that returned is a step.\<close>

lemma db_after_Inr: "isl r = False \<Longrightarrow> \<exists>x. r = Inr (x, db_after r)"
  by (cases r) (auto simp: db_after_def)

lemma db_only_Inr: "isl r = False \<Longrightarrow> r = Inr (db_only r)"
  by (cases r) (auto simp: db_only_def)

lemma audit_hook_no_hooks: "audit_hook no_hooks"
  unfolding audit_hook_def
proof (intro allI impI)
  fix o' db db'
  assume "onSettled no_hooks o' db = Inr db'"
  then have "db' = db\<lparr>audit_logs := audit_logs db\<rparr>" by (simp add: no_hooks_def)
  then show "\<exists>a. db' = db\<lparr>audit_logs := a\<rparr>" by blast
qed

lemma pay_step: "isl (pay_tx n i db) = False \<Longrightarrow> billing_step db (db_after (pay_tx n i db))"
  using db_after_Inr [of "pay_tx n i db"] wf_env_sample [of n] audit_hook_no_hooks
  by (auto simp: pay_tx_def intro: st_settle)

lemma sample_runs:
  "isl (pay_tx 7 ''v1'' sample_waiting) = False"
  "isl (pay_tx 7 ''v2'' sample_renewing) = False"
  by code_simp+

lemma step_paid: "billing_step sample_waiting sample_paid"
  using pay_step [OF sample_runs(1)] unfolding sample_paid_def .

lemma step_renewed: "billing_step sample_renewing sample_renewed"
  using pay_step [OF sample_runs(2)] unfolding sample_renewed_def .

text \<open>The purchase a payment froze.\<close>

definition sample_intent :: "string option \<Rightarrow> PurchaseIntent" where
  "sample_intent coupon = \<lparr> in_planCode = ''pro'', in_period = Monthly, in_seats = 1, in_unitPriceRial = 1990000,
     in_couponCode = coupon \<rparr>"

lemma readIntent_sample: "readIntent (pay_request (sample_payment n team st a None amount)) = Inr (sample_intent None)"
  "readIntent (pay_request (sample_payment n team st a (Some c) amount)) = Inr (sample_intent (Some c))"
  by (simp_all add: sample_payment_def sample_intent_def readIntent_def intent_json_def period_name_def read_period_def
      read_safe_integer_def json_of_option_def is_safe_integer_def max_safe_integer_def)

end
