(* ===== verification/BillingProperties.thy ===== *)
theory BillingProperties
  imports BillingSamples
begin

text \<open>
  The properties of the billing services: what holds over every history, that a payment the gateway
  confirms always activates, what a refund of a renewal gives back, and the situations in which the code
  takes money without giving service.
\<close>

subsection \<open>A confirmed payment activates\<close>

lemma set_invoice_paid:
  assumes "db_valid db" "\<And>i. i \<in> set (invoices db) \<Longrightarrow> inv_id i = iid \<Longrightarrow> inv_status i = I_open \<or> inv_status i = I_void"
  shows "set_invoice (\<lambda>i. inv_id i = iid) (\<lambda>i. i\<lparr>inv_status := I_paid, inv_paid_at := Some t\<rparr>) db =
    Inr (db\<lparr>invoices := sql_update (\<lambda>i. inv_id i = iid)
       (\<lambda>i. i\<lparr>inv_status := I_paid, inv_paid_at := Some t\<rparr>) (invoices db)\<rparr>)"
proof -
  have "list_all invoice_ck (sql_update (\<lambda>i. inv_id i = iid)
       (\<lambda>i. i\<lparr>inv_status := I_paid, inv_paid_at := Some t\<rparr>) (invoices db))"
  proof (rule list_all_sql_update)
    show "list_all invoice_ck (invoices db)" using assms(1) by (simp add: db_valid_iff invoices_error_None)
    show "invoice_ck (i\<lparr>inv_status := I_paid, inv_paid_at := Some t\<rparr>)"
      if "i \<in> set (invoices db)" "inv_id i = iid" "invoice_ck i" for i
      using assms(2) [OF that(1,2)] that(3) by (auto simp: invoice_ck_def)
  qed
  then show ?thesis
    using assms(1) unfolding set_invoice_def
    by (intro exec_valid) (simp add: db_valid_iff invoices_error_None map_sql_update)
qed

definition coupon_room :: "string option \<Rightarrow> string \<Rightarrow> BillingDb \<Rightarrow> bool" where
  "coupon_room code teamId db \<longleftrightarrow>
     (\<forall>c \<in> set (coupons db). code = Some (cp_code c) \<and> \<not> redeemed (cp_code c) teamId (redemptions db) \<longrightarrow>
        (case cp_max_redemptions c of None \<Rightarrow> True | Some n \<Rightarrow> cp_redeemed_count c < n))"

lemma redeemCoupon_succeeds:
  assumes "db_valid db" "coupon_room (Some code) teamId db"
  shows "\<exists>db'. redeemCoupon code teamId iid db = Inr db' \<and> db_valid db'"
proof (cases "redeemed code teamId (redemptions db)")
  case True
  then show ?thesis using assms(1) by (simp add: redeemCoupon_def redeemed_def)
next
  case False
  define db1 where "db1 = db\<lparr>redemptions := redemptions db @
      [\<lparr> rd_coupon = code, rd_team = teamId, rd_invoice = iid \<rparr>]\<rparr>"
  have v1: "db_valid db1"
    using assms(1) False by (auto simp: db1_def db_valid_iff redemptions_error_def redeemed_def split: if_splits)
  define db2 where "db2 = db1\<lparr>coupons := sql_update (\<lambda>c. cp_code c = code)
      (\<lambda>c. c\<lparr>cp_redeemed_count := cp_redeemed_count c + 1\<rparr>) (coupons db1)\<rparr>"
  have "list_all coupon_ck (sql_update (\<lambda>c. cp_code c = code)
      (\<lambda>c. c\<lparr>cp_redeemed_count := cp_redeemed_count c + 1\<rparr>) (coupons db))"
    by (rule list_all_sql_update)
      (use assms False in \<open>auto simp: db_valid_iff coupons_error_None coupon_ck_def coupon_room_def split: option.splits\<close>)
  then have v2: "db_valid db2"
    using v1 by (simp add: db2_def db1_def db_valid_iff coupons_error_None map_sql_update)
  have "redeemCoupon code teamId iid db = Inr db2"
    using False v1 v2 unfolding redeemCoupon_def redeemed_def db1_def [symmetric]
    by (simp only: if_False exec_valid and_then.simps db2_def)
  then show ?thesis using v2 by blast
qed

lemma live_teams_expire:
  assumes "distinct (map sub_team (filter is_live t))" "distinct (map sub_id t)"
  shows "filter (\<lambda>s. sub_team s = teamId \<and> is_live s) (expire_live teamId t) = []"
    "filter is_live (expire_live teamId t) = filter (\<lambda>s. is_live s \<and> sub_team s \<noteq> teamId) t"
proof -
  have "filter is_live (expire_live teamId t) = filter (\<lambda>s. is_live s \<and> sub_team s \<noteq> teamId) t"
  proof (cases "find (\<lambda>s. sub_team s = teamId \<and> is_live s) t")
    case None
    then have "expire_live teamId t = t" "\<forall>s \<in> set t. \<not> (sub_team s = teamId \<and> is_live s)"
      by (simp_all add: expire_live_def) (auto simp: find_None_iff)
    then show ?thesis by (auto intro!: filter_cong)
  next
    case (Some s)
    then have s: "s \<in> set t" "sub_team s = teamId" "is_live s" using find_Some_in_set by fast+
    have "sub_id q = sub_id s \<longleftrightarrow> q = s" if "q \<in> set t" for q
      using that s(1) assms(2) by (auto simp: distinct_map dest: inj_onD)
    moreover have "is_live q \<and> sub_team q = teamId \<longleftrightarrow> q = s" if "q \<in> set t" for q
      using that s find_live_unique [OF assms(1) s(1,3) that] by auto
    ultimately have same: "sub_id q = sub_id s \<longleftrightarrow> is_live q \<and> sub_team q = teamId" if "q \<in> set t" for q
      using that by blast
    have "filter is_live (sql_update (\<lambda>q. sub_id q = sub_id s) (\<lambda>q. q\<lparr>sub_status := S_expired\<rparr>) u) =
        filter (\<lambda>s. is_live s \<and> sub_team s \<noteq> teamId) u" if "set u \<subseteq> set t" for u
      using that same by (induction u) auto
    then show ?thesis using Some by (simp add: expire_live_def)
  qed
  then show "filter is_live (expire_live teamId t) = filter (\<lambda>s. is_live s \<and> sub_team s \<noteq> teamId) t" .
  then have "filter (\<lambda>s. sub_team s = teamId) (filter is_live (expire_live teamId t)) = []"
    by (simp add: filter_empty_conv)
  then show "filter (\<lambda>s. sub_team s = teamId \<and> is_live s) (expire_live teamId t) = []"
    by (simp add: conj_commute)
qed

lemma upsertSubscription_succeeds:
  assumes valid: "db_valid db" and ends: "list_all (\<lambda>s. wf_instant (sub_end s)) (subscriptions db)"
    and "wf_env env" "env_uuid1 env \<notin> sub_id ` set (subscriptions db)"
    "1 \<le> in_seats intent" "0 \<le> in_unitPriceRial intent"
  shows "\<exists>db'. upsertSubscription env teamId pid intent db = Inr (env_uuid1 env, db') \<and> db_valid db'"
proof -
  define t where "t = subscriptions db"
  define new where "new = new_subscription env teamId pid intent (renewal_anchor env teamId (in_planCode intent) t)"
  have v: "list_all subscription_ck t" "distinct (map sub_id t)" "distinct (map sub_team (filter is_live t))"
    using valid by (simp_all add: db_valid_iff subscriptions_error_None t_def)
  obtain c where c: "expire_live teamId t = sql_update c (\<lambda>q. q\<lparr>sub_status := S_expired\<rparr>) t"
    using expire_live_update by blast
  have e_ck: "list_all subscription_ck (expire_live teamId t)"
    unfolding c by (rule list_all_sql_update [OF v(1)]) (simp add: subscription_ck_def)
  have e_ids: "map sub_id (expire_live teamId t) = map sub_id t" unfolding c by (rule map_sql_update) simp
  have e_live: "distinct (map sub_team (filter is_live (expire_live teamId t)))"
  proof -
    have "filter is_live (expire_live teamId t) = filter (\<lambda>s. sub_team s \<noteq> teamId) (filter is_live t)"
      using live_teams_expire(2) [OF v(3,2)] by (simp add: conj_commute)
    then show ?thesis using distinct_map_filter [OF v(3)] by simp
  qed
  have v1: "db_valid (db\<lparr>subscriptions := expire_live teamId t\<rparr>)"
    using valid e_ck e_ids e_live v(2) by (simp add: db_valid_iff subscriptions_error_None)
  have "wf_instant (renewal_anchor env teamId (in_planCode intent) t)"
    using renewal_anchor_wf ends assms(3) by (simp add: t_def wf_env_def)
  then have n_ck: "subscription_ck new"
    using computePeriod_later(1) assms(5,6) by (simp add: new_def new_subscription_def subscription_ck_def)
  have n_live: "is_live new" "sub_team new = teamId" "sub_id new = env_uuid1 env"
    by (simp_all add: new_def new_subscription_def is_live_def LIVE_SUBSCRIPTION_STATUSES_def)
  have "teamId \<notin> sub_team ` set (filter is_live (expire_live teamId t))"
    using live_teams_expire(1) [OF v(3,2)] by (auto simp: filter_empty_conv)
  moreover have "env_uuid1 env \<notin> set (map sub_id (expire_live teamId t))"
    unfolding e_ids using assms(4) by (simp add: t_def)
  ultimately have v2: "db_valid (db\<lparr>subscriptions := expire_live teamId t @ [new]\<rparr>)"
    using v1 n_ck n_live by (auto simp: db_valid_iff subscriptions_error_None)
  have first: "(case find (\<lambda>s. sub_team s = teamId \<and> is_live s) (subscriptions db) of None \<Rightarrow> Inr db
            | Some s \<Rightarrow> set_subscription (\<lambda>q. sub_id q = sub_id s) (\<lambda>q. q\<lparr>sub_status := S_expired\<rparr>) db) =
      Inr (db\<lparr>subscriptions := expire_live teamId t\<rparr>)"
    using v1 by (auto simp: expire_live_def t_def set_subscription_def exec_valid split: option.splits)
  have "upsertSubscription env teamId pid intent db =
      Inr (env_uuid1 env, db\<lparr>subscriptions := expire_live teamId t @ [new]\<rparr>)"
    unfolding upsertSubscription_def Let_def first and_then.simps
    using v2 n_live(3)
    by (auto simp: exec_valid new_def new_subscription_def renewal_anchor_def t_def computePeriod_def
        split: option.splits)
  then show ?thesis using v2 by blast
qed

lemma set_payment_paid:
  assumes "db_valid db" "\<And>q. q \<in> set (payments db) \<Longrightarrow> pay_id q = i \<Longrightarrow> pay_status q = P_pending"
  shows "\<exists>db'. set_payment i (\<lambda>q. q\<lparr>pay_status := P_paid, pay_ref_id := r, pay_card_pan := pan, pay_card_hash := h,
       pay_fee := fee, pay_paid_at := Some t, pay_verified_at := v, pay_failure_code := c,
       pay_verify_payload := w\<rparr>) db = Inr db'"
proof -
  have "payments_error (sql_update (\<lambda>q. pay_id q = i) (\<lambda>q. q\<lparr>pay_status := P_paid, pay_ref_id := r,
       pay_card_pan := pan, pay_card_hash := h, pay_fee := fee, pay_paid_at := Some t, pay_verified_at := v,
       pay_failure_code := c, pay_verify_payload := w\<rparr>) (payments db)) = None"
  proof (rule payments_error_update)
    show "payments_error (payments db) = None" using assms(1) by (simp add: db_valid_iff)
    show "payment_ck (q\<lparr>pay_status := P_paid, pay_ref_id := r, pay_card_pan := pan, pay_card_hash := h,
       pay_fee := fee, pay_paid_at := Some t, pay_verified_at := v, pay_failure_code := c,
       pay_verify_payload := w\<rparr>)" if "q \<in> set (payments db)" "pay_id q = i" "payment_ck q" for q
      using assms(2) [OF that(1,2)] that(3) by (auto simp: payment_ck_def refund_ck_def transfer_ck_def)
  qed simp_all
  then have "db_valid (db\<lparr>payments := sql_update (\<lambda>q. pay_id q = i) (\<lambda>q. q\<lparr>pay_status := P_paid, pay_ref_id := r,
       pay_card_pan := pan, pay_card_hash := h, pay_fee := fee, pay_paid_at := Some t, pay_verified_at := v,
       pay_failure_code := c, pay_verify_payload := w\<rparr>) (payments db)\<rparr>)"
    using assms(1) by (simp add: db_valid_iff)
  then show ?thesis unfolding set_payment_def using exec_valid by blast
qed

lemma readIntent_seats: "readIntent raw = Inr intent \<Longrightarrow> 1 \<le> in_seats intent \<and> in_planCode intent \<noteq> []"
  by (auto simp: readIntent_def split: option.splits if_splits)

lemma payment_of_inv:
  assumes "billing_inv db" "p \<in> set (payments db)"
  shows "\<exists>q \<in> set (invoices db). pay_invoice p = Some (inv_id q) \<and> inv_team q = pay_team p \<and>
    inv_total q = pay_amount p \<and> invoice_follows (pay_status p) (inv_status q)"
  using assms in_cores [OF assms(2)] by (force simp: billing_inv_def list_all_iff invoiced_def)

lemma activateFromPayment_succeeds:
  assumes inv: "billing_inv db" and p: "p \<in> set (payments db)" "pay_status p = P_pending"
    and i: "readIntent (pay_request p) = Inr intent" "0 \<le> in_unitPriceRial intent"
    and env: "wf_env env" "env_uuid1 env \<notin> sub_id ` set (subscriptions db)"
    and room: "coupon_room (in_couponCode intent) (pay_team p) db"
  shows "\<exists>iid db'. activateFromPayment env p db = Inr ((env_uuid1 env, iid), db') \<and> db_valid db' \<and> payments db' = payments db"
proof -
  have valid: "db_valid db" using inv by (simp add: billing_inv_def)
  from payment_of_inv [OF inv p(1)] obtain q where
    q: "q \<in> set (invoices db)" "pay_invoice p = Some (inv_id q)" "inv_status q = I_open \<or> inv_status q = I_void"
    using p(2) by (auto simp: invoice_follows_simps)
  define db1 where "db1 = db\<lparr>invoices := sql_update (\<lambda>i. inv_id i = inv_id q)
       (\<lambda>i. i\<lparr>inv_status := I_paid, inv_paid_at := Some (env_now env)\<rparr>) (invoices db)\<rparr>"
  have "inv_status i = I_open \<or> inv_status i = I_void" if "i \<in> set (invoices db)" "inv_id i = inv_id q" for i
  proof -
    have "distinct (map inv_id (invoices db))" using valid by (simp add: db_valid_iff invoices_error_None)
    then have "i = q" using that q(1) by (auto simp: distinct_map dest: inj_onD)
    then show ?thesis using q(3) by simp
  qed
  then have s1: "set_invoice (\<lambda>i. inv_id i = inv_id q)
      (\<lambda>i. i\<lparr>inv_status := I_paid, inv_paid_at := Some (env_now env)\<rparr>) db = Inr db1"
    unfolding db1_def by (rule set_invoice_paid [OF valid])
  then have v1: "db_valid db1" by (auto simp: set_invoice_def exec_Inr_iff db1_def)
  have "\<exists>db2. (case in_couponCode intent of None \<Rightarrow> Inr db1
      | Some code \<Rightarrow> redeemCoupon code (pay_team p) (inv_id q) db1) = Inr db2 \<and> db_valid db2"
  proof (cases "in_couponCode intent")
    case None
    then show ?thesis using v1 by simp
  next
    case (Some code)
    have "coupon_room (Some code) (pay_team p) db1" using room Some by (simp add: coupon_room_def db1_def)
    then show ?thesis using redeemCoupon_succeeds [OF v1] Some by simp
  qed
  then obtain db2 where s2: "(case in_couponCode intent of None \<Rightarrow> Inr db1
      | Some code \<Rightarrow> redeemCoupon code (pay_team p) (inv_id q) db1) = Inr db2" and v2: "db_valid db2" by blast
  have same: "subscriptions db1 = subscriptions db" "payments db1 = payments db" by (simp_all add: db1_def)
  have subs: "subscriptions db2 = subscriptions db \<and> payments db2 = payments db"
  proof (cases "in_couponCode intent")
    case None
    then show ?thesis using s2 same by simp
  next
    case (Some code)
    then have "redeemCoupon code (pay_team p) (inv_id q) db1 = Inr db2" using s2 by simp
    from redeemCoupon_Inr [OF this] show ?thesis using same by (simp split: if_splits)
  qed
  have "\<exists>db3. upsertSubscription env (pay_team p) (pay_id p) intent db2 = Inr (env_uuid1 env, db3) \<and> db_valid db3"
    by (rule upsertSubscription_succeeds [OF v2])
      (use inv env i readIntent_seats [OF i(1)] in \<open>simp_all add: subs billing_inv_def\<close>)
  then obtain db3 where s3: "upsertSubscription env (pay_team p) (pay_id p) intent db2 = Inr (env_uuid1 env, db3)"
    and v3: "db_valid db3" by blast
  have "payments db3 = payments db" using upsertSubscription_Inr [OF s3] subs by simp
  moreover have "activateFromPayment env p db = Inr ((env_uuid1 env, inv_id q), db3)"
    unfolding activateFromPayment_def q(2) option.case i(1) and_then.simps s1 s2 s3 by simp
  ultimately show ?thesis using v3 by blast
qed

lemma settleLocked_pays:
  assumes inv: "billing_inv db" and p: "p \<in> set (payments db)" "pay_status p = P_pending" "pay_authority p = Some a"
    and v: "gw_verify gw db a (pay_amount p) = Paid al ref pan hash fee"
    and i: "readIntent (pay_request p) = Inr intent" "0 \<le> in_unitPriceRial intent"
    and env: "wf_env env" "env_uuid1 env \<notin> sub_id ` set (subscriptions db)"
    and room: "coupon_room (in_couponCode intent) (pay_team p) db"
  shows "\<exists>iid db'. settleLocked env gw p None db = Inr (Activated (env_uuid1 env) iid ref, db') \<and>
    activation env p iid intent db db' \<and> db_valid db'"
proof -
  from activateFromPayment_succeeds [OF inv p(1,2) i env room] obtain iid db3 where
    s: "activateFromPayment env p db = Inr ((env_uuid1 env, iid), db3)" "db_valid db3" "payments db3 = payments db"
    by blast
  have "pay_status q = P_pending" if "q \<in> set (payments db3)" "pay_id q = pay_id p" for q
    using same_id_same_payment [of db q p] inv that s(3) p(1,2) by (simp add: billing_inv_def)
  from set_payment_paid [OF s(2) this, where r = "Some ref" and pan = pan and h = hash and fee = fee
      and t = "env_now env" and v = "Some (env_now env)" and c = None
      and w = "Some (verifyPayloadOf (Paid al ref pan hash fee) (env_date env))"]
  obtain db' where d: "set_payment (pay_id p) (\<lambda>q. q\<lparr>pay_status := P_paid, pay_ref_id := Some ref, pay_card_pan := pan,
       pay_card_hash := hash, pay_fee := fee, pay_paid_at := Some (env_now env), pay_verified_at := Some (env_now env),
       pay_failure_code := None,
       pay_verify_payload := Some (verifyPayloadOf (Paid al ref pan hash fee) (env_date env))\<rparr>) db3 = Inr db'" by blast
  have set: "settleLocked env gw p None db = Inr (Activated (env_uuid1 env) iid ref, db')"
    unfolding settleLocked_def option.case and_then.simps p Let_def v VerifyOutcome.case s(1) prod.case d by simp
  from settleLocked_Inr [OF set] i(1) have "activation env p iid intent db db' \<and> db_valid db'"
    by (auto simp: activation_def)
  then show ?thesis using set by blast
qed

text \<open>
  C5. A payment that the gateway confirms is always activated, and only once. In every database
  reachable by the billing services, a pending payment with an authority that the gateway reports as paid
  settles without an error (provided its coupon has room left or was already counted for the team): the payment
  and its invoice become paid and the team has exactly one live subscription, which starts where a still
  running one of the same plan ends and otherwise now. Settling it again, whoever asks and whatever the
  gateway says then, reports that subscription and changes nothing.
\<close>

theorem confirmed_payment_activates:
  assumes inv: "billing_inv db" and p: "p \<in> set (payments db)" "pay_status p = P_pending" "pay_authority p = Some a"
    and gw: "gw_name gw = pay_gateway p" "gw_mode gw = pay_mode p"
    and v: "gw_verify gw db a (pay_amount p) = Paid al ref pan hash fee"
    and i: "readIntent (pay_request p) = Inr intent" "0 \<le> in_unitPriceRial intent"
    and env: "wf_env env" "env_uuid1 env \<notin> sub_id ` set (subscriptions db)"
    and room: "coupon_room (in_couponCode intent) (pay_team p) db"
    and again: "gw_name gw2 = pay_gateway p" "gw_mode gw2 = pay_mode p"
  shows "\<exists>iid db'. settlePayment env gw (ById (pay_id p)) no_hooks db =
      (Inr (Activated (env_uuid1 env) iid ref), db') \<and>
    pay_invoice p = Some iid \<and> billing_inv db' \<and>
    (\<exists>q \<in> set (payments db'). pay_id q = pay_id p \<and> pay_status q = P_paid) \<and>
    (\<exists>q \<in> set (invoices db'). inv_id q = iid \<and> inv_status q = I_paid \<and> inv_total q = pay_amount p) \<and>
    filter (\<lambda>s. sub_team s = pay_team p \<and> is_live s) (subscriptions db') =
      [new_subscription env (pay_team p) (pay_id p) intent
         (renewal_anchor env (pay_team p) (in_planCode intent) (subscriptions db))] \<and>
    settlePayment env2 gw2 (ById (pay_id p)) no_hooks db' =
      (Inr (AlreadySettled (Some (env_uuid1 env)) (Some iid) P_paid), db')"
proof -
  have valid: "db_valid db" using inv by (simp add: billing_inv_def)
  from settleLocked_pays [OF inv p v i env room] obtain iid db' where
    s: "settleLocked env gw p None db = Inr (Activated (env_uuid1 env) iid ref, db')"
    and act: "activation env p iid intent db db'" and v': "db_valid db'" by blast
  have inv': "billing_inv db'" by (rule activation_preserves [OF act in_cores [OF p(1)] env(1) inv v'])
  have lock: "lockPaymentForSettle gw (ById (pay_id p)) db = Inr p"
    using payment_by_id_Some [OF valid, of "pay_id p" p] p(1) gw
    by (simp add: lockPaymentForSettle_def assertGatewayMatches_def)
  have settle: "settlePayment env gw (ById (pay_id p)) no_hooks db = (Inr (Activated (env_uuid1 env) iid ref), db')"
    unfolding settlePayment_def withTransaction_def settle_tx_def lock and_then.simps no_hooks_def
    by (simp add: s)
  have own: "pay_invoice p = Some iid" using act by (simp add: activation_def)
  have "(core p)\<lparr>k_status := P_paid\<rparr> \<in> set (cores db')"
    using act in_cores [OF p(1)] by (auto simp: activation_def set_status_def in_set_sql_update)
  then obtain q where q: "q \<in> set (payments db')" "core q = (core p)\<lparr>k_status := P_paid\<rparr>" by (auto simp: cores_def)
  then have qf: "pay_id q = pay_id p" "pay_status q = P_paid" "pay_invoice q = Some iid" "pay_amount q = pay_amount p"
    using own by (auto simp: core_def)
  have paid_invoice: "\<exists>r \<in> set (invoices db'). inv_id r = iid \<and> inv_status r = I_paid \<and> inv_total r = pay_amount p"
    using payment_of_inv [OF inv' q(1)] qf by (auto simp: invoice_follows_simps)
  have new: "subscriptions db' = expire_live (pay_team p) (subscriptions db) @
       [new_subscription env (pay_team p) (pay_id p) intent
          (renewal_anchor env (pay_team p) (in_planCode intent) (subscriptions db))]"
    using act by (simp add: activation_def)
  have one: "filter (\<lambda>s. sub_team s = pay_team p \<and> is_live s) (subscriptions db') =
      [new_subscription env (pay_team p) (pay_id p) intent
         (renewal_anchor env (pay_team p) (in_planCode intent) (subscriptions db))]"
    unfolding new using live_teams_expire(1) valid
    by (simp add: db_valid_iff subscriptions_error_None) (simp add: new_subscription_def is_live_def LIVE_SUBSCRIPTION_STATUSES_def)
  have "find (activated_by (pay_id p)) (subscriptions db') = Some (new_subscription env (pay_team p) (pay_id p) intent
         (renewal_anchor env (pay_team p) (in_planCode intent) (subscriptions db)))" (is "_ = Some ?n")
  proof (rule find_unique)
    show n: "?n \<in> set (subscriptions db')" by (simp add: new)
    show "activated_by (pay_id p) ?n" by (simp add: activated_by_def new_subscription_def)
    show "\<forall>s \<in> set (subscriptions db'). activated_by (pay_id p) s \<longrightarrow> s = ?n"
      using one_subscription_per_payment [of "subscriptions db'" _ ?n "pay_id p"] inv' n
      by (auto simp: billing_inv_def activated_by_def new_subscription_def)
  qed
  then have sub: "map_option sub_id (find (activated_by (pay_id p)) (subscriptions db')) = Some (env_uuid1 env)"
    by (simp add: new_subscription_def)
  have q_gw: "pay_gateway q = pay_gateway p \<and> pay_mode q = pay_mode p" using q(2) by (simp add: core_def)
  have lock': "lockPaymentForSettle gw2 (ById (pay_id p)) db' = Inr q"
    using payment_by_id_Some [OF v', of "pay_id p" q] q(1) qf(1) again q_gw
    by (simp add: lockPaymentForSettle_def assertGatewayMatches_def)
  have "settlePayment env2 gw2 (ById (pay_id p)) no_hooks db' =
      (Inr (AlreadySettled (Some (env_uuid1 env)) (Some iid) P_paid), db')"
    unfolding settlePayment_def withTransaction_def settle_tx_def lock' and_then.simps no_hooks_def
    by (simp add: settleLocked_def qf sub)
  then show ?thesis using settle own inv' q(1) qf(1,2) paid_invoice one by blast
qed

theorem confirmed_payment_activates_witness:
  "\<exists>iid db'. settlePayment (sample_env 7) paying_gateway (ById ''v1'') no_hooks sample_waiting =
      (Inr (Activated ''u7'' iid ''R1''), db') \<and> billing_inv db'"
proof -
  let ?p = "sample_payment 1 ''t1'' P_pending (Some ''A1'') (Some ''C'') 1094500"
  have p: "?p \<in> set (payments sample_waiting)" by (simp add: sample_waiting_def)
  have room: "coupon_room (Some ''C'') ''t1'' sample_waiting"
    by (simp add: coupon_room_def sample_waiting_def sample_open_def sample_db_def sample_coupon_def)
  have env: "env_uuid1 (sample_env 7) \<notin> sub_id ` set (subscriptions sample_waiting)"
    by (simp add: sample_waiting_def sample_open_def sample_db_def)
  show ?thesis
    using confirmed_payment_activates [OF sample_inv(1) p, of "''A1''" paying_gateway False "''R1''" None None None
        "sample_intent (Some ''C'')" "sample_env 7" paying_gateway "sample_env 8"]
      room env wf_env_sample [of 7] readIntent_sample(2)
    by (simp add: paying_gateway_def sample_payment_def sample_intent_def sample_env_def sample_digits)
      (metis)
qed

subsection \<open>Every history\<close>

definition lifecycle :: "PaymentStatus \<Rightarrow> PaymentStatus \<Rightarrow> bool" where
  "lifecycle st st' \<longleftrightarrow> st' = st \<or> st = P_pending \<and> st' \<in> {P_paid, P_failed, P_canceled, P_refunded} \<or>
     st = P_paid \<and> st' = P_refunded"

lemma lifecycle_trans: "lifecycle a b \<Longrightarrow> lifecycle b c \<Longrightarrow> lifecycle a c"
  by (auto simp: lifecycle_def)

lemma in_set_status:
  "k \<in> set ks \<Longrightarrow> (if k_id k = i then k\<lparr>k_status := st\<rparr> else k) \<in> set (set_status i st ks)"
  by (auto simp: set_status_def in_set_sql_update)

lemma move_lifecycle:
  assumes "billing_move db db'" "db_valid db" "k \<in> set (cores db)"
  shows "\<exists>st. k\<lparr>k_status := st\<rparr> \<in> set (cores db') \<and> lifecycle (k_status k) st"
proof -
  have self: "k\<lparr>k_status := k_status k\<rparr> = k" by simp
  have by_status: "\<exists>st. k\<lparr>k_status := st\<rparr> \<in> set (set_status (pay_id p) st' (cores db)) \<and> lifecycle (k_status k) st"
    if "core p \<in> set (cores db)" "lifecycle (pay_status p) st'" for p st'
  proof (cases "k_id k = pay_id p")
    case True
    then have "k = core p" using same_id_same_core [OF assms(2,3) that(1)] by simp
    then show ?thesis using in_set_status [OF assms(3), of "pay_id p" st'] True that(2) by auto
  next
    case False
    then have "k \<in> set (set_status (pay_id p) st' (cores db))"
      using in_set_status [OF assms(3), of "pay_id p" st'] by simp
    then show ?thesis using self by (metis lifecycle_def)
  qed
  from assms(1) show ?thesis
  proof cases
    case mv_same
    then show ?thesis using assms(3) self by (metis lifecycle_def same_core_def)
  next
    case (mv_activate env payment invoiceId intent)
    then show ?thesis using by_status [of payment P_paid] by (simp add: activation_def lifecycle_def)
  next
    case (mv_close i st invoiceId)
    then have ks: "cores db' = sql_update (\<lambda>k. k_id k = i \<and> k_status k = P_pending) (\<lambda>k. k\<lparr>k_status := st\<rparr>) (cores db)"
      "st \<in> {P_failed, P_canceled}" by (simp_all add: closing_def)
    show ?thesis
    proof (cases "k_id k = i \<and> k_status k = P_pending")
      case True
      then have "k\<lparr>k_status := st\<rparr> \<in> set (cores db')" using assms(3) by (auto simp: ks in_set_sql_update)
      then show ?thesis using True ks(2) by (auto simp: lifecycle_def)
    next
      case False
      then have "k \<in> set (cores db')" using assms(3) unfolding ks in_set_sql_update by (intro bexI [of _ k]) auto
      then show ?thesis using self by (metis lifecycle_def)
    qed
  next
    case (mv_void invoiceId)
    then show ?thesis using assms(3) self by (metis lifecycle_def voiding_def)
  next
    case (mv_refund env payment rows)
    then show ?thesis
      using by_status [of payment P_refunded] in_cores by (simp add: refunding_def lifecycle_def)
  next
    case mv_open
    then have "k \<in> set (cores db')" using assms(3) by (auto simp: checkout_move_def)
    then show ?thesis using self by (metis lifecycle_def)
  next
    case mv_end
    then show ?thesis using assms(3) self by (metis lifecycle_def ending_def)
  qed
qed

lemma steps_lifecycle:
  assumes "billing_steps db db'" "billing_inv db" "k \<in> set (cores db)"
  shows "\<exists>st. k\<lparr>k_status := st\<rparr> \<in> set (cores db') \<and> lifecycle (k_status k) st"
  using assms
proof (induction rule: billing_steps.induct)
  case (bs_refl db)
  have "k\<lparr>k_status := k_status k\<rparr> = k" by simp
  then show ?case using bs_refl(2) by (metis lifecycle_def)
next
  case (bs_step db db1 db2)
  then obtain st where st: "k\<lparr>k_status := st\<rparr> \<in> set (cores db1)" "lifecycle (k_status k) st" by blast
  have inv: "billing_inv db1" using billing_steps_inv bs_step by blast
  then have "db_valid db1" by (simp add: billing_inv_def)
  from move_lifecycle [OF conjunct2 [OF billing_step_move [OF bs_step(2) this]] this st(1)]
  obtain st2 where "k\<lparr>k_status := st2\<rparr> \<in> set (cores db2)" "lifecycle st st2" by auto
  then show ?case using lifecycle_trans [OF st(2)] by blast
qed

text \<open>
  C4. No service without payment. In every database reachable from a consistent one by any interleaving
  of checkouts, settlements, expiries, refunds, adoptions, approvals and period ends: a live subscription
  that a payment activated has that payment, of its own team, in state paid; no payment ever activated two
  subscriptions; a team has at most one live subscription; every payment has an invoice over its amount in the
  matching state, or void while the payment is still pending (the two statements of a voided checkout commit
  apart, and nothing completes the second if the process stops between them); and a coupon counts exactly its redemptions and never more than its limit.
\<close>

theorem no_service_without_payment:
  assumes "billing_inv db0" "billing_steps db0 db"
  shows "(\<forall>s \<in> set (subscriptions db). is_live s \<and> sub_payment s \<noteq> None \<longrightarrow>
      (\<exists>p \<in> set (payments db). sub_payment s = Some (pay_id p) \<and> pay_team p = sub_team s \<and> pay_status p = P_paid)) \<and>
    (\<forall>s \<in> set (subscriptions db). \<forall>q \<in> set (subscriptions db).
      sub_payment s = sub_payment q \<and> sub_payment s \<noteq> None \<longrightarrow> s = q) \<and>
    (\<forall>s \<in> set (subscriptions db). \<forall>q \<in> set (subscriptions db).
      is_live s \<and> is_live q \<and> sub_team s = sub_team q \<longrightarrow> s = q) \<and>
    (\<forall>p \<in> set (payments db). \<exists>i \<in> set (invoices db). pay_invoice p = Some (inv_id i) \<and>
      inv_team i = pay_team p \<and> inv_total i = pay_amount p \<and>
      (inv_status i = invoice_state (pay_status p) \<or> pay_status p = P_pending \<and> inv_status i = I_void)) \<and>
    (\<forall>c \<in> set (coupons db). cp_redeemed_count c = redemption_count (redemptions db) (cp_code c) \<and>
      (\<forall>n. cp_max_redemptions c = Some n \<longrightarrow> cp_redeemed_count c \<le> n))"
proof -
  have inv: "billing_inv db" using billing_steps_inv assms by blast
  note i = inv [unfolded billing_inv_def]
  have paid: "\<exists>p \<in> set (payments db). sub_payment s = Some (pay_id p) \<and> pay_team p = sub_team s \<and> pay_status p = P_paid"
    if "s \<in> set (subscriptions db)" "is_live s" "sub_payment s \<noteq> None" for s
    using that i by (fastforce simp: list_all_iff backed_def cores_def)
  have once: "s = q" if "s \<in> set (subscriptions db)" "q \<in> set (subscriptions db)"
    "sub_payment s = sub_payment q" "sub_payment s \<noteq> None" for s q
  proof -
    from that(4) obtain n where n: "sub_payment s = Some n" by blast
    then show ?thesis
      using one_subscription_per_payment [of "subscriptions db" s q n] that(1-3) conjunct1 [OF conjunct2 [OF conjunct2 [OF i]]]
      by simp
  qed
  have team: "s = q" if "s \<in> set (subscriptions db)" "q \<in> set (subscriptions db)" "is_live s" "is_live q"
    "sub_team s = sub_team q" for s q
    using find_live_unique [of "subscriptions db" q s] that i by (simp add: db_valid_iff subscriptions_error_None)
  have coupon: "coupon_ck c" "counted (redemptions db) c" if "c \<in> set (coupons db)" for c
  proof -
    have "list_all coupon_ck (coupons db)" "list_all (counted (redemptions db)) (coupons db)"
      using i by (simp_all add: db_valid_iff coupons_error_None)
    then show "coupon_ck c" "counted (redemptions db) c" using that by (simp_all add: list_all_iff)
  qed
  show ?thesis
  proof (intro conjI ballI impI allI)
    fix s assume "s \<in> set (subscriptions db)" "is_live s \<and> sub_payment s \<noteq> None"
    then show "\<exists>p \<in> set (payments db). sub_payment s = Some (pay_id p) \<and> pay_team p = sub_team s \<and> pay_status p = P_paid"
      using paid by simp
  next
    fix s q assume "s \<in> set (subscriptions db)" "q \<in> set (subscriptions db)"
      "sub_payment s = sub_payment q \<and> sub_payment s \<noteq> None"
    then show "s = q" by (blast intro: once)
  next
    fix s q assume "s \<in> set (subscriptions db)" "q \<in> set (subscriptions db)"
      "is_live s \<and> is_live q \<and> sub_team s = sub_team q"
    then show "s = q" using team by simp
  next
    fix p assume "p \<in> set (payments db)"
    then show "\<exists>i \<in> set (invoices db). pay_invoice p = Some (inv_id i) \<and> inv_team i = pay_team p \<and>
        inv_total i = pay_amount p \<and>
        (inv_status i = invoice_state (pay_status p) \<or> pay_status p = P_pending \<and> inv_status i = I_void)"
      using payment_of_inv [OF inv] unfolding invoice_follows_def by blast
  next
    fix c n assume c: "c \<in> set (coupons db)"
    then show "cp_redeemed_count c = redemption_count (redemptions db) (cp_code c)"
      using coupon(2) by (simp add: counted_def)
    assume "cp_max_redemptions c = Some n"
    then show "cp_redeemed_count c \<le> n" using coupon(1) [OF c] by (simp add: coupon_ck_def)
  qed
qed

theorem no_service_without_payment_witness:
  "\<exists>s \<in> set (subscriptions sample_paid). is_live s \<and>
    (\<exists>p \<in> set (payments sample_paid). sub_payment s = Some (pay_id p) \<and> pay_team p = sub_team s \<and> pay_status p = P_paid)"
proof -
  have "\<exists>s \<in> set (subscriptions sample_paid). is_live s \<and> sub_payment s \<noteq> None" by code_simp
  then show ?thesis
    using no_service_without_payment [OF sample_inv(1) bs_step [OF bs_refl step_paid]] by blast
qed

lemma lifecycle_core:
  assumes "billing_inv db" "billing_steps db db'" "p \<in> set (payments db)"
  obtains q st where "q \<in> set (payments db')" "core q = (core p)\<lparr>k_status := st\<rparr>" "lifecycle (pay_status p) st"
    "\<forall>r \<in> set (payments db'). pay_id r = pay_id p \<longrightarrow> r = q" "billing_inv db'" "pay_status q = st"
proof -
  have inv: "billing_inv db'" using billing_steps_inv assms by blast
  from steps_lifecycle [OF assms(2,1) in_cores [OF assms(3)]] obtain st where
    "(core p)\<lparr>k_status := st\<rparr> \<in> set (cores db')" "lifecycle (pay_status p) st" by auto
  then obtain q where
    q: "q \<in> set (payments db')" "core q = (core p)\<lparr>k_status := st\<rparr>" "lifecycle (pay_status p) st"
    by (metis cores_def imageE set_map)
  then have "pay_id q = pay_id p" "pay_status q = st" by (simp_all add: core_def)
  moreover have "\<forall>r \<in> set (payments db'). pay_id r = pay_id p \<longrightarrow> r = q"
  proof (intro ballI impI)
    fix r assume "r \<in> set (payments db')" "pay_id r = pay_id p"
    moreover have "db_valid db'" using inv by (simp add: billing_inv_def)
    ultimately show "r = q" using same_id_same_payment [of db' r q] q(1) \<open>pay_id q = pay_id p\<close> by simp
  qed
  ultimately show ?thesis using that [OF q(1) q(2) q(3) _ inv] by blast
qed

lemma lifecycle_final:
  assumes "billing_inv db" "billing_steps db db'" "p \<in> set (payments db)" "pay_status p \<noteq> P_pending" "pay_status p \<noteq> P_paid"
  shows "(\<forall>q \<in> set (payments db'). pay_id q = pay_id p \<longrightarrow> pay_status q = pay_status p) \<and>
      (\<nexists>s. s \<in> set (subscriptions db') \<and> sub_payment s = Some (pay_id p) \<and> is_live s)"
proof -
  from lifecycle_core [OF assms(1-3)] obtain q st where
    q: "q \<in> set (payments db')" "core q = (core p)\<lparr>k_status := st\<rparr>" "lifecycle (pay_status p) st"
      "\<forall>r \<in> set (payments db'). pay_id r = pay_id p \<longrightarrow> r = q" and inv: "billing_inv db'"
    and qs: "pay_status q = st" .
  then have st: "st = pay_status p" using assms(4,5) by (auto simp: lifecycle_def)
  have "\<not> is_live s" if "s \<in> set (subscriptions db')" "sub_payment s = Some (pay_id p)" for s
  proof
    assume "is_live s"
    then have "\<exists>r \<in> set (payments db'). pay_id r = pay_id p \<and> pay_status r = P_paid"
      using that inv by (fastforce simp: billing_inv_def list_all_iff backed_def cores_def)
    then show False using q(4) qs st assms(5) by auto
  qed
  then show ?thesis using q(4) qs st by blast
qed

text \<open>
  C6. The life of a payment. Over every history a payment is never lost and never changes its team,
  amount, invoice, gateway, mode or frozen purchase; its status only moves from pending to paid, failed or
  canceled, and from paid to refunded; failed, canceled and refunded are final as a status, and a payment
  with such a status never gets a subscription that is still live. The technical columns of such a payment
  (authority, callback and verification payloads, transfer fields) may still change.
\<close>

theorem payment_lifecycle:
  assumes "billing_inv db" "billing_steps db db'" "p \<in> set (payments db)"
  shows "(\<exists>q \<in> set (payments db'). pay_id q = pay_id p \<and> pay_team q = pay_team p \<and> pay_amount q = pay_amount p \<and>
      pay_invoice q = pay_invoice p \<and> pay_request q = pay_request p \<and> pay_gateway q = pay_gateway p \<and>
      pay_mode q = pay_mode p \<and> lifecycle (pay_status p) (pay_status q)) \<and>
    (pay_status p \<noteq> P_pending \<and> pay_status p \<noteq> P_paid \<longrightarrow>
      (\<forall>q \<in> set (payments db'). pay_id q = pay_id p \<longrightarrow> pay_status q = pay_status p) \<and>
      (\<nexists>s. s \<in> set (subscriptions db') \<and> sub_payment s = Some (pay_id p) \<and> is_live s))"
proof -
  from lifecycle_core [OF assms(1-3)] obtain q st where
    q: "q \<in> set (payments db')" "core q = (core p)\<lparr>k_status := st\<rparr>" "lifecycle (pay_status p) st" .
  then have "\<exists>q \<in> set (payments db'). pay_id q = pay_id p \<and> pay_team q = pay_team p \<and> pay_amount q = pay_amount p \<and>
      pay_invoice q = pay_invoice p \<and> pay_request q = pay_request p \<and> pay_gateway q = pay_gateway p \<and>
      pay_mode q = pay_mode p \<and> lifecycle (pay_status p) (pay_status q)"
    by (intro bexI [of _ q]) (simp_all add: core_def)
  then show ?thesis using lifecycle_final [OF assms] by blast
qed

theorem payment_lifecycle_witness:
  "(\<exists>q \<in> set (payments sample_paid). pay_id q = ''v1'' \<and> pay_amount q = 1094500 \<and> lifecycle P_pending (pay_status q)) \<and>
   (\<nexists>s. s \<in> set (subscriptions sample_failed) \<and> sub_payment s = Some ''v1'' \<and> is_live s)"
proof
  let ?p = "sample_payment 1 ''t1'' P_pending (Some ''A1'') (Some ''C'') 1094500"
  have "?p \<in> set (payments sample_waiting)" by (simp add: sample_waiting_def)
  from payment_lifecycle [OF sample_inv(1) bs_step [OF bs_refl step_paid] this]
  show "\<exists>q \<in> set (payments sample_paid). pay_id q = ''v1'' \<and> pay_amount q = 1094500 \<and> lifecycle P_pending (pay_status q)"
    by (auto simp: sample_payment_def sample_digits)
next
  let ?p = "sample_payment 1 ''t1'' P_failed None (Some ''C'') 1094500"
  have "?p \<in> set (payments sample_failed)" by (simp add: sample_failed_def)
  from payment_lifecycle [OF sample_inv(2) bs_refl this]
  show "\<nexists>s. s \<in> set (subscriptions sample_failed) \<and> sub_payment s = Some ''v1'' \<and> is_live s"
    by (simp add: sample_payment_def sample_digits)
qed

subsection \<open>Money without service\<close>

text \<open>
  C7. A coupon that others used up blocks a paid payment for good. When a pending payment was priced with a
  coupon that other teams have meanwhile redeemed up to its limit, then every settlement of it that the
  gateway answers with paid, from whatever caller and at whatever time, and every expiry, fails with the
  violation of \<open>coupons_redemptions_ck\<close> and leaves the database as it was: the money is taken, the
  payment stays pending, no subscription appears.
\<close>

theorem exhausted_coupon_blocks:
  assumes inv: "billing_inv db" and p: "p \<in> set (payments db)" "pay_status p = P_pending" "pay_authority p = Some a"
    and i: "readIntent (pay_request p) = Inr intent" "in_couponCode intent = Some (cp_code c)"
    and c: "c \<in> set (coupons db)" "cp_max_redemptions c = Some (cp_redeemed_count c)"
    and team: "\<not> redeemed (cp_code c) (pay_team p) (redemptions db)"
    and gw: "gw_name gw = pay_gateway p" "gw_mode gw = pay_mode p"
    and v: "gw_verify gw db a (pay_amount p) = Paid al ref pan hash fee"
  shows "settlePayment env gw (ById (pay_id p)) no_hooks db =
      (Inl (CheckViolation ''coupons_redemptions_ck''), db) \<and>
    expireStalePayment env gw actor (pay_id p) reason db =
      (Inl (CheckViolation ''coupons_redemptions_ck''), db)"
proof -
  have valid: "db_valid db" using inv by (simp add: billing_inv_def)
  from payment_of_inv [OF inv p(1)] obtain q where
    q: "q \<in> set (invoices db)" "pay_invoice p = Some (inv_id q)" "inv_status q = I_open \<or> inv_status q = I_void"
    using p(2) by (auto simp: invoice_follows_simps)
  define db1 where "db1 = db\<lparr>invoices := sql_update (\<lambda>i. inv_id i = inv_id q)
       (\<lambda>i. i\<lparr>inv_status := I_paid, inv_paid_at := Some (env_now env)\<rparr>) (invoices db)\<rparr>"
  have "inv_status i = I_open \<or> inv_status i = I_void" if "i \<in> set (invoices db)" "inv_id i = inv_id q" for i
  proof -
    have "distinct (map inv_id (invoices db))" using valid by (simp add: db_valid_iff invoices_error_None)
    then have "i = q" using that q(1) by (auto simp: distinct_map dest: inj_onD)
    then show ?thesis using q(3) by simp
  qed
  then have s1: "set_invoice (\<lambda>i. inv_id i = inv_id q)
      (\<lambda>i. i\<lparr>inv_status := I_paid, inv_paid_at := Some (env_now env)\<rparr>) db = Inr db1"
    unfolding db1_def by (rule set_invoice_paid [OF valid])
  then have v1: "db_valid db1" by (auto simp: set_invoice_def exec_Inr_iff db1_def)
  define db2 where "db2 = db1\<lparr>redemptions := redemptions db1 @
      [\<lparr> rd_coupon = cp_code c, rd_team = pay_team p, rd_invoice = inv_id q \<rparr>]\<rparr>"
  have same: "coupons db1 = coupons db" "redemptions db1 = redemptions db" by (simp_all add: db1_def)
  have v2: "db_valid db2"
    using v1 team by (auto simp: db2_def same db_valid_iff redemptions_error_def redeemed_def split: if_splits)
  define db3 where "db3 = db2\<lparr>coupons := sql_update (\<lambda>q. cp_code q = cp_code c)
      (\<lambda>q. q\<lparr>cp_redeemed_count := cp_redeemed_count q + 1\<rparr>) (coupons db2)\<rparr>"
  have "c\<lparr>cp_redeemed_count := cp_redeemed_count c + 1\<rparr> \<in> set (coupons db3)"
    using c(1) by (auto simp: db3_def db2_def same in_set_sql_update)
  moreover have "\<not> coupon_ck (c\<lparr>cp_redeemed_count := cp_redeemed_count c + 1\<rparr>)"
    using c(2) by (simp add: coupon_ck_def)
  ultimately have "coupons_error (coupons db3) = Some (CheckViolation ''coupons_redemptions_ck'')"
    by (auto simp: coupons_error_def list_all_iff)
  moreover have "payments_error (payments db3) = None" "invoices_error (invoices db3) = None"
    "subscriptions_error (subscriptions db3) = None"
    using v2 by (simp_all add: db3_def db_valid_iff)
  ultimately have e3: "exec db3 = Inl (CheckViolation ''coupons_redemptions_ck'')"
    by (simp add: exec_def db_error_def)
  have red: "redeemCoupon (cp_code c) (pay_team p) (inv_id q) db1 = Inl (CheckViolation ''coupons_redemptions_ck'')"
    using team unfolding redeemCoupon_def redeemed_def same(2) [symmetric] db2_def [symmetric]
    by (simp only: if_False exec_valid [OF v2] and_then.simps e3 [unfolded db3_def])
  have "settleLocked env gw p None db = Inl (CheckViolation ''coupons_redemptions_ck'')"
    unfolding settleLocked_def option.case and_then.simps p Let_def v VerifyOutcome.case
      activateFromPayment_def q(2) i(1) s1
    by (simp add: i(2) red)
  moreover have "lockPaymentForSettle gw (ById (pay_id p)) db = Inr p"
    using payment_by_id_Some [OF valid, of "pay_id p" p] p(1) gw
    by (simp add: lockPaymentForSettle_def assertGatewayMatches_def)
  ultimately show ?thesis
    by (simp add: settlePayment_def expireStalePayment_def withTransaction_def settle_tx_def expire_tx_def no_hooks_def p(2))
qed

theorem exhausted_coupon_blocks_witness:
  "settlePayment (sample_env 7) paying_gateway (ById ''v2'') no_hooks sample_raced =
    (Inl (CheckViolation ''coupons_redemptions_ck''), sample_raced)"
proof -
  let ?p = "sample_payment 2 ''t2'' P_pending (Some ''A2'') (Some ''C'') 1094500"
  let ?c = "sample_coupon\<lparr>cp_redeemed_count := 1\<rparr>"
  have p: "?p \<in> set (payments sample_raced)" and c: "?c \<in> set (coupons sample_raced)"
    by (simp_all add: sample_raced_def)
  have team: "\<not> redeemed ''C'' ''t2'' (redemptions sample_raced)"
    by (simp add: redeemed_def sample_raced_def)
  show ?thesis
    using exhausted_coupon_blocks [OF sample_inv(3) p, of "''A2''" "sample_intent (Some ''C'')" ?c paying_gateway
        False "''R1''" None None None "sample_env 7"] c team readIntent_sample(2)
    by (simp add: paying_gateway_def sample_payment_def sample_intent_def sample_coupon_def sample_digits)
qed

subsection \<open>Retrying a checkout\<close>

lemma authority_keys_update:
  assumes "distinct (map pay_id t)" "p \<in> set t" "distinct (authority_keys t)" "(pay_gateway p, Some a) \<notin> set (authority_keys t)"
  shows "distinct (authority_keys (sql_update (\<lambda>q. pay_id q = pay_id p) (\<lambda>q. q\<lparr>pay_authority := Some a\<rparr>) t))"
  using assms
proof (induction t)
  case (Cons q t)
  show ?case
  proof (cases "q = p")
    case True
    then have "sql_update (\<lambda>q. pay_id q = pay_id p) (\<lambda>q. q\<lparr>pay_authority := Some a\<rparr>) t = t"
      using Cons.prems(1) by (intro sql_update_none) (metis imageI distinct.simps(2) list.map(2) set_map)
    then show ?thesis using True Cons.prems by (auto simp: authority_keys_def split: if_splits)
  next
    case False
    then have p: "p \<in> set t" using Cons.prems(2) by simp
    then have ne: "pay_id q \<noteq> pay_id p" using Cons.prems(1) by auto
    have sub: "set (authority_keys (sql_update (\<lambda>q. pay_id q = pay_id p) (\<lambda>q. q\<lparr>pay_authority := Some a\<rparr>) u)) \<subseteq>
        insert (pay_gateway p, Some a) (set (authority_keys u))" if "set u \<subseteq> set t" for u
    proof -
      have "pay_gateway x = pay_gateway p" if "x \<in> set t" "pay_id x = pay_id p" for x
        using that p Cons.prems(1) by (auto simp: distinct_map dest: inj_onD)
      then show ?thesis using that by (induction u) (auto simp: authority_keys_def)
    qed
    have "distinct (authority_keys (sql_update (\<lambda>q. pay_id q = pay_id p) (\<lambda>q. q\<lparr>pay_authority := Some a\<rparr>) t))"
      by (rule Cons.IH) (use Cons.prems p in \<open>auto simp: authority_keys_def split: if_splits\<close>)
    moreover have "(pay_gateway q, pay_authority q) \<notin>
        set (authority_keys (sql_update (\<lambda>q. pay_id q = pay_id p) (\<lambda>q. q\<lparr>pay_authority := Some a\<rparr>) t))"
      if "pay_authority q \<noteq> None"
    proof -
      have "(pay_gateway q, pay_authority q) \<notin> set (authority_keys t)"
        "(pay_gateway q, pay_authority q) \<noteq> (pay_gateway p, Some a)"
        using Cons.prems(3,4) that by (auto simp: authority_keys_def)
      then show ?thesis using sub [OF subset_refl] by blast
    qed
    ultimately show ?thesis using ne by (simp add: authority_keys_def)
  qed
qed simp

lemma payment_ck_technical [simp]:
  "payment_ck (p\<lparr>pay_authority := x\<rparr>) = payment_ck p"
  "payment_ck (p\<lparr>pay_callback_payload := y\<rparr>) = payment_ck p"
  by (simp_all add: payment_ck_def refund_ck_def transfer_ck_def)

lemma set_payment_callback:
  assumes "db_valid db"
  shows "set_payment i (\<lambda>p. p\<lparr>pay_callback_payload := y\<rparr>) db =
    Inr (db\<lparr>payments := sql_update (\<lambda>p. pay_id p = i) (\<lambda>p. p\<lparr>pay_callback_payload := y\<rparr>) (payments db)\<rparr>)"
proof -
  have "payments_error (sql_update (\<lambda>p. pay_id p = i) (\<lambda>p. p\<lparr>pay_callback_payload := y\<rparr>) (payments db)) = None"
    by (rule payments_error_update) (use assms in \<open>simp_all add: db_valid_iff\<close>)
  then show ?thesis using assms unfolding set_payment_def by (intro exec_valid) (simp add: db_valid_iff)
qed

lemma authority_unique:
  assumes "db_valid db" "p \<in> set (payments db)" "q \<in> set (payments db)" "pay_gateway p = pay_gateway q"
    "pay_authority p = Some a" "pay_authority q = Some a"
  shows "p = q"
proof -
  have "inj_on (\<lambda>p. (pay_gateway p, pay_authority p)) (set (filter (\<lambda>p. pay_authority p \<noteq> None) (payments db)))"
    using assms(1) unfolding db_valid_iff payments_error_None authority_keys_def distinct_map by blast
  then show ?thesis by (rule inj_onD) (use assms in simp_all)
qed

lemma saveAuthority_succeeds:
  assumes "db_valid db" "p \<in> set (payments db)" "(pay_gateway p, Some a) \<notin> set (authority_keys (payments db))"
  shows "\<exists>db'. saveAuthority (pay_id p) a db = Inr db' \<and> db_valid db' \<and>
    payments db' = sql_update (\<lambda>q. pay_id q = pay_id p) (\<lambda>q. q\<lparr>pay_authority := Some a\<rparr>) (payments db)"
proof -
  define t where "t = sql_update (\<lambda>q. pay_id q = pay_id p) (\<lambda>q. q\<lparr>pay_authority := Some a\<rparr>) (payments db)"
  have v: "list_all payment_ck (payments db)" "distinct (map pay_id (payments db))" "distinct (map pay_idem (payments db))"
    "distinct (authority_keys (payments db))" "distinct (transfer_keys (payments db))"
    using assms(1) by (simp_all add: db_valid_iff payments_error_None)
  have "list_all payment_ck t"
    unfolding t_def by (rule list_all_sql_update [OF v(1)]) simp
  moreover have "map pay_id t = map pay_id (payments db)" "map pay_idem t = map pay_idem (payments db)"
    unfolding t_def by (rule map_sql_update, simp)+
  moreover have "transfer_keys t = transfer_keys (payments db)"
    unfolding t_def transfer_keys_def by (rule filter_map_sql_update) simp_all
  moreover have "distinct (authority_keys t)"
    unfolding t_def by (rule authority_keys_update [OF v(2) assms(2) v(4) assms(3)])
  ultimately have "db_valid (db\<lparr>payments := t\<rparr>)"
    using assms(1) v by (simp add: db_valid_iff payments_error_None)
  then show ?thesis unfolding saveAuthority_def set_payment_def t_def [symmetric]
    by (intro exI [of _ "db\<lparr>payments := t\<rparr>"]) (simp add: exec_valid)
qed

text \<open>
  A second request with the key of an earlier one is given the payment of the first, whatever its state is,
  asks the gateway for a new authority and saves that on the payment.
\<close>

lemma replayed_checkout:
  assumes valid: "db_valid db" and p: "p \<in> set (payments db)"
    and key: "idempotencyKeyFor (co_teamId inp) header fresh = pay_idem p"
    and role: "requireTeamRole teams (co_teamId inp) (co_userId inp) team_owner = Inr role"
    and create: "create (pay_amount p) = Inr created"
    and new: "(pay_gateway p, Some (cr_authority created)) \<notin> set (authority_keys (payments db))"
  obtains db' where
    "checkout_route intl env env' teams inp header fresh create db = (Inr (pay_id p, redirectUrl created), db')"
    "saveAuthority (pay_id p) (cr_authority created) db = Inr db'" "db_valid db'"
    "payments db' = sql_update (\<lambda>q. pay_id q = pay_id p) (\<lambda>q. q\<lparr>pay_authority := Some (cr_authority created)\<rparr>)
      (payments db)" "subscriptions db' = subscriptions db"
proof -
  have "find (\<lambda>q. pay_idem q = pay_idem p) (payments db) = Some p"
    using find_id_unique [of pay_idem "payments db" p] valid p by (simp add: db_valid_iff payments_error_None)
  then obtain draft where d: "find_prior (pay_idem p) db = Some draft" "dr_paymentId draft = pay_id p"
    "dr_amountRial draft = pay_amount p" by (simp add: find_prior_def)
  then have first: "createCheckoutIdempotent intl env env' inp (pay_idem p) db db = (Inr draft, db)"
    by (simp add: createCheckoutIdempotent_def withTransaction_def createCheckout_after_def)
  from saveAuthority_succeeds [OF valid p new] obtain db' where
    s: "saveAuthority (pay_id p) (cr_authority created) db = Inr db'" "db_valid db'"
    and t: "payments db' = sql_update (\<lambda>q. pay_id q = pay_id p) (\<lambda>q. q\<lparr>pay_authority := Some (cr_authority created)\<rparr>)
      (payments db)" by blast
  have route: "checkout_route intl env env' teams inp header fresh create db = (Inr (pay_id p, redirectUrl created), db')"
    by (simp add: checkout_route_def role key first create d s(1))
  have "subscriptions db' = subscriptions db" using s(1)
    by (auto simp: saveAuthority_def set_payment_def exec_Inr_iff)
  then show ?thesis using that route s t by blast
qed

text \<open>
  C8. A retry after a failed gateway call takes money for nothing. When the first attempt of a checkout was
  voided because the gateway did not answer, the retry with the same key is given the voided payment again,
  sends the customer to the gateway with a new authority, and saves that authority on the voided row. Whatever
  happens afterwards, that payment stays failed and no subscription is ever activated by it; coming back from
  the bank after paying changes nothing and shows the failure page.
\<close>

theorem retried_checkout_takes_money:
  assumes inv: "billing_inv db" and p: "p \<in> set (payments db)" "pay_status p = P_failed"
    and key: "idempotencyKeyFor (co_teamId inp) header fresh = pay_idem p"
    and role: "requireTeamRole teams (co_teamId inp) (co_userId inp) team_owner = Inr role"
    and create: "create (pay_amount p) = Inr created"
    and new: "(pay_gateway p, Some (cr_authority created)) \<notin> set (authority_keys (payments db))"
    and gw: "gw_name gw = pay_gateway p" "gw_mode gw = pay_mode p"
  shows "\<exists>db'. checkout_route intl env env' teams inp header fresh create db =
      (Inr (pay_id p, redirectUrl created), db') \<and>
    (\<exists>q \<in> set (payments db'). pay_id q = pay_id p \<and> pay_authority q = Some (cr_authority created) \<and>
       pay_status q = P_failed) \<and>
    fst (callback_route env2 gw (cr_authority created) status db') = Inr ''failed'' \<and>
    subscriptions (snd (callback_route env2 gw (cr_authority created) status db')) = subscriptions db \<and>
    (\<forall>db''. billing_steps db' db'' \<longrightarrow>
       (\<forall>q \<in> set (payments db''). pay_id q = pay_id p \<longrightarrow> pay_status q = P_failed) \<and>
       (\<nexists>s. s \<in> set (subscriptions db'') \<and> sub_payment s = Some (pay_id p) \<and> is_live s))"
proof -
  have valid: "db_valid db" using inv by (simp add: billing_inv_def)
  from replayed_checkout [where create = create and intl = intl and env = env and env' = env', OF valid p(1) key role create new]
  obtain db' where route: "checkout_route intl env env' teams inp header fresh create db =
      (Inr (pay_id p, redirectUrl created), db')"
    and s: "saveAuthority (pay_id p) (cr_authority created) db = Inr db'" "db_valid db'"
    and t: "payments db' = sql_update (\<lambda>q. pay_id q = pay_id p) (\<lambda>q. q\<lparr>pay_authority := Some (cr_authority created)\<rparr>)
      (payments db)" and subs: "subscriptions db' = subscriptions db" .
  have inv': "billing_inv db'" using billing_step_preserves [OF st_authority [OF s(1)] inv] .
  define q where "q = p\<lparr>pay_authority := Some (cr_authority created)\<rparr>"
  have q: "q \<in> set (payments db')" using p(1) unfolding t q_def in_set_sql_update by auto
  have qf: "pay_id q = pay_id p" "pay_authority q = Some (cr_authority created)" "pay_status q = P_failed"
    "pay_gateway q = pay_gateway p" "pay_mode q = pay_mode p" by (simp_all add: q_def p(2))
  have "find (\<lambda>x. pay_gateway x = gw_name gw \<and> pay_authority x = Some (cr_authority created)) (payments db') = Some q"
  proof (rule find_unique)
    show "q \<in> set (payments db')" by (rule q)
    show "pay_gateway q = gw_name gw \<and> pay_authority q = Some (cr_authority created)" using qf gw by simp
    have "x = q" if "x \<in> set (payments db')" "pay_gateway x = gw_name gw" "pay_authority x = Some (cr_authority created)" for x
      using authority_unique [OF s(2) that(1) q _ that(3) qf(2)] that(2) qf(4) gw(1) by simp
    then show "\<forall>x \<in> set (payments db'). pay_gateway x = gw_name gw \<and> pay_authority x = Some (cr_authority created) \<longrightarrow> x = q"
      by blast
  qed
  then have lock: "lockPaymentForSettle gw (ByAuthority (cr_authority created)) db' = Inr q"
    using qf gw by (simp add: lockPaymentForSettle_def assertGatewayMatches_def)
  have cb: "fst (callback_route env2 gw (cr_authority created) status db') = Inr ''failed'' \<and>
      subscriptions (snd (callback_route env2 gw (cr_authority created) status db')) = subscriptions db'"
    using qf gw
    by (simp add: callback_route_def settlePayment_def withTransaction_def settle_tx_def lock no_hooks_def
        settleLocked_def set_payment_callback [OF s(2)])
  have after: "(\<forall>x \<in> set (payments db''). pay_id x = pay_id p \<longrightarrow> pay_status x = P_failed) \<and>
       (\<nexists>s. s \<in> set (subscriptions db'') \<and> sub_payment s = Some (pay_id p) \<and> is_live s)"
    if "billing_steps db' db''" for db''
    using lifecycle_final [OF inv' that q] qf by simp
  show ?thesis using route q qf cb subs after by (intro exI [of _ db'] conjI bexI [of _ q]) simp_all
qed

theorem retried_checkout_takes_money_witness:
  "\<exists>db'. checkout_route (\<lambda>_. Some 1404) (sample_env 7) (sample_env 8) sample_teams (sample_checkout ''t1'' None)
      (Some ''k1'') ''f'' (\<lambda>_. Inr \<lparr> cr_authority = ''A9'', redirectUrl = ''/pay'' \<rparr>) sample_failed =
      (Inr (''v1'', ''/pay''), db') \<and>
    fst (callback_route (sample_env 9) paying_gateway ''A9'' ''OK'' db') = Inr ''failed''"
proof -
  let ?p = "sample_payment 1 ''t1'' P_failed None (Some ''C'') 1094500"
  let ?create = "\<lambda>n :: rial. Inr \<lparr> cr_authority = ''A9'', redirectUrl = ''/pay'' \<rparr>"
  have p: "?p \<in> set (payments sample_failed)" by (simp add: sample_failed_def)
  have key: "idempotencyKeyFor ''t1'' (Some ''k1'') ''f'' = ''t1:k1''" by code_simp
  have role: "requireTeamRole sample_teams ''t1'' ''o'' team_owner = Inr team_owner" by code_simp
  have new: "(''mock'', Some ''A9'') \<notin> set (authority_keys (payments sample_failed))" by code_simp
  show ?thesis
    using retried_checkout_takes_money [OF sample_inv(2) p, of "sample_checkout ''t1'' None" "Some ''k1''" "''f''"
        sample_teams team_owner ?create "\<lparr> cr_authority = ''A9'', redirectUrl = ''/pay'' \<rparr>" paying_gateway
        "\<lambda>_. Some 1404" "sample_env 7" "sample_env 8" "sample_env 9" "''OK''"] key role new
    by (auto simp: paying_gateway_def sample_payment_def sample_checkout_def sample_digits)
qed

subsection \<open>Refunding a renewal\<close>

lemma set_subscription_succeeds:
  assumes "db_valid db" "\<And>s. subscription_ck s \<Longrightarrow> subscription_ck (f s)" "\<And>s. sub_id (f s) = sub_id s"
    and "distinct (map sub_team (filter is_live (sql_update c f (subscriptions db))))"
  shows "set_subscription c f db = Inr (db\<lparr>subscriptions := sql_update c f (subscriptions db)\<rparr>)"
    "db_valid (db\<lparr>subscriptions := sql_update c f (subscriptions db)\<rparr>)"
proof -
  have "list_all subscription_ck (sql_update c f (subscriptions db))"
    by (rule list_all_sql_update) (use assms in \<open>simp_all add: db_valid_iff subscriptions_error_None\<close>)
  then show v: "db_valid (db\<lparr>subscriptions := sql_update c f (subscriptions db)\<rparr>)"
    using assms by (simp add: db_valid_iff subscriptions_error_None map_sql_update)
  then show "set_subscription c f db = Inr (db\<lparr>subscriptions := sql_update c f (subscriptions db)\<rparr>)"
    unfolding set_subscription_def by (rule exec_valid)
qed

lemma refund_rows_succeeds:
  assumes "db_valid db" "p \<in> set (payments db)" "pay_status p = P_paid"
  shows "\<exists>db'. refund_rows env p ref db = Inr db'"
proof -
  define t where "t = sql_update (\<lambda>q. pay_id q = pay_id p)
      (\<lambda>q. q\<lparr>pay_status := P_refunded, pay_refunded_at := Some (env_now env),
                pay_refund_ref := Some ref, pay_refund_amount := Some (pay_amount q)\<rparr>) (payments db)"
  have "payments_error t = None"
    unfolding t_def
  proof (rule payments_error_update)
    show "payments_error (payments db) = None" using assms(1) by (simp add: db_valid_iff)
    show "payment_ck (q\<lparr>pay_status := P_refunded, pay_refunded_at := Some (env_now env),
        pay_refund_ref := Some ref, pay_refund_amount := Some (pay_amount q)\<rparr>)"
      if "q \<in> set (payments db)" "pay_id q = pay_id p" "payment_ck q" for q
      using same_id_same_payment [OF assms(1) that(1) assms(2) that(2)] that(3) assms(3)
      by (auto simp: payment_ck_def refund_ck_def transfer_ck_def)
  qed simp_all
  then have v: "db_valid (db\<lparr>payments := t\<rparr>)" using assms(1) by (simp add: db_valid_iff)
  have "db_valid (db\<lparr>payments := t, invoices := sql_update (\<lambda>i. inv_id i = iid \<and> inv_status i = I_paid)
      (\<lambda>i. i\<lparr>inv_status := I_refunded, inv_refunded_at := Some (env_now env)\<rparr>) (invoices db)\<rparr>)" for iid
  proof -
    have "list_all invoice_ck (sql_update (\<lambda>i. inv_id i = iid \<and> inv_status i = I_paid)
      (\<lambda>i. i\<lparr>inv_status := I_refunded, inv_refunded_at := Some (env_now env)\<rparr>) (invoices db))"
      by (rule list_all_sql_update) (use assms(1) in \<open>auto simp: db_valid_iff invoices_error_None invoice_ck_def\<close>)
    then show ?thesis using v by (simp add: db_valid_iff invoices_error_None map_sql_update)
  qed
  then show ?thesis
    unfolding refund_rows_def set_payment_def t_def [symmetric] exec_valid [OF v] and_then.simps
    by (auto simp: set_invoice_def exec_valid split: option.splits)
qed

lemma settled_activation:
  assumes "billing_inv db" "p \<in> set (payments db)" "readIntent (pay_request p) = Inr intent" "wf_env env"
    and "settlePayment env gw (ById (pay_id p)) no_hooks db = (Inr (Activated u iid ref), db1)"
  shows "activation env p iid intent db db1" "u = env_uuid1 env" "db_valid db1" "billing_inv db1"
proof -
  have valid: "db_valid db" using assms(1) by (simp add: billing_inv_def)
  from assms(5) have "settle_tx env gw (ById (pay_id p)) no_hooks db = Inr (Activated u iid ref, db1)"
    by (auto simp: settlePayment_def withTransaction_def split: sum.splits)
  then obtain p' where l: "lockPaymentForSettle gw (ById (pay_id p)) db = Inr p'"
    and sl: "settleLocked env gw p' None db = Inr (Activated u iid ref, db1)"
    unfolding settle_tx_def by (auto simp: no_hooks_def elim!: and_then_InrE)
  have "p' = p" using l payment_by_id_Some [OF valid, of "pay_id p" p] assms(2)
    by (auto simp: lockPaymentForSettle_def assertGatewayMatches_def split: if_splits)
  then show act: "activation env p iid intent db db1" and "u = env_uuid1 env" and v1: "db_valid db1"
    using settleLocked_Inr [OF sl] assms(3) by (auto simp: activation_def)
  show "billing_inv db1" by (rule activation_preserves [OF act in_cores [OF assms(2)] assms(4,1) v1])
qed

lemma core_with_status:
  assumes "(core p)\<lparr>k_status := st\<rparr> \<in> set (cores db)"
  obtains q where "q \<in> set (payments db)" "pay_id q = pay_id p" "pay_status q = st" "pay_team q = pay_team p"
    "pay_amount q = pay_amount p" "pay_gateway q = pay_gateway p" "pay_mode q = pay_mode p"
proof -
  from assms obtain q where "q \<in> set (payments db)" "core q = (core p)\<lparr>k_status := st\<rparr>"
    by (metis cores_def imageE set_map)
  then show ?thesis using that by (simp add: core_def)
qed

text \<open>Expiring one row, adding another, canceling that one and reactivating the first.\<close>

lemma update_added:
  assumes "sub_id n \<notin> sub_id ` set t"
  shows "sql_update (\<lambda>q. sub_id q = sub_id n) f (t @ [n]) = t @ [f n]"
proof -
  have "sql_update (\<lambda>q. sub_id q = sub_id n) f t = t"
    by (rule sql_update_none) (use assms in \<open>metis imageI\<close>)
  then show ?thesis by (simp add: sql_update_append)
qed

lemma update_back:
  assumes "distinct (map sub_id t)" "s \<in> set t" "sub_status s = S_active" "sub_id z \<noteq> sub_id s"
  shows "sql_update (\<lambda>q. sub_id q = sub_id s) (\<lambda>q. q\<lparr>sub_status := S_active\<rparr>)
    (sql_update (\<lambda>q. sub_id q = sub_id s) (\<lambda>q. q\<lparr>sub_status := S_expired\<rparr>) t @ [z]) = t @ [z]"
proof -
  have "w = s" if "w \<in> set t" "sub_id w = sub_id s" for w
    using assms(1,2) that by (auto simp: distinct_map dest: inj_onD)
  moreover have "s\<lparr>sub_status := S_active\<rparr> = s" using assms(3) by simp
  ultimately have "sql_update (\<lambda>q. sub_id q = sub_id s) (\<lambda>q. q\<lparr>sub_status := S_active\<rparr>)
    (sql_update (\<lambda>q. sub_id q = sub_id s) (\<lambda>q. q\<lparr>sub_status := S_expired\<rparr>) t) = t"
    unfolding sql_update_def map_map by (intro map_idI) auto
  then show ?thesis using assms(4) by (simp add: sql_update_append)
qed

lemma only_expired:
  assumes ids: "distinct (map sub_id t)" and s: "s \<in> set t"
    and only: "\<forall>q \<in> set t. sub_team q = team \<and> sub_status q = S_expired \<longrightarrow> getTime (sub_end q) \<noteq> getTime (sub_end s)"
    and w: "w \<in> set (sql_update (\<lambda>q. sub_id q = sub_id s) (\<lambda>q. q\<lparr>sub_status := S_expired\<rparr>) t @ [z])"
      "sub_team w = team" "sub_status w = S_expired" "getTime (sub_end w) = getTime (sub_end s)"
    and z: "sub_status z \<noteq> S_expired"
  shows "w = s\<lparr>sub_status := S_expired\<rparr>"
proof -
  have "w \<noteq> z" using w(3) z by auto
  then obtain w0 where w0: "w0 \<in> set t"
    "w = (if sub_id w0 = sub_id s then w0\<lparr>sub_status := S_expired\<rparr> else w0)"
    using w(1) by (auto simp: in_set_sql_update)
  show ?thesis
  proof (cases "sub_id w0 = sub_id s")
    case True
    then have "w0 = s" using ids w0(1) s by (auto simp: distinct_map dest: inj_onD)
    then show ?thesis using w0(2) by simp
  next
    case False
    then have "w0 = w" using w0(2) by simp
    then show ?thesis using only w0(1) w(2-4) by blast
  qed
qed

lemma running_payment_untouched:
  assumes inv: "billing_inv db" and s: "s \<in> set (subscriptions db)" "is_live s" "sub_payment s \<noteq> None"
    and p: "p \<in> set (payments db)" "pay_status p = P_pending"
    and ks: "cores db2 = set_status (pay_id p) P_refunded (set_status (pay_id p) P_paid (cores db))"
  shows "\<exists>w \<in> set (payments db2). sub_payment s = Some (pay_id w) \<and> pay_status w = P_paid"
proof -
  from inv s obtain k where k: "k \<in> set (cores db)" "sub_payment s = Some (k_id k)" "k_status k = P_paid"
    by (fastforce simp: billing_inv_def list_all_iff backed_def)
  have "k_id k \<noteq> pay_id p"
  proof
    assume "k_id k = pay_id p"
    then have "k = core p" using same_id_same_core [OF _ k(1) in_cores [OF p(1)]] inv by (simp add: billing_inv_def)
    then show False using k(3) p(2) by simp
  qed
  then have "k \<in> set (cores db2)"
    using in_set_status [OF k(1), of "pay_id p" P_paid] in_set_status [of k _ "pay_id p" P_refunded] by (simp add: ks)
  then show ?thesis using k(2,3) by (auto simp: cores_def)
qed

text \<open>
  C9. Refunding a renewal at once gives back exactly what the renewal replaced. Suppose the team's active
  subscription was activated by a payment and is still running, the settled payment renews it with the same
  plan, no expired subscription of the team ends at the same instant, and the next transaction is a manual
  refund of that payment, through the gateway it was made with, before the old period ends. Then the refund
  succeeds, and the subscriptions of every team are again what they were before the renewal, with the
  renewal added as canceled: no paid day is lost. The payment becomes refunded; coupons and redemptions
  stay as the renewal left them.
\<close>

theorem refund_undoes_renewal:
  assumes inv: "billing_inv db"
    and s: "s \<in> set (subscriptions db)" "sub_status s = S_active" "sub_payment s \<noteq> None"
      "sub_team s = pay_team p" "sub_plan s = in_planCode intent" "getTime (env_date env) < getTime (sub_end s)"
    and only: "\<forall>q \<in> set (subscriptions db). sub_team q = pay_team p \<and> sub_status q = S_expired \<longrightarrow>
      getTime (sub_end q) \<noteq> getTime (sub_end s)"
    and p: "p \<in> set (payments db)" "readIntent (pay_request p) = Inr intent"
    and settle: "wf_env env" "settlePayment env gw (ById (pay_id p)) no_hooks db = (Inr (Activated u iid ref), db1)"
    and later: "getTime (env_now env2) < getTime (sub_end s)"
      "gw_name gw2 = pay_gateway p" "gw_mode gw2 = pay_mode p"
  shows "\<exists>rows db2. withTransaction (refundPayment env2 gw2 (pay_id p) (ManualRefund r)) db1 = (Inr rows, db2) \<and>
    ro_canceled rows = Some u \<and> ro_restored rows = Some (sub_id s) \<and> ro_amountRial rows = pay_amount p \<and>
    subscriptions db2 = subscriptions db @
      [(new_subscription env (pay_team p) (pay_id p) intent (sub_end s))
         \<lparr>sub_status := S_canceled, sub_canceled_at := Some (env_now env2)\<rparr>] \<and>
    redemptions db2 = redemptions db1 \<and> coupons db2 = coupons db1 \<and> billing_inv db2 \<and>
    (\<exists>q \<in> set (payments db2). pay_id q = pay_id p \<and> pay_status q = P_refunded)"
proof -
  define n where "n = new_subscription env (pay_team p) (pay_id p) intent (sub_end s)"
  define n' where "n' = n\<lparr>sub_status := S_canceled, sub_canceled_at := Some (env_now env2)\<rparr>"
  define x where "x = s\<lparr>sub_status := S_expired\<rparr>"
  define old where "old = sql_update (\<lambda>q. sub_id q = sub_id s) (\<lambda>q. q\<lparr>sub_status := S_expired\<rparr>) (subscriptions db)"
  note act = settled_activation [OF inv p settle]
  have live: "is_live s" using s(2) by (simp add: is_live_def LIVE_SUBSCRIPTION_STATUSES_def)
  have pend: "pay_status p = P_pending" using act(1) by (simp add: activation_def)
  have v: "distinct (map sub_id (subscriptions db))" "distinct (map sub_team (filter is_live (subscriptions db)))"
    using inv by (simp_all add: billing_inv_def db_valid_iff subscriptions_error_None)
  have found_s: "find (\<lambda>q. sub_team q = pay_team p \<and> is_live q) (subscriptions db) = Some s"
  proof (rule find_unique [OF s(1)])
    show "sub_team s = pay_team p \<and> is_live s" using s(4) live by simp
    show "\<forall>q \<in> set (subscriptions db). sub_team q = pay_team p \<and> is_live q \<longrightarrow> q = s"
      using find_live_unique [OF v(2) s(1) live] s(4) by simp
  qed
  then have subs1: "subscriptions db1 = old @ [n]"
    using act(1) s(5,6) by (simp add: activation_def expire_live_def renewal_anchor_def n_def old_def)
  have n: "sub_id n = u" "sub_payment n = Some (pay_id p)" "is_live n" "sub_start n = sub_end s"
    by (simp_all add: n_def new_subscription_def act(2) is_live_def LIVE_SUBSCRIPTION_STATUSES_def)
  have u_new: "sub_id n \<notin> sub_id ` set old"
    using act(3) subs1 by (simp add: db_valid_iff subscriptions_error_None)
  from act(1) in_set_status [OF in_cores [OF p(1)], of "pay_id p" P_paid]
  have "(core p)\<lparr>k_status := P_paid\<rparr> \<in> set (cores db1)" by (simp add: activation_def)
  then obtain q where q: "q \<in> set (payments db1)" "pay_id q = pay_id p" "pay_status q = P_paid"
    "pay_team q = pay_team p" "pay_amount q = pay_amount p" "pay_gateway q = pay_gateway p" "pay_mode q = pay_mode p"
    by (rule core_with_status)
  from refund_rows_succeeds [OF act(3) q(1,3)] obtain db2 where rr: "refund_rows env2 q r db1 = Inr db2" by blast
  note f = refund_rows_Inr [OF rr act(3)]
  have subs2: "subscriptions db2 = old @ [n]" using f subs1 by simp
  have "sub_payment w \<noteq> Some (pay_id p)" if "w \<in> set old" for w
    using one_subscription_per_payment [of "subscriptions db1" w n "pay_id p"] act(4) that n(2) subs1 u_new
    by (auto simp: billing_inv_def)
  then have found: "find (\<lambda>s. activated_by (pay_id p) s \<and> is_live s) (subscriptions db2) = Some n"
    using n by (intro find_unique) (auto simp: subs2 activated_by_def)
  define db3 where "db3 = db2\<lparr>subscriptions := old @ [n']\<rparr>"
  have "distinct (map sub_team (filter is_live (old @ [n'])))"
    using conjunct1 [OF f] n(3) by (simp add: subs2 db_valid_iff subscriptions_error_None n'_def)
  then have c3: "set_subscription (\<lambda>q. sub_id q = sub_id n)
      (\<lambda>q. q\<lparr>sub_status := S_canceled, sub_canceled_at := Some (env_now env2)\<rparr>) db2 = Inr db3" "db_valid db3"
    using set_subscription_succeeds [OF conjunct1 [OF f], where c = "\<lambda>q. sub_id q = sub_id n"
        and f = "\<lambda>q. q\<lparr>sub_status := S_canceled, sub_canceled_at := Some (env_now env2)\<rparr>"]
      update_added [OF u_new]
    by (simp_all add: subs2 db3_def n'_def subscription_ck_def)
  have paid_s: "\<exists>w \<in> set (payments db3). sub_payment x = Some (pay_id w) \<and> pay_status w = P_paid"
    using running_payment_untouched [OF inv s(1) live s(3) p(1) pend, of db2] f act(1) q(2)
    by (simp add: activation_def db3_def x_def)
  have rfind: "find (replaced_by env2 (pay_team q) (sub_start n) db3) (subscriptions db3) = Some x"
  proof (rule find_unique)
    show "x \<in> set (subscriptions db3)" using s(1) by (auto simp: db3_def old_def x_def in_set_sql_update)
    show "replaced_by env2 (pay_team q) (sub_start n) db3 x"
      using paid_s later(1) s(4) by (simp add: replaced_by_def x_def n(4) q(4))
    show "\<forall>w \<in> set (subscriptions db3). replaced_by env2 (pay_team q) (sub_start n) db3 w \<longrightarrow> w = x"
      using only_expired [OF v(1) s(1) only, of _ n']
      by (auto simp: replaced_by_def n(4) q(4) db3_def old_def x_def n'_def)
  qed
  have "sub_id s \<in> sub_id ` set old"
    unfolding set_map [symmetric] old_def by (subst map_sql_update) (use s(1) in simp_all)
  then have "sub_id n' \<noteq> sub_id s" using u_new by (auto simp: n'_def)
  note again = update_back [OF v(1) s(1,2) this, folded old_def]
  have "distinct (map sub_team (filter is_live (subscriptions db @ [n'])))" using v(2) by (simp add: n'_def)
  then have c4: "set_subscription (\<lambda>q. sub_id q = sub_id x) (\<lambda>q. q\<lparr>sub_status := S_active\<rparr>) db3 =
      Inr (db3\<lparr>subscriptions := subscriptions db @ [n']\<rparr>)"
    using set_subscription_succeeds(1) [OF c3(2), where c = "\<lambda>q. sub_id q = sub_id x"
        and f = "\<lambda>q. q\<lparr>sub_status := S_active\<rparr>"] again
    by (simp add: db3_def subscription_ck_def x_def)
  define db4 where "db4 = db3\<lparr>subscriptions := subscriptions db @ [n']\<rparr>"
  define rows where "rows = \<lparr> ro_paymentId = pay_id q, ro_refundRef = r, ro_amountRial = pay_amount q,
    ro_canceled = Some (sub_id n), ro_couponCode = as_string (get_field (pay_request q) ''couponCode''),
    ro_restored = Some (sub_id x) \<rparr>"
  have "payment_by_id db1 (pay_id p) = Some q" using payment_by_id_Some [OF act(3)] q(1,2) by simp
  then have run: "refundPayment env2 gw2 (pay_id p) (ManualRefund r) db1 = Inr (rows, db4)"
    unfolding refundPayment_def Let_def
    by (simp add: assertGatewayMatches_def q later(2,3) resolveRefundRef_def rr found c3 restore_replaced_def
        rfind [unfolded q(4)] c4 db4_def rows_def)
  have "billing_inv db4" using refundPayment_Inr [OF run act(3)] refunding_preserves act(4) by blast
  moreover have "\<exists>w \<in> set (payments db4). pay_id w = pay_id p \<and> pay_status w = P_refunded"
  proof -
    have "(core q)\<lparr>k_status := P_refunded\<rparr> \<in> set (cores db2)"
      using in_set_status [OF in_cores [OF q(1)], of "pay_id p" P_refunded] f q(2) by simp
    then obtain w where "w \<in> set (payments db2)" "pay_id w = pay_id q" "pay_status w = P_refunded"
      by (rule core_with_status)
    then show ?thesis using q(2) by (auto simp: db4_def db3_def)
  qed
  moreover have "redemptions db4 = redemptions db1" "coupons db4 = coupons db1"
    using f by (simp_all add: db4_def db3_def)
  ultimately show ?thesis
    using run n(1) q(5)
    by (intro exI [of _ rows] exI [of _ db4])
      (simp add: withTransaction_def rows_def n'_def n_def x_def db4_def)
qed

theorem refund_undoes_renewal_witness:
  "\<exists>rows db2. withTransaction (refundPayment (sample_env 8) paying_gateway ''v2'' (ManualRefund ''M'')) sample_renewed =
      (Inr rows, db2) \<and> ro_canceled rows = Some ''u7'' \<and> ro_restored rows = Some ''s1''"
proof -
  let ?p = "sample_payment 2 ''t1'' P_pending (Some ''A2'') None 2189000"
  have s: "sample_subscription \<in> set (subscriptions sample_renewing)" and p: "?p \<in> set (payments sample_renewing)"
    by (simp_all add: sample_renewing_def sample_raced_def)
  have active: "sub_status sample_subscription = S_active" "sub_payment sample_subscription \<noteq> None"
    "sub_team sample_subscription = pay_team ?p" "sub_plan sample_subscription = in_planCode (sample_intent None)"
    by (simp_all add: sample_subscription_def sample_payment_def sample_intent_def)
  have later: "getTime (env_date (sample_env 7)) < getTime (sub_end sample_subscription)"
    "getTime (env_now (sample_env 8)) < getTime (sub_end sample_subscription)" by code_simp+
  have only: "\<forall>q \<in> set (subscriptions sample_renewing). sub_team q = pay_team ?p \<and> sub_status q = S_expired \<longrightarrow>
      getTime (sub_end q) \<noteq> getTime (sub_end sample_subscription)"
    by (simp add: sample_renewing_def sample_raced_def sample_subscription_def)
  have "pay_id ?p = ''v2''" by (simp add: sample_payment_def sample_digits)
  moreover have "settlePayment (sample_env 7) paying_gateway (ById ''v2'') no_hooks sample_renewing =
      (Inr (Activated ''u7'' ''u2'' ''R1''), sample_renewed)"
  proof -
    have "(case pay_tx 7 ''v2'' sample_renewing of Inr (x, db) \<Rightarrow> Some x | Inl _ \<Rightarrow> None) =
      Some (Activated ''u7'' ''u2'' ''R1'')" by code_simp
    then have "pay_tx 7 ''v2'' sample_renewing = Inr (Activated ''u7'' ''u2'' ''R1'', sample_renewed)"
      by (auto simp: sample_renewed_def db_after_def split: sum.splits)
    then show ?thesis by (simp add: settlePayment_def withTransaction_def pay_tx_def)
  qed
  ultimately show ?thesis
    using refund_undoes_renewal [OF sample_inv(4) s active later(1) only p readIntent_sample(1) wf_env_sample, of
        paying_gateway "''u7''" "''u2''" "''R1''" sample_renewed "sample_env 8" paying_gateway "''M''"] later(2)
    by (auto simp: paying_gateway_def sample_payment_def sample_subscription_def)
qed

end
