(* ===== verification/BillingCheckout.thy ===== *)
theory BillingCheckout
  imports BillingProperties
begin

text \<open>
  What a checkout writes and what happens to it before it is settled: its rows satisfy the constraints of
  their tables and can be activated, a second request with the same key, and expiry.
\<close>

subsection \<open>The rows of a checkout\<close>

lemma computeCharge_rows:
  assumes "computeCharge i = Inr charge"
  shows "subtotalRial charge - discountRial charge + vatRial charge = totalRial charge \<and>
    0 \<le> discountRial charge \<and> discountRial charge \<le> subtotalRial charge \<and> 0 \<le> subtotalRial charge \<and>
    0 \<le> vatRial charge \<and> ch_vatPercent charge = ci_vatPercent i \<and> 0 \<le> ci_vatPercent i \<and>
    1 \<le> ci_seats i \<and> is_safe_integer (ci_seats i) \<and>
    is_safe_integer (li_unitPriceRial (hd (lineItems charge))) \<and> 0 \<le> li_unitPriceRial (hd (lineItems charge))"
  using assms unfolding computeCharge_def Let_def
  by (auto split: if_splits intro!: percentOfRial_nonneg)

lemma assertGatewayAmount_Inr: "assertGatewayAmount n = Inr () \<Longrightarrow> 1000 \<le> n"
  by (simp add: assertGatewayAmount_def GATEWAY_MIN_RIAL_def split: if_splits)

lemma read_period_name: "read_period (Some (JStr (period_name p))) = Some p"
  by (cases p) (simp_all add: read_period_def period_name_def)

text \<open>The frozen purchase reads back as itself, with or without the snapshot of a transfer destination.\<close>

lemma readIntent_intent_json:
  assumes "in_planCode i \<noteq> []" "1 \<le> in_seats i" "is_safe_integer (in_seats i)" "is_safe_integer (in_unitPriceRial i)"
  shows "readIntent (intent_json i snapshot) = Inr i"
  using assms
  by (cases snapshot; cases "in_couponCode i")
    (simp_all add: readIntent_def intent_json_def read_period_name read_safe_integer_def json_of_option_def)

text \<open>
  C17. Rows of a checkout conform. Whenever the pricing of a checkout succeeds, for one of the gateways the
  tables know and a VAT of at most 100 percent, the invoice and the payment it inserts satisfy every CHECK
  constraint of their tables, the payment carries the total of the invoice, and the purchase frozen in it
  reads back as exactly what was bought with a unit price that is not negative, whatever snapshot is stored
  beside it, so that settling it cannot fail on an unreadable purchase.
\<close>

theorem checkout_rows_conform:
  assumes price: "price_checkout env inp db = Inr (row, charge)"
    and gw: "co_gatewayName inp \<in> {''zarinpal'', ''idpay'', ''mock'', ''card_transfer''}"
      "co_gatewayMode inp \<in> {''sandbox'', ''production''}"
    and vat: "co_vatPercent inp \<le> 100" and plan: "co_planCode inp \<noteq> []"
  shows "invoice_ck (new_invoice env inp charge number) \<and> payment_ck (new_payment env inp row charge key) \<and>
    pay_amount (new_payment env inp row charge key) = inv_total (new_invoice env inp charge number) \<and>
    pay_invoice (new_payment env inp row charge key) = Some (inv_id (new_invoice env inp charge number)) \<and>
    (\<exists>intent. readIntent (pay_request (new_payment env inp row charge key)) = Inr intent \<and>
       in_planCode intent = co_planCode inp \<and> in_period intent = co_period inp \<and> in_seats intent = co_seats inp \<and>
       in_couponCode intent = co_couponCode inp \<and> 0 \<le> in_unitPriceRial intent)"
proof -
  note p = price_checkout_Inr [OF price]
  from p(4) obtain coupon where "computeCharge \<lparr> ci_plan = pl_plan row, ci_period = co_period inp,
      ci_seats = co_seats inp, ci_coupon = coupon, ci_vatPercent = co_vatPercent inp \<rparr> = Inr charge" by blast
  note c = computeCharge_rows [OF this, simplified]
  have total: "1000 \<le> totalRial charge" using assertGatewayAmount_Inr [OF p(5)] .
  have "invoice_ck (new_invoice env inp charge number)"
    using c vat total by (simp add: invoice_ck_def new_invoice_def)
  moreover have "payment_ck (new_payment env inp row charge key)"
    using gw total by (simp add: payment_ck_def refund_ck_def transfer_ck_def last4_ck_def no_transfer_def new_payment_def)
  moreover have "readIntent (pay_request (new_payment env inp row charge key)) =
      Inr \<lparr> in_planCode = plan_code (pl_plan row), in_period = co_period inp, in_seats = co_seats inp,
        in_unitPriceRial = li_unitPriceRial (hd (lineItems charge)), in_couponCode = co_couponCode inp \<rparr>"
    unfolding new_payment_def Payment.simps by (rule readIntent_intent_json) (use c p plan in simp_all)
  ultimately show ?thesis using c p(2) by (simp add: new_payment_def new_invoice_def)
qed

theorem checkout_rows_conform_witness:
  "\<exists>row charge intent. price_checkout (sample_env 7) (sample_checkout ''t1'' (Some ''C'')) sample_db = Inr (row, charge) \<and>
    readIntent (pay_request (new_payment (sample_env 7) (sample_checkout ''t1'' (Some ''C'')) row charge ''k'')) = Inr intent \<and>
    in_seats intent = 1"
proof -
  have "isl (price_checkout (sample_env 7) (sample_checkout ''t1'' (Some ''C'')) sample_db) = False" by code_simp
  then obtain row charge where p: "price_checkout (sample_env 7) (sample_checkout ''t1'' (Some ''C'')) sample_db = Inr (row, charge)"
    by (cases "price_checkout (sample_env 7) (sample_checkout ''t1'' (Some ''C'')) sample_db") auto
  show ?thesis using checkout_rows_conform [OF p, of "''n''" "''k''"] p by (simp add: sample_checkout_def) blast
qed

subsection \<open>Two requests with one key\<close>

text \<open>
  The loser of two requests forgets the authority of the winner. When a second request with the same key
  finds the payment of the first one still pending, it is given that payment, asks the gateway for another
  authority and overwrites the saved one. A customer who then pays with the first authority comes back to a
  callback that finds no payment: it shows the failure page and changes nothing, and nobody asks the gateway
  about that authority any more.
\<close>

theorem replayed_checkout_forgets_authority:
  assumes inv: "billing_inv db" and p: "p \<in> set (payments db)" "pay_status p = P_pending" "pay_authority p = Some a"
    and key: "idempotencyKeyFor (co_teamId inp) header fresh = pay_idem p"
    and role: "requireTeamRole teams (co_teamId inp) (co_userId inp) team_owner = Inr role"
    and create: "create (pay_amount p) = Inr created"
    and new: "(pay_gateway p, Some (cr_authority created)) \<notin> set (authority_keys (payments db))"
    and gw: "gw_name gw = pay_gateway p"
  shows "\<exists>db'. checkout_route intl env env' teams inp header fresh create db =
      (Inr (pay_id p, redirectUrl created), db') \<and>
    (\<exists>q \<in> set (payments db'). pay_id q = pay_id p \<and> pay_status q = P_pending \<and>
       pay_authority q = Some (cr_authority created)) \<and>
    (\<nexists>q. q \<in> set (payments db') \<and> pay_gateway q = pay_gateway p \<and> pay_authority q = Some a) \<and>
    callback_route env2 gw a status db' = (Inr ''failed'', db') \<and> subscriptions db' = subscriptions db"
proof -
  have valid: "db_valid db" using inv by (simp add: billing_inv_def)
  from replayed_checkout [where create = create and intl = intl and env = env and env' = env', OF valid p(1) key role create new]
  obtain db' where route: "checkout_route intl env env' teams inp header fresh create db =
      (Inr (pay_id p, redirectUrl created), db')"
    and t: "payments db' = sql_update (\<lambda>q. pay_id q = pay_id p) (\<lambda>q. q\<lparr>pay_authority := Some (cr_authority created)\<rparr>)
      (payments db)" and subs: "subscriptions db' = subscriptions db" .
  have other: "cr_authority created \<noteq> a"
    using new p(1,3) by (auto simp: authority_keys_def)
  have gone: "\<nexists>q. q \<in> set (payments db') \<and> pay_gateway q = pay_gateway p \<and> pay_authority q = Some a"
  proof
    assume "\<exists>q. q \<in> set (payments db') \<and> pay_gateway q = pay_gateway p \<and> pay_authority q = Some a"
    then obtain q where q: "q \<in> set (payments db')" "pay_gateway q = pay_gateway p" "pay_authority q = Some a" by blast
    from q(1) obtain x where x: "x \<in> set (payments db)"
      "q = (if pay_id x = pay_id p then x\<lparr>pay_authority := Some (cr_authority created)\<rparr> else x)"
      unfolding t in_set_sql_update by blast
    show False
    proof (cases "pay_id x = pay_id p")
      case True
      then show False using x(2) q(3) other by simp
    next
      case False
      then show False using authority_unique [OF valid p(1) x(1) _ p(3)] x(2) q by simp
    qed
  qed
  then have "find (\<lambda>x. pay_gateway x = gw_name gw \<and> pay_authority x = Some a) (payments db') = None"
    unfolding find_None_iff using gw by simp
  then have "callback_route env2 gw a status db' = (Inr ''failed'', db')"
    by (simp add: callback_route_def settlePayment_def withTransaction_def settle_tx_def lockPaymentForSettle_def)
  moreover have "p\<lparr>pay_authority := Some (cr_authority created)\<rparr> \<in> set (payments db')"
    using p(1) unfolding t in_set_sql_update by auto
  then have "\<exists>q \<in> set (payments db'). pay_id q = pay_id p \<and> pay_status q = P_pending \<and>
       pay_authority q = Some (cr_authority created)"
    using p(2) by (intro bexI) simp_all
  ultimately show ?thesis using route gone subs by blast
qed

theorem replayed_checkout_forgets_authority_witness:
  "\<exists>db'. checkout_route (\<lambda>_. Some 1404) (sample_env 7) (sample_env 8) sample_teams (sample_checkout ''t1'' None)
      (Some ''k1'') ''f'' (\<lambda>_. Inr \<lparr> cr_authority = ''A9'', redirectUrl = ''/pay'' \<rparr>) sample_waiting =
      (Inr (''v1'', ''/pay''), db') \<and>
    callback_route (sample_env 9) paying_gateway ''A1'' ''OK'' db' = (Inr ''failed'', db')"
proof -
  let ?p = "sample_payment 1 ''t1'' P_pending (Some ''A1'') (Some ''C'') 1094500"
  let ?create = "\<lambda>n :: rial. Inr \<lparr> cr_authority = ''A9'', redirectUrl = ''/pay'' \<rparr>"
  have p: "?p \<in> set (payments sample_waiting)" by (simp add: sample_waiting_def)
  have key: "idempotencyKeyFor ''t1'' (Some ''k1'') ''f'' = ''t1:k1''" by code_simp
  have role: "requireTeamRole sample_teams ''t1'' ''o'' team_owner = Inr team_owner" by code_simp
  have new: "(''mock'', Some ''A9'') \<notin> set (authority_keys (payments sample_waiting))" by code_simp
  show ?thesis
    using replayed_checkout_forgets_authority [OF sample_inv(1) p, of "''A1''" "sample_checkout ''t1'' None" "Some ''k1''"
        "''f''" sample_teams team_owner ?create "\<lparr> cr_authority = ''A9'', redirectUrl = ''/pay'' \<rparr>" paying_gateway
        "\<lambda>_. Some 1404" "sample_env 7" "sample_env 8" "sample_env 9" "''OK''"] key role new
    by (auto simp: paying_gateway_def sample_payment_def sample_checkout_def sample_digits)
qed

subsection \<open>Expiry\<close>

text \<open>What was settled says what the gateway answered.\<close>

lemma settleLocked_verdict:
  assumes "settleLocked env gw p None db = Inr (outcome, db1)" "pay_status p = P_pending" "pay_authority p = Some a"
  shows "(\<exists>u i r. outcome = Activated u i r) = (\<exists>al ref pan hash fee. gw_verify gw db a (pay_amount p) = Paid al ref pan hash fee)"
    "(\<exists>c. outcome = StillNotPaid c) = (\<exists>c. gw_verify gw db a (pay_amount p) = NotPaid c)"
    "(outcome = SettleUnknown) = (\<exists>c. gw_verify gw db a (pay_amount p) = GatewayError c)"
    "outcome \<noteq> AlreadySettled x y z"
  using assms
  by (cases "gw_verify gw db a (pay_amount p)"; auto simp: settleLocked_def Let_def elim!: and_then_InrE)+

lemma cores_auditSweepSettle [simp]: "cores (auditSweepSettle actor i outcome via db) = cores db"
  by (simp add: auditSweepSettle_def recordAudit_def cores_def)

text \<open>
  C18. Expiry asks first. A pending payment is voided by the sweep or by staff only when the gateway, asked in
  the same transaction, says that it is not paid; then the payment is canceled and its open invoice void. A
  confirmed payment activates instead, and without an answer of the gateway the payment stays pending.
\<close>

theorem expiry_asks_first:
  assumes inv: "billing_inv db"
    and run: "expireStalePayment env gw actor i reason db = (Inr kind, db')"
    and p: "p \<in> set (payments db)" "pay_id p = i" "pay_status p = P_pending" "pay_authority p = Some a"
  shows "(kind = Expired) = (\<exists>c. gw_verify gw db a (pay_amount p) = NotPaid c) \<and>
    (kind = ExpireActivated) = (\<exists>al ref pan hash fee. gw_verify gw db a (pay_amount p) = Paid al ref pan hash fee) \<and>
    (kind = ExpireUnknown) = (\<exists>c. gw_verify gw db a (pay_amount p) = GatewayError c) \<and>
    (\<exists>k \<in> set (cores db'). k_id k = i \<and>
       k_status k = (if kind = Expired then P_canceled else if kind = ExpireActivated then P_paid else P_pending))"
proof -
  have valid: "db_valid db" using inv by (simp add: billing_inv_def)
  have tx: "expire_tx env gw actor i reason db = Inr (kind, db')"
    using withTransaction_cases [of "expire_tx env gw actor i reason" db] run
    by (auto simp: expireStalePayment_def withTransaction_def split: sum.splits)
  have "payment_by_id db i = Some p" using payment_by_id_Some [OF valid] p(1,2) by simp
  then have match: "assertGatewayMatches p gw = Inr ()" and lock: "lockPaymentForSettle gw (ById i) db = Inr p"
    using tx by (auto simp: expire_tx_def lockPaymentForSettle_def assertGatewayMatches_def split: if_splits)
  obtain outcome db1 where s: "settleLocked env gw p None db = Inr (outcome, db1)"
    using tx p(3) by (auto simp: expire_tx_def lock elim!: and_then_InrE)
  note verdict = settleLocked_verdict [OF s p(3,4)]
  note moved = settleLocked_Inr [OF s]
  have mine: "core p \<in> set (cores db)" "k_id (core p) = i" "k_status (core p) = P_pending"
    using in_cores [OF p(1)] p(2,3) by simp_all
  show ?thesis
  proof (cases outcome)
    case (Activated u iid ref)
    then have k: "kind = ExpireActivated" "cores db' = cores db1"
      using tx p(3) cores_auditSweepSettle [of actor i outcome "''expire''" db1]
      by (simp_all add: expire_tx_def lock s Let_def)
    obtain iid intent where "activation env p iid intent db db1" using moved Activated by auto
    then have "(core p)\<lparr>k_status := P_paid\<rparr> \<in> set (cores db')"
      using in_set_status [OF mine(1), of "pay_id p" P_paid] k(2) by (simp add: activation_def)
    then show ?thesis using verdict Activated k(1) mine(2) by (auto intro!: bexI)
  next
    case (AlreadySettled x y z)
    then show ?thesis using verdict by simp
  next
    case (StillNotPaid c)
    then obtain db2 where e: "applyExpiry env p actor reason (code_text c) db2 = Inr db'" "kind = Expired"
      "db2 = auditSweepSettle actor i outcome ''expire'' db1"
      using tx p(3) by (auto simp: expire_tx_def lock s Let_def elim!: and_then_InrE)
    have "db2 = db1" using e(3) StillNotPaid by (simp add: auditSweepSettle_def outcome_kind_def)
    moreover have same: "same_core db db1" "db_valid db1" using moved StillNotPaid valid by auto
    ultimately have "closing (pay_id p) P_canceled (pay_invoice p) db1 db'"
      using applyExpiry_Inr [OF e(1) _ _ p(3)] mine(1) by (simp add: same_core_def)
    then have "cores db' = sql_update (\<lambda>k. k_id k = pay_id p \<and> k_status k = P_pending)
        (\<lambda>k. k\<lparr>k_status := P_canceled\<rparr>) (cores db)"
      using same(1) by (simp add: closing_def same_core_def)
    then have "(core p)\<lparr>k_status := P_canceled\<rparr> \<in> set (cores db')"
      using mine p(2) by (simp add: in_set_sql_update) (intro bexI [of _ "core p"], simp_all)
    then show ?thesis using verdict StillNotPaid e(2) mine(2) by (auto intro!: bexI)
  next
    case SettleUnknown
    then have "kind = ExpireUnknown" "cores db' = cores db1"
      using tx p(3) cores_auditSweepSettle [of actor i outcome "''expire''" db1]
      by (simp_all add: expire_tx_def lock s Let_def)
    then show ?thesis using verdict SettleUnknown mine moved by (auto simp: same_core_def intro!: bexI)
  qed
qed

theorem expiry_asks_first_witness:
  "\<exists>k \<in> set (cores (snd (expireStalePayment (sample_env 7) refusing_gateway None ''v1'' ''sweep'' sample_waiting))).
     k_id k = ''v1'' \<and> k_status k = P_canceled"
proof -
  let ?p = "sample_payment 1 ''t1'' P_pending (Some ''A1'') (Some ''C'') 1094500"
  let ?run = "expireStalePayment (sample_env 7) refusing_gateway None ''v1'' ''sweep'' sample_waiting"
  have "fst ?run = Inr Expired" by code_simp
  then have run: "?run = (Inr Expired, snd ?run)" by (cases ?run) simp
  have p: "?p \<in> set (payments sample_waiting)" by (simp add: sample_waiting_def)
  show ?thesis
    using expiry_asks_first [OF sample_inv(1) run p] by (simp add: sample_payment_def sample_digits)
qed

end
